(* ===== verification/Prelude.thy ===== *)
theory Prelude
  imports Main "HOL-Library.Word" "HOL-Library.Sublist"
begin

text \<open>
  Shared vocabulary of the development: bytes and machine integers, the results of
  \<^verbatim>\<open>Poll\<close> and of \<^verbatim>\<open>io::Result\<close>, Rust's checked integer arithmetic, and the string
  functions of the standard library that several components use (\<^verbatim>\<open>split\<close>, \<^verbatim>\<open>trim\<close>,
  \<^verbatim>\<open>eq_ignore_ascii_case\<close>, \<^verbatim>\<open>starts_with\<close>, \<^verbatim>\<open>ends_with\<close>), each with the lemmas the
  component proofs rest on.

  A byte is a \<^typ>\<open>char\<close>: an HOL character is exactly eight bits, so that text protocols can
  be written with string literals and \<^const>\<open>of_char\<close>/\<^const>\<open>char_of\<close> give the numeric value
  (\<^const>\<open>char_of\<close> reduces modulo 256, as Rust's \<^verbatim>\<open>as u8\<close> does). A \<^verbatim>\<open>u64\<close> is a
  \<^typ>\<open>64 word\<close>. A \<^verbatim>\<open>usize\<close> that counts bytes held in memory is a \<^typ>\<open>nat\<close>; the target
  is a 64-bit one wherever the width of \<^verbatim>\<open>usize\<close> shows.
\<close>

section \<open>Types\<close>

type_synonym byte = char
type_synonym bytes = "char list"
type_synonym u8 = "8 word"
type_synonym u16 = "16 word"
type_synonym u64 = "64 word"

datatype 'a poll = Pending | Ready 'a

datatype io_kind =
    UnexpectedEof
  | InvalidInput
  | InvalidData
  | WriteZero
  | BrokenPipe
  | OtherKind

text \<open>
  An \<^verbatim>\<open>io::Error\<close> is its kind and the message it was built with. A branch where the Rust
  code panics (\<^verbatim>\<open>expect\<close>, \<^verbatim>\<open>assert!\<close>, an index out of range) is \<^term>\<open>Panicked\<close>, so
  that the absence of panics can be stated and proved.
\<close>

datatype io_error = IoError io_kind string | Panicked string

type_synonym 'a io_result = "io_error + 'a"

named_theorems wf_intros \<open>preservation of the components' invariants\<close>
named_theorems codec_simps \<open>equations of the encoders and decoders\<close>

section \<open>Checked machine arithmetic\<close>

text \<open>\<^verbatim>\<open>u64::checked_mul\<close> and \<^verbatim>\<open>u64::checked_add\<close>.\<close>

definition checked_mul :: "'a::len word \<Rightarrow> 'a word \<Rightarrow> 'a word option" where
  "checked_mul a b = (if unat a * unat b < 2 ^ LENGTH('a) then Some (a * b) else None)"

definition checked_add :: "'a::len word \<Rightarrow> 'a word \<Rightarrow> 'a word option" where
  "checked_add a b = (if unat a + unat b < 2 ^ LENGTH('a) then Some (a + b) else None)"

lemma checked_mul_Some:
  "checked_mul a b = Some c \<longleftrightarrow> unat a * unat b < 2 ^ LENGTH('a) \<and> unat c = unat a * unat b"
  for a b c :: "'a::len word"
  by (auto simp: checked_mul_def unat_mult_lem word_unat_eq_iff)

lemma checked_add_Some:
  "checked_add a b = Some c \<longleftrightarrow> unat a + unat b < 2 ^ LENGTH('a) \<and> unat c = unat a + unat b"
  for a b c :: "'a::len word"
  by (auto simp: checked_add_def unat_add_lem word_unat_eq_iff)

lemma checked_mul_None:
  "checked_mul a b = None \<longleftrightarrow> 2 ^ LENGTH('a) \<le> unat a * unat b"
  for a b :: "'a::len word"
  by (auto simp: checked_mul_def)

lemma checked_add_None:
  "checked_add a b = None \<longleftrightarrow> 2 ^ LENGTH('a) \<le> unat a + unat b"
  for a b :: "'a::len word"
  by (auto simp: checked_add_def)

lemma unat_of_nat_u64: "n < 2 ^ 64 \<Longrightarrow> unat (of_nat n :: u64) = n"
  by (simp add: unat_of_nat take_bit_nat_eq_self)

lemma of_nat_unat_eq: "unat w = n \<Longrightarrow> w = of_nat n" for w :: "'a::len word"
  by auto

lemma unat_minus_le: "b \<le> a \<Longrightarrow> unat (a - b) = unat a - unat b" for a b :: "'a::len word"
  by (simp add: unat_sub)

section \<open>Bytes and strings\<close>

text \<open>The byte with a given numeric value, and the line-ending bytes.\<close>

abbreviation CR :: byte where "CR \<equiv> CHR 0x0D"
abbreviation LF :: byte where "LF \<equiv> CHR 0x0A"
abbreviation TAB :: byte where "TAB \<equiv> CHR 0x09"
abbreviation SP :: byte where "SP \<equiv> CHR 0x20"
abbreviation CRLF :: bytes where "CRLF \<equiv> [CR, LF]"

abbreviation byte_val :: "byte \<Rightarrow> nat" where "byte_val b \<equiv> of_char b"

text \<open>A byte range pattern \<^verbatim>\<open>lo..=hi\<close>.\<close>

definition byte_in :: "byte \<Rightarrow> byte \<Rightarrow> byte \<Rightarrow> bool" where
  "byte_in lo hi b \<longleftrightarrow> byte_val lo \<le> byte_val b \<and> byte_val b \<le> byte_val hi"

text \<open>\<^verbatim>\<open>u8::to_ascii_lowercase\<close>, \<^verbatim>\<open>u8::make_ascii_uppercase\<close>, \<^verbatim>\<open>u8::is_ascii_whitespace\<close>
  (which does not count the vertical tab).\<close>

definition to_ascii_lowercase :: "byte \<Rightarrow> byte" where
  "to_ascii_lowercase b = (if byte_in CHR ''A'' CHR ''Z'' b then char_of (byte_val b + 32) else b)"

definition to_ascii_uppercase :: "byte \<Rightarrow> byte" where
  "to_ascii_uppercase b = (if byte_in CHR ''a'' CHR ''z'' b then char_of (byte_val b - 32) else b)"

definition is_ascii_whitespace :: "byte \<Rightarrow> bool" where
  "is_ascii_whitespace b \<longleftrightarrow> b \<in> {SP, TAB, LF, CR, CHR 0x0C}"

text \<open>\<^verbatim>\<open>str::eq_ignore_ascii_case\<close>.\<close>

definition eq_ignore_ascii_case :: "string \<Rightarrow> string \<Rightarrow> bool" where
  "eq_ignore_ascii_case s t \<longleftrightarrow> map to_ascii_lowercase s = map to_ascii_lowercase t"

text \<open>\<^verbatim>\<open>char::is_whitespace\<close> on the ASCII characters, and \<^verbatim>\<open>str::trim\<close> over it.\<close>

definition is_whitespace :: "byte \<Rightarrow> bool" where
  "is_whitespace b \<longleftrightarrow> b \<in> {SP, TAB, LF, CHR 0x0B, CHR 0x0C, CR}"

definition trim_with :: "(byte \<Rightarrow> bool) \<Rightarrow> string \<Rightarrow> string" where
  "trim_with p s = dropWhile p (rev (dropWhile p (rev s)))"

definition trim :: "string \<Rightarrow> string" where
  "trim = trim_with is_whitespace"

text \<open>\<^verbatim>\<open>str::split(c)\<close>: the pieces between the separators, at least one.\<close>

fun split_on :: "'a \<Rightarrow> 'a list \<Rightarrow> 'a list list" where
  "split_on c [] = [[]]"
| "split_on c (x # xs) =
     (if x = c then [] # split_on c xs
      else case split_on c xs of [] \<Rightarrow> [[x]] | p # ps \<Rightarrow> (x # p) # ps)"

text \<open>\<^verbatim>\<open>starts_with\<close> and \<^verbatim>\<open>ends_with\<close>.\<close>

definition starts_with :: "'a list \<Rightarrow> 'a list \<Rightarrow> bool" where
  "starts_with s p \<longleftrightarrow> take (length p) s = p"

definition ends_with :: "'a list \<Rightarrow> 'a list \<Rightarrow> bool" where
  "ends_with s p \<longleftrightarrow> length p \<le> length s \<and> drop (length s - length p) s = p"

lemma split_on_not_Nil [simp]: "split_on c s \<noteq> []"
  by (induction s) (auto split: list.splits)

lemma split_on_no_sep: "c \<notin> set s \<Longrightarrow> split_on c s = [s]"
  by (induction s) auto

lemma split_on_append_sep:
  "c \<notin> set s \<Longrightarrow> split_on c (s @ c # t) = s # split_on c t"
  by (induction s) auto

lemma split_on_pieces: "p \<in> set (split_on c s) \<Longrightarrow> c \<notin> set p"
  by (induction s arbitrary: p) (auto split: if_splits list.splits)

lemma length_split_on: "length (split_on c s) = Suc (count_list s c)"
  by (induction s) (auto split: list.splits)

lemma last_split_on_append:
  "last (split_on c (s @ c # t)) = last (split_on c t)"
proof (induction s)
  case (Cons x s)
  have "length (split_on c (s @ c # t)) \<noteq> Suc 0"
    by (simp add: length_split_on)
  then show ?case using Cons.IH by (auto split: list.splits)
qed simp

lemma starts_with_append [simp]: "starts_with (p @ s) p"
  by (simp add: starts_with_def)

lemma starts_with_iff: "starts_with s p \<longleftrightarrow> (\<exists>t. s = p @ t)"
  by (auto simp: starts_with_def) (metis append_take_drop_id)

lemma ends_with_iff: "ends_with s p \<longleftrightarrow> (\<exists>t. s = t @ p)"
  by (auto simp: ends_with_def) (metis append_take_drop_id)

lemma eq_ignore_ascii_case_refl [simp]: "eq_ignore_ascii_case s s"
  by (simp add: eq_ignore_ascii_case_def)

lemma trim_with_no_ws:
  "s = [] \<or> (\<not> p (hd s) \<and> \<not> p (last s)) \<Longrightarrow> trim_with p s = s"
proof (cases s rule: rev_cases)
  case (snoc ys y)
  assume "s = [] \<or> (\<not> p (hd s) \<and> \<not> p (last s))"
  with snoc have "\<not> p (hd (ys @ [y]))" and "\<not> p y" by auto
  then show ?thesis using snoc by (cases ys) (auto simp: trim_with_def)
qed (simp add: trim_with_def)

lemma trim_with_leading:
  assumes "p c"
  shows "trim_with p (c # s) = trim_with p s"
proof (cases "\<forall>x\<in>set s. p x")
  case True
  with assms have "dropWhile p (rev s @ [c]) = []" and "dropWhile p (rev s) = []"
    by (simp_all add: dropWhile_eq_Nil_conv)
  then show ?thesis by (simp only: trim_with_def rev.simps)
next
  case False
  then have "dropWhile p (rev s @ [c]) = dropWhile p (rev s) @ [c]"
    by (auto simp: dropWhile_append)
  with assms show ?thesis by (simp add: trim_with_def)
qed

section \<open>Reading a prefix of a buffer\<close>

text \<open>\<^verbatim>\<open>BytesMut::split_to(n)\<close> as the pair of the bytes taken and the bytes left.\<close>

definition split_to :: "nat \<Rightarrow> 'a list \<Rightarrow> 'a list \<times> 'a list" where
  "split_to n xs = (take n xs, drop n xs)"

lemma split_to_append: "split_to n xs = (a, b) \<Longrightarrow> xs = a @ b"
  by (auto simp: split_to_def)

lemma length_split_to: "split_to n xs = (a, b) \<Longrightarrow> length a = min n (length xs)"
  by (auto simp: split_to_def)

end
