(* ===== verification/Mem_Read.thy ===== *)
theory Mem_Read
  imports Prelude
begin

text \<open>
  The interface between the body decoders and the connection's read side: the trait
  \<^verbatim>\<open>MemRead\<close> of \<^verbatim>\<open>src/src/core/proto/h1/io.rs\<close>. A reader is a state and the function
  \<^verbatim>\<open>read_mem\<close>; \<open>stream\<close> is what the reader has still to deliver before the end of the
  transport. The laws are what every decoder relies on: bytes come in order and are not lost
  or duplicated, at most as many as asked for, an empty read means the end of the stream, and
  neither \<^const>\<open>Pending\<close> nor an error consumes anything.
\<close>

type_synonym 'r read_mem = "'r \<Rightarrow> nat \<Rightarrow> 'r \<times> bytes io_result poll"

locale mem_read =
  fixes read_mem :: "'r read_mem"
    and stream :: "'r \<Rightarrow> bytes"
    and invar :: "'r \<Rightarrow> bool"
  assumes read_data:
      "invar r \<Longrightarrow> read_mem r n = (r', Ready (Inr bs)) \<Longrightarrow>
       stream r = bs @ stream r' \<and> length bs \<le> n"
    and read_eof:
      "invar r \<Longrightarrow> read_mem r n = (r', Ready (Inr [])) \<Longrightarrow> 0 < n \<Longrightarrow> stream r = []"
    and read_pending: "invar r \<Longrightarrow> read_mem r n = (r', Pending) \<Longrightarrow> stream r' = stream r"
    and read_error: "invar r \<Longrightarrow> read_mem r n = (r', Ready (Inl e)) \<Longrightarrow> stream r' = stream r"
    and read_invar: "invar r \<Longrightarrow> invar (fst (read_mem r n))"
begin

text \<open>Anything reads preserve may be added to the invariant.\<close>

lemma with_frame:
  assumes "\<And>r n. invar r \<Longrightarrow> P r \<Longrightarrow> P (fst (read_mem r n))"
  shows "mem_read read_mem stream (\<lambda>r. invar r \<and> P r)"
  by unfold_locales (use assms read_data read_eof read_pending read_error read_invar in blast)+

end

text \<open>
  The byte slice as a reader, \<^verbatim>\<open>impl MemRead for &[u8]\<close>: it never blocks and never fails.
\<close>

definition slice_read_mem :: "bytes read_mem" where
  "slice_read_mem s len =
     (let n = min len (length s)
      in if n > 0 then (drop n s, Ready (Inr (take n s))) else (s, Ready (Inr [])))"

interpretation slice_rd: mem_read slice_read_mem "\<lambda>s. s" "\<lambda>_. True"
  by unfold_locales (auto simp: slice_read_mem_def Let_def min_def split: if_splits)

end
