(* ===== verification/Core_Error.thy ===== *)
theory Core_Error
  imports Prelude
begin

text \<open>
  The errors of the HTTP core (\<^verbatim>\<open>src/src/core/error.rs\<close>): the kinds, the constructors the
  connection code calls and the predicates its callers branch on. A cause is one of the values
  the modelled code attaches with \<^verbatim>\<open>with\<close>, or another core error, so that the walk of
  \<^verbatim>\<open>find_source\<close> over the chain of sources is a recursion on the error.
\<close>

datatype header_error = Token | ContentLengthInvalid | TransferEncodingUnexpected

datatype parse =
    ParseMethod
  | ParseVersion
  | ParseVersionH2
  | ParseUri
  | ParseHeader header_error
  | ParseTooLarge
  | ParseStatus
  | ParseInternal

datatype user =
    UserBody
  | BodyWriteAborted
  | InvalidConnectWithBody
  | UserService
  | NoUpgrade
  | ManualUpgrade
  | DispatchGone

datatype kind =
    KParse parse
  | KUser user
  | IncompleteMessage
  | UnexpectedMessage
  | Canceled
  | ChannelClosed
  | KIo
  | KBody
  | KBodyWrite
  | KShutdown
  | KHttp2

text \<open>What the code asks of an \<^verbatim>\<open>http2::Error\<close>: where it comes from, the number of its reason, and the I/O error it is, if
  it is one (\<^verbatim>\<open>is_io\<close>, \<^verbatim>\<open>into_io\<close>); and the numbers of the reasons.\<close>

record h2_error =
  h2_is_go_away :: bool
  h2_is_remote :: bool
  h2_is_reset :: bool
  h2e_reason :: "nat option"
  h2e_io :: "io_error option"

definition NO_ERROR :: nat where "NO_ERROR = 0"
definition INTERNAL_ERROR :: nat where "INTERNAL_ERROR = 2"
definition STREAM_CLOSED :: nat where "STREAM_CLOSED = 5"
definition REFUSED_STREAM :: nat where "REFUSED_STREAM = 7"
definition CANCEL :: nat where "CANCEL = 8"

datatype core_error = Error (err_kind: kind) (err_cause: "cause option")
and cause =
    CauseIo io_error
  | CauseTimedOut
  | CauseKeepAliveTimedOut
  | CauseNotEof u64
  | CauseText string
  | CauseH2 h2_error
  | CauseError core_error

text \<open>\<^verbatim>\<open>Error::new\<close> and \<^verbatim>\<open>Error::with\<close>.\<close>

definition error_new :: "kind \<Rightarrow> core_error" where
  "error_new k = Error k None"

definition error_with :: "core_error \<Rightarrow> cause \<Rightarrow> core_error" where
  "error_with e c = Error (err_kind e) (Some c)"

definition is_parse :: "core_error \<Rightarrow> bool" where
  "is_parse e = (case err_kind e of KParse _ \<Rightarrow> True | _ \<Rightarrow> False)"

definition is_parse_status :: "core_error \<Rightarrow> bool" where
  "is_parse_status e \<longleftrightarrow> err_kind e = KParse ParseStatus"

definition is_user :: "core_error \<Rightarrow> bool" where
  "is_user e = (case err_kind e of KUser _ \<Rightarrow> True | _ \<Rightarrow> False)"

definition is_canceled :: "core_error \<Rightarrow> bool" where
  "is_canceled e \<longleftrightarrow> err_kind e = Canceled"

definition is_closed :: "core_error \<Rightarrow> bool" where
  "is_closed e \<longleftrightarrow> err_kind e = ChannelClosed"

definition is_incomplete_message :: "core_error \<Rightarrow> bool" where
  "is_incomplete_message e \<longleftrightarrow> err_kind e = IncompleteMessage"

definition is_body_write_aborted :: "core_error \<Rightarrow> bool" where
  "is_body_write_aborted e \<longleftrightarrow> err_kind e = KUser BodyWriteAborted"

text \<open>\<^verbatim>\<open>find_source::<TimedOut>\<close> walks the sources of the error; the error itself is not one.\<close>

fun find_timed_out :: "cause option \<Rightarrow> bool" where
  "find_timed_out None = False"
| "find_timed_out (Some CauseTimedOut) = True"
| "find_timed_out (Some CauseKeepAliveTimedOut) = True"
| "find_timed_out (Some (CauseError (Error k c))) = find_timed_out c"
| "find_timed_out (Some (CauseIo e)) = False"
| "find_timed_out (Some (CauseNotEof n)) = False"
| "find_timed_out (Some (CauseText s)) = False"
| "find_timed_out (Some (CauseH2 e)) = False"

definition is_timeout :: "core_error \<Rightarrow> bool" where
  "is_timeout e = find_timed_out (err_cause e)"

text \<open>\<^verbatim>\<open>find_source::<http2::Error>\<close>, from which \<^verbatim>\<open>h2_reason\<close> takes the reason of a reset.\<close>

fun find_h2_error :: "cause option \<Rightarrow> h2_error option" where
  "find_h2_error None = None"
| "find_h2_error (Some (CauseH2 e)) = Some e"
| "find_h2_error (Some (CauseError (Error k c))) = find_h2_error c"
| "find_h2_error (Some CauseTimedOut) = None"
| "find_h2_error (Some CauseKeepAliveTimedOut) = None"
| "find_h2_error (Some (CauseIo e)) = None"
| "find_h2_error (Some (CauseNotEof n)) = None"
| "find_h2_error (Some (CauseText s)) = None"

definition h2_reason :: "core_error \<Rightarrow> nat" where
  "h2_reason e =
     (case find_h2_error (err_cause e) of
        Some h2_err \<Rightarrow> (case h2e_reason h2_err of Some r \<Rightarrow> r | None \<Rightarrow> INTERNAL_ERROR)
      | None \<Rightarrow> INTERNAL_ERROR)"

definition new_canceled :: core_error where
  "new_canceled = error_new Canceled"

definition new_incomplete :: core_error where
  "new_incomplete = error_new IncompleteMessage"

definition new_too_large :: core_error where
  "new_too_large = error_new (KParse ParseTooLarge)"

definition new_version_h2 :: core_error where
  "new_version_h2 = error_new (KParse ParseVersionH2)"

definition new_unexpected_message :: core_error where
  "new_unexpected_message = error_new UnexpectedMessage"

definition new_io :: "io_error \<Rightarrow> core_error" where
  "new_io e = error_with (error_new KIo) (CauseIo e)"

definition new_closed :: core_error where
  "new_closed = error_new ChannelClosed"

definition new_body :: "cause \<Rightarrow> core_error" where
  "new_body c = error_with (error_new KBody) c"

definition new_body_write :: "cause \<Rightarrow> core_error" where
  "new_body_write c = error_with (error_new KBodyWrite) c"

definition new_body_write_aborted :: core_error where
  "new_body_write_aborted = error_new (KUser BodyWriteAborted)"

definition new_user :: "user \<Rightarrow> core_error" where
  "new_user u = error_new (KUser u)"

definition new_user_body :: "cause \<Rightarrow> core_error" where
  "new_user_body c = error_with (new_user UserBody) c"

definition new_user_dispatch_gone :: core_error where
  "new_user_dispatch_gone = error_new (KUser DispatchGone)"

definition new_shutdown :: "io_error \<Rightarrow> core_error" where
  "new_shutdown e = error_with (error_new KShutdown) (CauseIo e)"

definition new_user_invalid_connect :: core_error where
  "new_user_invalid_connect = new_user InvalidConnectWithBody"

definition new_h2 :: "h2_error \<Rightarrow> core_error" where
  "new_h2 e = (case h2e_io e of Some io \<Rightarrow> new_io io | None \<Rightarrow> error_with (error_new KHttp2) (CauseH2 e))"

definition content_length_invalid :: parse where
  "content_length_invalid = ParseHeader ContentLengthInvalid"

definition transfer_encoding_unexpected :: parse where
  "transfer_encoding_unexpected = ParseHeader TransferEncodingUnexpected"

text \<open>\<^verbatim>\<open>From<httparse::Error> for Parse\<close>.\<close>

datatype httparse_error =
    HpHeaderName | HpHeaderValue | HpNewLine | HpToken | HpStatus | HpTooManyHeaders | HpVersion

fun parse_of_httparse :: "httparse_error \<Rightarrow> parse" where
  "parse_of_httparse HpHeaderName = ParseHeader Token"
| "parse_of_httparse HpHeaderValue = ParseHeader Token"
| "parse_of_httparse HpNewLine = ParseHeader Token"
| "parse_of_httparse HpToken = ParseHeader Token"
| "parse_of_httparse HpStatus = ParseStatus"
| "parse_of_httparse HpTooManyHeaders = ParseTooLarge"
| "parse_of_httparse HpVersion = ParseVersion"

lemmas error_defs = error_new_def error_with_def new_canceled_def new_incomplete_def
  new_too_large_def new_version_h2_def new_unexpected_message_def new_io_def new_closed_def
  new_body_def new_body_write_def new_body_write_aborted_def new_user_def new_shutdown_def

lemmas error_preds = is_parse_def is_parse_status_def is_user_def is_canceled_def is_closed_def
  is_incomplete_message_def is_body_write_aborted_def is_timeout_def

text \<open>Attaching a cause never changes what kind of error it is.\<close>

lemma error_with_kind [simp]: "err_kind (error_with e c) = err_kind e"
  by (simp add: error_with_def)

end
