(* ===== verification/Body_Length.thy ===== *)
theory Body_Length
  imports Core_Error
begin

text \<open>
  Body lengths: \<^verbatim>\<open>DecodedLength\<close> of \<^verbatim>\<open>src/src/core/body/length.rs\<close> and \<^verbatim>\<open>BodyLength\<close>
  of \<^verbatim>\<open>src/src/core/proto/mod.rs\<close>. A decoded length is a \<^verbatim>\<open>u64\<close> whose two largest
  values are sentinels, so the model keeps the 64-bit word.
\<close>

type_synonym DecodedLength = u64

definition MAX_LEN :: u64 where
  "MAX_LEN = - 1 - 2"

definition CLOSE_DELIMITED :: DecodedLength where
  "CLOSE_DELIMITED = - 1"

definition CHUNKED :: DecodedLength where
  "CHUNKED = - 1 - 1"

definition ZERO :: DecodedLength where
  "ZERO = 0"

text \<open>\<^verbatim>\<open>checked_new\<close>: lengths above \<^verbatim>\<open>MAX_LEN\<close> are the parse error \<^verbatim>\<open>TooLarge\<close>.\<close>

definition checked_new :: "u64 \<Rightarrow> parse + DecodedLength" where
  "checked_new len = (if len \<le> MAX_LEN then Inr len else Inl ParseTooLarge)"

text \<open>\<^verbatim>\<open>danger_len\<close> has a debug assertion that the length is below \<^const>\<open>CHUNKED\<close>. Its only caller, \<^verbatim>\<open>Decoder::new\<close>, has excluded
  both sentinels before, and then the assertion holds (\<open>danger_len_asserted\<close>), so there is no value for its failure here.\<close>

definition danger_len :: "DecodedLength \<Rightarrow> u64" where
  "danger_len l = l"

definition into_opt :: "DecodedLength \<Rightarrow> u64 option" where
  "into_opt l = (if l = CHUNKED \<or> l = CLOSE_DELIMITED then None else Some l)"

text \<open>\<^verbatim>\<open>From<Option<u64>> for DecodedLength\<close>.\<close>

definition from_option :: "u64 option \<Rightarrow> DecodedLength" where
  "from_option len =
     (case len of
        None \<Rightarrow> CHUNKED
      | Some n \<Rightarrow> (case checked_new n of Inr l \<Rightarrow> l | Inl _ \<Rightarrow> CHUNKED))"

text \<open>\<^verbatim>\<open>sub_if\<close>: \<^verbatim>\<open>*known -= amt\<close> panics on underflow in a checked build; the model returns
  \<^const>\<open>None\<close> there.\<close>

definition sub_if :: "DecodedLength \<Rightarrow> u64 \<Rightarrow> DecodedLength option" where
  "sub_if l amt =
     (if l = CHUNKED \<or> l = CLOSE_DELIMITED then Some l
      else if amt \<le> l then Some (l - amt) else None)"

definition is_exact :: "DecodedLength \<Rightarrow> bool" where
  "is_exact l \<longleftrightarrow> l \<le> MAX_LEN"

datatype BodyLength = Known u64 | Unknown

lemmas decoded_length_defs = MAX_LEN_def CLOSE_DELIMITED_def CHUNKED_def ZERO_def

lemma danger_len_asserted:
  assumes "l \<noteq> CHUNKED" and "l \<noteq> CLOSE_DELIMITED"
  shows "l < CHUNKED"
proof -
  have "CHUNKED = (0xFFFFFFFFFFFFFFFE :: u64)" "CLOSE_DELIMITED = (0xFFFFFFFFFFFFFFFF :: u64)"
    by (simp_all add: decoded_length_defs)
  with assms have "unat l \<noteq> 0xFFFFFFFFFFFFFFFE" "unat l \<noteq> 0xFFFFFFFFFFFFFFFF"
    by (auto simp: word_unat_eq_iff)
  moreover have "unat l < 2 ^ 64" using unsigned_less [of l] by simp
  moreover have "unat CHUNKED = 0xFFFFFFFFFFFFFFFE" by (simp add: CHUNKED_def)
  ultimately show ?thesis by (simp add: word_less_nat_alt)
qed

text \<open>The sentinels are exactly the words above \<^const>\<open>MAX_LEN\<close>.\<close>

lemma unat_MAX_LEN: "unat MAX_LEN = 2 ^ 64 - 3"
  by (simp add: MAX_LEN_def)

lemma sentinel_iff: "l = CHUNKED \<or> l = CLOSE_DELIMITED \<longleftrightarrow> \<not> l \<le> MAX_LEN"
proof -
  have "unat l < 2 ^ 64" using unsigned_less [of l] by simp
  moreover have "unat CHUNKED = 2 ^ 64 - 2" and "unat CLOSE_DELIMITED = 2 ^ 64 - 1"
    by (simp_all add: decoded_length_defs unsigned_minus_1_eq_mask mask_eq_exp_minus_1)
  ultimately show ?thesis
    by (auto simp: word_le_nat_alt unat_MAX_LEN word_unat_eq_iff)
qed

lemma exact_not_sentinel [simp]:
  "l \<le> MAX_LEN \<Longrightarrow> l \<noteq> CHUNKED" "l \<le> MAX_LEN \<Longrightarrow> l \<noteq> CLOSE_DELIMITED"
  using sentinel_iff by blast+

lemma into_opt_is_exact: "into_opt l = (if is_exact l then Some l else None)"
  by (auto simp: into_opt_def is_exact_def sentinel_iff)

lemma from_option_into_opt: "from_option (into_opt l) = (if is_exact l then l else CHUNKED)"
  by (auto simp: into_opt_is_exact from_option_def checked_new_def is_exact_def)

lemma sub_if_exact:
  assumes "is_exact l" and "sub_if l amt = Some l'"
  shows "is_exact l' \<and> unat l' = unat l - unat amt \<and> unat amt \<le> unat l"
proof -
  have le: "amt \<le> l" and l': "l' = l - amt"
    using assms by (auto simp: sub_if_def is_exact_def split: if_splits)
  then have "unat l' = unat l - unat amt" by (simp add: unat_minus_le)
  with le assms(1) show ?thesis
    by (auto simp: is_exact_def word_le_nat_alt)
qed

end
