(* ===== verification/Http_Lib.thy ===== *)
theory Http_Lib
  imports Core_Error
begin

text \<open>
  The third-party crates the HTTP core calls, as parameters: the record \<open>http_lib\<close> holds
  the operations of \<^verbatim>\<open>http::HeaderMap\<close>, \<^verbatim>\<open>HeaderName\<close>, \<^verbatim>\<open>HeaderValue\<close> and of
  \<^verbatim>\<open>httparse\<close> that the source uses, and the locale \<open>http_laws\<close> their documented behaviour.
  Every definition that uses one of these crates takes the record as its first argument.
  A header name is the lower-case text of a \<^verbatim>\<open>HeaderName\<close>, a header value the bytes of a
  \<^verbatim>\<open>HeaderValue\<close>.

  \<^verbatim>\<open>assoc_http\<close> is an instance of the record, a header map being an association list in
  insertion order; it satisfies the laws.
\<close>

type_synonym header_name = string
type_synonym header_value = bytes

definition DEFAULT_MAX_HEADERS :: nat where
  "DEFAULT_MAX_HEADERS = 100"

datatype version = HTTP_09 | HTTP_10 | HTTP_11 | HTTP_2 | HTTP_3

record 'm http_lib =
  hm_new :: 'm
  hm_get_all :: "'m \<Rightarrow> header_name \<Rightarrow> header_value list"
  hm_insert :: "header_name \<Rightarrow> header_value \<Rightarrow> 'm \<Rightarrow> 'm"
  hm_append :: "header_name \<Rightarrow> header_value \<Rightarrow> 'm \<Rightarrow> 'm"
  hm_set_last :: "header_name \<Rightarrow> header_value \<Rightarrow> 'm \<Rightarrow> 'm"
  hm_remove :: "header_name \<Rightarrow> 'm \<Rightarrow> 'm"
  hm_iter :: "'m \<Rightarrow> (header_name \<times> header_value) list"
  hv_to_str :: "header_value \<Rightarrow> string option"
  hn_from_bytes :: "bytes \<Rightarrow> header_name option"
  hv_from_bytes :: "bytes \<Rightarrow> header_value option"
  hp_parse_headers :: "bytes \<Rightarrow> nat \<Rightarrow> httparse_error + (bytes \<times> bytes) list option"

text \<open>\<^verbatim>\<open>HeaderMap::get\<close> is the first value, \<^verbatim>\<open>contains_key\<close> whether there is one.\<close>

definition hm_get :: "('m, 'z) http_lib_scheme \<Rightarrow> 'm \<Rightarrow> header_name \<Rightarrow> header_value option" where
  "hm_get H m k = (case hm_get_all H m k of [] \<Rightarrow> None | v # _ \<Rightarrow> Some v)"

definition hm_contains_key :: "('m, 'z) http_lib_scheme \<Rightarrow> 'm \<Rightarrow> header_name \<Rightarrow> bool" where
  "hm_contains_key H m k \<longleftrightarrow> hm_get_all H m k \<noteq> []"

text \<open>\<^verbatim>\<open>HeaderMap::extend\<close> with the items of another map: the values of a name there replace those here.\<close>

definition hm_extend :: "('m, 'z) http_lib_scheme \<Rightarrow> 'm \<Rightarrow> 'm \<Rightarrow> 'm" where
  "hm_extend H extra headers =
     fold (\<lambda>k m. case hm_get_all H headers k of
                   [] \<Rightarrow> m
                 | v # vs \<Rightarrow> fold (hm_append H k) vs (hm_insert H k v m))
       (remdups (map fst (hm_iter H headers))) extra"

definition visible_ascii :: "byte \<Rightarrow> bool" where
  "visible_ascii b \<longleftrightarrow> (32 \<le> byte_val b \<and> byte_val b < 127) \<or> b = TAB"

text \<open>
  The laws. Iteration visits every value once, the values of one name in their order;
  \<^verbatim>\<open>hm_set_last\<close> writes through \<^verbatim>\<open>OccupiedEntry::iter_mut().next_back()\<close>; \<^verbatim>\<open>to_str\<close>
  succeeds exactly on visible ASCII and then is the same text; a header name is stored in
  lower case.
\<close>

locale http_laws =
  fixes H :: "('m, 'z) http_lib_scheme"
  assumes get_all_new: "hm_get_all H (hm_new H) k = []"
    and get_all_insert:
      "hm_get_all H (hm_insert H k v m) k' = (if k' = k then [v] else hm_get_all H m k')"
    and get_all_append:
      "hm_get_all H (hm_append H k v m) k' =
         (if k' = k then hm_get_all H m k @ [v] else hm_get_all H m k')"
    and get_all_set_last:
      "hm_get_all H m k \<noteq> [] \<Longrightarrow>
       hm_get_all H (hm_set_last H k v m) k' =
         (if k' = k then butlast (hm_get_all H m k) @ [v] else hm_get_all H m k')"
    and get_all_remove:
      "hm_get_all H (hm_remove H k m) k' = (if k' = k then [] else hm_get_all H m k')"
    and iter_get_all:
      "map snd (filter (\<lambda>p. fst p = k) (hm_iter H m)) = hm_get_all H m k"
    and to_str_ascii:
      "hv_to_str H v = (if list_all visible_ascii v then Some v else None)"
    and from_bytes_lower:
      "hn_from_bytes H n = Some k \<Longrightarrow> k = map to_ascii_lowercase n"
begin

lemmas get_all_simps =
  get_all_new get_all_insert get_all_append get_all_set_last get_all_remove

lemma contains_key_insert: "hm_contains_key H (hm_insert H k v m) k' \<longleftrightarrow> k' = k \<or> hm_contains_key H m k'"
  by (simp add: hm_contains_key_def get_all_insert)

lemma contains_key_remove: "hm_contains_key H (hm_remove H k m) k' \<longleftrightarrow> k' \<noteq> k \<and> hm_contains_key H m k'"
  by (simp add: hm_contains_key_def get_all_remove)

lemma get_insert: "hm_get H (hm_insert H k v m) k' = (if k' = k then Some v else hm_get H m k')"
  by (simp add: hm_get_def get_all_insert)

lemma iter_contains: "hm_contains_key H m k \<longleftrightarrow> k \<in> fst ` set (hm_iter H m)"
proof -
  have "hm_get_all H m k \<noteq> [] \<longleftrightarrow> filter (\<lambda>p. fst p = k) (hm_iter H m) \<noteq> []"
    by (metis iter_get_all map_is_Nil_conv)
  also have "\<dots> \<longleftrightarrow> (\<exists>p\<in>set (hm_iter H m). fst p = k)"
    by (auto simp: filter_empty_conv)
  finally show ?thesis by (auto simp: hm_contains_key_def image_iff)
qed

end

section \<open>An instance of the interface\<close>

type_synonym assoc_map = "(header_name \<times> header_value) list"

definition assoc_get_all :: "assoc_map \<Rightarrow> header_name \<Rightarrow> header_value list" where
  "assoc_get_all m k = map snd (filter (\<lambda>p. fst p = k) m)"

definition assoc_remove :: "header_name \<Rightarrow> assoc_map \<Rightarrow> assoc_map" where
  "assoc_remove k m = filter (\<lambda>p. fst p \<noteq> k) m"

fun assoc_set_last :: "header_name \<Rightarrow> header_value \<Rightarrow> assoc_map \<Rightarrow> assoc_map" where
  "assoc_set_last k v [] = []"
| "assoc_set_last k v (p # m) =
     (if fst p = k \<and> assoc_get_all m k = [] then (k, v) # m else p # assoc_set_last k v m)"

text \<open>The header-line parser of the instance: lines of \<^verbatim>\<open>name: value\<close> up to an empty line.\<close>

fun assoc_parse_lines :: "bytes list \<Rightarrow> httparse_error + (bytes \<times> bytes) list option" where
  "assoc_parse_lines [] = Inr None"
| "assoc_parse_lines (l # ls) =
     (if l = [CR] then Inr (Some [])
      else case split_on CHR '':'' l of
             [n, v] \<Rightarrow>
               (case assoc_parse_lines ls of
                  Inr (Some hs) \<Rightarrow> Inr (Some ((n, trim_with is_ascii_whitespace v) # hs))
                | r \<Rightarrow> r)
           | _ \<Rightarrow> Inl HpToken)"

definition assoc_parse_headers :: "bytes \<Rightarrow> nat \<Rightarrow> httparse_error + (bytes \<times> bytes) list option" where
  "assoc_parse_headers buf n =
     (case assoc_parse_lines (split_on LF buf) of
        Inr (Some hs) \<Rightarrow> if length hs \<le> n then Inr (Some hs) else Inl HpTooManyHeaders
      | r \<Rightarrow> r)"

definition assoc_http :: "assoc_map http_lib" where
  "assoc_http = \<lparr>
     hm_new = [],
     hm_get_all = assoc_get_all,
     hm_insert = (\<lambda>k v m. assoc_remove k m @ [(k, v)]),
     hm_append = (\<lambda>k v m. m @ [(k, v)]),
     hm_set_last = assoc_set_last,
     hm_remove = assoc_remove,
     hm_iter = (\<lambda>m. m),
     hv_to_str = (\<lambda>v. if list_all visible_ascii v then Some v else None),
     hn_from_bytes = (\<lambda>n. if n = [] then None else Some (map to_ascii_lowercase n)),
     hv_from_bytes = (\<lambda>v. if LF \<in> set v \<or> CR \<in> set v then None else Some v),
     hp_parse_headers = assoc_parse_headers \<rparr>"

lemma assoc_get_all_append: "assoc_get_all (m @ m') k = assoc_get_all m k @ assoc_get_all m' k"
  by (simp add: assoc_get_all_def)

lemma assoc_get_all_remove: "assoc_get_all (assoc_remove k m) k' = (if k' = k then [] else assoc_get_all m k')"
  by (induction m) (auto simp: assoc_get_all_def assoc_remove_def)

lemma assoc_get_all_Cons:
  "assoc_get_all (p # m) k = (if fst p = k then snd p # assoc_get_all m k else assoc_get_all m k)"
  by (simp add: assoc_get_all_def)

lemma assoc_get_all_set_last:
  "assoc_get_all m k \<noteq> [] \<Longrightarrow>
   assoc_get_all (assoc_set_last k v m) k' =
     (if k' = k then butlast (assoc_get_all m k) @ [v] else assoc_get_all m k')"
proof (induction m)
  case (Cons p m)
  then show ?case
    by (cases "assoc_get_all m k = []") (auto simp: assoc_get_all_Cons)
qed (simp add: assoc_get_all_def)

interpretation assoc: http_laws assoc_http
  by unfold_locales
    (auto simp: assoc_http_def assoc_get_all_append assoc_get_all_remove assoc_get_all_set_last
       assoc_get_all_Cons assoc_get_all_def [of "[]"] split: if_splits,
     simp_all add: assoc_get_all_def)

end
