(* ===== verification/Headers.thy ===== *)
theory Headers
  imports Http_Lib
begin

text \<open>
  The header helpers of \<^verbatim>\<open>src/src/core/headers.rs\<close>: the tokens of \<^verbatim>\<open>Connection\<close>, the
  \<^verbatim>\<open>Content-Length\<close> values that must all agree, the final coding of
  \<^verbatim>\<open>Transfer-Encoding\<close>. Decimal values are 64-bit words with Rust's checked arithmetic.
\<close>

definition connection_has :: "('m, 'z) http_lib_scheme \<Rightarrow> header_value \<Rightarrow> string \<Rightarrow> bool" where
  "connection_has H value needle =
     (case hv_to_str H value of
        Some s \<Rightarrow> list_ex (\<lambda>val. eq_ignore_ascii_case (trim val) needle) (split_on CHR '','' s)
      | None \<Rightarrow> False)"

definition connection_keep_alive :: "('m, 'z) http_lib_scheme \<Rightarrow> header_value \<Rightarrow> bool" where
  "connection_keep_alive H value = connection_has H value ''keep-alive''"

definition connection_close :: "('m, 'z) http_lib_scheme \<Rightarrow> header_value \<Rightarrow> bool" where
  "connection_close H value = connection_has H value ''close''"

text \<open>\<^verbatim>\<open>from_digits\<close>: the loop over the bytes with its accumulator.\<close>

fun from_digits_loop :: "u64 \<Rightarrow> bytes \<Rightarrow> u64 option" where
  "from_digits_loop result [] = Some result"
| "from_digits_loop result (b # bs) =
     (if byte_in CHR ''0'' CHR ''9'' b
      then (case checked_mul result 10 of
              None \<Rightarrow> None
            | Some r \<Rightarrow>
                (case checked_add r (of_nat (byte_val b - byte_val CHR ''0'')) of
                   None \<Rightarrow> None
                 | Some r' \<Rightarrow> from_digits_loop r' bs))
      else None)"

definition from_digits :: "bytes \<Rightarrow> u64 option" where
  "from_digits bs = (if bs = [] then None else from_digits_loop 0 bs)"

text \<open>
  \<^verbatim>\<open>content_length_parse_all_values\<close>: the inner loop over the comma-separated parts of one
  value and the outer loop over the values; \<^const>\<open>None\<close> of the outer option is the early
  \<^verbatim>\<open>return None\<close>.
\<close>

fun cl_parts :: "u64 option \<Rightarrow> string list \<Rightarrow> u64 option option" where
  "cl_parts content_length [] = Some content_length"
| "cl_parts content_length (v # vs) =
     (case from_digits (trim v) of
        None \<Rightarrow> None
      | Some n \<Rightarrow>
          (case content_length of
             None \<Rightarrow> cl_parts (Some n) vs
           | Some c \<Rightarrow> if c = n then cl_parts content_length vs else None))"

fun cl_values :: "('m, 'z) http_lib_scheme \<Rightarrow> u64 option \<Rightarrow> header_value list \<Rightarrow> u64 option option" where
  "cl_values H content_length [] = Some content_length"
| "cl_values H content_length (h # hs) =
     (case hv_to_str H h of
        None \<Rightarrow> None
      | Some line \<Rightarrow>
          (case cl_parts content_length (split_on CHR '','' line) of
             None \<Rightarrow> None
           | Some c \<Rightarrow> cl_values H c hs))"

definition content_length_parse_all_values ::
  "('m, 'z) http_lib_scheme \<Rightarrow> header_value list \<Rightarrow> u64 option" where
  "content_length_parse_all_values H values =
     (case cl_values H None values of None \<Rightarrow> None | Some c \<Rightarrow> c)"

definition content_length_parse_all :: "('m, 'z) http_lib_scheme \<Rightarrow> 'm \<Rightarrow> u64 option" where
  "content_length_parse_all H headers =
     content_length_parse_all_values H (hm_get_all H headers ''content-length'')"

datatype http_method = GET | HEAD | POST | PUT | DELETE | CONNECT | OPTIONS | TRACE | PATCH | ExtensionMethod string

definition method_has_defined_payload_semantics :: "http_method \<Rightarrow> bool" where
  "method_has_defined_payload_semantics m \<longleftrightarrow> m \<notin> {GET, HEAD, DELETE, CONNECT}"

text \<open>The decimal text of a length, as \<^verbatim>\<open>HeaderValue::from(u64)\<close> writes it.\<close>

fun decimal :: "nat \<Rightarrow> string" where
  "decimal n = (if n < 10 then [char_of (48 + n)] else decimal (n div 10) @ [char_of (48 + n mod 10)])"

declare decimal.simps [simp del]

definition header_value_of_u64 :: "u64 \<Rightarrow> header_value" where
  "header_value_of_u64 n = decimal (unat n)"

definition set_content_length_if_missing :: "('m, 'z) http_lib_scheme \<Rightarrow> 'm \<Rightarrow> u64 \<Rightarrow> 'm" where
  "set_content_length_if_missing H headers len =
     (if hm_contains_key H headers ''content-length'' then headers
      else hm_insert H ''content-length'' (header_value_of_u64 len) headers)"

definition is_chunked_value :: "('m, 'z) http_lib_scheme \<Rightarrow> header_value \<Rightarrow> bool" where
  "is_chunked_value H value =
     (case hv_to_str H value of
        Some s \<Rightarrow> eq_ignore_ascii_case (trim (last (split_on CHR '','' s))) ''chunked''
      | None \<Rightarrow> False)"

definition is_chunked :: "('m, 'z) http_lib_scheme \<Rightarrow> header_value list \<Rightarrow> bool" where
  "is_chunked H encodings = (encodings \<noteq> [] \<and> is_chunked_value H (last encodings))"

definition transfer_encoding_is_chunked :: "('m, 'z) http_lib_scheme \<Rightarrow> 'm \<Rightarrow> bool" where
  "transfer_encoding_is_chunked H headers =
     is_chunked H (hm_get_all H headers ''transfer-encoding'')"

text \<open>\<^verbatim>\<open>add_chunked\<close> on the entry of \<^verbatim>\<open>Transfer-Encoding\<close>: the last line gets
  \<^verbatim>\<open>, chunked\<close> appended.\<close>

definition add_chunked :: "('m, 'z) http_lib_scheme \<Rightarrow> header_name \<Rightarrow> 'm \<Rightarrow> 'm" where
  "add_chunked H k headers =
     (case hm_get_all H headers k of
        [] \<Rightarrow> hm_insert H k ''chunked'' headers
      | l # ls \<Rightarrow> hm_set_last H k (last (l # ls) @ '', '' @ ''chunked'') headers)"

section \<open>Decimal lengths\<close>

text \<open>The reference: what a string of decimal digits denotes.\<close>

definition is_digit :: "byte \<Rightarrow> bool" where
  "is_digit b \<longleftrightarrow> byte_in CHR ''0'' CHR ''9'' b"

definition dec_value :: "nat \<Rightarrow> bytes \<Rightarrow> nat" where
  "dec_value = foldl (\<lambda>a b. a * 10 + (byte_val b - 48))"

lemma dec_value_simps [simp]:
  "dec_value a [] = a"
  "dec_value a (b # bs) = dec_value (a * 10 + (byte_val b - 48)) bs"
  "dec_value a (bs @ [b]) = dec_value a bs * 10 + (byte_val b - 48)"
  by (simp_all add: dec_value_def)

lemma dec_value_mono: "a \<le> dec_value a bs"
proof (induction bs arbitrary: a)
  case (Cons b bs)
  have "a \<le> a * 10 + (byte_val b - 48)" by simp
  also have "\<dots> \<le> dec_value (a * 10 + (byte_val b - 48)) bs" by (rule Cons.IH)
  finally show ?case by simp
qed simp

lemma digit_val: "is_digit b \<Longrightarrow> byte_val b - 48 < 10"
  by (auto simp: is_digit_def byte_in_def)

lemma from_digits_loop_eq:
  "from_digits_loop a bs =
     (if list_all is_digit bs \<and> dec_value (unat a) bs < 2 ^ 64
      then Some (of_nat (dec_value (unat a) bs)) else None)"
proof (induction bs arbitrary: a)
  case Nil
  have "unat a < 2 ^ 64" using unsigned_less [of a] by simp
  then show ?case by simp
next
  case (Cons b bs)
  show ?case
  proof (cases "is_digit b")
    case False
    then show ?thesis by (simp add: is_digit_def)
  next
    case True
    define d where "d = byte_val b - 48"
    have d: "unat (of_nat d :: u64) = d"
      using digit_val [OF True] by (simp add: d_def unat_of_nat_u64)
    have mono: "unat a * 10 + d \<le> dec_value (unat a * 10 + d) bs" by (rule dec_value_mono)
    show ?thesis
    proof (cases "unat a * 10 + d < 2 ^ 64")
      case big: False
      then show ?thesis
        using mono True d
        by (auto simp: checked_mul_def checked_add_def d_def [symmetric] unat_mult_lem [THEN iffD1]
             split: option.splits if_splits)
    next
      case small: True
      then have mul: "checked_mul a 10 = Some (a * 10)" and "unat (a * 10) = unat a * 10"
        by (simp_all add: checked_mul_def unat_mult_lem [THEN iffD1])
      with small d have "checked_add (a * 10) (of_nat d) = Some (a * 10 + of_nat d)"
        and "unat (a * 10 + of_nat d) = unat a * 10 + d"
        by (simp_all add: checked_add_def unat_add_lem [THEN iffD1])
      with mul True Cons.IH [of "a * 10 + of_nat d"] show ?thesis
        by (simp add: is_digit_def d_def)
    qed
  qed
qed

lemma from_digits_Some:
  "from_digits bs = Some n \<longleftrightarrow>
     bs \<noteq> [] \<and> list_all is_digit bs \<and> dec_value 0 bs < 2 ^ 64 \<and> n = of_nat (dec_value 0 bs)"
  by (auto simp: from_digits_def from_digits_loop_eq)

lemma decimal_digits: "list_all is_digit (decimal n) \<and> dec_value 0 (decimal n) = n \<and> decimal n \<noteq> []"
proof (induction n rule: decimal.induct)
  case (1 n)
  have byte: "byte_val (char_of (48 + k) :: byte) = 48 + k" if "k < 10" for k :: nat
    using that by simp
  have digit: "is_digit (char_of (48 + k))" if "k < 10" for k :: nat
    using that by (simp add: is_digit_def byte_in_def)
  show ?case
  proof (cases "n < 10")
    case True
    then show ?thesis using byte digit by (simp add: decimal.simps [of n])
  next
    case False
    with 1 show ?thesis using byte digit by (simp add: decimal.simps [of n])
  qed
qed

section \<open>Content-Length\<close>

lemma cl_parts_Some:
  "cl_parts (Some c) vs =
     (if \<forall>v\<in>set vs. from_digits (trim v) = Some c then Some (Some c) else None)"
  by (induction vs) (auto split: option.splits)

lemma cl_parts_None:
  "vs \<noteq> [] \<Longrightarrow>
   cl_parts None vs =
     (case from_digits (trim (hd vs)) of
        None \<Rightarrow> None
      | Some c \<Rightarrow> if \<forall>v\<in>set vs. from_digits (trim v) = Some c then Some (Some c) else None)"
  by (cases vs) (auto simp: cl_parts_Some split: option.splits)

text \<open>All comma-separated parts of one header line denote the same length.\<close>

definition line_denotes :: "('m, 'z) http_lib_scheme \<Rightarrow> u64 \<Rightarrow> header_value \<Rightarrow> bool" where
  "line_denotes H n h =
     (case hv_to_str H h of
        None \<Rightarrow> False
      | Some line \<Rightarrow> \<forall>v\<in>set (split_on CHR '','' line). from_digits (trim v) = Some n)"

lemma line_denotes_unique: "line_denotes H n h \<Longrightarrow> line_denotes H m h \<Longrightarrow> n = m"
proof -
  assume n: "line_denotes H n h" and m: "line_denotes H m h"
  then obtain line where line: "hv_to_str H h = Some line"
    by (auto simp: line_denotes_def split: option.splits)
  have "hd (split_on CHR '','' line) \<in> set (split_on CHR '','' line)" by simp
  with n m line show ?thesis by (fastforce simp: line_denotes_def)
qed

lemma cl_line_None:
  "cl_values H None (h # hs) = Some r \<longleftrightarrow>
     (\<exists>c. line_denotes H c h \<and> cl_values H (Some c) hs = Some r)"
proof (cases "hv_to_str H h")
  case (Some line)
  have "hd (split_on CHR '','' line) \<in> set (split_on CHR '','' line)" by simp
  then have "from_digits (trim (hd (split_on CHR '','' line))) = Some c"
    if "line_denotes H c h" for c
    using that Some unfolding line_denotes_def by auto
  with Some show ?thesis
    by (auto simp: cl_parts_None line_denotes_def split: option.splits)
qed (simp add: line_denotes_def)

lemma cl_values_Some:
  "cl_values H (Some c) hs = (if \<forall>h\<in>set hs. line_denotes H c h then Some (Some c) else None)"
  by (induction hs) (auto simp: line_denotes_def cl_parts_Some split: option.splits)

lemma content_length_parse_all_values_iff:
  "content_length_parse_all_values H hs = Some n \<longleftrightarrow> hs \<noteq> [] \<and> (\<forall>h\<in>set hs. line_denotes H n h)"
proof (cases hs)
  case (Cons h hs')
  have "content_length_parse_all_values H hs = Some n \<longleftrightarrow> cl_values H None hs = Some (Some n)"
    by (auto simp: content_length_parse_all_values_def split: option.splits)
  with Cons show ?thesis
    by (auto simp del: cl_values.simps simp: cl_line_None cl_values_Some split: if_splits
         dest: line_denotes_unique)
qed (simp add: content_length_parse_all_values_def)

section \<open>Transfer-Encoding\<close>

lemma trim_chunked: "trim (SP # ''chunked'') = ''chunked''"
  by (simp add: trim_def trim_with_def is_whitespace_def)

lemma split_chunked: "split_on CHR '','' (SP # ''chunked'') = [SP # ''chunked'']"
  by simp

context http_laws
begin

lemma is_chunked_value_add:
  assumes "list_all visible_ascii v"
  shows "is_chunked_value H (v @ '', '' @ ''chunked'')"
proof -
  have "list_all visible_ascii (v @ '', '' @ ''chunked'')"
    using assms by (simp add: visible_ascii_def)
  moreover have "last (split_on CHR '','' (v @ CHR '','' # SP # ''chunked'')) = SP # ''chunked''"
    by (simp only: last_split_on_append split_chunked) simp
  ultimately show ?thesis
    by (simp add: is_chunked_value_def to_str_ascii trim_chunked)
qed

lemma add_chunked_is_chunked:
  assumes "\<And>v. v \<in> set (hm_get_all H m ''transfer-encoding'') \<Longrightarrow> list_all visible_ascii v"
  shows "transfer_encoding_is_chunked H (add_chunked H ''transfer-encoding'' m)"
proof (cases "hm_get_all H m ''transfer-encoding''")
  case Nil
  have "is_chunked_value H ''chunked''"
    by (simp add: is_chunked_value_def to_str_ascii visible_ascii_def trim_def trim_with_def is_whitespace_def)
  with Nil show ?thesis
    by (simp add: transfer_encoding_is_chunked_def is_chunked_def add_chunked_def get_all_insert)
next
  case (Cons l ls)
  then have "list_all visible_ascii (last (l # ls))"
    using assms by (metis last_in_set list.distinct(1))
  from is_chunked_value_add [OF this] Cons show ?thesis
    by (simp add: transfer_encoding_is_chunked_def is_chunked_def add_chunked_def get_all_set_last)
qed

end

end
