(* ===== verification/H1_Decode.thy ===== *)
theory H1_Decode
  imports Mem_Read Body_Length Headers
begin

text \<open>
  The body decoders of \<^verbatim>\<open>src/src/core/proto/h1/decode.rs\<close>: \<^verbatim>\<open>Content-Length\<close> bodies,
  chunked bodies with their thirteen-state machine, and bodies delimited by the end of the
  connection. A decoder works on any reader (the argument \<open>rm\<close> is its \<^verbatim>\<open>read_mem\<close>);
  \<open>chunked\<close> holds the fields of \<^verbatim>\<open>Kind::Chunked\<close>.

  A handler that starts with the macro \<^verbatim>\<open>byte!\<close> is a function of the byte it reads, and
  \<open>with_byte\<close> is the macro. The loop of \<^verbatim>\<open>decode\<close> is a \<^verbatim>\<open>partial_function\<close>; that it
  returns is proved for every reader that meets the interface.
\<close>

section \<open>The model\<close>

definition CHUNKED_EXTENSIONS_LIMIT :: u64 where
  "CHUNKED_EXTENSIONS_LIMIT = 1024 * 16"

definition TRAILER_LIMIT :: nat where
  "TRAILER_LIMIT = 1024 * 16"

datatype ChunkedState =
    Start
  | Size
  | SizeLws
  | Extension
  | SizeLf
  | Body
  | BodyCr
  | BodyLf
  | Trailer
  | TrailerLf
  | EndCr
  | EndLf
  | End

record chunked =
  cstate :: ChunkedState
  chunk_len :: u64
  extensions_cnt :: u64
  trailers_buf :: "bytes option"
  trailers_cnt :: nat
  h1_max_headers :: "nat option"
  h1_max_header_size :: "nat option"

datatype decoder = Length u64 | Chunked chunked | Eof bool

datatype 'm frame = Data bytes | Trailers 'm

definition IncompleteBody :: string where
  "IncompleteBody = ''end of file before message length reached''"

subsection \<open>Constructors\<close>

definition decoder_chunked :: "nat option \<Rightarrow> nat option \<Rightarrow> decoder" where
  "decoder_chunked max_headers max_header_size =
     Chunked \<lparr>cstate = Start, chunk_len = 0, extensions_cnt = 0, trailers_buf = None,
       trailers_cnt = 0, h1_max_headers = max_headers, h1_max_header_size = max_header_size\<rparr>"

definition decoder_new :: "DecodedLength \<Rightarrow> nat option \<Rightarrow> nat option \<Rightarrow> decoder" where
  "decoder_new len max_headers max_header_size =
     (if len = CHUNKED then decoder_chunked max_headers max_header_size
      else if len = CLOSE_DELIMITED then Eof False
      else Length (danger_len len))"

fun decoder_is_eof :: "decoder \<Rightarrow> bool" where
  "decoder_is_eof (Length n) = (n = 0)"
| "decoder_is_eof (Chunked c) = (cstate c = End)"
| "decoder_is_eof (Eof b) = b"

subsection \<open>The chunked state machine\<close>

type_synonym byte_handler = "chunked \<Rightarrow> byte \<Rightarrow> chunked \<times> ChunkedState io_result"

text \<open>The macro \<^verbatim>\<open>byte!\<close> and the rest of a handler after it.\<close>

definition read_byte :: "'r read_mem \<Rightarrow> 'r \<Rightarrow> 'r \<times> byte io_result poll" where
  "read_byte rm r =
     (case rm r 1 of
        (r', Pending) \<Rightarrow> (r', Pending)
      | (r', Ready (Inl e)) \<Rightarrow> (r', Ready (Inl e))
      | (r', Ready (Inr buf)) \<Rightarrow>
          (case buf of
             b # _ \<Rightarrow> (r', Ready (Inr b))
           | [] \<Rightarrow> (r', Ready (Inl (IoError UnexpectedEof
                      ''unexpected EOF during chunk size line'')))))"

text \<open>What a step returns: the reader, the fields it wrote, the slot \<^verbatim>\<open>buf\<close> for body bytes, and
  the next state or an error.\<close>

type_synonym 'r step_result = "'r \<times> chunked \<times> bytes option \<times> ChunkedState io_result poll"

definition with_byte :: "'r read_mem \<Rightarrow> 'r \<Rightarrow> chunked \<Rightarrow> byte_handler \<Rightarrow> 'r step_result" where
  "with_byte rm r c f =
     (case read_byte rm r of
        (r', Pending) \<Rightarrow> (r', c, None, Pending)
      | (r', Ready (Inl e)) \<Rightarrow> (r', c, None, Ready (Inl e))
      | (r', Ready (Inr b)) \<Rightarrow> (let (c', res) = f c b in (r', c', None, Ready res)))"

text \<open>The macro \<^verbatim>\<open>or_overflow!\<close> around the two checked operations of a digit; a failed addition
  leaves the multiplied size behind.\<close>

definition push_digit :: "u64 \<Rightarrow> byte_handler" where
  "push_digit d c b =
     (case checked_mul (chunk_len c) 16 of
        None \<Rightarrow> (c, Inl (IoError InvalidData ''invalid chunk size: overflow''))
      | Some s \<Rightarrow>
          (case checked_add s d of
             None \<Rightarrow> (c\<lparr>chunk_len := s\<rparr>, Inl (IoError InvalidData ''invalid chunk size: overflow''))
           | Some s' \<Rightarrow> (c\<lparr>chunk_len := s'\<rparr>, Inr Size)))"

definition read_start :: byte_handler where
  "read_start c b =
     (if byte_in CHR ''0'' CHR ''9'' b then push_digit (of_nat (byte_val b - byte_val CHR ''0'')) c b
      else if byte_in CHR ''a'' CHR ''f'' b then push_digit (of_nat (byte_val b + 10 - byte_val CHR ''a'')) c b
      else if byte_in CHR ''A'' CHR ''F'' b then push_digit (of_nat (byte_val b + 10 - byte_val CHR ''A'')) c b
      else (c, Inl (IoError InvalidInput ''Invalid chunk size line: missing size digit'')))"

definition read_size :: byte_handler where
  "read_size c b =
     (if byte_in CHR ''0'' CHR ''9'' b then push_digit (of_nat (byte_val b - byte_val CHR ''0'')) c b
      else if byte_in CHR ''a'' CHR ''f'' b then push_digit (of_nat (byte_val b + 10 - byte_val CHR ''a'')) c b
      else if byte_in CHR ''A'' CHR ''F'' b then push_digit (of_nat (byte_val b + 10 - byte_val CHR ''A'')) c b
      else if b = TAB \<or> b = SP then (c, Inr SizeLws)
      else if b = CHR '';'' then (c, Inr Extension)
      else if b = CR then (c, Inr SizeLf)
      else (c, Inl (IoError InvalidInput ''Invalid chunk size line: Invalid Size'')))"

definition read_size_lws :: byte_handler where
  "read_size_lws c b =
     (if b = TAB \<or> b = SP then (c, Inr SizeLws)
      else if b = CHR '';'' then (c, Inr Extension)
      else if b = CR then (c, Inr SizeLf)
      else (c, Inl (IoError InvalidInput ''Invalid chunk size linear white space'')))"

definition read_extension :: byte_handler where
  "read_extension c b =
     (if b = CR then (c, Inr SizeLf)
      else if b = LF then (c, Inl (IoError InvalidData ''invalid chunk extension contains newline''))
      else
        let n = extensions_cnt c + 1; c' = c\<lparr>extensions_cnt := n\<rparr>
        in if CHUNKED_EXTENSIONS_LIMIT \<le> n
           then (c', Inl (IoError InvalidData ''chunk extensions over limit''))
           else (c', Inr Extension))"

definition read_size_lf :: byte_handler where
  "read_size_lf c b =
     (if b = LF then (if chunk_len c = 0 then (c, Inr EndCr) else (c, Inr Body))
      else (c, Inl (IoError InvalidInput ''Invalid chunk size LF'')))"

text \<open>\<^verbatim>\<open>read_body\<close> asks for the rest of the chunk (a \<^verbatim>\<open>u64\<close> fits a 64-bit \<^verbatim>\<open>usize\<close>, so
  the cap at \<^verbatim>\<open>usize::MAX\<close> is the identity).\<close>

definition read_body :: "'r read_mem \<Rightarrow> 'r \<Rightarrow> chunked \<Rightarrow> 'r step_result" where
  "read_body rm r c =
     (case rm r (unat (chunk_len c)) of
        (r', Pending) \<Rightarrow> (r', c, None, Pending)
      | (r', Ready (Inl e)) \<Rightarrow> (r', c, None, Ready (Inl e))
      | (r', Ready (Inr sl)) \<Rightarrow>
          (if length sl = 0
           then (r', c\<lparr>chunk_len := 0\<rparr>, None, Ready (Inl (IoError UnexpectedEof IncompleteBody)))
           else
             let rem = chunk_len c - of_nat (length sl)
             in (r', c\<lparr>chunk_len := rem\<rparr>, Some sl,
                 Ready (Inr (if rem > 0 then Body else BodyCr)))))"

definition read_body_cr :: byte_handler where
  "read_body_cr c b =
     (if b = CR then (c, Inr BodyLf)
      else (c, Inl (IoError InvalidInput ''Invalid chunk body CR'')))"

definition read_body_lf :: byte_handler where
  "read_body_lf c b =
     (if b = LF then (c, Inr Start)
      else (c, Inl (IoError InvalidInput ''Invalid chunk body LF'')))"

text \<open>The macro \<^verbatim>\<open>put_u8!\<close>: the byte is appended before the limit is checked.\<close>

definition put_u8 :: "nat \<Rightarrow> byte \<Rightarrow> chunked \<Rightarrow> ChunkedState \<Rightarrow> chunked \<times> ChunkedState io_result" where
  "put_u8 limit b c next =
     (case trailers_buf c of
        None \<Rightarrow> (c, Inl (Panicked ''trailers_buf is None''))
      | Some buf \<Rightarrow>
          let c' = c\<lparr>trailers_buf := Some (buf @ [b])\<rparr>
          in if limit \<le> length (buf @ [b])
             then (c', Inl (IoError InvalidData ''chunk trailers bytes over limit''))
             else (c', Inr next))"

definition read_trailer :: "nat \<Rightarrow> byte_handler" where
  "read_trailer max_header_size c b =
     put_u8 max_header_size b c (if b = CR then TrailerLf else Trailer)"

definition read_trailer_lf :: "nat \<Rightarrow> nat \<Rightarrow> byte_handler" where
  "read_trailer_lf max_headers max_header_size c b =
     (if b = LF then
        if max_headers \<le> trailers_cnt c
        then (c, Inl (IoError InvalidData ''chunk trailers count overflow''))
        else put_u8 max_header_size b (c\<lparr>trailers_cnt := trailers_cnt c + 1\<rparr>) EndCr
      else (c, Inl (IoError InvalidInput ''Invalid trailer end LF'')))"

definition read_end_cr :: "nat \<Rightarrow> byte_handler" where
  "read_end_cr max_header_size c b =
     (if b = CR then
        (case trailers_buf c of
           Some _ \<Rightarrow> put_u8 max_header_size b c EndLf
         | None \<Rightarrow> (c, Inr EndLf))
      else
        (case trailers_buf c of
           None \<Rightarrow> (c\<lparr>trailers_buf := Some [b]\<rparr>, Inr Trailer)
         | Some _ \<Rightarrow> put_u8 max_header_size b c Trailer))"

definition read_end_lf :: "nat \<Rightarrow> byte_handler" where
  "read_end_lf max_header_size c b =
     (if b = LF then
        (case trailers_buf c of
           Some _ \<Rightarrow> put_u8 max_header_size b c End
         | None \<Rightarrow> (c, Inr End))
      else (c, Inl (IoError InvalidInput ''Invalid chunk end LF'')))"

text \<open>The dispatch of \<^verbatim>\<open>step\<close> over the states that read one byte.\<close>

fun handler :: "nat \<Rightarrow> nat \<Rightarrow> ChunkedState \<Rightarrow> byte_handler" where
  "handler mh ms Start = read_start"
| "handler mh ms Size = read_size"
| "handler mh ms SizeLws = read_size_lws"
| "handler mh ms Extension = read_extension"
| "handler mh ms SizeLf = read_size_lf"
| "handler mh ms BodyCr = read_body_cr"
| "handler mh ms BodyLf = read_body_lf"
| "handler mh ms Trailer = read_trailer ms"
| "handler mh ms TrailerLf = read_trailer_lf mh ms"
| "handler mh ms EndCr = read_end_cr ms"
| "handler mh ms EndLf = read_end_lf ms"
| "handler mh ms Body = (\<lambda>c b. (c, Inr Body))"
| "handler mh ms End = (\<lambda>c b. (c, Inr End))"

definition chunked_step :: "'r read_mem \<Rightarrow> nat \<Rightarrow> nat \<Rightarrow> 'r \<Rightarrow> chunked \<Rightarrow> 'r step_result" where
  "chunked_step rm max_headers max_header_size r c =
     (case cstate c of
        Body \<Rightarrow> read_body rm r c
      | End \<Rightarrow> (r, c, None, Ready (Inr End))
      | s \<Rightarrow> with_byte rm r c (handler max_headers max_header_size s))"


subsection \<open>Trailers\<close>

fun collect_trailers :: "('m, 'z) http_lib_scheme \<Rightarrow> 'm \<Rightarrow> (bytes \<times> bytes) list \<Rightarrow> 'm io_result" where
  "collect_trailers H trailers [] = Inr trailers"
| "collect_trailers H trailers ((n, v) # hs) =
     (case hn_from_bytes H n of
        None \<Rightarrow> Inl (IoError InvalidInput ''Invalid header name'')
      | Some name \<Rightarrow>
          (case hv_from_bytes H v of
             None \<Rightarrow> Inl (IoError InvalidInput ''Invalid header value'')
           | Some value \<Rightarrow> collect_trailers H (hm_insert H name value trailers) hs))"

definition decode_trailers :: "('m, 'z) http_lib_scheme \<Rightarrow> bytes \<Rightarrow> nat \<Rightarrow> 'm io_result" where
  "decode_trailers H buf count =
     (case hp_parse_headers H buf count of
        Inr (Some headers) \<Rightarrow> collect_trailers H (hm_new H) headers
      | Inr None \<Rightarrow> Inl (IoError InvalidInput ''Partial header'')
      | Inl e \<Rightarrow> Inl (IoError InvalidInput ''invalid trailer''))"

subsection \<open>The decode loop\<close>

text \<open>What the loop does once the state is \<^const>\<open>End\<close>.\<close>

definition finish_chunked ::
  "('m, 'z) http_lib_scheme \<Rightarrow> nat \<Rightarrow> chunked \<Rightarrow> chunked \<times> 'm frame io_result" where
  "finish_chunked H max_headers c =
     (case trailers_buf c of
        Some buf \<Rightarrow>
          if max_headers \<le> trailers_cnt c
          then (c, Inl (IoError InvalidData ''chunk trailers count overflow''))
          else (c\<lparr>trailers_buf := None\<rparr>,
                case decode_trailers H buf (trailers_cnt c) of
                  Inr headers \<Rightarrow> Inr (Trailers headers)
                | Inl e \<Rightarrow> Inl e)
      | None \<Rightarrow> (c, Inr (Data [])))"

partial_function (option) decode_loop ::
  "('m, 'z) http_lib_scheme \<Rightarrow> 'r read_mem \<Rightarrow> nat \<Rightarrow> nat \<Rightarrow> 'r \<Rightarrow> chunked \<Rightarrow>
   ('r \<times> chunked \<times> 'm frame io_result poll) option" where
  "decode_loop H rm mh ms r c =
     (case chunked_step rm mh ms r c of
        (r', c', buf, Pending) \<Rightarrow> Some (r', c', Pending)
      | (r', c', buf, Ready (Inl e)) \<Rightarrow> Some (r', c', Ready (Inl e))
      | (r', c', buf, Ready (Inr s)) \<Rightarrow>
          (if s = End then
             let (c'', res) = finish_chunked H mh (c'\<lparr>cstate := s\<rparr>) in Some (r', c'', Ready res)
           else case buf of
                  Some b \<Rightarrow> Some (r', c'\<lparr>cstate := s\<rparr>, Ready (Inr (Data b)))
                | None \<Rightarrow> decode_loop H rm mh ms r' (c'\<lparr>cstate := s\<rparr>)))"

definition max_headers_of :: "chunked \<Rightarrow> nat" where
  "max_headers_of c = (case h1_max_headers c of Some n \<Rightarrow> n | None \<Rightarrow> DEFAULT_MAX_HEADERS)"

definition max_header_size_of :: "chunked \<Rightarrow> nat" where
  "max_header_size_of c = (case h1_max_header_size c of Some n \<Rightarrow> n | None \<Rightarrow> TRAILER_LIMIT)"

fun decode ::
  "('m, 'z) http_lib_scheme \<Rightarrow> 'r read_mem \<Rightarrow> 'r \<Rightarrow> decoder \<Rightarrow>
   ('r \<times> decoder \<times> 'm frame io_result poll) option" where
  "decode H rm r (Length remaining) =
     (if remaining = 0 then Some (r, Length remaining, Ready (Inr (Data [])))
      else
        case rm r (unat remaining) of
          (r', Pending) \<Rightarrow> Some (r', Length remaining, Pending)
        | (r', Ready (Inl e)) \<Rightarrow> Some (r', Length remaining, Ready (Inl e))
        | (r', Ready (Inr buf)) \<Rightarrow>
            let num = length buf
            in if num > unat remaining then Some (r', Length 0, Ready (Inr (Data buf)))
               else if num = 0
               then Some (r', Length remaining, Ready (Inl (IoError UnexpectedEof IncompleteBody)))
               else Some (r', Length (remaining - of_nat num), Ready (Inr (Data buf))))"
| "decode H rm r (Chunked c) =
     map_option (\<lambda>(r', c', res). (r', Chunked c', res))
       (decode_loop H rm (max_headers_of c) (max_header_size_of c) r c)"
| "decode H rm r (Eof is_eof) =
     (if is_eof then Some (r, Eof is_eof, Ready (Inr (Data [])))
      else
        case rm r 8192 of
          (r', Pending) \<Rightarrow> Some (r', Eof is_eof, Pending)
        | (r', Ready (Inl e)) \<Rightarrow> Some (r', Eof is_eof, Ready (Inl e))
        | (r', Ready (Inr sl)) \<Rightarrow> Some (r', Eof (sl = []), Ready (Inr (Data sl))))"

section \<open>The reference automaton\<close>

text \<open>
  The chunked grammar as an automaton over single bytes: one state change per byte, a body byte
  is also output. It knows nothing of readers, of how the bytes arrive or of the loop. It has no
  transition out of \<^const>\<open>End\<close>.
\<close>

definition byte_step :: "nat \<Rightarrow> nat \<Rightarrow> chunked \<Rightarrow> byte \<Rightarrow> io_error + chunked \<times> bytes" where
  "byte_step mh ms c b =
     (case cstate c of
        Body \<Rightarrow>
          (let rem = chunk_len c - 1
           in Inr (c\<lparr>chunk_len := rem, cstate := (if rem > 0 then Body else BodyCr)\<rparr>, [b]))
      | End \<Rightarrow> Inl (Panicked ''byte after the end of the body'')
      | s \<Rightarrow> (case handler mh ms s c b of
                (c', Inl e) \<Rightarrow> Inl e
              | (c', Inr s') \<Rightarrow> Inr (c'\<lparr>cstate := s'\<rparr>, [])))"

fun chunk_run :: "nat \<Rightarrow> nat \<Rightarrow> chunked \<Rightarrow> bytes \<Rightarrow> io_error + chunked \<times> bytes" where
  "chunk_run mh ms c [] = Inr (c, [])"
| "chunk_run mh ms c (b # bs) =
     (case byte_step mh ms c b of
        Inl e \<Rightarrow> Inl e
      | Inr (c', out) \<Rightarrow>
          (case chunk_run mh ms c' bs of
             Inl e \<Rightarrow> Inl e
           | Inr (c'', outs) \<Rightarrow> Inr (c'', out @ outs)))"

lemma chunk_run_append:
  "chunk_run mh ms c (xs @ ys) =
     (case chunk_run mh ms c xs of
        Inl e \<Rightarrow> Inl e
      | Inr (c', out) \<Rightarrow>
          (case chunk_run mh ms c' ys of
             Inl e \<Rightarrow> Inl e
           | Inr (c'', outs) \<Rightarrow> Inr (c'', out @ outs)))"
  by (induction xs arbitrary: c) (auto split: sum.splits prod.splits)

lemma chunk_run_trans:
  assumes "chunk_run mh ms c xs = Inr (c', out)" and "chunk_run mh ms c' ys = Inr (c'', outs)"
  shows "chunk_run mh ms c (xs @ ys) = Inr (c'', out @ outs)"
  using assms by (simp add: chunk_run_append)

lemma chunk_run_prefix:
  assumes "chunk_run mh ms c (xs @ ys) = Inr (c'', outs)"
  obtains c' o1 o2 where "chunk_run mh ms c xs = Inr (c', o1)"
    and "chunk_run mh ms c' ys = Inr (c'', o2)" and "outs = o1 @ o2"
  using assms by (auto simp: chunk_run_append split: sum.splits prod.splits)

lemma chunk_run_End: "cstate c = End \<Longrightarrow> chunk_run mh ms c bs = Inr r \<Longrightarrow> bs = []"
  by (cases bs) (auto simp: byte_step_def)

text \<open>A run to the end is unique: no proper prefix of it ends there too.\<close>

lemma chunk_run_End_unique:
  assumes "chunk_run mh ms c xs = Inr (c1, o1)" and "cstate c1 = End"
    and "chunk_run mh ms c ys = Inr (c2, o2)" and "cstate c2 = End"
    and "xs @ s = ys @ t"
  shows "xs = ys \<and> c1 = c2 \<and> o1 = o2 \<and> s = t"
proof -
  obtain zs where "xs = ys @ zs \<or> ys = xs @ zs"
    using assms(5) by (metis append_eq_append_conv2)
  then have "xs = ys"
  proof
    assume "xs = ys @ zs"
    with assms(1,3,4) show ?thesis
      by (metis chunk_run_End chunk_run_prefix append_Nil2 old.sum.inject(2) prod.inject)
  next
    assume "ys = xs @ zs"
    with assms(1,2,3) show ?thesis
      by (metis chunk_run_End chunk_run_prefix append_Nil2 old.sum.inject(2) prod.inject)
  qed
  with assms show ?thesis by simp
qed

text \<open>Reading \<open>k\<close> body bytes at once is \<open>k\<close> transitions of the automaton.\<close>

lemma chunk_run_body:
  "cstate c = Body \<Longrightarrow> bs \<noteq> [] \<Longrightarrow> length bs \<le> unat (chunk_len c) \<Longrightarrow>
   chunk_run mh ms c bs =
     (let rem = chunk_len c - of_nat (length bs)
      in Inr (c\<lparr>chunk_len := rem, cstate := (if rem > 0 then Body else BodyCr)\<rparr>, bs))"
proof (induction bs arbitrary: c)
  case (Cons b bs)
  show ?case
  proof (cases "bs = []")
    case True
    then show ?thesis using Cons.prems by (simp add: byte_step_def Let_def)
  next
    case False
    define c1 where "c1 = c\<lparr>chunk_len := chunk_len c - 1, cstate := Body\<rparr>"
    have "(1::u64) \<le> chunk_len c"
      using Cons.prems by (simp add: word_le_nat_alt)
    then have len1: "unat (chunk_len c - 1) = unat (chunk_len c) - 1"
      by (simp add: unat_minus_le)
    have "length bs \<le> unat (chunk_len c - 1)" using Cons.prems len1 by simp
    moreover from this False have "chunk_len c - 1 > 0"
      by (auto simp: word_gt_0)
    ultimately show ?thesis
      using Cons.IH [of c1] False Cons.prems
      by (simp add: byte_step_def Let_def c1_def algebra_simps)
  qed
qed simp

section \<open>The decoder refines the automaton\<close>

lemma byte_step_handler:
  "cstate c \<noteq> Body \<Longrightarrow> cstate c \<noteq> End \<Longrightarrow>
   byte_step mh ms c b =
     (case handler mh ms (cstate c) c b of
        (c', Inl e) \<Rightarrow> Inl e
      | (c', Inr s') \<Rightarrow> Inr (c'\<lparr>cstate := s'\<rparr>, []))"
  by (cases "cstate c") (auto simp: byte_step_def)

lemma chunked_step_handler:
  "cstate c \<noteq> Body \<Longrightarrow> cstate c \<noteq> End \<Longrightarrow>
   chunked_step rm mh ms r c = with_byte rm r c (handler mh ms (cstate c))"
  by (cases "cstate c") (auto simp: chunked_step_def)

lemma put_u8_frame:
  "put_u8 l b c s = (c', res) \<Longrightarrow>
   cstate c' = cstate c \<and> h1_max_headers c' = h1_max_headers c \<and>
   h1_max_header_size c' = h1_max_header_size c"
  by (auto simp: put_u8_def Let_def split: option.splits if_splits)

lemmas handler_defs = read_start_def read_size_def read_size_lws_def read_extension_def
  read_size_lf_def read_body_cr_def read_body_lf_def read_trailer_def read_trailer_lf_def
  read_end_cr_def read_end_lf_def push_digit_def Let_def

text \<open>Why a decode call fails: the reader failed, the stream ended early, or the bytes are not
  in the grammar.\<close>

definition decode_fault :: "(io_error \<Rightarrow> bool) \<Rightarrow> nat \<Rightarrow> nat \<Rightarrow> chunked \<Rightarrow> bytes \<Rightarrow> io_error \<Rightarrow> bool" where
  "decode_fault reader_err mh ms c bs e \<longleftrightarrow>
     reader_err e \<or>
     (\<exists>w b c' out. prefix (w @ [b]) bs \<and> chunk_run mh ms c w = Inr (c', out) \<and>
        cstate c' \<noteq> End \<and> byte_step mh ms c' b = Inl e) \<or>
     (\<exists>c' out m. chunk_run mh ms c bs = Inr (c', out) \<and> cstate c' \<noteq> End \<and>
        e = IoError UnexpectedEof m)"

lemma decode_fault_append:
  assumes run: "chunk_run mh ms c w = Inr (c', out)" and fault: "decode_fault p mh ms c' bs e"
  shows "decode_fault p mh ms c (w @ bs) e"
proof -
  from fault consider "p e"
    | v b c1 o1 where "prefix (v @ [b]) bs" "chunk_run mh ms c' v = Inr (c1, o1)"
        "cstate c1 \<noteq> End" "byte_step mh ms c1 b = Inl e"
    | c1 o1 m where "chunk_run mh ms c' bs = Inr (c1, o1)" "cstate c1 \<noteq> End"
        "e = IoError UnexpectedEof m"
    unfolding decode_fault_def by auto
  then show ?thesis
  proof cases
    case 1
    then show ?thesis by (simp add: decode_fault_def)
  next
    case 2
    have "prefix ((w @ v) @ [b]) (w @ bs)" using 2(1) by simp
    moreover note chunk_run_trans [OF run 2(2)]
    ultimately show ?thesis using 2(3,4) unfolding decode_fault_def by blast
  next
    case 3
    then show ?thesis using chunk_run_trans [OF run 3(1)] unfolding decode_fault_def by blast
  qed
qed

text \<open>
  The invariant of the chunked state: a body state has bytes left, the states between chunks
  have none, the trailer states have a trailer buffer, and the three limits of the decoder hold.
  The first trailer byte is stored without a check, hence the \<open>max 2\<close>.
\<close>

definition chunk_inv :: "nat \<Rightarrow> nat \<Rightarrow> chunked \<Rightarrow> bool" where
  "chunk_inv mh ms c \<longleftrightarrow>
     (cstate c = Body \<longrightarrow> chunk_len c \<noteq> 0) \<and>
     (cstate c \<in> {Start, BodyCr, BodyLf} \<longrightarrow> chunk_len c = 0) \<and>
     (cstate c \<in> {Trailer, TrailerLf} \<longrightarrow> trailers_buf c \<noteq> None) \<and>
     extensions_cnt c < CHUNKED_EXTENSIONS_LIMIT \<and>
     (\<forall>buf. trailers_buf c = Some buf \<longrightarrow> length buf < max 2 ms) \<and>
     trailers_cnt c \<le> mh"

lemma put_u8_inv:
  assumes "chunk_inv mh ms c" and "put_u8 ms b c' s = (c'', Inr s')"
    and "trailers_buf c' = trailers_buf c" and "extensions_cnt c' = extensions_cnt c"
    and "trailers_cnt c' \<le> mh" and "s \<notin> {Body, Start, BodyCr, BodyLf}"
  shows "chunk_inv mh ms (c''\<lparr>cstate := s'\<rparr>)"
  using assms by (auto simp: put_u8_def chunk_inv_def Let_def split: option.splits if_splits)

lemma push_digit_inv:
  "chunk_inv mh ms c \<Longrightarrow> push_digit d c b = (c', Inr s') \<Longrightarrow> chunk_inv mh ms (c'\<lparr>cstate := s'\<rparr>)"
  by (auto simp: push_digit_def chunk_inv_def split: option.splits)

lemma size_line_inv:
  assumes "chunk_inv mh ms c"
  shows "read_start c b = (c', Inr s') \<Longrightarrow> chunk_inv mh ms (c'\<lparr>cstate := s'\<rparr>)"
    and "read_size c b = (c', Inr s') \<Longrightarrow> chunk_inv mh ms (c'\<lparr>cstate := s'\<rparr>)"
    and "read_size_lws c b = (c', Inr s') \<Longrightarrow> chunk_inv mh ms (c'\<lparr>cstate := s'\<rparr>)"
    and "read_size_lf c b = (c', Inr s') \<Longrightarrow> chunk_inv mh ms (c'\<lparr>cstate := s'\<rparr>)"
  using push_digit_inv [OF assms] assms
  by (auto simp: read_start_def read_size_def read_size_lws_def read_size_lf_def chunk_inv_def
      split: if_splits)

lemma read_extension_inv:
  "chunk_inv mh ms c \<Longrightarrow> read_extension c b = (c', Inr s') \<Longrightarrow> chunk_inv mh ms (c'\<lparr>cstate := s'\<rparr>)"
  by (auto simp: read_extension_def chunk_inv_def Let_def split: if_splits)

lemma body_end_inv:
  assumes "chunk_inv mh ms c" and "cstate c \<in> {BodyCr, BodyLf}"
  shows "read_body_cr c b = (c', Inr s') \<Longrightarrow> chunk_inv mh ms (c'\<lparr>cstate := s'\<rparr>)"
    and "read_body_lf c b = (c', Inr s') \<Longrightarrow> chunk_inv mh ms (c'\<lparr>cstate := s'\<rparr>)"
  using assms by (auto simp: read_body_cr_def read_body_lf_def chunk_inv_def split: if_splits)

lemma trailer_inv:
  assumes "chunk_inv mh ms c"
  shows "read_trailer ms c b = (c', Inr s') \<Longrightarrow> chunk_inv mh ms (c'\<lparr>cstate := s'\<rparr>)"
    and "read_trailer_lf mh ms c b = (c', Inr s') \<Longrightarrow> chunk_inv mh ms (c'\<lparr>cstate := s'\<rparr>)"
  using put_u8_inv [OF assms] assms
  by (auto simp: read_trailer_def read_trailer_lf_def chunk_inv_def split: if_splits)

lemma end_inv:
  assumes "chunk_inv mh ms c"
  shows "read_end_cr ms c b = (c', Inr s') \<Longrightarrow> chunk_inv mh ms (c'\<lparr>cstate := s'\<rparr>)"
    and "read_end_lf ms c b = (c', Inr s') \<Longrightarrow> chunk_inv mh ms (c'\<lparr>cstate := s'\<rparr>)"
  using put_u8_inv [OF assms] assms
  by (auto simp: read_end_cr_def read_end_lf_def chunk_inv_def split: if_splits option.splits)

lemmas handler_inv = size_line_inv read_extension_inv body_end_inv trailer_inv end_inv

lemma handler_preserves_inv:
  assumes "chunk_inv mh ms c" and "cstate c \<noteq> Body" and "cstate c \<noteq> End"
    and "handler mh ms (cstate c) c b = (c', Inr s')"
  shows "chunk_inv mh ms (c'\<lparr>cstate := s'\<rparr>)"
  using assms by (cases "cstate c") (auto intro: handler_inv)

lemma byte_step_inv [wf_intros]:
  assumes inv: "chunk_inv mh ms c" and step: "byte_step mh ms c b = Inr (c', out)"
  shows "chunk_inv mh ms c'"
proof (cases "cstate c = Body")
  case True
  then have c': "c' = c\<lparr>chunk_len := chunk_len c - 1,
      cstate := (if chunk_len c - 1 > 0 then Body else BodyCr)\<rparr>"
    using step by (simp add: byte_step_def Let_def)
  show ?thesis
  proof (cases "chunk_len c - 1 = 0")
    case zero: True
    then show ?thesis using inv unfolding c' by (simp add: chunk_inv_def)
  next
    case False
    then have "chunk_len c - 1 > 0" by (simp only: word_neq_0_conv)
    with False show ?thesis using inv unfolding c' by (simp add: chunk_inv_def)
  qed
next
  case False
  have ne: "cstate c \<noteq> End" using step by (auto simp: byte_step_def)
  obtain c1 y where h: "handler mh ms (cstate c) c b = (c1, y)"
    by (cases "handler mh ms (cstate c) c b")
  with step byte_step_handler [OF False ne, of mh ms b]
  obtain s' where "y = Inr s'" and "c' = c1\<lparr>cstate := s'\<rparr>"
    by (cases y) auto
  with handler_preserves_inv [OF inv False ne] h show ?thesis by simp
qed

lemma chunk_run_inv [wf_intros]:
  "chunk_inv mh ms c \<Longrightarrow> chunk_run mh ms c bs = Inr (c', out) \<Longrightarrow> chunk_inv mh ms c'"
  by (induction bs arbitrary: c out)
     (auto split: sum.splits prod.splits dest: byte_step_inv)

text \<open>What a call of the decode loop did to the stream, in terms of the automaton.\<close>

definition loop_outcome ::
  "('m, 'z) http_lib_scheme \<Rightarrow> (io_error \<Rightarrow> bool) \<Rightarrow> nat \<Rightarrow> nat \<Rightarrow> chunked \<Rightarrow> bytes \<Rightarrow>
   bytes \<Rightarrow> chunked \<Rightarrow> 'm frame io_result poll \<Rightarrow> bool" where
  "loop_outcome H rerr mh ms c st st' c' res =
     (case res of
        Pending \<Rightarrow> \<exists>w. st = w @ st' \<and> chunk_run mh ms c w = Inr (c', [])
      | Ready (Inr f) \<Rightarrow>
          \<exists>w c1 out. st = w @ st' \<and> chunk_run mh ms c w = Inr (c1, out) \<and>
            (if cstate c1 = End then out = [] \<and> finish_chunked H mh c1 = (c', Inr f)
             else c' = c1 \<and> f = Data out \<and> out \<noteq> [])
      | Ready (Inl e) \<Rightarrow>
          decode_fault rerr mh ms c st e \<or>
          (\<exists>w c1. st = w @ st' \<and> chunk_run mh ms c w = Inr (c1, []) \<and> cstate c1 = End \<and>
             finish_chunked H mh c1 = (c', Inl e)))"

lemma loop_outcome_append:
  assumes run: "chunk_run mh ms c w = Inr (c1, [])" and out: "loop_outcome H rerr mh ms c1 st st' c' res"
  shows "loop_outcome H rerr mh ms c (w @ st) st' c' res"
proof -
  have trans: "chunk_run mh ms c1 v = Inr y \<Longrightarrow> chunk_run mh ms c (w @ v) = Inr y" for v y
    using run by (cases y) (auto simp: chunk_run_append)
  show ?thesis
  proof (cases res)
    case Pending
    with out trans show ?thesis by (fastforce simp: loop_outcome_def)
  next
    case (Ready x)
    show ?thesis
    proof (cases x)
      case (Inl e)
      from out Ready Inl consider "decode_fault rerr mh ms c1 st e"
        | v c2 where "st = v @ st'" "chunk_run mh ms c1 v = Inr (c2, [])" "cstate c2 = End"
            "finish_chunked H mh c2 = (c', Inl e)"
        by (auto simp: loop_outcome_def)
      then show ?thesis
      proof cases
        case 1
        with run Ready Inl show ?thesis by (simp add: loop_outcome_def decode_fault_append)
      next
        case 2
        with trans [of v] Ready Inl show ?thesis
          by (auto simp: loop_outcome_def intro!: exI [where x = "w @ v"])
      qed
    next
      case (Inr f)
      from out Ready Inr obtain v c2 o2 where "st = v @ st'" "chunk_run mh ms c1 v = Inr (c2, o2)"
        "if cstate c2 = End then o2 = [] \<and> finish_chunked H mh c2 = (c', Inr f)
         else c' = c2 \<and> f = Data o2 \<and> o2 \<noteq> []"
        by (auto simp: loop_outcome_def)
      with trans [of v] Ready Inr show ?thesis
        unfolding loop_outcome_def
        by (simp only: poll.case sum.case) (intro exI [where x = "w @ v"] exI conjI; simp)
    qed
  qed
qed

context mem_read
begin

definition reader_error :: "io_error \<Rightarrow> bool" where
  "reader_error e \<longleftrightarrow> (\<exists>r n r'. invar r \<and> read_mem r n = (r', Ready (Inl e)))"

lemma read_byte_cases:
  assumes "invar r"
  shows "case read_byte read_mem r of
      (r', Pending) \<Rightarrow> invar r' \<and> stream r' = stream r
    | (r', Ready (Inr b)) \<Rightarrow> invar r' \<and> stream r = b # stream r'
    | (r', Ready (Inl e)) \<Rightarrow> invar r' \<and>
        (reader_error e \<or> (stream r = [] \<and> (\<exists>m. e = IoError UnexpectedEof m)))"
proof -
  obtain r' p where rd: "read_mem r 1 = (r', p)" by (cases "read_mem r 1")
  have inv: "invar r'" using read_invar [OF assms, of 1] rd by simp
  show ?thesis
  proof (cases p)
    case Pending
    then show ?thesis using rd inv read_pending [OF assms, of 1 r'] by (simp add: read_byte_def)
  next
    case (Ready x)
    show ?thesis
    proof (cases x)
      case (Inl e)
      with Ready rd have "read_mem r 1 = (r', Ready (Inl e))" by simp
      moreover from this assms have "reader_error e" unfolding reader_error_def by blast
      ultimately show ?thesis using inv by (simp add: read_byte_def)
    next
      case (Inr bs)
      with Ready rd have eq: "read_mem r 1 = (r', Ready (Inr bs))" by simp
      from read_data [OF assms eq] have st: "stream r = bs @ stream r'" and "length bs \<le> 1"
        by auto
      then consider "bs = []" | b where "bs = [b]"
        by (cases bs) auto
      then show ?thesis
      proof cases
        case 1
        then have "stream r = []" using read_eof [OF assms, of 1 r'] eq by simp
        with 1 eq inv show ?thesis by (simp add: read_byte_def)
      next
        case 2
        with eq inv st show ?thesis by (simp add: read_byte_def)
      qed
    qed
  qed
qed

text \<open>One step of the decoder is a non-empty run of the automaton, whatever the reader returns.\<close>

lemma chunked_step_sim:
  assumes inv: "invar r" and ne: "cstate c \<noteq> End" and wf: "chunk_inv mh ms c"
    and step: "chunked_step read_mem mh ms r c = (r', c', buf, res)"
  shows "invar r' \<and>
    (case res of
       Pending \<Rightarrow> c' = c \<and> stream r' = stream r
     | Ready (Inr s) \<Rightarrow>
         (s = End \<longrightarrow> buf = None) \<and>
         (\<exists>w. w \<noteq> [] \<and> stream r = w @ stream r' \<and> buf \<noteq> Some [] \<and>
             chunk_run mh ms c w = Inr (c'\<lparr>cstate := s\<rparr>, case buf of None \<Rightarrow> [] | Some b \<Rightarrow> b))
     | Ready (Inl e) \<Rightarrow> decode_fault reader_error mh ms c (stream r) e)"
proof (cases "cstate c = Body")
  case True
  obtain r1 p where rd: "read_mem r (unat (chunk_len c)) = (r1, p)"
    by (cases "read_mem r (unat (chunk_len c))")
  have r1: "invar r1" using read_invar [OF inv, of "unat (chunk_len c)"] rd by simp
  have bstep: "read_body read_mem r c = (r', c', buf, res)"
    using step True by (simp add: chunked_step_def)
  show ?thesis
  proof (cases p)
    case Pending
    with rd bstep r1 read_pending [OF inv rd [unfolded Pending]] show ?thesis
      by (auto simp: read_body_def)
  next
    case (Ready x)
    show ?thesis
    proof (cases x)
      case (Inl e)
      then have "reader_error e" using rd Ready inv unfolding reader_error_def by blast
      with rd Ready Inl bstep r1 show ?thesis by (auto simp: read_body_def decode_fault_def)
    next
      case (Inr bs)
      with rd Ready have eq: "read_mem r (unat (chunk_len c)) = (r1, Ready (Inr bs))" by simp
      note data = read_data [OF inv eq]
      show ?thesis
      proof (cases "bs = []")
        case empty: True
        have "0 < unat (chunk_len c)" using wf True by (simp add: chunk_inv_def unat_gt_0)
        then have "stream r = []"
          using read_eof [OF inv, of "unat (chunk_len c)" r1] eq empty by simp
        with empty eq bstep r1 True show ?thesis by (auto simp: read_body_def decode_fault_def)
      next
        case False
        from data have "chunk_run mh ms c bs =
            (let rem = chunk_len c - of_nat (length bs)
             in Inr (c\<lparr>chunk_len := rem, cstate := (if rem > 0 then Body else BodyCr)\<rparr>, bs))"
          using True False by (intro chunk_run_body) auto
        with data False bstep eq r1 show ?thesis
          by (auto simp: read_body_def Let_def intro: exI [where x = bs])
      qed
    qed
  qed
next
  case False
  obtain r1 p where rb: "read_byte read_mem r = (r1, p)" by (cases "read_byte read_mem r")
  note rc = read_byte_cases [OF inv, unfolded rb]
  have wb: "with_byte read_mem r c (handler mh ms (cstate c)) = (r', c', buf, res)"
    using step chunked_step_handler [OF False ne, of read_mem mh ms r] by simp
  show ?thesis
  proof (cases p)
    case Pending
    with rc wb rb show ?thesis by (auto simp: with_byte_def)
  next
    case (Ready x)
    show ?thesis
    proof (cases x)
      case (Inl e)
      with Ready rc have "invar r1" and "reader_error e \<or> (stream r = [] \<and> (\<exists>m. e = IoError UnexpectedEof m))"
        by auto
      with Ready Inl wb rb ne show ?thesis by (auto simp: with_byte_def decode_fault_def)
    next
      case (Inr b)
      with Ready rc have r1: "invar r1" and st: "stream r = b # stream r1" by auto
      obtain c1 y where h: "handler mh ms (cstate c) c b = (c1, y)"
        by (cases "handler mh ms (cstate c) c b")
      have res: "r' = r1" "c' = c1" "buf = None" "res = poll.Ready y"
        using wb rb Ready Inr h by (auto simp: with_byte_def)
      note bs = byte_step_handler [OF False ne, of mh ms b, unfolded h]
      show ?thesis
      proof (cases y)
        case (Inl e)
        then have "byte_step mh ms c b = Inl e" using bs by simp
        moreover have "prefix ([] @ [b]) (stream r)" and "chunk_run mh ms c [] = Inr (c, [])"
          by (simp_all add: st)
        ultimately show ?thesis using res Inl r1 ne unfolding decode_fault_def
          by (simp only: poll.case sum.case) blast
      next
        case (Inr s)
        then have "chunk_run mh ms c [b] = Inr (c1\<lparr>cstate := s\<rparr>, [])" using bs by simp
        then show ?thesis using res Inr r1 st by (auto intro: exI [where x = "[b]"])
      qed
    qed
  qed
qed

text \<open>
  The decode loop returns for every reader of the interface, and what it returns is what the
  automaton says of the bytes it consumed.
\<close>

theorem decode_loop_total:
  assumes "invar r" and "chunk_inv mh ms c" and "cstate c \<noteq> End"
  shows "\<exists>r' c' res. decode_loop H read_mem mh ms r c = Some (r', c', res) \<and> invar r' \<and>
           loop_outcome H reader_error mh ms c (stream r) (stream r') c' res"
  using assms
proof (induction "length (stream r)" arbitrary: r c rule: less_induct)
  case less
  obtain r1 c1 buf p where step: "chunked_step read_mem mh ms r c = (r1, c1, buf, p)"
    by (cases "chunked_step read_mem mh ms r c") auto
  note sim = chunked_step_sim [OF less.prems(1,3,2) step]
  note unfold = decode_loop.simps [of H read_mem mh ms r c, unfolded step]
  show ?case
  proof (cases p)
    case Pending
    with sim unfold show ?thesis
      by (auto simp: loop_outcome_def)
  next
    case (Ready x)
    show ?thesis
    proof (cases x)
      case (Inl e)
      with Ready sim unfold show ?thesis by (auto simp: loop_outcome_def)
    next
      case (Inr s)
      with Ready sim obtain w where r1: "invar r1" and w: "w \<noteq> []" "stream r = w @ stream r1"
        and nb: "buf \<noteq> Some []" "s = End \<longrightarrow> buf = None"
        and run: "chunk_run mh ms c w = Inr (c1\<lparr>cstate := s\<rparr>, case buf of None \<Rightarrow> [] | Some b \<Rightarrow> b)"
        by auto
      consider "s = End" | b where "s \<noteq> End" "buf = Some b" | "s \<noteq> End" "buf = None"
        by (cases buf) auto
      then show ?thesis
      proof cases
        case 1
        obtain c2 y where fin: "finish_chunked H mh (c1\<lparr>cstate := End\<rparr>) = (c2, y)"
          by (cases "finish_chunked H mh (c1\<lparr>cstate := End\<rparr>)")
        with 1 Ready Inr unfold have "decode_loop H read_mem mh ms r c = Some (r1, c2, poll.Ready y)"
          by simp
        moreover have "loop_outcome H reader_error mh ms c (stream r) (stream r1) c2 (poll.Ready y)"
          using 1 nb run w fin
          by (cases y) (force simp: loop_outcome_def intro: exI [where x = w])+
        ultimately show ?thesis using r1 by blast
      next
        case 2
        with Ready Inr unfold
        have "decode_loop H read_mem mh ms r c = Some (r1, c1\<lparr>cstate := s\<rparr>, poll.Ready (Inr (Data b)))"
          by simp
        moreover have "loop_outcome H reader_error mh ms c (stream r) (stream r1) (c1\<lparr>cstate := s\<rparr>)
            (poll.Ready (Inr (Data b)))"
          using 2 nb run w by (auto simp: loop_outcome_def intro: exI [where x = w])
        ultimately show ?thesis using r1 by blast
      next
        case 3
        with Ready Inr unfold
        have "decode_loop H read_mem mh ms r c = decode_loop H read_mem mh ms r1 (c1\<lparr>cstate := s\<rparr>)"
          by simp
        moreover have "length (stream r1) < length (stream r)" using w by simp
        moreover have "chunk_inv mh ms (c1\<lparr>cstate := s\<rparr>)"
          using run less.prems(2) chunk_run_inv by blast
        ultimately obtain r' c' res where
          "decode_loop H read_mem mh ms r c = Some (r', c', res)" "invar r'"
          "loop_outcome H reader_error mh ms (c1\<lparr>cstate := s\<rparr>) (stream r1) (stream r') c' res"
          using less.hyps [of r1 "c1\<lparr>cstate := s\<rparr>"] r1 3 by auto
        moreover from this(3) run 3 w(2)
        have "loop_outcome H reader_error mh ms c (stream r) (stream r') c' res"
          by (auto intro: loop_outcome_append)
        ultimately show ?thesis by blast
      qed
    qed
  qed
qed

end

section \<open>Reading a whole body\<close>

text \<open>
  A sequence of \<^const>\<open>decode\<close> calls that delivered data or found nothing to read yet: the reader
  and the decoder after it, and all data it delivered.
\<close>

inductive body_reads ::
  "('m, 'z) http_lib_scheme \<Rightarrow> 'r read_mem \<Rightarrow> 'r \<Rightarrow> decoder \<Rightarrow> bytes \<Rightarrow> 'r \<Rightarrow> decoder \<Rightarrow> bool"
  for H :: "('m, 'z) http_lib_scheme" and rm :: "'r read_mem" and r0 :: 'r and d0 :: decoder where
  reads_none: "body_reads H rm r0 d0 [] r0 d0"
| reads_data:
    "body_reads H rm r0 d0 got r d \<Longrightarrow> decode H rm r d = Some (r', d', Ready (Inr (Data bs))) \<Longrightarrow>
     body_reads H rm r0 d0 (got @ bs) r' d'"
| reads_pending:
    "body_reads H rm r0 d0 got r d \<Longrightarrow> decode H rm r d = Some (r', d', Pending) \<Longrightarrow>
     body_reads H rm r0 d0 got r' d'"

lemma handler_frame:
  "handler mh ms s c b = (c', res) \<Longrightarrow>
   h1_max_headers c' = h1_max_headers c \<and> h1_max_header_size c' = h1_max_header_size c"
  by (cases s)
     (auto simp: handler_defs put_u8_def split: if_splits option.splits)

lemma chunk_run_limits:
  "chunk_run mh ms c bs = Inr (c', out) \<Longrightarrow>
   max_headers_of c' = max_headers_of c \<and> max_header_size_of c' = max_header_size_of c"
proof (induction bs arbitrary: c out)
  case (Cons b bs)
  then obtain c1 o1 o2 where step: "byte_step mh ms c b = Inr (c1, o1)"
    and rest: "chunk_run mh ms c1 bs = Inr (c', o2)"
    by (auto split: sum.splits prod.splits)
  have "h1_max_headers c1 = h1_max_headers c \<and> h1_max_header_size c1 = h1_max_header_size c"
  proof (cases "cstate c = Body \<or> cstate c = End")
    case True
    with step show ?thesis by (auto simp: byte_step_def Let_def)
  next
    case False
    with step handler_frame [of mh ms "cstate c" c b] show ?thesis
      by (auto simp: byte_step_handler split: prod.splits sum.splits)
  qed
  with Cons.IH [OF rest] show ?case by (simp add: max_headers_of_def max_header_size_of_def)
qed simp

fun decoder_wf :: "decoder \<Rightarrow> bool" where
  "decoder_wf (Chunked c) \<longleftrightarrow> chunk_inv (max_headers_of c) (max_header_size_of c) c"
| "decoder_wf (Length n) \<longleftrightarrow> True"
| "decoder_wf (Eof b) \<longleftrightarrow> True"

lemma finish_chunked_wf:
  assumes "chunk_inv (max_headers_of c) (max_header_size_of c) c" and "cstate c = End"
  shows "decoder_wf (Chunked (fst (finish_chunked H mh c)))"
proof -
  have "fst (finish_chunked H mh c) = c \<or> fst (finish_chunked H mh c) = c\<lparr>trailers_buf := None\<rparr>"
    by (simp add: finish_chunked_def split: option.splits)
  moreover have "decoder_wf (Chunked (c\<lparr>trailers_buf := None\<rparr>))"
    using assms by (simp add: chunk_inv_def max_headers_of_def max_header_size_of_def)
  ultimately show ?thesis using assms(1) by auto
qed

lemma loop_outcome_state:
  assumes "loop_outcome H rerr mh ms c st st' c' res" and "\<And>e. res \<noteq> Ready (Inl e)"
  shows "\<exists>w c1. (\<exists>out. chunk_run mh ms c w = Inr (c1, out)) \<and>
    (c' = c1 \<or> c' = fst (finish_chunked H mh c1) \<and> cstate c1 = End)"
proof (cases res)
  case Pending
  with assms show ?thesis by (auto simp: loop_outcome_def)
next
  case (Ready x)
  with assms(2) obtain f where "res = poll.Ready (Inr f)" by (cases x) auto
  with assms(1) obtain w c1 out where "chunk_run mh ms c w = Inr (c1, out)"
    "if cstate c1 = End then out = [] \<and> finish_chunked H mh c1 = (c', Inr f) else c' = c1 \<and> f = Data out \<and> out \<noteq> []"
    by (auto simp: loop_outcome_def)
  then show ?thesis by (intro exI [of _ w] exI [of _ c1]) (auto split: if_splits)
qed

lemma decoder_wf_new [wf_intros]: "decoder_wf (decoder_new len mh ms)"
  by (simp add: decoder_new_def decoder_chunked_def chunk_inv_def CHUNKED_EXTENSIONS_LIMIT_def)

context mem_read
begin

lemma decode_chunked:
  assumes "invar r" and "chunk_inv (max_headers_of c) (max_header_size_of c) c" and "cstate c \<noteq> End"
  shows "\<exists>r' c' res. decode H read_mem r (Chunked c) = Some (r', Chunked c', res) \<and> invar r' \<and>
     loop_outcome H reader_error (max_headers_of c) (max_header_size_of c) c (stream r) (stream r') c' res"
  using decode_loop_total [OF assms, of H] by auto

lemma decode_chunked_End:
  "cstate c = End \<Longrightarrow> trailers_buf c = None \<Longrightarrow>
   decode H read_mem r (Chunked c) = Some (r, Chunked c, Ready (Inr (Data [])))"
  by (cases c) (auto simp: decode_loop.simps [of H read_mem _ _ r c] decode_loop.simps
      chunked_step_def finish_chunked_def)

text \<open>Every call returns, whatever the decoder, and leaves a well-formed decoder unless it failed.\<close>

lemma decode_total:
  assumes "invar r" and "decoder_wf d"
  shows "\<exists>r' d' res. decode H read_mem r d = Some (r', d', res) \<and> invar r' \<and>
    ((\<forall>e. res \<noteq> Ready (Inl e)) \<longrightarrow> decoder_wf d')"
proof (cases d)
  case (Chunked c)
  then have wf: "chunk_inv (max_headers_of c) (max_header_size_of c) c" using assms(2) by simp
  show ?thesis
  proof (cases "cstate c = End")
    case True
    obtain c' r1 where fin: "finish_chunked H (max_headers_of c) c = (c', r1)" by fastforce
    have "decode H read_mem r (Chunked c) = Some (r, Chunked c', Ready r1)"
    proof -
      have "chunked_step read_mem (max_headers_of c) (max_header_size_of c) r c = (r, c, None, Ready (Inr End))"
        using True by (simp add: chunked_step_def)
      moreover have "c\<lparr>cstate := End\<rparr> = c" using True by (cases c) simp
      ultimately show ?thesis using fin by (simp add: decode_loop.simps [of H read_mem _ _ r c])
    qed
    moreover have "decoder_wf (Chunked c')"
      using finish_chunked_wf [OF wf True, of H "max_headers_of c"] fin by simp
    ultimately show ?thesis using Chunked assms(1) by (simp del: decode.simps)
  next
    case False
    from decode_chunked [OF assms(1) wf False, of H] obtain r' c' res where
      d: "decode H read_mem r (Chunked c) = Some (r', Chunked c', res)" "invar r'"
      "loop_outcome H reader_error (max_headers_of c) (max_header_size_of c) c (stream r) (stream r') c' res"
      by blast
    have "decoder_wf (Chunked c')" if "\<And>e. res \<noteq> Ready (Inl e)"
    proof -
      from d(3) that obtain w c1 where c1:
        "\<exists>out. chunk_run (max_headers_of c) (max_header_size_of c) c w = Inr (c1, out)"
        "c' = c1 \<or> c' = fst (finish_chunked H (max_headers_of c) c1) \<and> cstate c1 = End"
        using loop_outcome_state by blast
      then obtain out where run: "chunk_run (max_headers_of c) (max_header_size_of c) c w = Inr (c1, out)" by blast
      then have "chunk_inv (max_headers_of c1) (max_header_size_of c1) c1"
        using chunk_run_inv [OF wf run] chunk_run_limits [OF run] by simp
      then show ?thesis
        using c1(2) finish_chunked_wf [of c1 H "max_headers_of c"] by auto
    qed
    with d Chunked show ?thesis by (auto simp del: decode.simps)
  qed
next
  case (Length n)
  then show ?thesis
    using read_invar [OF assms(1), of "unat n"] assms(1) by (auto simp: Let_def split: prod.splits poll.splits sum.splits)
next
  case (Eof b)
  then show ?thesis
    using read_invar [OF assms(1), of 8192] assms(1) by (auto split: prod.splits poll.splits sum.splits)
qed

text \<open>One call that delivers data, or nothing yet, is a run of the automaton that outputs exactly
  that data, as long as no trailers are buffered at the end.\<close>

lemma decode_run:
  fixes H :: "('m, 'z) http_lib_scheme"
  assumes inv: "invar r" "chunk_inv (max_headers_of c) (max_header_size_of c) c"
    and no_trailers: "\<And>w c' out. prefix w (stream r) \<Longrightarrow>
           chunk_run (max_headers_of c) (max_header_size_of c) c w = Inr (c', out) \<Longrightarrow>
           cstate c' = End \<Longrightarrow> trailers_buf c' = None"
    and dec: "decode H read_mem r (Chunked c) = Some (r', d', res)"
    and res: "res = (if bs = None then Pending else Ready (Inr (Data (the bs))))"
  shows "\<exists>v c'. d' = Chunked c' \<and> invar r' \<and> stream r = v @ stream r' \<and>
    chunk_run (max_headers_of c) (max_header_size_of c) c v =
      Inr (c', case bs of None \<Rightarrow> [] | Some b \<Rightarrow> b)"
proof (cases "cstate c = End")
  case True
  then have "trailers_buf c = None" using no_trailers [of "[]" c "[]"] by simp
  with decode_chunked_End [OF True this, of H r] dec res inv(1) show ?thesis
    by (cases bs) (simp_all del: decode.simps)
next
  case False
  obtain c' where eq: "d' = Chunked c'" and r': "invar r'"
    and out: "loop_outcome H reader_error (max_headers_of c) (max_header_size_of c) c
        (stream r) (stream r') c' res"
    using decode_chunked [OF inv False, of H] dec by (auto simp del: decode.simps)
  show ?thesis
  proof (cases bs)
    case None
    with out res eq r' show ?thesis by (auto simp: loop_outcome_def)
  next
    case (Some b)
    with res have "res = poll.Ready (Inr (Data b))" by simp
    from out [unfolded this loop_outcome_def, simplified] obtain v c2 o2 where
      v: "stream r = v @ stream r'"
      "chunk_run (max_headers_of c) (max_header_size_of c) c v = Inr (c2, o2)"
      and fin: "if cstate c2 = End then o2 = [] \<and> finish_chunked H (max_headers_of c) c2 = (c', Inr (Data b))
         else c' = c2 \<and> (Data b :: 'm frame) = Data o2 \<and> o2 \<noteq> []"
      by blast
    have "c' = c2 \<and> b = o2"
    proof (cases "cstate c2 = End")
      case True
      then have "trailers_buf c2 = None" using no_trailers [OF _ v(2)] v(1) by auto
      with True fin show ?thesis by (auto simp: finish_chunked_def)
    qed (use fin in auto)
    with v eq r' Some show ?thesis by auto
  qed
qed

text \<open>The data a sequence of calls delivers is the output of the automaton on the bytes it
  consumed.\<close>

lemma body_reads_run:
  assumes reads: "body_reads H read_mem r (Chunked c) got r' d'"
    and inv: "invar r" "chunk_inv (max_headers_of c) (max_header_size_of c) c"
    and no_trailers: "\<And>w c1 out. prefix w (stream r) \<Longrightarrow>
           chunk_run (max_headers_of c) (max_header_size_of c) c w = Inr (c1, out) \<Longrightarrow>
           cstate c1 = End \<Longrightarrow> trailers_buf c1 = None"
  shows "\<exists>w c1. d' = Chunked c1 \<and> invar r' \<and> stream r = w @ stream r' \<and>
           chunk_run (max_headers_of c) (max_header_size_of c) c w = Inr (c1, got)"
proof -
  have step: "\<exists>w' c2. d2 = Chunked c2 \<and> invar r2 \<and> stream r = w' @ stream r2 \<and>
      chunk_run (max_headers_of c) (max_header_size_of c) c w' =
        Inr (c2, g @ (case bs of None \<Rightarrow> [] | Some b \<Rightarrow> b))"
    if prev: "invar r1" "stream r = w @ stream r1"
        "chunk_run (max_headers_of c) (max_header_size_of c) c w = Inr (c1, g)"
      and dec: "decode H read_mem r1 (Chunked c1) = Some (r2, d2, res)"
        "res = (if bs = None then Pending else poll.Ready (Inr (Data (the bs))))"
    for w c1 g r1 r2 d2 res bs
  proof -
    have lim: "max_headers_of c1 = max_headers_of c" "max_header_size_of c1 = max_header_size_of c"
      using chunk_run_limits [OF prev(3)] by auto
    have "chunk_inv (max_headers_of c) (max_header_size_of c) c1"
      using prev(3) inv(2) by (rule chunk_run_inv [rotated])
    moreover have "trailers_buf c' = None"
      if "prefix v (stream r1)" "chunk_run (max_headers_of c) (max_header_size_of c) c1 v = Inr (c', out)"
        "cstate c' = End" for v c' out
      using no_trailers [OF _ chunk_run_trans [OF prev(3) that(2)] that(3)] prev(2) that(1) by auto
    ultimately obtain v c' where v: "d2 = Chunked c'" "invar r2" "stream r1 = v @ stream r2"
      "chunk_run (max_headers_of c) (max_header_size_of c) c1 v =
         Inr (c', case bs of None \<Rightarrow> [] | Some b \<Rightarrow> b)"
      using decode_run [of r1 c1 H r2 d2 res bs] prev(1) dec lim by auto
    with chunk_run_trans [OF prev(3) v(4)] prev(2) show ?thesis by auto
  qed
  show ?thesis using reads
  proof (induction rule: body_reads.induct)
    case reads_none
    then show ?case using inv by auto
  next
    case (reads_data got r1 d1 r2 d2 bs)
    then obtain w c1 where "d1 = Chunked c1" "invar r1" "stream r = w @ stream r1"
      "chunk_run (max_headers_of c) (max_header_size_of c) c w = Inr (c1, got)" by auto
    with step [of r1 w c1 got r2 d2 _ "Some bs"] reads_data.hyps(2) show ?case
      by (simp del: decode.simps)
  next
    case (reads_pending got r1 d1 r2 d2)
    then obtain w c1 where "d1 = Chunked c1" "invar r1" "stream r = w @ stream r1"
      "chunk_run (max_headers_of c) (max_header_size_of c) c w = Inr (c1, got)" by auto
    with step [of r1 w c1 got r2 d2 _ None] reads_pending.hyps(2) show ?case
      by (simp del: decode.simps)
  qed
qed

end

section \<open>Evaluation\<close>

text \<open>The equations that run the decoder on a concrete slice; the congruence keeps the recursive call
  of the loop from being unfolded before its branch is chosen.\<close>

lemmas decode_eval = decode_loop.simps decoder_chunked_def chunked_step_def with_byte_def
  read_byte_def slice_read_mem_def handler_defs byte_in_def read_body_def checked_mul_def
  checked_add_def max_headers_of_def DEFAULT_MAX_HEADERS_def max_header_size_of_def
  TRAILER_LIMIT_def finish_chunked_def put_u8_def

end
