(* ===== verification/Buf.thy ===== *)
theory Buf
  imports Prelude
begin

text \<open>
  The byte buffers of the write side. The trait \<^verbatim>\<open>bytes::Buf\<close> is the record \<open>buf_ops\<close>
  of the operations the source calls on a buffer type, and the locale \<open>buf_laws\<close> its documented
  contract, stated against the bytes the buffer still has to deliver. On top of it the theory
  models \<^verbatim>\<open>BufList\<close> (\<^verbatim>\<open>src/src/core/common/buf.rs\<close>) and the \<^verbatim>\<open>Cursor\<close> of
  \<^verbatim>\<open>src/src/core/proto/h1/io.rs\<close>, and shows that each meets the contract again: the cursor as it
  is, the list for every element type that meets it.

  \<^verbatim>\<open>advance\<close> past the end is a panic, modelled as \<^const>\<open>None\<close>. \<^verbatim>\<open>chunks_vectored(dst)\<close>
  is a function of the number of free slots of \<^verbatim>\<open>dst\<close> and returns the slices it fills in.
\<close>

record 'b buf_ops =
  buf_remaining :: "'b \<Rightarrow> nat"
  buf_chunk :: "'b \<Rightarrow> bytes"
  buf_advance :: "'b \<Rightarrow> nat \<Rightarrow> 'b option"
  buf_chunks_vectored :: "'b \<Rightarrow> nat \<Rightarrow> bytes list"

locale buf_laws =
  fixes B :: "('b, 'z) buf_ops_scheme"
    and contents :: "'b \<Rightarrow> bytes"
    and wf :: "'b \<Rightarrow> bool"
  assumes remaining: "wf b \<Longrightarrow> buf_remaining B b = length (contents b)"
    and chunk_prefix: "wf b \<Longrightarrow> prefix (buf_chunk B b) (contents b)"
    and chunk_empty: "wf b \<Longrightarrow> buf_chunk B b = [] \<Longrightarrow> contents b = []"
    and advance: "wf b \<Longrightarrow> n \<le> length (contents b) \<Longrightarrow>
      \<exists>b'. buf_advance B b n = Some b' \<and> wf b' \<and> contents b' = drop n (contents b)"
    and vectored_prefix: "wf b \<Longrightarrow> prefix (concat (buf_chunks_vectored B b n)) (contents b)"
    and vectored_length: "wf b \<Longrightarrow> length (buf_chunks_vectored B b n) \<le> n"
    and vectored_all: "wf b \<Longrightarrow> length (buf_chunks_vectored B b n) < n \<Longrightarrow>
      concat (buf_chunks_vectored B b n) = contents b"
    and vectored_nonempty: "wf b \<Longrightarrow> [] \<notin> set (buf_chunks_vectored B b n)"
begin

lemma vectored_empty: "wf b \<Longrightarrow> 0 < n \<Longrightarrow> concat (buf_chunks_vectored B b n) = [] \<Longrightarrow> contents b = []"
  using vectored_all [of b n] vectored_nonempty [of b n]
  by (cases "buf_chunks_vectored B b n") (auto simp: concat_eq_Nil_conv)

end

text \<open>The default method \<^verbatim>\<open>Buf::chunks_vectored\<close>: the current chunk, when there is one and a slot.\<close>

definition chunks_vectored_default :: "bytes \<Rightarrow> nat \<Rightarrow> bytes list" where
  "chunks_vectored_default chunk n = (if n = 0 \<or> chunk = [] then [] else [chunk])"

text \<open>\<^verbatim>\<open>Chain::chunks_vectored\<close>: the second buffer fills the slots the first one left.\<close>

definition chain_vectored :: "(nat \<Rightarrow> bytes list) \<Rightarrow> (nat \<Rightarrow> bytes list) \<Rightarrow> nat \<Rightarrow> bytes list" where
  "chain_vectored a b n = (let va = a n in va @ b (n - length va))"

text \<open>Slices \<open>f n\<close> that describe the buffer \<open>c\<close>, for every number of slots.\<close>

definition vectored_of :: "(nat \<Rightarrow> bytes list) \<Rightarrow> bytes \<Rightarrow> bool" where
  "vectored_of f c \<longleftrightarrow> (\<forall>n. prefix (concat (f n)) c \<and> length (f n) \<le> n \<and>
     (length (f n) < n \<longrightarrow> concat (f n) = c) \<and> [] \<notin> set (f n))"

lemma vectored_of_default: "vectored_of (chunks_vectored_default c) c"
  by (auto simp: vectored_of_def chunks_vectored_default_def)

lemma vectored_of_chain:
  assumes "vectored_of f c" and "vectored_of g d"
  shows "vectored_of (chain_vectored f g) (c @ d)"
  unfolding vectored_of_def
proof (intro allI)
  fix n
  define m where "m = n - length (f n)"
  have f: "prefix (concat (f n)) c" "length (f n) \<le> n" "length (f n) < n \<Longrightarrow> concat (f n) = c" "[] \<notin> set (f n)"
    using assms(1) by (auto simp: vectored_of_def)
  have g: "prefix (concat (g m)) d" "length (g m) \<le> m" "length (g m) < m \<Longrightarrow> concat (g m) = d" "[] \<notin> set (g m)"
    using assms(2) by (auto simp: vectored_of_def)
  have eq: "chain_vectored f g n = f n @ g m"
    by (simp add: chain_vectored_def m_def Let_def)
  show "prefix (concat (chain_vectored f g n)) (c @ d) \<and> length (chain_vectored f g n) \<le> n \<and>
    (length (chain_vectored f g n) < n \<longrightarrow> concat (chain_vectored f g n) = c @ d) \<and>
    [] \<notin> set (chain_vectored f g n)"
  proof (cases "length (f n) < n")
    case True
    with f g show ?thesis by (auto simp: eq m_def)
  next
    case False
    with f(2) g(2) have "g m = []" by (simp add: m_def)
    with False f show ?thesis by (auto simp: eq intro: prefix_prefix)
  qed
qed

section \<open>Cursor\<close>

text \<open>
  \<^verbatim>\<open>Cursor<Vec<u8>>\<close>: the vector with its capacity and the position. How much a growing
  vector allocates is the allocator's choice, the function \<open>grow\<close> of the old capacity and of
  what is needed; it never gives less than is needed.
\<close>

record cursor =
  cbytes :: bytes
  ccap :: nat
  cpos :: nat

definition grow_to :: "(nat \<Rightarrow> nat \<Rightarrow> nat) \<Rightarrow> nat \<Rightarrow> nat \<Rightarrow> nat" where
  "grow_to grow cap needed = (if needed \<le> cap then cap else max needed (grow cap needed))"

definition cursor_new :: "bytes \<Rightarrow> nat \<Rightarrow> cursor" where
  "cursor_new bs cap = \<lparr>cbytes = bs, ccap = cap, cpos = 0\<rparr>"

definition maybe_unshift :: "cursor \<Rightarrow> nat \<Rightarrow> cursor" where
  "maybe_unshift c additional =
     (if cpos c = 0 then c
      else if ccap c - length (cbytes c) \<ge> additional then c
      else c\<lparr>cbytes := drop (cpos c) (cbytes c), cpos := 0\<rparr>)"

definition cursor_reset :: "cursor \<Rightarrow> cursor" where
  "cursor_reset c = c\<lparr>cpos := 0, cbytes := []\<rparr>"

definition cursor_remaining :: "cursor \<Rightarrow> nat" where
  "cursor_remaining c = length (cbytes c) - cpos c"

definition cursor_chunk :: "cursor \<Rightarrow> bytes" where
  "cursor_chunk c = drop (cpos c) (cbytes c)"

definition cursor_advance :: "cursor \<Rightarrow> nat \<Rightarrow> cursor option" where
  "cursor_advance c cnt =
     (if cpos c + cnt \<le> length (cbytes c) then Some (c\<lparr>cpos := cpos c + cnt\<rparr>) else None)"

text \<open>\<^verbatim>\<open>Vec::extend_from_slice\<close> on the vector of the cursor.\<close>

definition cursor_extend :: "(nat \<Rightarrow> nat \<Rightarrow> nat) \<Rightarrow> cursor \<Rightarrow> bytes \<Rightarrow> cursor" where
  "cursor_extend grow c bs =
     c\<lparr>cbytes := cbytes c @ bs, ccap := grow_to grow (ccap c) (length (cbytes c) + length bs)\<rparr>"

definition cursor_ops :: "cursor buf_ops" where
  "cursor_ops = \<lparr>buf_remaining = cursor_remaining, buf_chunk = cursor_chunk,
     buf_advance = cursor_advance,
     buf_chunks_vectored = (\<lambda>c n. chunks_vectored_default (cursor_chunk c) n)\<rparr>"

definition cursor_wf :: "cursor \<Rightarrow> bool" where
  "cursor_wf c \<longleftrightarrow> cpos c \<le> length (cbytes c) \<and> length (cbytes c) \<le> ccap c"

lemmas cursor_defs = cursor_new_def maybe_unshift_def cursor_reset_def cursor_remaining_def
  cursor_chunk_def cursor_advance_def cursor_extend_def

lemma grow_to_ge: "needed \<le> grow_to grow cap needed"
  by (simp add: grow_to_def)

interpretation cursor: buf_laws cursor_ops cursor_chunk cursor_wf
  by unfold_locales
    (auto simp: cursor_ops_def cursor_wf_def cursor_defs add.commute
      chunks_vectored_default_def split: if_splits)

lemma cursor_wf_new [wf_intros]: "length bs \<le> cap \<Longrightarrow> cursor_wf (cursor_new bs cap)"
  by (simp add: cursor_wf_def cursor_defs)

lemma cursor_wf_unshift [wf_intros]: "cursor_wf c \<Longrightarrow> cursor_wf (maybe_unshift c n)"
  by (auto simp: cursor_wf_def cursor_defs)

lemma cursor_wf_reset [wf_intros]: "cursor_wf (cursor_reset c)"
  by (simp add: cursor_wf_def cursor_defs)

lemma cursor_wf_extend [wf_intros]: "cursor_wf c \<Longrightarrow> cursor_wf (cursor_extend grow c bs)"
  using grow_to_ge [of "length (cbytes c) + length bs"] by (auto simp: cursor_wf_def cursor_defs)

text \<open>Unshifting and extending keep the bytes that were not yet consumed.\<close>

lemma cursor_chunk_unshift [simp]: "cursor_chunk (maybe_unshift c n) = cursor_chunk c"
  by (simp add: cursor_defs)

lemma cursor_chunk_reset [simp]: "cursor_chunk (cursor_reset c) = []"
  by (simp add: cursor_defs)

lemma cursor_chunk_extend [simp]: "cursor_wf c \<Longrightarrow> cursor_chunk (cursor_extend grow c bs) = cursor_chunk c @ bs"
  by (simp add: cursor_defs cursor_wf_def)

lemma cursor_remaining_chunk: "cursor_remaining c = length (cursor_chunk c)"
  by (simp add: cursor_defs)

lemma cursor_advance_Some:
  assumes "cursor_wf c" and "n \<le> length (cursor_chunk c)"
  obtains c' where "cursor_advance c n = Some c'" and "cursor_wf c'"
    and "cursor_chunk c' = drop n (cursor_chunk c)"
  using cursor.advance [OF assms] by (auto simp: cursor_ops_def)

section \<open>BufList\<close>

type_synonym 'b BufList = "'b list"

definition buflist_new :: "'b BufList" where
  "buflist_new = []"

definition buflist_push :: "'b BufList \<Rightarrow> 'b \<Rightarrow> 'b BufList" where
  "buflist_push bufs b = bufs @ [b]"

definition bufs_cnt :: "'b BufList \<Rightarrow> nat" where
  "bufs_cnt bufs = length bufs"

definition buflist_remaining :: "('b, 'z) buf_ops_scheme \<Rightarrow> 'b BufList \<Rightarrow> nat" where
  "buflist_remaining B bufs = sum_list (map (buf_remaining B) bufs)"

definition buflist_chunk :: "('b, 'z) buf_ops_scheme \<Rightarrow> 'b BufList \<Rightarrow> bytes" where
  "buflist_chunk B bufs = (case bufs of [] \<Rightarrow> [] | b # _ \<Rightarrow> buf_chunk B b)"

text \<open>The loop of \<^verbatim>\<open>advance\<close>: one buffer of the front per round; \<^verbatim>\<open>self.bufs[0]\<close> panics on an
  empty queue.\<close>

fun buflist_advance :: "('b, 'z) buf_ops_scheme \<Rightarrow> 'b BufList \<Rightarrow> nat \<Rightarrow> 'b BufList option" where
  "buflist_advance B bufs 0 = Some bufs"
| "buflist_advance B [] (Suc n) = None"
| "buflist_advance B (front # bufs) (Suc n) =
     (let cnt = Suc n; rem = buf_remaining B front
      in if rem > cnt
         then map_option (\<lambda>front'. front' # bufs) (buf_advance B front cnt)
         else case buf_advance B front rem of
                None \<Rightarrow> None
              | Some _ \<Rightarrow> buflist_advance B bufs (cnt - rem))"

text \<open>\<^verbatim>\<open>chunks_vectored\<close>: each buffer fills the slots the ones before it left; the loop stops when
  there is none left.\<close>

fun buflist_chunks_vectored :: "('b, 'z) buf_ops_scheme \<Rightarrow> 'b BufList \<Rightarrow> nat \<Rightarrow> bytes list" where
  "buflist_chunks_vectored B [] n = []"
| "buflist_chunks_vectored B (b # bufs) n =
     (if n = 0 then []
      else let vs = buf_chunks_vectored B b n
           in if length vs = n then vs else vs @ buflist_chunks_vectored B bufs (n - length vs))"

definition buflist_ops :: "('b, 'z) buf_ops_scheme \<Rightarrow> 'b BufList buf_ops" where
  "buflist_ops B = \<lparr>buf_remaining = buflist_remaining B, buf_chunk = buflist_chunk B,
     buf_advance = buflist_advance B, buf_chunks_vectored = buflist_chunks_vectored B\<rparr>"

text \<open>Every buffer of the list has bytes left: \<^verbatim>\<open>push\<close> asserts it in debug builds, and the loops
  rely on it for their chunk not to be empty. The locale \<open>elem_buf\<close> is the same contract, for the
  buffers a list holds.\<close>

locale elem_buf = buf_laws B contents wf
  for B :: "('b, 'z) buf_ops_scheme" and contents :: "'b \<Rightarrow> bytes" and wf :: "'b \<Rightarrow> bool"
begin

definition buflist_wf :: "'b BufList \<Rightarrow> bool" where
  "buflist_wf bufs \<longleftrightarrow> (\<forall>b\<in>set bufs. wf b \<and> contents b \<noteq> [])"

definition buflist_contents :: "'b BufList \<Rightarrow> bytes" where
  "buflist_contents bufs = concat (map contents bufs)"

lemma buflist_wf_Cons [simp]: "buflist_wf (b # bufs) \<longleftrightarrow> wf b \<and> contents b \<noteq> [] \<and> buflist_wf bufs"
  and buflist_wf_Nil [simp]: "buflist_wf []"
  by (auto simp: buflist_wf_def)

lemma buflist_contents_simps [simp]:
  "buflist_contents [] = []" "buflist_contents (b # bufs) = contents b @ buflist_contents bufs"
  by (simp_all add: buflist_contents_def)

lemma buflist_push_contents:
  "buflist_contents (buflist_push bufs b) = buflist_contents bufs @ contents b"
  by (simp add: buflist_push_def buflist_contents_def)

lemma buflist_push_wf: "buflist_wf bufs \<Longrightarrow> wf b \<Longrightarrow> contents b \<noteq> [] \<Longrightarrow> buflist_wf (buflist_push bufs b)"
  by (auto simp: buflist_wf_def buflist_push_def)

lemma buflist_remaining_length:
  "buflist_wf bufs \<Longrightarrow> buflist_remaining B bufs = length (buflist_contents bufs)"
  by (induction bufs) (auto simp: buflist_remaining_def remaining)

lemma buflist_advance_drop:
  "buflist_wf bufs \<Longrightarrow> n \<le> length (buflist_contents bufs) \<Longrightarrow>
   \<exists>bufs'. buflist_advance B bufs n = Some bufs' \<and> buflist_wf bufs' \<and>
     buflist_contents bufs' = drop n (buflist_contents bufs)"
proof (induction bufs arbitrary: n)
  case (Cons b bufs)
  then have b: "wf b" "contents b \<noteq> []" "buflist_wf bufs" by auto
  note rem = remaining [OF b(1)]
  show ?case
  proof (cases n)
    case 0
    with Cons.prems show ?thesis by simp
  next
    case (Suc k)
    show ?thesis
    proof (cases "length (contents b) > n")
      case True
      obtain b' where "buf_advance B b n = Some b'" "wf b'" "contents b' = drop n (contents b)"
        using advance [OF b(1), of n] True by auto
      with True Suc b rem show ?thesis by (auto simp: Let_def)
    next
      case False
      obtain b' where "buf_advance B b (length (contents b)) = Some b'"
        using advance [OF b(1)] by blast
      with False Suc b rem Cons.IH [of "n - length (contents b)"] Cons.prems show ?thesis
        by (auto simp: Let_def)
    qed
  qed
qed simp

lemma buflist_vectored:
  assumes "buflist_wf bufs"
  shows "prefix (concat (buflist_chunks_vectored B bufs n)) (buflist_contents bufs) \<and>
    length (buflist_chunks_vectored B bufs n) \<le> n \<and>
    (length (buflist_chunks_vectored B bufs n) < n \<longrightarrow>
       concat (buflist_chunks_vectored B bufs n) = buflist_contents bufs) \<and>
    [] \<notin> set (buflist_chunks_vectored B bufs n)"
  using assms
proof (induction bufs arbitrary: n)
  case (Cons b bufs)
  then have b: "wf b" "buflist_wf bufs" by auto
  note le = vectored_length [OF b(1), of n]
  show ?case
  proof (cases "length (buf_chunks_vectored B b n) = n")
    case True
    then show ?thesis
      using vectored_prefix [OF b(1), of n] vectored_nonempty [OF b(1), of n] by (auto simp: Let_def intro: prefix_prefix)
  next
    case False
    then show ?thesis
      using le vectored_all [OF b(1), of n] vectored_nonempty [OF b(1), of n] Cons.IH [OF b(2), of "n - length (buf_chunks_vectored B b n)"]
      by (auto simp: Let_def)
  qed
qed simp

end

text \<open>A list of buffers is a buffer again.\<close>

sublocale elem_buf \<subseteq> buflist: buf_laws "buflist_ops B" buflist_contents buflist_wf
proof
  fix bufs n
  assume wf: "buflist_wf bufs"
  show "buf_remaining (buflist_ops B) bufs = length (buflist_contents bufs)"
    using buflist_remaining_length [OF wf] by (simp add: buflist_ops_def)
  show "prefix (buf_chunk (buflist_ops B) bufs) (buflist_contents bufs)"
    using wf chunk_prefix by (cases bufs) (auto simp: buflist_ops_def buflist_chunk_def intro: prefix_prefix)
  show "buf_chunk (buflist_ops B) bufs = [] \<Longrightarrow> buflist_contents bufs = []"
    using wf chunk_empty by (cases bufs) (auto simp: buflist_ops_def buflist_chunk_def)
  show "n \<le> length (buflist_contents bufs) \<Longrightarrow> \<exists>b'. buf_advance (buflist_ops B) bufs n = Some b' \<and>
      buflist_wf b' \<and> buflist_contents b' = drop n (buflist_contents bufs)"
    using buflist_advance_drop [OF wf] by (simp add: buflist_ops_def)
  note v = buflist_vectored [OF wf, of n]
  show "prefix (concat (buf_chunks_vectored (buflist_ops B) bufs n)) (buflist_contents bufs)"
    and "length (buf_chunks_vectored (buflist_ops B) bufs n) \<le> n"
    and "length (buf_chunks_vectored (buflist_ops B) bufs n) < n \<Longrightarrow>
      concat (buf_chunks_vectored (buflist_ops B) bufs n) = buflist_contents bufs"
    and "[] \<notin> set (buf_chunks_vectored (buflist_ops B) bufs n)"
    using v by (simp_all add: buflist_ops_def)
qed

end
