(* ===== verification/H1_Encode.thy ===== *)
theory H1_Encode
  imports Body_Length Headers Buf
begin

text \<open>
  The body encoders of \<^verbatim>\<open>src/src/core/proto/h1/encode.rs\<close>: \<^verbatim>\<open>Content-Length\<close> bodies cut at
  the declared length and chunked bodies with their size lines and trailers, and the buffer type
  \<^verbatim>\<open>EncodedBuf\<close> that hands the encoded bytes to the write side piece by piece. The size line
  lives in a fixed array of \<^verbatim>\<open>CHUNK_SIZE_MAX_BYTES + 2\<close> bytes; a write past its end is the
  panic of \<^verbatim>\<open>expect\<close>, the value \<^const>\<open>None\<close>. The header writers are those of
  \<^verbatim>\<open>src/src/core/proto/h1/role.rs\<close>.
\<close>

section \<open>Header lines\<close>

text \<open>\<^verbatim>\<open>title_case\<close>: the loop over the name with the previous output byte.\<close>

fun title_case_loop :: "byte \<Rightarrow> bytes \<Rightarrow> bytes" where
  "title_case_loop prev [] = []"
| "title_case_loop prev (c # cs) =
     (let c' = (if prev = CHR ''-'' then to_ascii_uppercase c else c)
      in c' # title_case_loop c' cs)"

definition title_case :: "bytes \<Rightarrow> bytes \<Rightarrow> bytes" where
  "title_case dst name = dst @ title_case_loop CHR ''-'' name"

definition header_line :: "bytes \<Rightarrow> bytes \<Rightarrow> bytes" where
  "header_line name value = name @ '': '' @ value @ CRLF"

definition write_headers :: "('m, 'z) http_lib_scheme \<Rightarrow> 'm \<Rightarrow> bytes \<Rightarrow> bytes" where
  "write_headers H headers dst =
     fold (\<lambda>(name, value) d. d @ header_line name value) (hm_iter H headers) dst"

definition write_headers_title_case :: "('m, 'z) http_lib_scheme \<Rightarrow> 'm \<Rightarrow> bytes \<Rightarrow> bytes" where
  "write_headers_title_case H headers dst =
     fold (\<lambda>(name, value) d. title_case d name @ '': '' @ value @ CRLF) (hm_iter H headers) dst"

section \<open>Encoders\<close>

datatype encoder_kind = EChunked "header_value list option" | ELength u64

record encoder =
  ekind :: encoder_kind
  enc_is_last :: bool

definition encoder_new :: "encoder_kind \<Rightarrow> encoder" where
  "encoder_new k = \<lparr>ekind = k, enc_is_last = False\<rparr>"

definition encoder_chunked :: encoder where
  "encoder_chunked = encoder_new (EChunked None)"

definition encoder_length :: "u64 \<Rightarrow> encoder" where
  "encoder_length len = encoder_new (ELength len)"

definition into_chunked_with_trailing_fields :: "encoder \<Rightarrow> header_value list \<Rightarrow> encoder" where
  "into_chunked_with_trailing_fields e trailers =
     (case ekind e of
        EChunked _ \<Rightarrow> \<lparr>ekind = EChunked (Some trailers), enc_is_last = enc_is_last e\<rparr>
      | _ \<Rightarrow> e)"

definition encoder_is_eof :: "encoder \<Rightarrow> bool" where
  "encoder_is_eof e \<longleftrightarrow> ekind e = ELength 0"

definition encoder_is_last :: "encoder \<Rightarrow> bool" where
  "encoder_is_last e = enc_is_last e"

definition encoder_is_close_delimited :: "encoder \<Rightarrow> bool" where
  "encoder_is_close_delimited e = False"

definition encoder_is_chunked :: "encoder \<Rightarrow> bool" where
  "encoder_is_chunked e = (case ekind e of EChunked _ \<Rightarrow> True | _ \<Rightarrow> False)"

subsection \<open>The chunk size line\<close>

definition hex_digit :: "nat \<Rightarrow> byte" where
  "hex_digit d = (if d < 10 then char_of (48 + d) else char_of (55 + d))"

text \<open>The text of \<^verbatim>\<open>{:X}\<close>.\<close>

fun upper_hex :: "nat \<Rightarrow> string" where
  "upper_hex n = (if n < 16 then [hex_digit n] else upper_hex (n div 16) @ [hex_digit (n mod 16)])"

declare upper_hex.simps [simp del]

definition CHUNK_SIZE_MAX_BYTES :: nat where
  "CHUNK_SIZE_MAX_BYTES = 8 * 2"

record chunk_size =
  cs_bytes :: bytes
  cs_pos :: nat
  cs_len :: nat

text \<open>\<^verbatim>\<open>fmt::Write for ChunkSize\<close>: copy into the array behind \<^verbatim>\<open>len\<close>.\<close>

definition chunk_size_write_str :: "chunk_size \<Rightarrow> string \<Rightarrow> chunk_size option" where
  "chunk_size_write_str s num =
     (if cs_len s + length num \<le> length (cs_bytes s)
      then Some (s\<lparr>cs_bytes := take (cs_len s) (cs_bytes s) @ num @ drop (cs_len s + length num) (cs_bytes s),
                  cs_len := cs_len s + length num\<rparr>)
      else None)"

definition chunk_size_new :: "nat \<Rightarrow> chunk_size option" where
  "chunk_size_new len =
     (let sz = \<lparr>cs_bytes = replicate (CHUNK_SIZE_MAX_BYTES + 2) (CHR 0x00), cs_pos = 0, cs_len = 0\<rparr>
      in case chunk_size_write_str sz (upper_hex len) of
           None \<Rightarrow> None
         | Some sz' \<Rightarrow> chunk_size_write_str sz' CRLF)"

definition chunk_size_remaining :: "chunk_size \<Rightarrow> nat" where
  "chunk_size_remaining s = cs_len s - cs_pos s"

definition chunk_size_chunk :: "chunk_size \<Rightarrow> bytes" where
  "chunk_size_chunk s = drop (cs_pos s) (take (cs_len s) (cs_bytes s))"

definition chunk_size_advance :: "chunk_size \<Rightarrow> nat \<Rightarrow> chunk_size option" where
  "chunk_size_advance s cnt =
     (if cnt \<le> chunk_size_remaining s then Some (s\<lparr>cs_pos := cs_pos s + cnt\<rparr>) else None)"

subsection \<open>Encoded buffers\<close>

text \<open>
  A message buffer \<^verbatim>\<open>B\<close> is the bytes it still holds. \<^verbatim>\<open>Take\<close> is the buffer and its limit,
  \<^verbatim>\<open>Chain\<close> the parts in order.
\<close>

datatype EncodedBuf =
    Exact bytes
  | Limited bytes nat
  | ChunkedBuf chunk_size bytes bytes
  | ChunkedEnd bytes
  | TrailersBuf bytes bytes bytes

fun encoded_remaining :: "EncodedBuf \<Rightarrow> nat" where
  "encoded_remaining (Exact b) = length b"
| "encoded_remaining (Limited b n) = min (length b) n"
| "encoded_remaining (ChunkedBuf s b t) = chunk_size_remaining s + length b + length t"
| "encoded_remaining (ChunkedEnd b) = length b"
| "encoded_remaining (TrailersBuf a b c) = length a + length b + length c"

fun encoded_chunk :: "EncodedBuf \<Rightarrow> bytes" where
  "encoded_chunk (Exact b) = b"
| "encoded_chunk (Limited b n) = take n b"
| "encoded_chunk (ChunkedBuf s b t) =
     (if chunk_size_remaining s > 0 then chunk_size_chunk s else if b \<noteq> [] then b else t)"
| "encoded_chunk (ChunkedEnd b) = b"
| "encoded_chunk (TrailersBuf a b c) = (if a \<noteq> [] then a else if b \<noteq> [] then b else c)"

text \<open>\<^verbatim>\<open>advance\<close> drops from the first part on; past the end it panics (\<^const>\<open>None\<close>).\<close>

fun encoded_advance :: "EncodedBuf \<Rightarrow> nat \<Rightarrow> EncodedBuf option" where
  "encoded_advance (Exact b) cnt = (if cnt \<le> length b then Some (Exact (drop cnt b)) else None)"
| "encoded_advance (Limited b n) cnt =
     (if cnt \<le> n \<and> cnt \<le> length b then Some (Limited (drop cnt b) (n - cnt)) else None)"
| "encoded_advance (ChunkedBuf s b t) cnt =
     (let rem = chunk_size_remaining s
      in if cnt \<le> rem
         then map_option (\<lambda>s'. ChunkedBuf s' b t) (chunk_size_advance s cnt)
         else case chunk_size_advance s rem of
                None \<Rightarrow> None
              | Some s' \<Rightarrow>
                  (let cnt' = cnt - rem
                   in if cnt' \<le> length b then Some (ChunkedBuf s' (drop cnt' b) t)
                      else if cnt' - length b \<le> length t
                      then Some (ChunkedBuf s' [] (drop (cnt' - length b) t))
                      else None))"
| "encoded_advance (ChunkedEnd b) cnt =
     (if cnt \<le> length b then Some (ChunkedEnd (drop cnt b)) else None)"
| "encoded_advance (TrailersBuf a b c) cnt =
     (if cnt \<le> length a then Some (TrailersBuf (drop cnt a) b c)
      else let cnt' = cnt - length a
           in if cnt' \<le> length b then Some (TrailersBuf [] (drop cnt' b) c)
              else if cnt' - length b \<le> length c
              then Some (TrailersBuf [] [] (drop (cnt' - length b) c))
              else None)"

text \<open>The abstraction: all bytes an encoded buffer still has to give.\<close>

fun encoded_bytes :: "EncodedBuf \<Rightarrow> bytes" where
  "encoded_bytes (Exact b) = b"
| "encoded_bytes (Limited b n) = take n b"
| "encoded_bytes (ChunkedBuf s b t) = chunk_size_chunk s @ b @ t"
| "encoded_bytes (ChunkedEnd b) = b"
| "encoded_bytes (TrailersBuf a b c) = a @ b @ c"

subsection \<open>Encoding\<close>

text \<open>\<^verbatim>\<open>end\<close>: \<^term>\<open>Inl n\<close> is the error \<^verbatim>\<open>NotEof(n)\<close>.\<close>

definition encoder_end :: "encoder \<Rightarrow> u64 + EncodedBuf option" where
  "encoder_end e =
     (case ekind e of
        ELength n \<Rightarrow> if n = 0 then Inr None else Inl n
      | EChunked _ \<Rightarrow> Inr (Some (ChunkedEnd (''0'' @ CRLF @ CRLF))))"

definition encode :: "encoder \<Rightarrow> bytes \<Rightarrow> (encoder \<times> EncodedBuf) option" where
  "encode e msg =
     (let len = length msg
      in case ekind e of
           EChunked _ \<Rightarrow>
             (case chunk_size_new len of
                None \<Rightarrow> None
              | Some sz \<Rightarrow> Some (e, ChunkedBuf sz msg CRLF))
         | ELength remaining \<Rightarrow>
             (if len > unat remaining
              then Some (e\<lparr>ekind := ELength 0\<rparr>, Limited msg (unat remaining))
              else Some (e\<lparr>ekind := ELength (remaining - of_nat len)\<rparr>, Exact msg)))"

definition is_valid_trailer_field :: "header_name \<Rightarrow> bool" where
  "is_valid_trailer_field name \<longleftrightarrow>
     name \<notin> {''authorization'', ''cache-control'', ''content-encoding'', ''content-length'',
       ''content-range'', ''content-type'', ''host'', ''max-forwards'', ''set-cookie'',
       ''trailer'', ''transfer-encoding'', ''te''}"

text \<open>The keys of the map that \<^verbatim>\<open>allowed_trailer_field_map\<close> builds.\<close>

definition allowed_trailer_field_map ::
  "('m, 'z) http_lib_scheme \<Rightarrow> header_value list \<Rightarrow> string list" where
  "allowed_trailer_field_map H allowed_trailer_fields =
     concat (map (\<lambda>v. case hv_to_str H v of
                         Some s \<Rightarrow> map trim (split_on CHR '','' s)
                       | None \<Rightarrow> []) allowed_trailer_fields)"

text \<open>\<^verbatim>\<open>HeaderMap::into_iter\<close> yields the name with the first value of each name only.\<close>

fun into_iter_from :: "header_name option \<Rightarrow> (header_name \<times> header_value) list \<Rightarrow>
    (header_name option \<times> header_value) list" where
  "into_iter_from prev [] = []"
| "into_iter_from prev ((n, v) # ps) =
     ((if prev = Some n then None else Some n), v) # into_iter_from (Some n) ps"

text \<open>The loop of \<^verbatim>\<open>encode_trailers\<close> over the trailers with \<^verbatim>\<open>cur_name\<close>.\<close>

fun filter_trailers :: "('m, 'z) http_lib_scheme \<Rightarrow> string list \<Rightarrow> header_name option \<Rightarrow>
    (header_name option \<times> header_value) list \<Rightarrow> 'm \<Rightarrow> 'm option" where
  "filter_trailers H allowed cur_name [] acc = Some acc"
| "filter_trailers H allowed cur_name ((opt_name, value) # rest) acc =
     (let cur_name' = (case opt_name of Some n \<Rightarrow> Some n | None \<Rightarrow> cur_name)
      in case cur_name' of
           None \<Rightarrow> None
         | Some name \<Rightarrow>
             filter_trailers H allowed cur_name' rest
               (if name \<in> set allowed \<and> is_valid_trailer_field name
                then hm_insert H name value acc else acc))"

text \<open>The outer \<^const>\<open>None\<close> is the panic of \<^verbatim>\<open>expect("current header name")\<close>.\<close>

definition encode_trailers ::
  "('m, 'z) http_lib_scheme \<Rightarrow> encoder \<Rightarrow> 'm \<Rightarrow> bool \<Rightarrow> EncodedBuf option option" where
  "encode_trailers H e trailers title_case_headers =
     (case ekind e of
        EChunked (Some allowed_trailer_fields) \<Rightarrow>
          (case filter_trailers H (allowed_trailer_field_map H allowed_trailer_fields) None
                  (into_iter_from None (hm_iter H trailers)) (hm_new H) of
             None \<Rightarrow> None
           | Some allowed_trailers \<Rightarrow>
               (let buf = (if title_case_headers
                           then write_headers_title_case H allowed_trailers []
                           else write_headers H allowed_trailers [])
                in if buf = [] then Some None
                   else Some (Some (TrailersBuf (''0'' @ CRLF) buf CRLF))))
      | EChunked None \<Rightarrow> Some None
      | ELength _ \<Rightarrow> Some None)"

text \<open>\<^verbatim>\<open>encode_and_end\<close>: the bytes handed to \<^verbatim>\<open>dst.buffer\<close> and whether the connection can be
  kept alive.\<close>

definition encode_and_end :: "encoder \<Rightarrow> bytes \<Rightarrow> (EncodedBuf \<times> bool) option" where
  "encode_and_end e msg =
     (let len = length msg
      in case ekind e of
           EChunked _ \<Rightarrow>
             (case chunk_size_new len of
                None \<Rightarrow> None
              | Some sz \<Rightarrow>
                  Some (ChunkedBuf sz msg (CRLF @ ''0'' @ CRLF @ CRLF), \<not> enc_is_last e))
         | ELength remaining \<Rightarrow>
             (if len = unat remaining then Some (Exact msg, \<not> enc_is_last e)
              else if len > unat remaining
              then Some (Limited msg (unat remaining), \<not> enc_is_last e)
              else Some (Exact msg, False)))"

text \<open>\<^verbatim>\<open>chunks_vectored\<close> of the encoded buffers: the default method on the one-piece buffers, the
  chain's on the others.\<close>

fun encoded_chunks_vectored :: "EncodedBuf \<Rightarrow> nat \<Rightarrow> bytes list" where
  "encoded_chunks_vectored (Exact b) = chunks_vectored_default b"
| "encoded_chunks_vectored (Limited b n) = chunks_vectored_default (take n b)"
| "encoded_chunks_vectored (ChunkedBuf s b t) =
     chain_vectored (chain_vectored (chunks_vectored_default (chunk_size_chunk s)) (chunks_vectored_default b))
       (chunks_vectored_default t)"
| "encoded_chunks_vectored (ChunkedEnd b) = chunks_vectored_default b"
| "encoded_chunks_vectored (TrailersBuf a b c) =
     chain_vectored (chain_vectored (chunks_vectored_default a) (chunks_vectored_default b))
       (chunks_vectored_default c)"

definition encoded_ops :: "EncodedBuf buf_ops" where
  "encoded_ops = \<lparr>buf_remaining = encoded_remaining, buf_chunk = encoded_chunk,
     buf_advance = encoded_advance, buf_chunks_vectored = encoded_chunks_vectored\<rparr>"

section \<open>The size line fits its array\<close>

lemma length_upper_hex: "n < 16 ^ k \<Longrightarrow> 0 < k \<Longrightarrow> length (upper_hex n) \<le> k"
proof (induction k arbitrary: n)
  case (Suc k)
  show ?case
  proof (cases "n < 16")
    case True
    then show ?thesis by (simp add: upper_hex.simps [of n])
  next
    case False
    then have "n div 16 < 16 ^ k" and "0 < k"
      using Suc.prems by (cases k; auto simp: less_mult_imp_div_less mult.commute)+
    with Suc.IH have "length (upper_hex (n div 16)) \<le> k" by blast
    with False show ?thesis by (simp add: upper_hex.simps [of n])
  qed
qed simp

definition chunk_size_wf :: "chunk_size \<Rightarrow> bool" where
  "chunk_size_wf s \<longleftrightarrow> cs_pos s \<le> cs_len s \<and> cs_len s \<le> length (cs_bytes s)"

lemma chunk_size_new_Some:
  assumes "len < 2 ^ 64"
  obtains s where "chunk_size_new len = Some s" and "chunk_size_chunk s = upper_hex len @ CRLF"
    and "chunk_size_wf s"
proof -
  have "length (upper_hex len) \<le> 16"
    using assms by (intro length_upper_hex) simp_all
  then show ?thesis
    by (intro that [of "the (chunk_size_new len)"])
       (simp_all add: chunk_size_new_def chunk_size_write_str_def CHUNK_SIZE_MAX_BYTES_def
          chunk_size_chunk_def chunk_size_wf_def Let_def)
qed

section \<open>Encoded buffers keep their bytes\<close>

fun encoded_wf :: "EncodedBuf \<Rightarrow> bool" where
  "encoded_wf (ChunkedBuf s b t) = chunk_size_wf s"
| "encoded_wf _ = True"

lemma chunk_size_remaining_length: "chunk_size_wf s \<Longrightarrow> chunk_size_remaining s = length (chunk_size_chunk s)"
  by (auto simp: chunk_size_wf_def chunk_size_remaining_def chunk_size_chunk_def)

lemma encoded_remaining_length: "encoded_wf b \<Longrightarrow> encoded_remaining b = length (encoded_bytes b)"
  by (cases b) (auto simp: chunk_size_remaining_length)

lemma chunk_size_advance_chunk:
  assumes "chunk_size_advance s n = Some s'"
  shows "chunk_size_chunk s' = drop n (chunk_size_chunk s)"
    and "chunk_size_wf s \<Longrightarrow> chunk_size_wf s'"
  using assms
  by (auto simp: chunk_size_advance_def chunk_size_chunk_def chunk_size_wf_def
      chunk_size_remaining_def add.commute split: if_splits)

lemma encoded_advance_drop:
  assumes "encoded_wf b" and "n \<le> encoded_remaining b"
  shows "\<exists>b'. encoded_advance b n = Some b' \<and> encoded_wf b' \<and> encoded_bytes b' = drop n (encoded_bytes b)"
proof (cases b)
  case (ChunkedBuf s m t)
  with assms have wf: "chunk_size_wf s" and rem: "chunk_size_remaining s = length (chunk_size_chunk s)"
    by (auto simp: chunk_size_remaining_length)
  obtain s0 where s0: "chunk_size_advance s (chunk_size_remaining s) = Some s0"
    by (simp add: chunk_size_advance_def)
  have s0': "chunk_size_chunk s0 = []" "chunk_size_wf s0"
    using chunk_size_advance_chunk [OF s0] wf rem by auto
  show ?thesis
  proof (cases "n \<le> chunk_size_remaining s")
    case True
    then obtain s1 where s1: "chunk_size_advance s n = Some s1"
      by (simp add: chunk_size_advance_def)
    with chunk_size_advance_chunk [OF s1] wf rem True ChunkedBuf show ?thesis by simp
  next
    case False
    with ChunkedBuf assms rem s0 s0' show ?thesis by (simp add: Let_def)
  qed
qed (use assms in \<open>auto simp: drop_take Let_def\<close>)

text \<open>The first chunk is a non-empty prefix of the bytes that are left.\<close>

lemma encoded_chunk_prefix:
  assumes "encoded_wf b"
  shows "prefix (encoded_chunk b) (encoded_bytes b) \<and> (encoded_bytes b \<noteq> [] \<longrightarrow> encoded_chunk b \<noteq> [])"
  using assms by (cases b) (auto simp: chunk_size_remaining_length)

lemma encoded_vectored: "vectored_of (encoded_chunks_vectored b) (encoded_bytes b)"
proof (cases b)
  case (ChunkedBuf s m t)
  then show ?thesis
    using vectored_of_chain [OF vectored_of_chain [OF vectored_of_default vectored_of_default] vectored_of_default]
    by simp
next
  case (TrailersBuf x y z)
  then show ?thesis
    using vectored_of_chain [OF vectored_of_chain [OF vectored_of_default vectored_of_default] vectored_of_default]
    by simp
qed (simp_all add: vectored_of_default)

interpretation encoded: elem_buf encoded_ops encoded_bytes encoded_wf
proof unfold_locales
  fix b n
  assume wf: "encoded_wf b"
  show "buf_remaining encoded_ops b = length (encoded_bytes b)"
    using encoded_remaining_length [OF wf] by (simp add: encoded_ops_def)
  show "prefix (buf_chunk encoded_ops b) (encoded_bytes b)"
    and "buf_chunk encoded_ops b = [] \<Longrightarrow> encoded_bytes b = []"
    using encoded_chunk_prefix [OF wf] by (auto simp: encoded_ops_def)
  show "n \<le> length (encoded_bytes b) \<Longrightarrow>
      \<exists>b'. buf_advance encoded_ops b n = Some b' \<and> encoded_wf b' \<and> encoded_bytes b' = drop n (encoded_bytes b)"
    using encoded_advance_drop [OF wf] encoded_remaining_length [OF wf] by (simp add: encoded_ops_def)
qed (use encoded_vectored in \<open>auto simp: encoded_ops_def vectored_of_def\<close>)

section \<open>Trailers\<close>

lemma filter_trailers_total:
  "cur \<noteq> None \<or> prev = None \<Longrightarrow> (prev \<noteq> None \<longrightarrow> cur = prev) \<Longrightarrow>
   \<exists>m. filter_trailers H allowed cur (into_iter_from prev ps) acc = Some m"
  by (induction ps arbitrary: cur prev acc) (auto simp: Let_def)

context http_laws
begin

lemma filter_trailers_contains:
  "filter_trailers H allowed cur items acc = Some m \<Longrightarrow> hm_contains_key H m k \<Longrightarrow>
   hm_contains_key H acc k \<or> (k \<in> set allowed \<and> is_valid_trailer_field k)"
proof (induction items arbitrary: cur acc)
  case (Cons it items)
  obtain opt_name v where it: "it = (opt_name, v)" by (cases it)
  from Cons.prems(1) it obtain name where
    "filter_trailers H allowed (Some name) items
       (if name \<in> set allowed \<and> is_valid_trailer_field name then hm_insert H name v acc else acc) = Some m"
    by (auto simp: Let_def split: option.splits)
  from Cons.IH [OF this Cons.prems(2)] show ?case
    by (auto simp: contains_key_insert split: if_splits)
qed simp

end

end
