(* ===== verification/H1_Roundtrip.thy ===== *)
theory H1_Roundtrip
  imports H1_Decode H1_Encode
begin

text \<open>
  The encoder against the decoder: what \<^verbatim>\<open>Encoder\<close> writes for a sequence of message buffers,
  a conforming reader gives back to \<^verbatim>\<open>Decoder\<close> as the same bytes, however the transport cuts
  the stream into reads.
\<close>

text \<open>The wire bytes of a body: every buffer through \<^const>\<open>encode\<close>, then \<^const>\<open>encoder_end\<close>.\<close>

fun encode_all :: "encoder \<Rightarrow> bytes list \<Rightarrow> bytes option" where
  "encode_all e [] =
     (case encoder_end e of
        Inl _ \<Rightarrow> None
      | Inr None \<Rightarrow> Some []
      | Inr (Some b) \<Rightarrow> Some (encoded_bytes b))"
| "encode_all e (m # ms) =
     (case encode e m of
        None \<Rightarrow> None
      | Some (e', b) \<Rightarrow> map_option ((@) (encoded_bytes b)) (encode_all e' ms))"

section \<open>Size lines\<close>

lemma hex_digit_val: "d < 10 \<Longrightarrow> byte_val (hex_digit d) = 48 + d"
  "10 \<le> d \<Longrightarrow> d < 16 \<Longrightarrow> byte_val (hex_digit d) = 55 + d"
  by (simp_all add: hex_digit_def)

lemma read_hex_digit:
  assumes "d < 16"
  shows "read_size c (hex_digit d) = push_digit (of_nat d) c (hex_digit d)"
    and "read_start c (hex_digit d) = push_digit (of_nat d) c (hex_digit d)"
  using assms hex_digit_val [of d]
  by (cases "d < 10"; simp add: read_size_def read_start_def byte_in_def)+

lemma push_digit_small:
  assumes "unat (chunk_len c) * 16 + d < 2 ^ 64" and "d < 16"
  shows "push_digit (of_nat d) c b = (c\<lparr>chunk_len := of_nat (unat (chunk_len c) * 16 + d)\<rparr>, Inr Size)"
proof -
  have "unat (of_nat d :: u64) = d" using assms(2) by (simp add: unat_of_nat_u64)
  moreover have "checked_mul (chunk_len c) 16 = Some (chunk_len c * 16)"
    and "unat (chunk_len c * 16) = unat (chunk_len c) * 16"
    using assms(1) by (simp_all add: checked_mul_def unat_mult_lem [THEN iffD1])
  ultimately show ?thesis
    using assms(1) by (simp add: push_digit_def checked_add_def)
qed

lemma chunk_run_hex:
  "n < 2 ^ 64 \<Longrightarrow> cstate c = Start \<Longrightarrow> chunk_len c = 0 \<Longrightarrow>
   chunk_run mh ms c (upper_hex n) = Inr (c\<lparr>chunk_len := of_nat n, cstate := Size\<rparr>, [])"
proof (induction n rule: upper_hex.induct)
  case (1 n)
  show ?case
  proof (cases "n < 16")
    case True
    with 1 show ?thesis
      by (simp add: upper_hex.simps [of n] byte_step_def read_hex_digit push_digit_small)
  next
    case False
    define c1 where "c1 = c\<lparr>chunk_len := of_nat (n div 16), cstate := Size\<rparr>"
    have u: "unat (of_nat (n div 16) :: u64) = n div 16"
      using "1.prems"(1) by (intro unat_of_nat_u64) simp
    have "chunk_run mh ms c1 [hex_digit (n mod 16)] = Inr (c\<lparr>chunk_len := of_nat n, cstate := Size\<rparr>, [])"
      using "1.prems"(1) u
      by (simp add: c1_def byte_step_def read_hex_digit push_digit_small)
    moreover have "chunk_run mh ms c (upper_hex (n div 16)) = Inr (c1, [])"
      using 1 False by (simp add: c1_def)
    ultimately show ?thesis
      using False chunk_run_trans by (fastforce simp: upper_hex.simps [of n])
  qed
qed

lemma chunk_run_size_line:
  assumes "n < 2 ^ 64" and "cstate c = Start" and "chunk_len c = 0"
  shows "chunk_run mh ms c (upper_hex n @ CRLF) =
     Inr (c\<lparr>chunk_len := of_nat n, cstate := (if n = 0 then EndCr else Body)\<rparr>, [])"
proof -
  have "(of_nat n :: u64) = 0 \<longleftrightarrow> n = 0"
    using unat_of_nat_u64 [OF assms(1)] by auto
  then have "chunk_run mh ms (c\<lparr>chunk_len := of_nat n, cstate := Size\<rparr>) CRLF =
     Inr (c\<lparr>chunk_len := of_nat n, cstate := (if n = 0 then EndCr else Body)\<rparr>, [])"
    by (simp add: byte_step_def read_size_def read_size_lf_def byte_in_def)
  then show ?thesis
    using chunk_run_trans [OF chunk_run_hex [OF assms]] by fastforce
qed

section \<open>Chunks\<close>

text \<open>A state between two chunks: nothing is pending and no trailer byte was seen.\<close>

definition between_chunks :: "chunked \<Rightarrow> bool" where
  "between_chunks c \<longleftrightarrow> cstate c = Start \<and> chunk_len c = 0 \<and> trailers_buf c = None"

lemma chunk_run_chunk:
  assumes "between_chunks c" and "m \<noteq> []" and "length m < 2 ^ 64"
  shows "chunk_run mh ms c (upper_hex (length m) @ CRLF @ m @ CRLF) = Inr (c, m)"
proof -
  define c1 where "c1 = c\<lparr>chunk_len := of_nat (length m), cstate := Body\<rparr>"
  have u: "unat (of_nat (length m) :: u64) = length m" using assms(3) by (rule unat_of_nat_u64)
  have "chunk_run mh ms c (upper_hex (length m) @ CRLF) = Inr (c1, [])"
    using assms by (simp add: chunk_run_size_line between_chunks_def c1_def)
  moreover have "chunk_run mh ms c1 m = Inr (c\<lparr>chunk_len := 0, cstate := BodyCr\<rparr>, m)"
    using assms(2) u by (subst chunk_run_body) (simp_all add: c1_def)
  moreover have "chunk_run mh ms (c\<lparr>chunk_len := 0, cstate := BodyCr\<rparr>) CRLF = Inr (c, [])"
    using assms(1)
    by (simp add: byte_step_def read_body_cr_def read_body_lf_def between_chunks_def)
  ultimately have "chunk_run mh ms c ((upper_hex (length m) @ CRLF) @ (m @ CRLF)) = Inr (c, [] @ (m @ []))"
    by (intro chunk_run_trans)
  then show ?thesis by simp
qed

lemma chunk_run_last_chunk:
  assumes "between_chunks c"
  shows "chunk_run mh ms c (''0'' @ CRLF @ CRLF) = Inr (c\<lparr>cstate := End\<rparr>, [])"
proof -
  have hex0: "upper_hex 0 = ''0''" by code_simp
  have "chunk_run mh ms c (''0'' @ CRLF) = Inr (c\<lparr>cstate := EndCr\<rparr>, [])"
    using chunk_run_size_line [of 0 c mh ms] assms by (simp add: between_chunks_def hex0)
  moreover have "chunk_run mh ms (c\<lparr>cstate := EndCr\<rparr>) CRLF = Inr (c\<lparr>cstate := End\<rparr>, [])"
    using assms by (simp add: byte_step_def read_end_cr_def read_end_lf_def between_chunks_def)
  ultimately have "chunk_run mh ms c ((''0'' @ CRLF) @ CRLF) = Inr (c\<lparr>cstate := End\<rparr>, [] @ [])"
    by (rule chunk_run_trans)
  then show ?thesis by simp
qed

section \<open>Whole bodies\<close>

lemma encode_chunked_bytes:
  assumes "ekind e = EChunked t" and "length m < 2 ^ 64"
  obtains b where "encode e m = Some (e, b)"
    and "encoded_bytes b = upper_hex (length m) @ CRLF @ m @ CRLF" and "encoded_wf b"
proof -
  obtain s where "chunk_size_new (length m) = Some s" "chunk_size_chunk s = upper_hex (length m) @ CRLF"
    "chunk_size_wf s"
    using chunk_size_new_Some [OF assms(2)] .
  then show ?thesis
    using assms that [of "ChunkedBuf s m CRLF"]
    by (simp add: encode_def Let_def)
qed

definition small_msgs :: "bytes list \<Rightarrow> bool" where
  "small_msgs msgs \<longleftrightarrow> (\<forall>m\<in>set msgs. m \<noteq> [] \<and> length m < 2 ^ 64)"

lemma chunk_run_encode_all:
  assumes "ekind e = EChunked t" and "small_msgs msgs" and "between_chunks c"
  shows "\<exists>wire. encode_all e msgs = Some wire \<and>
     chunk_run mh ms c wire = Inr (c\<lparr>cstate := End\<rparr>, concat msgs)"
  using assms(2)
proof (induction msgs)
  case Nil
  then show ?case
    using assms chunk_run_last_chunk [OF assms(3), of mh ms] by (simp add: encoder_end_def)
next
  case (Cons m msgs)
  then have m: "m \<noteq> []" "length m < 2 ^ 64" and "small_msgs msgs" by (auto simp: small_msgs_def)
  with Cons.IH obtain wire where wire: "encode_all e msgs = Some wire"
    "chunk_run mh ms c wire = Inr (c\<lparr>cstate := End\<rparr>, concat msgs)" by blast
  obtain b where "encode e m = Some (e, b)" "encoded_bytes b = upper_hex (length m) @ CRLF @ m @ CRLF"
    using encode_chunked_bytes [OF assms(1) m(2)] by blast
  with wire chunk_run_trans [OF chunk_run_chunk [OF assms(3) m] wire(2)] show ?case by simp
qed

text \<open>On a stream that begins with a complete body, a run that succeeds stays inside that body,
  its output is a prefix of the body's data, and at \<^const>\<open>End\<close> it has consumed exactly the body.\<close>

lemma run_inside_body:
  assumes body: "chunk_run mh ms c wire = Inr (cE, data)" "cstate cE = End"
    and run: "prefix w (wire @ rest)" "chunk_run mh ms c w = Inr (c1, out)"
  shows "prefix w wire \<and> prefix out data \<and> (cstate c1 = End \<longrightarrow> w = wire \<and> c1 = cE \<and> out = data)"
proof -
  have "prefix w wire \<or> prefix wire w"
    using run(1) by (metis prefix_same_cases append_prefixD prefix_order.refl prefixI)
  moreover have "w = wire" if "prefix wire w"
  proof -
    from that obtain z where z: "w = wire @ z" by (auto simp: prefix_def)
    then obtain c2 o2 where "chunk_run mh ms cE z = Inr (c2, o2)"
      using run(2) body(1) by (auto simp: chunk_run_append split: sum.splits prod.splits)
    with z chunk_run_End [OF body(2)] show ?thesis by auto
  qed
  ultimately have w: "prefix w wire" by auto
  then obtain z where z: "wire = w @ z" by (auto simp: prefix_def)
  then obtain o2 where "chunk_run mh ms c1 z = Inr (cE, o2)" and "data = out @ o2"
    using run(2) body(1) by (auto simp: chunk_run_append split: sum.splits prod.splits)
  moreover from this(1) have "cstate c1 = End \<Longrightarrow> z = []" using chunk_run_End by blast
  ultimately show ?thesis using w z run(2) body(1) by auto
qed

lemma decoder_chunked_start:
  assumes "decoder_chunked mh ms = Chunked c"
  shows "between_chunks c" and "chunk_inv a b c"
  using assms
  by (auto simp: decoder_chunked_def between_chunks_def chunk_inv_def CHUNKED_EXTENSIONS_LIMIT_def)

context mem_read
begin

lemma reads_inside_body:
  assumes "invar r" and "stream r = wire @ rest"
    and body: "chunk_run (max_headers_of c) (max_header_size_of c) c wire = Inr (cE, data)" "cstate cE = End"
      "trailers_buf cE = None"
    and inv: "chunk_inv (max_headers_of c) (max_header_size_of c) c"
    and reads: "body_reads H read_mem r (Chunked c) got r' d'"
  obtains w c1 where "d' = Chunked c1" and "invar r'" and "wire @ rest = w @ stream r'" and "prefix w wire"
    and "chunk_run (max_headers_of c) (max_header_size_of c) c w = Inr (c1, got)"
    and "prefix got data" and "cstate c1 = End \<longrightarrow> w = wire \<and> got = data \<and> c1 = cE"
proof -
  have no_tr: "trailers_buf c1 = None"
    if "prefix w (stream r)" "chunk_run (max_headers_of c) (max_header_size_of c) c w = Inr (c1, out)"
      "cstate c1 = End" for w c1 out
    using run_inside_body [OF body(1,2) _ that(2)] that(1,3) assms(2) body(3) by auto
  have "\<exists>w c1. d' = Chunked c1 \<and> invar r' \<and> stream r = w @ stream r' \<and>
      chunk_run (max_headers_of c) (max_header_size_of c) c w = Inr (c1, got)"
    using no_tr by (intro body_reads_run [OF reads assms(1) inv]) blast
  then obtain w c1 where w: "d' = Chunked c1" "invar r'"
    "stream r = w @ stream r'" "chunk_run (max_headers_of c) (max_header_size_of c) c w = Inr (c1, got)"
    by blast
  moreover have "prefix w (wire @ rest)" using w(3) assms(2) by (simp add: prefix_def)
  ultimately show ?thesis
    using that run_inside_body [OF body(1,2) _ w(4)] assms(2) by metis
qed

end

text \<open>Inside a complete body the next call never fails by the decoder's own fault.\<close>

lemma outcome_inside_body:
  fixes H :: "('m, 'z) http_lib_scheme"
  assumes body: "chunk_run mh ms c wire = Inr (cE, data)" "cstate cE = End" "trailers_buf cE = None"
    and w: "wire @ rest = w @ st" "chunk_run mh ms c w = Inr (c1, got)"
    and out: "loop_outcome H rerr mh ms c1 st st' c' res"
  shows "case res of Pending \<Rightarrow> True | Ready (Inl e) \<Rightarrow> rerr e
     | Ready (Inr f) \<Rightarrow> \<exists>bs. f = Data bs \<and> (bs = [] \<longrightarrow> cstate c' = End)"
proof -
  have ext: "prefix (w @ v) wire \<and> (cstate c2 = End \<longrightarrow> w @ v = wire \<and> c2 = cE)"
    if "prefix v st" "chunk_run mh ms c1 v = Inr (c2, o2)" for v c2 o2
    using run_inside_body [OF body(1,2) _ chunk_run_trans [OF w(2) that(2)], of rest] that(1) w(1)
    by auto
  have no_fault: "rerr e" if "decode_fault rerr mh ms c1 st e" for e
  proof (rule ccontr)
    assume "\<not> rerr e"
    with that consider v b c2 o2 where "prefix (v @ [b]) st" "chunk_run mh ms c1 v = Inr (c2, o2)"
        "cstate c2 \<noteq> End" "byte_step mh ms c2 b = Inl e"
      | c2 o2 where "chunk_run mh ms c1 st = Inr (c2, o2)" "cstate c2 \<noteq> End"
      by (auto simp: decode_fault_def)
    then show False
    proof cases
      case 1
      from ext [OF append_prefixD [OF 1(1)] 1(2)] have "prefix (w @ v) wire" by simp
      then obtain z where z: "wire = (w @ v) @ z" by (auto simp: prefix_def)
      with body(1) chunk_run_trans [OF w(2) 1(2)] obtain o3 where
        z_run: "chunk_run mh ms c2 z = Inr (cE, o3)"
        by (auto simp del: append_assoc simp: chunk_run_append split: sum.splits prod.splits)
      with 1(3) body(2) obtain b' z' where z': "z = b' # z'" by (cases z) auto
      have "b' = b" using 1(1) w(1) z z' by (auto simp: prefix_def)
      with z' z_run 1(4) show False by simp
    next
      case 2
      from ext [OF _ 2(1)] have "prefix (w @ st) wire" by simp
      then obtain z where "wire = (w @ st) @ z" by (auto simp: prefix_def)
      with w(1) have "w @ st = wire" by auto
      with body chunk_run_trans [OF w(2) 2(1)] 2(2) show False by simp
    qed
  qed
  show ?thesis
  proof (cases res)
    case (Ready x)
    show ?thesis
    proof (cases x)
      case (Inl e)
      with out Ready have "decode_fault rerr mh ms c1 st e \<or>
        (\<exists>v c2. st = v @ st' \<and> chunk_run mh ms c1 v = Inr (c2, []) \<and> cstate c2 = End \<and>
           finish_chunked H mh c2 = (c', Inl e))"
        by (simp add: loop_outcome_def)
      moreover have "finish_chunked H mh c2 \<noteq> (c', Inl e)"
        if "st = v @ st'" "chunk_run mh ms c1 v = Inr (c2, [])" "cstate c2 = End" for v c2
        using ext [OF _ that(2)] that body(3) by (auto simp: finish_chunked_def)
      ultimately show ?thesis using no_fault Ready Inl by auto
    next
      case (Inr f)
      with out Ready have "\<exists>v c2 o2. st = v @ st' \<and> chunk_run mh ms c1 v = Inr (c2, o2) \<and>
        (if cstate c2 = End then o2 = [] \<and> finish_chunked H mh c2 = (c', Inr f)
         else c' = c2 \<and> f = Data o2 \<and> o2 \<noteq> [])"
        by (simp add: loop_outcome_def)
      then obtain v c2 o2 where v: "st = v @ st'" "chunk_run mh ms c1 v = Inr (c2, o2)"
        "if cstate c2 = End then o2 = [] \<and> finish_chunked H mh c2 = (c', Inr f)
         else c' = c2 \<and> f = Data o2 \<and> o2 \<noteq> []" by blast
      then show ?thesis
        using ext [of v c2 o2] body(3) Ready Inr
        by (cases "cstate c2 = End") (auto simp: finish_chunked_def)
    qed
  qed simp
qed

lemma encoder_chunked_kind: "ekind encoder_chunked = EChunked None"
  by (simp add: encoder_chunked_def encoder_new_def)

text \<open>The automaton on the wire bytes of a chunked body.\<close>

lemma chunked_wire:
  assumes "small_msgs msgs" and "encode_all encoder_chunked msgs = Some wire"
    and "decoder_chunked mh ms = Chunked c"
  shows "chunk_run a b c wire = Inr (c\<lparr>cstate := End\<rparr>, concat msgs)"
    and "cstate (c\<lparr>cstate := End\<rparr>) = End" and "trailers_buf (c\<lparr>cstate := End\<rparr>) = None"
    and "chunk_inv a b c"
  using chunk_run_encode_all [OF encoder_chunked_kind assms(1), of c a b] assms(2)
    decoder_chunked_start [OF assms(3)]
  by (auto simp: between_chunks_def)

context mem_read
begin

lemma chunked_reads:
  assumes "invar r" and "small_msgs msgs" and "encode_all encoder_chunked msgs = Some wire"
    and "stream r = wire @ rest"
    and "body_reads H read_mem r (decoder_chunked mh ms) got r' d'"
  shows "prefix got (concat msgs) \<and> (decoder_is_eof d' \<longrightarrow> got = concat msgs \<and> stream r' = rest)"
proof -
  obtain c where c: "decoder_chunked mh ms = Chunked c" by (simp add: decoder_chunked_def)
  note wire = chunked_wire [OF assms(2,3) c]
  obtain w c1 where "d' = Chunked c1" "wire @ rest = w @ stream r'" "prefix got (concat msgs)"
    "cstate c1 = End \<longrightarrow> w = wire \<and> got = concat msgs"
    using reads_inside_body [OF assms(1,4) wire assms(5) [unfolded c]] by metis
  then show ?thesis by auto
qed

lemma chunked_progress:
  assumes "invar r" and "small_msgs msgs" and "encode_all encoder_chunked msgs = Some wire"
    and "stream r = wire @ rest"
    and "body_reads H read_mem r (decoder_chunked mh ms) got r' d'"
  shows "\<exists>r'' d'' res. decode H read_mem r' d' = Some (r'', d'', res) \<and>
    (case res of Pending \<Rightarrow> True | Ready (Inl e) \<Rightarrow> reader_error e
     | Ready (Inr f) \<Rightarrow> \<exists>bs. f = Data bs \<and> (bs = [] \<longrightarrow> decoder_is_eof d''))"
proof -
  obtain c where c: "decoder_chunked mh ms = Chunked c" by (simp add: decoder_chunked_def)
  note wire = chunked_wire [OF assms(2,3) c]
  obtain w c1 where w: "d' = Chunked c1" "invar r'" "wire @ rest = w @ stream r'"
    "chunk_run (max_headers_of c) (max_header_size_of c) c w = Inr (c1, got)"
    "cstate c1 = End \<longrightarrow> c1 = c\<lparr>cstate := End\<rparr>"
    using reads_inside_body [OF assms(1,4) wire assms(5) [unfolded c]] by metis
  show ?thesis
  proof (cases "cstate c1 = End")
    case True
    then have "trailers_buf c1 = None" using w(5) wire(3) by simp
    from decode_chunked_End [OF True this, of H r'] True w(1) show ?thesis
      by (simp del: decode.simps)
  next
    case False
    have "chunk_inv (max_headers_of c1) (max_header_size_of c1) c1"
      using chunk_run_inv [OF wire(4) w(4)] chunk_run_limits [OF w(4)] by simp
    from decode_chunked [OF w(2) this False, of H] obtain r'' c' res where
      "decode H read_mem r' (Chunked c1) = Some (r'', Chunked c', res)"
      "loop_outcome H reader_error (max_headers_of c) (max_header_size_of c) c1 (stream r') (stream r'') c' res"
      using chunk_run_limits [OF w(4)] by auto
    with outcome_inside_body [OF wire(1,2,3) w(3,4) this(2)] w(1) show ?thesis
      by (auto simp del: decode.simps split: poll.splits sum.splits)
  qed
qed

end

section \<open>Properties\<close>

text \<open>C1. Round trip of chunked bodies: for every reader that meets the interface, if its stream begins
  with the bytes the chunked encoder writes for the buffers \<open>msgs\<close>, then whatever sequence of
  \<^const>\<open>decode\<close> calls has been made, the data delivered is a prefix of \<open>concat msgs\<close>; and once the
  decoder reports the end it is exactly \<open>concat msgs\<close> and the reader stands at the first byte after
  the body.\<close>

theorem chunked_roundtrip:
  assumes "mem_read rm stream invar" and "invar r" and "small_msgs msgs"
    and "encode_all encoder_chunked msgs = Some wire" and "stream r = wire @ rest"
    and "body_reads H rm r (decoder_chunked mh ms) got r' d'"
  shows "prefix got (concat msgs) \<and> (decoder_is_eof d' \<longrightarrow> got = concat msgs \<and> stream r' = rest)"
  using mem_read.chunked_reads [OF assms] .

text \<open>C11. Progress of chunked bodies: in the same situation the next call of \<^const>\<open>decode\<close> returns, it
  fails only with an error of the reader itself, and it delivers no empty data before the end.\<close>

theorem chunked_decode_progress:
  assumes "mem_read rm stream invar" and "invar r" and "small_msgs msgs"
    and "encode_all encoder_chunked msgs = Some wire" and "stream r = wire @ rest"
    and "body_reads H rm r (decoder_chunked mh ms) got r' d'"
  shows "\<exists>r'' d'' res. decode H rm r' d' = Some (r'', d'', res) \<and>
    (case res of Pending \<Rightarrow> True
     | Ready (Inl e) \<Rightarrow> \<exists>q n q'. invar q \<and> rm q n = (q', Ready (Inl e))
     | Ready (Inr f) \<Rightarrow> \<exists>bs. f = Data bs \<and> (bs = [] \<longrightarrow> decoder_is_eof d''))"
  using mem_read.chunked_progress [OF assms] unfolding mem_read.reader_error_def [OF assms(1)] .

definition wire_hi :: bytes where
  "wire_hi = ''2'' @ CRLF @ ''hi'' @ CRLF @ ''0'' @ CRLF @ CRLF"

lemma encode_hi: "encode_all encoder_chunked [''hi''] = Some wire_hi"
  by code_simp

definition state_hi :: "ChunkedState \<Rightarrow> chunked" where
  "state_hi s = \<lparr>cstate = s, chunk_len = 0, extensions_cnt = 0, trailers_buf = None,
     trailers_cnt = 0, h1_max_headers = None, h1_max_header_size = None\<rparr>"

lemma decode_hi:
  "decode assoc_http slice_read_mem (wire_hi @ ''x'') (decoder_chunked None None) =
     Some (drop 5 wire_hi @ ''x'', Chunked (state_hi BodyCr), Ready (Inr (Data ''hi'')))"
  by (simp add: decode_eval wire_hi_def state_hi_def cong: prod.case_cong_weak)

lemma decode_hi_end:
  "decode assoc_http slice_read_mem (drop 5 wire_hi @ ''x'') (Chunked (state_hi BodyCr)) =
     Some (''x'', Chunked (state_hi End), Ready (Inr (Data [])))"
  by (simp add: decode_eval wire_hi_def state_hi_def cong: prod.case_cong_weak)

lemma reads_hi:
  "body_reads assoc_http slice_read_mem (wire_hi @ ''x'') (decoder_chunked None None)
     ''hi'' ''x'' (Chunked (state_hi End))"
  using reads_data [OF reads_data [OF reads_none decode_hi] decode_hi_end] by simp

text \<open>Witness of C1: one chunk, read from a slice to the end of the body.\<close>

theorem chunked_roundtrip_witness:
  "decoder_is_eof (Chunked (state_hi End)) \<and> ''hi'' = concat [''hi'']"
  using chunked_roundtrip [OF slice_rd.mem_read_axioms TrueI _ encode_hi refl reads_hi]
  by (simp add: small_msgs_def state_hi_def)

text \<open>Witness of C11: after the first chunk of the same body.\<close>

theorem chunked_decode_progress_witness:
  "\<exists>r'' d'' res. decode assoc_http slice_read_mem (drop 5 wire_hi @ ''x'') (Chunked (state_hi BodyCr)) =
      Some (r'', d'', res)"
  using chunked_decode_progress [OF slice_rd.mem_read_axioms TrueI _ encode_hi refl
        reads_data [OF reads_none decode_hi]]
  by (simp add: small_msgs_def del: decode.simps) blast

end
