(* ===== verification/Transport.thy ===== *)
theory Transport
  imports Mem_Read
begin

text \<open>
  The byte transport under a connection. The traits \<^verbatim>\<open>Read\<close> and \<^verbatim>\<open>Write\<close> of
  \<^verbatim>\<open>src/src/core/rt\<close> are the record \<open>transport_ops\<close>; what implements them (sockets, TLS) is
  outside the repository, so it is a parameter of everything above, and the locale \<open>transport\<close>
  says what a reliable byte stream promises: reads deliver the peer's bytes in order and empty only
  at the end of the stream (the laws of \<open>mem_read\<close>), writes accept a prefix of what they are
  given, and \<^const>\<open>Pending\<close> or an error accepts nothing.

  \<^verbatim>\<open>Rewind\<close> (\<^verbatim>\<open>src/src/core/common/io/rewind.rs\<close>), which puts bytes already read back in front
  of a transport, is modelled here, with the proof that it is a transport again.

  A read is a function of the space left in the \<^verbatim>\<open>ReadBufCursor\<close> and returns the bytes it put there.
\<close>

record 't transport_ops =
  poll_read :: "'t \<Rightarrow> nat \<Rightarrow> 't \<times> bytes io_result poll"
  poll_write :: "'t \<Rightarrow> bytes \<Rightarrow> 't \<times> nat io_result poll"
  poll_write_vectored :: "'t \<Rightarrow> bytes list \<Rightarrow> 't \<times> nat io_result poll"
  poll_flush :: "'t \<Rightarrow> 't \<times> unit io_result poll"
  poll_shutdown :: "'t \<Rightarrow> 't \<times> unit io_result poll"
  is_write_vectored :: "'t \<Rightarrow> bool"

text \<open>The effect of one write on the bytes accepted so far.\<close>

fun accepts :: "bytes \<Rightarrow> bytes \<Rightarrow> bytes \<Rightarrow> nat io_result poll \<Rightarrow> bool" where
  "accepts before buf after (Ready (Inr n)) \<longleftrightarrow> n \<le> length buf \<and> after = before @ take n buf"
| "accepts before buf after res \<longleftrightarrow> after = before"

locale transport = rd: mem_read "poll_read T" unread tinv
  for T :: "('t, 'z) transport_ops_scheme" and unread :: "'t \<Rightarrow> bytes" and tinv :: "'t \<Rightarrow> bool" +
  fixes written :: "'t \<Rightarrow> bytes"
  assumes write_accepts: "tinv t \<Longrightarrow> poll_write T t bs = (t', r) \<Longrightarrow> accepts (written t) bs (written t') r"
    and write_vectored: "tinv t \<Longrightarrow> poll_write_vectored T t bss = (t', r) \<Longrightarrow>
      accepts (written t) (concat bss) (written t') r"
    and flush_written: "tinv t \<Longrightarrow> written (fst (poll_flush T t)) = written t"
    and shutdown_written: "tinv t \<Longrightarrow> written (fst (poll_shutdown T t)) = written t"
    and read_written: "tinv t \<Longrightarrow> written (fst (poll_read T t n)) = written t"
    and write_inv: "tinv t \<Longrightarrow> tinv (fst (poll_write T t bs))"
    and write_vectored_inv: "tinv t \<Longrightarrow> tinv (fst (poll_write_vectored T t bss))"
    and flush_inv: "tinv t \<Longrightarrow> tinv (fst (poll_flush T t))"
    and shutdown_inv: "tinv t \<Longrightarrow> tinv (fst (poll_shutdown T t))"

section \<open>Rewind\<close>

record 't Rewind =
  pre :: "bytes option"
  inner :: 't

definition rewind_new_buffered :: "'t \<Rightarrow> bytes \<Rightarrow> 't Rewind" where
  "rewind_new_buffered io buf = \<lparr>pre = Some buf, inner = io\<rparr>"

definition rewind_into_inner :: "'t Rewind \<Rightarrow> 't \<times> bytes" where
  "rewind_into_inner r = (inner r, case pre r of None \<Rightarrow> [] | Some b \<Rightarrow> b)"

text \<open>A call on the inner transport, with \<^verbatim>\<open>pre\<close> already taken.\<close>

definition on_inner :: "('t \<Rightarrow> 't \<times> 'r) \<Rightarrow> 't Rewind \<Rightarrow> 't Rewind \<times> 'r" where
  "on_inner f r = (case f (inner r) of (t', res) \<Rightarrow> (r\<lparr>inner := t'\<rparr>, res))"

definition rewind_poll_read ::
  "('t, 'z) transport_ops_scheme \<Rightarrow> 't Rewind \<Rightarrow> nat \<Rightarrow> 't Rewind \<times> bytes io_result poll" where
  "rewind_poll_read T r n =
     (case pre r of
        Some pref \<Rightarrow>
          (let r' = r\<lparr>pre := None\<rparr>
           in if pref \<noteq> []
              then let copy_len = min (length pref) n;
                       rest = drop copy_len pref
                   in (if rest \<noteq> [] then r'\<lparr>pre := Some rest\<rparr> else r', Ready (Inr (take copy_len pref)))
              else on_inner (\<lambda>t. poll_read T t n) r')
      | None \<Rightarrow> on_inner (\<lambda>t. poll_read T t n) r)"

definition rewind_ops :: "('t, 'z) transport_ops_scheme \<Rightarrow> 't Rewind transport_ops" where
  "rewind_ops T = \<lparr>
     poll_read = rewind_poll_read T,
     poll_write = (\<lambda>r bs. on_inner (\<lambda>t. poll_write T t bs) r),
     poll_write_vectored = (\<lambda>r bss. on_inner (\<lambda>t. poll_write_vectored T t bss) r),
     poll_flush = on_inner (poll_flush T),
     poll_shutdown = on_inner (poll_shutdown T),
     is_write_vectored = (\<lambda>r. is_write_vectored T (inner r))\<rparr>"

definition rewind_unread :: "('t \<Rightarrow> bytes) \<Rightarrow> 't Rewind \<Rightarrow> bytes" where
  "rewind_unread unread r = (case pre r of None \<Rightarrow> [] | Some b \<Rightarrow> b) @ unread (inner r)"

lemma on_inner_sel [simp]:
  "inner (fst (on_inner f r)) = fst (f (inner r))" "pre (fst (on_inner f r)) = pre r"
  "snd (on_inner f r) = snd (f (inner r))"
  by (simp_all add: on_inner_def split: prod.splits)

lemma on_inner_eq: "on_inner f r = (r', res) \<longleftrightarrow> f (inner r) = (inner r', res) \<and> pre r' = pre r"
  by (cases r; cases r') (auto simp: on_inner_def split: prod.splits)

context transport
begin

lemma rewind_read_cases:
  assumes "rewind_poll_read T r n = (r', res)"
  obtains (prefix) p where "pre r = Some p" "p \<noteq> []" "res = Ready (Inr (take n p))"
      "(case pre r' of None \<Rightarrow> [] | Some b \<Rightarrow> b) = drop n p" "inner r' = inner r"
  | (inner) "pre r = None \<or> pre r = Some []" "poll_read T (inner r) n = (inner r', res)" "pre r' = None"
proof (cases "\<exists>p. pre r = Some p \<and> p \<noteq> []")
  case True
  then obtain p where "pre r = Some p" "p \<noteq> []" by blast
  moreover have "take (min (length p) n) p = take n p" "drop (min (length p) n) p = drop n p"
    by (simp_all add: min_def)
  ultimately show ?thesis
    using assms by (intro prefix [of p]) (auto simp: rewind_poll_read_def Let_def split: if_splits)
next
  case False
  with assms show ?thesis
    by (intro inner) (auto simp: rewind_poll_read_def Let_def on_inner_eq split: option.splits if_splits)
qed

text \<open>A rewound transport delivers the bytes put back, then those of the transport.\<close>

lemma rewind_transport:
  "transport (rewind_ops T) (rewind_unread unread) (\<lambda>r. tinv (inner r)) (\<lambda>r. written (inner r))"
proof unfold_locales
  fix r r' :: "'t Rewind" and n bs e
  assume inv: "tinv (inner r)"
  show "poll_read (rewind_ops T) r n = (r', Ready (Inr bs)) \<Longrightarrow>
      rewind_unread unread r = bs @ rewind_unread unread r' \<and> length bs \<le> n"
    using rd.read_data [OF inv]
    by (auto simp: rewind_ops_def rewind_unread_def elim!: rewind_read_cases)
  show "poll_read (rewind_ops T) r n = (r', Ready (Inr [])) \<Longrightarrow> 0 < n \<Longrightarrow> rewind_unread unread r = []"
    using rd.read_eof [OF inv]
    by (auto simp: rewind_ops_def rewind_unread_def elim!: rewind_read_cases)
  show "poll_read (rewind_ops T) r n = (r', Pending) \<Longrightarrow> rewind_unread unread r' = rewind_unread unread r"
    using rd.read_pending [OF inv]
    by (auto simp: rewind_ops_def rewind_unread_def elim!: rewind_read_cases)
  show "poll_read (rewind_ops T) r n = (r', Ready (Inl e)) \<Longrightarrow> rewind_unread unread r' = rewind_unread unread r"
    using rd.read_error [OF inv]
    by (auto simp: rewind_ops_def rewind_unread_def elim!: rewind_read_cases)
  show "tinv (inner (fst (poll_read (rewind_ops T) r n)))"
    and "written (inner (fst (poll_read (rewind_ops T) r n))) = written (inner r)"
    using inv rd.read_invar [OF inv, of n] read_written [OF inv, of n]
    by (auto simp: rewind_ops_def rewind_poll_read_def Let_def split: option.splits)
qed (auto simp: rewind_ops_def on_inner_eq write_accepts write_vectored flush_written shutdown_written
       write_inv write_vectored_inv flush_inv shutdown_inv)

end

section \<open>A scripted transport\<close>

text \<open>
  The transport of the repository's own tests, \<^verbatim>\<open>tokio_test::io::Mock\<close>: a script of reads, each
  a block of bytes or a \<^const>\<open>Pending\<close>, and everything written to it kept. A write takes at most
  \<open>chunk\<close> bytes at a time.
\<close>

datatype mock_read = Chunk bytes | Wait

record mock =
  script :: "mock_read list"
  sent :: bytes
  write_limit :: nat

fun mock_poll_read :: "mock \<Rightarrow> nat \<Rightarrow> mock \<times> bytes io_result poll" where
  "mock_poll_read m n =
     (case dropWhile (\<lambda>a. a = Chunk []) (script m) of
        [] \<Rightarrow> (m, Ready (Inr []))
      | Wait # rest \<Rightarrow> (m\<lparr>script := rest\<rparr>, Pending)
      | Chunk bs # rest \<Rightarrow> (m\<lparr>script := Chunk (drop n bs) # rest\<rparr>, Ready (Inr (take n bs))))"

definition mock_write :: "mock \<Rightarrow> bytes \<Rightarrow> mock \<times> nat io_result poll" where
  "mock_write m bs =
     (let n = min (write_limit m) (length bs)
      in (m\<lparr>sent := sent m @ take n bs\<rparr>, Ready (Inr n)))"

definition mock_ops :: "mock transport_ops" where
  "mock_ops = \<lparr>
     poll_read = mock_poll_read,
     poll_write = mock_write,
     poll_write_vectored = (\<lambda>m bss. mock_write m (concat bss)),
     poll_flush = (\<lambda>m. (m, Ready (Inr ()))),
     poll_shutdown = (\<lambda>m. (m, Ready (Inr ()))),
     is_write_vectored = (\<lambda>m. False)\<rparr>"

fun script_bytes :: "mock_read list \<Rightarrow> bytes" where
  "script_bytes [] = []"
| "script_bytes (Wait # as) = script_bytes as"
| "script_bytes (Chunk bs # as) = bs @ script_bytes as"

lemma script_bytes_drop: "script_bytes (dropWhile (\<lambda>a. a = Chunk []) as) = script_bytes as"
  by (induction as) auto

lemma hd_dropWhile_Chunk: "dropWhile (\<lambda>a. a = Chunk []) as = Chunk bs # rest \<Longrightarrow> bs \<noteq> []"
  by (metis (full_types) hd_dropWhile list.sel(1) list.distinct(1))

lemma mock_read_cases:
  assumes "mock_poll_read m n = (m', res)"
  obtains (eof) "script_bytes (script m) = []" "res = Ready (Inr [])" "m' = m"
  | (wait) "res = Pending" "script_bytes (script m') = script_bytes (script m)"
      "sent m' = sent m"
  | (data) bs where "bs \<noteq> []" "res = Ready (Inr (take n bs))" "sent m' = sent m"
      "script_bytes (script m) = bs @ script_bytes (tl (script m'))"
      "script_bytes (script m') = drop n bs @ script_bytes (tl (script m'))"
proof -
  define s where "s = dropWhile (\<lambda>a. a = Chunk []) (script m)"
  have bytes: "script_bytes (script m) = script_bytes s"
    by (simp add: s_def script_bytes_drop)
  note assms = assms [unfolded mock_poll_read.simps, folded s_def]
  show ?thesis
  proof (cases s)
    case Nil
    then show ?thesis using assms bytes by (intro eof) auto
  next
    case (Cons a rest)
    show ?thesis
    proof (cases a)
      case Wait
      then show ?thesis using assms bytes Cons by (intro wait) auto
    next
      case (Chunk bs)
      then have "bs \<noteq> []" using hd_dropWhile_Chunk [of "script m" bs rest] Cons s_def by simp
      then show ?thesis using assms bytes Cons Chunk by (intro data [of bs]) auto
    qed
  qed
qed

interpretation mock: transport mock_ops "\<lambda>m. script_bytes (script m)" "\<lambda>_. True" sent
proof unfold_locales
  fix m n m' bs
  show "poll_read mock_ops m n = (m', Ready (Inr bs)) \<Longrightarrow>
      script_bytes (script m) = bs @ script_bytes (script m') \<and> length bs \<le> n"
    by (auto simp: mock_ops_def simp del: mock_poll_read.simps elim!: mock_read_cases)
  show "poll_read mock_ops m n = (m', Ready (Inr [])) \<Longrightarrow> 0 < n \<Longrightarrow> script_bytes (script m) = []"
    by (auto simp: mock_ops_def simp del: mock_poll_read.simps elim!: mock_read_cases)
next
  fix m n m'
  show "poll_read mock_ops m n = (m', Pending) \<Longrightarrow> script_bytes (script m') = script_bytes (script m)"
    by (auto simp: mock_ops_def simp del: mock_poll_read.simps elim!: mock_read_cases)
next
  fix m n m' e
  show "poll_read mock_ops m n = (m', Ready (Inl e)) \<Longrightarrow> script_bytes (script m') = script_bytes (script m)"
    by (auto simp: mock_ops_def simp del: mock_poll_read.simps elim!: mock_read_cases)
next
  fix m n
  show "sent (fst (poll_read mock_ops m n)) = sent m"
    by (auto simp: mock_ops_def split: list.splits mock_read.splits)
qed (auto simp: mock_ops_def mock_write_def Let_def)

interpretation rewind: transport "rewind_ops mock_ops" "rewind_unread (\<lambda>m. script_bytes (script m))"
  "\<lambda>r. True" "\<lambda>r. sent (inner r)"
  by (rule mock.rewind_transport)

end
