(* ===== verification/H1_Io.thy ===== *)
theory H1_Io
  imports Transport H1_Encode
begin

text \<open>
  The buffered transport of an HTTP/1 connection (\<^verbatim>\<open>src/src/core/proto/h1/io.rs\<close>): the adaptive
  size of reads, the write buffer in its two strategies, and \<^verbatim>\<open>Buffered\<close> itself with its reading
  and flushing. The transport is a parameter \<open>T\<close> (theory Transport), the buffer type of the body a
  parameter \<open>B\<close> (theory Buf), and the allocator's choice of capacities a parameter \<open>grow\<close>.

  The loops of \<^verbatim>\<open>poll_flush\<close> call the transport an unknown number of times, so they are partial
  functions whose result is \<^const>\<open>None\<close> when they never return; for every conforming transport they
  return.
\<close>

section \<open>Read strategy\<close>

definition INIT_BUFFER_SIZE :: nat where
  "INIT_BUFFER_SIZE = 8192"

definition MINIMUM_MAX_BUFFER_SIZE :: nat where
  "MINIMUM_MAX_BUFFER_SIZE = INIT_BUFFER_SIZE"

definition DEFAULT_MAX_BUFFER_SIZE :: nat where
  "DEFAULT_MAX_BUFFER_SIZE = 8192 + 4096 * 100"

definition MAX_BUF_LIST_BUFFERS :: nat where
  "MAX_BUF_LIST_BUFFERS = 16"

definition usize_max :: nat where
  "usize_max = 2 ^ 64 - 1"

datatype ReadStrategy =
    Adaptive bool nat nat \<comment> \<open>decrease_now, next, max\<close>
  | ExactSize nat

definition with_max :: "nat \<Rightarrow> ReadStrategy" where
  "with_max mx = Adaptive False INIT_BUFFER_SIZE mx"

fun strategy_next :: "ReadStrategy \<Rightarrow> nat" where
  "strategy_next (Adaptive d next mx) = next"
| "strategy_next (ExactSize exact) = exact"

fun strategy_max :: "ReadStrategy \<Rightarrow> nat" where
  "strategy_max (Adaptive d next mx) = mx"
| "strategy_max (ExactSize exact) = exact"

text \<open>\<^verbatim>\<open>usize::leading_zeros\<close> through the number of binary digits.\<close>

fun bit_len :: "nat \<Rightarrow> nat" where
  "bit_len n = (if n = 0 then 0 else Suc (bit_len (n div 2)))"

declare bit_len.simps [simp del]

definition leading_zeros :: "nat \<Rightarrow> nat" where
  "leading_zeros n = 64 - bit_len n"

definition incr_power_of_two :: "nat \<Rightarrow> nat" where
  "incr_power_of_two n = min (n * 2) usize_max"

definition prev_power_of_two :: "nat \<Rightarrow> nat" where
  "prev_power_of_two n = drop_bit (leading_zeros n + 2) usize_max + 1"

fun strategy_record :: "ReadStrategy \<Rightarrow> nat \<Rightarrow> ReadStrategy" where
  "strategy_record (Adaptive decrease_now next mx) bytes_read =
     (if bytes_read \<ge> next then Adaptive False (min (incr_power_of_two next) mx) mx
      else let decr_to = prev_power_of_two next
           in if bytes_read < decr_to
              then if decrease_now then Adaptive False (max decr_to INIT_BUFFER_SIZE) mx
                   else Adaptive True next mx
              else Adaptive False next mx)"
| "strategy_record (ExactSize n) bytes_read = ExactSize n"

definition default_strategy :: ReadStrategy where
  "default_strategy = with_max DEFAULT_MAX_BUFFER_SIZE"

section \<open>Write buffer\<close>

datatype WriteStrategy = Flatten | Queue

record 'b WriteBuf =
  wb_headers :: cursor
  wb_max_buf_size :: nat
  wb_queue :: "'b BufList"
  wb_strategy :: WriteStrategy

definition writebuf_new :: "WriteStrategy \<Rightarrow> 'b WriteBuf" where
  "writebuf_new s = \<lparr>wb_headers = cursor_new [] INIT_BUFFER_SIZE,
     wb_max_buf_size = DEFAULT_MAX_BUFFER_SIZE, wb_queue = buflist_new, wb_strategy = s\<rparr>"

definition set_strategy :: "'b WriteBuf \<Rightarrow> WriteStrategy \<Rightarrow> 'b WriteBuf" where
  "set_strategy w s = w\<lparr>wb_strategy := s\<rparr>"

text \<open>The loop of the flatten branch: copy the current chunk until there is none.\<close>

partial_function (option) flatten_into ::
  "(nat \<Rightarrow> nat \<Rightarrow> nat) \<Rightarrow> ('b, 'z) buf_ops_scheme \<Rightarrow> cursor \<Rightarrow> 'b \<Rightarrow> (io_error + cursor) option" where
  "flatten_into grow B head buf =
     (let piece = buf_chunk B buf
      in if piece = [] then Some (Inr head)
         else let head' = cursor_extend grow head piece
              in case buf_advance B buf (length piece) of
                   None \<Rightarrow> Some (Inl (Panicked ''advance''))
                 | Some buf' \<Rightarrow> flatten_into grow B head' buf')"

definition writebuf_buffer ::
  "(nat \<Rightarrow> nat \<Rightarrow> nat) \<Rightarrow> ('b, 'z) buf_ops_scheme \<Rightarrow> 'b WriteBuf \<Rightarrow> 'b \<Rightarrow> (io_error + 'b WriteBuf) option" where
  "writebuf_buffer grow B w buf =
     (case wb_strategy w of
        Flatten \<Rightarrow>
          (let head = maybe_unshift (wb_headers w) (buf_remaining B buf)
           in map_option (map_sum id (\<lambda>head'. w\<lparr>wb_headers := head'\<rparr>)) (flatten_into grow B head buf))
      | Queue \<Rightarrow> Some (Inr (w\<lparr>wb_queue := buflist_push (wb_queue w) buf\<rparr>)))"

definition writebuf_remaining :: "('b, 'z) buf_ops_scheme \<Rightarrow> 'b WriteBuf \<Rightarrow> nat" where
  "writebuf_remaining B w = cursor_remaining (wb_headers w) + buflist_remaining B (wb_queue w)"

definition writebuf_can_buffer :: "('b, 'z) buf_ops_scheme \<Rightarrow> 'b WriteBuf \<Rightarrow> bool" where
  "writebuf_can_buffer B w =
     (case wb_strategy w of
        Flatten \<Rightarrow> writebuf_remaining B w < wb_max_buf_size w
      | Queue \<Rightarrow> bufs_cnt (wb_queue w) < MAX_BUF_LIST_BUFFERS \<and>
                 writebuf_remaining B w < wb_max_buf_size w)"

definition writebuf_chunk :: "('b, 'z) buf_ops_scheme \<Rightarrow> 'b WriteBuf \<Rightarrow> bytes" where
  "writebuf_chunk B w =
     (let hs = cursor_chunk (wb_headers w)
      in if hs \<noteq> [] then hs else buflist_chunk B (wb_queue w))"

definition writebuf_advance :: "('b, 'z) buf_ops_scheme \<Rightarrow> 'b WriteBuf \<Rightarrow> nat \<Rightarrow> 'b WriteBuf option" where
  "writebuf_advance B w cnt =
     (let hrem = cursor_remaining (wb_headers w)
      in if hrem = cnt then Some (w\<lparr>wb_headers := cursor_reset (wb_headers w)\<rparr>)
         else if hrem > cnt
         then map_option (\<lambda>h. w\<lparr>wb_headers := h\<rparr>) (cursor_advance (wb_headers w) cnt)
         else map_option (\<lambda>q. w\<lparr>wb_headers := cursor_reset (wb_headers w), wb_queue := q\<rparr>)
                (buflist_advance B (wb_queue w) (cnt - hrem)))"

definition writebuf_chunks_vectored :: "('b, 'z) buf_ops_scheme \<Rightarrow> 'b WriteBuf \<Rightarrow> nat \<Rightarrow> bytes list" where
  "writebuf_chunks_vectored B w n =
     (let v = chunks_vectored_default (cursor_chunk (wb_headers w)) n
      in v @ buflist_chunks_vectored B (wb_queue w) (n - length v))"

definition writebuf_ops :: "('b, 'z) buf_ops_scheme \<Rightarrow> 'b WriteBuf buf_ops" where
  "writebuf_ops B = \<lparr>buf_remaining = writebuf_remaining B, buf_chunk = writebuf_chunk B,
     buf_advance = writebuf_advance B, buf_chunks_vectored = writebuf_chunks_vectored B\<rparr>"

section \<open>Buffered\<close>

text \<open>The \<^verbatim>\<open>BytesMut\<close> of the read side is its bytes and its capacity.\<close>

record ('t, 'b) Buffered =
  flush_pipeline :: bool
  bio :: 't
  partial_len :: "nat option"
  read_blocked :: bool
  read_buf :: bytes
  read_buf_cap :: nat
  read_buf_strategy :: ReadStrategy
  write_buf :: "'b WriteBuf"

definition buffered_new :: "('t, 'z) transport_ops_scheme \<Rightarrow> 't \<Rightarrow> ('t, 'b) Buffered" where
  "buffered_new T t =
     \<lparr>flush_pipeline = False, bio = t, partial_len = None, read_blocked = False,
      read_buf = [], read_buf_cap = 0, read_buf_strategy = default_strategy,
      write_buf = writebuf_new (if is_write_vectored T t then Queue else Flatten)\<rparr>"

text \<open>The \<^verbatim>\<open>assert!\<close> of \<^verbatim>\<open>set_max_buf_size\<close> is the \<^const>\<open>None\<close> case.\<close>

definition set_max_buf_size :: "('t, 'b) Buffered \<Rightarrow> nat \<Rightarrow> ('t, 'b) Buffered option" where
  "set_max_buf_size b mx =
     (if mx \<ge> MINIMUM_MAX_BUFFER_SIZE
      then Some (b\<lparr>read_buf_strategy := with_max mx,
                   write_buf := (write_buf b)\<lparr>wb_max_buf_size := mx\<rparr>\<rparr>)
      else None)"

definition set_read_buf_exact_size :: "('t, 'b) Buffered \<Rightarrow> nat \<Rightarrow> ('t, 'b) Buffered" where
  "set_read_buf_exact_size b sz = b\<lparr>read_buf_strategy := ExactSize sz\<rparr>"

definition set_write_strategy_flatten :: "('t, 'b) Buffered \<Rightarrow> ('t, 'b) Buffered" where
  "set_write_strategy_flatten b = b\<lparr>write_buf := set_strategy (write_buf b) Flatten\<rparr>"

definition set_write_strategy_queue :: "('t, 'b) Buffered \<Rightarrow> ('t, 'b) Buffered" where
  "set_write_strategy_queue b = b\<lparr>write_buf := set_strategy (write_buf b) Queue\<rparr>"

definition read_buf_remaining_mut :: "('t, 'b) Buffered \<Rightarrow> nat" where
  "read_buf_remaining_mut b = read_buf_cap b - length (read_buf b)"

definition can_headers_buf :: "('b, 'z) buf_ops_scheme \<Rightarrow> ('t, 'b) Buffered \<Rightarrow> bool" where
  "can_headers_buf B b \<longleftrightarrow> \<not> buflist_remaining B (wb_queue (write_buf b)) > 0"

text \<open>Appending to \<^verbatim>\<open>headers_buf()\<close>, the way the head of a message is written.\<close>

definition headers_buf_extend ::
  "(nat \<Rightarrow> nat \<Rightarrow> nat) \<Rightarrow> ('t, 'b) Buffered \<Rightarrow> bytes \<Rightarrow> ('t, 'b) Buffered" where
  "headers_buf_extend grow b bs =
     b\<lparr>write_buf := (write_buf b)\<lparr>wb_headers := cursor_extend grow (wb_headers (write_buf b)) bs\<rparr>\<rparr>"

definition buffered_buffer ::
  "(nat \<Rightarrow> nat \<Rightarrow> nat) \<Rightarrow> ('b, 'z) buf_ops_scheme \<Rightarrow> ('t, 'b) Buffered \<Rightarrow> 'b \<Rightarrow>
   (io_error + ('t, 'b) Buffered) option" where
  "buffered_buffer grow B b buf =
     map_option (map_sum id (\<lambda>w. b\<lparr>write_buf := w\<rparr>)) (writebuf_buffer grow B (write_buf b) buf)"

definition buffered_can_buffer :: "('b, 'z) buf_ops_scheme \<Rightarrow> ('t, 'b) Buffered \<Rightarrow> bool" where
  "buffered_can_buffer B b \<longleftrightarrow> flush_pipeline b \<or> writebuf_can_buffer B (write_buf b)"

text \<open>\<^verbatim>\<open>BytesMut::advance\<close> and \<^verbatim>\<open>split_to\<close> give up the front of the allocation.\<close>

definition read_buf_advance :: "('t, 'b) Buffered \<Rightarrow> nat \<Rightarrow> ('t, 'b) Buffered" where
  "read_buf_advance b i = b\<lparr>read_buf := drop i (read_buf b), read_buf_cap := read_buf_cap b - i\<rparr>"

text \<open>The scan of \<^verbatim>\<open>consume_leading_lines\<close>: the number of leading line-end bytes.\<close>

fun leading_lines :: "bytes \<Rightarrow> nat" where
  "leading_lines [] = 0"
| "leading_lines (c # cs) = (if c = CR \<or> c = LF then Suc (leading_lines cs) else 0)"

definition consume_leading_lines :: "('t, 'b) Buffered \<Rightarrow> ('t, 'b) Buffered" where
  "consume_leading_lines b =
     (if read_buf b \<noteq> [] then read_buf_advance b (leading_lines (read_buf b)) else b)"

text \<open>
  \<^verbatim>\<open>poll_read_from_io\<close>. \<^verbatim>\<open>BytesMut::reserve\<close> makes room for \<^verbatim>\<open>next\<close> more bytes;
  \<^verbatim>\<open>BytesMut::chunk_mut\<close> gives the spare capacity, after reserving 64 bytes when there is none.
\<close>

definition reserve_for_read :: "(nat \<Rightarrow> nat \<Rightarrow> nat) \<Rightarrow> ('t, 'b) Buffered \<Rightarrow> ('t, 'b) Buffered" where
  "reserve_for_read grow b =
     (let next = strategy_next (read_buf_strategy b);
          len = length (read_buf b);
          b2 = (if read_buf_remaining_mut b < next
                then b\<lparr>read_buf_cap := grow_to grow (read_buf_cap b) (len + next)\<rparr> else b)
      in if read_buf_cap b2 \<le> len
         then b2\<lparr>read_buf_cap := grow_to grow (read_buf_cap b2) (len + 64)\<rparr> else b2)"

definition poll_read_from_io ::
  "('t, 'z) transport_ops_scheme \<Rightarrow> (nat \<Rightarrow> nat \<Rightarrow> nat) \<Rightarrow> ('t, 'b) Buffered \<Rightarrow>
   ('t, 'b) Buffered \<times> nat io_result poll" where
  "poll_read_from_io T grow b0 =
     (let b = reserve_for_read grow (b0\<lparr>read_blocked := False\<rparr>)
      in case poll_read T (bio b) (read_buf_remaining_mut b) of
           (t', Ready (Inr bs)) \<Rightarrow>
             (b\<lparr>bio := t', read_buf := read_buf b @ bs,
                read_buf_strategy := strategy_record (read_buf_strategy b) (length bs)\<rparr>,
              Ready (Inr (length bs)))
         | (t', Pending) \<Rightarrow> (b\<lparr>bio := t', read_blocked := True\<rparr>, Pending)
         | (t', Ready (Inl e)) \<Rightarrow> (b\<lparr>bio := t'\<rparr>, Ready (Inl e)))"

definition buffered_into_inner :: "('t, 'b) Buffered \<Rightarrow> 't \<times> bytes" where
  "buffered_into_inner b = (bio b, read_buf b)"

definition is_read_blocked :: "('t, 'b) Buffered \<Rightarrow> bool" where
  "is_read_blocked b = read_blocked b"

text \<open>The \<^verbatim>\<open>split_to(n)\<close> and \<^verbatim>\<open>freeze\<close> of both branches of \<^verbatim>\<open>read_mem\<close>.\<close>

definition buffered_split_to :: "('t, 'b) Buffered \<Rightarrow> nat \<Rightarrow> ('t, 'b) Buffered \<times> bytes io_result poll" where
  "buffered_split_to b n = (read_buf_advance b n, Ready (Inr (take n (read_buf b))))"

definition buffered_read_mem ::
  "('t, 'z) transport_ops_scheme \<Rightarrow> (nat \<Rightarrow> nat \<Rightarrow> nat) \<Rightarrow> ('t, 'b) Buffered read_mem" where
  "buffered_read_mem T grow b len =
     (if read_buf b \<noteq> [] then buffered_split_to b (min len (length (read_buf b)))
      else case poll_read_from_io T grow b of
             (b', Ready (Inr n)) \<Rightarrow> buffered_split_to b' (min len n)
           | (b', Ready (Inl e)) \<Rightarrow> (b', Ready (Inl e))
           | (b', Pending) \<Rightarrow> (b', Pending))"

text \<open>Flushing. \<^verbatim>\<open>flush_io\<close> is the flush of the transport at the end of each branch.\<close>

type_synonym ('t, 'b) flush_result = "(('t, 'b) Buffered \<times> unit io_result poll) option"

definition flush_io :: "('t, 'z) transport_ops_scheme \<Rightarrow> ('t, 'b) Buffered \<Rightarrow> ('t, 'b) Buffered \<times> unit io_result poll" where
  "flush_io T b = (case poll_flush T (bio b) of (t', r) \<Rightarrow> (b\<lparr>bio := t'\<rparr>, r))"

partial_function (option) poll_flush_flattened ::
  "('t, 'z) transport_ops_scheme \<Rightarrow> ('t, 'b) Buffered \<Rightarrow> ('t, 'b) flush_result" where
  "poll_flush_flattened T b =
     (case poll_write T (bio b) (cursor_chunk (wb_headers (write_buf b))) of
        (t', Pending) \<Rightarrow> Some (b\<lparr>bio := t'\<rparr>, Pending)
      | (t', Ready (Inl e)) \<Rightarrow> Some (b\<lparr>bio := t'\<rparr>, Ready (Inl e))
      | (t', Ready (Inr n)) \<Rightarrow>
          (case cursor_advance (wb_headers (write_buf b)) n of
             None \<Rightarrow> Some (b\<lparr>bio := t'\<rparr>, Ready (Inl (Panicked ''advance'')))
           | Some h \<Rightarrow>
               (let b' = b\<lparr>bio := t', write_buf := (write_buf b)\<lparr>wb_headers := h\<rparr>\<rparr>
                in if cursor_remaining h = 0
                   then Some (flush_io T (b'\<lparr>write_buf := (write_buf b')\<lparr>wb_headers := cursor_reset h\<rparr>\<rparr>))
                   else if n = 0 then Some (b', Ready (Inl (IoError WriteZero [])))
                   else poll_flush_flattened T b')))"

definition MAX_WRITEV_BUFS :: nat where
  "MAX_WRITEV_BUFS = 64"

partial_function (option) poll_flush_vectored ::
  "('t, 'z) transport_ops_scheme \<Rightarrow> ('b, 'y) buf_ops_scheme \<Rightarrow> ('t, 'b) Buffered \<Rightarrow> ('t, 'b) flush_result" where
  "poll_flush_vectored T B b =
     (case poll_write_vectored T (bio b) (writebuf_chunks_vectored B (write_buf b) MAX_WRITEV_BUFS) of
        (t', Pending) \<Rightarrow> Some (b\<lparr>bio := t'\<rparr>, Pending)
      | (t', Ready (Inl e)) \<Rightarrow> Some (b\<lparr>bio := t'\<rparr>, Ready (Inl e))
      | (t', Ready (Inr n)) \<Rightarrow>
          (case writebuf_advance B (write_buf b) n of
             None \<Rightarrow> Some (b\<lparr>bio := t'\<rparr>, Ready (Inl (Panicked ''advance'')))
           | Some w \<Rightarrow>
               (let b' = b\<lparr>bio := t', write_buf := w\<rparr>
                in if writebuf_remaining B w = 0 then Some (flush_io T b')
                   else if n = 0 then Some (b', Ready (Inl (IoError WriteZero [])))
                   else poll_flush_vectored T B b')))"

definition buffered_poll_flush ::
  "('t, 'z) transport_ops_scheme \<Rightarrow> ('b, 'y) buf_ops_scheme \<Rightarrow> ('t, 'b) Buffered \<Rightarrow> ('t, 'b) flush_result" where
  "buffered_poll_flush T B b =
     (if flush_pipeline b \<and> read_buf b \<noteq> [] then Some (b, Ready (Inr ()))
      else if writebuf_remaining B (write_buf b) = 0 then Some (flush_io T b)
      else case wb_strategy (write_buf b) of
             Flatten \<Rightarrow> poll_flush_flattened T b
           | Queue \<Rightarrow> poll_flush_vectored T B b)"

section \<open>The size of reads\<close>

lemma bit_len_bounds: "0 < n \<Longrightarrow> 2 ^ (bit_len n - 1) \<le> n \<and> n < 2 ^ bit_len n"
proof (induction n rule: bit_len.induct)
  case (1 n)
  show ?case
  proof (cases "n = 1")
    case True
    moreover have "bit_len 1 = 1" by code_simp
    ultimately show ?thesis by simp
  next
    case False
    with 1 have "2 ^ (bit_len (n div 2) - 1) \<le> n div 2" and "n div 2 < 2 ^ bit_len (n div 2)"
      by auto
    moreover from this(1) False 1(2) have "bit_len (n div 2) \<noteq> 0"
      by (cases "bit_len (n div 2)") (auto simp: bit_len.simps [of "n div 2"])
    moreover have "bit_len n = Suc (bit_len (n div 2))"
      using 1(2) by (simp add: bit_len.simps [of n])
    ultimately show ?thesis
      by (cases "bit_len (n div 2)") auto
  qed
qed

lemma bit_len_le: "n < 2 ^ k \<Longrightarrow> bit_len n \<le> k"
proof (cases "n = 0")
  case False
  assume "n < 2 ^ k"
  with False bit_len_bounds [of n] have "2 ^ (bit_len n - 1) < (2::nat) ^ k" by linarith
  then show ?thesis by (simp add: power_strict_increasing_iff)
qed (simp add: bit_len.simps)

lemma bit_len_ge:
  assumes "2 ^ k \<le> n"
  shows "Suc k \<le> bit_len n"
proof -
  have "0 < n" using assms by (cases n) auto
  then have "(2::nat) ^ k < 2 ^ bit_len n" using assms bit_len_bounds [of n] by linarith
  then show ?thesis by (simp add: power_strict_increasing_iff)
qed

lemma usize_max_shift: "m \<le> 64 \<Longrightarrow> drop_bit m usize_max + 1 = 2 ^ (64 - m)"
proof -
  assume m: "m \<le> 64"
  have e: "(2::nat) ^ 64 = 2 ^ (64 - m) * 2 ^ m" using m by (simp flip: power_add)
  have "usize_max div 2 ^ m = 2 ^ (64 - m) - 1"
  proof (rule div_nat_eqI)
    show "2 ^ m * (2 ^ (64 - m) - 1) \<le> usize_max"
      unfolding usize_max_def e by (simp add: diff_mult_distrib2 mult.commute diff_le_mono2)
    show "usize_max < 2 ^ m * Suc (2 ^ (64 - m) - 1)"
      unfolding usize_max_def e by (simp add: mult.commute)
  qed
  then show ?thesis by (simp add: drop_bit_eq_div)
qed

text \<open>For every size the strategy can hold, \<^const>\<open>prev_power_of_two\<close> is the power of two below the
  highest one not exceeding it.\<close>

lemma prev_power_of_two_eq:
  assumes "4 \<le> n" and "n \<le> usize_max"
  shows "prev_power_of_two n = 2 ^ (bit_len n - 2)" and "2 * prev_power_of_two n \<le> n"
    and "n < 4 * prev_power_of_two n"
proof -
  have b: "bit_len n \<le> 64" "3 \<le> bit_len n"
    using bit_len_le [of n 64] bit_len_ge [of 2 n] assms by (auto simp: usize_max_def)
  then show eq: "prev_power_of_two n = 2 ^ (bit_len n - 2)"
    using usize_max_shift [of "leading_zeros n + 2"] by (simp add: prev_power_of_two_def leading_zeros_def)
  have "(2::nat) * 2 ^ (bit_len n - 2) = 2 ^ (bit_len n - 1)" "(4::nat) * 2 ^ (bit_len n - 2) = 2 ^ bit_len n"
    using b by (simp_all add: power_eq_if numeral_eq_Suc) 
  then show "2 * prev_power_of_two n \<le> n" "n < 4 * prev_power_of_two n"
    using bit_len_bounds [of n] assms by (auto simp: eq)
qed

fun strategy_inv :: "ReadStrategy \<Rightarrow> bool" where
  "strategy_inv (Adaptive d next mx) \<longleftrightarrow> INIT_BUFFER_SIZE \<le> next \<and> next \<le> mx \<and> mx \<le> usize_max"
| "strategy_inv (ExactSize n) \<longleftrightarrow> True"

lemma strategy_inv_with_max [wf_intros]:
  "MINIMUM_MAX_BUFFER_SIZE \<le> mx \<Longrightarrow> mx \<le> usize_max \<Longrightarrow> strategy_inv (with_max mx)"
  by (simp add: with_max_def MINIMUM_MAX_BUFFER_SIZE_def)

lemma strategy_inv_record [wf_intros]:
  assumes "strategy_inv s"
  shows "strategy_inv (strategy_record s n)"
proof (cases s)
  case (Adaptive d nx mx)
  with assms have b: "INIT_BUFFER_SIZE \<le> nx" "nx \<le> mx" "mx \<le> usize_max" by auto
  then have "2 * prev_power_of_two nx \<le> nx"
    by (intro prev_power_of_two_eq(2)) (simp_all add: INIT_BUFFER_SIZE_def)
  with b show ?thesis using Adaptive
    by (auto simp: Let_def incr_power_of_two_def)
qed simp

section \<open>The write buffer is a buffer\<close>

context elem_buf
begin

definition writebuf_contents :: "'b WriteBuf \<Rightarrow> bytes" where
  "writebuf_contents w = cursor_chunk (wb_headers w) @ buflist_contents (wb_queue w)"

definition writebuf_wf :: "'b WriteBuf \<Rightarrow> bool" where
  "writebuf_wf w \<longleftrightarrow> cursor_wf (wb_headers w) \<and> buflist_wf (wb_queue w) \<and>
     (wb_strategy w = Flatten \<longrightarrow> wb_queue w = [])"

lemma writebuf_wf_new: "writebuf_wf (writebuf_new s)"
  by (auto simp: writebuf_wf_def writebuf_new_def buflist_new_def intro: wf_intros)

lemma writebuf_remaining_length:
  "writebuf_wf w \<Longrightarrow> writebuf_remaining B w = length (writebuf_contents w)"
  by (simp add: writebuf_wf_def writebuf_remaining_def writebuf_contents_def cursor_remaining_chunk
      buflist_remaining_length)

lemma writebuf_advance_drop:
  assumes "writebuf_wf w" and "n \<le> length (writebuf_contents w)"
  shows "\<exists>w'. writebuf_advance B w n = Some w' \<and> writebuf_wf w' \<and>
    writebuf_contents w' = drop n (writebuf_contents w)"
proof -
  have wf: "cursor_wf (wb_headers w)" "buflist_wf (wb_queue w)"
    using assms(1) by (auto simp: writebuf_wf_def)
  have strat: "wb_strategy w = Flatten \<Longrightarrow> wb_queue w = []"
    using assms(1) by (simp add: writebuf_wf_def)
  let ?h = "length (cursor_chunk (wb_headers w))"
  consider "?h = n" | "?h > n" | "?h < n" by linarith
  then show ?thesis
  proof cases
    case 1
    with assms(1) show ?thesis
      by (auto simp: writebuf_advance_def cursor_remaining_chunk writebuf_wf_def writebuf_contents_def
          intro: wf_intros)
  next
    case 2
    then obtain c where "cursor_advance (wb_headers w) n = Some c" "cursor_wf c"
      "cursor_chunk c = drop n (cursor_chunk (wb_headers w))"
      using cursor_advance_Some [OF wf(1), of n] by auto
    with 2 wf strat show ?thesis
      by (auto simp: writebuf_advance_def cursor_remaining_chunk writebuf_wf_def writebuf_contents_def)
  next
    case 3
    have "n - ?h \<le> length (buflist_contents (wb_queue w))"
      using assms(2) by (simp add: writebuf_contents_def)
    then obtain q where "buflist_advance B (wb_queue w) (n - ?h) = Some q" "buflist_wf q"
      "buflist_contents q = drop (n - ?h) (buflist_contents (wb_queue w))"
      using buflist_advance_drop [OF wf(2)] by blast
    moreover from this(1) 3 strat have "wb_strategy w = Flatten \<Longrightarrow> q = []"
      by (cases "n - ?h") auto
    ultimately show ?thesis using 3
      by (auto simp: writebuf_advance_def cursor_remaining_chunk writebuf_wf_def writebuf_contents_def
          intro: wf_intros)
  qed
qed

lemma writebuf_vectored:
  assumes "writebuf_wf w"
  shows "vectored_of (writebuf_chunks_vectored B w) (writebuf_contents w)"
proof -
  have "vectored_of (buflist_chunks_vectored B (wb_queue w)) (buflist_contents (wb_queue w))"
    using buflist_vectored assms by (auto simp: vectored_of_def writebuf_wf_def)
  from vectored_of_chain [OF vectored_of_default this, of "cursor_chunk (wb_headers w)"]
  have "vectored_of (chain_vectored (chunks_vectored_default (cursor_chunk (wb_headers w)))
    (buflist_chunks_vectored B (wb_queue w))) (writebuf_contents w)"
    by (simp add: writebuf_contents_def)
  then show ?thesis
    by (simp add: chain_vectored_def [abs_def] writebuf_chunks_vectored_def [abs_def] Let_def)
qed

end

sublocale elem_buf \<subseteq> writebuf: buf_laws "writebuf_ops B" writebuf_contents writebuf_wf
proof
  fix w n
  assume wf: "writebuf_wf w"
  show "buf_remaining (writebuf_ops B) w = length (writebuf_contents w)"
    using writebuf_remaining_length [OF wf] by (simp add: writebuf_ops_def)
  show "prefix (buf_chunk (writebuf_ops B) w) (writebuf_contents w)"
    and "buf_chunk (writebuf_ops B) w = [] \<Longrightarrow> writebuf_contents w = []"
    using wf buflist.chunk_prefix [of "wb_queue w"] buflist.chunk_empty [of "wb_queue w"]
    by (auto simp: writebuf_ops_def buflist_ops_def writebuf_chunk_def writebuf_contents_def writebuf_wf_def
        Let_def split: if_splits)
  show "n \<le> length (writebuf_contents w) \<Longrightarrow> \<exists>w'. buf_advance (writebuf_ops B) w n = Some w' \<and>
      writebuf_wf w' \<and> writebuf_contents w' = drop n (writebuf_contents w)"
    using writebuf_advance_drop [OF wf] by (simp add: writebuf_ops_def)
qed (use writebuf_vectored in \<open>auto simp: writebuf_ops_def vectored_of_def\<close>)

context elem_buf
begin

lemma flatten_into_contents:
  assumes "wf b" and "cursor_wf head"
  shows "\<exists>head'. flatten_into grow B head b = Some (Inr head') \<and> cursor_wf head' \<and>
    cursor_chunk head' = cursor_chunk head @ contents b"
  using assms
proof (induction "length (contents b)" arbitrary: b head rule: less_induct)
  case less
  let ?c = "buf_chunk B b"
  show ?case
  proof (cases "?c = []")
    case True
    then show ?thesis using less.prems chunk_empty by (subst flatten_into.simps) simp
  next
    case False
    obtain t where t: "contents b = ?c @ t" using chunk_prefix [OF less.prems(1)] by (auto simp: prefix_def)
    then obtain b' where b': "buf_advance B b (length ?c) = Some b'" "wf b'" "contents b' = t"
      using advance [OF less.prems(1), of "length ?c"] by auto
    from False t b' have "length (contents b') < length (contents b)" by simp
    from less.hyps [OF this b'(2) cursor_wf_extend [OF less.prems(2)], of grow ?c] t False b' less.prems
    show ?thesis by (subst flatten_into.simps) (simp add: Let_def)
  qed
qed

text \<open>Buffering appends the bytes of the buffer, in either strategy.\<close>

lemma writebuf_buffer_contents:
  assumes "writebuf_wf w" and "wf b" and "contents b \<noteq> []"
  shows "\<exists>w'. writebuf_buffer grow B w b = Some (Inr w') \<and> writebuf_wf w' \<and>
    writebuf_contents w' = writebuf_contents w @ contents b \<and> wb_strategy w' = wb_strategy w"
proof (cases "wb_strategy w")
  case Flatten
  let ?head = "maybe_unshift (wb_headers w) (buf_remaining B b)"
  have "cursor_wf ?head" using assms(1) by (auto simp: writebuf_wf_def intro: wf_intros)
  then obtain h where "flatten_into grow B ?head b = Some (Inr h)" "cursor_wf h"
    "cursor_chunk h = cursor_chunk (wb_headers w) @ contents b"
    using flatten_into_contents [OF assms(2), of ?head grow] by auto
  with Flatten assms(1) show ?thesis
    by (simp add: writebuf_buffer_def Let_def writebuf_wf_def writebuf_contents_def)
next
  case Queue
  with assms show ?thesis
    by (auto simp: writebuf_buffer_def writebuf_wf_def writebuf_contents_def buflist_push_contents
        intro: buflist_push_wf)
qed

end

section \<open>Reading\<close>

definition buffered_stream :: "('t \<Rightarrow> bytes) \<Rightarrow> ('t, 'b) Buffered \<Rightarrow> bytes" where
  "buffered_stream unread b = read_buf b @ unread (bio b)"

lemma reserve_for_read_sel [simp]:
  "bio (reserve_for_read grow b) = bio b" "read_buf (reserve_for_read grow b) = read_buf b"
  "write_buf (reserve_for_read grow b) = write_buf b" "partial_len (reserve_for_read grow b) = partial_len b"
  "flush_pipeline (reserve_for_read grow b) = flush_pipeline b"
  "read_blocked (reserve_for_read grow b) = read_blocked b"
  "read_buf_strategy (reserve_for_read grow b) = read_buf_strategy b"
  by (simp_all add: reserve_for_read_def Let_def)

lemma reserve_for_read_room: "0 < read_buf_remaining_mut (reserve_for_read grow b)"
proof -
  have "length (read_buf b) < grow_to grow c (length (read_buf b) + 64)" for c
    using grow_to_ge [of "length (read_buf b) + 64" grow c] by simp
  then show ?thesis by (simp add: reserve_for_read_def read_buf_remaining_mut_def Let_def)
qed

context transport
begin

text \<open>One read from the transport appends to the read buffer and touches nothing else.\<close>

lemma poll_read_from_io_cases:
  assumes "tinv (bio b)" and "poll_read_from_io T grow b = (b', res)"
  shows "buffered_stream unread b' = buffered_stream unread b" and "tinv (bio b')"
    and "write_buf b' = write_buf b" and "written (bio b') = written (bio b)"
    and "partial_len b' = partial_len b" and "flush_pipeline b' = flush_pipeline b"
    and "case res of Ready (Inr n) \<Rightarrow> length (read_buf b') = length (read_buf b) + n \<and>
           take (length (read_buf b)) (read_buf b') = read_buf b \<and> (n = 0 \<longrightarrow> unread (bio b) = [])
         | _ \<Rightarrow> read_buf b' = read_buf b"
    and "read_blocked b' \<longleftrightarrow> res = Pending"
proof -
  define b1 where "b1 = reserve_for_read grow (b\<lparr>read_blocked := False\<rparr>)"
  have sel: "bio b1 = bio b" "read_buf b1 = read_buf b" "write_buf b1 = write_buf b"
    "partial_len b1 = partial_len b" "flush_pipeline b1 = flush_pipeline b" "\<not> read_blocked b1"
    by (simp_all add: b1_def)
  have pos: "0 < read_buf_remaining_mut b1" by (simp add: b1_def reserve_for_read_room)
  note laws = rd.read_data [OF assms(1)] rd.read_eof [OF assms(1) _ pos] rd.read_pending [OF assms(1)]
    rd.read_error [OF assms(1)] rd.read_invar [OF assms(1), of "read_buf_remaining_mut b1"]
    read_written [OF assms(1), of "read_buf_remaining_mut b1"]
  note eq = assms(2) [unfolded poll_read_from_io_def, folded b1_def, unfolded Let_def sel(1)]
  show "buffered_stream unread b' = buffered_stream unread b" and "tinv (bio b')"
    and "write_buf b' = write_buf b" and "written (bio b') = written (bio b)"
    and "partial_len b' = partial_len b" and "flush_pipeline b' = flush_pipeline b"
    and "case res of Ready (Inr n) \<Rightarrow> length (read_buf b') = length (read_buf b) + n \<and>
           take (length (read_buf b)) (read_buf b') = read_buf b \<and> (n = 0 \<longrightarrow> unread (bio b) = [])
         | _ \<Rightarrow> read_buf b' = read_buf b"
    and "read_blocked b' \<longleftrightarrow> res = Pending"
    using eq laws sel by (auto simp: buffered_stream_def split: prod.splits poll.splits sum.splits)
qed

lemma buffered_split_to_stream:
  "buffered_split_to b n = (b', Ready (Inr bs)) \<Longrightarrow> n \<le> length (read_buf b) \<Longrightarrow>
   buffered_stream unread b = bs @ buffered_stream unread b' \<and> length bs = n \<and> bio b' = bio b"
  by (auto simp: buffered_split_to_def read_buf_advance_def buffered_stream_def)

text \<open>The buffered transport delivers the transport's bytes: it is a reader in the sense of the
  decoders, for every transport and every allocator.\<close>

lemma buffered_mem_read:
  "mem_read (buffered_read_mem T grow) (buffered_stream unread) (\<lambda>b. tinv (bio b))"
proof unfold_locales
  fix b b' :: "('t, 'b) Buffered" and n bs e
  assume inv: "tinv (bio b)"
  obtain b1 r1 where p: "poll_read_from_io T grow b = (b1, r1)" by fastforce
  note io = poll_read_from_io_cases [OF inv p]
  note split = prod.splits poll.splits sum.splits
  show "buffered_read_mem T grow b n = (b', Ready (Inr bs)) \<Longrightarrow>
      buffered_stream unread b = bs @ buffered_stream unread b' \<and> length bs \<le> n"
    using io p buffered_split_to_stream [of b "min n (length (read_buf b))" b' bs]
      buffered_split_to_stream [of b1 _ b' bs]
    by (auto simp: buffered_read_mem_def split: if_splits split)
  show "buffered_read_mem T grow b n = (b', Ready (Inr [])) \<Longrightarrow> 0 < n \<Longrightarrow> buffered_stream unread b = []"
    using io(1,7) p
    by (auto simp: buffered_read_mem_def buffered_split_to_def buffered_stream_def min_def
        split: if_splits split)
  show "buffered_read_mem T grow b n = (b', Pending) \<Longrightarrow> buffered_stream unread b' = buffered_stream unread b"
    and "buffered_read_mem T grow b n = (b', Ready (Inl e)) \<Longrightarrow> buffered_stream unread b' = buffered_stream unread b"
    using io p by (auto simp: buffered_read_mem_def buffered_split_to_def split: if_splits split)
  show "tinv (bio (fst (buffered_read_mem T grow b n)))"
    using io p inv
    by (auto simp: buffered_read_mem_def buffered_split_to_def read_buf_advance_def split: split)
qed

end

text \<open>Reading leaves the write side alone.\<close>

context transport
begin

lemma buffered_read_mem_frame:
  assumes "tinv (bio b)"
  shows "write_buf (fst (buffered_read_mem T grow b n)) = write_buf b \<and>
    written (bio (fst (buffered_read_mem T grow b n))) = written (bio b) \<and>
    flush_pipeline (fst (buffered_read_mem T grow b n)) = flush_pipeline b"
proof -
  obtain b1 r1 where p: "poll_read_from_io T grow b = (b1, r1)" by fastforce
  from poll_read_from_io_cases(3,4,6) [OF assms p] p show ?thesis
    by (auto simp: buffered_read_mem_def buffered_split_to_def read_buf_advance_def
        split: poll.splits sum.splits)
qed

lemma buffered_mem_read_frame:
  "mem_read (buffered_read_mem T grow) (buffered_stream unread)
     (\<lambda>b. tinv (bio b) \<and> write_buf b = w \<and> written (bio b) = x \<and> flush_pipeline b = p)"
  by (rule mem_read.with_frame [OF buffered_mem_read]) (auto simp: buffered_read_mem_frame)

end

section \<open>Flushing\<close>

text \<open>A transport and the buffers of a body together.\<close>

locale buffered_io = transport T unread tinv written + elem_buf B contents wf
  for T :: "('t, 'z) transport_ops_scheme" and unread tinv written
    and B :: "('b, 'y) buf_ops_scheme" and contents wf
begin

definition all_written :: "('t, 'b) Buffered \<Rightarrow> bytes" where
  "all_written b = written (bio b) @ writebuf_contents (write_buf b)"

text \<open>What a flush guarantees: it returns, no byte is lost, duplicated or reordered, the read side is
  as it was, and success means that everything has been handed to the transport.\<close>

definition flush_error :: "io_error \<Rightarrow> bool" where
  "flush_error e \<longleftrightarrow> e = IoError WriteZero [] \<or> (\<exists>t t'. tinv t \<and>
     (poll_flush T t = (t', Ready (Inl e)) \<or> (\<exists>bs. poll_write T t bs = (t', Ready (Inl e))) \<or>
      (\<exists>bss. poll_write_vectored T t bss = (t', Ready (Inl e)))))"

definition flushed :: "('t, 'b) Buffered \<Rightarrow> ('t, 'b) flush_result \<Rightarrow> bool" where
  "flushed b r \<longleftrightarrow> (\<exists>b' res. r = Some (b', res) \<and> all_written b' = all_written b \<and>
     writebuf_wf (write_buf b') \<and> tinv (bio b') \<and> read_buf b' = read_buf b \<and>
     flush_pipeline b' = flush_pipeline b \<and>
     (case res of Pending \<Rightarrow> True | Ready (Inl e) \<Rightarrow> flush_error e
      | Ready (Inr _) \<Rightarrow> writebuf_contents (write_buf b') = []))"

lemma flushed_io:
  assumes "tinv (bio b)" and "writebuf_wf (write_buf b)" and "writebuf_contents (write_buf b) = []"
  shows "flushed b (Some (flush_io T b))"
  using assms flush_written [OF assms(1)] flush_inv [OF assms(1)]
  by (auto simp: flushed_def flush_io_def all_written_def flush_error_def
      split: prod.splits poll.splits sum.splits)

text \<open>One write of the loops: the transport takes a prefix \<open>c\<close> of what is buffered and the buffer
  advances past it.\<close>

lemma flushed_step:
  assumes "flushed b' r" and "all_written b' = all_written b" and "read_buf b' = read_buf b"
    and "flush_pipeline b' = flush_pipeline b"
  shows "flushed b r"
  using assms by (simp add: flushed_def)

lemma poll_flush_vectored_flushed:
  assumes "tinv (bio b)" and "writebuf_wf (write_buf b)" and "writebuf_contents (write_buf b) \<noteq> []"
  shows "flushed b (poll_flush_vectored T B b)"
  using assms
proof (induction "length (writebuf_contents (write_buf b))" arbitrary: b rule: less_induct)
  case less
  let ?vs = "writebuf_chunks_vectored B (write_buf b) MAX_WRITEV_BUFS"
  obtain t r where wr: "poll_write_vectored T (bio b) ?vs = (t, r)" by fastforce
  have t: "tinv t" using write_vectored_inv [OF less.prems(1), of ?vs] wr by simp
  have acc: "accepts (written (bio b)) (concat ?vs) (written t) r"
    using write_vectored [OF less.prems(1) wr] .
  have err: "r = Ready (Inl e) \<Longrightarrow> flush_error e" for e
    using less.prems(1) wr by (auto simp: flush_error_def)
  obtain tl where pre: "writebuf_contents (write_buf b) = concat ?vs @ tl"
    using writebuf_vectored [OF less.prems(2)] by (auto simp: vectored_of_def prefix_def)
  consider "r = Pending" | e where "r = Ready (Inl e)" | n where "r = Ready (Inr n)"
    by (cases r) (auto, metis sum.exhaust)
  then show ?case
  proof cases
    case (3 n)
    with acc have n: "n \<le> length (concat ?vs)" "written t = written (bio b) @ take n (concat ?vs)" by auto
    then obtain w where w: "writebuf_advance B (write_buf b) n = Some w" "writebuf_wf w"
      "writebuf_contents w = drop n (writebuf_contents (write_buf b))"
      using writebuf_advance_drop [OF less.prems(2), of n] pre by auto
    define b' where "b' = b\<lparr>bio := t, write_buf := w\<rparr>"
    have b': "tinv (bio b')" "writebuf_wf (write_buf b')" "read_buf b' = read_buf b" "flush_pipeline b' = flush_pipeline b"
      "all_written b' = all_written b" "writebuf_contents (write_buf b') = writebuf_contents w"
      using t w n pre by (auto simp: b'_def all_written_def)
    have rem: "writebuf_remaining B w = length (writebuf_contents w)"
      using writebuf_remaining_length [OF w(2)] .
    have "poll_flush_vectored T B b = (if writebuf_contents w = [] then Some (flush_io T b')
       else if n = 0 then Some (b', Ready (Inl (IoError WriteZero []))) else poll_flush_vectored T B b')"
      by (subst poll_flush_vectored.simps) (simp add: wr 3 w(1) rem b'_def Let_def)
    moreover have "flushed b' (Some (b', Ready (Inl (IoError WriteZero []))))"
      using b' by (simp add: flushed_def flush_error_def)
    moreover have "writebuf_contents w = [] \<Longrightarrow> flushed b' (Some (flush_io T b'))"
      using flushed_io b' by simp
    moreover have "writebuf_contents w \<noteq> [] \<Longrightarrow> 0 < n \<Longrightarrow> flushed b' (poll_flush_vectored T B b')"
      using less.hyps [of b'] b' w(3) n(1) pre by simp
    ultimately have "flushed b' (poll_flush_vectored T B b)" by auto
    then show ?thesis using flushed_step b' by blast
  qed (use less.prems acc err t wr in \<open>auto simp: poll_flush_vectored.simps [of T B b] flushed_def all_written_def\<close>)
qed

lemma poll_flush_flattened_flushed:
  assumes "tinv (bio b)" and "writebuf_wf (write_buf b)" and "wb_strategy (write_buf b) = Flatten"
    and "writebuf_contents (write_buf b) \<noteq> []"
  shows "flushed b (poll_flush_flattened T b)"
  using assms
proof (induction "length (writebuf_contents (write_buf b))" arbitrary: b rule: less_induct)
  case less
  let ?h = "wb_headers (write_buf b)"
  have q: "wb_queue (write_buf b) = []" and h: "cursor_wf ?h"
    using less.prems by (auto simp: writebuf_wf_def)
  then have cont: "writebuf_contents (write_buf b) = cursor_chunk ?h" by (simp add: writebuf_contents_def)
  obtain t r where wr: "poll_write T (bio b) (cursor_chunk ?h) = (t, r)" by fastforce
  have t: "tinv t" using write_inv [OF less.prems(1), of "cursor_chunk ?h"] wr by simp
  have acc: "accepts (written (bio b)) (cursor_chunk ?h) (written t) r"
    using write_accepts [OF less.prems(1) wr] .
  have err: "r = Ready (Inl e) \<Longrightarrow> flush_error e" for e
    using less.prems(1) wr by (auto simp: flush_error_def)
  consider "r = Pending" | e where "r = Ready (Inl e)" | n where "r = Ready (Inr n)"
    by (cases r) (auto, metis sum.exhaust)
  then show ?case
  proof cases
    case (3 n)
    with acc have n: "n \<le> length (cursor_chunk ?h)" "written t = written (bio b) @ take n (cursor_chunk ?h)"
      by auto
    obtain c where c: "cursor_advance ?h n = Some c" "cursor_wf c" "cursor_chunk c = drop n (cursor_chunk ?h)"
      using cursor_advance_Some [OF h n(1)] by blast
    define b' where "b' = b\<lparr>bio := t, write_buf := (write_buf b)\<lparr>wb_headers := c\<rparr>\<rparr>"
    define b'' where "b'' = b'\<lparr>write_buf := (write_buf b')\<lparr>wb_headers := cursor_reset c\<rparr>\<rparr>"
    have b': "tinv (bio b')" "writebuf_wf (write_buf b')" "read_buf b' = read_buf b" "flush_pipeline b' = flush_pipeline b"
      "all_written b' = all_written b" "writebuf_contents (write_buf b') = cursor_chunk c"
      "wb_strategy (write_buf b') = Flatten"
      using t c n q cont less.prems by (auto simp: b'_def all_written_def writebuf_wf_def writebuf_contents_def)
    have b'': "tinv (bio b'')" "writebuf_wf (write_buf b'')" "writebuf_contents (write_buf b'') = []"
      "read_buf b'' = read_buf b'" "flush_pipeline b'' = flush_pipeline b'" "cursor_chunk c = [] \<Longrightarrow> all_written b'' = all_written b'"
      using b' q by (auto simp: b''_def b'_def writebuf_wf_def writebuf_contents_def all_written_def intro: wf_intros)
    have "poll_flush_flattened T b = (if cursor_chunk c = [] then Some (flush_io T b'')
       else if n = 0 then Some (b', Ready (Inl (IoError WriteZero []))) else poll_flush_flattened T b')"
      by (subst poll_flush_flattened.simps)
        (simp add: wr 3 c(1) cursor_remaining_chunk b'_def b''_def Let_def)
    moreover have "flushed b' (Some (b', Ready (Inl (IoError WriteZero []))))"
      using b' by (simp add: flushed_def flush_error_def)
    moreover have "cursor_chunk c = [] \<Longrightarrow> flushed b' (Some (flush_io T b''))"
      using flushed_step [OF flushed_io [OF b''(1,2,3)]] b''(4,5,6) by simp
    moreover have "cursor_chunk c \<noteq> [] \<Longrightarrow> 0 < n \<Longrightarrow> flushed b' (poll_flush_flattened T b')"
      using less.hyps [of b'] b' c(3) n(1) cont by simp
    ultimately have "flushed b' (poll_flush_flattened T b)" by auto
    then show ?thesis using flushed_step b' by blast
  qed (use less.prems acc err t wr in \<open>auto simp: poll_flush_flattened.simps [of T b] flushed_def all_written_def\<close>)
qed

lemma buffered_poll_flush_flushed:
  assumes "tinv (bio b)" and "writebuf_wf (write_buf b)"
    and "\<not> (flush_pipeline b \<and> read_buf b \<noteq> [])"
  shows "flushed b (buffered_poll_flush T B b)"
proof -
  have "buffered_poll_flush T B b = (if writebuf_contents (write_buf b) = [] then Some (flush_io T b)
      else case wb_strategy (write_buf b) of Flatten \<Rightarrow> poll_flush_flattened T b
           | Queue \<Rightarrow> poll_flush_vectored T B b)"
    using assms writebuf_remaining_length [OF assms(2)] by (auto simp: buffered_poll_flush_def)
  then show ?thesis
    using assms flushed_io poll_flush_flattened_flushed poll_flush_vectored_flushed
    by (cases "wb_strategy (write_buf b)") auto
qed

end

interpretation mock_io: buffered_io mock_ops "\<lambda>m. script_bytes (script m)" "\<lambda>_. True" sent
  cursor_ops cursor_chunk cursor_wf
  by unfold_locales

section \<open>Properties\<close>

lemma strategy_record_max: "strategy_max (strategy_record s n) = strategy_max s"
  by (cases s) (simp_all add: Let_def)

lemma strategy_fold:
  "strategy_inv s \<Longrightarrow> strategy_inv (foldl strategy_record s reads) \<and>
   strategy_max (foldl strategy_record s reads) = strategy_max s"
  by (induction reads arbitrary: s) (simp_all add: strategy_inv_record strategy_record_max)

lemma strategy_fold_adaptive: "\<exists>d n. foldl strategy_record (Adaptive d0 n0 mx) reads = Adaptive d n mx"
  by (induction reads arbitrary: d0 n0) (auto simp: Let_def)

text \<open>Whatever sizes the reads of a connection have had, the size of its next read stays between the initial
  size and the configured maximum.\<close>

lemma read_size_bounded:
  assumes "MINIMUM_MAX_BUFFER_SIZE \<le> mx" and "mx \<le> usize_max"
  shows "INIT_BUFFER_SIZE \<le> strategy_next (foldl strategy_record (with_max mx) reads) \<and>
    strategy_next (foldl strategy_record (with_max mx) reads) \<le> mx"
proof -
  obtain d n where "foldl strategy_record (with_max mx) reads = Adaptive d n mx"
    using strategy_fold_adaptive unfolding with_max_def by blast
  then show ?thesis using strategy_fold [OF strategy_inv_with_max [OF assms], of reads] by simp
qed

text \<open>At a concrete input: the default maximum and one large read.\<close>

lemma read_size_bounded_instance:
  "strategy_next (foldl strategy_record (with_max DEFAULT_MAX_BUFFER_SIZE) [8192]) \<le> DEFAULT_MAX_BUFFER_SIZE"
  using read_size_bounded [of DEFAULT_MAX_BUFFER_SIZE "[8192]"]
  by (simp add: MINIMUM_MAX_BUFFER_SIZE_def INIT_BUFFER_SIZE_def DEFAULT_MAX_BUFFER_SIZE_def usize_max_def)

text \<open>The size of reads only shrinks on the second small read in a row, and then to a power of two.\<close>

lemma read_size_shrinks:
  assumes "strategy_inv (Adaptive d n mx)" and "strategy_next (strategy_record (Adaptive d n mx) k) < n"
  shows "d \<and> 2 * k < n \<and> (\<exists>i. strategy_next (strategy_record (Adaptive d n mx) k) = 2 ^ i)"
proof -
  have b: "4 \<le> n" "n \<le> usize_max" using assms(1) by (auto simp: INIT_BUFFER_SIZE_def)
  note prev = prev_power_of_two_eq [OF b]
  have d: "d" "k < prev_power_of_two n"
    using assms by (auto simp: Let_def incr_power_of_two_def split: if_splits)
  then have "strategy_next (strategy_record (Adaptive d n mx) k) = max (prev_power_of_two n) INIT_BUFFER_SIZE"
    using prev(2) by (auto simp: Let_def)
  moreover have "\<exists>i. max (prev_power_of_two n) INIT_BUFFER_SIZE = 2 ^ i"
  proof (cases "prev_power_of_two n \<le> INIT_BUFFER_SIZE")
    case True
    have "INIT_BUFFER_SIZE = 2 ^ 13" by (simp add: INIT_BUFFER_SIZE_def)
    with True show ?thesis by (metis max.absorb2)
  next
    case False
    with prev(1) show ?thesis by (metis max.absorb1 nat_le_linear)
  qed
  ultimately show ?thesis using d prev(2) by simp
qed

text \<open>At a concrete input: two small reads at twice the initial size.\<close>

lemma read_size_shrinks_instance:
  "\<exists>i. strategy_next (strategy_record (Adaptive True 16384 DEFAULT_MAX_BUFFER_SIZE) 1) = 2 ^ i"
proof -
  have "2 * prev_power_of_two 16384 \<le> 16384" "16384 < 4 * prev_power_of_two 16384"
    by (rule prev_power_of_two_eq; simp add: usize_max_def)+
  then have "strategy_next (strategy_record (Adaptive True 16384 DEFAULT_MAX_BUFFER_SIZE) 1) < 16384"
    by (simp add: Let_def INIT_BUFFER_SIZE_def)
  from read_size_shrinks [OF _ this] show ?thesis
    by (simp add: INIT_BUFFER_SIZE_def DEFAULT_MAX_BUFFER_SIZE_def usize_max_def)
qed

text \<open>C12. The buffered transport is a faithful reader: over any transport that delivers its bytes in order, and
  whatever the allocator does, its reads give the buffered bytes and then those of the transport, each
  exactly once, with an empty read only at the end of the stream.\<close>

theorem buffered_reader_conforms:
  assumes "transport T unread tinv written"
  shows "mem_read (buffered_read_mem T grow :: ('t, 'b) Buffered read_mem) (buffered_stream unread) (\<lambda>b. tinv (bio b))"
  using transport.buffered_mem_read [OF assms] .

text \<open>Witness of C12: a scripted transport behind bytes put back.\<close>

theorem buffered_reader_conforms_witness:
  "mem_read (buffered_read_mem (rewind_ops mock_ops) (\<lambda>_ n. n) :: (mock Rewind, cursor) Buffered read_mem)
     (buffered_stream (rewind_unread (\<lambda>m. script_bytes (script m)))) (\<lambda>b. True)"
  using buffered_reader_conforms [OF rewind.transport_axioms] .

end
