(* ===== verification/H1_Role.thy ===== *)
theory H1_Role
  imports H1_Encode
begin

text \<open>
  The client role of HTTP/1 (\<^verbatim>\<open>src/src/core/proto/h1/role.rs\<close>): the parsing of response heads with
  the skipping of informational responses, the choice of the body decoder, the framing headers of a
  request and its encoded head. \<^verbatim>\<open>httparse\<close> is a parameter: a parsed header is the pair of slices
  it returns, each an offset into the buffer and a length, as the pointer arithmetic of
  \<^verbatim>\<open>record_header_indices\<close> reads them.

  \<^const>\<open>None\<close> as the result of the parser means that it does not return: a slice out of range, or a
  loop that does not end. \<open>client_parse_total\<close> excludes both.
\<close>

section \<open>Parameters\<close>

record hp_header =
  hname_ptr :: nat
  hname_len :: nat
  hvalue_ptr :: nat
  hvalue_len :: nat

record hp_response =
  hp_len :: nat
  hp_code :: nat
  hp_reason :: bytes
  hp_version :: nat
  hp_headers :: "hp_header list"

text \<open>The further operations of \<^verbatim>\<open>httparse\<close> and \<^verbatim>\<open>http\<close> the role uses; \<open>'c\<close> is the type of
  \<^verbatim>\<open>ParserConfig\<close>.\<close>

record ('m, 'c) h1_lib = "'m http_lib" +
  hp_parse_response :: "'c \<Rightarrow> bytes \<Rightarrow> nat \<Rightarrow> httparse_error + hp_response option"
  hp_obs_fold_allowed :: "'c \<Rightarrow> bool"
  canonical_reason :: "nat \<Rightarrow> bytes option"

text \<open>A complete parse consumes part of the buffer, gives slices inside what it consumed, at most as
  many headers as there is room for, names that are field names and a code of three digits.\<close>

definition response_in :: "bytes \<Rightarrow> nat \<Rightarrow> hp_response \<Rightarrow> bool" where
  "response_in buf n r \<longleftrightarrow> 0 < hp_len r \<and> hp_len r \<le> length buf \<and> hp_code r < 1000 \<and>
     length (hp_headers r) \<le> n \<and>
     (\<forall>h\<in>set (hp_headers r). hname_ptr h + hname_len h \<le> hp_len r \<and> hvalue_ptr h + hvalue_len h \<le> hp_len r)"

locale h1_laws = http_laws H
  for H :: "('m, 'c, 'z) h1_lib_scheme" +
  assumes parse_response_in: "hp_parse_response H cfg buf n = Inr (Some r) \<Longrightarrow> response_in buf n r"

section \<open>Heads and contexts\<close>

text \<open>The extensions of a head are the two the role reads or writes: the original header case and the
  reason phrase. A \<^verbatim>\<open>Uri\<close> is its \<^verbatim>\<open>Display\<close> text, a \<^verbatim>\<open>StatusCode\<close> its number.\<close>

record ('s, 'm) MessageHead =
  mh_version :: version
  mh_subject :: 's
  mh_headers :: 'm
  mh_case_map :: "'m option"
  mh_reason :: "bytes option"

type_synonym RequestLine = "http_method \<times> string"
type_synonym 'm RequestHead = "(RequestLine, 'm) MessageHead"
type_synonym 'm ResponseHead = "(nat, 'm) MessageHead"

record 'm ParsedMessage =
  pm_head :: "'m ResponseHead"
  pm_decode :: DecodedLength
  pm_expect_continue :: bool
  pm_keep_alive :: bool
  pm_wants_upgrade :: bool

record 'c ParseContext =
  ctx_req_method :: "http_method option"
  ctx_parser_config :: 'c
  ctx_max_headers :: "nat option"
  ctx_preserve_header_case :: bool
  ctx_h09_responses :: bool

section \<open>Parsing\<close>

text \<open>The scan of \<^verbatim>\<open>is_complete_fast\<close> over the bytes from three before the end of the last read.\<close>

fun scan_end :: "bytes \<Rightarrow> bool" where
  "scan_end [] = False"
| "scan_end (b # bs) =
     (if b = CR then (if take 3 bs = [LF, CR, LF] then True else scan_end bs)
      else if b = LF \<and> take 1 bs = [LF] then True
      else scan_end bs)"

definition is_complete_fast :: "bytes \<Rightarrow> nat \<Rightarrow> bool" where
  "is_complete_fast bs prev_len = scan_end (drop (prev_len - 3) bs)"

record HeaderIndices =
  idx_name :: "nat \<times> nat"
  idx_value :: "nat \<times> nat"

text \<open>\<^verbatim>\<open>record_header_indices\<close>: the pointers become offsets; \<open>indices\<close> is the number of slots.\<close>

fun record_header_indices :: "hp_header list \<Rightarrow> nat \<Rightarrow> parse + HeaderIndices list" where
  "record_header_indices [] n = Inr []"
| "record_header_indices (h # hs) 0 = Inr []"
| "record_header_indices (h # hs) (Suc n) =
     (if hname_len h \<ge> 2 ^ 16 then Inl ParseTooLarge
      else case record_header_indices hs n of
             Inl e \<Rightarrow> Inl e
           | Inr is \<Rightarrow> Inr (\<lparr>idx_name = (hname_ptr h, hname_ptr h + hname_len h),
                            idx_value = (hvalue_ptr h, hvalue_ptr h + hvalue_len h)\<rparr> # is))"

text \<open>\<^verbatim>\<open>&s[a..b]\<close>; out of range is a panic.\<close>

definition range_of :: "bytes \<Rightarrow> nat \<times> nat \<Rightarrow> bytes option" where
  "range_of s r = (if fst r \<le> snd r \<and> snd r \<le> length s then Some (take (snd r - fst r) (drop (fst r) s)) else None)"

definition trim_start_ws :: "bytes \<Rightarrow> bytes" where
  "trim_start_ws s = dropWhile is_ascii_whitespace s"

definition trim_end_ws :: "bytes \<Rightarrow> bytes" where
  "trim_end_ws s = rev (dropWhile is_ascii_whitespace (rev s))"

text \<open>\<^verbatim>\<open>obs_fold_line\<close>: the folded lines of a value joined by single spaces, written back over the
  value; the copy panics when the result does not fit.\<close>

definition unfold_lines :: "bytes \<Rightarrow> bytes" where
  "unfold_lines v =
     (let first_line = takeWhile (\<lambda>b. b \<noteq> LF) v;
          rest = drop (Suc (length first_line)) v
      in trim_end_ws first_line @
         concat (map (\<lambda>line. SP # trim_start_ws (trim_end_ws line)) (split_on LF rest)))"

definition obs_fold_line :: "bytes \<Rightarrow> HeaderIndices \<Rightarrow> (bytes \<times> HeaderIndices) option" where
  "obs_fold_line all idx =
     (case range_of all (idx_value idx) of
        None \<Rightarrow> None
      | Some v \<Rightarrow>
          if LF \<notin> set v then Some (all, idx)
          else let unfolded = unfold_lines v; start = fst (idx_value idx)
               in if length unfolded \<le> length v
                  then Some (take start all @ unfolded @ drop (start + length unfolded) all,
                             idx\<lparr>idx_value := (start, start + length unfolded)\<rparr>)
                  else None)"

fun obs_fold_all :: "bytes \<Rightarrow> HeaderIndices list \<Rightarrow> (bytes \<times> HeaderIndices list) option" where
  "obs_fold_all s [] = Some (s, [])"
| "obs_fold_all s (i # is) =
     (case obs_fold_line s i of
        None \<Rightarrow> None
      | Some (s', i') \<Rightarrow> map_option (\<lambda>(s'', is'). (s'', i' # is')) (obs_fold_all s' is))"

text \<open>The loop over the headers: keep-alive, original case, and the header map. A name that
  \<^verbatim>\<open>HeaderName\<close> refuses is \<^verbatim>\<open>Parse::Internal\<close> (a panic in a debug build).\<close>

fun read_headers ::
  "('m, 'z) http_lib_scheme \<Rightarrow> bytes \<Rightarrow> HeaderIndices list \<Rightarrow> bool \<Rightarrow> 'm option \<Rightarrow> 'm \<Rightarrow>
   (parse + bool \<times> 'm option \<times> 'm) option" where
  "read_headers H s [] keep_alive case_map headers = Some (Inr (keep_alive, case_map, headers))"
| "read_headers H s (i # is) keep_alive case_map headers =
     (case range_of s (idx_name i) of
        None \<Rightarrow> None
      | Some n \<Rightarrow>
          (case hn_from_bytes H n of
             None \<Rightarrow> Some (Inl ParseInternal)
           | Some name \<Rightarrow>
               (case range_of s (idx_value i) of
                  None \<Rightarrow> None
                | Some value \<Rightarrow>
                    read_headers H s is
                      (if name = ''connection''
                       then if keep_alive then \<not> connection_close H value
                            else connection_keep_alive H value
                       else keep_alive)
                      (map_option (hm_append H name n) case_map)
                      (hm_append H name value headers))))"

definition client_decoder ::
  "('m, 'z) http_lib_scheme \<Rightarrow> 'm ResponseHead \<Rightarrow> http_method option \<Rightarrow>
   parse + (DecodedLength \<times> bool) option" where
  "client_decoder H inc meth =
     (let status = mh_subject inc in
      if status = 101 then Inr (Some (ZERO, True))
      else if status = 100 \<or> (102 \<le> status \<and> status \<le> 199) then Inr None
      else if status = 204 \<or> status = 304 then Inr (Some (ZERO, False))
      else if meth = Some HEAD then Inr (Some (ZERO, False))
      else if meth = Some CONNECT \<and> 200 \<le> status \<and> status \<le> 299 then Inr (Some (ZERO, True))
      else if hm_contains_key H (mh_headers inc) ''transfer-encoding''
      then if mh_version inc = HTTP_10 then Inl transfer_encoding_unexpected
           else if transfer_encoding_is_chunked H (mh_headers inc) then Inr (Some (CHUNKED, False))
           else Inr (Some (CLOSE_DELIMITED, False))
      else case content_length_parse_all H (mh_headers inc) of
             Some len \<Rightarrow>
               (case checked_new len of Inl e \<Rightarrow> Inl e | Inr l \<Rightarrow> Inr (Some (l, False)))
           | None \<Rightarrow>
               if hm_contains_key H (mh_headers inc) ''content-length''
               then Inl content_length_invalid
               else Inr (Some (CLOSE_DELIMITED, False)))"

text \<open>What the call of \<^verbatim>\<open>httparse\<close> gives the loop: the consumed length, the status line and the
  indices of the headers.\<close>

definition parse_response_head ::
  "('m, 'c, 'z) h1_lib_scheme \<Rightarrow> 'c ParseContext \<Rightarrow> bytes \<Rightarrow>
   parse + (nat \<times> nat \<times> bytes option \<times> version \<times> HeaderIndices list) option" where
  "parse_response_head H ctx buf =
     (let cap = (case ctx_max_headers ctx of Some cap \<Rightarrow> cap | None \<Rightarrow> DEFAULT_MAX_HEADERS)
      in case hp_parse_response H (ctx_parser_config ctx) buf cap of
           Inr (Some r) \<Rightarrow>
             (if \<not> (100 \<le> hp_code r \<and> hp_code r \<le> 999) then Inl ParseStatus
              else case record_header_indices (hp_headers r) cap of
                     Inl e \<Rightarrow> Inl e
                   | Inr is \<Rightarrow>
                       Inr (Some (hp_len r, hp_code r,
                         (if Some (hp_reason r) \<noteq> canonical_reason H (hp_code r) then Some (hp_reason r) else None),
                         (if hp_version r = 1 then HTTP_11 else HTTP_10), is)))
         | Inr None \<Rightarrow> Inr None
         | Inl e \<Rightarrow>
             if e = HpVersion \<and> ctx_h09_responses ctx then Inr (Some (0, 200, None, HTTP_09, []))
             else Inl (parse_of_httparse e))"

text \<open>One round of the loop of \<^verbatim>\<open>Client::parse\<close>: the buffer and the cached headers after it, and
  whether it is done or the response was informational and skipped.\<close>

datatype 'm parse_step = Done "parse + 'm ParsedMessage option" | Skipped

definition parse_round ::
  "('m, 'c, 'z) h1_lib_scheme \<Rightarrow> 'c ParseContext \<Rightarrow> bytes \<Rightarrow> 'm option \<Rightarrow>
   (bytes \<times> 'm option \<times> 'm parse_step) option" where
  "parse_round H ctx buf cached =
     (case parse_response_head H ctx buf of
        Inl e \<Rightarrow> Some (buf, cached, Done (Inl e))
      | Inr None \<Rightarrow> Some (buf, cached, Done (Inr None))
      | Inr (Some (len, status, reason, version, is)) \<Rightarrow>
          (let s = take len buf; buf' = drop len buf
           in case (if hp_obs_fold_allowed H (ctx_parser_config ctx) then obs_fold_all s is else Some (s, is)) of
                None \<Rightarrow> None
              | Some (s', is') \<Rightarrow>
                  (case read_headers H s' is' (version = HTTP_11)
                          (if ctx_preserve_header_case ctx then Some (hm_new H) else None)
                          (case cached of Some m \<Rightarrow> m | None \<Rightarrow> hm_new H) of
                     None \<Rightarrow> None
                   | Some (Inl e) \<Rightarrow> Some (buf', None, Done (Inl e))
                   | Some (Inr (keep_alive, case_map, headers)) \<Rightarrow>
                       (let head = \<lparr>mh_version = version, mh_subject = status, mh_headers = headers,
                                    mh_case_map = case_map, mh_reason = reason\<rparr>
                        in case client_decoder H head (ctx_req_method ctx) of
                             Inl e \<Rightarrow> Some (buf', None, Done (Inl e))
                           | Inr (Some (decode, is_upgrade)) \<Rightarrow>
                               Some (buf', None, Done (Inr (Some
                                 \<lparr>pm_head = head, pm_decode = decode, pm_expect_continue = False,
                                  pm_keep_alive = keep_alive \<and> \<not> is_upgrade,
                                  pm_wants_upgrade = is_upgrade\<rparr>)))
                           | Inr None \<Rightarrow> Some (buf', None, Skipped)))))"

partial_function (option) client_parse ::
  "('m, 'c, 'z) h1_lib_scheme \<Rightarrow> 'c ParseContext \<Rightarrow> bytes \<Rightarrow> 'm option \<Rightarrow>
   (bytes \<times> 'm option \<times> (parse + 'm ParsedMessage option)) option" where
  "client_parse H ctx buf cached =
     (case parse_round H ctx buf cached of
        None \<Rightarrow> None
      | Some (buf', cached', Done r) \<Rightarrow> Some (buf', cached', r)
      | Some (buf', cached', Skipped) \<Rightarrow>
          if buf' = [] then Some (buf', cached', Inr None) else client_parse H ctx buf' cached')"

definition parse_headers ::
  "('m, 'c, 'z) h1_lib_scheme \<Rightarrow> 'c ParseContext \<Rightarrow> bytes \<Rightarrow> 'm option \<Rightarrow> nat option \<Rightarrow>
   (bytes \<times> 'm option \<times> (parse + 'm ParsedMessage option)) option" where
  "parse_headers H ctx bs cached prev_len =
     (if bs = [] then Some (bs, cached, Inr None)
      else case prev_len of
             Some n \<Rightarrow> if \<not> is_complete_fast bs n then Some (bs, cached, Inr None)
                       else client_parse H ctx bs cached
           | None \<Rightarrow> client_parse H ctx bs cached)"

section \<open>Encoding\<close>

text \<open>\<^verbatim>\<open>set_content_length\<close>, where both branches of the build configuration insert the length.\<close>

definition set_content_length :: "('m, 'z) http_lib_scheme \<Rightarrow> 'm \<Rightarrow> u64 \<Rightarrow> 'm \<times> encoder" where
  "set_content_length H headers len =
     (hm_insert H ''content-length'' (header_value_of_u64 len) headers, encoder_length len)"

text \<open>The entry of \<^verbatim>\<open>Transfer-Encoding\<close>: the headers after it, the encoder if one is chosen, and
  whether the content length is to be removed.\<close>

definition te_entry ::
  "('m, 'z) http_lib_scheme \<Rightarrow> 'm \<Rightarrow> http_method \<Rightarrow> BodyLength \<Rightarrow> u64 option \<Rightarrow> 'm \<times> encoder option \<times> bool" where
  "te_entry H headers meth body existing_con_len =
     (if hm_contains_key H headers ''transfer-encoding''
      then if is_chunked H (hm_get_all H headers ''transfer-encoding'')
           then (headers, Some encoder_chunked, True)
           else (add_chunked H ''transfer-encoding'' headers, Some encoder_chunked, True)
      else case existing_con_len of
             Some len \<Rightarrow> (headers, Some (encoder_length len), False)
           | None \<Rightarrow>
               (case body of
                  Unknown \<Rightarrow>
                    if meth \<in> {GET, HEAD, CONNECT} then (headers, Some (encoder_length 0), False)
                    else (hm_insert H ''transfer-encoding'' ''chunked'' headers, Some encoder_chunked, False)
                | Known _ \<Rightarrow> (headers, None, False)))"

definition with_trailing_fields :: "('m, 'z) http_lib_scheme \<Rightarrow> 'm \<Rightarrow> encoder \<Rightarrow> encoder" where
  "with_trailing_fields H headers enc =
     (if encoder_is_chunked enc
      then let allowed = hm_get_all H headers ''trailer''
           in if allowed \<noteq> [] then into_chunked_with_trailing_fields enc allowed else enc
      else enc)"

text \<open>\<^verbatim>\<open>set_length\<close>; the \<^verbatim>\<open>unreachable!\<close> at its end is the \<^const>\<open>None\<close> case.\<close>

definition set_length ::
  "('m, 'z) http_lib_scheme \<Rightarrow> 'm RequestHead \<Rightarrow> BodyLength option \<Rightarrow> ('m RequestHead \<times> encoder) option" where
  "set_length H head body =
     (case body of
        None \<Rightarrow> Some (head\<lparr>mh_headers := hm_remove H ''transfer-encoding'' (mh_headers head)\<rparr>, encoder_length 0)
      | Some body \<Rightarrow>
          (let headers = mh_headers head;
               existing_con_len = content_length_parse_all H headers
           in if mh_version head \<noteq> HTTP_11
              then let headers = hm_remove H ''transfer-encoding'' headers
                   in case existing_con_len of
                        Some len \<Rightarrow> Some (head\<lparr>mh_headers := headers\<rparr>, encoder_length len)
                      | None \<Rightarrow>
                          (case body of
                             Known len \<Rightarrow>
                               (case set_content_length H headers len of
                                  (headers, enc) \<Rightarrow> Some (head\<lparr>mh_headers := headers\<rparr>, enc))
                           | Unknown \<Rightarrow> Some (head\<lparr>mh_headers := headers\<rparr>, encoder_length 0))
              else case te_entry H headers (fst (mh_subject head)) body existing_con_len of
                     (headers, Some enc, should_remove_con_len) \<Rightarrow>
                       (let enc = with_trailing_fields H headers enc;
                            headers = (if should_remove_con_len \<and> existing_con_len \<noteq> None
                                       then hm_remove H ''content-length'' headers else headers)
                        in Some (head\<lparr>mh_headers := headers\<rparr>, enc))
                   | (headers, None, _) \<Rightarrow>
                       (case body of
                          Known len \<Rightarrow>
                            (case set_content_length H headers len of
                               (headers, enc) \<Rightarrow> Some (head\<lparr>mh_headers := headers\<rparr>, enc))
                        | Unknown \<Rightarrow> None)))"

text \<open>\<^verbatim>\<open>HeaderMap::keys\<close>: each name once, in the order of the iteration.\<close>

definition hm_keys :: "('m, 'z) http_lib_scheme \<Rightarrow> 'm \<Rightarrow> header_name list" where
  "hm_keys H m = rev (remdups (rev (map fst (hm_iter H m))))"

text \<open>The inner loop of \<^verbatim>\<open>write_headers_original_case\<close>: the values of a name, with its original
  spellings as long as there are any.\<close>

fun write_original :: "bytes list \<Rightarrow> header_name \<Rightarrow> bool \<Rightarrow> header_value list \<Rightarrow> bytes \<Rightarrow> bytes" where
  "write_original names name title_case_headers [] dst = dst"
| "write_original names name title_case_headers (value # values) dst =
     (let dst = (case names of
                   orig_name # _ \<Rightarrow> dst @ orig_name
                 | [] \<Rightarrow> if title_case_headers then title_case dst name else dst @ name);
          dst = (if value = [] then dst @ '':'' @ CRLF else dst @ '': '' @ value @ CRLF)
      in write_original (tl names) name title_case_headers values dst)"

definition write_headers_original_case ::
  "('m, 'z) http_lib_scheme \<Rightarrow> 'm \<Rightarrow> 'm \<Rightarrow> bytes \<Rightarrow> bool \<Rightarrow> bytes" where
  "write_headers_original_case H headers orig_case dst title_case_headers =
     fold (\<lambda>name dst. write_original (hm_get_all H orig_case name) name title_case_headers
             (hm_get_all H headers name) dst)
       (hm_keys H headers) dst"

fun method_str :: "http_method \<Rightarrow> string" where
  "method_str GET = ''GET''" | "method_str HEAD = ''HEAD''" | "method_str POST = ''POST''"
| "method_str PUT = ''PUT''" | "method_str DELETE = ''DELETE''" | "method_str CONNECT = ''CONNECT''"
| "method_str OPTIONS = ''OPTIONS''" | "method_str TRACE = ''TRACE''" | "method_str PATCH = ''PATCH''"
| "method_str (ExtensionMethod m) = m"

text \<open>\<^verbatim>\<open>Client::encode\<close>: the head after it (its headers cleared), the method to remember, the bytes
  and the body encoder. Any other version panics.\<close>

definition client_encode ::
  "('m, 'z) http_lib_scheme \<Rightarrow> 'm RequestHead \<Rightarrow> BodyLength option \<Rightarrow> bool \<Rightarrow> bytes \<Rightarrow>
   ('m RequestHead \<times> http_method option \<times> bytes \<times> encoder) option" where
  "client_encode H head body title_case_headers dst =
     (case set_length H head body of
        None \<Rightarrow> None
      | Some (head, enc) \<Rightarrow>
          (let dst = dst @ method_str (fst (mh_subject head)) @ '' '' @ snd (mh_subject head) @ '' '';
               finish = (\<lambda>dst.
                 let dst = dst @ CRLF;
                     dst = (case mh_case_map head of
                              Some orig \<Rightarrow> write_headers_original_case H (mh_headers head) orig dst title_case_headers
                            | None \<Rightarrow>
                                if title_case_headers then write_headers_title_case H (mh_headers head) dst
                                else write_headers H (mh_headers head) dst)
                 in Some (head\<lparr>mh_headers := hm_new H\<rparr>, Some (fst (mh_subject head)), dst @ CRLF, enc))
           in case mh_version head of
                HTTP_10 \<Rightarrow> finish (dst @ ''HTTP/1.0'')
              | HTTP_11 \<Rightarrow> finish (dst @ ''HTTP/1.1'')
              | HTTP_2 \<Rightarrow> finish (dst @ ''HTTP/1.1'')
              | _ \<Rightarrow> None))"

section \<open>The fast scan\<close>

text \<open>The reference: an empty line occurs somewhere in the bytes.\<close>

definition has_end :: "bytes \<Rightarrow> bool" where
  "has_end s \<longleftrightarrow> sublist [CR, LF, CR, LF] s \<or> sublist [LF, LF] s"

lemma scan_end_has_end: "scan_end s \<longleftrightarrow> has_end s"
proof (induction s)
  case (Cons b s)
  have take3: "take 3 s = [LF, CR, LF] \<longleftrightarrow> prefix [LF, CR, LF] s"
    using starts_with_iff [of s "[LF, CR, LF]"] by (simp add: starts_with_def prefix_def numeral_3_eq_3)
  have take1: "take 1 s = [LF] \<longleftrightarrow> prefix [LF] s"
    by (cases s) auto
  show ?case
    using Cons.IH unfolding scan_end.simps take3 take1 has_end_def sublist_Cons_right by auto
qed (simp add: has_end_def)

lemma sublist_split:
  assumes "sublist xs s" and "p \<le> length s"
  shows "sublist xs (take p s) \<or> sublist xs (drop (p - (length xs - 1)) s)"
proof -
  obtain a b where s: "s = a @ xs @ b" using assms(1) by (auto simp: sublist_def)
  show ?thesis
  proof (cases "length a + length xs \<le> p")
    case True
    then have "take p s = a @ xs @ take (p - length a - length xs) b" using s by simp
    then show ?thesis by (metis sublist_appendI)
  next
    case False
    then have "drop (p - (length xs - 1)) s = drop (p - (length xs - 1)) a @ xs @ b"
      using s by simp
    then show ?thesis by (metis sublist_appendI)
  qed
qed

lemma sublist_drop: "sublist xs (drop n s) \<Longrightarrow> sublist xs s"
  using sublist_order.order_trans suffix_imp_sublist suffix_drop by blast

lemma is_complete_fast_iff:
  assumes "prev_len \<le> length s" and "\<not> has_end (take prev_len s)"
  shows "is_complete_fast s prev_len \<longleftrightarrow> has_end s"
proof
  assume "is_complete_fast s prev_len"
  then show "has_end s" using sublist_drop by (auto simp: is_complete_fast_def scan_end_has_end has_end_def)
next
  assume "has_end s"
  then consider "sublist [CR, LF, CR, LF] s" | "sublist [LF, LF] s" by (auto simp: has_end_def)
  then have "has_end (drop (prev_len - 3) s)"
  proof cases
    case 1
    from sublist_split [OF this assms(1)] assms(2) show ?thesis by (auto simp: has_end_def numeral_3_eq_3)
  next
    case 2
    from sublist_split [OF this assms(1)] assms(2) have "sublist [LF, LF] (drop (prev_len - 1) s)"
      by (auto simp: has_end_def)
    moreover have "drop (prev_len - 1) s = drop (prev_len - 1 - (prev_len - 3)) (drop (prev_len - 3) s)"
      unfolding drop_drop by (rule arg_cong [where f = "\<lambda>n. drop n s"]) simp
    ultimately show ?thesis using sublist_drop by (metis has_end_def)
  qed
  then show "is_complete_fast s prev_len" by (simp add: is_complete_fast_def scan_end_has_end)
qed

section \<open>Folded lines\<close>

lemma length_trim_ws: "length (trim_start_ws s) \<le> length s" "length (trim_end_ws s) \<le> length s"
  using length_dropWhile_le [of is_ascii_whitespace "rev s"]
  by (auto simp: trim_start_ws_def trim_end_ws_def length_dropWhile_le)

lemma set_trim_ws: "set (trim_start_ws s) \<subseteq> set s" "set (trim_end_ws s) \<subseteq> set s"
  using set_dropWhileD [of _ is_ascii_whitespace s] set_dropWhileD [of _ is_ascii_whitespace "rev s"]
  by (auto simp: trim_start_ws_def trim_end_ws_def)

lemma sum_split_on: "sum_list (map (\<lambda>l. Suc (length l)) (split_on c s)) = Suc (length s)"
  by (induction s) (auto split: list.splits)

lemma length_unfold_lines:
  assumes "LF \<in> set v"
  shows "length (unfold_lines v) \<le> length v"
proof -
  define first where "first = takeWhile (\<lambda>b. b \<noteq> LF) v"
  define rest where "rest = drop (Suc (length first)) v"
  have "length first < length v"
    using assms unfolding first_def by (induction v) auto
  then have len: "length v = Suc (length first + length rest)" by (simp add: rest_def)
  have "length (trim_start_ws (trim_end_ws l)) \<le> length l" for l
    using length_trim_ws order_trans by blast
  then have "sum_list (map (\<lambda>l. Suc (length (trim_start_ws (trim_end_ws l)))) (split_on LF rest))
      \<le> sum_list (map (\<lambda>l. Suc (length l)) (split_on LF rest))"
    by (intro sum_list_mono) simp
  then show ?thesis
    using len length_trim_ws(2) [of first] sum_split_on [of LF rest]
    by (simp add: unfold_lines_def Let_def first_def [symmetric] rest_def [symmetric] length_concat comp_def)
qed

lemma unfold_lines_no_LF: "LF \<notin> set (unfold_lines v)"
proof -
  have "LF \<notin> set (takeWhile (\<lambda>b. b \<noteq> LF) v)" by (auto dest: set_takeWhileD)
  then show ?thesis
    using set_trim_ws split_on_pieces [of _ LF]
    by (fastforce simp: unfold_lines_def Let_def)
qed

definition idx_in :: "nat \<Rightarrow> HeaderIndices \<Rightarrow> bool" where
  "idx_in n i \<longleftrightarrow> fst (idx_name i) \<le> snd (idx_name i) \<and> snd (idx_name i) \<le> n \<and>
     fst (idx_value i) \<le> snd (idx_value i) \<and> snd (idx_value i) \<le> n"

lemma range_of_Some: "a \<le> b \<Longrightarrow> b \<le> length s \<Longrightarrow> range_of s (a, b) = Some (take (b - a) (drop a s))"
  by (simp add: range_of_def)

lemma obs_fold_line_total:
  assumes "idx_in (length s) i"
  shows "\<exists>s' i'. obs_fold_line s i = Some (s', i') \<and> length s' = length s \<and> idx_in (length s) i' \<and>
    idx_name i' = idx_name i \<and> (\<exists>v. range_of s' (idx_value i') = Some v \<and> LF \<notin> set v)"
proof -
  obtain a b where ab: "idx_value i = (a, b)" by fastforce
  define v where "v = take (b - a) (drop a s)"
  have le: "a \<le> b" "b \<le> length s" using assms ab by (auto simp: idx_in_def)
  then have r: "range_of s (a, b) = Some v" and len: "length v = b - a"
    by (simp_all add: range_of_Some v_def)
  show ?thesis
  proof (cases "LF \<in> set v")
    case True
    have fit: "length (unfold_lines v) \<le> length v" using length_unfold_lines [OF True] .
    then have "obs_fold_line s i = Some (take a s @ unfold_lines v @ drop (a + length (unfold_lines v)) s,
        i\<lparr>idx_value := (a, a + length (unfold_lines v))\<rparr>)"
      using True r ab by (simp add: obs_fold_line_def Let_def)
    moreover have "range_of (take a s @ unfold_lines v @ drop (a + length (unfold_lines v)) s)
        (a, a + length (unfold_lines v)) = Some (unfold_lines v)"
      using le fit len by (simp add: range_of_def)
    ultimately show ?thesis
      using assms le fit len unfold_lines_no_LF [of v] by (auto simp: idx_in_def ab)
  next
    case False
    then have "obs_fold_line s i = Some (s, i)" using r ab by (simp add: obs_fold_line_def)
    then show ?thesis using assms False r ab by auto
  qed
qed

lemma obs_fold_all_total:
  "\<forall>i\<in>set is. idx_in (length s) i \<Longrightarrow>
   \<exists>s' is'. obs_fold_all s is = Some (s', is') \<and> length s' = length s \<and> (\<forall>i\<in>set is'. idx_in (length s) i)"
proof (induction "is" arbitrary: s)
  case (Cons i "is")
  then obtain s1 i1 where "obs_fold_line s i = Some (s1, i1)" "length s1 = length s" "idx_in (length s) i1"
    using obs_fold_line_total [of s i] by auto
  with Cons.IH [of s1] Cons.prems show ?case by auto
qed simp

section \<open>Parsing ends\<close>

lemma read_headers_total:
  "\<forall>i\<in>set is. idx_in (length s) i \<Longrightarrow> \<exists>r. read_headers H s is ka cm hs = Some r"
proof (induction "is" arbitrary: ka cm hs)
  case (Cons i "is")
  then have "\<exists>n v. range_of s (idx_name i) = Some n \<and> range_of s (idx_value i) = Some v"
    by (auto simp: idx_in_def range_of_def)
  with Cons show ?case by (auto split: option.splits)
qed simp

lemma record_header_indices_in:
  assumes "record_header_indices hs n = Inr is"
    and "\<forall>h\<in>set hs. hname_ptr h + hname_len h \<le> len \<and> hvalue_ptr h + hvalue_len h \<le> len"
  shows "\<forall>i\<in>set is. idx_in len i"
  using assms
proof (induction hs n arbitrary: "is" rule: record_header_indices.induct)
  case (3 h hs n)
  then show ?case by (auto simp: idx_in_def split: if_splits sum.splits)
qed auto

lemma client_decoder_None:
  "client_decoder H inc m = Inr None \<Longrightarrow> 100 \<le> mh_subject inc \<and> mh_subject inc < 200"
  by (auto simp: client_decoder_def Let_def split: if_splits option.splits sum.splits)

context h1_laws
begin

lemma parse_response_head_in:
  assumes "parse_response_head H ctx buf = Inr (Some (len, status, reason, version, is))"
  shows "len \<le> length buf \<and> (\<forall>i\<in>set is. idx_in len i) \<and> (status \<noteq> 200 \<longrightarrow> 0 < len)"
proof -
  let ?cap = "case ctx_max_headers ctx of Some cap \<Rightarrow> cap | None \<Rightarrow> DEFAULT_MAX_HEADERS"
  show ?thesis
  proof (cases "hp_parse_response H (ctx_parser_config ctx) buf ?cap")
    case (Inr o')
    then obtain r where "o' = Some r" using assms by (auto simp: parse_response_head_def split: option.splits)
    with Inr have "response_in buf ?cap r" using parse_response_in by blast
    moreover from Inr \<open>o' = Some r\<close> assms have "len = hp_len r"
      and "record_header_indices (hp_headers r) ?cap = Inr is"
      by (auto simp: parse_response_head_def Let_def split: if_splits sum.splits)
    ultimately show ?thesis
      using record_header_indices_in [of "hp_headers r" ?cap "is" len] by (simp add: response_in_def)
  qed (use assms in \<open>auto simp: parse_response_head_def Let_def split: if_splits\<close>)
qed

lemma parse_round_total:
  "\<exists>buf' cached' st. parse_round H ctx buf cached = Some (buf', cached', st) \<and> suffix buf' buf \<and>
     (st = Skipped \<longrightarrow> length buf' < length buf)"
proof (cases "parse_response_head H ctx buf")
  case (Inr o')
  show ?thesis
  proof (cases o')
    case (Some x)
    obtain len status reason version "is" where x: "x = (len, status, reason, version, is)" by (cases x)
    note inn = parse_response_head_in [OF Inr [unfolded Some x]]
    let ?fold = "if hp_obs_fold_allowed H (ctx_parser_config ctx) then obs_fold_all (take len buf) is
      else Some (take len buf, is)"
    have "length (take len buf) = len" using inn by simp
    then obtain s1 is1 where f: "?fold = Some (s1, is1)" "\<forall>i\<in>set is1. idx_in (length s1) i"
      using obs_fold_all_total [of "is" "take len buf"] inn by (cases "hp_obs_fold_allowed H (ctx_parser_config ctx)") auto
    let ?cm = "if ctx_preserve_header_case ctx then Some (hm_new H) else None"
    let ?hs = "case cached of Some m \<Rightarrow> m | None \<Rightarrow> hm_new H"
    obtain r where r: "read_headers H s1 is1 (version = HTTP_11) ?cm ?hs = Some r"
      using read_headers_total [OF f(2), of H "version = HTTP_11" ?cm ?hs] by auto
    note eq = parse_round_def [of H ctx buf cached, unfolded Inr Some x sum.case option.case prod.case Let_def f(1) r]
    show ?thesis
    proof (cases r)
      case (Inr y)
      obtain ka cm hs where y: "y = (ka, cm, hs)" by (cases y)
      let ?head = "\<lparr>mh_version = version, mh_subject = status, mh_headers = hs, mh_case_map = cm, mh_reason = reason\<rparr>"
      have "client_decoder H ?head (ctx_req_method ctx) = Inr None \<Longrightarrow> 0 < len \<and> 0 < length buf"
        using client_decoder_None [of H ?head] inn by fastforce
      then show ?thesis
        unfolding eq Inr y sum.case prod.case
        by (auto simp: suffix_drop split: sum.splits option.splits)
    qed (simp add: eq suffix_drop)
  qed (simp add: parse_round_def Inr)
qed (simp add: parse_round_def)

text \<open>The parser returns on every buffer, whatever \<^verbatim>\<open>httparse\<close> finds there.\<close>

lemma client_parse_total:
  "\<exists>buf' cached' r. client_parse H ctx buf cached = Some (buf', cached', r) \<and> suffix buf' buf"
proof (induction "length buf" arbitrary: buf cached rule: less_induct)
  case less
  obtain buf1 cached1 st where r: "parse_round H ctx buf cached = Some (buf1, cached1, st)" "suffix buf1 buf"
    "st = Skipped \<longrightarrow> length buf1 < length buf"
    using parse_round_total by blast
  then show ?case
    using less.hyps [of buf1 cached1]
    by (cases st) (auto simp: client_parse.simps [of H ctx buf] intro: suffix_order.trans)
qed

end

section \<open>An instance of the parameters\<close>

text \<open>A response parser for CRLF-terminated heads. A head ends at the first empty line.\<close>

fun line_slices :: "nat \<Rightarrow> bytes list \<Rightarrow> (nat \<times> hp_header list) option" where
  "line_slices off [] = None"
| "line_slices off (l # ls) =
     (if l = [CR] then Some (off + 2, [])
      else let nm = length (takeWhile (\<lambda>b. b \<noteq> CHR '':'') l)
           in map_option (\<lambda>(len, hs).
                (len, \<lparr>hname_ptr = off, hname_len = nm, hvalue_ptr = off + nm + 2,
                       hvalue_len = length l - (nm + 3)\<rparr> # hs))
                (line_slices (off + length l + 1) ls))"

definition simple_parse_response :: "bytes \<Rightarrow> nat \<Rightarrow> httparse_error + hp_response option" where
  "simple_parse_response buf n =
     (case split_on LF buf of
        [] \<Rightarrow> Inr None
      | l # ls \<Rightarrow>
          if \<not> starts_with l ''HTTP/1.'' then Inl HpVersion
          else case line_slices (length l + 1) ls of
                 None \<Rightarrow> Inr None
               | Some (len, hs) \<Rightarrow>
                   (let r = \<lparr>hp_len = len, hp_code = dec_value 0 (take 3 (drop 9 l)),
                             hp_reason = take (length l - 14) (drop 13 l),
                             hp_version = (if take 1 (drop 7 l) = ''1'' then 1 else 0), hp_headers = hs\<rparr>
                    in if response_in buf n r then Inr (Some r) else Inl HpToken))"

definition assoc_h1 :: "(assoc_map, bool) h1_lib" where
  "assoc_h1 = http_lib.extend assoc_http
     \<lparr>hp_parse_response = (\<lambda>_. simple_parse_response), hp_obs_fold_allowed = (\<lambda>c. c),
      canonical_reason = (\<lambda>code. if code = 200 then Some ''OK'' else if code = 100 then Some ''Continue'' else None)\<rparr>"

lemma assoc_h1_sel:
  "hm_new assoc_h1 = hm_new assoc_http" "hm_get_all assoc_h1 = hm_get_all assoc_http"
  "hm_insert assoc_h1 = hm_insert assoc_http" "hm_append assoc_h1 = hm_append assoc_http"
  "hm_set_last assoc_h1 = hm_set_last assoc_http" "hm_remove assoc_h1 = hm_remove assoc_http"
  "hm_iter assoc_h1 = hm_iter assoc_http" "hv_to_str assoc_h1 = hv_to_str assoc_http"
  "hn_from_bytes assoc_h1 = hn_from_bytes assoc_http" "hv_from_bytes assoc_h1 = hv_from_bytes assoc_http"
  "hp_parse_headers assoc_h1 = hp_parse_headers assoc_http"
  by (simp_all add: assoc_h1_def http_lib.defs assoc_http_def)

interpretation assoc_h1: h1_laws assoc_h1
proof unfold_locales
  fix cfg buf n r
  assume "hp_parse_response assoc_h1 cfg buf n = Inr (Some r)"
  then show "response_in buf n r"
    by (auto simp: assoc_h1_def http_lib.defs simple_parse_response_def Let_def
        split: list.splits if_splits option.splits)
qed (simp_all add: assoc_h1_sel assoc.get_all_simps assoc.iter_get_all assoc.to_str_ascii
       assoc.from_bytes_lower)

section \<open>What the parser returns\<close>

text \<open>The field lines a list of indices denotes, with the names as \<^verbatim>\<open>HeaderName\<close> stores them.\<close>

definition field_of :: "bytes \<Rightarrow> HeaderIndices \<Rightarrow> header_name \<times> header_value" where
  "field_of s i = (map to_ascii_lowercase (the (range_of s (idx_name i))), the (range_of s (idx_value i)))"

text \<open>The framing headers of a request agree with the encoder of its body. A chunked body is announced by a
  final \<^verbatim>\<open>chunked\<close> coding, and the \<^verbatim>\<open>Content-Length\<close> lines beside it are those of the user if they are no
  valid length, and none otherwise. A sized body is announced by no coding and by its length; a body of
  unknown length that is left out is announced by neither, apart from such invalid lines.\<close>

definition framing_agrees :: "('m, 'z) http_lib_scheme \<Rightarrow> 'm \<Rightarrow> 'm \<Rightarrow> encoder \<Rightarrow> BodyLength \<Rightarrow> bool" where
  "framing_agrees H user hs enc body =
     (let invalid = (if content_length_parse_all H user = None then hm_get_all H user ''content-length'' else [])
      in case ekind enc of
           EChunked _ \<Rightarrow> transfer_encoding_is_chunked H hs \<and> hm_get_all H hs ''content-length'' = invalid
         | ELength n \<Rightarrow> \<not> hm_contains_key H hs ''transfer-encoding'' \<and>
             (content_length_parse_all H hs = Some n \<or>
              n = 0 \<and> body = Unknown \<and> hm_get_all H hs ''content-length'' = invalid))"

context http_laws
begin

lemma read_headers_fields:
  "read_headers H s is ka cm hs = Some (Inr (ka', cm', hs')) \<Longrightarrow>
   hm_get_all H hs' k = hm_get_all H hs k @ map snd (filter (\<lambda>f. fst f = k) (map (field_of s) is))"
proof (induction "is" arbitrary: ka cm hs)
  case (Cons i "is")
  from Cons.prems obtain n name v where nv: "range_of s (idx_name i) = Some n"
    "hn_from_bytes H n = Some name" "range_of s (idx_value i) = Some v"
    by (auto split: option.splits)
  with Cons.prems Cons.IH have
    "hm_get_all H hs' k = hm_get_all H (hm_append H name v hs) k @
       map snd (filter (\<lambda>f. fst f = k) (map (field_of s) is))"
    by (auto split: if_splits)
  then show ?case
    using nv from_bytes_lower [OF nv(2)] by (simp add: field_of_def [of s i] get_all_append)
qed simp

text \<open>An exact body length is only decided on when nothing in the head contradicts it.\<close>

lemma client_decoder_exact:
  assumes "client_decoder H inc m = Inr (Some (len, up))" and "is_exact len" and "len \<noteq> 0"
  shows "\<not> up \<and> \<not> hm_contains_key H (mh_headers inc) ''transfer-encoding'' \<and>
    content_length_parse_all H (mh_headers inc) = Some len"
proof -
  have "\<not> is_exact CHUNKED" "\<not> is_exact CLOSE_DELIMITED"
    using sentinel_iff by (auto simp: is_exact_def)
  then have "len \<noteq> CHUNKED" "len \<noteq> CLOSE_DELIMITED" "len \<noteq> ZERO" using assms(2,3) by (auto simp: ZERO_def)
  with assms(1) show ?thesis
    by (auto simp: client_decoder_def Let_def checked_new_def split: if_splits option.splits)
qed

section \<open>Framing of requests\<close>

lemma content_length_inserted:
  "content_length_parse_all H (hm_insert H ''content-length'' (header_value_of_u64 n) hs) = Some n"
proof -
  have "list_all visible_ascii (decimal (unat n))"
    using decimal_digits [of "unat n"]
    by (auto simp: list_all_iff is_digit_def byte_in_def visible_ascii_def)
  moreover have "CHR '','' \<notin> set (decimal (unat n))"
    using decimal_digits [of "unat n"] by (auto simp: list_all_iff is_digit_def byte_in_def)
  moreover have "trim (decimal (unat n)) = decimal (unat n)"
  proof -
    have "\<not> is_whitespace b" if "is_digit b" for b
      using that by (auto simp: is_digit_def byte_in_def is_whitespace_def)
    then show ?thesis
      using decimal_digits [of "unat n"] unfolding trim_def
      by (intro trim_with_no_ws) (auto simp: list_all_iff)
  qed
  moreover have "from_digits (decimal (unat n)) = Some n"
    using decimal_digits [of "unat n"] unsigned_less [of n] by (simp add: from_digits_Some)
  ultimately show ?thesis
    by (simp add: content_length_parse_all_def content_length_parse_all_values_def get_all_insert
        header_value_of_u64_def to_str_ascii split_on_no_sep)
qed

lemma set_length_total: "\<exists>head' enc. set_length H head body = Some (head', enc)"
  by (auto simp: set_length_def te_entry_def set_content_length_def Let_def split: option.splits BodyLength.splits)

lemma get_all_add_chunked:
  "k' \<noteq> k \<Longrightarrow> hm_contains_key H m k \<Longrightarrow> hm_get_all H (add_chunked H k m) k' = hm_get_all H m k'"
  by (auto simp: add_chunked_def hm_contains_key_def get_all_set_last split: list.splits)

lemma content_length_parse_all_cong:
  "hm_get_all H hs' ''content-length'' = hm_get_all H hs ''content-length'' \<Longrightarrow>
   content_length_parse_all H hs' = content_length_parse_all H hs"
  by (simp add: content_length_parse_all_def)

lemma content_length_removed: "content_length_parse_all H (hm_remove H ''content-length'' hs) = None"
  by (simp add: content_length_parse_all_def content_length_parse_all_values_def get_all_remove)

lemma framing_te_entry:
  assumes "te_entry H hs meth body (content_length_parse_all H hs) = (hs', Some enc, rm)"
    and "\<And>v. v \<in> set (hm_get_all H hs ''transfer-encoding'') \<Longrightarrow> list_all visible_ascii v"
  shows "framing_agrees H hs (if rm \<and> content_length_parse_all H hs \<noteq> None
    then hm_remove H ''content-length'' hs' else hs') enc body"
proof (cases "hm_contains_key H hs ''transfer-encoding''")
  case True
  have "transfer_encoding_is_chunked H hs'" "rm" "enc = encoder_chunked"
    "hm_get_all H hs' ''content-length'' = hm_get_all H hs ''content-length''"
    using assms(1) True add_chunked_is_chunked [OF assms(2)] get_all_add_chunked [OF _ True]
    by (auto simp: te_entry_def transfer_encoding_is_chunked_def split: if_splits)
  then show ?thesis
    by (simp add: framing_agrees_def encoder_chunked_def encoder_new_def
        transfer_encoding_is_chunked_def get_all_remove)
next
  case False
  have "is_chunked_value H ''chunked''"
    by (simp add: is_chunked_value_def to_str_ascii visible_ascii_def trim_def trim_with_def is_whitespace_def)
  then have "transfer_encoding_is_chunked H (hm_insert H ''transfer-encoding'' ''chunked'' hs)"
    by (simp add: transfer_encoding_is_chunked_def is_chunked_def get_all_insert)
  moreover have "hm_get_all H (hm_insert H ''transfer-encoding'' ''chunked'' hs) ''content-length'' =
      hm_get_all H hs ''content-length''"
    by (simp add: get_all_insert)
  ultimately show ?thesis using assms(1) False
    by (auto simp: te_entry_def framing_agrees_def encoder_length_def encoder_chunked_def encoder_new_def
        split: option.splits BodyLength.splits if_splits)
qed

lemma framing_trailing:
  "framing_agrees H user hs enc body \<Longrightarrow> framing_agrees H user hs (with_trailing_fields H hs' enc) body"
  by (auto simp: framing_agrees_def with_trailing_fields_def into_chunked_with_trailing_fields_def
      encoder_is_chunked_def Let_def split: encoder_kind.splits)

lemma framing_set_content_length:
  "\<not> hm_contains_key H hs ''transfer-encoding'' \<Longrightarrow> set_content_length H hs n = (hs', enc) \<Longrightarrow>
   framing_agrees H user hs' enc body"
  by (auto simp: set_content_length_def framing_agrees_def encoder_length_def encoder_new_def
      content_length_inserted contains_key_insert)

lemma set_length_framing:
  assumes "set_length H head (Some body) = Some (head', enc)"
    and "\<And>v. v \<in> set (hm_get_all H (mh_headers head) ''transfer-encoding'') \<Longrightarrow> list_all visible_ascii v"
  shows "framing_agrees H (mh_headers head) (mh_headers head') enc body"
proof (cases "mh_version head = HTTP_11")
  case False
  let ?hs = "hm_remove H ''transfer-encoding'' (mh_headers head)"
  have te: "\<not> hm_contains_key H ?hs ''transfer-encoding''" by (simp add: contains_key_remove)
  have cl: "content_length_parse_all H ?hs = content_length_parse_all H (mh_headers head)"
    by (rule content_length_parse_all_cong) (simp add: get_all_remove)
  show ?thesis
    using assms(1) False te cl framing_set_content_length [OF te]
    by (auto simp: set_length_def Let_def framing_agrees_def [of H _ ?hs] encoder_length_def encoder_new_def get_all_remove
        split: option.splits BodyLength.splits prod.splits)
next
  case True
  let ?hs = "mh_headers head"
  obtain hs' e rm where te: "te_entry H ?hs (fst (mh_subject head)) body (content_length_parse_all H ?hs) = (hs', e, rm)"
    by (cases "te_entry H ?hs (fst (mh_subject head)) body (content_length_parse_all H ?hs)")
  show ?thesis
  proof (cases e)
    case (Some enc0)
    from framing_trailing [OF framing_te_entry [OF te [unfolded Some] assms(2)], of hs'] show ?thesis
      using assms(1) True te Some by (auto simp: set_length_def Let_def)
  next
    case None
    then have "\<not> hm_contains_key H hs' ''transfer-encoding''"
      using te by (auto simp: te_entry_def split: if_splits option.splits BodyLength.splits)
    then show ?thesis
      using assms(1) True te None framing_set_content_length
      by (auto simp: set_length_def Let_def split: BodyLength.splits prod.splits)
  qed
qed

end

section \<open>Properties\<close>

definition plain_ctx :: "http_method \<Rightarrow> bool ParseContext" where
  "plain_ctx m = \<lparr>ctx_req_method = Some m, ctx_parser_config = False, ctx_max_headers = None,
     ctx_preserve_header_case = False, ctx_h09_responses = False\<rparr>"

text \<open>C13. The fast scan for the end of a head, which looks only at the bytes from three before the end of the
  previous read, decides exactly whether an empty line occurs anywhere in the buffer, provided that none
  occurred in the part that had been read before.\<close>

theorem fast_scan_equivalent:
  assumes "prev_len \<le> length s" and "\<not> has_end (take prev_len s)"
  shows "is_complete_fast s prev_len \<longleftrightarrow> has_end s"
  using is_complete_fast_iff [OF assms] .

text \<open>Witness of C13: the end of the head arrives in a second read that splits it.\<close>

theorem fast_scan_equivalent_witness:
  "is_complete_fast (''OK'' @ CRLF @ CRLF) 5 = has_end (''OK'' @ CRLF @ CRLF)"
  by (rule fast_scan_equivalent) (simp_all flip: scan_end_has_end)

text \<open>Unfolding an obsolete folded header value never panics: for indices inside the head the result fits
  over the old value, the head keeps its length, the name is untouched, and the value the new indices denote
  has no line feed left.\<close>

lemma obs_fold_in_place:
  assumes "idx_in (length s) i"
  shows "\<exists>s' i'. obs_fold_line s i = Some (s', i') \<and> length s' = length s \<and> idx_in (length s) i' \<and>
    idx_name i' = idx_name i \<and> (\<exists>v. range_of s' (idx_value i') = Some v \<and> LF \<notin> set v)"
  using obs_fold_line_total [OF assms] .

text \<open>At a concrete input: a value folded over two lines.\<close>

lemma obs_fold_in_place_instance:
  "\<exists>s' i'. obs_fold_line (''a: b'' @ CRLF @ '' c'') \<lparr>idx_name = (0, 1), idx_value = (3, 8)\<rparr> = Some (s', i') \<and>
    length s' = 8"
  using obs_fold_in_place [of "''a: b'' @ CRLF @ '' c''" "\<lparr>idx_name = (0, 1), idx_value = (3, 8)\<rparr>"]
  by (auto simp: idx_in_def)

text \<open>Parsing a response head returns on every buffer: the loop that skips informational responses ends
  and no slice is out of range, for every header parser that stays inside the buffer it is given; and
  what is left of the buffer is a suffix of it.\<close>

lemma client_parse_returns:
  assumes "h1_laws H"
  shows "\<exists>buf' cached' r. client_parse H ctx buf cached = Some (buf', cached', r) \<and> suffix buf' buf"
  using h1_laws.client_parse_total [OF assms] .

text \<open>At a concrete input: an informational response before the final one.\<close>

lemma client_parse_returns_instance:
  "\<exists>buf' cached' r. client_parse assoc_h1 (plain_ctx GET)
     (''HTTP/1.1 100 Continue'' @ CRLF @ CRLF @ ''HTTP/1.1 204 No Content'' @ CRLF @ CRLF) None = Some (buf', cached', r)"
  using client_parse_returns [OF assoc_h1.h1_laws_axioms] by blast

text \<open>The header map of a parsed head holds, for every name, the values received under that name in the order
  received, after whatever the reused map held; names compare in lower case.\<close>

lemma parsed_headers_complete:
  assumes "http_laws H" and "read_headers H s is ka cm hs = Some (Inr (ka', cm', hs'))"
  shows "hm_get_all H hs' k = hm_get_all H hs k @ map snd (filter (\<lambda>f. fst f = k) (map (field_of s) is))"
  using http_laws.read_headers_fields [OF assms] .

definition two_fields :: "bytes \<times> HeaderIndices list" where
  "two_fields = (''A:xB:y'', [\<lparr>idx_name = (0, 1), idx_value = (2, 3)\<rparr>, \<lparr>idx_name = (3, 4), idx_value = (5, 6)\<rparr>])"

lemma read_two_fields:
  "read_headers assoc_http (fst two_fields) (snd two_fields) True None [] =
     Some (Inr (True, None, [(''a'', ''x''), (''b'', ''y'')]))"
  by code_simp

text \<open>At a concrete input: two fields.\<close>

lemma parsed_headers_complete_instance:
  "hm_get_all assoc_http [(''a'', ''x''), (''b'', ''y'')] ''b'' =
     hm_get_all assoc_http [] ''b'' @
       map snd (filter (\<lambda>f. fst f = ''b'') (map (field_of (fst two_fields)) (snd two_fields)))"
  using parsed_headers_complete [OF assoc.http_laws_axioms read_two_fields] .

text \<open>C10. A response body gets an exact non-zero length only when nothing in the head contradicts it: there is no
  \<^verbatim>\<open>Transfer-Encoding\<close>, every part of every \<^verbatim>\<open>Content-Length\<close> line denotes that length, and the
  connection is not upgraded.\<close>

theorem response_length_unambiguous:
  assumes "http_laws H" and "client_decoder H inc m = Inr (Some (len, up))" and "is_exact len" and "len \<noteq> 0"
  shows "\<not> up \<and> \<not> hm_contains_key H (mh_headers inc) ''transfer-encoding'' \<and>
    hm_get_all H (mh_headers inc) ''content-length'' \<noteq> [] \<and>
    (\<forall>h\<in>set (hm_get_all H (mh_headers inc) ''content-length''). line_denotes H len h)"
  using http_laws.client_decoder_exact [OF assms]
  by (simp add: content_length_parse_all_def content_length_parse_all_values_iff)

definition sized_head :: "assoc_map ResponseHead" where
  "sized_head = \<lparr>mh_version = HTTP_11, mh_subject = 200, mh_headers = [(''content-length'', ''7'')],
     mh_case_map = None, mh_reason = None\<rparr>"

lemma decode_sized: "client_decoder assoc_http sized_head (Some GET) = Inr (Some (7, False))"
  by (simp add: client_decoder_def sized_head_def Let_def hm_contains_key_def assoc_http_def assoc_get_all_def
      content_length_parse_all_def content_length_parse_all_values_def from_digits_def visible_ascii_def
      trim_def trim_with_def is_whitespace_def byte_in_def checked_mul_def checked_add_def checked_new_def MAX_LEN_def)

text \<open>Witness of C10: a response of seven bytes.\<close>

theorem response_length_unambiguous_witness:
  "\<not> hm_contains_key assoc_http (mh_headers sized_head) ''transfer-encoding''"
  using response_length_unambiguous [OF assoc.http_laws_axioms decode_sized]
  by (simp add: is_exact_def MAX_LEN_def)

text \<open>C7. The framing headers of a request with a body agree with the encoder chosen for the body, for every version,
  method, body length and set of user headers whose \<^verbatim>\<open>Transfer-Encoding\<close> values are visible ASCII. A chunked
  body is announced by a final \<^verbatim>\<open>chunked\<close> coding; a \<^verbatim>\<open>Content-Length\<close> stands beside it exactly if the user gave one
  that is no valid length. A sized body is announced by no coding and by its length. A body of unknown
  length that is left out is announced by no coding and by no length other than such an invalid one. The choice
  never reaches the \<^verbatim>\<open>unreachable!\<close> at its end.\<close>

theorem request_framing_agrees:
  assumes "http_laws H"
    and "\<forall>v\<in>set (hm_get_all H (mh_headers head) ''transfer-encoding''). list_all visible_ascii v"
  shows "\<exists>head' enc. set_length H head (Some body) = Some (head', enc) \<and>
    framing_agrees H (mh_headers head) (mh_headers head') enc body"
proof -
  obtain head' enc where e: "set_length H head (Some body) = Some (head', enc)"
    using http_laws.set_length_total [OF assms(1)] by blast
  from http_laws.set_length_framing [OF assms(1) this] assms(2) e show ?thesis by blast
qed

definition gzip_post :: "assoc_map RequestHead" where
  "gzip_post = \<lparr>mh_version = HTTP_11, mh_subject = (POST, ''/''),
     mh_headers = [(''transfer-encoding'', ''gzip''), (''content-length'', ''5'')], mh_case_map = None, mh_reason = None\<rparr>"

text \<open>Witness of C7: a user coding without \<^verbatim>\<open>chunked\<close> next to a content length.\<close>

theorem request_framing_agrees_witness:
  "\<exists>head' enc. set_length assoc_http gzip_post (Some Unknown) = Some (head', enc) \<and>
     framing_agrees assoc_http (mh_headers gzip_post) (mh_headers head') enc Unknown"
  using request_framing_agrees [OF assoc.http_laws_axioms, of gzip_post Unknown]
  by (simp add: gzip_post_def assoc_http_def assoc_get_all_def visible_ascii_def)

text \<open>An invalid \<^verbatim>\<open>Content-Length\<close> of the user is sent along with a chunked body, although the code repairs
  such a line when it knows the length.\<close>

lemma invalid_length_beside_chunked:
  "set_length assoc_http (gzip_post\<lparr>mh_headers := [(''content-length'', ''x''), (''transfer-encoding'', ''chunked'')]\<rparr>) (Some Unknown) =
     Some (gzip_post\<lparr>mh_headers := [(''content-length'', ''x''), (''transfer-encoding'', ''chunked'')]\<rparr>, encoder_chunked)"
  by code_simp

text \<open>Of two \<^verbatim>\<open>Connection\<close> lines \<^verbatim>\<open>close\<close> and \<^verbatim>\<open>keep-alive\<close>, the later one wins: a response that
  says \<^verbatim>\<open>close\<close> and then \<^verbatim>\<open>keep-alive\<close> leaves the connection marked for reuse, although the comment
  in the code takes a cleared flag to mean an HTTP/1.0 peer.\<close>

lemma connection_close_overridden:
  "read_headers assoc_http ''connection:close'' [\<lparr>idx_name = (0, 10), idx_value = (11, 16)\<rparr>] True None [] =
     Some (Inr (False, None, [(''connection'', ''close'')])) \<and>
   read_headers assoc_http ''connection:closeconnection:keep-alive''
     [\<lparr>idx_name = (0, 10), idx_value = (11, 16)\<rparr>, \<lparr>idx_name = (16, 26), idx_value = (27, 37)\<rparr>] True None [] =
     Some (Inr (True, None, [(''connection'', ''close''), (''connection'', ''keep-alive'')]))"
  by (simp add: range_of_def assoc_http_def to_ascii_lowercase_def byte_in_def connection_close_def
      connection_keep_alive_def connection_has_def visible_ascii_def eq_ignore_ascii_case_def trim_def
      trim_with_def is_whitespace_def)

end
