(* ===== verification/H1_Conn.thy ===== *)
theory H1_Conn
  imports H1_Io H1_Role H1_Decode
begin

unbundle bit_operations_syntax

text \<open>
  The HTTP/1 client connection (\<^verbatim>\<open>src/src/core/proto/h1/conn.rs\<close>, instantiated at the client role):
  the reading and writing states, the keep-alive status, and every operation the dispatcher calls.
  A connection is the buffered transport of theory H1_Io, with the encoded buffers of theory
  H1_Encode in its write queue, and the record \<open>conn_state\<close>. The generic constants of the role
  are those of the client: it does not read first, an end of file while parsing is an error, and there
  is no response to a parse error.

  \<^const>\<open>None\<close> as the result of an operation means that it does not return normally: a panic
  (\<^verbatim>\<open>unreachable!\<close>, a buffer advanced past its end) or a loop that does not end.
\<close>

section \<open>State\<close>

datatype Reading = RInit | RContinue decoder | RBody decoder | RKeepAlive | RClosed
datatype Writing = WInit | WBody encoder | WKeepAlive | WClosed
datatype KA = KAIdle | KABusy | KADisabled

record ('m, 'c) conn_state =
  s_allow_half_close :: bool
  s_cached_headers :: "'m option"
  s_error :: "core_error option"
  s_keep_alive :: KA
  s_method :: "http_method option"
  s_parser_config :: 'c
  s_max_headers :: "nat option"
  s_preserve_header_case :: bool
  s_title_case_headers :: bool
  s_h09_responses :: bool
  s_notify_read :: bool
  s_reading :: Reading
  s_writing :: Writing
  s_upgrade :: bool
  s_version :: version
  s_allow_trailer_fields :: bool

record ('t, 'm, 'c) Conn =
  cio :: "('t, EncodedBuf) Buffered"
  cst :: "('m, 'c) conn_state"

text \<open>\<^verbatim>\<open>Wants\<close>, a set of two flags in a byte.\<close>

definition wants_EMPTY :: u8 where "wants_EMPTY = 0"
definition wants_EXPECT :: u8 where "wants_EXPECT = 1"
definition wants_UPGRADE :: u8 where "wants_UPGRADE = 2"

definition wants_add :: "u8 \<Rightarrow> u8 \<Rightarrow> u8" where
  "wants_add a b = a OR b"

definition wants_contains :: "u8 \<Rightarrow> u8 \<Rightarrow> bool" where
  "wants_contains a b \<longleftrightarrow> a AND b = b"

subsection \<open>Operations of the state\<close>

text \<open>\<^verbatim>\<open>KA &= enabled\<close>.\<close>

definition ka_and :: "KA \<Rightarrow> bool \<Rightarrow> KA" where
  "ka_and ka enabled = (if \<not> enabled then KADisabled else ka)"

definition state_close :: "('m, 'c) conn_state \<Rightarrow> ('m, 'c) conn_state" where
  "state_close s = s\<lparr>s_reading := RClosed, s_writing := WClosed, s_keep_alive := KADisabled\<rparr>"

definition state_close_read :: "('m, 'c) conn_state \<Rightarrow> ('m, 'c) conn_state" where
  "state_close_read s = s\<lparr>s_reading := RClosed, s_keep_alive := KADisabled\<rparr>"

definition state_close_write :: "('m, 'c) conn_state \<Rightarrow> ('m, 'c) conn_state" where
  "state_close_write s = s\<lparr>s_writing := WClosed, s_keep_alive := KADisabled\<rparr>"

definition wants_keep_alive :: "('m, 'c) conn_state \<Rightarrow> bool" where
  "wants_keep_alive s \<longleftrightarrow> s_keep_alive s \<noteq> KADisabled"

definition is_idle :: "('m, 'c) conn_state \<Rightarrow> bool" where
  "is_idle s \<longleftrightarrow> s_keep_alive s = KAIdle"

definition state_idle :: "('m, 'c) conn_state \<Rightarrow> ('m, 'c) conn_state" where
  "state_idle s =
     (let s = s\<lparr>s_method := None, s_keep_alive := KAIdle\<rparr>
      in if \<not> is_idle s then state_close s
         else s\<lparr>s_reading := RInit, s_writing := WInit, s_notify_read := True\<rparr>)"

definition state_try_keep_alive :: "('m, 'c) conn_state \<Rightarrow> ('m, 'c) conn_state" where
  "state_try_keep_alive s =
     (case (s_reading s, s_writing s) of
        (RKeepAlive, WKeepAlive) \<Rightarrow> if s_keep_alive s = KABusy then state_idle s else state_close s
      | (RClosed, WKeepAlive) \<Rightarrow> state_close s
      | (RKeepAlive, WClosed) \<Rightarrow> state_close s
      | _ \<Rightarrow> s)"

definition disable_keep_alive :: "('m, 'c) conn_state \<Rightarrow> ('m, 'c) conn_state" where
  "disable_keep_alive s = s\<lparr>s_keep_alive := KADisabled\<rparr>"

definition state_busy :: "('m, 'c) conn_state \<Rightarrow> ('m, 'c) conn_state" where
  "state_busy s = (if s_keep_alive s = KADisabled then s else s\<lparr>s_keep_alive := KABusy\<rparr>)"

definition is_read_closed :: "('m, 'c) conn_state \<Rightarrow> bool" where
  "is_read_closed s \<longleftrightarrow> s_reading s = RClosed"

definition is_write_closed :: "('m, 'c) conn_state \<Rightarrow> bool" where
  "is_write_closed s \<longleftrightarrow> s_writing s = WClosed"

definition prepare_upgrade :: "('m, 'c) conn_state \<Rightarrow> ('m, 'c) conn_state" where
  "prepare_upgrade s = s\<lparr>s_upgrade := True\<rparr>"

section \<open>Construction and queries\<close>

definition conn_new :: "('t, 'z) transport_ops_scheme \<Rightarrow> 'c \<Rightarrow> 't \<Rightarrow> ('t, 'm, 'c) Conn" where
  "conn_new T default_config t =
     \<lparr>cio = buffered_new T t,
      cst = \<lparr>s_allow_half_close = False, s_cached_headers = None, s_error = None, s_keep_alive = KABusy,
             s_method = None, s_parser_config = default_config, s_max_headers = None,
             s_preserve_header_case = False, s_title_case_headers = False, s_h09_responses = False,
             s_notify_read = False, s_reading = RInit, s_writing = WInit, s_upgrade = False,
             s_version = HTTP_11, s_allow_trailer_fields = False\<rparr>\<rparr>"

definition set_h09_responses :: "('t, 'm, 'c) Conn \<Rightarrow> ('t, 'm, 'c) Conn" where
  "set_h09_responses c = c\<lparr>cst := (cst c)\<lparr>s_h09_responses := True\<rparr>\<rparr>"

definition set_title_case_headers :: "('t, 'm, 'c) Conn \<Rightarrow> ('t, 'm, 'c) Conn" where
  "set_title_case_headers c = c\<lparr>cst := (cst c)\<lparr>s_title_case_headers := True\<rparr>\<rparr>"

definition set_preserve_header_case :: "('t, 'm, 'c) Conn \<Rightarrow> ('t, 'm, 'c) Conn" where
  "set_preserve_header_case c = c\<lparr>cst := (cst c)\<lparr>s_preserve_header_case := True\<rparr>\<rparr>"

definition set_h1_parser_config :: "('t, 'm, 'c) Conn \<Rightarrow> 'c \<Rightarrow> ('t, 'm, 'c) Conn" where
  "set_h1_parser_config c cfg = c\<lparr>cst := (cst c)\<lparr>s_parser_config := cfg\<rparr>\<rparr>"

definition set_http1_max_headers :: "('t, 'm, 'c) Conn \<Rightarrow> nat \<Rightarrow> ('t, 'm, 'c) Conn" where
  "set_http1_max_headers c n = c\<lparr>cst := (cst c)\<lparr>s_max_headers := Some n\<rparr>\<rparr>"

definition pending_upgrade :: "('t, 'm, 'c) Conn \<Rightarrow> ('t, 'm, 'c) Conn \<times> bool" where
  "pending_upgrade c = (c\<lparr>cst := (cst c)\<lparr>s_upgrade := False\<rparr>\<rparr>, s_upgrade (cst c))"

definition can_read_head :: "('t, 'm, 'c) Conn \<Rightarrow> bool" where
  "can_read_head c \<longleftrightarrow> s_reading (cst c) = RInit \<and> s_writing (cst c) \<noteq> WInit"

definition can_read_body :: "('t, 'm, 'c) Conn \<Rightarrow> bool" where
  "can_read_body c = (case s_reading (cst c) of RBody _ \<Rightarrow> True | RContinue _ \<Rightarrow> True | _ \<Rightarrow> False)"

definition should_error_on_eof :: "('t, 'm, 'c) Conn \<Rightarrow> bool" where
  "should_error_on_eof c \<longleftrightarrow> \<not> is_idle (cst c)"

definition H2_PREFACE :: bytes where
  "H2_PREFACE = ''PRI * HTTP/2.0'' @ CRLF @ CRLF @ ''SM'' @ CRLF @ CRLF"

definition has_h2_prefix :: "('t, 'm, 'c) Conn \<Rightarrow> bool" where
  "has_h2_prefix c \<longleftrightarrow> length (read_buf (cio c)) \<ge> 24 \<and> take 24 (read_buf (cio c)) = H2_PREFACE"

definition is_mid_message :: "('t, 'm, 'c) Conn \<Rightarrow> bool" where
  "is_mid_message c \<longleftrightarrow> \<not> (s_reading (cst c) = RInit \<and> s_writing (cst c) = WInit)"

section \<open>Keep-alive\<close>

definition maybe_notify ::
  "('t, 'z) transport_ops_scheme \<Rightarrow> (nat \<Rightarrow> nat \<Rightarrow> nat) \<Rightarrow> ('t, 'm, 'c) Conn \<Rightarrow> ('t, 'm, 'c) Conn" where
  "maybe_notify T grow c =
     (if s_reading (cst c) \<noteq> RInit then c
      else case s_writing (cst c) of
             WBody _ \<Rightarrow> c
           | _ \<Rightarrow>
               if is_read_blocked (cio c) then c
               else if read_buf (cio c) = []
               then case poll_read_from_io T grow (cio c) of
                      (b, Ready (Inr n)) \<Rightarrow>
                        (let c = c\<lparr>cio := b\<rparr>
                         in if n = 0
                            then c\<lparr>cst := (if is_idle (cst c) then state_close (cst c) else state_close_read (cst c))\<rparr>
                            else c\<lparr>cst := (cst c)\<lparr>s_notify_read := True\<rparr>\<rparr>)
                    | (b, Pending) \<Rightarrow> c\<lparr>cio := b\<rparr>
                    | (b, Ready (Inl e)) \<Rightarrow>
                        c\<lparr>cio := b,
                          cst := (state_close (cst c))\<lparr>s_error := Some (new_io e), s_notify_read := True\<rparr>\<rparr>
               else c\<lparr>cst := (cst c)\<lparr>s_notify_read := True\<rparr>\<rparr>)"

definition conn_try_keep_alive ::
  "('t, 'z) transport_ops_scheme \<Rightarrow> (nat \<Rightarrow> nat \<Rightarrow> nat) \<Rightarrow> ('t, 'm, 'c) Conn \<Rightarrow> ('t, 'm, 'c) Conn" where
  "conn_try_keep_alive T grow c = maybe_notify T grow (c\<lparr>cst := state_try_keep_alive (cst c)\<rparr>)"

section \<open>Reading a head\<close>

text \<open>\<^verbatim>\<open>Buffered::parse\<close>: parse what is buffered, read more while it is incomplete.\<close>

partial_function (option) buffered_parse ::
  "('t, 'z) transport_ops_scheme \<Rightarrow> (nat \<Rightarrow> nat \<Rightarrow> nat) \<Rightarrow> ('m, 'c, 'y) h1_lib_scheme \<Rightarrow> 'c ParseContext \<Rightarrow>
   ('t, 'b) Buffered \<Rightarrow> 'm option \<Rightarrow>
   (('t, 'b) Buffered \<times> 'm option \<times> (core_error + 'm ParsedMessage) poll) option" where
  "buffered_parse T grow H ctx b cached =
     (case parse_headers H ctx (read_buf b) cached (partial_len b) of
        None \<Rightarrow> None
      | Some (buf', cached', Inl e) \<Rightarrow>
          Some (read_buf_advance b (length (read_buf b) - length buf'), cached', Ready (Inl (error_new (KParse e))))
      | Some (buf', cached', Inr (Some msg)) \<Rightarrow>
          Some ((read_buf_advance b (length (read_buf b) - length buf'))\<lparr>partial_len := None\<rparr>, cached', Ready (Inr msg))
      | Some (buf', cached', Inr None) \<Rightarrow>
          (let b1 = read_buf_advance b (length (read_buf b) - length buf');
               curr_len = length (read_buf b1)
           in if curr_len \<ge> strategy_max (read_buf_strategy b1)
              then Some (b1, cached', Ready (Inl new_too_large))
              else case poll_read_from_io T grow
                          (b1\<lparr>partial_len := (if curr_len > 0 then Some curr_len else None)\<rparr>) of
                     (b2, Pending) \<Rightarrow> Some (b2, cached', Pending)
                   | (b2, Ready (Inl e)) \<Rightarrow> Some (b2, cached', Ready (Inl (new_io e)))
                   | (b2, Ready (Inr n)) \<Rightarrow>
                       if n = 0 then Some (b2, cached', Ready (Inl new_incomplete))
                       else buffered_parse T grow H ctx b2 cached'))"

text \<open>\<^verbatim>\<open>on_parse_error\<close>; \<^verbatim>\<open>T::on_error\<close> gives the client no message.\<close>

definition on_parse_error :: "('t, 'm, 'c) Conn \<Rightarrow> core_error \<Rightarrow> core_error" where
  "on_parse_error c err = (if s_writing (cst c) = WInit \<and> has_h2_prefix c then new_version_h2 else err)"

definition on_read_head_error ::
  "('t, 'm, 'c) Conn \<Rightarrow> core_error \<Rightarrow> ('t, 'm, 'c) Conn \<times> (core_error + 'x) option poll" where
  "on_read_head_error c e =
     (let must_error = should_error_on_eof c;
          c = c\<lparr>cst := state_close_read (cst c), cio := consume_leading_lines (cio c)\<rparr>;
          was_mid_parse = is_parse e \<or> read_buf (cio c) \<noteq> []
      in if was_mid_parse \<or> must_error
         then (c, Ready (Some (Inl (on_parse_error c e))))
         else (c\<lparr>cst := state_close_write (cst c)\<rparr>, Ready None))"

text \<open>The part of \<^verbatim>\<open>poll_read_head\<close> after a head has been parsed.\<close>

definition head_parsed ::
  "('t, 'z) transport_ops_scheme \<Rightarrow> (nat \<Rightarrow> nat \<Rightarrow> nat) \<Rightarrow> ('m, 'c, 'y) h1_lib_scheme \<Rightarrow> ('t, 'm, 'c) Conn \<Rightarrow>
   'm ParsedMessage \<Rightarrow> ('t, 'm, 'c) Conn \<times> u8" where
  "head_parsed T grow H c msg =
     (let s = state_busy ((cst c)\<lparr>s_h09_responses := False\<rparr>);
          s = s\<lparr>s_keep_alive := ka_and (s_keep_alive s) (pm_keep_alive msg), s_version := mh_version (pm_head msg)\<rparr>;
          wants = (if pm_wants_upgrade msg then wants_UPGRADE else wants_EMPTY);
          (c, wants) =
            (if pm_decode msg = ZERO
             then (conn_try_keep_alive T grow (c\<lparr>cst := s\<lparr>s_reading := RKeepAlive\<rparr>\<rparr>), wants)
             else let d = decoder_new (pm_decode msg) (s_max_headers s) None
                  in if pm_expect_continue msg \<and> mh_version (pm_head msg) \<notin> {HTTP_09, HTTP_10}
                     then (c\<lparr>cst := s\<lparr>s_reading := RContinue d\<rparr>\<rparr>, wants_add wants wants_EXPECT)
                     else (c\<lparr>cst := s\<lparr>s_reading := RBody d\<rparr>\<rparr>, wants));
          allow = (hm_get H (mh_headers (pm_head msg)) ''te'' = Some ''trailers'')
      in (c\<lparr>cst := (cst c)\<lparr>s_allow_trailer_fields := allow\<rparr>\<rparr>, wants))"

definition poll_read_head ::
  "('t, 'z) transport_ops_scheme \<Rightarrow> (nat \<Rightarrow> nat \<Rightarrow> nat) \<Rightarrow> ('m, 'c, 'y) h1_lib_scheme \<Rightarrow> ('t, 'm, 'c) Conn \<Rightarrow>
   (('t, 'm, 'c) Conn \<times> (core_error + 'm ResponseHead \<times> DecodedLength \<times> u8) option poll) option" where
  "poll_read_head T grow H c =
     (let s = cst c;
          ctx = \<lparr>ctx_req_method = s_method s, ctx_parser_config = s_parser_config s,
                 ctx_max_headers = s_max_headers s,
                 ctx_preserve_header_case = s_preserve_header_case s,
                 ctx_h09_responses = s_h09_responses s\<rparr>
      in case buffered_parse T grow H ctx (cio c) (s_cached_headers s) of
           None \<Rightarrow> None
         | Some (b, cached, r) \<Rightarrow>
             (let c = c\<lparr>cio := b, cst := s\<lparr>s_cached_headers := cached\<rparr>\<rparr>
              in case r of
                   Pending \<Rightarrow> Some (c, Pending)
                 | Ready (Inl e) \<Rightarrow> Some (on_read_head_error c e)
                 | Ready (Inr msg) \<Rightarrow>
                     (case head_parsed T grow H c msg of
                        (c, wants) \<Rightarrow> Some (c, Ready (Some (Inr (pm_head msg, pm_decode msg, wants)))))))"

section \<open>Reading a body\<close>

text \<open>The branch \<^verbatim>\<open>Reading::Body(decoder)\<close> of \<^verbatim>\<open>poll_read_body\<close>.\<close>

definition poll_read_body_with ::
  "('t, 'z) transport_ops_scheme \<Rightarrow> (nat \<Rightarrow> nat \<Rightarrow> nat) \<Rightarrow> ('m, 'y) http_lib_scheme \<Rightarrow> ('t, 'm, 'c) Conn \<Rightarrow> decoder \<Rightarrow>
   (('t, 'm, 'c) Conn \<times> (io_error + 'm frame) option poll) option" where
  "poll_read_body_with T grow H c d =
     (case decode H (buffered_read_mem T grow) (cio c) d of
        None \<Rightarrow> None
      | Some (b, d', res) \<Rightarrow>
          (let c = c\<lparr>cio := b, cst := (cst c)\<lparr>s_reading := RBody d'\<rparr>\<rparr>;
               leave = (\<lambda>reading ret. Some (conn_try_keep_alive T grow (c\<lparr>cst := (cst c)\<lparr>s_reading := reading\<rparr>\<rparr>), ret))
           in case res of
                Pending \<Rightarrow> Some (c, Pending)
              | Ready (Inr (Data bs)) \<Rightarrow>
                  if decoder_is_eof d'
                  then leave RKeepAlive (Ready (if bs \<noteq> [] then Some (Inr (Data bs)) else None))
                  else if bs = [] then leave RClosed (Ready None)
                  else Some (c, Ready (Some (Inr (Data bs))))
              | Ready (Inr (Trailers m)) \<Rightarrow> leave RClosed (Ready (Some (Inr (Trailers m))))
              | Ready (Inl e) \<Rightarrow> leave RClosed (Ready (Some (Inl e)))))"

definition poll_read_body ::
  "('t, 'z) transport_ops_scheme \<Rightarrow> (nat \<Rightarrow> nat \<Rightarrow> nat) \<Rightarrow> ('m, 'y) http_lib_scheme \<Rightarrow> ('t, 'm, 'c) Conn \<Rightarrow>
   (('t, 'm, 'c) Conn \<times> (io_error + 'm frame) option poll) option" where
  "poll_read_body T grow H c =
     (case s_reading (cst c) of
        RBody d \<Rightarrow> poll_read_body_with T grow H c d
      | RContinue d \<Rightarrow>
          (let c = (if s_writing (cst c) = WInit
                    then c\<lparr>cio := headers_buf_extend grow (cio c) (''HTTP/1.1 100 Continue'' @ CRLF @ CRLF)\<rparr> else c)
           in poll_read_body_with T grow H (c\<lparr>cst := (cst c)\<lparr>s_reading := RBody d\<rparr>\<rparr>) d)
      | _ \<Rightarrow> None)"

definition wants_read_again :: "('t, 'm, 'c) Conn \<Rightarrow> ('t, 'm, 'c) Conn \<times> bool" where
  "wants_read_again c = (c\<lparr>cst := (cst c)\<lparr>s_notify_read := False\<rparr>\<rparr>, s_notify_read (cst c))"

definition force_io_read ::
  "('t, 'z) transport_ops_scheme \<Rightarrow> (nat \<Rightarrow> nat \<Rightarrow> nat) \<Rightarrow> ('t, 'm, 'c) Conn \<Rightarrow> ('t, 'm, 'c) Conn \<times> nat io_result poll" where
  "force_io_read T grow c =
     (case poll_read_from_io T grow (cio c) of
        (b, Ready (Inl e)) \<Rightarrow> (c\<lparr>cio := b, cst := state_close (cst c)\<rparr>, Ready (Inl e))
      | (b, r) \<Rightarrow> (c\<lparr>cio := b\<rparr>, r))"

definition require_empty_read ::
  "('t, 'z) transport_ops_scheme \<Rightarrow> (nat \<Rightarrow> nat \<Rightarrow> nat) \<Rightarrow> ('t, 'm, 'c) Conn \<Rightarrow>
   ('t, 'm, 'c) Conn \<times> (core_error + unit) poll" where
  "require_empty_read T grow c =
     (if read_buf (cio c) \<noteq> [] then (c, Ready (Inl new_unexpected_message))
      else case force_io_read T grow c of
             (c, Pending) \<Rightarrow> (c, Pending)
           | (c, Ready (Inl e)) \<Rightarrow> (c, Ready (Inl (new_io e)))
           | (c, Ready (Inr num_read)) \<Rightarrow>
               if num_read = 0
               then (c\<lparr>cst := state_close_read (cst c)\<rparr>,
                     Ready (if should_error_on_eof c then Inl new_incomplete else Inr ()))
               else (c, Ready (Inl new_unexpected_message)))"

definition mid_message_detect_eof ::
  "('t, 'z) transport_ops_scheme \<Rightarrow> (nat \<Rightarrow> nat \<Rightarrow> nat) \<Rightarrow> ('t, 'm, 'c) Conn \<Rightarrow>
   ('t, 'm, 'c) Conn \<times> (core_error + unit) poll" where
  "mid_message_detect_eof T grow c =
     (if s_allow_half_close (cst c) \<or> read_buf (cio c) \<noteq> [] then (c, Pending)
      else case force_io_read T grow c of
             (c, Pending) \<Rightarrow> (c, Pending)
           | (c, Ready (Inl e)) \<Rightarrow> (c, Ready (Inl (new_io e)))
           | (c, Ready (Inr num_read)) \<Rightarrow>
               if num_read = 0
               then (c\<lparr>cst := state_close_read (cst c)\<rparr>, Ready (Inl new_incomplete))
               else (c, Ready (Inr ())))"

definition poll_read_keep_alive ::
  "('t, 'z) transport_ops_scheme \<Rightarrow> (nat \<Rightarrow> nat \<Rightarrow> nat) \<Rightarrow> ('t, 'm, 'c) Conn \<Rightarrow>
   ('t, 'm, 'c) Conn \<times> (core_error + unit) poll" where
  "poll_read_keep_alive T grow c =
     (if is_read_closed (cst c) then (c, Pending)
      else if is_mid_message c then mid_message_detect_eof T grow c
      else require_empty_read T grow c)"

section \<open>Writing\<close>

definition can_write_head :: "('t, 'm, 'c) Conn \<Rightarrow> bool" where
  "can_write_head c \<longleftrightarrow> s_reading (cst c) \<noteq> RClosed \<and> s_writing (cst c) = WInit \<and> can_headers_buf encoded_ops (cio c)"

definition can_write_body :: "('t, 'm, 'c) Conn \<Rightarrow> bool" where
  "can_write_body c = (case s_writing (cst c) of WBody _ \<Rightarrow> True | _ \<Rightarrow> False)"

definition can_buffer_body :: "('t, 'm, 'c) Conn \<Rightarrow> bool" where
  "can_buffer_body c = buffered_can_buffer encoded_ops (cio c)"

text \<open>\<^verbatim>\<open>fix_keep_alive\<close> and \<^verbatim>\<open>enforce_version\<close> on the state and the head.\<close>

definition fix_keep_alive ::
  "('m, 'y) http_lib_scheme \<Rightarrow> ('m, 'c) conn_state \<Rightarrow> 'm RequestHead \<Rightarrow> ('m, 'c) conn_state \<times> 'm RequestHead" where
  "fix_keep_alive H s head =
     (if (case hm_get H (mh_headers head) ''connection'' of Some v \<Rightarrow> connection_keep_alive H v | None \<Rightarrow> False)
      then (s, head)
      else case mh_version head of
             HTTP_10 \<Rightarrow> (disable_keep_alive s, head)
           | HTTP_11 \<Rightarrow>
               if wants_keep_alive s
               then (s, head\<lparr>mh_headers := hm_insert H ''connection'' ''keep-alive'' (mh_headers head)\<rparr>)
               else (s, head)
           | _ \<Rightarrow> (s, head))"

definition enforce_version ::
  "('m, 'y) http_lib_scheme \<Rightarrow> ('m, 'c) conn_state \<Rightarrow> 'm RequestHead \<Rightarrow> ('m, 'c) conn_state \<times> 'm RequestHead" where
  "enforce_version H s head =
     (case s_version s of
        HTTP_10 \<Rightarrow> (case fix_keep_alive H s head of (s, head) \<Rightarrow> (s, head\<lparr>mh_version := HTTP_10\<rparr>))
      | HTTP_11 \<Rightarrow>
          if s_keep_alive s = KADisabled
          then (s, head\<lparr>mh_headers := hm_insert H ''connection'' ''close'' (mh_headers head)\<rparr>)
          else (s, head)
      | _ \<Rightarrow> (s, head))"

text \<open>\<^verbatim>\<open>encode_head\<close>: the role only appends to the headers buffer. The writing operations panic,
  here \<^const>\<open>None\<close>, where a \<^verbatim>\<open>debug_assert!\<close> of theirs fails.\<close>

definition encode_head ::
  "(nat \<Rightarrow> nat \<Rightarrow> nat) \<Rightarrow> ('m, 'y) http_lib_scheme \<Rightarrow> ('t, 'm, 'c) Conn \<Rightarrow> 'm RequestHead \<Rightarrow> BodyLength option \<Rightarrow>
   (('t, 'm, 'c) Conn \<times> encoder) option" where
  "encode_head grow H c head body =
     (if \<not> can_write_head c then None
      else case enforce_version H (state_busy (cst c)) head of
        (s, head) \<Rightarrow>
          (case client_encode H head body (s_title_case_headers s) [] of
             None \<Rightarrow> None
           | Some (head, meth, bs, enc) \<Rightarrow>
               if s_cached_headers s \<noteq> None then None
               else Some (c\<lparr>cio := headers_buf_extend grow (cio c) bs,
                       cst := s\<lparr>s_method := meth, s_cached_headers := Some (mh_headers head)\<rparr>\<rparr>, enc)))"

text \<open>The writing state after a message part: \<^verbatim>\<open>Closed\<close> when the encoder says it is the last.\<close>

definition written_state :: "encoder \<Rightarrow> Writing" where
  "written_state enc = (if encoder_is_last enc then WClosed else WKeepAlive)"

definition write_head ::
  "(nat \<Rightarrow> nat \<Rightarrow> nat) \<Rightarrow> ('m, 'y) http_lib_scheme \<Rightarrow> ('t, 'm, 'c) Conn \<Rightarrow> 'm RequestHead \<Rightarrow> BodyLength option \<Rightarrow>
   ('t, 'm, 'c) Conn option" where
  "write_head grow H c head body =
     map_option (\<lambda>(c, enc). c\<lparr>cst := (cst c)\<lparr>s_writing :=
         (if \<not> encoder_is_eof enc then WBody enc else written_state enc)\<rparr>\<rparr>)
       (encode_head grow H c head body)"

text \<open>\<^verbatim>\<open>self.io.buffer(buf)\<close> of the writing operations.\<close>

definition conn_buffer :: "(nat \<Rightarrow> nat \<Rightarrow> nat) \<Rightarrow> ('t, 'm, 'c) Conn \<Rightarrow> EncodedBuf \<Rightarrow> ('t, 'm, 'c) Conn option" where
  "conn_buffer grow c eb =
     (case buffered_buffer grow encoded_ops (cio c) eb of
        Some (Inr b) \<Rightarrow> Some (c\<lparr>cio := b\<rparr>)
      | _ \<Rightarrow> None)"

definition set_writing :: "Writing \<Rightarrow> ('t, 'm, 'c) Conn \<Rightarrow> ('t, 'm, 'c) Conn" where
  "set_writing w c = c\<lparr>cst := (cst c)\<lparr>s_writing := w\<rparr>\<rparr>"

definition write_body ::
  "(nat \<Rightarrow> nat \<Rightarrow> nat) \<Rightarrow> ('t, 'm, 'c) Conn \<Rightarrow> bytes \<Rightarrow> ('t, 'm, 'c) Conn option" where
  "write_body grow c chunk =
     (if \<not> (can_write_body c \<and> can_buffer_body c) \<or> chunk = [] then None
      else case s_writing (cst c) of
        WBody enc \<Rightarrow>
          (case encode enc chunk of
             None \<Rightarrow> None
           | Some (enc', eb) \<Rightarrow>
               map_option (set_writing (if \<not> encoder_is_eof enc' then WBody enc' else written_state enc'))
                 (conn_buffer grow c eb))
      | _ \<Rightarrow> None)"

definition write_trailers ::
  "(nat \<Rightarrow> nat \<Rightarrow> nat) \<Rightarrow> ('m, 'y) http_lib_scheme \<Rightarrow> ('t, 'm, 'c) Conn \<Rightarrow> 'm \<Rightarrow> ('t, 'm, 'c) Conn option" where
  "write_trailers grow H c trailers =
     (if \<not> (can_write_body c \<and> can_buffer_body c) then None
      else case s_writing (cst c) of
        WBody enc \<Rightarrow>
          (case encode_trailers H enc trailers (s_title_case_headers (cst c)) of
             None \<Rightarrow> None
           | Some None \<Rightarrow> Some c
           | Some (Some eb) \<Rightarrow>
               map_option (set_writing (if encoder_is_last enc \<or> encoder_is_close_delimited enc then WClosed else WKeepAlive))
                 (conn_buffer grow c eb))
      | _ \<Rightarrow> None)"

definition write_body_and_end ::
  "(nat \<Rightarrow> nat \<Rightarrow> nat) \<Rightarrow> ('t, 'm, 'c) Conn \<Rightarrow> bytes \<Rightarrow> ('t, 'm, 'c) Conn option" where
  "write_body_and_end grow c chunk =
     (if \<not> (can_write_body c \<and> can_buffer_body c) \<or> chunk = [] then None
      else case s_writing (cst c) of
        WBody enc \<Rightarrow>
          (case encode_and_end enc chunk of
             None \<Rightarrow> None
           | Some (eb, can_keep_alive) \<Rightarrow>
               map_option (set_writing (if can_keep_alive then WKeepAlive else WClosed)) (conn_buffer grow c eb))
      | _ \<Rightarrow> None)"

definition end_body ::
  "(nat \<Rightarrow> nat \<Rightarrow> nat) \<Rightarrow> ('t, 'm, 'c) Conn \<Rightarrow> (('t, 'm, 'c) Conn \<times> (core_error + unit)) option" where
  "end_body grow c =
     (if \<not> can_write_body c then None
      else case s_writing (cst c) of
        WBody enc \<Rightarrow>
          (case encoder_end enc of
             Inr fin \<Rightarrow>
               map_option
                 (\<lambda>c. (set_writing (if encoder_is_last enc \<or> encoder_is_close_delimited enc then WClosed else WKeepAlive) c, Inr ()))
                 (case fin of None \<Rightarrow> Some c | Some eb \<Rightarrow> conn_buffer grow c eb)
           | Inl n \<Rightarrow>
               Some (set_writing WClosed c, Inl (error_with new_body_write_aborted (CauseNotEof n))))
      | _ \<Rightarrow> Some (c, Inr ()))"

section \<open>Flushing and closing\<close>

definition conn_poll_flush ::
  "('t, 'z) transport_ops_scheme \<Rightarrow> (nat \<Rightarrow> nat \<Rightarrow> nat) \<Rightarrow> ('t, 'm, 'c) Conn \<Rightarrow>
   (('t, 'm, 'c) Conn \<times> unit io_result poll) option" where
  "conn_poll_flush T grow c =
     (case buffered_poll_flush T encoded_ops (cio c) of
        None \<Rightarrow> None
      | Some (b, Ready (Inr _)) \<Rightarrow> Some (conn_try_keep_alive T grow (c\<lparr>cio := b\<rparr>), Ready (Inr ()))
      | Some (b, r) \<Rightarrow> Some (c\<lparr>cio := b\<rparr>, r))"

definition conn_poll_shutdown ::
  "('t, 'z) transport_ops_scheme \<Rightarrow> ('t, 'm, 'c) Conn \<Rightarrow> ('t, 'm, 'c) Conn \<times> unit io_result poll" where
  "conn_poll_shutdown T c =
     (case poll_shutdown T (bio (cio c)) of (t, r) \<Rightarrow> (c\<lparr>cio := (cio c)\<lparr>bio := t\<rparr>\<rparr>, r))"

definition close_read :: "('t, 'm, 'c) Conn \<Rightarrow> ('t, 'm, 'c) Conn" where
  "close_read c = c\<lparr>cst := state_close_read (cst c)\<rparr>"

definition close_write :: "('t, 'm, 'c) Conn \<Rightarrow> ('t, 'm, 'c) Conn" where
  "close_write c = c\<lparr>cst := state_close_write (cst c)\<rparr>"

definition poll_drain_or_close_read ::
  "('t, 'z) transport_ops_scheme \<Rightarrow> (nat \<Rightarrow> nat \<Rightarrow> nat) \<Rightarrow> ('m, 'y) http_lib_scheme \<Rightarrow> ('t, 'm, 'c) Conn \<Rightarrow>
   ('t, 'm, 'c) Conn option" where
  "poll_drain_or_close_read T grow H c =
     (let c = (case s_reading (cst c) of RContinue d \<Rightarrow> c\<lparr>cst := (cst c)\<lparr>s_reading := RBody d\<rparr>\<rparr> | _ \<Rightarrow> c)
      in map_option (\<lambda>(c, _). if s_reading (cst c) \<in> {RInit, RKeepAlive} then c else close_read c)
           (poll_read_body T grow H c))"

definition take_error :: "('t, 'm, 'c) Conn \<Rightarrow> ('t, 'm, 'c) Conn \<times> (core_error + unit)" where
  "take_error c =
     (case s_error (cst c) of
        Some e \<Rightarrow> (c\<lparr>cst := (cst c)\<lparr>s_error := None\<rparr>\<rparr>, Inl e)
      | None \<Rightarrow> (c, Inr ()))"

definition on_upgrade :: "('t, 'm, 'c) Conn \<Rightarrow> ('t, 'm, 'c) Conn" where
  "on_upgrade c = c\<lparr>cst := prepare_upgrade (cst c)\<rparr>"

section \<open>Steps\<close>

text \<open>
  What the dispatcher can do to a connection: any operation, under the condition its
  \<^verbatim>\<open>debug_assert!\<close> states, that returns.
\<close>

inductive conn_step ::
  "('t, 'z) transport_ops_scheme \<Rightarrow> (nat \<Rightarrow> nat \<Rightarrow> nat) \<Rightarrow> ('m, 'c, 'y) h1_lib_scheme \<Rightarrow>
   ('t, 'm, 'c) Conn \<Rightarrow> ('t, 'm, 'c) Conn \<Rightarrow> bool"
  for T :: "('t, 'z) transport_ops_scheme" and grow and H :: "('m, 'c, 'y) h1_lib_scheme" where
  step_read_head: "can_read_head c \<Longrightarrow> poll_read_head T grow H c = Some (c', r) \<Longrightarrow> conn_step T grow H c c'"
| step_read_body: "can_read_body c \<Longrightarrow> poll_read_body T grow H c = Some (c', r') \<Longrightarrow> conn_step T grow H c c'"
| step_keep_alive: "\<not> can_read_head c \<Longrightarrow> \<not> can_read_body c \<Longrightarrow>
    conn_step T grow H c (fst (poll_read_keep_alive T grow c))"
| step_write_head: "can_write_head c \<Longrightarrow> write_head grow H c head body = Some c' \<Longrightarrow> conn_step T grow H c c'"
| step_write_body: "can_write_body c \<Longrightarrow> can_buffer_body c \<Longrightarrow> chunk \<noteq> [] \<Longrightarrow> length chunk < 2 ^ 64 \<Longrightarrow>
    write_body grow c chunk = Some c' \<Longrightarrow>
    conn_step T grow H c c'"
| step_write_trailers: "can_write_body c \<Longrightarrow> can_buffer_body c \<Longrightarrow> write_trailers grow H c trailers = Some c' \<Longrightarrow>
    conn_step T grow H c c'"
| step_write_body_and_end: "can_write_body c \<Longrightarrow> can_buffer_body c \<Longrightarrow> chunk \<noteq> [] \<Longrightarrow> length chunk < 2 ^ 64 \<Longrightarrow>
    write_body_and_end grow c chunk = Some c' \<Longrightarrow> conn_step T grow H c c'"
| step_end_body: "can_write_body c \<Longrightarrow> end_body grow c = Some (c', r'') \<Longrightarrow> conn_step T grow H c c'"
| step_flush: "conn_poll_flush T grow c = Some (c', fr) \<Longrightarrow> conn_step T grow H c c'"
| step_shutdown: "conn_step T grow H c (fst (conn_poll_shutdown T c))"
| step_drain: "can_read_body c \<Longrightarrow> poll_drain_or_close_read T grow H c = Some c' \<Longrightarrow> conn_step T grow H c c'"
| step_close_read: "conn_step T grow H c (close_read c)"
| step_close_write: "conn_step T grow H c (close_write c)"
| step_read_again: "conn_step T grow H c (fst (wants_read_again c))"
| step_take_error: "conn_step T grow H c (fst (take_error c))"
| step_upgrade: "conn_step T grow H c (on_upgrade c)"
| step_take_upgrade: "conn_step T grow H c (fst (pending_upgrade c))"

section \<open>The keep-alive discipline\<close>

lemmas state_op_defs = state_close_def state_close_read_def state_close_write_def state_idle_def
  state_busy_def disable_keep_alive_def is_idle_def prepare_upgrade_def ka_and_def

text \<open>What an operation may do to the three fields that decide whether a connection is used again.\<close>

definition ka_ok :: "('m, 'c) conn_state \<Rightarrow> ('m, 'c) conn_state \<Rightarrow> bool" where
  "ka_ok s s' \<longleftrightarrow>
     (s_keep_alive s = KADisabled \<longrightarrow> s_keep_alive s' = KADisabled) \<and>
     (s_writing s \<noteq> WInit \<longrightarrow> s_writing s' = WInit \<longrightarrow>
        s_writing s = WKeepAlive \<and> s_keep_alive s' = KAIdle \<and> s_reading s \<noteq> RClosed) \<and>
     (s_keep_alive s \<noteq> KAIdle \<longrightarrow> s_keep_alive s' = KAIdle \<longrightarrow> s_reading s' = RInit \<and> s_writing s' = WInit)"

text \<open>The invariant: an idle connection is at the start of a message on both sides, an encoder at its end
  is never kept as a body being written, and a body is only read once its request has been started.\<close>

fun in_body :: "Reading \<Rightarrow> bool" where
  "in_body (RBody d) = True"
| "in_body (RContinue d) = True"
| "in_body _ = False"

definition conn_inv :: "('m, 'c) conn_state \<Rightarrow> bool" where
  "conn_inv s \<longleftrightarrow> (s_keep_alive s = KAIdle \<longrightarrow> s_reading s = RInit \<and> s_writing s = WInit) \<and>
     (\<forall>enc. s_writing s = WBody enc \<longrightarrow> \<not> encoder_is_eof enc) \<and>
     (in_body (s_reading s) \<longrightarrow> s_writing s \<noteq> WInit)"

lemma state_try_keep_alive_cases:
  obtains (same) "state_try_keep_alive s = s" "\<not> (s_reading s = RKeepAlive \<and> s_writing s = WKeepAlive)"
  | (idle) "s_reading s = RKeepAlive" "s_writing s = WKeepAlive" "s_keep_alive s = KABusy"
      "state_try_keep_alive s = s\<lparr>s_method := None, s_keep_alive := KAIdle, s_reading := RInit, s_writing := WInit, s_notify_read := True\<rparr>"
  | (close) "state_try_keep_alive s = state_close s"
  by (cases "s_reading s"; cases "s_writing s"; cases "s_keep_alive s = KABusy")
    (auto simp: state_try_keep_alive_def state_idle_def is_idle_def)

text \<open>The three fields after an operation that may only close the connection.\<close>

definition may_close :: "('m, 'c) conn_state \<Rightarrow> ('m, 'c) conn_state \<Rightarrow> bool" where
  "may_close s s' \<longleftrightarrow>
     s_keep_alive s' = s_keep_alive s \<and> s_writing s' = s_writing s \<and> s_reading s' = s_reading s \<or>
     s_keep_alive s' = KADisabled \<and> (s_writing s' = s_writing s \<or> s_writing s' = WClosed) \<and>
       (s_reading s' = s_reading s \<or> s_reading s' = RClosed)"

lemma maybe_notify_may_close:
  "may_close (cst c) (cst (maybe_notify T grow c)) \<and>
   (s_keep_alive (cst c) = KAIdle \<longrightarrow> s_keep_alive (cst (maybe_notify T grow c)) \<noteq> KAIdle \<longrightarrow>
      s_writing (cst (maybe_notify T grow c)) = WClosed \<and> s_reading (cst (maybe_notify T grow c)) = RClosed)"
  by (auto simp: maybe_notify_def Let_def may_close_def state_op_defs
      split: Writing.splits prod.splits poll.splits sum.splits)

lemma conn_try_keep_alive_cases:
  obtains (close) "may_close (cst c) (cst (conn_try_keep_alive T grow c))"
  | (idle) "s_reading (cst c) = RKeepAlive" "s_writing (cst c) = WKeepAlive" "s_keep_alive (cst c) = KABusy"
      "s_keep_alive (cst (conn_try_keep_alive T grow c)) = KAIdle"
      "s_reading (cst (conn_try_keep_alive T grow c)) = RInit"
      "s_writing (cst (conn_try_keep_alive T grow c)) = WInit"
proof -
  let ?c = "c\<lparr>cst := state_try_keep_alive (cst c)\<rparr>"
  note n = maybe_notify_may_close [of ?c T grow]
  show ?thesis
  proof (cases rule: state_try_keep_alive_cases [of "cst c"])
    case same
    then show ?thesis using n close by (simp add: conn_try_keep_alive_def)
  next
    case idle
    then show ?thesis
      using n close that(2)
      by (cases "s_keep_alive (cst (conn_try_keep_alive T grow c)) = KAIdle")
         (auto simp: conn_try_keep_alive_def may_close_def)
  next
    case close
    then show ?thesis
      using n that(1) by (auto simp: conn_try_keep_alive_def may_close_def state_op_defs)
  qed
qed

text \<open>The ways an operation may change the fields: like \<^const>\<open>may_close\<close> from a state \<open>s1\<close> that it
  set up, or by becoming idle.\<close>

lemma ka_ok_try_keep_alive:
  assumes "ka_ok s (cst c)" and "s_writing (cst c) = s_writing s" and "s_reading s \<noteq> RClosed"
    and "s_keep_alive (cst c) = KABusy \<Longrightarrow> s_keep_alive s \<noteq> KADisabled" and "s_keep_alive (cst c) \<noteq> KAIdle"
  shows "ka_ok s (cst (conn_try_keep_alive T grow c))"
  by (cases rule: conn_try_keep_alive_cases [of c T grow])
    (use assms in \<open>auto simp: ka_ok_def may_close_def\<close>)

lemma conn_inv_try_keep_alive:
  assumes "conn_inv (cst c)"
  shows "conn_inv (cst (conn_try_keep_alive T grow c))"
  by (cases rule: conn_try_keep_alive_cases [of c T grow])
    (use assms in \<open>auto simp: conn_inv_def may_close_def\<close>)

lemma ka_ok_refl [simp]: "ka_ok s s"
  by (auto simp: ka_ok_def)

subsection \<open>Reading operations\<close>

lemma on_read_head_error_ok:
  "conn_inv (cst c) \<Longrightarrow> on_read_head_error c e = (c', r) \<Longrightarrow> ka_ok (cst c) (cst c') \<and> conn_inv (cst c')"
  by (auto simp: on_read_head_error_def Let_def ka_ok_def conn_inv_def state_op_defs split: if_splits)

lemma ka_ok_update [simp]:
  "ka_ok s (s'\<lparr>s_allow_trailer_fields := a\<rparr>) = ka_ok s s'" "conn_inv (s'\<lparr>s_allow_trailer_fields := a\<rparr>) = conn_inv s'"
  "ka_ok (s\<lparr>s_cached_headers := m\<rparr>) s' = ka_ok s s'" "ka_ok s (s'\<lparr>s_cached_headers := m\<rparr>) = ka_ok s s'"
  "conn_inv (s'\<lparr>s_cached_headers := m\<rparr>) = conn_inv s'"
  by (simp_all add: ka_ok_def conn_inv_def)

lemma head_parsed_ok:
  assumes "conn_inv (cst c)" and "can_read_head c" and "head_parsed T grow H c msg = (c', wants)"
  shows "ka_ok (cst c) (cst c') \<and> conn_inv (cst c')"
proof -
  define s1 where "s1 = (state_busy ((cst c)\<lparr>s_h09_responses := False\<rparr>))\<lparr>s_keep_alive :=
    ka_and (s_keep_alive (state_busy ((cst c)\<lparr>s_h09_responses := False\<rparr>))) (pm_keep_alive msg),
    s_version := mh_version (pm_head msg)\<rparr>"
  have s1: "s_writing s1 = s_writing (cst c)" "s_reading s1 = s_reading (cst c)"
    "s_keep_alive s1 \<noteq> KAIdle" "s_keep_alive s1 = KABusy \<Longrightarrow> s_keep_alive (cst c) \<noteq> KADisabled"
    "s_keep_alive (cst c) = KADisabled \<Longrightarrow> s_keep_alive s1 = KADisabled"
    by (auto simp: s1_def state_op_defs split: if_splits)
  have w: "s_writing (cst c) \<noteq> WInit" "s_reading (cst c) = RInit" using assms(2) by (auto simp: can_read_head_def)
  have ok: "ka_ok (cst c) (s1\<lparr>s_reading := x\<rparr>)" "conn_inv (s1\<lparr>s_reading := x\<rparr>)" for x
    using s1 w assms(1) by (auto simp: ka_ok_def conn_inv_def)
  have "ka_ok (cst c) (cst (conn_try_keep_alive T grow (c\<lparr>cst := s1\<lparr>s_reading := RKeepAlive\<rparr>\<rparr>)))"
    using ok s1 w by (intro ka_ok_try_keep_alive) auto
  moreover have "conn_inv (cst (conn_try_keep_alive T grow (c\<lparr>cst := s1\<lparr>s_reading := RKeepAlive\<rparr>\<rparr>)))"
    using ok by (intro conn_inv_try_keep_alive) auto
  ultimately show ?thesis
    using ok assms(3) by (auto simp: head_parsed_def Let_def s1_def [symmetric] split: if_splits)
qed

lemma poll_read_head_ok:
  assumes "conn_inv (cst c)" and "can_read_head c" and "poll_read_head T grow H c = Some (c', r)"
  shows "ka_ok (cst c) (cst c') \<and> conn_inv (cst c')"
proof -
  from assms(3) obtain b cached pr where c1: "(case pr of Pending \<Rightarrow> Some (c\<lparr>cio := b, cst := (cst c)\<lparr>s_cached_headers := cached\<rparr>\<rparr>, Pending)
       | Ready (Inl e) \<Rightarrow> Some (on_read_head_error (c\<lparr>cio := b, cst := (cst c)\<lparr>s_cached_headers := cached\<rparr>\<rparr>) e)
       | Ready (Inr msg) \<Rightarrow> (case head_parsed T grow H (c\<lparr>cio := b, cst := (cst c)\<lparr>s_cached_headers := cached\<rparr>\<rparr>) msg of
                        (c, wants) \<Rightarrow> Some (c, Ready (Some (Inr (pm_head msg, pm_decode msg, wants)))))) = Some (c', r)"
    by (auto simp: poll_read_head_def Let_def split: option.splits prod.splits)
  define c1 where "c1 = c\<lparr>cio := b, cst := (cst c)\<lparr>s_cached_headers := cached\<rparr>\<rparr>"
  have inv: "conn_inv (cst c1)" "can_read_head c1" "\<And>s. ka_ok (cst c1) s = ka_ok (cst c) s"
    using assms(1,2) by (simp_all add: c1_def can_read_head_def)
  show ?thesis
    using c1 on_read_head_error_ok [OF inv(1)] head_parsed_ok [OF inv(1,2), of T grow H] assms(1)
    unfolding inv(3) c1_def [symmetric]
    by (auto simp: c1_def split: poll.splits sum.splits prod.splits) 
qed

lemma poll_read_body_with_ok:
  assumes "conn_inv (cst c)" and "s_reading (cst c) = RBody d \<or> s_reading (cst c) = RContinue d"
    and "poll_read_body_with T grow H c d = Some (c', r)"
  shows "ka_ok (cst c) (cst c') \<and> conn_inv (cst c')"
proof -
  have ka: "s_keep_alive (cst c) \<noteq> KAIdle" "s_writing (cst c) \<noteq> WInit" using assms(1,2) by (auto simp: conn_inv_def)
  have ok: "ka_ok (cst c) ((cst c)\<lparr>s_reading := x\<rparr>)" "conn_inv ((cst c)\<lparr>s_reading := x\<rparr>)" for x
    using assms(1) ka by (auto simp: ka_ok_def conn_inv_def)
  have tka: "ka_ok (cst c) (cst (conn_try_keep_alive T grow (c\<lparr>cio := b, cst := (cst c)\<lparr>s_reading := x\<rparr>\<rparr>)))"
    "conn_inv (cst (conn_try_keep_alive T grow (c\<lparr>cio := b, cst := (cst c)\<lparr>s_reading := x\<rparr>\<rparr>)))" for b x
    using ok ka assms(2) by (auto intro!: ka_ok_try_keep_alive conn_inv_try_keep_alive)
  show ?thesis
    using assms(3) ok tka
    by (auto simp: poll_read_body_with_def Let_def split: option.splits prod.splits poll.splits sum.splits frame.splits if_splits)
qed

lemma poll_read_body_ok:
  assumes "conn_inv (cst c)" and "poll_read_body T grow H c = Some (c', r)"
  shows "ka_ok (cst c) (cst c') \<and> conn_inv (cst c')"
proof (cases "s_reading (cst c)")
  case (RBody d)
  then have "poll_read_body_with T grow H c d = Some (c', r)" using assms(2) by (simp add: poll_read_body_def)
  then show ?thesis using poll_read_body_with_ok [OF assms(1)] RBody by blast
next
  case (RContinue d)
  define c1 where "c1 = (if s_writing (cst c) = WInit
    then c\<lparr>cio := headers_buf_extend grow (cio c) (''HTTP/1.1 100 Continue'' @ CRLF @ CRLF)\<rparr> else c)"
  define c2 where "c2 = c1\<lparr>cst := (cst c1)\<lparr>s_reading := RBody d\<rparr>\<rparr>"
  have st: "cst c2 = (cst c)\<lparr>s_reading := RBody d\<rparr>" by (simp add: c2_def c1_def)
  have ka: "s_keep_alive (cst c) \<noteq> KAIdle" "s_writing (cst c) \<noteq> WInit"
    using assms(1) RContinue by (auto simp: conn_inv_def)
  have inv: "conn_inv (cst c2)" using assms(1) ka by (simp add: st conn_inv_def)
  have "poll_read_body_with T grow H c2 d = Some (c', r)"
    using assms(2) RContinue by (simp add: poll_read_body_def c1_def c2_def Let_def)
  from poll_read_body_with_ok [OF inv _ this] have "ka_ok (cst c2) (cst c') \<and> conn_inv (cst c')"
    by (simp add: st)
  then show ?thesis using ka RContinue by (auto simp: st ka_ok_def)
qed (use assms in \<open>auto simp: poll_read_body_def\<close>)

lemma poll_drain_ok:
  assumes "conn_inv (cst c)" and "poll_drain_or_close_read T grow H c = Some c'"
  shows "ka_ok (cst c) (cst c') \<and> conn_inv (cst c')"
proof -
  define c1 where "c1 = (case s_reading (cst c) of RContinue d \<Rightarrow> c\<lparr>cst := (cst c)\<lparr>s_reading := RBody d\<rparr>\<rparr> | _ \<Rightarrow> c)"
  have f: "s_keep_alive (cst c1) = s_keep_alive (cst c)" "s_writing (cst c1) = s_writing (cst c)"
    "in_body (s_reading (cst c1)) = in_body (s_reading (cst c))"
    "(s_reading (cst c1) = RInit) = (s_reading (cst c) = RInit)"
    "(s_reading (cst c1) = RClosed) = (s_reading (cst c) = RClosed)"
    by (cases "s_reading (cst c)"; simp add: c1_def)+
  have inv: "conn_inv (cst c1)" and ka: "ka_ok (cst c1) s = ka_ok (cst c) s" for s
    using assms(1) unfolding conn_inv_def ka_ok_def f by simp_all
  obtain c2 r where r: "poll_read_body T grow H c1 = Some (c2, r)"
    "c' = (if s_reading (cst c2) \<in> {RInit, RKeepAlive} then c2 else close_read c2)"
    using assms(2) by (auto simp: poll_drain_or_close_read_def c1_def [symmetric] Let_def)
  from poll_read_body_ok [OF inv r(1)] ka have ok: "ka_ok (cst c) (cst c2)" "conn_inv (cst c2)" by auto
  show ?thesis
  proof (cases "s_reading (cst c2) \<in> {RInit, RKeepAlive}")
    case False
    then have "cst c' = state_close_read (cst c2)" using r(2) by (simp add: close_read_def)
    then show ?thesis using ok False by (simp add: state_close_read_def ka_ok_def conn_inv_def)
  qed (use ok r(2) in simp)
qed

lemma may_close_ok: "conn_inv s \<Longrightarrow> may_close s s' \<Longrightarrow> ka_ok s s' \<and> conn_inv s'"
  by (auto simp: may_close_def ka_ok_def conn_inv_def)

lemma may_close_ops [simp]:
  "may_close s s" "may_close s (state_close s)" "may_close s (state_close_read s)" "may_close s (state_close_write s)"
  by (simp_all add: may_close_def state_op_defs)

lemma force_io_read_state:
  assumes "force_io_read T grow c = (c', r)"
  shows "cst c' = cst c \<or> (cst c' = state_close (cst c) \<and> (\<exists>e. r = Ready (Inl e)))"
  using assms by (auto simp: force_io_read_def split: prod.splits poll.splits sum.splits)

lemma poll_read_keep_alive_may_close: "may_close (cst c) (cst (fst (poll_read_keep_alive T grow c)))"
proof -
  obtain c1 r where f: "force_io_read T grow c = (c1, r)" by fastforce
  from force_io_read_state [OF this] show ?thesis
    by (auto simp: poll_read_keep_alive_def require_empty_read_def mid_message_detect_eof_def f
        split: poll.splits sum.splits)
qed

subsection \<open>Writing operations\<close>

lemma enforce_version_state:
  assumes "enforce_version H s head = (s', head')"
  shows "s' = s \<or> s' = disable_keep_alive s"
  using assms by (auto simp: enforce_version_def fix_keep_alive_def split: version.splits if_splits option.splits)

lemma write_guards:
  "write_head grow H c head body = Some c' \<Longrightarrow> can_write_head c"
  "write_body grow c chunk = Some c' \<Longrightarrow> can_write_body c \<and> can_buffer_body c \<and> chunk \<noteq> []"
  "write_trailers grow H c trailers = Some c' \<Longrightarrow> can_write_body c \<and> can_buffer_body c"
  "write_body_and_end grow c chunk = Some c' \<Longrightarrow> can_write_body c \<and> can_buffer_body c \<and> chunk \<noteq> []"
  "end_body grow c = Some r \<Longrightarrow> can_write_body c"
  by (auto simp: write_head_def encode_head_def write_body_def write_trailers_def write_body_and_end_def end_body_def
      split: if_splits)

lemma write_head_state:
  assumes "write_head grow H c head body = Some c'"
  shows "\<exists>s head1 head2 meth bs enc. enforce_version H (state_busy (cst c)) head = (s, head1) \<and>
    client_encode H head1 body (s_title_case_headers s) [] = Some (head2, meth, bs, enc) \<and>
    cio c' = headers_buf_extend grow (cio c) bs \<and>
    cst c' = s\<lparr>s_method := meth, s_cached_headers := Some (mh_headers head2),
      s_writing := (if \<not> encoder_is_eof enc then WBody enc else written_state enc)\<rparr>"
proof -
  obtain s head1 where e: "enforce_version H (state_busy (cst c)) head = (s, head1)" by fastforce
  show ?thesis
  proof (cases "client_encode H head1 body (s_title_case_headers s) []")
    case None
    then show ?thesis using assms write_guards(1) [OF assms] e by (simp add: write_head_def encode_head_def)
  next
    case (Some x)
    obtain head2 meth bs enc where x: "x = (head2, meth, bs, enc)" by (rule prod_cases4)
    have "s_cached_headers s = None"
    proof (rule ccontr)
      assume "s_cached_headers s \<noteq> None"
      then show False using assms write_guards(1) [OF assms] e Some x by (simp add: write_head_def encode_head_def)
    qed
    with assms write_guards(1) [OF assms] e Some x show ?thesis
      by (intro exI [of _ s] exI [of _ head1] exI [of _ head2] exI [of _ meth] exI [of _ bs] exI [of _ enc])
        (auto simp: write_head_def encode_head_def)
  qed
qed

lemma write_head_ok:
  assumes "conn_inv (cst c)" and "can_write_head c" and "write_head grow H c head body = Some c'"
  shows "ka_ok (cst c) (cst c') \<and> conn_inv (cst c')"
proof -
  from write_head_state [OF assms(3)] obtain s head1 meth bs enc and head2 :: "'a RequestHead" where
    e: "enforce_version H (state_busy (cst c)) head = (s, head1)"
    and c': "cst c' = s\<lparr>s_method := meth, s_cached_headers := Some (mh_headers head2),
      s_writing := (if \<not> encoder_is_eof enc then WBody enc else written_state enc)\<rparr>" by blast
  have "s_keep_alive s \<noteq> KAIdle" "s_keep_alive (cst c) = KADisabled \<Longrightarrow> s_keep_alive s = KADisabled"
    "s_writing (cst c) = WInit"
    using enforce_version_state [OF e] assms(2) by (auto simp: state_op_defs can_write_head_def split: if_splits)
  with c' show ?thesis
    by (simp add: written_state_def ka_ok_def conn_inv_def)
qed

lemma conn_buffer_state: "conn_buffer grow c eb = Some c' \<Longrightarrow> cst c' = cst c"
  by (auto simp: conn_buffer_def split: option.splits sum.splits)

lemma writing_ok:
  assumes "conn_inv (cst c)" and "can_write_body c" and "cst c1 = cst c"
    and "w \<noteq> WInit" and "\<And>enc. w = WBody enc \<Longrightarrow> \<not> encoder_is_eof enc"
  shows "ka_ok (cst c) (cst (set_writing w c1)) \<and> conn_inv (cst (set_writing w c1))"
  using assms by (auto simp: set_writing_def ka_ok_def conn_inv_def can_write_body_def)

lemma write_body_ok:
  assumes "conn_inv (cst c)" and "can_write_body c" and "write_body grow c chunk = Some c'"
  shows "ka_ok (cst c) (cst c') \<and> conn_inv (cst c')"
  using assms(3) writing_ok [OF assms(1,2)] conn_buffer_state write_guards(2) [OF assms(3)]
  by (fastforce simp: write_body_def written_state_def split: Writing.splits option.splits)

lemma write_trailers_ok:
  assumes "conn_inv (cst c)" and "can_write_body c" and "write_trailers grow H c trailers = Some c'"
  shows "ka_ok (cst c) (cst c') \<and> conn_inv (cst c')"
  using assms writing_ok [OF assms(1,2)] conn_buffer_state write_guards(3) [OF assms(3)]
  by (fastforce simp: write_trailers_def split: Writing.splits option.splits)

lemma write_body_and_end_ok:
  assumes "conn_inv (cst c)" and "can_write_body c" and "write_body_and_end grow c chunk = Some c'"
  shows "ka_ok (cst c) (cst c') \<and> conn_inv (cst c')"
  using assms writing_ok [OF assms(1,2)] conn_buffer_state write_guards(4) [OF assms(3)]
  by (fastforce simp: write_body_and_end_def split: Writing.splits option.splits)

lemma end_body_ok:
  assumes "conn_inv (cst c)" and "can_write_body c" and "end_body grow c = Some (c', r)"
  shows "ka_ok (cst c) (cst c') \<and> conn_inv (cst c')"
  using assms writing_ok [OF assms(1,2)] conn_buffer_state write_guards(5) [OF assms(3)]
  by (fastforce simp: end_body_def split: Writing.splits option.splits sum.splits)

lemma conn_poll_flush_state:
  assumes "conn_poll_flush T grow c = Some (c', r)"
  shows "\<exists>b. c' = c\<lparr>cio := b\<rparr> \<or> c' = conn_try_keep_alive T grow (c\<lparr>cio := b\<rparr>)"
proof -
  obtain b res where b: "buffered_poll_flush T encoded_ops (cio c) = Some (b, res)"
    using assms by (cases "buffered_poll_flush T encoded_ops (cio c)") (auto simp: conn_poll_flush_def)
  show ?thesis
  proof (cases "res = Ready (Inr ())")
    case True
    then show ?thesis using assms by (simp add: conn_poll_flush_def b) blast
  next
    case False
    then have "conn_poll_flush T grow c = Some (c\<lparr>cio := b\<rparr>, res)"
      by (simp add: conn_poll_flush_def b split: poll.splits sum.splits)
    then show ?thesis using assms by (intro exI [of _ b]) simp
  qed
qed

lemma conn_poll_flush_ok:
  assumes "conn_inv (cst c)" and "conn_poll_flush T grow c = Some (c', r)"
  shows "ka_ok (cst c) (cst c') \<and> conn_inv (cst c')"
proof -
  have ok: "ka_ok (cst c) (cst (conn_try_keep_alive T grow (c\<lparr>cio := b\<rparr>)))" for b
  proof (cases rule: conn_try_keep_alive_cases [of "c\<lparr>cio := b\<rparr>" T grow])
    case close
    then show ?thesis using may_close_ok [OF assms(1)] by simp
  next
    case idle
    then show ?thesis by (simp add: ka_ok_def)
  qed
  have "conn_inv (cst (conn_try_keep_alive T grow (c\<lparr>cio := b\<rparr>)))" for b
    using assms(1) by (intro conn_inv_try_keep_alive) simp
  with ok conn_poll_flush_state [OF assms(2)] assms(1) show ?thesis by auto
qed

subsection \<open>Every step\<close>

lemma conn_step_ok:
  assumes "conn_step T grow H c c'" and "conn_inv (cst c)"
  shows "ka_ok (cst c) (cst c') \<and> conn_inv (cst c')"
  using assms
proof (cases rule: conn_step.cases)
  case step_keep_alive
  then show ?thesis using may_close_ok [OF assms(2) poll_read_keep_alive_may_close] by simp
next
  case step_close_read
  then show ?thesis using may_close_ok [OF assms(2)] by (simp add: close_read_def)
next
  case step_close_write
  then show ?thesis using may_close_ok [OF assms(2)] by (simp add: close_write_def)
next
  case step_shutdown
  then show ?thesis using assms(2) by (simp add: conn_poll_shutdown_def split: prod.splits)
next
  case step_read_again
  then show ?thesis using assms(2) by (simp add: wants_read_again_def ka_ok_def conn_inv_def)
next
  case step_take_error
  then show ?thesis using assms(2) by (simp add: take_error_def ka_ok_def conn_inv_def split: option.splits)
next
  case step_upgrade
  then show ?thesis using assms(2) by (simp add: on_upgrade_def prepare_upgrade_def ka_ok_def conn_inv_def)
next
  case step_take_upgrade
  then show ?thesis using assms(2) by (simp add: pending_upgrade_def ka_ok_def conn_inv_def)
qed (use assms(2) in \<open>blast dest: poll_read_head_ok poll_read_body_ok write_head_ok write_body_ok write_trailers_ok
    write_body_and_end_ok end_body_ok conn_poll_flush_ok poll_drain_ok\<close>)+

section \<open>When the connection may be used again\<close>

text \<open>
  A step ends the response: its body had been read to the end before the step, or the step read a head
  that announces no body, or it read the last part of the body and the decoder says that it is the last.
\<close>

definition reads_last_part ::
  "('t, 'z) transport_ops_scheme \<Rightarrow> (nat \<Rightarrow> nat \<Rightarrow> nat) \<Rightarrow> ('m, 'y) http_lib_scheme \<Rightarrow> ('t, 'm, 'c) Conn \<Rightarrow> bool" where
  "reads_last_part T grow H c \<longleftrightarrow>
     (\<exists>d d' b bs. (s_reading (cst c) = RBody d \<or> s_reading (cst c) = RContinue d) \<and>
        decode H (buffered_read_mem T grow) (cio c) d = Some (b, d', Ready (Inr (Data bs))) \<and> decoder_is_eof d')"

definition response_finished ::
  "('t, 'z) transport_ops_scheme \<Rightarrow> (nat \<Rightarrow> nat \<Rightarrow> nat) \<Rightarrow> ('m, 'c, 'y) h1_lib_scheme \<Rightarrow>
   ('t, 'm, 'c) Conn \<Rightarrow> ('t, 'm, 'c) Conn \<Rightarrow> bool" where
  "response_finished T grow H c c' \<longleftrightarrow>
     s_reading (cst c) = RKeepAlive \<or>
     s_reading (cst c) = RInit \<and> (\<exists>head w. poll_read_head T grow H c = Some (c', Ready (Some (Inr (head, ZERO, w))))) \<or>
     reads_last_part T grow H c \<and>
       ((\<exists>r. poll_read_body T grow H c = Some (c', r)) \<or> poll_drain_or_close_read T grow H c = Some c')"

lemma try_keep_alive_idle:
  assumes "s_writing (cst (conn_try_keep_alive T grow c)) = WInit" and "s_writing (cst c) \<noteq> WInit"
  shows "s_reading (cst c) = RKeepAlive"
  by (cases rule: conn_try_keep_alive_cases [of c T grow]) (use assms in \<open>auto simp: may_close_def\<close>)

lemma head_parsed_idle:
  assumes "head_parsed T grow H c msg = (c', w)" and "s_writing (cst c') = WInit" and "s_writing (cst c) \<noteq> WInit"
  shows "pm_decode msg = ZERO"
  using assms by (auto simp: head_parsed_def Let_def state_op_defs split: if_splits)

lemma poll_read_head_idle:
  assumes "poll_read_head T grow H c = Some (c', r)" and "s_writing (cst c') = WInit" and "s_writing (cst c) \<noteq> WInit"
  shows "\<exists>head w. r = Ready (Some (Inr (head, ZERO, w)))"
proof -
  have err: "s_writing (cst c') \<noteq> WInit" if "on_read_head_error c1 e = (c', r)" "s_writing (cst c1) \<noteq> WInit" for c1 e
    using that by (auto simp: on_read_head_error_def Let_def state_op_defs split: if_splits)
  show ?thesis
    using assms err head_parsed_idle [of T grow H _ _ c']
    by (fastforce simp: poll_read_head_def Let_def split: option.splits prod.splits poll.splits sum.splits)
qed

lemma poll_read_body_with_idle:
  assumes "poll_read_body_with T grow H c d = Some (c', r)" and "s_writing (cst c') = WInit" and "s_writing (cst c) \<noteq> WInit"
  shows "\<exists>d' b bs. decode H (buffered_read_mem T grow) (cio c) d = Some (b, d', Ready (Inr (Data bs))) \<and> decoder_is_eof d'"
proof -
  obtain b d' res where d: "decode H (buffered_read_mem T grow) (cio c) d = Some (b, d', res)"
    using assms(1) by (cases "decode H (buffered_read_mem T grow) (cio c) d") (auto simp: poll_read_body_with_def)
  have closed: False if "c' = conn_try_keep_alive T grow (c\<lparr>cio := b, cst := (cst c)\<lparr>s_reading := RClosed\<rparr>\<rparr>)"
    using try_keep_alive_idle [of T grow "c\<lparr>cio := b, cst := (cst c)\<lparr>s_reading := RClosed\<rparr>\<rparr>"] that assms(2,3) by simp
  show ?thesis
    using assms closed d by (auto simp: poll_read_body_with_def Let_def split: poll.splits sum.splits frame.splits if_splits)
qed

lemma poll_read_body_idle:
  assumes "poll_read_body T grow H c = Some (c', r)" and "s_writing (cst c') = WInit" and "s_writing (cst c) \<noteq> WInit"
  shows "reads_last_part T grow H c"
  using assms poll_read_body_with_idle [of T grow H c _ c' r]
    poll_read_body_with_idle [of T grow H "c\<lparr>cst := (cst c)\<lparr>s_reading := RBody d\<rparr>\<rparr>" for d]
  by (fastforce simp: poll_read_body_def reads_last_part_def Let_def split: Reading.splits)

lemma poll_drain_idle:
  assumes "poll_drain_or_close_read T grow H c = Some c'" and "s_writing (cst c') = WInit" and "s_writing (cst c) \<noteq> WInit"
  shows "reads_last_part T grow H c"
proof -
  define c1 where "c1 = (case s_reading (cst c) of RContinue d \<Rightarrow> c\<lparr>cst := (cst c)\<lparr>s_reading := RBody d\<rparr>\<rparr> | _ \<Rightarrow> c)"
  obtain c2 r where r: "poll_read_body T grow H c1 = Some (c2, r)"
    "c' = (if s_reading (cst c2) \<in> {RInit, RKeepAlive} then c2 else close_read c2)"
    using assms(1) by (auto simp: poll_drain_or_close_read_def c1_def [symmetric] Let_def)
  have "s_writing (cst c2) = WInit"
    using assms(2) r(2) by (auto simp: close_read_def state_op_defs split: if_splits)
  moreover have "s_writing (cst c1) \<noteq> WInit" using assms(3) by (simp add: c1_def split: Reading.splits)
  ultimately have "reads_last_part T grow H c1" by (rule poll_read_body_idle [OF r(1)])
  then show ?thesis by (cases "s_reading (cst c)") (auto simp: reads_last_part_def c1_def)
qed

lemma write_part_writing:
  "write_head grow H c head body = Some c' \<Longrightarrow> s_writing (cst c') \<noteq> WInit"
  "write_body grow c chunk = Some c' \<Longrightarrow> s_writing (cst c') \<noteq> WInit"
  "write_trailers grow H c trailers = Some c' \<Longrightarrow> s_writing (cst c') \<noteq> WInit"
  "write_body_and_end grow c chunk = Some c' \<Longrightarrow> s_writing (cst c') \<noteq> WInit"
  "end_body grow c = Some (c', r) \<Longrightarrow> s_writing (cst c') \<noteq> WInit"
  by (auto simp: write_head_def written_state_def write_body_def write_trailers_def write_body_and_end_def end_body_def
      set_writing_def can_write_body_def split: if_splits Writing.splits option.splits sum.splits)

lemma conn_step_idle:
  assumes "conn_step T grow H c c'" and "s_writing (cst c') = WInit" and "s_writing (cst c) \<noteq> WInit"
  shows "response_finished T grow H c c'"
  using assms(1)
proof (cases rule: conn_step.cases)
  case (step_read_head r)
  with poll_read_head_idle [OF step_read_head(2) assms(2,3)] show ?thesis
    by (auto simp: response_finished_def can_read_head_def)
next
  case (step_read_body r)
  with poll_read_body_idle [OF step_read_body(2) assms(2,3)] show ?thesis by (auto simp: response_finished_def)
next
  case step_drain
  with poll_drain_idle [OF step_drain(2) assms(2,3)] show ?thesis by (auto simp: response_finished_def)
next
  case (step_flush r)
  from conn_poll_flush_state [OF this] assms(2,3) try_keep_alive_idle [of T grow "c\<lparr>cio := b\<rparr>" for b]
  show ?thesis by (fastforce simp: response_finished_def)
next
  case step_keep_alive
  with poll_read_keep_alive_may_close [of c T grow] assms(2,3) show ?thesis by (auto simp: may_close_def)
next
  case step_shutdown
  with assms(2,3) show ?thesis by (simp add: conn_poll_shutdown_def split: prod.splits)
next
  case step_take_error
  with assms(2,3) show ?thesis by (simp add: take_error_def split: option.splits)
qed (use assms(2,3) in \<open>auto dest: write_part_writing simp: close_read_def close_write_def state_op_defs
    wants_read_again_def on_upgrade_def pending_upgrade_def\<close>)

end
