(* ===== verification/H1_Wire.thy ===== *)
theory H1_Wire
  imports H1_Conn H1_Roundtrip
begin

text \<open>
  The bytes a connection writes. \<open>conn_out\<close> is everything the connection has handed to its
  transport followed by what it still buffers; every operation of theory H1_Conn only appends to it, and
  the reading operations and the flush return for every transport and every buffer contents.
\<close>

section \<open>The bytes of a connection\<close>

text \<open>A connection over a transport and the parsing library, with their laws.\<close>

locale conn_env = transport T unread tinv written + h1_laws H
  for T :: "('t, 'z) transport_ops_scheme" and unread :: "'t \<Rightarrow> bytes" and tinv :: "'t \<Rightarrow> bool"
    and written :: "'t \<Rightarrow> bytes" and H :: "('m, 'c, 'y) h1_lib_scheme"

sublocale conn_env \<subseteq> out: buffered_io T unread tinv written encoded_ops encoded_bytes encoded_wf
  by unfold_locales

abbreviation conn_buffered :: "('t, 'm, 'c) Conn \<Rightarrow> bytes" where
  "conn_buffered c \<equiv> encoded.writebuf_contents (write_buf (cio c))"

definition conn_out :: "('t \<Rightarrow> bytes) \<Rightarrow> ('t, 'm, 'c) Conn \<Rightarrow> bytes" where
  "conn_out written c = written (bio (cio c)) @ conn_buffered c"

fun reading_wf :: "Reading \<Rightarrow> bool" where
  "reading_wf (RBody d) = decoder_wf d"
| "reading_wf (RContinue d) = decoder_wf d"
| "reading_wf _ = True"

definition conn_wf :: "('t \<Rightarrow> bool) \<Rightarrow> ('t, 'm, 'c) Conn \<Rightarrow> bool" where
  "conn_wf tinv c \<longleftrightarrow> tinv (bio (cio c)) \<and> encoded.writebuf_wf (write_buf (cio c)) \<and>
     conn_inv (cst c) \<and> reading_wf (s_reading (cst c)) \<and> \<not> flush_pipeline (cio c)"

text \<open>Every buffer the encoders make is well-formed, and not empty while the body is not at its end.\<close>

lemma encode_wf:
  assumes "m \<noteq> []" and "\<not> encoder_is_eof enc" and "length m < 2 ^ 64"
  shows "\<exists>enc' eb. encode enc m = Some (enc', eb) \<and> encoded_wf eb \<and> encoded_bytes eb \<noteq> []"
    and "\<exists>eb ka. encode_and_end enc m = Some (eb, ka) \<and> encoded_wf eb \<and> encoded_bytes eb \<noteq> []"
proof -
  obtain sz where sz: "chunk_size_new (length m) = Some sz" "chunk_size_wf sz"
    using chunk_size_new_Some [OF assms(3)] by blast
  have pos: "0 < unat n" if "ekind enc = ELength n" for n
    using that assms(2) by (simp add: encoder_is_eof_def unat_gt_0)
  show "\<exists>enc' eb. encode enc m = Some (enc', eb) \<and> encoded_wf eb \<and> encoded_bytes eb \<noteq> []"
    using sz pos assms(1) by (cases "ekind enc") (auto simp: encode_def Let_def)
  show "\<exists>eb ka. encode_and_end enc m = Some (eb, ka) \<and> encoded_wf eb \<and> encoded_bytes eb \<noteq> []"
    using sz pos assms(1) by (cases "ekind enc") (auto simp: encode_and_end_def Let_def)
qed

lemma encoder_end_wf: "encoder_end enc = Inr (Some eb) \<Longrightarrow> encoded_wf eb \<and> encoded_bytes eb \<noteq> []"
  by (auto simp: encoder_end_def split: encoder_kind.splits if_splits)

lemma encode_trailers_wf: "encode_trailers H enc m tc = Some (Some eb) \<Longrightarrow> encoded_wf eb \<and> encoded_bytes eb \<noteq> []"
  by (auto simp: encode_trailers_def Let_def split: encoder_kind.splits option.splits if_splits)

lemma conn_buffer_out:
  assumes "encoded.writebuf_wf (write_buf (cio c))" and "encoded_wf eb" and "encoded_bytes eb \<noteq> []"
  shows "\<exists>c'. conn_buffer grow c eb = Some c' \<and> cst c' = cst c \<and> bio (cio c') = bio (cio c) \<and>
    read_buf (cio c') = read_buf (cio c) \<and> flush_pipeline (cio c') = flush_pipeline (cio c) \<and>
    encoded.writebuf_wf (write_buf (cio c')) \<and> conn_buffered c' = conn_buffered c @ encoded_bytes eb"
  using encoded.writebuf_buffer_contents [OF assms, of grow]
  by (auto simp: conn_buffer_def buffered_buffer_def)

lemma write_body_out:
  assumes "conn_wf tinv c" and "s_writing (cst c) = WBody enc" and "chunk \<noteq> []" and "length chunk < 2 ^ 64"
    and "can_buffer_body c"
  shows "\<exists>c' enc' eb. write_body grow c chunk = Some c' \<and> encode enc chunk = Some (enc', eb) \<and>
    conn_buffered c' = conn_buffered c @ encoded_bytes eb \<and> conn_wf tinv c' \<and> bio (cio c') = bio (cio c) \<and>
    s_writing (cst c') = (if \<not> encoder_is_eof enc' then WBody enc' else written_state enc')"
proof -
  have ne: "\<not> encoder_is_eof enc" using assms(1,2) by (auto simp: conn_wf_def conn_inv_def)
  from encode_wf(1) [OF assms(3) ne assms(4)] obtain enc' eb where
    e: "encode enc chunk = Some (enc', eb)" and wf: "encoded_wf eb" "encoded_bytes eb \<noteq> []" by blast
  from conn_buffer_out [OF _ wf, of c grow] assms(1) obtain c1 where
    c1: "conn_buffer grow c eb = Some c1" "cst c1 = cst c" "bio (cio c1) = bio (cio c)"
    "flush_pipeline (cio c1) = flush_pipeline (cio c)"
    "encoded.writebuf_wf (write_buf (cio c1))" "conn_buffered c1 = conn_buffered c @ encoded_bytes eb"
    by (auto simp: conn_wf_def)
  have "write_body grow c chunk = Some (set_writing (if \<not> encoder_is_eof enc' then WBody enc' else written_state enc') c1)"
    using assms(2,3,5) e c1(1) by (simp add: write_body_def can_write_body_def)
  moreover have "conn_inv (cst (set_writing (if \<not> encoder_is_eof enc' then WBody enc' else written_state enc') c1))"
    using assms(1,2) c1(2) by (auto simp: conn_wf_def conn_inv_def set_writing_def written_state_def)
  ultimately show ?thesis
    using c1 e assms(1) by (auto simp: conn_wf_def set_writing_def)
qed

text \<open>What an operation may do to the bytes: the connection stays well-formed, and what was written or
  buffered before stays where it was.\<close>

definition appends :: "('t \<Rightarrow> bytes) \<Rightarrow> ('t \<Rightarrow> bool) \<Rightarrow> ('t, 'm, 'c) Conn \<Rightarrow> ('t, 'm, 'c) Conn \<Rightarrow> bool" where
  "appends written tinv c c' \<longleftrightarrow> tinv (bio (cio c')) \<and> encoded.writebuf_wf (write_buf (cio c')) \<and>
     reading_wf (s_reading (cst c')) \<and> flush_pipeline (cio c') = flush_pipeline (cio c) \<and>
     prefix (conn_out written c) (conn_out written c')"

lemma appends_same_io:
  "conn_wf tinv c \<Longrightarrow> cio c' = cio c \<Longrightarrow> reading_wf (s_reading (cst c')) \<Longrightarrow> appends written tinv c c'"
  by (simp add: appends_def conn_wf_def conn_out_def)

lemma appends_refl: "conn_wf tinv c \<Longrightarrow> appends written tinv c c"
  by (simp add: appends_def conn_wf_def)

lemma appends_buffer:
  assumes "conn_wf tinv c" and "encoded_wf eb" and "encoded_bytes eb \<noteq> []" and "conn_buffer grow c eb = Some c'"
  shows "appends written tinv c (set_writing w c')"
  using conn_buffer_out [OF _ assms(2,3), of c grow] assms(1,4)
  by (auto simp: appends_def conn_wf_def conn_out_def set_writing_def)

lemma write_body_appends:
  assumes "conn_wf tinv c" and "chunk \<noteq> []" and "length chunk < 2 ^ 64" and "write_body grow c chunk = Some c'"
  shows "appends written tinv c c'"
proof -
  obtain enc where w: "s_writing (cst c) = WBody enc"
    using write_guards(2) [OF assms(4)] by (auto simp: can_write_body_def split: Writing.splits)
  from write_body_out [OF assms(1) w assms(2,3), of grow] write_guards(2) [OF assms(4)] assms(1,4) show ?thesis
    by (auto simp: appends_def conn_wf_def conn_out_def)
qed

lemma write_body_and_end_appends:
  assumes "conn_wf tinv c" and "chunk \<noteq> []" and "length chunk < 2 ^ 64" and "write_body_and_end grow c chunk = Some c'"
  shows "appends written tinv c c'"
proof -
  obtain enc where w: "s_writing (cst c) = WBody enc"
    using write_guards(4) [OF assms(4)] by (auto simp: can_write_body_def split: Writing.splits)
  then have "\<not> encoder_is_eof enc" using assms(1) by (auto simp: conn_wf_def conn_inv_def)
  from encode_wf(2) [OF assms(2) this assms(3)] obtain eb ka where
    e: "encode_and_end enc chunk = Some (eb, ka)" "encoded_wf eb" "encoded_bytes eb \<noteq> []" by blast
  with assms(4) w show ?thesis
    using appends_buffer [OF assms(1) e(2,3)] write_guards(4) [OF assms(4)] by (auto simp: write_body_and_end_def)
qed

lemma write_trailers_appends:
  assumes "conn_wf tinv c" and "write_trailers grow H c trailers = Some c'"
  shows "appends written tinv c c'"
proof -
  obtain enc where w: "s_writing (cst c) = WBody enc"
    using write_guards(3) [OF assms(2)] by (auto simp: can_write_body_def split: Writing.splits)
  show ?thesis
    using assms(2) w write_guards(3) [OF assms(2)] appends_buffer [OF assms(1)] encode_trailers_wf appends_same_io [OF assms(1)] assms(1)
    by (fastforce simp: write_trailers_def conn_wf_def split: option.splits)
qed

lemma end_body_appends:
  assumes "conn_wf tinv c" and "end_body grow c = Some (c', r)"
  shows "appends written tinv c c'"
proof (cases "s_writing (cst c)")
  case (WBody enc)
  show ?thesis
  proof (cases "encoder_end enc")
    case (Inl n)
    then show ?thesis
      using assms WBody by (auto simp: end_body_def can_write_body_def set_writing_def conn_wf_def intro!: appends_same_io [OF assms(1)])
  next
    case (Inr fin)
    show ?thesis
    proof (cases fin)
      case None
      then show ?thesis
        using assms WBody Inr by (auto simp: end_body_def can_write_body_def set_writing_def conn_wf_def intro!: appends_same_io [OF assms(1)])
    next
      case (Some eb)
      then show ?thesis
        using assms(2) WBody Inr encoder_end_wf [of enc eb] appends_buffer [OF assms(1), of eb]
        by (auto simp: end_body_def can_write_body_def)
    qed
  qed
qed (use assms appends_refl [OF assms(1)] in \<open>auto simp: end_body_def can_write_body_def\<close>)

lemma write_head_appends:
  assumes "conn_wf tinv c" and "can_write_head c" and "write_head grow H c head body = Some c'"
  shows "appends written tinv c c'"
proof -
  from write_head_state [OF assms(3)] obtain s head1 bs where
    e: "enforce_version H (state_busy (cst c)) head = (s, head1)"
    and c': "cio c' = headers_buf_extend grow (cio c) bs" "s_reading (cst c') = s_reading s" by fastforce
  have s: "s_reading s = s_reading (cst c)"
    using enforce_version_state [OF e] by (auto simp: state_op_defs)
  have wf: "cursor_wf (wb_headers (write_buf (cio c)))" "encoded.buflist_wf (wb_queue (write_buf (cio c)))"
    using assms(1) by (auto simp: conn_wf_def encoded.writebuf_wf_def)
  have "encoded.buflist_contents (wb_queue (write_buf (cio c))) = []"
    using assms(2) encoded.buflist_remaining_length [OF wf(2)] by (simp add: can_write_head_def can_headers_buf_def)
  then have "conn_buffered c' = conn_buffered c @ bs"
    using wf c' by (simp add: headers_buf_extend_def encoded.writebuf_contents_def)
  moreover have "encoded.writebuf_wf (write_buf (cio c'))"
    using assms(1) c' wf(1) by (auto simp: conn_wf_def encoded.writebuf_wf_def headers_buf_extend_def intro: wf_intros)
  ultimately show ?thesis
    using assms(1) c' s by (auto simp: appends_def conn_out_def conn_wf_def headers_buf_extend_def)
qed

context conn_env
begin

text \<open>The part of an operation that only reads from the transport.\<close>

definition only_reads :: "('t, EncodedBuf) Buffered \<Rightarrow> ('t, EncodedBuf) Buffered \<Rightarrow> bool" where
  "only_reads b b' \<longleftrightarrow> tinv (bio b') \<and> write_buf b' = write_buf b \<and> written (bio b') = written (bio b) \<and>
     flush_pipeline b' = flush_pipeline b"

lemma only_reads_trans: "only_reads b b' \<Longrightarrow> only_reads b' b'' \<Longrightarrow> only_reads b b''"
  by (simp add: only_reads_def)

lemma only_reads_poll: "tinv (bio b) \<Longrightarrow> poll_read_from_io T grow b = (b', r) \<Longrightarrow> only_reads b b'"
  using poll_read_from_io_cases(2,3,4,6) [of b grow b' r] by (simp add: only_reads_def)

lemma appends_only_reads:
  "conn_wf tinv c \<Longrightarrow> only_reads (cio c) (cio c') \<Longrightarrow> reading_wf (s_reading (cst c')) \<Longrightarrow> appends written tinv c c'"
  by (simp add: appends_def conn_wf_def only_reads_def conn_out_def)

lemma maybe_notify_reads:
  assumes "tinv (bio (cio c))"
  shows "only_reads (cio c) (cio (maybe_notify T grow c))"
proof -
  obtain b r where p: "poll_read_from_io T grow (cio c) = (b, r)" by fastforce
  have "cio (maybe_notify T grow c) \<in> {cio c, b}"
    by (auto simp: maybe_notify_def Let_def p split: Writing.splits poll.splits sum.splits)
  then show ?thesis using only_reads_poll [OF assms p] assms by (auto simp: only_reads_def)
qed

lemma conn_try_keep_alive_reads:
  assumes "tinv (bio (cio c))" and "reading_wf (s_reading (cst c))"
  shows "only_reads (cio c) (cio (conn_try_keep_alive T grow c))"
    and "reading_wf (s_reading (cst (conn_try_keep_alive T grow c)))"
proof -
  show "only_reads (cio c) (cio (conn_try_keep_alive T grow c))"
    using maybe_notify_reads [of "c\<lparr>cst := state_try_keep_alive (cst c)\<rparr>" grow] assms(1)
    by (simp add: conn_try_keep_alive_def)
  show "reading_wf (s_reading (cst (conn_try_keep_alive T grow c)))"
    by (cases rule: conn_try_keep_alive_cases [of c T grow]) (use assms(2) in \<open>auto simp: may_close_def\<close>)
qed

text \<open>Parsing a head returns and only reads.\<close>

lemma parse_headers_total:
  "\<exists>buf' cached' r. parse_headers H ctx bs cached prev = Some (buf', cached', r) \<and> suffix buf' bs"
  using client_parse_total [of ctx bs cached] by (auto simp: parse_headers_def split: option.splits)

lemma read_buf_advance_suffix:
  "suffix buf' (read_buf b) \<Longrightarrow> read_buf (read_buf_advance b (length (read_buf b) - length buf')) = buf'"
  by (auto simp: read_buf_advance_def suffix_def)

lemma buffered_parse_total:
  assumes "tinv (bio b)"
  shows "\<exists>b' cached' r. buffered_parse T grow H ctx b cached = Some (b', cached', r) \<and> only_reads b b' \<and>
    suffix (buffered_stream unread b') (buffered_stream unread b)"
  using assms
proof (induction "length (unread (bio b))" arbitrary: b cached rule: less_induct)
  case less
  obtain buf1 cached1 r where p: "parse_headers H ctx (read_buf b) cached (partial_len b) = Some (buf1, cached1, r)"
    "suffix buf1 (read_buf b)" using parse_headers_total by blast
  define b1 where "b1 = read_buf_advance b (length (read_buf b) - length buf1)"
  have b1: "read_buf b1 = buf1" "bio b1 = bio b" "only_reads b b1"
    "suffix (buffered_stream unread b1) (buffered_stream unread b)"
    using p(2) less.prems read_buf_advance_suffix [OF p(2)]
    by (auto simp: b1_def read_buf_advance_def only_reads_def buffered_stream_def suffix_def)
  define b2 where "b2 = b1\<lparr>partial_len := (if length buf1 > 0 then Some (length buf1) else None)\<rparr>"
  obtain b3 rr where rd: "poll_read_from_io T grow b2 = (b3, rr)" by fastforce
  have inv: "tinv (bio b2)" using less.prems b1(2) by (simp add: b2_def)
  note io = poll_read_from_io_cases [OF inv rd]
  have b3: "only_reads b b3" "suffix (buffered_stream unread b3) (buffered_stream unread b)"
    using b1 io(1) only_reads_poll [OF inv rd] by (auto simp: b2_def only_reads_def buffered_stream_def)
  have more: "length (unread (bio b3)) < length (unread (bio b))" if "rr = Ready (Inr n)" "n \<noteq> 0" for n
  proof -
    have "length (read_buf b2) + length (unread (bio b2)) = length (read_buf b3) + length (unread (bio b3))"
      using arg_cong [OF io(1), of length] by (simp add: buffered_stream_def)
    then show ?thesis using io(7) that b1(2) by (simp add: b2_def)
  qed
  note eq = buffered_parse.simps [of T grow H ctx b cached, unfolded p(1) option.case prod.case]
  show ?case
  proof (cases r)
    case (Inl e)
    then show ?thesis using b1 by (simp add: eq b1_def)
  next
    case (Inr o1)
    show ?thesis
    proof (cases o1)
      case (Some msg)
      then show ?thesis using Inr b1 by (simp add: eq b1_def only_reads_def buffered_stream_def)
    next
      case None
      have eq2: "buffered_parse T grow H ctx b cached =
        (if length buf1 \<ge> strategy_max (read_buf_strategy b1) then Some (b1, cached1, Ready (Inl new_too_large))
         else case (b3, rr) of (b2, Pending) \<Rightarrow> Some (b2, cached1, Pending)
           | (b2, Ready (Inl e)) \<Rightarrow> Some (b2, cached1, Ready (Inl (new_io e)))
           | (b2, Ready (Inr n)) \<Rightarrow> if n = 0 then Some (b2, cached1, Ready (Inl new_incomplete))
               else buffered_parse T grow H ctx b2 cached1)"
        by (simp only: eq Inr None sum.case option.case b1_def [symmetric] Let_def b1(1) b2_def [symmetric] rd)
      show ?thesis
      proof (cases "\<exists>n. rr = Ready (Inr n) \<and> n \<noteq> 0")
        case True
        then obtain n where n: "rr = Ready (Inr n)" "n \<noteq> 0" by blast
        from less.hyps [OF more [OF n] io(2), of cached1] obtain b' cached' r' where
          "buffered_parse T grow H ctx b3 cached1 = Some (b', cached', r')" "only_reads b3 b'"
          "suffix (buffered_stream unread b') (buffered_stream unread b3)" by blast
        with n b1 b3 show ?thesis unfolding eq2
          by (auto intro: only_reads_trans suffix_order.trans)
      next
        case False
        then show ?thesis using b1 b3 unfolding eq2 by (auto split: poll.splits sum.splits)
      qed
    qed
  qed
qed

lemma head_parsed_reads:
  assumes "conn_wf tinv c" and "head_parsed T grow H c msg = (c', wants)"
  shows "only_reads (cio c) (cio c') \<and> reading_wf (s_reading (cst c'))"
proof -
  define s1 where "s1 = (state_busy ((cst c)\<lparr>s_h09_responses := False\<rparr>))\<lparr>s_keep_alive :=
    ka_and (s_keep_alive (state_busy ((cst c)\<lparr>s_h09_responses := False\<rparr>))) (pm_keep_alive msg),
    s_version := mh_version (pm_head msg)\<rparr>"
  let ?c = "c\<lparr>cst := s1\<lparr>s_reading := RKeepAlive\<rparr>\<rparr>"
  have inv: "tinv (bio (cio c))" using assms(1) by (simp add: conn_wf_def)
  have "only_reads (cio ?c) (cio (conn_try_keep_alive T grow ?c))"
    "reading_wf (s_reading (cst (conn_try_keep_alive T grow ?c)))"
    using conn_try_keep_alive_reads [of ?c grow] inv by simp_all
  moreover have "only_reads (cio c) (cio c)" using inv by (simp add: only_reads_def)
  ultimately show ?thesis
    using assms(2) decoder_wf_new
    by (auto simp: head_parsed_def Let_def s1_def [symmetric] split: if_splits)
qed

lemma on_read_head_error_reads:
  assumes "conn_wf tinv c" and "on_read_head_error c e = (c', r)"
  shows "only_reads (cio c) (cio c') \<and> reading_wf (s_reading (cst c'))"
  using assms
  by (auto simp: on_read_head_error_def Let_def only_reads_def conn_wf_def consume_leading_lines_def
      read_buf_advance_def state_op_defs split: if_splits)

text \<open>Reading a head returns, whatever is in the buffer and whatever the transport delivers.\<close>

lemma poll_read_head_total:
  assumes "conn_wf tinv c"
  shows "\<exists>c' r. poll_read_head T grow H c = Some (c', r) \<and> appends written tinv c c'"
proof -
  define ctx where "ctx = \<lparr>ctx_req_method = s_method (cst c), ctx_parser_config = s_parser_config (cst c),
    ctx_max_headers = s_max_headers (cst c), ctx_preserve_header_case = s_preserve_header_case (cst c),
    ctx_h09_responses = s_h09_responses (cst c)\<rparr>"
  have "tinv (bio (cio c))" using assms by (simp add: conn_wf_def)
  from buffered_parse_total [OF this, of grow ctx "s_cached_headers (cst c)"] obtain b cached r where
    p: "buffered_parse T grow H ctx (cio c) (s_cached_headers (cst c)) = Some (b, cached, r)"
    "only_reads (cio c) b" by blast
  define c1 where "c1 = c\<lparr>cio := b, cst := (cst c)\<lparr>s_cached_headers := cached\<rparr>\<rparr>"
  have c1: "conn_wf tinv c1" "only_reads (cio c) (cio c1)"
    using assms p(2) by (auto simp: c1_def conn_wf_def only_reads_def conn_inv_def)
  have eq: "poll_read_head T grow H c = (case r of
        Pending \<Rightarrow> Some (c1, Pending)
      | Ready (Inl e) \<Rightarrow> Some (on_read_head_error c1 e)
      | Ready (Inr msg) \<Rightarrow> (case head_parsed T grow H c1 msg of
           (c, wants) \<Rightarrow> Some (c, Ready (Some (Inr (pm_head msg, pm_decode msg, wants))))))"
    by (simp add: poll_read_head_def Let_def ctx_def [symmetric] p(1) c1_def [symmetric])
  have ok: "appends written tinv c c'" if "only_reads (cio c1) (cio c')" "reading_wf (s_reading (cst c'))" for c'
    using that c1(2) assms by (intro appends_only_reads) (auto intro: only_reads_trans)
  consider "r = Pending" | e where "r = Ready (Inl e)" | msg where "r = Ready (Inr msg)"
    by (cases r) (auto, metis sum.exhaust)
  then show ?thesis
  proof cases
    case 1
    then show ?thesis using eq ok [of c1] c1 by (auto simp: only_reads_def conn_wf_def)
  next
    case (2 e)
    obtain c' r' where "on_read_head_error c1 e = (c', r' :: (core_error + 'm ResponseHead \<times> DecodedLength \<times> u8) option poll)"
      by fastforce
    then show ?thesis using eq 2 ok on_read_head_error_reads [OF c1(1)] by auto
  next
    case (3 msg)
    obtain c' w where "head_parsed T grow H c1 msg = (c', w)" by fastforce
    then show ?thesis using eq 3 ok head_parsed_reads [OF c1(1)] by auto
  qed
qed

text \<open>Reading from a body returns: the decoder only sees the buffered transport.\<close>

lemma poll_read_body_with_total:
  assumes "conn_wf tinv c" and "decoder_wf d"
  shows "\<exists>c' r. poll_read_body_with T grow H c d = Some (c', r) \<and> appends written tinv c c'"
proof -
  let ?rm = "buffered_read_mem T grow :: ('t, EncodedBuf) Buffered read_mem"
  have rd: "mem_read ?rm (buffered_stream unread)
    (\<lambda>b. tinv (bio b) \<and> write_buf b = write_buf (cio c) \<and> written (bio b) = written (bio (cio c)) \<and>
      flush_pipeline b = flush_pipeline (cio c))"
    by (rule buffered_mem_read_frame)
  have inv: "tinv (bio (cio c))" using assms(1) by (simp add: conn_wf_def)
  from mem_read.decode_total [OF rd _ assms(2), of "cio c" H] inv obtain b d' res where
    d: "decode H ?rm (cio c) d = Some (b, d', res)" "only_reads (cio c) b"
    "(\<forall>e. res \<noteq> Ready (Inl e)) \<longrightarrow> decoder_wf d'"
    by (auto simp: only_reads_def)
  have leave: "appends written tinv c (conn_try_keep_alive T grow (c\<lparr>cio := b, cst := (cst c)\<lparr>s_reading := x\<rparr>\<rparr>))"
    if "reading_wf x" for x
  proof -
    let ?c = "c\<lparr>cio := b, cst := (cst c)\<lparr>s_reading := x\<rparr>\<rparr>"
    have "tinv (bio (cio ?c))" "reading_wf (s_reading (cst ?c))" using d(2) that by (auto simp: only_reads_def)
    from conn_try_keep_alive_reads [OF this, of grow] d(2) assms(1) show ?thesis
      by (intro appends_only_reads) (auto intro: only_reads_trans)
  qed
  have stay: "appends written tinv c (c\<lparr>cio := b, cst := (cst c)\<lparr>s_reading := RBody d'\<rparr>\<rparr>)"
    if "decoder_wf d'" using that d(2) assms(1) by (intro appends_only_reads) auto
  consider "res = Pending" | e where "res = Ready (Inl e)" | bs where "res = Ready (Inr (Data bs))"
    | m where "res = Ready (Inr (Trailers m))"
    by (cases res) (auto, metis sum.exhaust frame.exhaust)
  then show ?thesis
    using d(1,3) leave [of RKeepAlive] leave [of RClosed] stay
    by cases (auto simp: poll_read_body_with_def Let_def)
qed

lemma poll_read_body_total:
  assumes "conn_wf tinv c" and "can_read_body c"
  shows "\<exists>c' r. poll_read_body T grow H c = Some (c', r) \<and> appends written tinv c c'"
proof (cases "s_reading (cst c)")
  case (RBody d)
  then have "decoder_wf d" using assms(1) by (simp add: conn_wf_def)
  then show ?thesis using RBody poll_read_body_with_total [OF assms(1)] by (simp add: poll_read_body_def)
next
  case (RContinue d)
  then have d: "decoder_wf d" using assms(1) by (simp add: conn_wf_def)
  let ?c = "c\<lparr>cst := (cst c)\<lparr>s_reading := RBody d\<rparr>\<rparr>"
  have "conn_wf tinv ?c" using assms(1) d RContinue by (auto simp: conn_wf_def conn_inv_def)
  moreover have "s_writing (cst c) \<noteq> WInit" using assms(1) RContinue by (simp add: conn_wf_def conn_inv_def)
  ultimately show ?thesis
    using poll_read_body_with_total [of ?c d grow] d RContinue
    by (auto simp: poll_read_body_def Let_def appends_def conn_out_def)
qed (use assms(2) in \<open>auto simp: can_read_body_def\<close>)

lemma conn_poll_flush_total:
  assumes "conn_wf tinv c"
  shows "\<exists>c' r. conn_poll_flush T grow c = Some (c', r) \<and> appends written tinv c c' \<and>
    (r = Ready (Inr ()) \<longrightarrow> written (bio (cio c')) = conn_out written c)"
proof -
  have wf: "tinv (bio (cio c))" "encoded.writebuf_wf (write_buf (cio c))" using assms(1) by (auto simp: conn_wf_def)
  from assms have "\<not> (flush_pipeline (cio c) \<and> read_buf (cio c) \<noteq> [])" by (simp add: conn_wf_def)
  from out.buffered_poll_flush_flushed [OF wf this] obtain b res where
    f: "buffered_poll_flush T encoded_ops (cio c) = Some (b, res)" "tinv (bio b)"
    "encoded.writebuf_wf (write_buf b)" "out.all_written b = out.all_written (cio c)"
    "flush_pipeline b = flush_pipeline (cio c)"
    and res: "case res of Pending \<Rightarrow> True | Ready (Inl e) \<Rightarrow> out.flush_error e
      | Ready (Inr _) \<Rightarrow> encoded.writebuf_contents (write_buf b) = []"
    unfolding out.flushed_def by blast
  let ?c = "c\<lparr>cio := b\<rparr>"
  have base: "appends written tinv c ?c"
    using f assms(1) by (simp add: appends_def conn_out_def conn_wf_def out.all_written_def)
  show ?thesis
  proof (cases "res = Ready (Inr ())")
    case True
    have "reading_wf (s_reading (cst ?c))" using assms(1) by (simp add: conn_wf_def)
    from conn_try_keep_alive_reads [of ?c grow, OF _ this] f(2)
    have k: "only_reads b (cio (conn_try_keep_alive T grow ?c))"
      "reading_wf (s_reading (cst (conn_try_keep_alive T grow ?c)))" by auto
    moreover have "conn_poll_flush T grow c = Some (conn_try_keep_alive T grow ?c, Ready (Inr ()))"
      using f(1) True by (simp add: conn_poll_flush_def)
    moreover have "appends written tinv c (conn_try_keep_alive T grow ?c)"
      using base k by (simp add: appends_def only_reads_def conn_out_def)
    moreover have "written (bio b) = conn_out written c"
      using f(4) res True by (simp add: conn_out_def out.all_written_def)
    ultimately show ?thesis by (auto simp: only_reads_def)
  next
    case False
    then have "conn_poll_flush T grow c = Some (?c, res)"
      using f(1) by (simp add: conn_poll_flush_def split: poll.splits sum.splits)
    then show ?thesis using base False by auto
  qed
qed

lemma poll_read_keep_alive_reads:
  assumes "conn_wf tinv c"
  shows "appends written tinv c (fst (poll_read_keep_alive T grow c))"
proof -
  obtain b r where p: "poll_read_from_io T grow (cio c) = (b, r)" by fastforce
  have inv: "tinv (bio (cio c))" "reading_wf (s_reading (cst c))" using assms by (auto simp: conn_wf_def)
  have "cio (fst (poll_read_keep_alive T grow c)) \<in> {cio c, b}"
    by (auto simp: poll_read_keep_alive_def require_empty_read_def mid_message_detect_eof_def force_io_read_def p
        split: poll.splits sum.splits)
  then have "only_reads (cio c) (cio (fst (poll_read_keep_alive T grow c)))"
    using only_reads_poll [OF inv(1) p] inv(1) by (auto simp: only_reads_def)
  moreover have "reading_wf (s_reading (cst (fst (poll_read_keep_alive T grow c))))"
    using poll_read_keep_alive_may_close [of c T grow] inv(2) by (auto simp: may_close_def)
  ultimately show ?thesis using appends_only_reads [OF assms] by simp
qed

lemma poll_drain_appends:
  assumes "conn_wf tinv c" and "can_read_body c" and "poll_drain_or_close_read T grow H c = Some c'"
  shows "appends written tinv c c'"
proof -
  define c1 where "c1 = (case s_reading (cst c) of RContinue d \<Rightarrow> c\<lparr>cst := (cst c)\<lparr>s_reading := RBody d\<rparr>\<rparr> | _ \<Rightarrow> c)"
  have c1: "conn_wf tinv c1" "can_read_body c1" "cio c1 = cio c"
    using assms(1,2) by (cases "s_reading (cst c)"; simp add: c1_def conn_wf_def conn_inv_def can_read_body_def)+
  obtain c2 r where r: "poll_read_body T grow H c1 = Some (c2, r)"
    "c' = (if s_reading (cst c2) \<in> {RInit, RKeepAlive} then c2 else close_read c2)"
    using assms(3) by (auto simp: poll_drain_or_close_read_def c1_def [symmetric] Let_def)
  from poll_read_body_total [OF c1(1,2), of grow] r(1) have "appends written tinv c1 c2" by auto
  then show ?thesis using r(2) c1(3) by (auto simp: appends_def conn_out_def close_read_def state_op_defs)
qed

lemma conn_poll_shutdown_appends:
  assumes "conn_wf tinv c"
  shows "appends written tinv c (fst (conn_poll_shutdown T c))"
proof -
  have "tinv (bio (cio c))" using assms by (simp add: conn_wf_def)
  from shutdown_written [OF this] shutdown_inv [OF this] assms show ?thesis
    by (auto simp: conn_poll_shutdown_def appends_def conn_wf_def conn_out_def split: prod.splits)
qed

lemma conn_step_appends:
  assumes "conn_step T grow H c c'" and "conn_wf tinv c"
  shows "appends written tinv c c'"
  using assms(1)
proof (cases rule: conn_step.cases)
  case (step_read_head r)
  then show ?thesis using poll_read_head_total [OF assms(2), of grow] by auto
next
  case (step_read_body r)
  then show ?thesis using poll_read_body_total [OF assms(2), of grow] by auto
next
  case (step_flush r)
  then show ?thesis using conn_poll_flush_total [OF assms(2), of grow] by auto
next
  case step_keep_alive
  then show ?thesis using poll_read_keep_alive_reads [OF assms(2)] by simp
next
  case step_shutdown
  then show ?thesis using conn_poll_shutdown_appends [OF assms(2)] by simp
next
  case step_drain
  then show ?thesis using poll_drain_appends [OF assms(2)] by blast
next
  case (step_write_head head body)
  then show ?thesis using write_head_appends [OF assms(2)] by blast
next
  case (step_write_body chunk)
  then show ?thesis using write_body_appends [OF assms(2)] by blast
next
  case (step_write_trailers trailers)
  then show ?thesis using write_trailers_appends [OF assms(2)] by blast
next
  case (step_write_body_and_end chunk)
  then show ?thesis using write_body_and_end_appends [OF assms(2)] by blast
next
  case (step_end_body r)
  then show ?thesis using end_body_appends [OF assms(2)] by blast
qed (use assms(2) in \<open>auto intro!: appends_same_io simp: close_read_def close_write_def wants_read_again_def
       take_error_def on_upgrade_def prepare_upgrade_def pending_upgrade_def state_op_defs conn_wf_def split: option.splits\<close>)

lemma conn_step_wf:
  assumes "conn_step T grow H c c'" and "conn_wf tinv c"
  shows "conn_wf tinv c'"
proof -
  have "conn_inv (cst c)" using assms(2) by (simp add: conn_wf_def)
  from conn_step_ok [OF assms(1) this] conn_step_appends [OF assms] assms(2) show ?thesis
    by (simp add: conn_wf_def appends_def)
qed

lemma conn_steps_wf:
  assumes "(conn_step T grow H)\<^sup>*\<^sup>* c c'" and "conn_wf tinv c"
  shows "conn_wf tinv c' \<and> prefix (conn_out written c) (conn_out written c')"
  using assms
proof (induction rule: rtranclp_induct)
  case (step c1 c2)
  then have wf: "conn_wf tinv c1" and pre: "prefix (conn_out written c) (conn_out written c1)" by auto
  from conn_step_appends [OF step(2) wf] pre conn_step_wf [OF step(2) wf] show ?case
    by (auto simp: appends_def)
qed simp

end

section \<open>A whole body\<close>

text \<open>
  The dispatcher's work on the body of a request: a buffer is written while there is room for one, as
  the assertion of \<^verbatim>\<open>write_body\<close> demands, and what is buffered is flushed at any time, with any outcome of
  the flush.
\<close>

inductive body_run ::
  "('t, 'z) transport_ops_scheme \<Rightarrow> (nat \<Rightarrow> nat \<Rightarrow> nat) \<Rightarrow> ('t, 'm, 'c) Conn \<Rightarrow> bytes list \<Rightarrow>
   ('t, 'm, 'c) Conn \<Rightarrow> bool"
  for T :: "('t, 'z) transport_ops_scheme" and grow and c where
  run_start: "body_run T grow c [] c"
| run_write: "body_run T grow c msgs c1 \<Longrightarrow> m \<noteq> [] \<Longrightarrow> length m < 2 ^ 64 \<Longrightarrow> can_buffer_body c1 \<Longrightarrow>
    write_body grow c1 m = Some c2 \<Longrightarrow> body_run T grow c (msgs @ [m]) c2"
| run_flush: "body_run T grow c msgs c1 \<Longrightarrow> can_write_body c1 \<Longrightarrow> conn_poll_flush T grow c1 = Some (c2, r) \<Longrightarrow>
    body_run T grow c msgs c2"

lemma try_keep_alive_body:
  "s_writing (cst c) = WBody enc \<Longrightarrow> conn_try_keep_alive T grow c = c"
  by (cases "s_reading (cst c)")
    (simp_all add: conn_try_keep_alive_def state_try_keep_alive_def maybe_notify_def)

context conn_env
begin

lemma body_flush:
  fixes c :: "('t, 'm, 'c) Conn"
  assumes "conn_wf tinv c" and "s_writing (cst c) = WBody enc" and "conn_poll_flush T grow c = Some (c', r)"
  shows "conn_wf tinv c' \<and> s_writing (cst c') = WBody enc \<and> conn_out written c' = conn_out written c"
proof -
  have wf: "tinv (bio (cio c))" "encoded.writebuf_wf (write_buf (cio c))" using assms(1) by (auto simp: conn_wf_def)
  from assms(1) have "\<not> (flush_pipeline (cio c) \<and> read_buf (cio c) \<noteq> [])" by (simp add: conn_wf_def)
  from out.buffered_poll_flush_flushed [OF wf this] obtain b res where
    f: "buffered_poll_flush T encoded_ops (cio c) = Some (b, res)" "out.all_written b = out.all_written (cio c)"
    unfolding out.flushed_def by blast
  have "c' = c\<lparr>cio := b\<rparr>"
    using assms(3) f(1) try_keep_alive_body [of "c\<lparr>cio := b\<rparr>" enc T grow] assms(2)
    by (auto simp: conn_poll_flush_def split: poll.splits sum.splits)
  with f(2) assms(2) conn_step_wf [OF step_flush [OF assms(3), of H] assms(1)] show ?thesis
    by (simp add: conn_out_def out.all_written_def)
qed

end

lemma end_body_chunked:
  assumes "conn_wf tinv c" and "s_writing (cst c) = WBody enc" and "ekind enc = EChunked t"
  shows "\<exists>c'. end_body grow c = Some (c', Inr ()) \<and> conn_wf tinv c' \<and> bio (cio c') = bio (cio c) \<and>
    conn_buffered c' = conn_buffered c @ ''0'' @ CRLF @ CRLF \<and> s_writing (cst c') = written_state enc"
proof -
  let ?eb = "ChunkedEnd (''0'' @ CRLF @ CRLF)"
  have e: "encoder_end enc = Inr (Some ?eb)" using assms(3) by (simp add: encoder_end_def)
  from conn_buffer_out [of c ?eb grow] assms(1) obtain c1 where
    c1: "conn_buffer grow c ?eb = Some c1" "cst c1 = cst c" "bio (cio c1) = bio (cio c)"
    "flush_pipeline (cio c1) = flush_pipeline (cio c)"
    "encoded.writebuf_wf (write_buf (cio c1))" "conn_buffered c1 = conn_buffered c @ ''0'' @ CRLF @ CRLF"
    by (auto simp: conn_wf_def)
  have "end_body grow c = Some (set_writing (written_state enc) c1, Inr ())"
    using assms(2) e c1(1)
    by (simp add: end_body_def can_write_body_def written_state_def encoder_is_close_delimited_def)
  moreover have "conn_wf tinv (set_writing (written_state enc) c1)"
    using assms(1,2) c1 by (auto simp: conn_wf_def conn_inv_def set_writing_def written_state_def)
  ultimately show ?thesis using c1 by (auto simp: set_writing_def)
qed

text \<open>The bytes written so far, as far as any continuation of the body is concerned.\<close>

definition chunks_out :: "encoder \<Rightarrow> bytes list \<Rightarrow> bytes \<Rightarrow> bool" where
  "chunks_out enc msgs bs \<longleftrightarrow>
     (\<forall>ms wire. encode_all enc ms = Some wire \<longrightarrow> encode_all enc (msgs @ ms) = Some (bs @ wire))"

lemma chunks_out_end:
  "chunks_out enc msgs bs \<Longrightarrow> ekind enc = EChunked t \<Longrightarrow> encode_all enc msgs = Some (bs @ ''0'' @ CRLF @ CRLF)"
  unfolding chunks_out_def by (drule spec [of _ "[]"]) (simp add: encoder_end_def)

lemma write_body_chunked:
  assumes "conn_wf tinv c" and "s_writing (cst c) = WBody enc" and "ekind enc = EChunked t"
    and "m \<noteq> []" and "length m < 2 ^ 64" and "can_buffer_body c"
  shows "\<exists>c' eb. write_body grow c m = Some c' \<and> encode enc m = Some (enc, eb) \<and> conn_wf tinv c' \<and>
    s_writing (cst c') = WBody enc \<and> conn_out written c' = conn_out written c @ encoded_bytes eb"
proof -
  from write_body_out [OF assms(1,2,4,5,6), of grow] obtain c1 enc1 eb where
    c1: "write_body grow c m = Some c1" "encode enc m = Some (enc1, eb)"
    "conn_buffered c1 = conn_buffered c @ encoded_bytes eb" "conn_wf tinv c1" "bio (cio c1) = bio (cio c)"
    "s_writing (cst c1) = (if \<not> encoder_is_eof enc1 then WBody enc1 else written_state enc1)" by blast
  have "enc1 = enc" using c1(2) assms(3) by (auto simp: encode_def Let_def split: option.splits)
  with c1 assms(3) show ?thesis by (simp add: conn_out_def encoder_is_eof_def)
qed

lemma body_run_chunked:
  fixes H :: "('m, 'c, 'y) h1_lib_scheme" and c :: "('t, 'm, 'c) Conn"
  assumes "body_run T grow c msgs c'" and "conn_env T unread tinv written H" and "conn_wf tinv c"
    and "s_writing (cst c) = WBody enc" and "ekind enc = EChunked t"
  shows "conn_wf tinv c' \<and> s_writing (cst c') = WBody enc \<and>
    (\<exists>bs. conn_out written c' = conn_out written c @ bs \<and> chunks_out enc msgs bs)"
  using assms(1)
proof induction
  case run_start
  show ?case using assms(3,4) by (auto simp: chunks_out_def)
next
  case (run_write msgs c1 m c2)
  then obtain bs where c1: "conn_wf tinv c1" "s_writing (cst c1) = WBody enc"
    "conn_out written c1 = conn_out written c @ bs" "chunks_out enc msgs bs" by blast
  from write_body_chunked [OF c1(1,2) assms(5) run_write(2-4), of grow written] run_write(5) obtain eb where
    "encode enc m = Some (enc, eb)" "conn_wf tinv c2" "s_writing (cst c2) = WBody enc"
    "conn_out written c2 = conn_out written c1 @ encoded_bytes eb" by auto
  with c1 show ?case by (intro conjI exI [of _ "bs @ encoded_bytes eb"]) (auto simp: chunks_out_def)
next
  case (run_flush msgs c1 c2 r)
  with conn_env.body_flush [OF assms(2), of c1 enc grow c2 r] show ?case by simp
qed

text \<open>A sized body: no more than the announced number of bytes is ever written.\<close>

lemma write_body_sized:
  assumes "conn_wf tinv c" and "s_writing (cst c) = WBody enc" and "ekind enc = ELength n"
    and "chunk \<noteq> []" and "length chunk < 2 ^ 64" and "can_buffer_body c"
  shows "\<exists>c'. write_body grow c chunk = Some c' \<and> conn_wf tinv c' \<and>
    conn_out written c' = conn_out written c @ take (unat n) chunk \<and>
    (if length chunk < unat n
     then s_writing (cst c') = WBody (enc\<lparr>ekind := ELength (n - of_nat (length chunk))\<rparr>)
     else s_writing (cst c') = written_state enc)"
proof -
  from write_body_out [OF assms(1,2,4,5,6), of grow] obtain c' enc' eb where
    w: "write_body grow c chunk = Some c'" "encode enc chunk = Some (enc', eb)"
    "conn_out written c' = conn_out written c @ encoded_bytes eb" "conn_wf tinv c'"
    "s_writing (cst c') = (if \<not> encoder_is_eof enc' then WBody enc' else written_state enc')"
    by (auto simp: conn_out_def)
  have eof: "n - of_nat (length chunk) = 0 \<longleftrightarrow> length chunk = unat n" if "length chunk \<le> unat n"
    unfolding right_minus_eq using unat_of_nat_u64 [of "length chunk"] assms(5) by (auto simp: word_unat_eq_iff)
  show ?thesis
  proof (cases "length chunk > unat n")
    case True
    then show ?thesis using w assms(3)
      by (auto simp: encode_def Let_def encoder_is_eof_def written_state_def encoder_is_last_def)
  next
    case False
    then show ?thesis using w assms(3) eof
      by (auto simp: encode_def Let_def encoder_is_eof_def written_state_def encoder_is_last_def)
  qed
qed

lemma body_run_sized:
  fixes H :: "('m, 'c, 'y) h1_lib_scheme" and c :: "('t, 'm, 'c) Conn"
  assumes "body_run T grow c msgs c'" and "conn_env T unread tinv written H" and "conn_wf tinv c"
    and "s_writing (cst c) = WBody enc" and "ekind enc = ELength n"
  shows "conn_wf tinv c' \<and> conn_out written c' = conn_out written c @ take (unat n) (concat msgs) \<and>
    (if length (concat msgs) < unat n
     then s_writing (cst c') = WBody (enc\<lparr>ekind := ELength (n - of_nat (length (concat msgs)))\<rparr>)
     else s_writing (cst c') = written_state enc)"
  using assms(1)
proof induction
  case run_start
  have "\<not> encoder_is_eof enc" using assms(3,4) by (auto simp: conn_wf_def conn_inv_def)
  then have "0 < unat n" using assms(5) by (auto simp: encoder_is_eof_def unat_gt_0)
  then show ?case using assms(3,4,5) by simp
next
  case (run_write msgs c1 m c2)
  let ?k = "length (concat msgs)" and ?enc = "enc\<lparr>ekind := ELength (n - of_nat (length (concat msgs)))\<rparr>"
  have k: "?k < unat n" and w: "s_writing (cst c1) = WBody ?enc"
    using run_write.IH write_guards(2) [OF run_write(5)]
    by (auto simp: can_write_body_def written_state_def split: if_splits)
  have "unat n < 2 ^ 64" using unsigned_less [of n] by simp
  with k have un: "unat (n - of_nat ?k) = unat n - ?k"
    using unat_of_nat_u64 [of ?k] by (simp add: unat_sub word_le_nat_alt)
  from write_body_sized [of tinv c1 ?enc "n - of_nat ?k" m grow written] run_write w
  have "conn_wf tinv c2 \<and> conn_out written c2 = conn_out written c1 @ take (unat n - ?k) m \<and>
    (if length m < unat n - ?k then s_writing (cst c2) = WBody (enc\<lparr>ekind := ELength (n - of_nat ?k - of_nat (length m))\<rparr>)
     else s_writing (cst c2) = written_state enc)"
    unfolding un by (auto simp: written_state_def encoder_is_last_def)
  then show ?case using run_write.IH k by (auto simp: diff_diff_add less_diff_conv add.commute split: if_splits)
next
  case (run_flush msgs c1 c2 r)
  from run_flush(2) obtain enc1 where e: "s_writing (cst c1) = WBody enc1"
    by (auto simp: can_write_body_def split: Writing.splits)
  with conn_env.body_flush [OF assms(2) _ e run_flush(3)] run_flush.IH show ?case
    by (auto simp: written_state_def split: if_splits)
qed

section \<open>Properties\<close>

interpretation mock_conn: conn_env mock_ops "\<lambda>m. script_bytes (script m)" "\<lambda>_. True" sent assoc_h1
  by unfold_locales

definition mock_conn0 :: "mock_read list \<Rightarrow> (mock, assoc_map, bool) Conn" where
  "mock_conn0 as = conn_new mock_ops False \<lparr>script = as, sent = [], write_limit = 5\<rparr>"

definition get_head :: "assoc_map RequestHead" where
  "get_head = \<lparr>mh_version = HTTP_11, mh_subject = (GET, ''/''), mh_headers = [(''host'', ''h'')],
     mh_case_map = None, mh_reason = None\<rparr>"

lemma conn_wf_new:
  "tinv t \<Longrightarrow> conn_wf tinv (conn_new T cfg t)"
  by (simp add: conn_wf_def conn_new_def buffered_new_def conn_inv_def encoded.writebuf_wf_new)

lemma conn_steps_ka:
  assumes "(conn_step T grow H)\<^sup>*\<^sup>* c c'" and "conn_inv (cst c)" and "s_keep_alive (cst c) = KADisabled"
  shows "conn_inv (cst c') \<and> s_keep_alive (cst c') = KADisabled \<and>
    (s_writing (cst c) \<noteq> WInit \<longrightarrow> s_writing (cst c') \<noteq> WInit)"
  using assms
proof (induction rule: rtranclp_induct)
  case (step c1 c2)
  from conn_step_ok [OF step(2)] step show ?case by (auto simp: ka_ok_def)
qed simp

text \<open>C8. Keep-alive, once disabled, stays disabled: after an error, a \<^verbatim>\<open>Connection: close\<close> or an end of file no
  sequence of operations brings a connection whose request has been started back to the state in which
  another request may be written.\<close>

theorem keep_alive_stays_disabled:
  assumes "(conn_step T grow H)\<^sup>*\<^sup>* c c'" and "conn_inv (cst c)" and "s_keep_alive (cst c) = KADisabled"
    and "s_writing (cst c) \<noteq> WInit"
  shows "s_keep_alive (cst c') = KADisabled \<and> \<not> can_write_head c'"
  using conn_steps_ka [OF assms(1,2,3)] assms(4) by (simp add: can_write_head_def)

text \<open>Witness of C8: both sides closed, one after the other.\<close>

theorem keep_alive_stays_disabled_witness:
  "\<not> can_write_head (close_read (close_write (mock_conn0 [])))"
proof -
  have "(conn_step mock_ops (\<lambda>_ n. n) assoc_h1)\<^sup>*\<^sup>* (close_write (mock_conn0 [])) (close_read (close_write (mock_conn0 [])))"
    by (rule r_into_rtranclp) (rule step_close_read)
  from keep_alive_stays_disabled [OF this] show ?thesis
    by (simp add: conn_inv_def close_write_def state_close_write_def mock_conn0_def conn_new_def)
qed

text \<open>C9. A connection is only made ready for another request when the exchange before is finished on both sides. A step
  that brings the writing side back to its start needs the request written completely and keep-alive not
  disabled, and leaves the connection idle; and the response is finished: it had been read to its end
  before the step, or the step itself is the read of a head that announces no body, or the read after
  which the decoder says that the body is complete.\<close>

theorem reuse_needs_finished_exchange:
  assumes "conn_step T grow H c c'" and "conn_inv (cst c)" and "s_writing (cst c) \<noteq> WInit"
    and "s_writing (cst c') = WInit"
  shows "s_writing (cst c) = WKeepAlive \<and> s_reading (cst c) \<noteq> RClosed \<and> s_keep_alive (cst c) = KABusy \<and>
    response_finished T grow H c c' \<and> s_keep_alive (cst c') = KAIdle \<and> s_reading (cst c') = RInit"
proof -
  have "s_keep_alive (cst c) \<noteq> KAIdle" using assms(2,3) by (auto simp: conn_inv_def)
  with conn_step_ok [OF assms(1,2)] conn_step_idle [OF assms(1,4,3)] assms(3,4) show ?thesis
    by (cases "s_keep_alive (cst c)") (auto simp: ka_ok_def)
qed

definition finished_conn :: "(mock, assoc_map, bool) Conn" where
  "finished_conn = (mock_conn0 [Wait])\<lparr>cst := (cst (mock_conn0 []))\<lparr>s_reading := RKeepAlive, s_writing := WKeepAlive\<rparr>\<rparr>"

lemma finished_flush:
  "\<exists>c'. conn_poll_flush mock_ops (\<lambda>_ n. n) finished_conn = Some (c', Ready (Inr ())) \<and> s_writing (cst c') = WInit"
  by (simp add: finished_conn_def mock_conn0_def conn_new_def buffered_new_def conn_poll_flush_def buffered_poll_flush_def
      writebuf_new_def writebuf_remaining_def cursor_defs buflist_remaining_def buflist_new_def flush_io_def mock_ops_def
      conn_try_keep_alive_def state_try_keep_alive_def state_op_defs Let_def maybe_notify_def is_read_blocked_def
      poll_read_from_io_def)

text \<open>Witness of C9: the flush after a finished exchange.\<close>

theorem reuse_needs_finished_exchange_witness:
  "\<exists>c'. conn_poll_flush mock_ops (\<lambda>_ n. n) finished_conn = Some (c', Ready (Inr ())) \<and>
     s_writing (cst finished_conn) = WKeepAlive \<and> s_keep_alive (cst finished_conn) = KABusy \<and>
     response_finished mock_ops (\<lambda>_ n. n) assoc_h1 finished_conn c' \<and> s_keep_alive (cst c') = KAIdle"
proof -
  obtain c' where c': "conn_poll_flush mock_ops (\<lambda>_ n. n) finished_conn = Some (c', Ready (Inr ()))" "s_writing (cst c') = WInit"
    using finished_flush by blast
  have "conn_inv (cst finished_conn)" "s_writing (cst finished_conn) \<noteq> WInit"
    by (simp_all add: finished_conn_def mock_conn0_def conn_new_def conn_inv_def)
  from reuse_needs_finished_exchange [OF step_flush [OF c'(1), of assoc_h1] this c'(2)] c'(1) show ?thesis by blast
qed

text \<open>Nothing a connection has written or buffered is ever lost, changed or reordered: along every sequence of
  operations, over every conforming transport, the bytes handed to the transport followed by those still
  buffered only grow at their end; and the connection stays well-formed.\<close>

lemma output_only_grows:
  assumes "conn_env T unread tinv written H" and "conn_wf tinv c" and "(conn_step T grow H)\<^sup>*\<^sup>* c c'"
  shows "conn_wf tinv c' \<and> prefix (conn_out written c) (conn_out written c')"
  using conn_env.conn_steps_wf [OF assms(1,3,2)] .

lemma can_write_get: "can_write_head (mock_conn0 [])"
  by (simp add: can_write_head_def mock_conn0_def conn_new_def buffered_new_def can_headers_buf_def writebuf_new_def
      buflist_remaining_def buflist_new_def)

lemma write_get: "\<exists>c'. write_head (\<lambda>_ n. n) assoc_h1 (mock_conn0 []) get_head None = Some c'"
  using can_write_get by (simp add: write_head_def encode_head_def mock_conn0_def conn_new_def get_head_def enforce_version_def
      state_op_defs client_encode_def set_length_def Let_def)

text \<open>At a concrete input: the head of a request.\<close>

lemma output_only_grows_instance:
  "\<exists>c'. write_head (\<lambda>_ n. n) assoc_h1 (mock_conn0 []) get_head None = Some c' \<and>
     prefix (conn_out sent (mock_conn0 [])) (conn_out sent c')"
proof -
  obtain c' where w: "write_head (\<lambda>_ n. n) assoc_h1 (mock_conn0 []) get_head None = Some c'" using write_get by blast
  have wf: "conn_wf (\<lambda>_. True) (mock_conn0 [])" by (simp add: mock_conn0_def conn_wf_new)
  have "(conn_step mock_ops (\<lambda>_ n. n) assoc_h1)\<^sup>*\<^sup>* (mock_conn0 []) c'"
    by (rule r_into_rtranclp) (rule step_write_head [OF can_write_get w])
  from output_only_grows [OF mock_conn.conn_env_axioms wf this] w show ?thesis by blast
qed

text \<open>Reading a response head returns for every transport and whatever bytes it delivers: the loop of parsing and
  reading ends, because each round consumes from the transport.\<close>

lemma read_head_returns:
  assumes "conn_env T unread tinv written H" and "conn_wf tinv c"
  shows "\<exists>c' r. poll_read_head T grow H c = Some (c', r)"
  using conn_env.poll_read_head_total [OF assms] by blast

text \<open>At a concrete input: a connection whose transport delivers garbage and then blocks.\<close>

lemma read_head_returns_instance:
  "\<exists>c' r. poll_read_head mock_ops (\<lambda>_ n. n) assoc_h1 (mock_conn0 [Chunk ''xyz'', Wait]) = Some (c', r)"
  by (rule read_head_returns [OF mock_conn.conn_env_axioms]) (simp add: mock_conn0_def conn_wf_new)

text \<open>Reading from a response body returns, with every decoder and in both states in which it may be called, and
  never reaches the \<^verbatim>\<open>unreachable!\<close> of its state match.\<close>

lemma read_body_returns:
  assumes "conn_env T unread tinv written H" and "conn_wf tinv c" and "can_read_body c"
  shows "\<exists>c' r. poll_read_body T grow H c = Some (c', r)"
  using conn_env.poll_read_body_total [OF assms] by blast

definition reading_conn :: "mock_read list \<Rightarrow> (mock, assoc_map, bool) Conn" where
  "reading_conn as = (mock_conn0 as)\<lparr>cst := (cst (mock_conn0 as))\<lparr>s_reading := RBody (Length 4), s_writing := WKeepAlive\<rparr>\<rparr>"

lemma reading_conn_wf: "conn_wf (\<lambda>_. True) (reading_conn as)"
  by (simp add: reading_conn_def mock_conn0_def conn_wf_def conn_new_def buffered_new_def conn_inv_def
      encoded.writebuf_wf_new)

text \<open>At a concrete input: a body of four bytes of which two arrive.\<close>

lemma read_body_returns_instance:
  "\<exists>c' r. poll_read_body mock_ops (\<lambda>_ n. n) assoc_h1 (reading_conn [Chunk ''ab'']) = Some (c', r)"
  by (rule read_body_returns [OF mock_conn.conn_env_axioms reading_conn_wf])
    (simp add: reading_conn_def can_read_body_def)

text \<open>C14. A flush returns, and when it reports success everything written to the connection before has been handed to
  the transport, in order.\<close>

theorem flush_hands_over_everything:
  assumes "conn_env T unread tinv written H" and "conn_wf tinv c"
  shows "\<exists>c' r. conn_poll_flush T grow c = Some (c', r) \<and>
    (r = Ready (Inr ()) \<longrightarrow> written (bio (cio c')) = conn_out written c)"
  using conn_env.conn_poll_flush_total [OF assms] by blast

text \<open>Witness of C14: the same connection.\<close>

theorem flush_hands_over_everything_witness:
  "\<exists>c' r. conn_poll_flush mock_ops (\<lambda>_ n. n) (mock_conn0 []) = Some (c', r)"
  using flush_hands_over_everything [OF mock_conn.conn_env_axioms, of "mock_conn0 []"]
  by (simp add: mock_conn0_def conn_wf_new) blast

text \<open>C2. A chunked request body written through the connection, in any division into non-empty buffers, with
  flushes of any outcome between them and each buffer written when there is room for it, appears on the
  wire as exactly the encoder's bytes for it, after everything before. At every moment a further buffer
  can be written if there is room, a flush returns, and the body can be ended, which finishes the writing
  side: none of these panics.\<close>

theorem chunked_body_on_the_wire:
  fixes H :: "('m, 'c, 'y) h1_lib_scheme" and c :: "('t, 'm, 'c) Conn"
  assumes "conn_env T unread tinv written H" and "conn_wf tinv c" and "s_writing (cst c) = WBody enc"
    and "ekind enc = EChunked t" and "body_run T grow c msgs c'"
  shows "(can_buffer_body c' \<longrightarrow> (\<forall>m. m \<noteq> [] \<and> length m < 2 ^ 64 \<longrightarrow> (\<exists>c''. write_body grow c' m = Some c''))) \<and>
    (\<exists>c'' r. conn_poll_flush T grow c' = Some (c'', r)) \<and>
    (\<exists>c'' wire. end_body grow c' = Some (c'', Inr ()) \<and> encode_all enc msgs = Some wire \<and>
       conn_out written c'' = conn_out written c @ wire \<and> s_writing (cst c'') = written_state enc)"
proof -
  from body_run_chunked [OF assms(5,1-4)] obtain bs where
    c': "conn_wf tinv c'" "s_writing (cst c') = WBody enc"
    "conn_out written c' = conn_out written c @ bs" "chunks_out enc msgs bs" by blast
  from end_body_chunked [OF c'(1,2) assms(4), of grow] c'(3) chunks_out_end [OF c'(4) assms(4)]
  have "\<exists>c'' wire. end_body grow c' = Some (c'', Inr ()) \<and> encode_all enc msgs = Some wire \<and>
       conn_out written c'' = conn_out written c @ wire \<and> s_writing (cst c'') = written_state enc"
    by (auto simp: conn_out_def)
  moreover have "\<exists>c'' r. conn_poll_flush T grow c' = Some (c'', r)"
    using conn_env.conn_poll_flush_total [OF assms(1) c'(1), of grow] by blast
  moreover have "\<exists>c''. write_body grow c' m = Some c''"
    if "can_buffer_body c'" "m \<noteq> [] \<and> length m < 2 ^ 64" for m
    using write_body_out [OF c'(1,2), of m grow] that by blast
  ultimately show ?thesis by blast
qed

definition writing_conn :: "encoder_kind \<Rightarrow> (mock, assoc_map, bool) Conn" where
  "writing_conn k = set_writing (WBody (encoder_new k)) (mock_conn0 [])"

lemma writing_conn_wf: "k \<noteq> ELength 0 \<Longrightarrow> conn_wf (\<lambda>_. True) (writing_conn k)"
  by (simp add: writing_conn_def set_writing_def mock_conn0_def conn_wf_def conn_new_def buffered_new_def conn_inv_def
      encoded.writebuf_wf_new encoder_is_eof_def encoder_new_def)

lemma writing_conn_room: "can_buffer_body (writing_conn k)"
  by (simp add: writing_conn_def set_writing_def mock_conn0_def conn_new_def can_buffer_body_def buffered_can_buffer_def
      buffered_new_def writebuf_can_buffer_def writebuf_new_def writebuf_remaining_def cursor_defs buflist_remaining_def
      buflist_new_def bufs_cnt_def MAX_BUF_LIST_BUFFERS_def DEFAULT_MAX_BUFFER_SIZE_def mock_ops_def)

lemma writing_conn_run:
  assumes "k \<noteq> ELength 0" and "m \<noteq> []" and "length m < 2 ^ 64"
  shows "\<exists>c'. write_body (\<lambda>_ n. n) (writing_conn k) m = Some c' \<and>
    body_run mock_ops (\<lambda>_ n. n) (writing_conn k) [m] c'"
proof -
  have w: "s_writing (cst (writing_conn k)) = WBody (encoder_new k)" by (simp add: writing_conn_def set_writing_def)
  from write_body_out [OF writing_conn_wf [OF assms(1)] w assms(2,3) writing_conn_room]
  obtain c' where c': "write_body (\<lambda>_ n. n) (writing_conn k) m = Some c'" by blast
  from run_write [OF run_start assms(2,3) writing_conn_room c'] show ?thesis using c' by auto
qed

text \<open>Witness of C2: one buffer, then the end of the body.\<close>

theorem chunked_body_on_the_wire_witness:
  "\<exists>c' c'' wire. write_body (\<lambda>_ n. n) (writing_conn (EChunked None)) ''hi'' = Some c' \<and>
     end_body (\<lambda>_ n. n) c' = Some (c'', Inr ()) \<and>
     encode_all (encoder_new (EChunked None)) [''hi''] = Some wire \<and>
     conn_out sent c'' = conn_out sent (writing_conn (EChunked None)) @ wire"
proof -
  obtain c' where c': "write_body (\<lambda>_ n. n) (writing_conn (EChunked None)) ''hi'' = Some c'"
    "body_run mock_ops (\<lambda>_ n. n) (writing_conn (EChunked None)) [''hi''] c'"
    using writing_conn_run [of "EChunked None" "''hi''"] by auto
  have w: "s_writing (cst (writing_conn (EChunked None))) = WBody (encoder_new (EChunked None))"
    "ekind (encoder_new (EChunked None)) = EChunked None"
    by (simp_all add: writing_conn_def set_writing_def encoder_new_def)
  from chunked_body_on_the_wire [OF mock_conn.conn_env_axioms writing_conn_wf w c'(2)] c'(1) show ?thesis by auto
qed

text \<open>C15. Of a sized request body no more than the announced number of bytes reaches the wire, in whatever non-empty
  buffers it is written, each when there is room for it, and with flushes of any outcome between them;
  the body is finished exactly when that number is reached, and until then a further buffer can be
  written if there is room.\<close>

theorem sized_body_on_the_wire:
  fixes H :: "('m, 'c, 'y) h1_lib_scheme" and c :: "('t, 'm, 'c) Conn"
  assumes "conn_env T unread tinv written H" and "conn_wf tinv c" and "s_writing (cst c) = WBody enc"
    and "ekind enc = ELength n" and "body_run T grow c msgs c'"
  shows "conn_out written c' = conn_out written c @ take (unat n) (concat msgs) \<and>
    (if length (concat msgs) < unat n
     then s_writing (cst c') = WBody (enc\<lparr>ekind := ELength (n - of_nat (length (concat msgs)))\<rparr>) \<and>
       (can_buffer_body c' \<longrightarrow> (\<forall>m. m \<noteq> [] \<and> length m < 2 ^ 64 \<longrightarrow> (\<exists>c''. write_body grow c' m = Some c'')))
     else s_writing (cst c') = written_state enc)"
proof -
  note run = body_run_sized [OF assms(5,1-4)]
  have "\<exists>c''. write_body grow c' m = Some c''"
    if "s_writing (cst c') = WBody e" "can_buffer_body c'" "m \<noteq> [] \<and> length m < 2 ^ 64" for e m
    using write_body_out [of tinv c' e m grow] run that by blast
  with run show ?thesis by auto
qed

text \<open>Witness of C15: three bytes for a body of two.\<close>

theorem sized_body_on_the_wire_witness:
  "\<exists>c'. write_body (\<lambda>_ n. n) (writing_conn (ELength 2)) ''abc'' = Some c' \<and>
     conn_out sent c' = conn_out sent (writing_conn (ELength 2)) @ ''ab'' \<and>
     s_writing (cst c') = written_state (encoder_new (ELength 2))"
proof -
  obtain c' where c': "write_body (\<lambda>_ n. n) (writing_conn (ELength 2)) ''abc'' = Some c'"
    "body_run mock_ops (\<lambda>_ n. n) (writing_conn (ELength 2)) [''abc''] c'"
    using writing_conn_run [of "ELength 2" "''abc''"] by auto
  have w: "s_writing (cst (writing_conn (ELength 2))) = WBody (encoder_new (ELength 2))"
    "ekind (encoder_new (ELength 2)) = ELength 2"
    by (simp_all add: writing_conn_def set_writing_def encoder_new_def)
  from sized_body_on_the_wire [OF mock_conn.conn_env_axioms writing_conn_wf w c'(2)] c'(1) show ?thesis by auto
qed

end
