(* ===== verification/H1_Eval.thy ===== *)
theory H1_Eval
  imports H1_Wire "HOL-Library.Code_Target_Nat"
begin

text \<open>
  Code equations with which a connection runs inside the logic: the loops are unfolded only once the value
  they branch on is known, and numbers are binary.
\<close>

lemma buflist_advance_code [code]:
  "buflist_advance B bufs n =
     (if n = 0 then Some bufs
      else case bufs of
             [] \<Rightarrow> None
           | front # bufs \<Rightarrow>
               let rem = buf_remaining B front
               in if rem > n then map_option (\<lambda>front'. front' # bufs) (buf_advance B front n)
                  else case buf_advance B front rem of None \<Rightarrow> None | Some _ \<Rightarrow> buflist_advance B bufs (n - rem))"
  by (cases n; cases bufs) (auto simp: Let_def)

lemma poll_flush_flattened_code [code]:
  "poll_flush_flattened T b =
     (let p = poll_write T (bio b) (cursor_chunk (wb_headers (write_buf b)))
      in case snd p of
           Pending \<Rightarrow> Some (b\<lparr>bio := fst p\<rparr>, Pending)
         | Ready (Inl e) \<Rightarrow> Some (b\<lparr>bio := fst p\<rparr>, Ready (Inl e))
         | Ready (Inr n) \<Rightarrow>
             (case cursor_advance (wb_headers (write_buf b)) n of
                None \<Rightarrow> Some (b\<lparr>bio := fst p\<rparr>, Ready (Inl (Panicked ''advance'')))
              | Some h \<Rightarrow>
                  (let b' = b\<lparr>bio := fst p, write_buf := (write_buf b)\<lparr>wb_headers := h\<rparr>\<rparr>
                   in if cursor_remaining h = 0
                      then Some (flush_io T (b'\<lparr>write_buf := (write_buf b')\<lparr>wb_headers := cursor_reset h\<rparr>\<rparr>))
                      else if n = 0 then Some (b', Ready (Inl (IoError WriteZero [])))
                      else poll_flush_flattened T b')))"
  by (subst poll_flush_flattened.simps, unfold Let_def case_prod_unfold, rule refl)

lemma poll_flush_vectored_code [code]:
  "poll_flush_vectored T B b =
     (let p = poll_write_vectored T (bio b) (writebuf_chunks_vectored B (write_buf b) MAX_WRITEV_BUFS)
      in case snd p of
           Pending \<Rightarrow> Some (b\<lparr>bio := fst p\<rparr>, Pending)
         | Ready (Inl e) \<Rightarrow> Some (b\<lparr>bio := fst p\<rparr>, Ready (Inl e))
         | Ready (Inr n) \<Rightarrow>
             (case writebuf_advance B (write_buf b) n of
                None \<Rightarrow> Some (b\<lparr>bio := fst p\<rparr>, Ready (Inl (Panicked ''advance'')))
              | Some w \<Rightarrow>
                  (let b' = b\<lparr>bio := fst p, write_buf := w\<rparr>
                   in if writebuf_remaining B w = 0 then Some (flush_io T b')
                      else if n = 0 then Some (b', Ready (Inl (IoError WriteZero [])))
                      else poll_flush_vectored T B b')))"
  by (subst poll_flush_vectored.simps, unfold Let_def case_prod_unfold, rule refl)

lemma client_parse_code [code]:
  "client_parse H ctx buf cached =
     (case parse_round H ctx buf cached of
        None \<Rightarrow> None
      | Some x \<Rightarrow>
          (case snd (snd x) of
             Done r \<Rightarrow> Some (fst x, fst (snd x), r)
           | Skipped \<Rightarrow>
               if fst x = [] then Some (fst x, fst (snd x), Inr None) else client_parse H ctx (fst x) (fst (snd x))))"
  by (subst client_parse.simps, unfold Let_def case_prod_unfold, rule refl)

lemma buffered_parse_code [code]:
  "buffered_parse T grow H ctx b cached =
     (case parse_headers H ctx (read_buf b) cached (partial_len b) of
        None \<Rightarrow> None
      | Some x \<Rightarrow>
          (let b1 = read_buf_advance b (length (read_buf b) - length (fst x)); cached' = fst (snd x)
           in case snd (snd x) of
                Inl e \<Rightarrow> Some (b1, cached', Ready (Inl (error_new (KParse e))))
              | Inr (Some msg) \<Rightarrow> Some (b1\<lparr>partial_len := None\<rparr>, cached', Ready (Inr msg))
              | Inr None \<Rightarrow>
                  (let curr_len = length (read_buf b1)
                   in if curr_len \<ge> strategy_max (read_buf_strategy b1)
                      then Some (b1, cached', Ready (Inl new_too_large))
                      else let p = poll_read_from_io T grow
                                     (b1\<lparr>partial_len := (if curr_len > 0 then Some curr_len else None)\<rparr>)
                           in case snd p of
                                Pending \<Rightarrow> Some (fst p, cached', Pending)
                              | Ready (Inl e) \<Rightarrow> Some (fst p, cached', Ready (Inl (new_io e)))
                              | Ready (Inr n) \<Rightarrow>
                                  if n = 0 then Some (fst p, cached', Ready (Inl new_incomplete))
                                  else buffered_parse T grow H ctx (fst p) cached')))"
  by (subst buffered_parse.simps, unfold Let_def case_prod_unfold, rule refl)

lemma decode_loop_code [code]:
  "decode_loop H rm mh ms r c =
     (case chunked_step rm mh ms r c of
        (r', c', x) \<Rightarrow>
          (case snd x of
             Pending \<Rightarrow> Some (r', c', Pending)
           | Ready (Inl e) \<Rightarrow> Some (r', c', Ready (Inl e))
           | Ready (Inr s) \<Rightarrow>
               (if s = End then
                  let (c'', res) = finish_chunked H mh (c'\<lparr>cstate := s\<rparr>) in Some (r', c'', Ready res)
                else case fst x of
                       Some b \<Rightarrow> Some (r', c'\<lparr>cstate := s\<rparr>, Ready (Inr (Data b)))
                     | None \<Rightarrow> decode_loop H rm mh ms r' (c'\<lparr>cstate := s\<rparr>))))"
  by (subst decode_loop.simps, unfold Let_def case_prod_unfold, rule refl)

declare flatten_into.simps [code]

end
