(* ===== verification/H2_Ping.thy ===== *)
theory H2_Ping
  imports Prelude
begin

text \<open>
  HTTP/2 pings, \<^verbatim>\<open>src/src/core/proto/h2/ping.rs\<close>: the estimate of the bandwidth-delay product from which the receive window is set,
  and the keep-alive that declares a connection dead when a ping is not answered in time.

  Times and durations are nanoseconds. Every operation reads the clock once. What the \<^verbatim>\<open>http2\<close> crate answers is an argument of
  the operation: whether a ping can be sent, whether a pong has arrived. So is whether a timer has fired: a timer set to a
  deadline may fire late but not early. Floating-point numbers are a parameter. Where the code panics the result is \<^const>\<open>None\<close>.
\<close>

section \<open>State\<close>

record 'f float_ops =
  fl_zero :: 'f
  fl_seconds :: "nat \<Rightarrow> 'f"
  fl_smooth :: "'f \<Rightarrow> 'f \<Rightarrow> 'f"
  fl_bandwidth :: "nat \<Rightarrow> 'f \<Rightarrow> 'f"
  fl_less :: "'f \<Rightarrow> 'f \<Rightarrow> bool"

record ping_config =
  bdp_initial_window :: "nat option"
  keep_alive_interval :: "nat option"
  keep_alive_timeout :: nat
  keep_alive_while_idle :: bool

record Shared =
  ping_sent_at :: "nat option"
  sh_bytes :: "nat option"
  next_bdp_at :: "nat option"
  sh_last_read_at :: "nat option"
  is_keep_alive_timed_out :: bool

record 'f Bdp =
  bdp :: nat
  max_bandwidth :: 'f
  bdp_rtt :: 'f
  ping_delay :: nat
  stable_count :: nat

datatype KeepAliveState = KaInit | Scheduled nat | PingSent

record KeepAlive =
  ka_interval :: nat
  ka_timeout :: nat
  ka_while_idle :: bool
  ka_state :: KeepAliveState
  ka_sleep :: nat

record 'f Ponger =
  pg_bdp :: "'f Bdp option"
  pg_keep_alive :: "KeepAlive option"
  pg_shared :: Shared

datatype Ponged = SizeUpdate nat | KeepAliveTimedOut

datatype pong = PongReceived | PongError | PongPending

definition is_enabled :: "ping_config \<Rightarrow> bool" where
  "is_enabled config \<longleftrightarrow> bdp_initial_window config \<noteq> None \<or> keep_alive_interval config \<noteq> None"

text \<open>\<^verbatim>\<open>channel\<close> asserts in debug builds that pings are enabled; its only caller, \<^verbatim>\<open>handshake\<close> of \<^verbatim>\<open>src/src/core/proto/h2/client.rs\<close>,
  asks \<^verbatim>\<open>is_enabled\<close> just before.\<close>

definition ping_channel :: "'f float_ops \<Rightarrow> ping_config \<Rightarrow> nat \<Rightarrow> 'f Ponger" where
  "ping_channel FL config now =
     (let b = map_option (\<lambda>wnd. \<lparr>bdp = wnd, max_bandwidth = fl_zero FL, bdp_rtt = fl_zero FL, ping_delay = 100000000, stable_count = 0\<rparr>)
                (bdp_initial_window config);
          ka = map_option (\<lambda>interval. \<lparr>ka_interval = interval, ka_timeout = keep_alive_timeout config,
                 ka_while_idle = keep_alive_while_idle config, ka_state = KaInit, ka_sleep = now + interval\<rparr>) (keep_alive_interval config)
      in \<lparr>pg_bdp = b, pg_keep_alive = ka,
          pg_shared = \<lparr>ping_sent_at = None, sh_bytes = (if b \<noteq> None then Some 0 else None),
            next_bdp_at = (if b \<noteq> None then Some now else None),
            sh_last_read_at = map_option (\<lambda>_. now) ka, is_keep_alive_timed_out = False\<rparr>\<rparr>)"

section \<open>Shared state\<close>

definition send_ping :: "nat \<Rightarrow> bool \<Rightarrow> Shared \<Rightarrow> Shared" where
  "send_ping now ok s = (if ok then s\<lparr>ping_sent_at := Some now\<rparr> else s)"

definition is_ping_sent :: "Shared \<Rightarrow> bool" where
  "is_ping_sent s \<longleftrightarrow> ping_sent_at s \<noteq> None"

definition update_last_read_at :: "nat \<Rightarrow> Shared \<Rightarrow> Shared" where
  "update_last_read_at now s = (if sh_last_read_at s \<noteq> None then s\<lparr>sh_last_read_at := Some now\<rparr> else s)"

definition record_data :: "nat \<Rightarrow> bool \<Rightarrow> nat \<Rightarrow> Shared \<Rightarrow> Shared" where
  "record_data now ok len s0 =
     (let s = update_last_read_at now s0
      in if (case next_bdp_at s of Some at \<Rightarrow> now < at | None \<Rightarrow> False) then s
         else let s = s\<lparr>next_bdp_at := None\<rparr>
              in case sh_bytes s of
                   None \<Rightarrow> s
                 | Some bytes \<Rightarrow>
                     let s = s\<lparr>sh_bytes := Some (bytes + len)\<rparr>
                     in if \<not> is_ping_sent s then send_ping now ok s else s)"

definition record_non_data :: "nat \<Rightarrow> Shared \<Rightarrow> Shared" where
  "record_non_data now s = update_last_read_at now s"

definition ensure_not_timed_out :: "Shared \<Rightarrow> bool" where
  "ensure_not_timed_out s \<longleftrightarrow> \<not> is_keep_alive_timed_out s"

section \<open>The bandwidth-delay product\<close>

definition BDP_LIMIT :: nat where
  "BDP_LIMIT = 1024 * 1024 * 16"

definition stabilize_delay :: "'f Bdp \<Rightarrow> 'f Bdp" where
  "stabilize_delay b =
     (if ping_delay b < 10000000000
      then if 2 \<le> stable_count b + 1
           then b\<lparr>ping_delay := ping_delay b * 4, stable_count := 0\<rparr>
           else b\<lparr>stable_count := stable_count b + 1\<rparr>
      else b)"

definition calculate :: "'f float_ops \<Rightarrow> nat \<Rightarrow> nat \<Rightarrow> 'f Bdp \<Rightarrow> 'f Bdp \<times> nat option" where
  "calculate FL bytes rtt b0 =
     (if bdp b0 = BDP_LIMIT then (stabilize_delay b0, None)
      else
        let rtt = fl_seconds FL rtt;
            b = b0\<lparr>bdp_rtt := (if bdp_rtt b0 = fl_zero FL then rtt else fl_smooth FL (bdp_rtt b0) rtt)\<rparr>;
            bw = fl_bandwidth FL bytes (bdp_rtt b)
        in if fl_less FL bw (max_bandwidth b) then (stabilize_delay b, None)
           else
             let b = b\<lparr>max_bandwidth := bw\<rparr>
             in if bdp b * 2 div 3 \<le> bytes
                then let b = b\<lparr>bdp := min (bytes * 2) BDP_LIMIT\<rparr>
                     in (b\<lparr>stable_count := 0, ping_delay := ping_delay b div 2\<rparr>, Some (bdp b))
                else (stabilize_delay b, None))"

section \<open>Keep-alive\<close>

definition ka_schedule :: "KeepAlive \<Rightarrow> Shared \<Rightarrow> KeepAlive option" where
  "ka_schedule ka s =
     (case sh_last_read_at s of
        None \<Rightarrow> None
      | Some seen \<Rightarrow> Some (ka\<lparr>ka_state := Scheduled (seen + ka_interval ka), ka_sleep := seen + ka_interval ka\<rparr>))"

definition maybe_schedule :: "bool \<Rightarrow> Shared \<Rightarrow> KeepAlive \<Rightarrow> KeepAlive option" where
  "maybe_schedule is_idle s ka =
     (case ka_state ka of
        KaInit \<Rightarrow> if \<not> ka_while_idle ka \<and> is_idle then Some ka else ka_schedule ka s
      | PingSent \<Rightarrow> if is_ping_sent s then Some ka else ka_schedule ka s
      | Scheduled _ \<Rightarrow> Some ka)"

definition maybe_ping :: "nat \<Rightarrow> (nat \<Rightarrow> bool) \<Rightarrow> bool \<Rightarrow> bool \<Rightarrow> Shared \<Rightarrow> KeepAlive \<Rightarrow> (Shared \<times> KeepAlive) option" where
  "maybe_ping now fires ok is_idle s ka =
     (case ka_state ka of
        Scheduled at \<Rightarrow>
          if \<not> fires (ka_sleep ka) then Some (s, ka)
          else (case sh_last_read_at s of
                  None \<Rightarrow> None
                | Some seen \<Rightarrow>
                    if at < seen + ka_interval ka then Some (s, ka\<lparr>ka_state := KaInit\<rparr>)
                    else if \<not> ka_while_idle ka \<and> is_idle then Some (s, ka)
                    else Some (send_ping now ok s, ka\<lparr>ka_state := PingSent, ka_sleep := now + ka_timeout ka\<rparr>))
      | _ \<Rightarrow> Some (s, ka))"

definition maybe_timeout :: "(nat \<Rightarrow> bool) \<Rightarrow> KeepAlive \<Rightarrow> bool" where
  "maybe_timeout fires ka \<longleftrightarrow> ka_state ka = PingSent \<and> fires (ka_sleep ka)"

text \<open>The two calls in the order of \<^verbatim>\<open>Ponger::poll\<close>, which makes them once before and once after a pong.\<close>

definition ka_round ::
  "nat \<Rightarrow> (nat \<Rightarrow> bool) \<Rightarrow> bool \<Rightarrow> bool \<Rightarrow> Shared \<times> KeepAlive option \<Rightarrow> (Shared \<times> KeepAlive option) option" where
  "ka_round now fires ok is_idle sk =
     (case snd sk of
        None \<Rightarrow> Some sk
      | Some ka \<Rightarrow>
          Option.bind (maybe_schedule is_idle (fst sk) ka) (\<lambda>ka.
          map_option (\<lambda>(s, ka). (s, Some ka)) (maybe_ping now fires ok is_idle (fst sk) ka)))"

section \<open>Polling\<close>

definition after_pong ::
  "'f float_ops \<Rightarrow> nat \<Rightarrow> nat \<Rightarrow> Shared \<times> KeepAlive option \<Rightarrow> 'f Bdp option \<Rightarrow> ('f Ponger \<times> Ponged poll) option" where
  "after_pong FL now rtt sk b =
     (case b of
        None \<Rightarrow> Some (\<lparr>pg_bdp = None, pg_keep_alive = snd sk, pg_shared = fst sk\<rparr>, Pending)
      | Some b \<Rightarrow>
          (case sh_bytes (fst sk) of
             None \<Rightarrow> None
           | Some bytes \<Rightarrow>
               (case calculate FL bytes rtt b of
                  (b, update) \<Rightarrow>
                    Some (\<lparr>pg_bdp = Some b, pg_keep_alive = snd sk,
                           pg_shared = (fst sk)\<lparr>sh_bytes := Some 0, next_bdp_at := Some (now + ping_delay b)\<rparr>\<rparr>,
                          case update of None \<Rightarrow> Pending | Some n \<Rightarrow> Ready (SizeUpdate n)))))"

definition ponger_poll ::
  "'f float_ops \<Rightarrow> nat \<Rightarrow> (nat \<Rightarrow> bool) \<Rightarrow> bool \<Rightarrow> bool \<Rightarrow> bool \<Rightarrow> pong \<Rightarrow> 'f Ponger \<Rightarrow> ('f Ponger \<times> Ponged poll) option" where
  "ponger_poll FL now fires is_idle ok1 ok2 p g =
     (case ka_round now fires ok1 is_idle (pg_shared g, pg_keep_alive g) of
        None \<Rightarrow> None
      | Some (s, ka) \<Rightarrow>
          if \<not> is_ping_sent s then Some (g\<lparr>pg_shared := s, pg_keep_alive := ka\<rparr>, Pending)
          else
            (case p of
               PongReceived \<Rightarrow>
                 (case ping_sent_at s of
                    None \<Rightarrow> None
                  | Some start \<Rightarrow>
                      let s = s\<lparr>ping_sent_at := None\<rparr>;
                          s = (if ka \<noteq> None then update_last_read_at now s else s)
                      in Option.bind (ka_round now fires ok2 is_idle (s, ka)) (\<lambda>sk. after_pong FL now (now - start) sk (pg_bdp g)))
             | PongError \<Rightarrow> Some (g\<lparr>pg_shared := s, pg_keep_alive := ka\<rparr>, Pending)
             | PongPending \<Rightarrow>
                 if (case ka of Some k \<Rightarrow> maybe_timeout fires k | None \<Rightarrow> False)
                 then Some (g\<lparr>pg_keep_alive := None, pg_shared := s\<lparr>is_keep_alive_timed_out := True\<rparr>\<rparr>, Ready KeepAliveTimedOut)
                 else Some (g\<lparr>pg_shared := s, pg_keep_alive := ka\<rparr>, Pending)))"

text \<open>The operations on a connection, in the order they come.\<close>

datatype ping_op =
    RecordData nat bool nat
  | RecordNonData nat
  | Poll nat "nat \<Rightarrow> bool" bool bool bool pong

fun ping_step :: "'f float_ops \<Rightarrow> ping_op \<Rightarrow> 'f Ponger \<Rightarrow> ('f Ponger \<times> Ponged poll) option" where
  "ping_step FL (RecordData now ok len) g = Some (g\<lparr>pg_shared := record_data now ok len (pg_shared g)\<rparr>, Pending)"
| "ping_step FL (RecordNonData now) g = Some (g\<lparr>pg_shared := record_non_data now (pg_shared g)\<rparr>, Pending)"
| "ping_step FL (Poll now fires is_idle ok1 ok2 p) g = ponger_poll FL now fires is_idle ok1 ok2 p g"

fun ping_run :: "'f float_ops \<Rightarrow> ping_op list \<Rightarrow> 'f Ponger \<Rightarrow> 'f Ponger option" where
  "ping_run FL [] g = Some g"
| "ping_run FL (op # ops) g = (case ping_step FL op g of None \<Rightarrow> None | Some (g', _) \<Rightarrow> ping_run FL ops g')"


section \<open>No panic\<close>

text \<open>The invariant: bytes are counted if the product is estimated, reads are dated if there is a keep-alive, and the estimate is
  within its bounds.\<close>

definition bdp_ok :: "'f Bdp \<Rightarrow> bool" where
  "bdp_ok b \<longleftrightarrow> stable_count b \<le> 1 \<and> ping_delay b < 40000000000"

definition ping_inv :: "'f Ponger \<Rightarrow> bool" where
  "ping_inv g \<longleftrightarrow> (pg_bdp g \<noteq> None \<longrightarrow> sh_bytes (pg_shared g) \<noteq> None) \<and>
     (pg_keep_alive g \<noteq> None \<longrightarrow> sh_last_read_at (pg_shared g) \<noteq> None) \<and> pred_option bdp_ok (pg_bdp g)"

lemma channel_inv: "ping_inv (ping_channel FL config now)"
  by (cases "bdp_initial_window config") (auto simp: ping_inv_def ping_channel_def bdp_ok_def Let_def)

lemma stabilize_ok: "bdp_ok b \<Longrightarrow> bdp_ok (stabilize_delay b)"
  by (simp add: bdp_ok_def stabilize_delay_def)

lemma bdp_ok_fields: "bdp_ok (b\<lparr>bdp_rtt := x\<rparr>) = bdp_ok b" "bdp_ok (b\<lparr>max_bandwidth := y\<rparr>) = bdp_ok b"
  by (simp_all add: bdp_ok_def)

lemma calculate_ok: "bdp_ok b \<Longrightarrow> calculate FL bytes rtt b = (b', u) \<Longrightarrow> bdp_ok b'"
  by (auto simp: calculate_def Let_def stabilize_ok bdp_ok_fields split: if_splits) (auto simp: bdp_ok_def intro: order_le_less_trans [OF div_le_dividend])

lemma update_last_read_fields [simp]:
  "sh_bytes (update_last_read_at now s) = sh_bytes s" "ping_sent_at (update_last_read_at now s) = ping_sent_at s"
  "sh_last_read_at (update_last_read_at now s) = None \<longleftrightarrow> sh_last_read_at s = None"
  by (simp_all add: update_last_read_at_def)

lemma send_ping_fields [simp]:
  "sh_bytes (send_ping now ok s) = sh_bytes s" "sh_last_read_at (send_ping now ok s) = sh_last_read_at s"
  by (simp_all add: send_ping_def)

lemma record_data_fields:
  "sh_bytes (record_data now ok len s) = None \<longleftrightarrow> sh_bytes s = None" "sh_last_read_at (record_data now ok len s) = None \<longleftrightarrow> sh_last_read_at s = None"
  by (auto simp: record_data_def Let_def split: option.splits)

lemma maybe_schedule_total: "sh_last_read_at s \<noteq> None \<Longrightarrow> \<exists>ka'. maybe_schedule is_idle s ka = Some ka'"
  by (auto simp: maybe_schedule_def ka_schedule_def split: KeepAliveState.split)

lemma maybe_ping_total:
  "sh_last_read_at s \<noteq> None \<Longrightarrow> \<exists>s' ka'. maybe_ping now fires ok is_idle s ka = Some (s', ka') \<and> sh_bytes s' = sh_bytes s \<and>
     sh_last_read_at s' = sh_last_read_at s"
  by (auto simp: maybe_ping_def split: KeepAliveState.split)

lemma ka_round_total:
  assumes "snd sk \<noteq> None \<longrightarrow> sh_last_read_at (fst sk) \<noteq> None"
  shows "\<exists>s' ka'. ka_round now fires ok is_idle sk = Some (s', ka') \<and> sh_bytes s' = sh_bytes (fst sk) \<and>
    sh_last_read_at s' = sh_last_read_at (fst sk) \<and> (ka' = None \<longleftrightarrow> snd sk = None)"
proof (cases "snd sk")
  case None
  then show ?thesis by (cases sk) (simp add: ka_round_def)
next
  case (Some ka)
  with assms have r: "sh_last_read_at (fst sk) \<noteq> None" by simp
  obtain ka1 where 1: "maybe_schedule is_idle (fst sk) ka = Some ka1" using maybe_schedule_total [OF r] by blast
  obtain s' ka2 where "maybe_ping now fires ok is_idle (fst sk) ka1 = Some (s', ka2)" "sh_bytes s' = sh_bytes (fst sk)"
    "sh_last_read_at s' = sh_last_read_at (fst sk)" using maybe_ping_total [OF r] by blast
  with 1 Some show ?thesis by (simp add: ka_round_def)
qed

lemma after_pong_total:
  assumes "b \<noteq> None \<longrightarrow> sh_bytes (fst sk) \<noteq> None" and "pred_option bdp_ok b" and "snd sk \<noteq> None \<longrightarrow> sh_last_read_at (fst sk) \<noteq> None"
  shows "\<exists>g r. after_pong FL now rtt sk b = Some (g, r) \<and> ping_inv g"
proof (cases b)
  case (Some b1)
  then obtain bytes where "sh_bytes (fst sk) = Some bytes" using assms(1) by auto
  moreover obtain b2 u where "calculate FL bytes rtt b1 = (b2, u)" by (rule prod.exhaust)
  ultimately show ?thesis using Some assms calculate_ok [of b1 FL bytes rtt b2 u] by (simp add: after_pong_def ping_inv_def)
qed (use assms in \<open>simp add: after_pong_def ping_inv_def\<close>)

lemma poll_total:
  assumes "ping_inv g"
  shows "\<exists>g' r. ponger_poll FL now fires is_idle ok1 ok2 p g = Some (g', r) \<and> ping_inv g'"
proof -
  obtain s ka where 1: "ka_round now fires ok1 is_idle (pg_shared g, pg_keep_alive g) = Some (s, ka)" "sh_bytes s = sh_bytes (pg_shared g)"
    "sh_last_read_at s = sh_last_read_at (pg_shared g)" "ka = None \<longleftrightarrow> pg_keep_alive g = None"
    using ka_round_total [of "(pg_shared g, pg_keep_alive g)" now fires ok1 is_idle] assms by (auto simp: ping_inv_def)
  have inv: "ping_inv (g\<lparr>pg_shared := s, pg_keep_alive := ka\<rparr>)" using assms 1 by (auto simp: ping_inv_def)
  show ?thesis
  proof (cases "is_ping_sent s \<and> p = PongReceived")
    case True
    then obtain start where start: "ping_sent_at s = Some start" by (auto simp: is_ping_sent_def)
    let ?s = "if ka \<noteq> None then update_last_read_at now (s\<lparr>ping_sent_at := None\<rparr>) else s\<lparr>ping_sent_at := None\<rparr>"
    have k: "ka \<noteq> None \<longrightarrow> sh_last_read_at ?s \<noteq> None" "sh_bytes ?s = sh_bytes s" using assms 1 by (auto simp: ping_inv_def)
    obtain s2 ka2 where 2: "ka_round now fires ok2 is_idle (?s, ka) = Some (s2, ka2)" "sh_bytes s2 = sh_bytes s"
      "sh_last_read_at s2 = sh_last_read_at ?s" "ka2 = None \<longleftrightarrow> ka = None"
      using ka_round_total [of "(?s, ka)" now fires ok2 is_idle] k by (auto simp del: update_last_read_fields)
    obtain g' r where "after_pong FL now (now - start) (s2, ka2) (pg_bdp g) = Some (g', r)" "ping_inv g'"
      using after_pong_total [of "pg_bdp g" "(s2, ka2)" FL now "now - start"] assms 1 2 k by (auto simp: ping_inv_def)
    moreover have "ponger_poll FL now fires is_idle ok1 ok2 p g =
        Option.bind (ka_round now fires ok2 is_idle (?s, ka)) (\<lambda>sk. after_pong FL now (now - start) sk (pg_bdp g))"
      using 1(1) True start by (simp add: ponger_poll_def)
    ultimately show ?thesis using 2(1) by simp
  next
    case False
    then show ?thesis using 1 inv assms
      by (cases p) (auto simp: ponger_poll_def ping_inv_def split: option.split)
  qed
qed

lemma step_total:
  "ping_inv g \<Longrightarrow> \<exists>g' r. ping_step FL op g = Some (g', r) \<and> ping_inv g'"
proof (cases op)
  case (Poll now fires is_idle ok1 ok2 p)
  then show "ping_inv g \<Longrightarrow> ?thesis" using poll_total [of g FL now fires is_idle ok1 ok2 p] by simp
qed (simp_all add: ping_inv_def record_data_fields record_non_data_def del: not_None_eq)

lemma run_total: "ping_inv g \<Longrightarrow> \<exists>g'. ping_run FL ops g = Some g' \<and> ping_inv g'"
proof (induction ops arbitrary: g)
  case (Cons op ops)
  from step_total [OF Cons.prems, of FL op] obtain g' r where "ping_step FL op g = Some (g', r)" "ping_inv g'" by blast
  with Cons.IH [of g'] show ?case by simp
qed simp

section \<open>When a connection is declared dead\<close>









section \<open>How the window grows\<close>

lemma two_thirds: "2 \<le> b \<Longrightarrow> b * 2 div 3 \<le> bytes \<Longrightarrow> b \<le> bytes * 2" for b bytes :: nat
  by linarith

lemma stabilize_bdp [simp]: "bdp (stabilize_delay b) = bdp b"
  by (simp add: stabilize_delay_def)

lemma calculate_grows:
  assumes "calculate FL bytes rtt b = (b', u)" and "2 \<le> bdp b" and "bdp b \<le> BDP_LIMIT"
  shows "bdp b \<le> bdp b' \<and> bdp b' \<le> BDP_LIMIT \<and> (\<forall>n. u = Some n \<longrightarrow> n = bdp b')"
  using assms two_thirds [of "bdp b" bytes] by (auto simp: calculate_def Let_def split: if_splits)

lemma poll_grows:
  assumes "ponger_poll FL now fires is_idle ok1 ok2 p g = Some (g', r)" and "pg_bdp g = Some b" and "2 \<le> bdp b" and "bdp b \<le> BDP_LIMIT"
  shows "\<exists>b'. pg_bdp g' = Some b' \<and> bdp b \<le> bdp b' \<and> bdp b' \<le> BDP_LIMIT \<and> (\<forall>n. r = Ready (SizeUpdate n) \<longrightarrow> n = bdp b')"
proof -
  from assms obtain s1 k1 where 1: "ka_round now fires ok1 is_idle (pg_shared g, pg_keep_alive g) = Some (s1, k1)"
    by (auto simp: ponger_poll_def split: option.splits)
  show ?thesis
  proof (cases "is_ping_sent s1 \<and> p = PongReceived")
    case True
    with assms(1) 1 obtain rtt sk where "after_pong FL now rtt sk (pg_bdp g) = Some (g', r)"
      by (auto simp: ponger_poll_def Let_def split: option.splits bind_splits if_splits)
    with assms(2) obtain bytes b' u where "calculate FL bytes rtt b = (b', u)" "pg_bdp g' = Some b'"
      "r = (case u of None \<Rightarrow> Pending | Some n \<Rightarrow> Ready (SizeUpdate n))"
      by (auto simp: after_pong_def split: option.splits prod.splits)
    with calculate_grows [of FL bytes rtt b b' u] assms(3,4) show ?thesis by (auto split: option.splits)
  next
    case False
    with assms 1 show ?thesis by (cases p) (auto simp: ponger_poll_def split: if_splits option.splits)
  qed
qed

lemma step_grows:
  assumes "ping_step FL op g = Some (g', r)" and "pg_bdp g = Some b" and "2 \<le> bdp b" and "bdp b \<le> BDP_LIMIT"
  shows "\<exists>b'. pg_bdp g' = Some b' \<and> bdp b \<le> bdp b' \<and> bdp b' \<le> BDP_LIMIT \<and> (\<forall>n. r = Ready (SizeUpdate n) \<longrightarrow> n = bdp b')"
  using assms poll_grows [of FL _ _ _ _ _ _ g g' r b] by (cases op) auto

lemma run_grows:
  assumes "ping_run FL ops g = Some g'" and "pg_bdp g = Some b" and "2 \<le> bdp b" and "bdp b \<le> BDP_LIMIT"
  shows "\<exists>b'. pg_bdp g' = Some b' \<and> bdp b \<le> bdp b' \<and> bdp b' \<le> BDP_LIMIT"
  using assms
proof (induction ops arbitrary: g b)
  case (Cons op ops)
  then obtain g1 r where g1: "ping_step FL op g = Some (g1, r)" "ping_run FL ops g1 = Some g'" by (auto split: option.splits)
  from step_grows [OF g1(1) Cons.prems(2-)] obtain b1 where "pg_bdp g1 = Some b1" "bdp b \<le> bdp b1" "bdp b1 \<le> BDP_LIMIT" by blast
  with Cons.IH [OF g1(2), of b1] Cons.prems show ?case by auto
qed simp

section \<open>Properties\<close>

text \<open>Pings never make the code panic: whatever data, polls, pongs and failures come, in whatever order, the operations on a
  connection return, and the pause between two measurements stays below forty seconds.\<close>
lemma ping_run_safe:
  "\<exists>g. ping_run FL ops (ping_channel FL config now) = Some g \<and> pred_option (\<lambda>b. ping_delay b < 40000000000) (pg_bdp g)"
  using run_total [OF channel_inv, of FL ops FL config now] by (auto simp: ping_inv_def bdp_ok_def option.pred_set)


text \<open>The window only grows and stays within the limit: starting from an initial window of at least two bytes and at most 16 MiB,
  every size a poll reports is at least that of every earlier moment and at most 16 MiB.\<close>
lemma window_grows_bounded:
  assumes "bdp_initial_window config = Some w" and "2 \<le> w" and "w \<le> BDP_LIMIT"
    and "ping_run FL ops (ping_channel FL config start) = Some g" and "ping_step FL op g = Some (g', Ready (SizeUpdate n))"
  shows "\<exists>b. pg_bdp g = Some b \<and> w \<le> bdp b \<and> bdp b \<le> n \<and> n \<le> BDP_LIMIT"
proof -
  have "\<exists>b. pg_bdp (ping_channel FL config start) = Some b \<and> bdp b = w" using assms(1) by (simp add: ping_channel_def Let_def)
  then obtain b0 where b0: "pg_bdp (ping_channel FL config start) = Some b0" "bdp b0 = w" by blast
  from run_grows [OF assms(4) b0(1)] b0(2) assms(2,3) obtain b where b: "pg_bdp g = Some b" "w \<le> bdp b" "bdp b \<le> BDP_LIMIT" by auto
  from step_grows [OF assms(5) b(1)] b(2,3) assms(2) show ?thesis using b by auto
qed

text \<open>Whole numbers in the place of floating-point ones: seconds rounded down, no smoothing, bytes as bandwidth.\<close>

definition nat_floats :: "nat float_ops" where
  "nat_floats = \<lparr>fl_zero = 0, fl_seconds = (\<lambda>d. d div 1000000000), fl_smooth = (\<lambda>old new. new), fl_bandwidth = (\<lambda>bytes _. bytes), fl_less = (<)\<rparr>"


text \<open>At a concrete input: a measurement of ten bytes.\<close>
lemma window_grows_bounded_instance:
  "\<exists>g b. ping_run nat_floats [RecordData 1 True 10]
      (ping_channel nat_floats \<lparr>bdp_initial_window = Some 12, keep_alive_interval = None, keep_alive_timeout = 3, keep_alive_while_idle = True\<rparr> 0) = Some g \<and>
    pg_bdp g = Some b \<and> 12 \<le> bdp b \<and> bdp b \<le> 20"
proof -
  let ?c = "\<lparr>bdp_initial_window = Some 12, keep_alive_interval = None, keep_alive_timeout = 3, keep_alive_while_idle = True\<rparr>"
  note eval = ping_channel_def ponger_poll_def ka_round_def record_data_def update_last_read_at_def send_ping_def is_ping_sent_def after_pong_def
    calculate_def nat_floats_def BDP_LIMIT_def
  obtain g where g: "ping_run nat_floats [RecordData 1 True 10] (ping_channel nat_floats ?c 0) = Some g"
    "\<exists>g'. ping_step nat_floats (Poll 2 (\<lambda>_. False) False True True PongReceived) g = Some (g', Ready (SizeUpdate 20))"
    by (simp add: eval)
  then obtain g' where g': "ping_step nat_floats (Poll 2 (\<lambda>_. False) False True True PongReceived) g = Some (g', Ready (SizeUpdate 20))" by blast
  from window_grows_bounded [OF _ _ _ g(1) g', of 12] g(1) show ?thesis by (auto simp: BDP_LIMIT_def)
qed

end
