(* ===== verification/Incoming.thy ===== *)
theory Incoming
  imports H2_Ping H1_Decode
begin

text \<open>
  Bodies of responses (\<^verbatim>\<open>src/src/core/body/incoming.rs\<close> and \<^verbatim>\<open>src/src/core/common/watch.rs\<close>): the
  sending half, which the connection task feeds, and the body the user reads. The channels of
  \<^verbatim>\<open>futures_channel\<close> and the streams of \<^verbatim>\<open>http2\<close> are outside the repository: \<open>body_lib\<close> holds the operations the
  code calls, on the state \<open>'w\<close> of everything outside the task, in which a channel is named by a number. Other threads run
  at the same time, so that an operation may change more of \<open>'w\<close> than its own channel, and the shared
  cell of \<^verbatim>\<open>watch\<close> is read and swapped through \<open>'w\<close> too.
\<close>

section \<open>The world outside the task\<close>

record ('w, 'm) body_lib =
  data_channel :: "'w \<Rightarrow> nat \<times> 'w"
  data_poll_ready :: "'w \<Rightarrow> nat \<Rightarrow> 'w \<times> (unit + unit) poll"
  data_try_send :: "'w \<Rightarrow> nat \<Rightarrow> core_error + bytes \<Rightarrow> 'w \<times> (core_error + bytes) option"
  data_clone_tx :: "'w \<Rightarrow> nat \<Rightarrow> nat \<times> 'w"
  data_drop_tx :: "'w \<Rightarrow> nat \<Rightarrow> 'w"
  data_is_terminated :: "'w \<Rightarrow> nat \<Rightarrow> bool"
  data_poll_next :: "'w \<Rightarrow> nat \<Rightarrow> 'w \<times> (core_error + bytes) option poll"
  trailers_channel :: "'w \<Rightarrow> nat \<times> 'w"
  trailers_send :: "'w \<Rightarrow> nat \<Rightarrow> 'm \<Rightarrow> 'w \<times> 'm option"
  trailers_drop_tx :: "'w \<Rightarrow> nat \<Rightarrow> 'w"
  trailers_poll :: "'w \<Rightarrow> nat \<Rightarrow> 'w \<times> (unit + 'm) poll"
  cell_new :: "'w \<Rightarrow> nat \<Rightarrow> nat \<times> 'w"
  cell_load :: "'w \<Rightarrow> nat \<Rightarrow> 'w \<times> nat"
  cell_swap :: "'w \<Rightarrow> nat \<Rightarrow> nat \<Rightarrow> 'w \<times> nat"
  cell_wake :: "'w \<Rightarrow> nat \<Rightarrow> 'w"
  h2_poll_data :: "'w \<Rightarrow> nat \<Rightarrow> 'w \<times> (h2_error + bytes) option poll"
  h2_release_capacity :: "'w \<Rightarrow> nat \<Rightarrow> nat \<Rightarrow> 'w"
  h2_poll_trailers :: "'w \<Rightarrow> nat \<Rightarrow> 'w \<times> (h2_error + 'm option) poll"
  h2_is_end_stream :: "'w \<Rightarrow> nat \<Rightarrow> bool"
  clock_now :: "'w \<Rightarrow> nat"
  ping_pong_ok :: "'w \<Rightarrow> bool"
  ping_shared :: "'w \<Rightarrow> Shared"
  ping_set_shared :: "'w \<Rightarrow> Shared \<Rightarrow> 'w"

section \<open>Recorders\<close>

text \<open>A \<^verbatim>\<open>Recorder\<close> of \<^verbatim>\<open>src/src/core/proto/h2/ping.rs\<close> is a reference to the state the pings of a connection share, or
  disabled; the state is in the world, and the flag says whether there is a reference.\<close>

type_synonym Recorder = bool

definition recorder_data :: "('w, 'm, 'z) body_lib_scheme \<Rightarrow> Recorder \<Rightarrow> nat \<Rightarrow> 'w \<Rightarrow> 'w" where
  "recorder_data L ping len w =
     (if ping then ping_set_shared L w (record_data (clock_now L w) (ping_pong_ok L w) len (ping_shared L w)) else w)"

definition recorder_non_data :: "('w, 'm, 'z) body_lib_scheme \<Rightarrow> Recorder \<Rightarrow> 'w \<Rightarrow> 'w" where
  "recorder_non_data L ping w =
     (if ping then ping_set_shared L w (record_non_data (clock_now L w) (ping_shared L w)) else w)"

definition recorder_for_stream :: "('w, 'm, 'z) body_lib_scheme \<Rightarrow> 'w \<Rightarrow> nat \<Rightarrow> Recorder \<Rightarrow> Recorder" where
  "recorder_for_stream L w stream ping = (if h2_is_end_stream L w stream then False else ping)"

definition keep_alive_timed_out :: core_error where
  "keep_alive_timed_out = error_with (error_new KHttp2) CauseKeepAliveTimedOut"

definition recorder_ensure_not_timed_out :: "('w, 'm, 'z) body_lib_scheme \<Rightarrow> 'w \<Rightarrow> Recorder \<Rightarrow> core_error + unit" where
  "recorder_ensure_not_timed_out L w ping =
     (if ping \<and> \<not> ensure_not_timed_out (ping_shared L w) then Inl keep_alive_timed_out else Inr ())"

section \<open>The watch channel\<close>

definition watch_CLOSED :: nat where "watch_CLOSED = 0"

definition watch_channel :: "('w, 'm, 'z) body_lib_scheme \<Rightarrow> 'w \<Rightarrow> nat \<Rightarrow> (nat \<times> 'w) option" where
  "watch_channel L w initial = (if initial = watch_CLOSED then None else Some (cell_new L w initial))"

definition watch_send :: "('w, 'm, 'z) body_lib_scheme \<Rightarrow> 'w \<Rightarrow> nat \<Rightarrow> nat \<Rightarrow> 'w" where
  "watch_send L w k v = (case cell_swap L w k v of (w, old) \<Rightarrow> if old \<noteq> v then cell_wake L w k else w)"

definition watch_drop :: "('w, 'm, 'z) body_lib_scheme \<Rightarrow> 'w \<Rightarrow> nat \<Rightarrow> 'w" where
  "watch_drop L w k = watch_send L w k watch_CLOSED"

definition watch_load :: "('w, 'm, 'z) body_lib_scheme \<Rightarrow> 'w \<Rightarrow> nat \<Rightarrow> 'w \<times> nat" where
  "watch_load L w k = cell_load L w k"

section \<open>The two halves of a body\<close>

record body_sender =
  want_rx :: nat
  data_tx :: nat
  trailers_tx :: "nat option"

datatype Incoming =
    BodyEmpty
  | BodyChan (chan_length: DecodedLength) (chan_want: nat) (chan_data: nat) (chan_trailers: nat)
  | BodyH2 (h2_length: DecodedLength) (h2_data_done: bool) (h2_ping: Recorder) (h2_recv: nat)

definition WANT_PENDING :: nat where "WANT_PENDING = 1"
definition WANT_READY :: nat where "WANT_READY = 2"

definition new_channel ::
  "('w, 'm, 'z) body_lib_scheme \<Rightarrow> 'w \<Rightarrow> DecodedLength \<Rightarrow> bool \<Rightarrow> (body_sender \<times> Incoming \<times> 'w) option" where
  "new_channel L w len wanter =
     (case data_channel L w of
        (d, w) \<Rightarrow> (case trailers_channel L w of
           (t, w) \<Rightarrow> map_option
             (\<lambda>(k, w). (\<lparr>want_rx = k, data_tx = d, trailers_tx = Some t\<rparr>, BodyChan len k d t, w))
             (watch_channel L w (if wanter then WANT_PENDING else WANT_READY))))"

definition body_empty :: Incoming where "body_empty = BodyEmpty"

definition body_h2 ::
  "('w, 'm, 'z) body_lib_scheme \<Rightarrow> 'w \<Rightarrow> nat \<Rightarrow> DecodedLength \<Rightarrow> Recorder \<Rightarrow> Incoming" where
  "body_h2 L w recv len ping =
     BodyH2 (if \<not> is_exact len \<and> h2_is_end_stream L w recv then ZERO else len) False ping recv"

subsection \<open>Reading\<close>

text \<open>The reasons with which a server ends a body that has been read.\<close>

definition stops_body :: "nat option \<Rightarrow> bool" where
  "stops_body reason \<longleftrightarrow> reason = Some NO_ERROR \<or> reason = Some CANCEL"

text \<open>Reading the trailers, the last part of \<^verbatim>\<open>poll_frame\<close> for each kind.\<close>

definition poll_chan_trailers ::
  "('w, 'm, 'z) body_lib_scheme \<Rightarrow> 'w \<Rightarrow> Incoming \<Rightarrow> 'w \<times> Incoming \<times> (core_error + 'm frame) option poll" where
  "poll_chan_trailers L w b =
     (case trailers_poll L w (chan_trailers b) of
        (w, Pending) \<Rightarrow> (w, b, Pending)
      | (w, Ready (Inr t)) \<Rightarrow> (w, b, Ready (Some (Inr (Trailers t))))
      | (w, Ready (Inl _)) \<Rightarrow> (w, b, Ready None))"

definition poll_h2_trailers ::
  "('w, 'm, 'z) body_lib_scheme \<Rightarrow> 'w \<Rightarrow> DecodedLength \<Rightarrow> Recorder \<Rightarrow> nat \<Rightarrow>
   'w \<times> Incoming \<times> (core_error + 'm frame) option poll" where
  "poll_h2_trailers L w len ping recv =
     (case h2_poll_trailers L w recv of
        (w, Pending) \<Rightarrow> (w, BodyH2 len True ping recv, Pending)
      | (w, Ready (Inr t)) \<Rightarrow>
          (recorder_non_data L ping w, BodyH2 len True ping recv,
           Ready (map_option (\<lambda>m. Inr (Trailers m)) t))
      | (w, Ready (Inl e)) \<Rightarrow> (w, BodyH2 len True ping recv, Ready (Some (Inl (new_h2 e)))))"

fun incoming_poll_frame ::
  "('w, 'm, 'z) body_lib_scheme \<Rightarrow> 'w \<Rightarrow> Incoming \<Rightarrow> ('w \<times> Incoming \<times> (core_error + 'm frame) option poll) option" where
  "incoming_poll_frame L w BodyEmpty = Some (w, BodyEmpty, Ready None)"
| "incoming_poll_frame L w (BodyChan len k d t) =
     (let w = watch_send L w k WANT_READY;
          b = BodyChan len k d t
      in if data_is_terminated L w d then Some (poll_chan_trailers L w b)
         else case data_poll_next L w d of
                (w, Pending) \<Rightarrow> Some (w, b, Pending)
              | (w, Ready (Some (Inl e))) \<Rightarrow> Some (w, b, Ready (Some (Inl e)))
              | (w, Ready (Some (Inr chunk))) \<Rightarrow>
                  map_option (\<lambda>len. (w, BodyChan len k d t, Ready (Some (Inr (Data chunk)))))
                    (sub_if len (of_nat (length chunk)))
              | (w, Ready None) \<Rightarrow> Some (poll_chan_trailers L w b))"
| "incoming_poll_frame L w (BodyH2 len done ping recv) =
     (if done then Some (poll_h2_trailers L w len ping recv)
      else case h2_poll_data L w recv of
             (w, Pending) \<Rightarrow> Some (w, BodyH2 len False ping recv, Pending)
           | (w, Ready (Some (Inr bs))) \<Rightarrow>
               (let w = h2_release_capacity L w recv (length bs)
                in map_option
                     (\<lambda>len. (recorder_data L ping (length bs) w, BodyH2 len False ping recv,
                             Ready (Some (Inr (Data bs)))))
                     (sub_if len (of_nat (length bs))))
           | (w, Ready (Some (Inl e))) \<Rightarrow>
               Some (w, BodyH2 len False ping recv,
                     Ready (if stops_body (h2e_reason e) then None else Some (Inl (new_body (CauseH2 e)))))
           | (w, Ready None) \<Rightarrow> Some (poll_h2_trailers L w len ping recv))"

fun incoming_is_end_stream :: "('w, 'm, 'z) body_lib_scheme \<Rightarrow> 'w \<Rightarrow> Incoming \<Rightarrow> bool" where
  "incoming_is_end_stream L w BodyEmpty = True"
| "incoming_is_end_stream L w (BodyChan len k d t) = (len = ZERO)"
| "incoming_is_end_stream L w (BodyH2 len done ping recv) = h2_is_end_stream L w recv"

text \<open>\<^verbatim>\<open>SizeHint::exact\<close> of \<^verbatim>\<open>size_hint\<close>.\<close>

fun incoming_size_exact :: "Incoming \<Rightarrow> u64 option" where
  "incoming_size_exact BodyEmpty = Some 0"
| "incoming_size_exact (BodyChan len k d t) = into_opt len"
| "incoming_size_exact (BodyH2 len done ping recv) = into_opt len"

subsection \<open>Sending\<close>

definition sender_poll_want ::
  "('w, 'm, 'z) body_lib_scheme \<Rightarrow> 'w \<Rightarrow> body_sender \<Rightarrow> ('w \<times> (core_error + unit) poll) option" where
  "sender_poll_want L w s =
     (case watch_load L w (want_rx s) of
        (w, v) \<Rightarrow>
          if v = WANT_READY then Some (w, Ready (Inr ()))
          else if v = WANT_PENDING then Some (w, Pending)
          else if v = watch_CLOSED then Some (w, Ready (Inl new_closed))
          else None)"

definition sender_poll_ready ::
  "('w, 'm, 'z) body_lib_scheme \<Rightarrow> 'w \<Rightarrow> body_sender \<Rightarrow> ('w \<times> (core_error + unit) poll) option" where
  "sender_poll_ready L w s =
     (case sender_poll_want L w s of
        None \<Rightarrow> None
      | Some (w, Ready (Inr _)) \<Rightarrow>
          (case data_poll_ready L w (data_tx s) of
             (w, Pending) \<Rightarrow> Some (w, Pending)
           | (w, Ready (Inr _)) \<Rightarrow> Some (w, Ready (Inr ()))
           | (w, Ready (Inl _)) \<Rightarrow> Some (w, Ready (Inl new_closed)))
      | Some (w, r) \<Rightarrow> Some (w, r))"

text \<open>\<^verbatim>\<open>try_send_data\<close>: \<open>data_try_send\<close> gives back what it could not send, here always the chunk
  (\<^verbatim>\<open>expect("just sent Ok")\<close>).\<close>

definition try_send_data ::
  "('w, 'm, 'z) body_lib_scheme \<Rightarrow> 'w \<Rightarrow> body_sender \<Rightarrow> bytes \<Rightarrow> ('w \<times> (bytes + unit)) option" where
  "try_send_data L w s chunk =
     (case data_try_send L w (data_tx s) (Inr chunk) of
        (w, None) \<Rightarrow> Some (w, Inr ())
      | (w, Some (Inr c)) \<Rightarrow> Some (w, Inl c)
      | (w, Some (Inl _)) \<Rightarrow> None)"

definition try_send_trailers ::
  "('w, 'm, 'z) body_lib_scheme \<Rightarrow> 'w \<Rightarrow> body_sender \<Rightarrow> 'm \<Rightarrow> 'w \<times> body_sender \<times> ('m option + unit)" where
  "try_send_trailers L w s trailers =
     (case trailers_tx s of
        None \<Rightarrow> (w, s, Inl None)
      | Some t \<Rightarrow>
          (case trailers_send L w t trailers of
             (w, None) \<Rightarrow> (w, s\<lparr>trailers_tx := None\<rparr>, Inr ())
           | (w, Some m) \<Rightarrow> (w, s\<lparr>trailers_tx := None\<rparr>, Inl (Some m))))"

definition send_error :: "('w, 'm, 'z) body_lib_scheme \<Rightarrow> 'w \<Rightarrow> body_sender \<Rightarrow> core_error \<Rightarrow> 'w" where
  "send_error L w s err =
     (case data_clone_tx L w (data_tx s) of
        (d, w) \<Rightarrow> data_drop_tx L (fst (data_try_send L w d (Inl err))) d)"

text \<open>Dropping a sender drops the senders of its channels.\<close>

definition sender_drop :: "('w, 'm, 'z) body_lib_scheme \<Rightarrow> 'w \<Rightarrow> body_sender \<Rightarrow> 'w" where
  "sender_drop L w s =
     (let w = data_drop_tx L w (data_tx s)
      in case trailers_tx s of Some t \<Rightarrow> trailers_drop_tx L w t | None \<Rightarrow> w)"

section \<open>The length of a body\<close>

text \<open>A run of \<^verbatim>\<open>poll_frame\<close>, with the data it gave; the world may change between two polls.\<close>

inductive reads :: "('w, 'm, 'z) body_lib_scheme \<Rightarrow> Incoming \<Rightarrow> bytes \<Rightarrow> Incoming \<Rightarrow> bool"
  for L :: "('w, 'm, 'z) body_lib_scheme" where
  reads_start: "reads L b [] b"
| reads_data: "reads L b out b1 \<Longrightarrow> incoming_poll_frame L w b1 = Some (w', b2, Ready (Some (Inr (Data bs)))) \<Longrightarrow>
    reads L b (out @ bs) b2"
| reads_other: "reads L b out b1 \<Longrightarrow> incoming_poll_frame L w b1 = Some (w', b2, r) \<Longrightarrow>
    \<forall>bs. r \<noteq> Ready (Some (Inr (Data bs))) \<Longrightarrow> reads L b out b2"

text \<open>The length a body still announces.\<close>

fun body_length :: "Incoming \<Rightarrow> DecodedLength" where
  "body_length BodyEmpty = ZERO"
| "body_length (BodyChan len k d t) = len"
| "body_length (BodyH2 len done ping recv) = len"

lemma poll_frame_length:
  assumes "incoming_poll_frame L w b = Some (w', b', r)"
  shows "case r of
           Ready (Some (Inr (Data bs))) \<Rightarrow> sub_if (body_length b) (of_nat (length bs)) = Some (body_length b')
         | _ \<Rightarrow> body_length b' = body_length b"
  using assms
  by (cases b)
    (auto simp: Let_def poll_chan_trailers_def poll_h2_trailers_def
      split: prod.splits poll.splits option.splits sum.splits if_splits)

lemma incoming_size_exact_length: "incoming_size_exact b = into_opt (body_length b)"
  by (cases b) (simp_all add: into_opt_is_exact is_exact_def ZERO_def MAX_LEN_def)

text \<open>The data is counted against the announced length, whatever else is polled in between.\<close>

lemma reads_counted:
  assumes "reads L b out b'" and "is_exact (body_length b)" and "length out < 2 ^ 64"
  shows "is_exact (body_length b') \<and> unat (body_length b') + length out = unat (body_length b)"
  using assms
proof induction
  case (reads_data b out b1 w w' b2 bs)
  have n: "unat (of_nat (length bs) :: u64) = length bs"
    using reads_data.prems(2) by (simp add: unat_of_nat)
  have len: "length out < 2 ^ 64" using reads_data.prems(2) by simp
  note IH = reads_data.IH [OF reads_data.prems(1) len]
  from poll_frame_length [OF reads_data.hyps(2)]
  have "sub_if (body_length b1) (of_nat (length bs)) = Some (body_length b2)" by simp
  with sub_if_exact [of "body_length b1" "of_nat (length bs)" "body_length b2"] IH n show ?case by auto
next
  case (reads_other b out b1 w w' b2 r)
  from poll_frame_length [OF reads_other.hyps(2)] reads_other.hyps(3)
  have "body_length b2 = body_length b1" by (auto split: poll.splits option.splits sum.splits frame.splits)
  with reads_other.IH [OF reads_other.prems] show ?case by simp
qed simp

text \<open>The body of a response of known length keeps count: after any run of reads that gave the bytes \<open>out\<close>, what it
  says is still to come (\<^verbatim>\<open>size_hint\<close>) is the announced length less \<open>out\<close>, it never gives more than was announced, and a body fed through a channel
  calls itself finished (\<^verbatim>\<open>is_end_stream\<close>) exactly when all of it was given.\<close>
lemma body_length_accounted:
  assumes "reads L (BodyChan len k d t) out b" and "is_exact len" and "length out < 2 ^ 64"
  shows "length out \<le> unat len \<and> incoming_size_exact b = Some (of_nat (unat len - length out)) \<and>
         incoming_is_end_stream L w b = (length out = unat len)"
proof -
  from reads_counted [OF assms(1)] assms(2,3)
  have c: "is_exact (body_length b)" "unat (body_length b) + length out = unat len" by simp_all
  then have "unat len - length out = unat (body_length b)" by simp
  then have l: "of_nat (unat len - length out) = body_length b" by simp
  from assms(1) have "\<exists>len' k d t. b = BodyChan len' k d t" 
    by (induction "BodyChan len k d t" out b)
      (auto simp: Let_def poll_chan_trailers_def split: prod.splits poll.splits option.splits sum.splits if_splits)
  then obtain len' k d t where b: "b = BodyChan len' k d t" by blast
  then have "incoming_is_end_stream L w b = (unat (body_length b) = 0)" by (simp add: ZERO_def unat_eq_0)
  then have "incoming_is_end_stream L w b = (length out = unat len)" using c(2) by linarith
  moreover have "incoming_size_exact b = Some (of_nat (unat len - length out))"
    using c(1) l by (simp add: incoming_size_exact_length into_opt_is_exact)
  ultimately show ?thesis using c(2) by simp
qed

end
