(* ===== verification/Client_Dispatch.thy ===== *)
theory Client_Dispatch
  imports Core_Error
begin

text \<open>
  The channel between a request sender and the task of its connection
  (\<^verbatim>\<open>src/src/core/client/dispatch.rs\<close>): requests travel in envelopes together with a callback for the answer. The
  channels of \<^verbatim>\<open>tokio\<close> and the crate \<^verbatim>\<open>want\<close> are outside the repository: \<open>dispatch_lib\<close> holds the operations the code
  calls, on the state \<open>'w\<close> of everything outside the task. Other threads run at the same time, so that any of them may change more
  of \<open>'w\<close> than its own channel.

  The type \<open>world\<close> pairs that state with the list of what the connection task has done to it so far: requests it took, heads
  it wrote, answers it gave. \<^const>\<open>None\<close> as a result is a panic.
\<close>

section \<open>Data\<close>

record 't TrySendError =
  tse_error :: core_error
  tse_message :: "'t option"

type_synonym ('t, 'u) answer = "'t TrySendError + 'u"

text \<open>A callback holds the sender of a one-shot channel, named by a number, until it is used.\<close>

datatype Callback = Retry (cb_tx: "nat option") | NoRetry (cb_tx: "nat option")

type_synonym 't Envelope = "('t \<times> Callback) option"

record ('w, 't, 'u) dispatch_lib =
  mpsc_send :: "'w \<Rightarrow> 't Envelope \<Rightarrow> 'w \<times> 't Envelope option"
  mpsc_poll_recv :: "'w \<Rightarrow> 'w \<times> 't Envelope option poll"
  mpsc_close :: "'w \<Rightarrow> 'w"
  mpsc_drop_rx :: "'w \<Rightarrow> 'w \<times> 't Envelope list"
  giver_poll_want :: "'w \<Rightarrow> 'w \<times> (unit + unit) poll"
  giver_is_wanting :: "'w \<Rightarrow> bool"
  giver_give :: "'w \<Rightarrow> 'w \<times> bool"
  giver_is_canceled :: "'w \<Rightarrow> bool"
  taker_want :: "'w \<Rightarrow> 'w"
  taker_cancel :: "'w \<Rightarrow> 'w"
  promise_channel :: "'w \<Rightarrow> nat \<times> 'w"
  promise_is_closed :: "'w \<Rightarrow> nat \<Rightarrow> bool"
  promise_poll_closed :: "'w \<Rightarrow> nat \<Rightarrow> 'w \<times> bool"
  promise_send :: "'w \<Rightarrow> nat \<Rightarrow> ('t, 'u) answer \<Rightarrow> 'w"
  thread_panicking :: "'w \<Rightarrow> bool"

datatype ('t, 'u) event =
    Took Callback
  | WroteHead
  | Answered Callback "('t, 'u) answer"

record ('w, 't, 'u) world =
  outside :: 'w
  history :: "('t, 'u) event list"

definition note_event :: "('t, 'u) event \<Rightarrow> ('w, 't, 'u) world \<Rightarrow> ('w, 't, 'u) world" where
  "note_event e w = w\<lparr>history := history w @ [e]\<rparr>"

section \<open>Callbacks\<close>

definition dispatch_gone :: "('w, 't, 'u, 'z) dispatch_lib_scheme \<Rightarrow> 'w \<Rightarrow> core_error" where
  "dispatch_gone L w = error_with new_user_dispatch_gone
     (CauseText (if thread_panicking L w then ''user code panicked'' else ''runtime dropped the dispatch task''))"

text \<open>\<^verbatim>\<open>tx.send(val)\<close> on the channel of a callback; a \<^verbatim>\<open>NoRetry\<close> channel carries the error alone.\<close>

definition answer_tx ::
  "('w, 't, 'u, 'z) dispatch_lib_scheme \<Rightarrow> Callback \<Rightarrow> nat \<Rightarrow> ('t, 'u) answer \<Rightarrow> ('w, 't, 'u) world \<Rightarrow> ('w, 't, 'u) world" where
  "answer_tx L cb k a w = note_event (Answered cb a) (w\<lparr>outside := promise_send L (outside w) k a\<rparr>)"

definition callback_drop ::
  "('w, 't, 'u, 'z) dispatch_lib_scheme \<Rightarrow> Callback \<Rightarrow> ('w, 't, 'u) world \<Rightarrow> ('w, 't, 'u) world" where
  "callback_drop L cb w =
     (case cb_tx cb of
        None \<Rightarrow> w
      | Some k \<Rightarrow> answer_tx L cb k (Inl \<lparr>tse_error = dispatch_gone L (outside w), tse_message = None\<rparr>) w)"

definition callback_is_canceled :: "('w, 't, 'u, 'z) dispatch_lib_scheme \<Rightarrow> ('w, 't, 'u) world \<Rightarrow> Callback \<Rightarrow> bool option" where
  "callback_is_canceled L w cb = map_option (promise_is_closed L (outside w)) (cb_tx cb)"

definition poll_canceled ::
  "('w, 't, 'u, 'z) dispatch_lib_scheme \<Rightarrow> ('w, 't, 'u) world \<Rightarrow> Callback \<Rightarrow> (('w, 't, 'u) world \<times> unit poll) option" where
  "poll_canceled L w cb =
     map_option (\<lambda>k. case promise_poll_closed L (outside w) k of
                       (o', closed) \<Rightarrow> (w\<lparr>outside := o'\<rparr>, if closed then Ready () else Pending)) (cb_tx cb)"

definition callback_send ::
  "('w, 't, 'u, 'z) dispatch_lib_scheme \<Rightarrow> ('w, 't, 'u) world \<Rightarrow> Callback \<Rightarrow> ('t, 'u) answer \<Rightarrow> ('w, 't, 'u) world option" where
  "callback_send L w cb val =
     (case cb of
        Retry tx \<Rightarrow> map_option (\<lambda>k. answer_tx L cb k val w) tx
      | NoRetry tx \<Rightarrow>
          map_option (\<lambda>k. answer_tx L cb k (map_sum (\<lambda>e. e\<lparr>tse_message := None\<rparr>) id val) w) tx)"

section \<open>Sending requests\<close>

record request_sender = buffered_once :: bool

definition sender_new :: request_sender where
  "sender_new = \<lparr>buffered_once = False\<rparr>"

definition request_poll_ready ::
  "('w, 't, 'u, 'z) dispatch_lib_scheme \<Rightarrow> 'w \<Rightarrow> 'w \<times> (core_error + unit) poll" where
  "request_poll_ready L w =
     (case giver_poll_want L w of
        (w, Pending) \<Rightarrow> (w, Pending)
      | (w, Ready (Inr _)) \<Rightarrow> (w, Ready (Inr ()))
      | (w, Ready (Inl _)) \<Rightarrow> (w, Ready (Inl new_closed)))"

definition request_is_ready :: "('w, 't, 'u, 'z) dispatch_lib_scheme \<Rightarrow> 'w \<Rightarrow> bool" where
  "request_is_ready L w = giver_is_wanting L w"

definition can_send ::
  "('w, 't, 'u, 'z) dispatch_lib_scheme \<Rightarrow> 'w \<Rightarrow> request_sender \<Rightarrow> 'w \<times> request_sender \<times> bool" where
  "can_send L w s =
     (case giver_give L w of
        (w, given) \<Rightarrow> if given \<or> \<not> buffered_once s then (w, s\<lparr>buffered_once := True\<rparr>, True) else (w, s, False))"

text \<open>\<^verbatim>\<open>UnboundedSender::try_send\<close>, which is also the second half of \<^verbatim>\<open>Sender::try_send\<close>: the result is the
  receiver of the promise or the request given back, after which the callback that came back with it is dropped.\<close>

definition unbounded_try_send ::
  "('w, 't, 'u, 'z) dispatch_lib_scheme \<Rightarrow> 'w \<Rightarrow> 't \<Rightarrow> ('w \<times> ('t + nat)) option" where
  "unbounded_try_send L w val =
     (case promise_channel L w of
        (k, w) \<Rightarrow>
          (case mpsc_send L w (Some (val, Retry (Some k))) of
             (w, None) \<Rightarrow> Some (w, Inr k)
           | (w, Some (Some (val, cb))) \<Rightarrow>
               Some (case cb_tx cb of
                       Some k \<Rightarrow> promise_send L w k (Inl \<lparr>tse_error = dispatch_gone L w, tse_message = None\<rparr>)
                     | None \<Rightarrow> w, Inl val)
           | (w, Some None) \<Rightarrow> None))"

definition try_send ::
  "('w, 't, 'u, 'z) dispatch_lib_scheme \<Rightarrow> 'w \<Rightarrow> request_sender \<Rightarrow> 't \<Rightarrow> ('w \<times> request_sender \<times> ('t + nat)) option" where
  "try_send L w s val =
     (case can_send L w s of
        (w, s, False) \<Rightarrow> Some (w, s, Inl val)
      | (w, s, True) \<Rightarrow> map_option (\<lambda>(w, r). (w, s, r)) (unbounded_try_send L w val))"

definition unbounded_is_ready :: "('w, 't, 'u, 'z) dispatch_lib_scheme \<Rightarrow> 'w \<Rightarrow> bool" where
  "unbounded_is_ready L w \<longleftrightarrow> \<not> giver_is_canceled L w"

definition unbounded_is_closed :: "('w, 't, 'u, 'z) dispatch_lib_scheme \<Rightarrow> 'w \<Rightarrow> bool" where
  "unbounded_is_closed L w = giver_is_canceled L w"

section \<open>Receiving requests\<close>

text \<open>Taking the request out of an envelope; \<^verbatim>\<open>expect("envelope not dropped")\<close>.\<close>

definition open_envelope ::
  "'t Envelope \<Rightarrow> ('w, 't, 'u) world \<Rightarrow> (('w, 't, 'u) world \<times> ('t \<times> Callback)) option" where
  "open_envelope env w = map_option (\<lambda>(val, cb). (note_event (Took cb) w, (val, cb))) env"

definition poll_recv ::
  "('w, 't, 'u, 'z) dispatch_lib_scheme \<Rightarrow> ('w, 't, 'u) world \<Rightarrow>
   (('w, 't, 'u) world \<times> ('t \<times> Callback) option poll) option" where
  "poll_recv L w =
     (case mpsc_poll_recv L (outside w) of
        (o', Ready (Some env)) \<Rightarrow> map_option (\<lambda>(w, x). (w, Ready (Some x))) (open_envelope env (w\<lparr>outside := o'\<rparr>))
      | (o', Ready None) \<Rightarrow> Some (w\<lparr>outside := o'\<rparr>, Ready None)
      | (o', Pending) \<Rightarrow> Some (w\<lparr>outside := taker_want L o'\<rparr>, Pending))"

definition receiver_close :: "('w, 't, 'u, 'z) dispatch_lib_scheme \<Rightarrow> ('w, 't, 'u) world \<Rightarrow> ('w, 't, 'u) world" where
  "receiver_close L w = w\<lparr>outside := mpsc_close L (taker_cancel L (outside w))\<rparr>"

text \<open>\<^verbatim>\<open>try_recv\<close>: the future \<^verbatim>\<open>inner.recv()\<close> polled once.\<close>

definition try_recv ::
  "('w, 't, 'u, 'z) dispatch_lib_scheme \<Rightarrow> ('w, 't, 'u) world \<Rightarrow> ('w, 't, 'u) world \<times> ('t \<times> Callback) option" where
  "try_recv L w =
     (case mpsc_poll_recv L (outside w) of
        (o', Ready (Some env)) \<Rightarrow>
          (case open_envelope env (w\<lparr>outside := o'\<rparr>) of
             Some (w, x) \<Rightarrow> (w, Some x)
           | None \<Rightarrow> (w\<lparr>outside := o'\<rparr>, None))
      | (o', _) \<Rightarrow> (w\<lparr>outside := o'\<rparr>, None))"

definition envelope_drop ::
  "('w, 't, 'u, 'z) dispatch_lib_scheme \<Rightarrow> 't Envelope \<Rightarrow> ('w, 't, 'u) world \<Rightarrow> ('w, 't, 'u) world option" where
  "envelope_drop L env w =
     (case open_envelope env w of
        None \<Rightarrow> Some w
      | Some (w, val, cb) \<Rightarrow>
          callback_send L w cb (Inl \<lparr>tse_error = error_with new_canceled (CauseText ''connection closed''), tse_message = Some val\<rparr>))"

fun envelopes_drop ::
  "('w, 't, 'u, 'z) dispatch_lib_scheme \<Rightarrow> 't Envelope list \<Rightarrow> ('w, 't, 'u) world \<Rightarrow> ('w, 't, 'u) world option" where
  "envelopes_drop L [] w = Some w"
| "envelopes_drop L (env # envs) w =
     (case envelope_drop L env w of None \<Rightarrow> None | Some w \<Rightarrow> envelopes_drop L envs w)"

text \<open>Dropping the receiver: the giver is told first, then the channel drops what is still queued.\<close>

definition receiver_drop :: "('w, 't, 'u, 'z) dispatch_lib_scheme \<Rightarrow> ('w, 't, 'u) world \<Rightarrow> ('w, 't, 'u) world option" where
  "receiver_drop L w =
     (case mpsc_drop_rx L (taker_cancel L (outside w)) of
        (o', envs) \<Rightarrow> envelopes_drop L envs (w\<lparr>outside := o'\<rparr>))"

section \<open>Waiting for a response on HTTP/2\<close>

text \<open>\<^verbatim>\<open>SendWhen::poll\<close>, with the future of the response as an argument.\<close>

definition send_when_poll ::
  "('w, 't, 'u, 'z) dispatch_lib_scheme \<Rightarrow> ('w \<Rightarrow> 'f \<Rightarrow> ('w \<times> 'f \<times> (core_error \<times> 't option + 'u) poll) option) \<Rightarrow>
   ('w, 't, 'u) world \<Rightarrow> 'f \<Rightarrow> Callback option \<Rightarrow> (('w, 't, 'u) world \<times> 'f \<times> Callback option \<times> unit poll) option" where
  "send_when_poll L fut w f call_back =
     (case call_back of
        None \<Rightarrow> None
      | Some cb \<Rightarrow>
          (case fut (outside w) f of
             None \<Rightarrow> None
           | Some (o', f, Ready (Inr res)) \<Rightarrow>
               map_option (\<lambda>w. (w, f, None, Ready ())) (callback_send L (w\<lparr>outside := o'\<rparr>) cb (Inr res))
           | Some (o', f, Pending) \<Rightarrow>
               (case poll_canceled L (w\<lparr>outside := o'\<rparr>) cb of
                  None \<Rightarrow> None
                | Some (w, Ready _) \<Rightarrow> Some (callback_drop L cb w, f, None, Ready ())
                | Some (w, Pending) \<Rightarrow> Some (w, f, Some cb, Pending))
           | Some (o', f, Ready (Inl (error, message))) \<Rightarrow>
               map_option (\<lambda>w. (w, f, None, Ready ()))
                 (callback_send L (w\<lparr>outside := o'\<rparr>) cb (Inl \<lparr>tse_error = error, tse_message = message\<rparr>))))"

end
