(* ===== verification/H1_Dispatch.thy ===== *)
theory H1_Dispatch
  imports H1_Eval Incoming Client_Dispatch
begin

text \<open>
  The task that drives an HTTP/1 connection (\<^verbatim>\<open>src/src/core/proto/h1/dispatch.rs\<close>, instantiated at
  the client): it takes requests from the channel of theory Client_Dispatch, writes them to the connection of theory H1_Conn, reads
  responses, and feeds their bodies to the channel of theory Incoming. The body of a request is the
  user's; what the code calls of it is in \<open>h1_env\<close>, beside the channels.

  \<^const>\<open>None\<close> as a result is a panic or a loop that does not end. The history in the state of the world says which
  requests the task took, when it wrote a head, and what it answered; \<open>exchange\<close> below says which histories are right.
\<close>

section \<open>State\<close>

text \<open>A request as it comes from the channel, and a response with its body; the flag says that the head carries an
  \<^verbatim>\<open>OnUpgrade\<close>.\<close>

record ('m, 'b) h1_request =
  req_head :: "'m RequestHead"
  req_body :: 'b

record 'm h1_response =
  res_head :: "'m ResponseHead"
  res_body :: Incoming
  res_upgrade :: bool

text \<open>Everything outside the task: the channel of requests, the channels of bodies, and the bodies of requests.\<close>

record ('w, 'm, 'b) h1_env = "('w, 'm) body_lib" +
  requests :: "('w, ('m, 'b) h1_request, 'm h1_response) dispatch_lib"
  user_poll_frame :: "'w \<Rightarrow> 'b \<Rightarrow> 'w \<times> 'b \<times> (cause + 'm frame) option poll"
  user_is_end_stream :: "'w \<Rightarrow> 'b \<Rightarrow> bool"
  user_size_exact :: "'w \<Rightarrow> 'b \<Rightarrow> u64 option"

type_synonym ('w, 'm, 'b) h1_world = "('w, ('m, 'b) h1_request, 'm h1_response) world"

record h1_client =
  callback :: "Callback option"
  rx_closed :: bool

record ('t, 'm, 'c, 'b) Dispatcher =
  d_conn :: "('t, 'm, 'c) Conn"
  d_dispatch :: h1_client
  d_body_tx :: "body_sender option"
  d_body_rx :: "'b option"
  d_is_closing :: bool

datatype Dispatched = DShutdown | DUpgrade

section \<open>The client side of the channel\<close>

definition client_new :: h1_client where
  "client_new = \<lparr>callback = None, rx_closed = False\<rparr>"

definition client_poll_msg ::
  "('w, 'm, 'b, 'e) h1_env_scheme \<Rightarrow> ('w, 'm, 'b) h1_world \<Rightarrow> h1_client \<Rightarrow>
   (('w, 'm, 'b) h1_world \<times> h1_client \<times> ('m, 'b) h1_request option poll) option" where
  "client_poll_msg E w cl =
     (if rx_closed cl then None
      else case poll_recv (requests E) w of
             None \<Rightarrow> None
           | Some (w, Ready (Some (req, cb))) \<Rightarrow>
               (case poll_canceled (requests E) w cb of
                  None \<Rightarrow> None
                | Some (w, Ready _) \<Rightarrow> Some (callback_drop (requests E) cb w, cl, Ready None)
                | Some (w, Pending) \<Rightarrow> Some (w, cl\<lparr>callback := Some cb\<rparr>, Ready (Some req)))
           | Some (w, Ready None) \<Rightarrow> Some (w, cl\<lparr>rx_closed := True\<rparr>, Ready None)
           | Some (w, Pending) \<Rightarrow> Some (w, cl, Pending))"

definition client_recv_msg ::
  "('w, 'm, 'b, 'e) h1_env_scheme \<Rightarrow> ('w, 'm, 'b) h1_world \<Rightarrow> h1_client \<Rightarrow> core_error + 'm h1_response \<Rightarrow>
   (('w, 'm, 'b) h1_world \<times> h1_client \<times> (core_error + unit)) option" where
  "client_recv_msg E w cl msg =
     (case msg of
        Inr res \<Rightarrow>
          (case callback cl of
             Some cb \<Rightarrow> map_option (\<lambda>w. (w, cl\<lparr>callback := None\<rparr>, Inr ())) (callback_send (requests E) w cb (Inr res))
           | None \<Rightarrow> Some (w, cl, Inl new_unexpected_message))
      | Inl err \<Rightarrow>
          (case callback cl of
             Some cb \<Rightarrow>
               map_option (\<lambda>w. (w, cl\<lparr>callback := None\<rparr>, Inr ()))
                 (callback_send (requests E) w cb (Inl \<lparr>tse_error = err, tse_message = None\<rparr>))
           | None \<Rightarrow>
               if \<not> rx_closed cl
               then (case try_recv (requests E) (receiver_close (requests E) w) of
                       (w, Some (req, cb)) \<Rightarrow>
                         map_option (\<lambda>w. (w, cl, Inr ()))
                           (callback_send (requests E) w cb
                              (Inl \<lparr>tse_error = error_with new_canceled (CauseError err), tse_message = Some req\<rparr>))
                     | (w, None) \<Rightarrow> Some (w, cl, Inl err))
               else Some (w, cl, Inl err)))"

definition client_poll_ready ::
  "('w, 'm, 'b, 'e) h1_env_scheme \<Rightarrow> ('w, 'm, 'b) h1_world \<Rightarrow> h1_client \<Rightarrow> (('w, 'm, 'b) h1_world \<times> bool) option" where
  "client_poll_ready E w cl =
     (case callback cl of
        Some cb \<Rightarrow> map_option (\<lambda>(w, r). (w, r = Pending)) (poll_canceled (requests E) w cb)
      | None \<Rightarrow> Some (w, False))"

definition should_poll :: "h1_client \<Rightarrow> bool" where
  "should_poll cl \<longleftrightarrow> callback cl = None"

section \<open>Reading\<close>

text \<open>A \<^verbatim>\<open>loop\<close> whose body either continues or leaves it with a value.\<close>

partial_function (option) run_loop :: "('s \<Rightarrow> ('s \<times> 'r option) option) \<Rightarrow> 's \<Rightarrow> ('s \<times> 'r) option" where
  "run_loop body s =
     (case body s of
        None \<Rightarrow> None
      | Some (s, None) \<Rightarrow> run_loop body s
      | Some (s, Some r) \<Rightarrow> Some (s, r))"

lemma run_loop_code [code]:
  "run_loop body s =
     (case body s of
        None \<Rightarrow> None
      | Some p \<Rightarrow> (case snd p of None \<Rightarrow> run_loop body (fst p) | Some r \<Rightarrow> Some (fst p, r)))"
  by (subst run_loop.simps) (simp split: option.split prod.split)

lemma run_loop_invariant:
  fixes body :: "'s \<Rightarrow> ('s \<times> 'r option) option"
  assumes "run_loop body s = Some (s', r)" and "I s" and "\<And>s s' r. I s \<Longrightarrow> body s = Some (s', r) \<Longrightarrow> I s'"
  shows "I s'"
proof -
  have "(\<forall>s s' r. I s \<longrightarrow> body s = Some (s', r) \<longrightarrow> I s') \<longrightarrow> I s \<longrightarrow> I (fst (s', r))"
  proof (rule run_loop.raw_induct [where P = "\<lambda>body s y. (\<forall>s s' r. I s \<longrightarrow> body s = Some (s', r) \<longrightarrow> I s') \<longrightarrow> I s \<longrightarrow> I (fst y)", rotated, OF assms(1)])
    fix f :: "('s \<Rightarrow> ('s \<times> 'r option) option) \<Rightarrow> 's \<Rightarrow> ('s \<times> 'r) option" and body s y
    assume ih: "\<And>body s y. f body s = Some y \<Longrightarrow> (\<forall>s s' r. I s \<longrightarrow> body s = Some (s', r) \<longrightarrow> I s') \<longrightarrow> I s \<longrightarrow> I (fst y)"
      and step: "(case body s of None \<Rightarrow> None | Some (s, None) \<Rightarrow> f body s | Some (s, Some r) \<Rightarrow> Some (s, r)) = Some y"
    show "(\<forall>s s' r. I s \<longrightarrow> body s = Some (s', r) \<longrightarrow> I s') \<longrightarrow> I s \<longrightarrow> I (fst y)"
    proof (intro impI)
      assume inv: "\<forall>s s' r. I s \<longrightarrow> body s = Some (s', r) \<longrightarrow> I s'" and "I s"
      from step obtain s1 o1 where b: "body s = Some (s1, o1)" by (cases "body s") auto
      with inv \<open>I s\<close> have "I s1" by blast
      with inv step b ih [of body s1 y] show "I (fst y)" by (cases o1) auto
    qed
  qed
  with assms show ?thesis by auto
qed

definition dispatcher_new :: "('t, 'm, 'c) Conn \<Rightarrow> ('t, 'm, 'c, 'b) Dispatcher" where
  "dispatcher_new c = \<lparr>d_conn = c, d_dispatch = client_new, d_body_tx = None, d_body_rx = None, d_is_closing = False\<rparr>"

definition disp_close :: "('t, 'm, 'c, 'b) Dispatcher \<Rightarrow> ('t, 'm, 'c, 'b) Dispatcher" where
  "disp_close d = d\<lparr>d_is_closing := True, d_conn := close_write (close_read (d_conn d))\<rparr>"

definition disp_is_done :: "('t, 'm, 'c, 'b) Dispatcher \<Rightarrow> bool" where
  "disp_is_done d \<longleftrightarrow>
     (if d_is_closing d then True
      else let read_done = is_read_closed (cst (d_conn d))
           in if read_done then True
              else let write_done = is_write_closed (cst (d_conn d)) \<or> \<not> should_poll (d_dispatch d) \<and> d_body_rx d = None
                   in read_done \<and> write_done)"

type_synonym ('w, 't, 'm, 'c, 'b, 'r) disp_result =
  "(('w, 'm, 'b) h1_world \<times> ('t, 'm, 'c, 'b) Dispatcher \<times> 'r) option"

text \<open>Handing a message, or an error, to the channel.\<close>

definition disp_recv_msg ::
  "('w, 'm, 'b, 'e) h1_env_scheme \<Rightarrow> ('w, 'm, 'b) h1_world \<Rightarrow> ('t, 'm, 'c, 'b) Dispatcher \<Rightarrow>
   core_error + 'm h1_response \<Rightarrow> ('w, 't, 'm, 'c, 'b, core_error + unit) disp_result" where
  "disp_recv_msg E w d msg =
     map_option (\<lambda>(w, cl, r). (w, d\<lparr>d_dispatch := cl\<rparr>, r)) (client_recv_msg E w (d_dispatch d) msg)"

text \<open>The branch of \<^verbatim>\<open>poll_read_head\<close> for a head that was read.\<close>

definition disp_got_head ::
  "('w, 'm, 'b, 'e) h1_env_scheme \<Rightarrow> ('w, 'm, 'b) h1_world \<Rightarrow> ('t, 'm, 'c, 'b) Dispatcher \<Rightarrow>
   'm ResponseHead \<Rightarrow> DecodedLength \<Rightarrow> u8 \<Rightarrow> ('w, 't, 'm, 'c, 'b, (core_error + unit) poll) disp_result" where
  "disp_got_head E w d head body_len wants =
     (case (if body_len = ZERO then Some (None, body_empty, outside w)
            else map_option (\<lambda>(tx, rx, o'). (Some tx, rx, o')) (new_channel E (outside w) body_len (wants_contains wants wants_EXPECT))) of
        None \<Rightarrow> None
      | Some (tx, rx, o') \<Rightarrow>
          (let d = (case tx of Some _ \<Rightarrow> d\<lparr>d_body_tx := tx\<rparr> | None \<Rightarrow> d);
               upgrade = wants_contains wants wants_UPGRADE;
               d = (if upgrade then d\<lparr>d_conn := on_upgrade (d_conn d)\<rparr> else d)
           in map_option (\<lambda>(w, d, r). (w, d, Ready r))
                (disp_recv_msg E (w\<lparr>outside := o'\<rparr>) d (Inr \<lparr>res_head = head, res_body = rx, res_upgrade = upgrade\<rparr>))))"

definition disp_read_head ::
  "('t, 'z) transport_ops_scheme \<Rightarrow> (nat \<Rightarrow> nat \<Rightarrow> nat) \<Rightarrow> ('m, 'c, 'y) h1_lib_scheme \<Rightarrow> ('w, 'm, 'b, 'e) h1_env_scheme \<Rightarrow>
   ('w, 'm, 'b) h1_world \<Rightarrow> ('t, 'm, 'c, 'b) Dispatcher \<Rightarrow> ('w, 't, 'm, 'c, 'b, (core_error + unit) poll) disp_result" where
  "disp_read_head T grow H E w d =
     (case client_poll_ready E w (d_dispatch d) of
        None \<Rightarrow> None
      | Some (w, False) \<Rightarrow> Some (w, disp_close d, Ready (Inr ()))
      | Some (w, True) \<Rightarrow>
          (case poll_read_head T grow H (d_conn d) of
             None \<Rightarrow> None
           | Some (c, Pending) \<Rightarrow> Some (w, d\<lparr>d_conn := c\<rparr>, Pending)
           | Some (c, Ready (Some (Inr (head, body_len, wants)))) \<Rightarrow>
               disp_got_head E w (d\<lparr>d_conn := c\<rparr>) head body_len wants
           | Some (c, Ready (Some (Inl err))) \<Rightarrow>
               (case disp_recv_msg E w (d\<lparr>d_conn := c\<rparr>) (Inl err) of
                  None \<Rightarrow> None
                | Some (w, d, Inl e) \<Rightarrow> Some (w, d, Ready (Inl e))
                | Some (w, d, Inr _) \<Rightarrow> Some (w, disp_close d, Ready (Inr ())))
           | Some (c, Ready None) \<Rightarrow>
               (let d = d\<lparr>d_conn := c\<rparr>
                in Some (w, if is_write_closed (cst c) then disp_close d else d, Ready (Inr ())))))"

text \<open>A chunk or the trailers could not be passed on: the user has dropped the body.\<close>

definition disp_body_dropped ::
  "('w, 'm, 'b, 'e) h1_env_scheme \<Rightarrow> ('w, 'm, 'b) h1_world \<Rightarrow> ('t, 'm, 'c, 'b) Dispatcher \<Rightarrow> body_sender \<Rightarrow>
   ('w, 'm, 'b) h1_world \<times> ('t, 'm, 'c, 'b) Dispatcher" where
  "disp_body_dropped E w d body =
     (w\<lparr>outside := sender_drop E (outside w) body\<rparr>,
      if can_read_body (d_conn d) then d\<lparr>d_conn := close_read (d_conn d)\<rparr> else d)"

text \<open>The branch of \<^verbatim>\<open>poll_read\<close> that passes a part of the body on, with the sender taken out of the
  dispatcher; the result says whether the loop goes on. Where the sender is not put back it is dropped.\<close>

definition disp_read_body ::
  "('t, 'z) transport_ops_scheme \<Rightarrow> (nat \<Rightarrow> nat \<Rightarrow> nat) \<Rightarrow> ('m, 'c, 'y) h1_lib_scheme \<Rightarrow> ('w, 'm, 'b, 'e) h1_env_scheme \<Rightarrow>
   ('w, 'm, 'b) h1_world \<Rightarrow> ('t, 'm, 'c, 'b) Dispatcher \<Rightarrow> body_sender \<Rightarrow> ('w, 't, 'm, 'c, 'b, bool) disp_result" where
  "disp_read_body T grow H E w d body =
     (case sender_poll_ready E (outside w) body of
        None \<Rightarrow> None
      | Some (o', Pending) \<Rightarrow> Some (w\<lparr>outside := o'\<rparr>, d\<lparr>d_body_tx := Some body\<rparr>, False)
      | Some (o', Ready (Inl _)) \<Rightarrow>
          map_option (\<lambda>c. (w\<lparr>outside := sender_drop E o' body\<rparr>, d\<lparr>d_conn := c\<rparr>, True))
            (poll_drain_or_close_read T grow H (d_conn d))
      | Some (o', Ready (Inr _)) \<Rightarrow>
          (let w = w\<lparr>outside := o'\<rparr>
           in case poll_read_body T grow H (d_conn d) of
                None \<Rightarrow> None
              | Some (c, r) \<Rightarrow>
                  (let d = d\<lparr>d_conn := c\<rparr>
                   in case r of
                        Ready (Some (Inr (Data chunk))) \<Rightarrow>
                          (case try_send_data E (outside w) body chunk of
                             None \<Rightarrow> None
                           | Some (o', Inr _) \<Rightarrow> Some (w\<lparr>outside := o'\<rparr>, d\<lparr>d_body_tx := Some body\<rparr>, True)
                           | Some (o', Inl _) \<Rightarrow>
                               (case disp_body_dropped E (w\<lparr>outside := o'\<rparr>) d body of (w, d) \<Rightarrow> Some (w, d, True)))
                      | Ready (Some (Inr (Trailers trailers))) \<Rightarrow>
                          (case try_send_trailers E (outside w) body trailers of
                             (o', body, Inr _) \<Rightarrow> Some (w\<lparr>outside := o'\<rparr>, d\<lparr>d_body_tx := Some body\<rparr>, True)
                           | (o', body, Inl _) \<Rightarrow>
                               (case disp_body_dropped E (w\<lparr>outside := o'\<rparr>) d body of (w, d) \<Rightarrow> Some (w, d, True)))
                      | Ready None \<Rightarrow> Some (w\<lparr>outside := sender_drop E (outside w) body\<rparr>, d, True)
                      | Pending \<Rightarrow> Some (w, d\<lparr>d_body_tx := Some body\<rparr>, False)
                      | Ready (Some (Inl e)) \<Rightarrow>
                          Some (w\<lparr>outside := sender_drop E (send_error E (outside w) body (new_body (CauseIo e))) body\<rparr>, d, True))))"

text \<open>One round of the loop of \<^verbatim>\<open>poll_read\<close>, and the loop.\<close>

definition disp_read_round ::
  "('t, 'z) transport_ops_scheme \<Rightarrow> (nat \<Rightarrow> nat \<Rightarrow> nat) \<Rightarrow> ('m, 'c, 'y) h1_lib_scheme \<Rightarrow> ('w, 'm, 'b, 'e) h1_env_scheme \<Rightarrow>
   ('w, 'm, 'b) h1_world \<times> ('t, 'm, 'c, 'b) Dispatcher \<Rightarrow>
   ((('w, 'm, 'b) h1_world \<times> ('t, 'm, 'c, 'b) Dispatcher) \<times> (core_error + unit) poll option) option" where
  "disp_read_round T grow H E s = (case s of (w, d) \<Rightarrow>
     if d_is_closing d then Some ((w, d), Some (Ready (Inr ())))
     else if can_read_head (d_conn d)
     then (case disp_read_head T grow H E w d of
             None \<Rightarrow> None
           | Some (w, d, Ready (Inr _)) \<Rightarrow> Some ((w, d), None)
           | Some (w, d, r) \<Rightarrow> Some ((w, d), Some r))
     else case d_body_tx d of
            Some body \<Rightarrow>
              if can_read_body (d_conn d)
              then map_option (\<lambda>(w, d, again). ((w, d), if again then None else Some Pending))
                     (disp_read_body T grow H E w (d\<lparr>d_body_tx := None\<rparr>) body)
              else Some ((w\<lparr>outside := sender_drop E (outside w) body\<rparr>, d\<lparr>d_body_tx := None\<rparr>), None)
          | None \<Rightarrow>
              (case poll_read_keep_alive T grow (d_conn d) of (c, r) \<Rightarrow> Some ((w, d\<lparr>d_conn := c\<rparr>), Some r)))"

definition disp_poll_read ::
  "('t, 'z) transport_ops_scheme \<Rightarrow> (nat \<Rightarrow> nat \<Rightarrow> nat) \<Rightarrow> ('m, 'c, 'y) h1_lib_scheme \<Rightarrow> ('w, 'm, 'b, 'e) h1_env_scheme \<Rightarrow>
   ('w, 'm, 'b) h1_world \<Rightarrow> ('t, 'm, 'c, 'b) Dispatcher \<Rightarrow> ('w, 't, 'm, 'c, 'b, (core_error + unit) poll) disp_result" where
  "disp_poll_read T grow H E w d =
     map_option (\<lambda>((w, d), r). (w, d, r)) (run_loop (disp_read_round T grow H E) (w, d))"

section \<open>Writing\<close>

definition disp_poll_flush ::
  "('t, 'z) transport_ops_scheme \<Rightarrow> (nat \<Rightarrow> nat \<Rightarrow> nat) \<Rightarrow> ('t, 'm, 'c, 'b) Dispatcher \<Rightarrow>
   (('t, 'm, 'c, 'b) Dispatcher \<times> (core_error + unit) poll) option" where
  "disp_poll_flush T grow d =
     map_option (\<lambda>(c, r). (d\<lparr>d_conn := c\<rparr>,
         (case r of Pending \<Rightarrow> Pending | Ready (Inl e) \<Rightarrow> Ready (Inl (new_body_write (CauseIo e))) | Ready (Inr _) \<Rightarrow> Ready (Inr ()))))
       (conn_poll_flush T grow (d_conn d))"

text \<open>The branch of \<^verbatim>\<open>poll_write\<close> for a request taken from the channel.\<close>

definition disp_start_request ::
  "(nat \<Rightarrow> nat \<Rightarrow> nat) \<Rightarrow> ('m, 'c, 'y) h1_lib_scheme \<Rightarrow> ('w, 'm, 'b, 'e) h1_env_scheme \<Rightarrow>
   ('w, 'm, 'b) h1_world \<Rightarrow> ('t, 'm, 'c, 'b) Dispatcher \<Rightarrow> ('m, 'b) h1_request \<Rightarrow>
   (('w, 'm, 'b) h1_world \<times> ('t, 'm, 'c, 'b) Dispatcher) option" where
  "disp_start_request grow H E w d req =
     (let ended = user_is_end_stream E (outside w) (req_body req);
          body_type = (if ended then None
                       else case user_size_exact E (outside w) (req_body req) of Some n \<Rightarrow> Some (Known n) | None \<Rightarrow> Some Unknown)
      in map_option
           (\<lambda>c. (note_event WroteHead w, d\<lparr>d_conn := c, d_body_rx := (if ended then None else Some (req_body req))\<rparr>))
           (write_head grow H (d_conn d) (req_head req) body_type))"

text \<open>The branch of \<^verbatim>\<open>poll_write\<close> that writes a part of the body: the result \<open>None\<close> continues the loop, and a value leaves
  it. Where the guard is told to clear the body, \<open>d_body_rx\<close> becomes \<open>None\<close>.\<close>

definition disp_end_body ::
  "(nat \<Rightarrow> nat \<Rightarrow> nat) \<Rightarrow> ('w, 'm, 'b) h1_world \<Rightarrow> ('t, 'm, 'c, 'b) Dispatcher \<Rightarrow>
   ('w, 't, 'm, 'c, 'b, (core_error + unit) poll option) disp_result" where
  "disp_end_body grow w d =
     map_option (\<lambda>(c, r). (w, d\<lparr>d_conn := c\<rparr>, (case r of Inl e \<Rightarrow> Some (Ready (Inl e)) | Inr _ \<Rightarrow> None)))
       (end_body grow (d_conn d))"

definition disp_write_body ::
  "(nat \<Rightarrow> nat \<Rightarrow> nat) \<Rightarrow> ('m, 'c, 'y) h1_lib_scheme \<Rightarrow> ('w, 'm, 'b, 'e) h1_env_scheme \<Rightarrow>
   ('w, 'm, 'b) h1_world \<Rightarrow> ('t, 'm, 'c, 'b) Dispatcher \<Rightarrow> ('w, 't, 'm, 'c, 'b, (core_error + unit) poll option) disp_result" where
  "disp_write_body grow H E w d =
     (case d_body_rx d of
        None \<Rightarrow>
          if can_write_body (d_conn d) then disp_end_body grow w d else Some (w, d, Some Pending)
      | Some body \<Rightarrow>
          if \<not> can_write_body (d_conn d) then Some (w, d\<lparr>d_body_rx := None\<rparr>, None)
          else case user_poll_frame E (outside w) body of
                 (o', body, item) \<Rightarrow>
                   (let w = w\<lparr>outside := o'\<rparr>;
                        kept = d\<lparr>d_body_rx := Some body\<rparr>;
                        cleared = d\<lparr>d_body_rx := None\<rparr>
                    in case item of
                         Pending \<Rightarrow> Some (w, kept, Some Pending)
                       | Ready None \<Rightarrow> disp_end_body grow w cleared
                       | Ready (Some (Inl e)) \<Rightarrow> Some (w, cleared, Some (Ready (Inl (new_user_body e))))
                       | Ready (Some (Inr (Data chunk))) \<Rightarrow>
                           if user_is_end_stream E o' body
                           then if chunk = [] then disp_end_body grow w cleared
                                else map_option (\<lambda>c. (w, cleared\<lparr>d_conn := c\<rparr>, None)) (write_body_and_end grow (d_conn d) chunk)
                           else if chunk = [] then Some (w, kept, None)
                           else map_option (\<lambda>c. (w, kept\<lparr>d_conn := c\<rparr>, None)) (write_body grow (d_conn d) chunk)
                       | Ready (Some (Inr (Trailers trailers))) \<Rightarrow>
                           map_option (\<lambda>c. (w, cleared\<lparr>d_conn := c\<rparr>, None)) (write_trailers grow H (d_conn d) trailers)))"

text \<open>One round of the loop of \<^verbatim>\<open>poll_write\<close>, and the loop.\<close>

definition disp_write_round ::
  "('t, 'z) transport_ops_scheme \<Rightarrow> (nat \<Rightarrow> nat \<Rightarrow> nat) \<Rightarrow> ('m, 'c, 'y) h1_lib_scheme \<Rightarrow> ('w, 'm, 'b, 'e) h1_env_scheme \<Rightarrow>
   ('w, 'm, 'b) h1_world \<times> ('t, 'm, 'c, 'b) Dispatcher \<Rightarrow>
   ((('w, 'm, 'b) h1_world \<times> ('t, 'm, 'c, 'b) Dispatcher) \<times> (core_error + unit) poll option) option" where
  "disp_write_round T grow H E s = (case s of (w, d) \<Rightarrow>
     if d_is_closing d then Some ((w, d), Some (Ready (Inr ())))
     else if d_body_rx d = None \<and> can_write_head (d_conn d) \<and> should_poll (d_dispatch d)
     then (case client_poll_msg E w (d_dispatch d) of
             None \<Rightarrow> None
           | Some (w, cl, Pending) \<Rightarrow> Some ((w, d\<lparr>d_dispatch := cl\<rparr>), Some Pending)
           | Some (w, cl, Ready None) \<Rightarrow> Some ((w, disp_close (d\<lparr>d_dispatch := cl\<rparr>)), Some (Ready (Inr ())))
           | Some (w, cl, Ready (Some req)) \<Rightarrow>
               map_option (\<lambda>s. (s, None)) (disp_start_request grow H E w (d\<lparr>d_dispatch := cl\<rparr>) req))
     else if \<not> can_buffer_body (d_conn d)
     then (case disp_poll_flush T grow d of
             None \<Rightarrow> None
           | Some (d, Ready (Inr _)) \<Rightarrow> Some ((w, d), None)
           | Some (d, r) \<Rightarrow> Some ((w, d), Some r))
     else map_option (\<lambda>(w, d, r). ((w, d), r)) (disp_write_body grow H E w d))"

definition disp_poll_write ::
  "('t, 'z) transport_ops_scheme \<Rightarrow> (nat \<Rightarrow> nat \<Rightarrow> nat) \<Rightarrow> ('m, 'c, 'y) h1_lib_scheme \<Rightarrow> ('w, 'm, 'b, 'e) h1_env_scheme \<Rightarrow>
   ('w, 'm, 'b) h1_world \<Rightarrow> ('t, 'm, 'c, 'b) Dispatcher \<Rightarrow> ('w, 't, 'm, 'c, 'b, (core_error + unit) poll) disp_result" where
  "disp_poll_write T grow H E w d =
     map_option (\<lambda>((w, d), r). (w, d, r)) (run_loop (disp_write_round T grow H E) (w, d))"

section \<open>The task\<close>

text \<open>\<^verbatim>\<open>poll_loop\<close>: at most 16 rounds, then the task yields and asks to be polled again.\<close>

fun disp_poll_loop ::
  "nat \<Rightarrow> ('t, 'z) transport_ops_scheme \<Rightarrow> (nat \<Rightarrow> nat \<Rightarrow> nat) \<Rightarrow> ('m, 'c, 'y) h1_lib_scheme \<Rightarrow> ('w, 'm, 'b, 'e) h1_env_scheme \<Rightarrow>
   ('w, 'm, 'b) h1_world \<Rightarrow> ('t, 'm, 'c, 'b) Dispatcher \<Rightarrow> ('w, 't, 'm, 'c, 'b, (core_error + unit) poll) disp_result" where
  "disp_poll_loop 0 T grow H E w d = Some (w, d, Pending)"
| "disp_poll_loop (Suc n) T grow H E w d =
     (case disp_poll_read T grow H E w d of
        None \<Rightarrow> None
      | Some (w, d, Ready (Inl e)) \<Rightarrow> Some (w, d, Ready (Inl e))
      | Some (w, d, _) \<Rightarrow>
          (case disp_poll_write T grow H E w d of
             None \<Rightarrow> None
           | Some (w, d, Ready (Inl e)) \<Rightarrow> Some (w, d, Ready (Inl e))
           | Some (w, d, _) \<Rightarrow>
               (case disp_poll_flush T grow d of
                  None \<Rightarrow> None
                | Some (d, Ready (Inl e)) \<Rightarrow> Some (w, d, Ready (Inl e))
                | Some (d, _) \<Rightarrow>
                    (case wants_read_again (d_conn d) of
                       (c, again) \<Rightarrow>
                         if \<not> again then Some (w, d\<lparr>d_conn := c\<rparr>, Ready (Inr ()))
                         else disp_poll_loop n T grow H E w (d\<lparr>d_conn := c\<rparr>)))))"

definition disp_take_error ::
  "('t, 'm, 'c, 'b) Dispatcher \<Rightarrow> Dispatched \<Rightarrow> ('t, 'm, 'c, 'b) Dispatcher \<times> (core_error + Dispatched) poll" where
  "disp_take_error d res =
     (case take_error (d_conn d) of
        (c, Inl e) \<Rightarrow> (d\<lparr>d_conn := c\<rparr>, Ready (Inl e))
      | (c, Inr _) \<Rightarrow> (d\<lparr>d_conn := c\<rparr>, Ready (Inr res)))"

text \<open>What \<^verbatim>\<open>poll_inner\<close> does once the loop is done.\<close>

definition disp_finish ::
  "('t, 'z) transport_ops_scheme \<Rightarrow> bool \<Rightarrow> ('t, 'm, 'c, 'b) Dispatcher \<Rightarrow>
   ('t, 'm, 'c, 'b) Dispatcher \<times> (core_error + Dispatched) poll" where
  "disp_finish T should_shutdown d =
     (case pending_upgrade (d_conn d) of
        (c, True) \<Rightarrow> disp_take_error (d\<lparr>d_conn := c\<rparr>) DUpgrade
      | (c, False) \<Rightarrow>
          if should_shutdown
          then (case conn_poll_shutdown T c of
                  (c, Pending) \<Rightarrow> (d\<lparr>d_conn := c\<rparr>, Pending)
                | (c, Ready (Inl e)) \<Rightarrow> (d\<lparr>d_conn := c\<rparr>, Ready (Inl (new_shutdown e)))
                | (c, Ready (Inr _)) \<Rightarrow> disp_take_error (d\<lparr>d_conn := c\<rparr>) DShutdown)
          else disp_take_error (d\<lparr>d_conn := c\<rparr>) DShutdown)"

definition disp_poll_inner ::
  "('t, 'z) transport_ops_scheme \<Rightarrow> (nat \<Rightarrow> nat \<Rightarrow> nat) \<Rightarrow> ('m, 'c, 'y) h1_lib_scheme \<Rightarrow> ('w, 'm, 'b, 'e) h1_env_scheme \<Rightarrow> bool \<Rightarrow>
   ('w, 'm, 'b) h1_world \<Rightarrow> ('t, 'm, 'c, 'b) Dispatcher \<Rightarrow> ('w, 't, 'm, 'c, 'b, (core_error + Dispatched) poll) disp_result" where
  "disp_poll_inner T grow H E should_shutdown w d =
     (case disp_poll_loop 16 T grow H E w d of
        None \<Rightarrow> None
      | Some (w, d, Pending) \<Rightarrow> Some (w, d, Pending)
      | Some (w, d, Ready (Inl e)) \<Rightarrow> Some (w, d, Ready (Inl e))
      | Some (w, d, Ready (Inr _)) \<Rightarrow>
          if disp_is_done d
          then (case disp_finish T should_shutdown d of (d, r) \<Rightarrow> Some (w, d, r))
          else Some (w, d, Pending))"

definition disp_poll_catch ::
  "('t, 'z) transport_ops_scheme \<Rightarrow> (nat \<Rightarrow> nat \<Rightarrow> nat) \<Rightarrow> ('m, 'c, 'y) h1_lib_scheme \<Rightarrow> ('w, 'm, 'b, 'e) h1_env_scheme \<Rightarrow> bool \<Rightarrow>
   ('w, 'm, 'b) h1_world \<Rightarrow> ('t, 'm, 'c, 'b) Dispatcher \<Rightarrow> ('w, 't, 'm, 'c, 'b, (core_error + Dispatched) poll) disp_result" where
  "disp_poll_catch T grow H E should_shutdown w d =
     (case disp_poll_inner T grow H E should_shutdown w d of
        None \<Rightarrow> None
      | Some (w, d, Ready (Inl e)) \<Rightarrow>
          (let w = (case d_body_tx d of
                      Some body \<Rightarrow> w\<lparr>outside := sender_drop E (send_error E (outside w) body (new_body (CauseText ''connection error''))) body\<rparr>
                    | None \<Rightarrow> w)
           in map_option (\<lambda>(w, d, r). (w, d, Ready (case r of Inl e \<Rightarrow> Inl e | Inr _ \<Rightarrow> Inr DShutdown)))
                (disp_recv_msg E w (d\<lparr>d_body_tx := None\<rparr>) (Inl e)))
      | Some (w, d, r) \<Rightarrow> Some (w, d, r))"

text \<open>\<^verbatim>\<open>Future::poll\<close> of the dispatcher.\<close>

definition disp_poll ::
  "('t, 'z) transport_ops_scheme \<Rightarrow> (nat \<Rightarrow> nat \<Rightarrow> nat) \<Rightarrow> ('m, 'c, 'y) h1_lib_scheme \<Rightarrow> ('w, 'm, 'b, 'e) h1_env_scheme \<Rightarrow>
   ('w, 'm, 'b) h1_world \<Rightarrow> ('t, 'm, 'c, 'b) Dispatcher \<Rightarrow> ('w, 't, 'm, 'c, 'b, (core_error + Dispatched) poll) disp_result" where
  "disp_poll T grow H E w d = disp_poll_catch T grow H E True w d"

text \<open>Dropping the dispatcher, at the end of the task: the callback, the receiver and the sender of the body are dropped.\<close>

definition disp_drop ::
  "('w, 'm, 'b, 'e) h1_env_scheme \<Rightarrow> ('w, 'm, 'b) h1_world \<Rightarrow> ('t, 'm, 'c, 'b) Dispatcher \<Rightarrow> ('w, 'm, 'b) h1_world option" where
  "disp_drop E w d =
     (let w = (case callback (d_dispatch d) of Some cb \<Rightarrow> callback_drop (requests E) cb w | None \<Rightarrow> w)
      in map_option (\<lambda>w. case d_body_tx d of Some body \<Rightarrow> w\<lparr>outside := sender_drop E (outside w) body\<rparr> | None \<Rightarrow> w)
           (receiver_drop (requests E) w))"

section \<open>The protocol of exchanges\<close>

text \<open>What the task promises the senders of requests, as an automaton over its history: it is free, holds a request it has
  not started, or has written the head of one. A request is taken only when free; a response is only given for a request that
  was written; and the request is given back, to be tried again elsewhere, only while nothing of it was written.\<close>

datatype phase = Free | Held Callback | Sent Callback

fun exchange :: "phase \<Rightarrow> ('t, 'u) event \<Rightarrow> phase option" where
  "exchange Free (Took cb) = Some (Held cb)"
| "exchange (Held cb) WroteHead = Some (Sent cb)"
| "exchange (Held cb) (Answered cb' a) = (if cb' = cb \<and> isl a then Some Free else None)"
| "exchange (Sent cb) (Answered cb' a) =
     (if cb' = cb \<and> (case a of Inl e \<Rightarrow> tse_message e = None | Inr _ \<Rightarrow> True) then Some Free else None)"
| "exchange _ _ = None"

fun exchanges :: "phase \<Rightarrow> ('t, 'u) event list \<Rightarrow> phase option" where
  "exchanges p [] = Some p"
| "exchanges p (e # es) = (case exchange p e of None \<Rightarrow> None | Some p' \<Rightarrow> exchanges p' es)"

lemma exchanges_append:
  "exchanges p (es @ fs) = (case exchanges p es of None \<Rightarrow> None | Some p' \<Rightarrow> exchanges p' fs)"
  by (induction es arbitrary: p) (auto split: option.splits)

text \<open>The history of a world is right and has led to a phase; a callback that is held can still be used.\<close>

fun usable :: "phase \<Rightarrow> bool" where
  "usable Free = True"
| "usable (Held cb) = (cb_tx cb \<noteq> None)"
| "usable (Sent cb) = (cb_tx cb \<noteq> None)"

definition at_phase :: "('w, 't, 'u) world \<Rightarrow> phase \<Rightarrow> bool" where
  "at_phase w p \<longleftrightarrow> exchanges Free (history w) = Some p"

lemma at_phase_outside [simp]: "at_phase (w\<lparr>outside := x\<rparr>) p = at_phase w p"
  by (simp add: at_phase_def)

lemma at_phase_note: "at_phase w p \<Longrightarrow> exchange p e = Some p' \<Longrightarrow> at_phase (note_event e w) p'"
  by (simp add: at_phase_def note_event_def exchanges_append)

definition client_phase :: "h1_client \<Rightarrow> phase" where
  "client_phase cl = (case callback cl of None \<Rightarrow> Free | Some cb \<Rightarrow> Sent cb)"

lemma callback_send_sent:
  assumes "callback_send L w cb a = Some w'" and "at_phase w (Sent cb)" and "\<And>e. a = Inl e \<Longrightarrow> tse_message e = None"
  shows "at_phase w' Free"
  using assms by (cases a) (auto simp: callback_send_def answer_tx_def intro!: at_phase_note split: Callback.splits)

lemma callback_send_held:
  assumes "callback_send L w cb (Inl e) = Some w'" and "at_phase w (Held cb)"
  shows "at_phase w' Free"
  using assms by (auto simp: callback_send_def answer_tx_def intro!: at_phase_note split: Callback.splits)

lemma callback_drop_phase:
  assumes "at_phase w p" and "p = Held cb \<or> p = Sent cb" and "cb_tx cb \<noteq> None"
  shows "at_phase (callback_drop L cb w) Free"
  using assms by (auto simp: callback_drop_def answer_tx_def intro!: at_phase_note)

lemma poll_canceled_phase:
  assumes "poll_canceled L w cb = Some (w', r)"
  shows "at_phase w' p = at_phase w p \<and> cb_tx cb \<noteq> None"
proof (cases "cb_tx cb")
  case (Some k)
  with assms show ?thesis by (cases "promise_poll_closed L (outside w) k") (auto simp: poll_canceled_def)
qed (use assms in \<open>simp add: poll_canceled_def\<close>)

lemma open_envelope_phase:
  assumes "open_envelope env w = Some (w', val, cb)" and "at_phase w Free"
  shows "at_phase w' (Held cb)"
  using assms by (auto simp: open_envelope_def intro!: at_phase_note)

lemma poll_recv_phase:
  assumes "poll_recv L w = Some (w', r)" and "at_phase w Free"
  shows "at_phase w' (case r of Ready (Some (val, cb)) \<Rightarrow> Held cb | _ \<Rightarrow> Free)"
  using assms open_envelope_phase
  by (fastforce simp: poll_recv_def split: prod.splits poll.splits option.splits)

lemma try_recv_phase:
  assumes "try_recv L w = (w', r)" and "at_phase w Free"
  shows "at_phase w' (case r of Some (val, cb) \<Rightarrow> Held cb | None \<Rightarrow> Free)"
  using assms open_envelope_phase
  by (fastforce simp: try_recv_def split: prod.splits poll.splits option.splits)

lemma envelopes_drop_phase:
  assumes "envelopes_drop L envs w = Some w'" and "at_phase w Free"
  shows "at_phase w' Free"
  using assms
proof (induction L envs w rule: envelopes_drop.induct)
  case (2 L env envs w)
  then obtain w1 where w1: "envelope_drop L env w = Some w1" by (auto split: option.splits)
  then have "at_phase w1 Free"
    using 2(3) open_envelope_phase callback_send_held by (fastforce simp: envelope_drop_def split: option.splits)
  with 2 w1 show ?case by simp
qed simp

lemma client_poll_msg_phase:
  assumes "client_poll_msg E w cl = Some (w', cl', r)" and "at_phase w Free" and "callback cl = None"
  shows "case r of
           Ready (Some req) \<Rightarrow> (\<exists>cb. callback cl' = Some cb \<and> cb_tx cb \<noteq> None \<and> at_phase w' (Held cb))
         | _ \<Rightarrow> callback cl' = None \<and> at_phase w' Free"
proof -
  from assms(1) obtain w1 pr where p: "poll_recv (requests E) w = Some (w1, pr)"
    by (auto simp: client_poll_msg_def split: if_splits option.splits)
  note ph = poll_recv_phase [OF p assms(2)]
  show ?thesis
  proof (cases "\<exists>req cb. pr = Ready (Some (req, cb))")
    case True
    then obtain req cb where pr: "pr = Ready (Some (req, cb))" by blast
    from assms(1) obtain w2 cr where c: "poll_canceled (requests E) w1 cb = Some (w2, cr)"
      by (auto simp: client_poll_msg_def p pr split: if_splits option.splits)
    from poll_canceled_phase [OF c, of "Held cb"] ph have h: "at_phase w2 (Held cb)" "cb_tx cb \<noteq> None" by (simp_all add: pr)
    show ?thesis
      using assms(1,3) h callback_drop_phase [OF h(1), of cb "requests E"]
      by (cases cr) (auto simp: client_poll_msg_def p pr c split: if_splits)
  next
    case False
    then show ?thesis
      using assms(1,3) ph by (auto simp: client_poll_msg_def p split: if_splits poll.splits option.splits)
  qed
qed

lemma client_recv_msg_phase:
  assumes "client_recv_msg E w cl msg = Some (w', cl', r)" and "at_phase w (client_phase cl)"
  shows "at_phase w' Free" and "callback cl' = None"
proof -
  have "at_phase w' Free \<and> callback cl' = None"
  proof (cases "callback cl")
    case (Some cb)
    then have "at_phase w (Sent cb)" using assms(2) by (simp add: client_phase_def)
    with Some assms(1) show ?thesis
      by (auto simp: client_recv_msg_def dest: callback_send_sent split: sum.splits)
  next
    case None
    then have free: "at_phase w Free" using assms(2) by (simp add: client_phase_def)
    obtain w1 rr where t: "try_recv (requests E) (receiver_close (requests E) w) = (w1, rr)" by (rule prod.exhaust)
    from try_recv_phase [OF t] free have t1: "at_phase w1 (case rr of Some (val, cb) \<Rightarrow> Held cb | None \<Rightarrow> Free)"
      by (simp add: receiver_close_def)
    show ?thesis
      using None assms(1) free t1
      by (auto simp: client_recv_msg_def t dest!: callback_send_held split: sum.splits if_splits option.splits)
  qed
  then show "at_phase w' Free" and "callback cl' = None" by simp_all
qed

section \<open>The task keeps to the protocol and to the rules of the connection\<close>

subsection \<open>When the connection is inside a body\<close>

lemma can_read_body_in_body: "can_read_body c = in_body (s_reading (cst c))"
  by (simp add: can_read_body_def split: Reading.splits)

lemma may_close_in_body: "may_close s s' \<Longrightarrow> in_body (s_reading s') \<Longrightarrow> in_body (s_reading s)"
  by (auto simp: may_close_def)

lemma try_keep_alive_in_body:
  assumes "in_body (s_reading (cst (conn_try_keep_alive T grow c)))"
  shows "in_body (s_reading (cst c))"
  by (cases rule: conn_try_keep_alive_cases [of c T grow]) (use assms may_close_in_body in auto)

lemma write_head_reading:
  assumes "write_head grow H c head body = Some c'"
  shows "s_reading (cst c') = s_reading (cst c)"
proof -
  from write_head_state [OF assms] obtain s head1 where
    e: "enforce_version H (state_busy (cst c)) head = (s, head1)" and "s_reading (cst c') = s_reading s" by fastforce
  with enforce_version_state [OF e] show ?thesis by (auto simp: state_op_defs)
qed

lemma write_part_reading:
  "write_body grow c chunk = Some c' \<Longrightarrow> s_reading (cst c') = s_reading (cst c)"
  "write_trailers grow H c trailers = Some c' \<Longrightarrow> s_reading (cst c') = s_reading (cst c)"
  "write_body_and_end grow c chunk = Some c' \<Longrightarrow> s_reading (cst c') = s_reading (cst c)"
  "end_body grow c = Some (c', r) \<Longrightarrow> s_reading (cst c') = s_reading (cst c)"
  by (auto simp: write_body_def write_trailers_def write_body_and_end_def end_body_def set_writing_def
      dest!: conn_buffer_state split: if_splits Writing.splits option.splits sum.splits)

lemma conn_step_in_body:
  assumes "conn_step T grow H c c'" and "in_body (s_reading (cst c'))"
  shows "in_body (s_reading (cst c)) \<or> can_read_head c"
  using assms
proof (cases rule: conn_step.cases)
  case step_keep_alive
  with assms(2) show ?thesis using may_close_in_body [OF poll_read_keep_alive_may_close] by simp
next
  case (step_flush r)
  from conn_poll_flush_state [OF this] assms(2) try_keep_alive_in_body show ?thesis by fastforce
qed (auto simp: can_read_body_in_body write_head_reading write_part_reading conn_poll_shutdown_def close_read_def close_write_def
    state_op_defs wants_read_again_def take_error_def on_upgrade_def pending_upgrade_def split: option.splits prod.splits)

lemma poll_read_head_in_body:
  assumes "poll_read_head T grow H c = Some (c', r)" and "in_body (s_reading (cst c'))" and "can_read_head c"
  shows "\<exists>head len wants. r = Ready (Some (Inr (head, len, wants))) \<and> len \<noteq> ZERO"
proof -
  have "s_reading (cst c) = RInit" using assms(3) by (simp add: can_read_head_def)
  with assms(1,2) show ?thesis
    by (auto simp: poll_read_head_def head_parsed_def on_read_head_error_def Let_def state_op_defs
        dest!: try_keep_alive_in_body split: option.splits prod.splits poll.splits sum.splits if_splits)
qed

lemma poll_read_body_in_body:
  assumes "poll_read_body T grow H c = Some (c', r)" and "in_body (s_reading (cst c'))"
  shows "r \<noteq> Ready None" and "r \<noteq> Ready (Some (Inl e))"
  using assms
  by (auto simp: poll_read_body_def poll_read_body_with_def Let_def dest!: try_keep_alive_in_body
      split: Reading.splits option.splits prod.splits poll.splits sum.splits frame.splits if_splits)

lemma poll_drain_in_body:
  assumes "poll_drain_or_close_read T grow H c = Some c'"
  shows "\<not> in_body (s_reading (cst c'))"
proof -
  obtain c1 where "c' = (if s_reading (cst c1) \<in> {RInit, RKeepAlive} then c1 else close_read c1)"
    using assms by (auto simp: poll_drain_or_close_read_def Let_def)
  then show ?thesis by (cases "s_reading (cst c1) \<in> {RInit, RKeepAlive}") (auto simp: close_read_def state_op_defs)
qed

subsection \<open>The invariant\<close>

definition task_hist :: "('w, 'm, 'b) h1_world \<Rightarrow> ('t, 'm, 'c, 'b) Dispatcher \<Rightarrow> bool" where
  "task_hist w d \<longleftrightarrow> at_phase w (client_phase (d_dispatch d)) \<and> usable (client_phase (d_dispatch d))"

definition body_fed :: "('t, 'm, 'c, 'b) Dispatcher \<Rightarrow> bool" where
  "body_fed d \<longleftrightarrow> (in_body (s_reading (cst (d_conn d))) \<longrightarrow> d_body_tx d \<noteq> None)"

text \<open>From one state of the task to another: the invariant holds again, and the connection went through steps that its
  rules allow.\<close>

definition leads ::
  "('t, 'z) transport_ops_scheme \<Rightarrow> (nat \<Rightarrow> nat \<Rightarrow> nat) \<Rightarrow> ('m, 'c, 'y) h1_lib_scheme \<Rightarrow> ('t, 'm, 'c, 'b) Dispatcher \<Rightarrow>
   ('w, 'm, 'b) h1_world \<Rightarrow> ('t, 'm, 'c, 'b) Dispatcher \<Rightarrow> bool" where
  "leads T grow H d w' d' \<longleftrightarrow> task_hist w' d' \<and> body_fed d' \<and> (conn_step T grow H)\<^sup>*\<^sup>* (d_conn d) (d_conn d')"

lemma leads_trans: "leads T grow H d w1 d1 \<Longrightarrow> leads T grow H d1 w2 d2 \<Longrightarrow> leads T grow H d w2 d2"
  by (auto simp: leads_def)

lemma leads_then:
  assumes "leads T grow H d w1 d1" and "task_hist w1 d1 \<Longrightarrow> body_fed d1 \<Longrightarrow> leads T grow H d1 w2 d2"
  shows "leads T grow H d w2 d2"
  using assms leads_trans by (auto simp: leads_def)

lemma leads_refl: "task_hist w d \<Longrightarrow> body_fed d \<Longrightarrow> leads T grow H d w d"
  by (simp add: leads_def)

lemma leads_step:
  assumes "task_hist w d" and "body_fed d" and "\<not> can_read_head (d_conn d)" and "conn_step T grow H (d_conn d) c'"
    and "d_conn d' = c'" and "d_dispatch d' = d_dispatch d" and "d_body_tx d' = d_body_tx d"
    and "at_phase w' (client_phase (d_dispatch d))"
  shows "leads T grow H d w' d'"
  using assms conn_step_in_body [OF assms(4)] by (auto simp: leads_def task_hist_def body_fed_def)

lemma task_hist_update [simp]:
  "task_hist (w\<lparr>outside := x\<rparr>) d = task_hist w d" "task_hist w (d\<lparr>d_conn := c\<rparr>) = task_hist w d"
  "task_hist w (d\<lparr>d_body_tx := tx\<rparr>) = task_hist w d" "task_hist w (d\<lparr>d_body_rx := rx\<rparr>) = task_hist w d"
  "task_hist w (d\<lparr>d_is_closing := cg\<rparr>) = task_hist w d"
  by (simp_all add: task_hist_def)

lemma disp_close_leads:
  assumes "task_hist w d"
  shows "leads T grow H d w (disp_close d)"
proof -
  have "(conn_step T grow H)\<^sup>*\<^sup>* (d_conn d) (close_write (close_read (d_conn d)))"
    using step_close_read step_close_write by (blast intro: rtranclp.rtrancl_into_rtrancl)
  then show ?thesis using assms by (simp add: leads_def disp_close_def body_fed_def close_read_def close_write_def state_op_defs)
qed

lemma disp_recv_msg_hist:
  assumes "disp_recv_msg E w d msg = Some (w', d', r)" and "task_hist w d"
  shows "task_hist w' d'" and "d_conn d' = d_conn d" and "d_body_tx d' = d_body_tx d"
proof -
  obtain cl' where c: "client_recv_msg E w (d_dispatch d) msg = Some (w', cl', r)" and d': "d' = d\<lparr>d_dispatch := cl'\<rparr>"
    using assms(1) by (auto simp: disp_recv_msg_def)
  have "at_phase w (client_phase (d_dispatch d))" using assms(2) by (simp add: task_hist_def)
  from client_recv_msg_phase [OF c this] show "task_hist w' d'" by (simp add: task_hist_def client_phase_def d')
  show "d_conn d' = d_conn d" and "d_body_tx d' = d_body_tx d" by (simp_all add: d')
qed

subsection \<open>Reading\<close>

lemma disp_got_head_leads:
  assumes "disp_got_head E w d head len wants = Some (w', d', r)" and "task_hist w d"
    and "in_body (s_reading (cst (d_conn d))) \<Longrightarrow> len \<noteq> ZERO"
  shows "leads T grow H d w' d'"
proof -
  from assms(1) obtain tx rx o' where tx: "(if len = ZERO then tx = None else tx \<noteq> None)"
    and r: "map_option (\<lambda>(w, d, r). (w, d, Ready r)) (disp_recv_msg E (w\<lparr>outside := o'\<rparr>)
      (let d = (case tx of Some _ \<Rightarrow> d\<lparr>d_body_tx := tx\<rparr> | None \<Rightarrow> d)
       in if wants_contains wants wants_UPGRADE then d\<lparr>d_conn := on_upgrade (d_conn d)\<rparr> else d)
      (Inr \<lparr>res_head = head, res_body = rx, res_upgrade = wants_contains wants wants_UPGRADE\<rparr>)) = Some (w', d', r)"
  proof (cases "len = ZERO")
    case True
    with assms(1) show ?thesis by (intro that [of None "outside w" body_empty]) (auto simp: disp_got_head_def Let_def split: if_splits)
  next
    case False
    with assms(1) obtain tx rx o' where n: "new_channel E (outside w) len (wants_contains wants wants_EXPECT) = Some (tx, rx, o')"
      by (auto simp: disp_got_head_def split: option.splits)
    show ?thesis
      by (rule that [of "Some tx" o' rx]) (use assms(1) False n in \<open>auto simp: disp_got_head_def Let_def split: if_splits\<close>)
  qed
  define d1 where "d1 = (let d = (case tx of Some _ \<Rightarrow> d\<lparr>d_body_tx := tx\<rparr> | None \<Rightarrow> d)
       in if wants_contains wants wants_UPGRADE then d\<lparr>d_conn := on_upgrade (d_conn d)\<rparr> else d)"
  have d1: "task_hist (w\<lparr>outside := o'\<rparr>) d1" "len \<noteq> ZERO \<Longrightarrow> d_body_tx d1 \<noteq> None"
    "s_reading (cst (d_conn d1)) = s_reading (cst (d_conn d))" "(conn_step T grow H)\<^sup>*\<^sup>* (d_conn d) (d_conn d1)"
    using assms(2) tx step_upgrade [of T grow H "d_conn d"]
    by (auto simp: d1_def Let_def on_upgrade_def state_op_defs split: option.splits)
  from r obtain r' where "disp_recv_msg E (w\<lparr>outside := o'\<rparr>) d1
      (Inr \<lparr>res_head = head, res_body = rx, res_upgrade = wants_contains wants wants_UPGRADE\<rparr>) = Some (w', d', r')"
    by (auto simp: d1_def)
  from disp_recv_msg_hist [OF this d1(1)] d1 assms(3) show ?thesis by (auto simp: leads_def body_fed_def)
qed

lemma disp_read_head_leads:
  assumes "disp_read_head T grow H E w d = Some (w', d', r)" and "can_read_head (d_conn d)" and "task_hist w d"
  shows "leads T grow H d w' d'"
proof -
  from assms(1) obtain w1 ready where p: "client_poll_ready E w (d_dispatch d) = Some (w1, ready)"
    by (auto simp: disp_read_head_def split: option.splits)
  then have h1: "task_hist w1 d"
    using assms(3) by (auto simp: client_poll_ready_def task_hist_def dest: poll_canceled_phase split: option.splits)
  show ?thesis
  proof (cases ready)
    case False
    with assms(1) p disp_close_leads [OF h1] show ?thesis by (simp add: disp_read_head_def)
  next
    case True
    with assms(1) p obtain c res where c: "poll_read_head T grow H (d_conn d) = Some (c, res)"
      by (auto simp: disp_read_head_def split: option.splits)
    define d1 where "d1 = d\<lparr>d_conn := c\<rparr>"
    have st: "(conn_step T grow H)\<^sup>*\<^sup>* (d_conn d) (d_conn d1)"
      using step_read_head [OF assms(2) c] by (auto simp: d1_def)
    have on: "leads T grow H d w2 d2" if "leads T grow H d1 w2 d2" for w2 d2
      using that st by (auto simp: leads_def)
    have h2: "task_hist w1 d1" using h1 by (simp add: d1_def)
    have fed: "body_fed d1" if "\<not> (\<exists>head len wants. res = Ready (Some (Inr (head, len, wants))))"
      using poll_read_head_in_body [OF c _ assms(2)] that by (auto simp: body_fed_def d1_def)
    consider (pend) "res = Pending" | (eof) "res = Ready None" | (err) e where "res = Ready (Some (Inl e))"
      | (head) head len wants where "res = Ready (Some (Inr (head, len, wants)))"
      by (metis old.sum.exhaust option.exhaust poll.exhaust prod_cases3)
    then show ?thesis
    proof cases
      case pend
      with assms(1) have "w' = w1" "d' = d1" by (simp_all add: disp_read_head_def p True c d1_def)
      with pend on leads_refl [OF h2 fed] show ?thesis by blast
    next
      case eof
      with assms(1) have "w' = w1" "d' = d1 \<or> d' = disp_close d1"
        by (auto simp: disp_read_head_def p True c d1_def Let_def)
      with eof on leads_refl [OF h2 fed] disp_close_leads [OF h2] show ?thesis by blast
    next
      case err
      then obtain w2 d2 rr where rm: "disp_recv_msg E w1 d1 (Inl e) = Some (w2, d2, rr)"
        and out: "w' = w2" "d' = d2 \<or> d' = disp_close d2"
        using assms(1) by (auto simp: disp_read_head_def p True c d1_def split: option.splits sum.splits)
      note h3 = disp_recv_msg_hist [OF rm h2]
      have "leads T grow H d1 w2 d2" using h3 fed err by (simp add: leads_def body_fed_def)
      then have "leads T grow H d1 w2 (disp_close d2)" using disp_close_leads [OF h3(1)] leads_trans by blast
      with \<open>leads T grow H d1 w2 d2\<close> out on show ?thesis by auto
    next
      case head
      then have "disp_got_head E w1 d1 head len wants = Some (w', d', r)"
        using assms(1) by (simp add: disp_read_head_def p True c d1_def)
      moreover have "len \<noteq> ZERO" if "in_body (s_reading (cst (d_conn d1)))"
        using poll_read_head_in_body [OF c _ assms(2)] that head by (auto simp: d1_def)
      ultimately show ?thesis using on disp_got_head_leads h2 by blast
    qed
  qed
qed

lemma disp_body_dropped_leads:
  assumes "disp_body_dropped E w d body = (w', d')" and "task_hist w d"
  shows "leads T grow H d w' d'"
proof (cases "can_read_body (d_conn d)")
  case True
  with assms step_close_read [of T grow H "d_conn d"] show ?thesis
    by (auto simp: disp_body_dropped_def leads_def body_fed_def close_read_def state_op_defs)
qed (use assms in \<open>auto simp: disp_body_dropped_def leads_def body_fed_def can_read_body_in_body\<close>)

lemma disp_read_body_leads:
  assumes "disp_read_body T grow H E w d body = Some (w', d', again)" and "can_read_body (d_conn d)" and "task_hist w d"
  shows "leads T grow H d w' d'"
proof -
  from assms(1) obtain o' pr where s: "sender_poll_ready E (outside w) body = Some (o', pr)"
    by (auto simp: disp_read_body_def split: option.splits)
  consider (pend) "pr = Pending" | (gone) e where "pr = Ready (Inl e)" | (ready) "pr = Ready (Inr ())"
    by (metis (full_types) old.sum.exhaust old.unit.exhaust poll.exhaust)
  then show ?thesis
  proof cases
    case pend
    then show ?thesis using assms(1,3) by (auto simp: disp_read_body_def s leads_def body_fed_def)
  next
    case gone
    with assms(1) obtain c where c: "poll_drain_or_close_read T grow H (d_conn d) = Some c" "d' = d\<lparr>d_conn := c\<rparr>"
      "\<exists>x. w' = w\<lparr>outside := x\<rparr>"
      by (auto simp: disp_read_body_def s)
    with step_drain [OF assms(2) c(1)] poll_drain_in_body [OF c(1)] assms(3) show ?thesis by (auto simp: leads_def body_fed_def)
  next
    case ready
    with assms(1) obtain c res where c: "poll_read_body T grow H (d_conn d) = Some (c, res)"
      by (auto simp: disp_read_body_def s Let_def split: option.splits)
    define d1 where "d1 = d\<lparr>d_conn := c\<rparr>"
    have on: "leads T grow H d w2 d2" if "leads T grow H d1 w2 d2" for w2 d2
      using that converse_rtranclp_into_rtranclp [where r = "conn_step T grow H", OF step_read_body [OF assms(2) c]]
      by (simp add: leads_def d1_def)
    have kept: "leads T grow H d1 (w\<lparr>outside := x\<rparr>) (d1\<lparr>d_body_tx := Some b\<rparr>)" for x b
      using assms(3) by (simp add: leads_def body_fed_def d1_def)
    have dropped: "leads T grow H d1 (w\<lparr>outside := x\<rparr>) d1" if "res = Ready None \<or> (\<exists>e. res = Ready (Some (Inl e)))" for x
      using poll_read_body_in_body [OF c] that assms(3) by (auto simp: leads_def body_fed_def d1_def)
    have lost: "leads T grow H d1 w2 d2" if "disp_body_dropped E (w\<lparr>outside := x\<rparr>) d1 b = (w2, d2)" for x b w2 d2
      using disp_body_dropped_leads [OF that] assms(3) by (simp add: d1_def)
    consider (again) x b where "w' = w\<lparr>outside := x\<rparr>" "d' = d1\<lparr>d_body_tx := Some b\<rparr>"
      | (closed) x b where "disp_body_dropped E (w\<lparr>outside := x\<rparr>) d1 b = (w', d')"
      | (over) x where "w' = w\<lparr>outside := x\<rparr>" "d' = d1" "res = Ready None \<or> (\<exists>e. res = Ready (Some (Inl e)))"
      using assms(1) ready
      by (auto simp: disp_read_body_def s c Let_def d1_def
          split: poll.splits option.splits sum.splits frame.splits prod.splits)
    then show ?thesis using on kept dropped lost by cases blast+
  qed
qed

lemma disp_read_round_leads:
  assumes "disp_read_round T grow H E (w, d) = Some ((w', d'), r)" and "task_hist w d" and "body_fed d"
  shows "leads T grow H d w' d'"
proof (cases "d_is_closing d \<or> can_read_head (d_conn d)")
  case True
  then show ?thesis
    using assms leads_refl [OF assms(2,3)] disp_read_head_leads [OF _ _ assms(2)]
    by (auto simp: disp_read_round_def split: if_splits option.splits poll.splits sum.splits)
next
  case False
  show ?thesis
  proof (cases "d_body_tx d")
    case None
    then have c: "\<not> can_read_body (d_conn d)" using assms(3) by (simp add: body_fed_def can_read_body_in_body)
    obtain c' kr where k: "poll_read_keep_alive T grow (d_conn d) = (c', kr)" by (rule prod.exhaust)
    with step_keep_alive [OF _ c, of T grow H] False have "conn_step T grow H (d_conn d) c'" by simp
    moreover have "w' = w" "d' = d\<lparr>d_conn := c'\<rparr>" using assms(1) False None k by (simp_all add: disp_read_round_def)
    ultimately show ?thesis using False assms(2) by (intro leads_step [OF assms(2,3)]) (simp_all add: task_hist_def)
  next
    case (Some body)
    show ?thesis
    proof (cases "can_read_body (d_conn d)")
      case True
      with assms(1) False Some obtain again where "disp_read_body T grow H E w (d\<lparr>d_body_tx := None\<rparr>) body = Some (w', d', again)"
        by (auto simp: disp_read_round_def)
      from disp_read_body_leads [OF this] True assms(2) show ?thesis by (simp add: leads_def)
    next
      case no: False
      with assms False Some show ?thesis
        by (auto simp: disp_read_round_def leads_def body_fed_def can_read_body_in_body)
    qed
  qed
qed

text \<open>A loop whose rounds lead somewhere leads there.\<close>

lemma run_loop_leads:
  fixes d :: "('t, 'm, 'c, 'b) Dispatcher" and w :: "('w, 'm, 'b) h1_world"
  assumes "run_loop round (w, d) = Some ((w', d'), r)" and "task_hist w d" and "body_fed d"
    and "\<And>w d w' d' r. round (w, d) = Some ((w', d'), r) \<Longrightarrow> task_hist w d \<Longrightarrow> body_fed d \<Longrightarrow> leads T grow H d w' d'"
  shows "leads T grow H d w' d'"
proof -
  have "leads T grow H d (fst (w', d')) (snd (w', d'))"
  proof (rule run_loop_invariant [where I = "\<lambda>s. leads T grow H d (fst s) (snd s)", OF assms(1)])
    show "leads T grow H d (fst (w, d)) (snd (w, d))" using leads_refl [OF assms(2,3)] by simp
  next
    fix s s' :: "('w, 'm, 'b) h1_world \<times> ('t, 'm, 'c, 'b) Dispatcher" and r
    assume l: "leads T grow H d (fst s) (snd s)" and "round s = Some (s', r)"
    then have "leads T grow H (snd s) (fst s') (snd s')"
      using assms(4) [of "fst s" "snd s" "fst s'" "snd s'" r] by (simp add: leads_def)
    with l show "leads T grow H d (fst s') (snd s')" by (rule leads_trans)
  qed
  then show ?thesis by simp
qed

lemma disp_poll_read_leads:
  assumes "disp_poll_read T grow H E w d = Some (w', d', r)" and "task_hist w d" and "body_fed d"
  shows "leads T grow H d w' d'"
proof -
  have "run_loop (disp_read_round T grow H E) (w, d) = Some ((w', d'), r)"
    using assms(1) by (auto simp: disp_poll_read_def)
  then show ?thesis using assms(2,3) disp_read_round_leads by (rule run_loop_leads)
qed

subsection \<open>Writing\<close>

text \<open>Chunks of a request body fit in memory: their length is a \<^verbatim>\<open>usize\<close>.\<close>

definition chunks_fit :: "('w, 'm, 'b, 'e) h1_env_scheme \<Rightarrow> bool" where
  "chunks_fit E \<longleftrightarrow> (\<forall>x b x' b' chunk. user_poll_frame E x b = (x', b', Ready (Some (Inr (Data chunk)))) \<longrightarrow> length chunk < 2 ^ 64)"

lemma not_reading_head: "can_write_head c \<Longrightarrow> \<not> can_read_head c"
  by (simp add: can_read_head_def can_write_head_def)

text \<open>A step of the connection that does not read.\<close>

lemma leads_write:
  assumes "task_hist w d" and "body_fed d" and "conn_step T grow H (d_conn d) c'"
    and "in_body (s_reading (cst c')) \<Longrightarrow> in_body (s_reading (cst (d_conn d)))"
    and "d_conn d' = c'" and "d_dispatch d' = d_dispatch d" and "d_body_tx d' = d_body_tx d" and "history w' = history w"
  shows "leads T grow H d w' d'"
  using assms by (auto simp: leads_def task_hist_def body_fed_def at_phase_def)

lemma disp_poll_flush_leads:
  assumes "disp_poll_flush T grow d = Some (d', r)" and "task_hist w d" and "body_fed d"
  shows "leads T grow H d w d'"
proof -
  obtain c fr where c: "conn_poll_flush T grow (d_conn d) = Some (c, fr)" "d' = d\<lparr>d_conn := c\<rparr>"
    using assms(1) by (auto simp: disp_poll_flush_def)
  have "in_body (s_reading (cst (d_conn d)))" if "in_body (s_reading (cst c))"
    using conn_poll_flush_state [OF c(1)] that try_keep_alive_in_body by fastforce
  then show ?thesis unfolding c(2) by (intro leads_write [OF assms(2,3) step_flush [OF c(1)]]) simp_all
qed

lemma disp_end_body_leads:
  assumes "disp_end_body grow w d = Some (w', d', r)" and "can_write_body (d_conn d)" and "task_hist w d" and "body_fed d"
  shows "leads T grow H d w' d'"
proof -
  obtain c er where c: "end_body grow (d_conn d) = Some (c, er)" "d' = d\<lparr>d_conn := c\<rparr>" "w' = w"
    using assms(1) by (auto simp: disp_end_body_def)
  show ?thesis unfolding c(2,3)
    by (rule leads_write [OF assms(3,4) step_end_body [OF assms(2) c(1)]]) (simp_all add: write_part_reading(4) [OF c(1)])
qed

lemma disp_write_body_leads:
  assumes "disp_write_body grow H E w d = Some (w', d', r)" and "can_buffer_body (d_conn d)" and "chunks_fit E"
    and "task_hist w d" and "body_fed d"
  shows "leads T grow H d w' d'"
proof -
  have same: "leads T grow H d (w\<lparr>outside := x\<rparr>) (d\<lparr>d_body_rx := b\<rparr>)" "leads T grow H d w (d\<lparr>d_body_rx := b\<rparr>)" "leads T grow H d w d" for x b
    using assms(4,5) by (simp_all add: leads_def body_fed_def)
  have ended: "leads T grow H d w' d'" if "disp_end_body grow (w\<lparr>outside := x\<rparr>) (d\<lparr>d_body_rx := b\<rparr>) = Some (w', d', r)" "can_write_body (d_conn d)" for x b
    using disp_end_body_leads [OF that(1), of T H] that(2) assms(4,5) by (simp add: leads_def body_fed_def)
  have step: "leads T grow H d (w\<lparr>outside := x\<rparr>) (d\<lparr>d_body_rx := b, d_conn := c\<rparr>)"
    if "conn_step T grow H (d_conn d) c" "s_reading (cst c) = s_reading (cst (d_conn d))" for x b c
    by (rule leads_write [OF assms(4,5) that(1)]) (simp_all add: that(2))
  show ?thesis
  proof (cases "d_body_rx d")
    case None
    with assms(1) same disp_end_body_leads [OF _ _ assms(4,5)] show ?thesis by (auto simp: disp_write_body_def split: if_splits)
  next
    case (Some body)
    obtain x body' item where u: "user_poll_frame E (outside w) body = (x, body', item)" by (rule prod_cases3)
    show ?thesis
    proof (cases "can_write_body (d_conn d)")
      case False
      with assms(1) Some same show ?thesis by (auto simp: disp_write_body_def)
    next
      case cwb: True
      consider (pend) "item = Pending" | (fin) "item = Ready None" | (err) e where "item = Ready (Some (Inl e))"
        | (data) chunk where "item = Ready (Some (Inr (Data chunk)))" | (trailers) m where "item = Ready (Some (Inr (Trailers m)))"
        by (metis old.sum.exhaust option.exhaust poll.exhaust frame.exhaust)
      then show ?thesis
      proof cases
        case data
        then have len: "length chunk < 2 ^ 64" using assms(3) u by (auto simp: chunks_fit_def)
        show ?thesis
          using assms(1) same ended cwb
            step [OF step_write_body [OF cwb assms(2) _ len] write_part_reading(1)]
            step [OF step_write_body_and_end [OF cwb assms(2) _ len] write_part_reading(3)]
          by (auto simp: disp_write_body_def Some cwb u data Let_def split: if_splits)
      next
        case trailers
        then show ?thesis
          using assms(1) step [OF step_write_trailers [OF cwb assms(2)] write_part_reading(2)]
          by (auto simp: disp_write_body_def Some cwb u Let_def)
      qed (use assms(1) same ended cwb in \<open>auto simp: disp_write_body_def Some u Let_def\<close>)
    qed
  qed
qed

lemma disp_start_request_leads:
  assumes "disp_start_request grow H E w d req = Some (w', d')" and "can_write_head (d_conn d)"
    and "callback (d_dispatch d) = Some cb" and "cb_tx cb \<noteq> None" and "at_phase w (Held cb)" and "body_fed d"
  shows "leads T grow H d w' d'"
proof -
  obtain c bt rx where c: "write_head grow H (d_conn d) (req_head req) bt = Some c" "d' = d\<lparr>d_conn := c, d_body_rx := rx\<rparr>"
    "w' = note_event WroteHead w"
    using assms(1) by (auto simp: disp_start_request_def Let_def)
  have "at_phase w' (Sent cb)" unfolding c(3) by (rule at_phase_note [OF assms(5)]) simp
  with step_write_head [OF assms(2) c(1), of T] write_head_reading [OF c(1)] c(2) assms(3,4,6) show ?thesis
    by (auto simp: leads_def task_hist_def client_phase_def body_fed_def)
qed

lemma disp_write_round_leads:
  assumes "disp_write_round T grow H E (w, d) = Some ((w', d'), r)" and "chunks_fit E" and "task_hist w d" and "body_fed d"
  shows "leads T grow H d w' d'"
proof -
  let ?take = "d_body_rx d = None \<and> can_write_head (d_conn d) \<and> should_poll (d_dispatch d)"
  consider (closing) "d_is_closing d" | (take) "\<not> d_is_closing d" ?take
    | (flush) "\<not> d_is_closing d" "\<not> ?take" "\<not> can_buffer_body (d_conn d)"
    | (body) "\<not> d_is_closing d" "\<not> ?take" "can_buffer_body (d_conn d)" by blast
  then show ?thesis
  proof cases
    case closing
    with assms(1) leads_refl [OF assms(3,4)] show ?thesis by (auto simp: disp_write_round_def)
  next
    case take
    then have free: "callback (d_dispatch d) = None" "at_phase w Free"
      using assms(3) by (simp_all add: should_poll_def task_hist_def client_phase_def)
    from assms(1) take obtain w1 cl res where p: "client_poll_msg E w (d_dispatch d) = Some (w1, cl, res)"
      by (auto simp: disp_write_round_def split: option.splits)
    note ph = client_poll_msg_phase [OF p free(2,1)]
    have idle: "leads T grow H d w1 (d\<lparr>d_dispatch := cl\<rparr>)" if "callback cl = None" "at_phase w1 Free"
      using that assms(4) by (simp add: leads_def task_hist_def client_phase_def body_fed_def)
    consider (pend) "res = Pending" | (over) "res = Ready None" | (msg) req where "res = Ready (Some req)"
      by (metis option.exhaust poll.exhaust)
    then show ?thesis
    proof cases
      case pend
      with assms(1) take ph idle show ?thesis by (auto simp: disp_write_round_def p)
    next
      case over
      with ph idle have i: "leads T grow H d w1 (d\<lparr>d_dispatch := cl\<rparr>)" by simp
      then have "task_hist w1 (d\<lparr>d_dispatch := cl\<rparr>)" by (simp add: leads_def)
      with i disp_close_leads leads_trans have "leads T grow H d w1 (disp_close (d\<lparr>d_dispatch := cl\<rparr>))" by blast
      with assms(1) take over show ?thesis by (auto simp: disp_write_round_def p)
    next
      case msg
      with assms(1) take have st: "disp_start_request grow H E w1 (d\<lparr>d_dispatch := cl\<rparr>) req = Some (w', d')"
        by (auto simp: disp_write_round_def p)
      from ph msg obtain cb where "callback cl = Some cb" "cb_tx cb \<noteq> None" "at_phase w1 (Held cb)" by auto
      with disp_start_request_leads [OF st, of cb T] take assms(4) show ?thesis by (simp add: leads_def body_fed_def)
    qed
  next
    case flush
    with assms(1) show ?thesis
      using disp_poll_flush_leads [OF _ assms(3,4)]
      by (auto simp: disp_write_round_def split: option.splits poll.splits sum.splits)
  next
    case body
    with assms(1) have "disp_write_body grow H E w d = Some (w', d', r)" by (auto simp: disp_write_round_def)
    from disp_write_body_leads [OF this body(3) assms(2-4)] show ?thesis .
  qed
qed

lemma disp_poll_write_leads:
  assumes "disp_poll_write T grow H E w d = Some (w', d', r)" and "chunks_fit E" and "task_hist w d" and "body_fed d"
  shows "leads T grow H d w' d'"
proof -
  have "run_loop (disp_write_round T grow H E) (w, d) = Some ((w', d'), r)"
    using assms(1) by (auto simp: disp_poll_write_def)
  then show ?thesis using assms(3,4)
    by (rule run_loop_leads) (rule disp_write_round_leads [OF _ assms(2)])
qed

subsection \<open>A poll of the task\<close>

lemma wants_read_again_leads:
  assumes "wants_read_again (d_conn d) = (c, again)" and "task_hist w d" and "body_fed d"
  shows "leads T grow H d w (d\<lparr>d_conn := c\<rparr>)"
  using step_read_again [of T grow H "d_conn d"] assms
  by (intro leads_write [OF assms(2,3)]) (auto simp: wants_read_again_def)

lemma disp_poll_loop_leads:
  assumes "disp_poll_loop n T grow H E w d = Some (w', d', r)" and "chunks_fit E" and "task_hist w d" and "body_fed d"
  shows "leads T grow H d w' d'"
  using assms
proof (induction n arbitrary: w d)
  case (Suc n)
  from Suc.prems(1) obtain w1 d1 r1 where p1: "disp_poll_read T grow H E w d = Some (w1, d1, r1)"
    by (auto split: option.splits)
  note l1 = disp_poll_read_leads [OF p1 Suc.prems(3,4)]
  show ?case
  proof (cases "\<exists>e. r1 = Ready (Inl e)")
    case True
    with Suc.prems(1) p1 l1 show ?thesis by auto
  next
    case False
    from Suc.prems(1) p1 False obtain w2 d2 r2 where p2: "disp_poll_write T grow H E w1 d1 = Some (w2, d2, r2)"
      by (auto split: option.splits poll.splits sum.splits)
    have l2: "leads T grow H d w2 d2"
      using l1 disp_poll_write_leads [OF p2 Suc.prems(2)] by (rule leads_then)
    show ?thesis
    proof (cases "\<exists>e. r2 = Ready (Inl e)")
      case True
      with Suc.prems(1) p1 False p2 l2 show ?thesis by (auto split: poll.splits sum.splits)
    next
      case False2: False
      from Suc.prems(1) p1 False p2 False2 obtain d3 r3 where p3: "disp_poll_flush T grow d2 = Some (d3, r3)"
        by (auto split: option.splits poll.splits sum.splits)
      have l3: "leads T grow H d w2 d3"
        using l2 disp_poll_flush_leads [OF p3] by (rule leads_then)
      obtain c again where c: "wants_read_again (d_conn d3) = (c, again)" by (rule prod.exhaust)
      have l4: "leads T grow H d w2 (d3\<lparr>d_conn := c\<rparr>)"
        using l3 wants_read_again_leads [OF c] by (rule leads_then)
      show ?thesis
      proof (cases "\<exists>e. r3 = Ready (Inl e) \<or> \<not> again")
        case True
        with Suc.prems(1) p1 False p2 False2 p3 c l3 l4 show ?thesis by (auto split: poll.splits sum.splits)
      next
        case go: False
        with Suc.prems(1) p1 False p2 False2 p3 c have "disp_poll_loop n T grow H E w2 (d3\<lparr>d_conn := c\<rparr>) = Some (w', d', r)"
          by (auto split: poll.splits sum.splits)
        from l4 Suc.IH [OF this Suc.prems(2)] show ?thesis by (rule leads_then)
      qed
    qed
  qed
qed (auto simp: leads_refl)

lemma disp_take_error_leads:
  assumes "disp_take_error d res = (d', r)" and "task_hist w d" and "body_fed d"
  shows "leads T grow H d w d'"
proof -
  have "d' = d\<lparr>d_conn := fst (take_error (d_conn d))\<rparr>"
    using assms(1) by (auto simp: disp_take_error_def split: prod.splits sum.splits)
  then show ?thesis using step_take_error [of T grow H "d_conn d"]
    by (intro leads_write [OF assms(2,3)]) (auto simp: take_error_def split: option.splits)
qed

lemma disp_finish_leads:
  assumes "disp_finish T sh d = (d', r)" and "task_hist w d" and "body_fed d"
  shows "leads T grow H d w d'"
proof -
  obtain c1 up where c1: "pending_upgrade (d_conn d) = (c1, up)" by (rule prod.exhaust)
  obtain c2 sr where c2: "conn_poll_shutdown T c1 = (c2, sr)" by (rule prod.exhaust)
  have l1: "leads T grow H d w (d\<lparr>d_conn := c1\<rparr>)"
    using step_take_upgrade [of T grow H "d_conn d"] c1
    by (intro leads_write [OF assms(2,3)]) (auto simp: pending_upgrade_def)
  then have "task_hist w (d\<lparr>d_conn := c1\<rparr>)" "body_fed (d\<lparr>d_conn := c1\<rparr>)" by (simp_all add: leads_def)
  then have "leads T grow H (d\<lparr>d_conn := c1\<rparr>) w (d\<lparr>d_conn := c2\<rparr>)"
    using step_shutdown [of T grow H c1] c2
    by (intro leads_write) (auto simp: conn_poll_shutdown_def split: prod.splits)
  with l1 have l2: "leads T grow H d w (d\<lparr>d_conn := c2\<rparr>)" by (rule leads_trans)
  have after: "leads T grow H d w d'" if "disp_take_error (d\<lparr>d_conn := c\<rparr>) res = (d', r)" "leads T grow H d w (d\<lparr>d_conn := c\<rparr>)" for c res
    using that(2) disp_take_error_leads [OF that(1)] by (rule leads_then)
  show ?thesis
    using assms(1) l1 l2 after by (auto simp: disp_finish_def c1 c2 split: bool.splits if_splits poll.splits sum.splits)
qed

lemma disp_poll_inner_leads:
  assumes "disp_poll_inner T grow H E sh w d = Some (w', d', r)" and "chunks_fit E" and "task_hist w d" and "body_fed d"
  shows "leads T grow H d w' d'"
proof -
  from assms(1) obtain w1 d1 r1 where p: "disp_poll_loop 16 T grow H E w d = Some (w1, d1, r1)"
    by (cases "disp_poll_loop 16 T grow H E w d") (auto simp: disp_poll_inner_def)
  note l1 = disp_poll_loop_leads [OF p assms(2-4)]
  have fin: "leads T grow H d w1 d2" if "disp_finish T sh d1 = (d2, r2)" for d2 r2
    using l1 disp_finish_leads [OF that] by (rule leads_then)
  show ?thesis
    using assms(1) l1 fin by (auto simp: disp_poll_inner_def p split: poll.splits sum.splits if_splits prod.splits)
qed

text \<open>A poll: the history stays right, the connection goes through allowed steps, and unless the task is over a body
  that is being read has its sender.\<close>

lemma disp_poll_leads:
  assumes "disp_poll T grow H E w d = Some (w', d', r)" and "chunks_fit E" and "task_hist w d" and "body_fed d"
  shows "task_hist w' d'" and "(conn_step T grow H)\<^sup>*\<^sup>* (d_conn d) (d_conn d')" and "r = Pending \<Longrightarrow> body_fed d'"
proof -
  from assms(1) obtain w1 d1 r1 where p: "disp_poll_inner T grow H E True w d = Some (w1, d1, r1)"
    by (auto simp: disp_poll_def disp_poll_catch_def split: option.splits)
  note l1 = disp_poll_inner_leads [OF p assms(2-4)]
  have "task_hist w' d' \<and> (conn_step T grow H)\<^sup>*\<^sup>* (d_conn d) (d_conn d') \<and> (r = Pending \<longrightarrow> body_fed d')"
  proof (cases "\<exists>e. r1 = Ready (Inl e)")
    case False
    with assms(1) p l1 show ?thesis by (auto simp: disp_poll_def disp_poll_catch_def leads_def split: poll.splits sum.splits)
  next
    case True
    then obtain e where e: "r1 = Ready (Inl e)" by blast
    from assms(1) p e obtain x rr where m: "disp_recv_msg E (w1\<lparr>outside := x\<rparr>) (d1\<lparr>d_body_tx := None\<rparr>) (Inl e) = Some (w', d', rr)"
      and r: "r \<noteq> Pending"
      by (cases "d_body_tx d1") (auto simp: disp_poll_def disp_poll_catch_def Let_def, metis world.update_convs(1) world.surjective)
    from l1 have "task_hist (w1\<lparr>outside := x\<rparr>) (d1\<lparr>d_body_tx := None\<rparr>)" by (simp add: leads_def)
    from disp_recv_msg_hist [OF m this] r l1 show ?thesis by (simp add: leads_def)
  qed
  then show "task_hist w' d'" and "(conn_step T grow H)\<^sup>*\<^sup>* (d_conn d) (d_conn d')" and "r = Pending \<Longrightarrow> body_fed d'" by auto
qed

lemma disp_drop_free:
  assumes "disp_drop E w d = Some w'" and "task_hist w d"
  shows "at_phase w' Free"
proof -
  define w1 where "w1 = (case callback (d_dispatch d) of Some cb \<Rightarrow> callback_drop (requests E) cb w | None \<Rightarrow> w)"
  have "at_phase w1 Free"
  proof (cases "callback (d_dispatch d)")
    case (Some cb)
    with assms(2) have "at_phase w (Sent cb)" "cb_tx cb \<noteq> None" by (simp_all add: task_hist_def client_phase_def)
    then show ?thesis using callback_drop_phase Some by (fastforce simp: w1_def)
  qed (use assms(2) in \<open>simp add: w1_def task_hist_def client_phase_def\<close>)
  moreover obtain w2 where r: "receiver_drop (requests E) w1 = Some w2" and w': "\<exists>x. w' = w2\<lparr>outside := x\<rparr> \<or> w' = w2"
    using assms(1) by (auto simp: disp_drop_def w1_def [symmetric] Let_def split: option.splits)
  ultimately have "at_phase w2 Free"
    by (auto simp: receiver_drop_def split: prod.splits intro: envelopes_drop_phase)
  with w' show ?thesis by auto
qed

section \<open>The life of a task\<close>

text \<open>A task starts on a connection with nothing in its history, is polled while it is pending, the world changing
  in any way between the polls, and is dropped in the end, finished or not.\<close>

inductive task_run ::
  "('t, 'z) transport_ops_scheme \<Rightarrow> (nat \<Rightarrow> nat \<Rightarrow> nat) \<Rightarrow> ('m, 'c, 'y) h1_lib_scheme \<Rightarrow> ('w, 'm, 'b, 'e) h1_env_scheme \<Rightarrow>
   ('t, 'm, 'c) Conn \<Rightarrow> ('w, 'm, 'b) h1_world \<Rightarrow> ('t, 'm, 'c, 'b) Dispatcher option \<Rightarrow> bool"
  for T :: "('t, 'z) transport_ops_scheme" and grow and H :: "('m, 'c, 'y) h1_lib_scheme" and E :: "('w, 'm, 'b, 'e) h1_env_scheme" and c where
  run_start: "history w = [] \<Longrightarrow> task_run T grow H E c w (Some (dispatcher_new c))"
| run_outside: "task_run T grow H E c w st \<Longrightarrow> task_run T grow H E c (w\<lparr>outside := x\<rparr>) st"
| run_pending: "task_run T grow H E c w (Some d) \<Longrightarrow> disp_poll T grow H E w d = Some (w', d', Pending) \<Longrightarrow>
    task_run T grow H E c w' (Some d')"
| run_ready: "task_run T grow H E c w (Some d) \<Longrightarrow> disp_poll T grow H E w d = Some (w', d', Ready r) \<Longrightarrow>
    disp_drop E w' d' = Some w'' \<Longrightarrow> task_run T grow H E c w'' None"
| run_dropped: "task_run T grow H E c w (Some d) \<Longrightarrow> disp_drop E w d = Some w' \<Longrightarrow> task_run T grow H E c w' None"

lemma task_run_inv:
  assumes "task_run T grow H E c w st" and "chunks_fit E" and "\<not> in_body (s_reading (cst c))"
  shows "case st of None \<Rightarrow> at_phase w Free
         | Some d \<Rightarrow> task_hist w d \<and> body_fed d \<and> (conn_step T grow H)\<^sup>*\<^sup>* c (d_conn d)"
  using assms
proof induction
  case (run_start w)
  then show ?case
    by (simp add: task_hist_def dispatcher_new_def client_new_def client_phase_def at_phase_def body_fed_def)
next
  case (run_outside w st x)
  then show ?case by (simp split: option.splits)
next
  case (run_pending w d w' d')
  then have "task_hist w d" "body_fed d" "(conn_step T grow H)\<^sup>*\<^sup>* c (d_conn d)" by simp_all
  with disp_poll_leads [OF run_pending.hyps(2) run_pending.prems(1)] show ?case by simp
next
  case (run_ready w d w' d' r w'')
  then have "task_hist w d" "body_fed d" by simp_all
  with disp_poll_leads(1) [OF run_ready.hyps(2) run_ready.prems(1)] disp_drop_free [OF run_ready.hyps(3)] show ?case by simp
next
  case (run_dropped w d w')
  with disp_drop_free show ?case by fastforce
qed

lemma exchanges_last:
  assumes "exchanges Free (xs @ Answered cb a # ys) = Some p"
  shows "exchanges Free xs = Some (Held cb) \<and> isl a \<or>
         exchanges Free xs = Some (Sent cb) \<and> (case a of Inl e \<Rightarrow> tse_message e = None | Inr _ \<Rightarrow> True)"
proof -
  from assms obtain q where q: "exchanges Free xs = Some q" and "exchange q (Answered cb a) \<noteq> None"
    by (auto simp: exchanges_append split: option.splits)
  then show ?thesis by (cases q) (auto split: if_splits)
qed

lemma exchanges_snoc:
  "exchanges p (xs @ [e]) = Some q \<longleftrightarrow> (\<exists>r. exchanges p xs = Some r \<and> exchange r e = Some q)"
  by (auto simp: exchanges_append split: option.splits)

lemma exchanges_Held:
  assumes "exchanges Free xs = Some (Held cb)"
  shows "\<exists>zs. xs = zs @ [Took cb]"
proof (cases xs rule: rev_cases)
  case (snoc zs e)
  with assms obtain r where "exchange r e = Some (Held cb)" by (auto simp: exchanges_snoc)
  then show ?thesis using snoc by (cases "(r, e)" rule: exchange.cases) (auto split: if_splits)
qed (use assms in simp)

lemma exchanges_Sent:
  assumes "exchanges Free xs = Some (Sent cb)"
  shows "\<exists>zs. xs = zs @ [Took cb, WroteHead]"
proof (cases xs rule: rev_cases)
  case (snoc zs e)
  with assms obtain r where r: "exchanges Free zs = Some r" "exchange r e = Some (Sent cb)" by (auto simp: exchanges_snoc)
  then have "r = Held cb \<and> e = WroteHead" by (cases "(r, e)" rule: exchange.cases) (auto split: if_splits)
  with exchanges_Held [of zs cb] r(1) snoc show ?thesis by auto
qed (use assms in simp)

section \<open>A world to run in\<close>

text \<open>For examples: requests wait in a queue and nothing else happens outside; bodies are empty.\<close>

type_synonym queue = "(assoc_map, unit) h1_request Envelope list"

definition queue_env :: "(queue, assoc_map, unit) h1_env" where
  "queue_env = \<lparr>
     data_channel = (\<lambda>q. (0, q)), data_poll_ready = (\<lambda>q _. (q, Ready (Inr ()))), data_try_send = (\<lambda>q _ _. (q, None)),
     data_clone_tx = (\<lambda>q k. (k, q)), data_drop_tx = (\<lambda>q _. q), data_is_terminated = (\<lambda>_ _. False),
     data_poll_next = (\<lambda>q _. (q, Ready (Some (Inr ''hi'')))),
     trailers_channel = (\<lambda>q. (0, q)), trailers_send = (\<lambda>q _ _. (q, None)), trailers_drop_tx = (\<lambda>q _. q),
     trailers_poll = (\<lambda>q _. (q, Pending)),
     cell_new = (\<lambda>q _. (0, q)), cell_load = (\<lambda>q _. (q, 2)), cell_swap = (\<lambda>q _ _. (q, 2)), cell_wake = (\<lambda>q _. q),
     h2_poll_data = (\<lambda>q _. (q, Pending)), h2_release_capacity = (\<lambda>q _ _. q), h2_poll_trailers = (\<lambda>q _. (q, Pending)),
     h2_is_end_stream = (\<lambda>_ _. False), clock_now = (\<lambda>_. 0), ping_pong_ok = (\<lambda>_. True),
     ping_shared = (\<lambda>_. \<lparr>ping_sent_at = None, sh_bytes = None, next_bdp_at = None, sh_last_read_at = None, is_keep_alive_timed_out = False\<rparr>),
     ping_set_shared = (\<lambda>q _. q),
     requests = \<lparr>
       mpsc_send = (\<lambda>q e. (q @ [e], None)),
       mpsc_poll_recv = (\<lambda>q. case q of [] \<Rightarrow> ([], Pending) | e # q \<Rightarrow> (q, Ready (Some e))),
       mpsc_close = id, mpsc_drop_rx = (\<lambda>q. ([], q)),
       giver_poll_want = (\<lambda>q. (q, Pending)), giver_is_wanting = (\<lambda>_. False), giver_give = (\<lambda>q. (q, False)),
       giver_is_canceled = (\<lambda>_. False), taker_want = id, taker_cancel = id,
       promise_channel = (\<lambda>q. (length q, q)), promise_is_closed = (\<lambda>_ _. False), promise_poll_closed = (\<lambda>q _. (q, False)),
       promise_send = (\<lambda>q _ _. q), thread_panicking = (\<lambda>_. False)\<rparr>,
     user_poll_frame = (\<lambda>q b. (q, b, Ready None)), user_is_end_stream = (\<lambda>_ _. True), user_size_exact = (\<lambda>_ _. Some 0)\<rparr>"

definition get_envelope :: "nat \<Rightarrow> (assoc_map, unit) h1_request Envelope" where
  "get_envelope k = Some (\<lparr>req_head = get_head, req_body = ()\<rparr>, Retry (Some k))"

definition answer_hi :: bytes where
  "answer_hi = ''HTTP/1.1 200 OK'' @ CRLF @ ''content-length: 2'' @ CRLF @ CRLF @ ''hi''"

text \<open>Three requests wait; the server answers the first one, and then nothing comes.\<close>

definition hi_world :: "(queue, assoc_map, unit) h1_world" where
  "hi_world = \<lparr>outside = map get_envelope [0, 1, 2], history = []\<rparr>"

definition hi_task :: "(mock, assoc_map, bool, unit) Dispatcher" where
  "hi_task = dispatcher_new (mock_conn0 [Wait, Chunk answer_hi, Wait, Wait, Wait])"

definition hi_poll :: "(queue, assoc_map, unit) h1_world \<Rightarrow> (mock, assoc_map, bool, unit) Dispatcher \<Rightarrow>
    (queue, mock, assoc_map, bool, unit, (core_error + Dispatched) poll) disp_result" where
  "hi_poll = disp_poll mock_ops (\<lambda>_ n. n) assoc_h1 queue_env"

text \<open>Two polls and the drop that ends the task.\<close>

definition hi_twice :: "((queue, assoc_map, unit) h1_world \<times> (mock, assoc_map, bool, unit) Dispatcher) option" where
  "hi_twice = (case hi_poll hi_world hi_task of
     Some (w, d, Pending) \<Rightarrow> (case hi_poll w d of Some (w, d, Pending) \<Rightarrow> Some (w, d) | _ \<Rightarrow> None) | _ \<Rightarrow> None)"

definition hi_end :: "(queue, assoc_map, unit) h1_world option" where
  "hi_end = (case hi_twice of Some (w, d) \<Rightarrow> disp_drop queue_env w d | None \<Rightarrow> None)"

fun event_kind :: "('t, 'u) event \<Rightarrow> string" where
  "event_kind (Took cb) = ''took''"
| "event_kind WroteHead = ''wrote''"
| "event_kind (Answered cb (Inr res)) = ''response''"
| "event_kind (Answered cb (Inl e)) = (if tse_message e = None then ''error'' else ''given back'')"

lemma hi_end_history:
  "map_option (\<lambda>w. map event_kind (history w)) hi_end =
     Some [''took'', ''wrote'', ''response'', ''took'', ''wrote'', ''error'', ''took'', ''given back'']"
  by code_simp

lemma hi_twice_run:
  assumes "hi_twice = Some (w, d)"
  shows "task_run mock_ops (\<lambda>_ n. n) assoc_h1 queue_env (mock_conn0 [Wait, Chunk answer_hi, Wait, Wait, Wait]) w (Some d)"
proof -
  from assms obtain w1 d1 where p: "hi_poll hi_world hi_task = Some (w1, d1, Pending)" "hi_poll w1 d1 = Some (w, d, Pending)"
    by (auto simp: hi_twice_def split: option.splits poll.splits)
  show ?thesis
    by (rule run_pending [OF run_pending [OF run_start]])
      (use p in \<open>simp_all add: hi_poll_def hi_task_def hi_world_def\<close>)
qed

lemma hi_conn: "\<not> in_body (s_reading (cst (mock_conn0 as)))"
  by (simp add: mock_conn0_def conn_new_def)

lemma queue_chunks: "chunks_fit queue_env"
  by (simp add: chunks_fit_def queue_env_def)

section \<open>Properties\<close>

text \<open>C3. The task of an HTTP/1 connection keeps to the protocol of exchanges, whatever the transport and the other threads do: a request
  is taken from the channel only when the one before was answered, it gets exactly one answer, a response is only given for a request whose head
  was written, and the request is only given back for a retry while nothing of it was written; and when the task has ended, nobody
  waits for an answer.\<close>
theorem requests_answered_once:
  assumes "task_run T grow H E c w st" and "chunks_fit E" and "\<not> in_body (s_reading (cst c))"
  shows "exchanges Free (history w) = Some (case st of None \<Rightarrow> Free | Some d \<Rightarrow> client_phase (d_dispatch d))"
  using task_run_inv [OF assms] by (auto simp: at_phase_def task_hist_def split: option.splits)

text \<open>Witness of C3: two polls and the drop of a task with three requests, of which the first is answered.\<close>
theorem requests_answered_once_witness:
  "\<exists>w. hi_end = Some w \<and> length (history w) = 8 \<and> exchanges Free (history w) = Some Free"
proof -
  from hi_end_history obtain w where w: "hi_end = Some w" and
    "map event_kind (history w) = [''took'', ''wrote'', ''response'', ''took'', ''wrote'', ''error'', ''took'', ''given back'']"
    by (cases hi_end) auto
  then have len: "length (history w) = 8" using length_map [of event_kind "history w"] by simp
  from w obtain w1 d where t: "hi_twice = Some (w1, d)" and e: "disp_drop queue_env w1 d = Some w"
    by (auto simp: hi_end_def split: option.splits)
  from requests_answered_once [OF run_dropped [OF hi_twice_run [OF t] e] queue_chunks hi_conn] w len show ?thesis by auto
qed

text \<open>What an answer says about the wire: a response comes right after the head of its own request was written, and a
  request that is given back was taken from the channel and nothing else was done before.\<close>
lemma answers_in_order:
  assumes "task_run T grow H E c w st" and "chunks_fit E" and "\<not> in_body (s_reading (cst c))"
    and "history w = xs @ Answered cb a # ys"
  shows "case a of
           Inr res \<Rightarrow> \<exists>zs. xs = zs @ [Took cb, WroteHead]
         | Inl e \<Rightarrow> (tse_message e \<noteq> None \<longrightarrow> (\<exists>zs. xs = zs @ [Took cb])) \<and>
             (\<exists>zs. xs = zs @ [Took cb] \<or> xs = zs @ [Took cb, WroteHead])"
proof -
  from task_run_inv [OF assms(1-3)] obtain p where "exchanges Free (history w) = Some p"
    by (auto simp: at_phase_def task_hist_def split: option.splits)
  from exchanges_last [OF this [unfolded assms(4)]] show ?thesis
    using exchanges_Held [of xs cb] exchanges_Sent [of xs cb] by (auto split: sum.splits)
qed

text \<open>At a concrete input: the first answer of the same run.\<close>
lemma answers_in_order_instance:
  "\<exists>w xs cb res ys zs. hi_end = Some w \<and> history w = xs @ Answered cb (Inr res) # ys \<and> xs = zs @ [Took cb, WroteHead]"
proof -
  from hi_end_history obtain w where w: "hi_end = Some w" and
    k: "map event_kind (history w) = [''took'', ''wrote'', ''response'', ''took'', ''wrote'', ''error'', ''took'', ''given back'']"
    by (cases hi_end) auto
  then obtain e1 e2 e3 ys where h: "history w = [e1, e2] @ e3 # ys" and e3: "event_kind e3 = ''response''" by auto
  from e3 obtain cb res where r: "e3 = Answered cb (Inr res)" by (cases e3 rule: event_kind.cases) (auto split: if_splits)
  from w obtain w1 d where t: "hi_twice = Some (w1, d)" and e: "disp_drop queue_env w1 d = Some w"
    by (auto simp: hi_end_def split: option.splits)
  from answers_in_order [OF run_dropped [OF hi_twice_run [OF t] e] queue_chunks hi_conn h [unfolded r]] w h r show ?thesis
    by (simp del: append.simps) blast
qed

text \<open>C4. The task keeps to the rules of its connection: every operation is called only in the states its assertions allow, so that
  along the whole life of the task the connection stays well-formed and what it has put out is never lost, changed or reordered.\<close>
theorem task_respects_connection:
  assumes "task_run T grow H E c w (Some d)" and "chunks_fit E" and "conn_env T unread tinv written H" and "conn_wf tinv c"
    and "\<not> in_body (s_reading (cst c))"
  shows "(conn_step T grow H)\<^sup>*\<^sup>* c (d_conn d) \<and> conn_wf tinv (d_conn d) \<and> prefix (conn_out written c) (conn_out written (d_conn d))"
proof -
  from task_run_inv [OF assms(1,2,5)] have s: "(conn_step T grow H)\<^sup>*\<^sup>* c (d_conn d)" by simp
  with conn_env.conn_steps_wf [OF assms(3) s assms(4)] show ?thesis by simp
qed

text \<open>Witness of C4: the same run.\<close>
theorem task_respects_connection_witness:
  "\<exists>w d. hi_twice = Some (w, d) \<and> conn_wf (\<lambda>_. True) (d_conn d)"
proof -
  from hi_end_history obtain w d where t: "hi_twice = Some (w, d)" by (auto simp: hi_end_def split: option.splits)
  have "conn_wf (\<lambda>_. True) (mock_conn0 [Wait, Chunk answer_hi, Wait, Wait, Wait])" by (simp add: mock_conn0_def conn_wf_new)
  from task_respects_connection [OF hi_twice_run [OF t] queue_chunks mock_conn.conn_env_axioms this hi_conn] t show ?thesis by blast
qed

text \<open>The count of a body at a concrete input: the two bytes of the channel of \<^const>\<open>queue_env\<close>.\<close>
lemma body_length_accounted_instance:
  "\<exists>b. reads queue_env (BodyChan 5 0 0 0) ''hi'' b \<and> incoming_size_exact b = Some 3"
proof -
  let ?b = "BodyChan 3 0 0 0"
  have "incoming_poll_frame queue_env [] (BodyChan 5 0 0 0) = Some ([], ?b, Ready (Some (Inr (Data ''hi''))))" by code_simp
  from reads_data [OF reads_start this] have r: "reads queue_env (BodyChan 5 0 0 0) ''hi'' ?b" by simp
  from body_length_accounted [OF r] have "incoming_size_exact ?b = Some 3" by (simp add: is_exact_def MAX_LEN_def)
  with r show ?thesis by blast
qed

end
