(* ===== verification/Tls_Session.thy ===== *)
theory Tls_Session
  imports Prelude
begin

text \<open>
  The cache of TLS sessions (\<^verbatim>\<open>src/src/tls/conn/cache.rs\<close>). Sessions of BoringSSL are known by what the code reads of them; the
  crate \<^verbatim>\<open>linked_hash_set\<close> is a parameter (\<open>linked_set\<close>), with its documented laws in the locale \<open>linked_set_laws\<close>.
\<close>

section \<open>The cache\<close>

text \<open>Sessions are compared by their id; \<open>ss_data\<close> stands for the rest.\<close>

datatype SslVersion = TLS1 | TLS1_1 | TLS1_2 | TLS1_3

record SslSession =
  ss_id :: bytes
  ss_version :: SslVersion
  ss_data :: bytes

type_synonym SessionKey = string

record 'l linked_set =
  lh_new :: 'l
  lh_len :: "'l \<Rightarrow> nat"
  lh_pop_front :: "'l \<Rightarrow> 'l \<times> SslSession option"
  lh_front :: "'l \<Rightarrow> SslSession option"
  lh_insert :: "SslSession \<Rightarrow> 'l \<Rightarrow> 'l"
  lh_remove :: "bytes \<Rightarrow> 'l \<Rightarrow> 'l"

record 'l SessionCache =
  sc_sessions :: "SessionKey \<rightharpoonup> 'l"
  sc_reverse :: "bytes \<rightharpoonup> SessionKey"
  sc_capacity :: nat

definition cache_with_capacity :: "nat \<Rightarrow> 'l SessionCache" where
  "cache_with_capacity capacity = \<lparr>sc_sessions = Map.empty, sc_reverse = Map.empty, sc_capacity = capacity\<rparr>"

definition cache_insert :: "('l, 'z) linked_set_scheme \<Rightarrow> SessionKey \<Rightarrow> SslSession \<Rightarrow> 'l SessionCache \<Rightarrow> 'l SessionCache" where
  "cache_insert L key session c =
     (let sessions = (case sc_sessions c key of Some l \<Rightarrow> l | None \<Rightarrow> lh_new L);
          (sessions, reverse) =
            (if sc_capacity c \<le> lh_len L sessions
             then (case lh_pop_front L sessions of
                     (l, Some hash) \<Rightarrow> (l, (sc_reverse c)(ss_id hash := None))
                   | (l, None) \<Rightarrow> (l, sc_reverse c))
             else (sessions, sc_reverse c))
      in c\<lparr>sc_sessions := (sc_sessions c)(key \<mapsto> lh_insert L session sessions),
           sc_reverse := reverse(ss_id session \<mapsto> key)\<rparr>)"

definition cache_remove :: "('l, 'z) linked_set_scheme \<Rightarrow> bytes \<Rightarrow> 'l SessionCache \<Rightarrow> 'l SessionCache" where
  "cache_remove L sid c =
     (case sc_reverse c sid of
        None \<Rightarrow> c
      | Some key \<Rightarrow>
          (let c = c\<lparr>sc_reverse := (sc_reverse c)(sid := None)\<rparr>
           in case sc_sessions c key of
                None \<Rightarrow> c
              | Some l \<Rightarrow>
                  (let l = lh_remove L sid l
                   in c\<lparr>sc_sessions := (sc_sessions c)(key := if lh_len L l = 0 then None else Some l)\<rparr>)))"

definition cache_get ::
  "('l, 'z) linked_set_scheme \<Rightarrow> SessionKey \<Rightarrow> 'l SessionCache \<Rightarrow> 'l SessionCache \<times> SslSession option" where
  "cache_get L key c =
     (case sc_sessions c key of
        None \<Rightarrow> (c, None)
      | Some l \<Rightarrow>
          (case lh_front L l of
             None \<Rightarrow> (c, None)
           | Some session \<Rightarrow>
               (if ss_version session = TLS1_3 then cache_remove L (ss_id session) c else c, Some session)))"

section \<open>What is expected of the set\<close>

text \<open>The elements in their order: an insertion puts its element last, one that is there already too (whether the old or the new
  of two equal ones is kept does not matter); a removal takes out the element with the id.\<close>

locale linked_set_laws =
  fixes L :: "'l linked_set" and elems :: "'l \<Rightarrow> SslSession list"
  assumes elems_new: "elems (lh_new L) = []"
    and elems_len: "lh_len L l = length (elems l)"
    and elems_front: "lh_front L l = (case elems l of [] \<Rightarrow> None | s # _ \<Rightarrow> Some s)"
    and elems_pop: "lh_pop_front L l = (l', r) \<Longrightarrow> elems l' = tl (elems l) \<and> r = (case elems l of [] \<Rightarrow> None | s # _ \<Rightarrow> Some s)"
    and elems_insert: "\<exists>s'\<in>insert s (set (elems l)). ss_id s' = ss_id s \<and>
      elems (lh_insert L s l) = filter (\<lambda>x. ss_id x \<noteq> ss_id s) (elems l) @ [s']"
    and elems_remove: "elems (lh_remove L sid l) = filter (\<lambda>x. ss_id x \<noteq> sid) (elems l)"
begin

text \<open>The sessions cached for a key.\<close>

definition cached :: "'l SessionCache \<Rightarrow> SessionKey \<Rightarrow> SslSession list" where
  "cached c k = (case sc_sessions c k of Some l \<Rightarrow> elems l | None \<Rightarrow> [])"

definition ids :: "'l SessionCache \<Rightarrow> SessionKey \<Rightarrow> bytes set" where
  "ids c k = ss_id ` set (cached c k)"

definition kept :: "SslSession \<Rightarrow> SslSession list \<Rightarrow> SslSession list \<Rightarrow> bool" where
  "kept s xs ys \<longleftrightarrow> (\<exists>s'\<in>insert s (set xs). ss_id s' = ss_id s \<and> ys = filter (\<lambda>x. ss_id x \<noteq> ss_id s) xs @ [s'])"

text \<open>What the operations do to the lists of sessions and to the reverse map.\<close>

lemma cached_insert:
  "kept s (if sc_capacity c \<le> length (cached c key) then tl (cached c key) else cached c key) (cached (cache_insert L key s c) key)"
  "k \<noteq> key \<Longrightarrow> cached (cache_insert L key s c) k = cached c k"
  "sc_capacity (cache_insert L key s c) = sc_capacity c"
  "sc_reverse (cache_insert L key s c) =
     (if sc_capacity c \<le> length (cached c key) \<and> cached c key \<noteq> [] then (sc_reverse c)(ss_id (hd (cached c key)) := None) else sc_reverse c)
       (ss_id s \<mapsto> key)"
proof -
  define l where "l = (case sc_sessions c key of Some l \<Rightarrow> l | None \<Rightarrow> lh_new L)"
  have e: "elems l = cached c key" by (simp add: l_def cached_def elems_new split: option.splits)
  obtain l' r where p: "lh_pop_front L l = (l', r)" by (rule prod.exhaust)
  note q = elems_pop [OF p, unfolded e]
  have i: "cache_insert L key s c =
      (let (l, rev) = if sc_capacity c \<le> length (cached c key)
                      then (l', case r of Some h \<Rightarrow> (sc_reverse c)(ss_id h := None) | None \<Rightarrow> sc_reverse c) else (l, sc_reverse c)
       in c\<lparr>sc_sessions := (sc_sessions c)(key \<mapsto> lh_insert L s l), sc_reverse := rev(ss_id s \<mapsto> key)\<rparr>)"
    by (simp add: cache_insert_def l_def [symmetric] elems_len e p split: option.splits)
  show "kept s (if sc_capacity c \<le> length (cached c key) then tl (cached c key) else cached c key) (cached (cache_insert L key s c) key)"
    using elems_insert [of s l] elems_insert [of s l'] q e by (auto simp: i kept_def cached_def)
  show "k \<noteq> key \<Longrightarrow> cached (cache_insert L key s c) k = cached c k" "sc_capacity (cache_insert L key s c) = sc_capacity c"
    by (simp_all add: i cached_def)
  show "sc_reverse (cache_insert L key s c) =
     (if sc_capacity c \<le> length (cached c key) \<and> cached c key \<noteq> [] then (sc_reverse c)(ss_id (hd (cached c key)) := None) else sc_reverse c)
       (ss_id s \<mapsto> key)"
    using q by (auto simp: i split: list.splits)
qed

lemma cached_remove:
  "cached (cache_remove L sid c) k = (if sc_reverse c sid = Some k then filter (\<lambda>x. ss_id x \<noteq> sid) (cached c k) else cached c k)"
  "sc_reverse (cache_remove L sid c) = (sc_reverse c)(sid := None)"
  "sc_capacity (cache_remove L sid c) = sc_capacity c"
  by (auto simp: cache_remove_def cached_def elems_len elems_remove Let_def fun_upd_idem split: option.splits)

lemma cache_get_cached:
  "cache_get L key c =
     (case cached c key of
        [] \<Rightarrow> (c, None)
      | s # _ \<Rightarrow> (if ss_version s = TLS1_3 then cache_remove L (ss_id s) c else c, Some s))"
  by (auto simp: cache_get_def cached_def elems_front split: option.splits list.splits)

end

section \<open>Histories\<close>

datatype cache_op = InsertOp SessionKey SslSession | GetOp SessionKey | RemoveOp bytes

text \<open>What a sequence of operations gives, one result for each.\<close>

definition cache_step ::
  "('l, 'z) linked_set_scheme \<Rightarrow> cache_op \<Rightarrow> 'l SessionCache \<Rightarrow> 'l SessionCache \<times> SslSession option" where
  "cache_step L op c =
     (case op of
        InsertOp key session \<Rightarrow> (cache_insert L key session c, None)
      | GetOp key \<Rightarrow> cache_get L key c
      | RemoveOp sid \<Rightarrow> (cache_remove L sid c, None))"

fun cache_run ::
  "('l, 'z) linked_set_scheme \<Rightarrow> cache_op list \<Rightarrow> 'l SessionCache \<Rightarrow> 'l SessionCache \<times> SslSession option list" where
  "cache_run L [] c = (c, [])"
| "cache_run L (op # ops) c =
     (case cache_step L op c of (c, r) \<Rightarrow> (case cache_run L ops c of (c, rs) \<Rightarrow> (c, r # rs)))"

text \<open>A session is not inserted for two hosts.\<close>

definition one_key :: "cache_op list \<Rightarrow> bool" where
  "one_key ops \<longleftrightarrow> (\<forall>k s k' s'. InsertOp k s \<in> set ops \<longrightarrow> InsertOp k' s' \<in> set ops \<longrightarrow> ss_id s = ss_id s' \<longrightarrow> k = k')"

context linked_set_laws
begin

text \<open>The invariant, with what has been inserted before: each list is a list of sessions inserted for its key, without repeated ids, no longer
  than the capacity, and the reverse map knows where each session is.\<close>

definition sessions_inv :: "cache_op set \<Rightarrow> 'l SessionCache \<Rightarrow> bool" where
  "sessions_inv hist c \<longleftrightarrow>
     (\<forall>k. (\<forall>s\<in>set (cached c k). InsertOp k s \<in> hist \<and> sc_reverse c (ss_id s) = Some k) \<and>
        distinct (map ss_id (cached c k)) \<and> length (cached c k) \<le> max 1 (sc_capacity c))"

lemma sessions_inv_mono: "sessions_inv hist c \<Longrightarrow> hist \<subseteq> hist' \<Longrightarrow> sessions_inv hist' c"
  unfolding sessions_inv_def by blast

lemma sessions_inv_remove: "sessions_inv hist c \<Longrightarrow> sessions_inv hist (cache_remove L sid c)"
  unfolding sessions_inv_def
  by (auto simp: cached_remove distinct_map inj_on_def intro: le_trans [OF length_filter_le])

lemma sessions_inv_insert:
  assumes inv: "sessions_inv hist c"
    and one: "\<And>k s'. InsertOp k s' \<in> hist \<Longrightarrow> ss_id s' = ss_id s \<Longrightarrow> k = key"
  shows "sessions_inv (insert (InsertOp key s) hist) (cache_insert L key s c)"
proof -
  let ?c = "cache_insert L key s c"
  define xs where "xs = (if sc_capacity c \<le> length (cached c key) then tl (cached c key) else cached c key)"
  from cached_insert(1) [of s c key] obtain s' where s': "s' \<in> insert s (set xs)" "ss_id s' = ss_id s"
    "cached ?c key = filter (\<lambda>x. ss_id x \<noteq> ss_id s) xs @ [s']"
    by (auto simp: kept_def xs_def)
  have tl: "set (tl ys) \<subseteq> set ys" for ys :: "SslSession list" by (cases ys) auto
  have sub: "set xs \<subseteq> set (cached c key)" using tl by (auto simp: xs_def)
  have d: "distinct (map ss_id (cached c key))" "length (cached c key) \<le> max 1 (sc_capacity c)"
    and old: "\<And>k x. x \<in> set (cached c k) \<Longrightarrow> InsertOp k x \<in> hist \<and> sc_reverse c (ss_id x) = Some k"
    using inv by (auto simp: sessions_inv_def)
  have rev: "sc_reverse ?c (ss_id x) = Some k" if "x \<in> set (cached c k)" "ss_id x \<noteq> ss_id s" "x \<in> set xs \<or> k \<noteq> key" for x k
  proof -
    have "ss_id x \<noteq> ss_id (hd (cached c key))" if "sc_capacity c \<le> length (cached c key)" "cached c key \<noteq> []"
    proof (cases "k = key")
      case True
      then have "x \<in> set (tl (cached c key))" using \<open>x \<in> set xs \<or> k \<noteq> key\<close> that by (simp add: xs_def)
      moreover have "distinct (ss_id (hd (cached c key)) # map ss_id (tl (cached c key)))" using d(1) that(2) by (cases "cached c key") simp_all
      ultimately show ?thesis by (metis distinct.simps(2) imageI list.set_map)
    next
      case False
      then show ?thesis using old [OF \<open>x \<in> set (cached c k)\<close>] old [of "hd (cached c key)" key] that(2) by auto
    qed
    with that(2) old [OF that(1)] show ?thesis by (simp add: cached_insert(4))
  qed
  have key: "InsertOp key x \<in> insert (InsertOp key s) hist \<and> sc_reverse ?c (ss_id x) = Some key" if "x \<in> set (cached ?c key)" for x
    using that s' old sub rev [of x key] by (auto simp: cached_insert(4))
  have other: "InsertOp k x \<in> insert (InsertOp key s) hist \<and> sc_reverse ?c (ss_id x) = Some k" if "x \<in> set (cached ?c k)" "k \<noteq> key" for x k
    using that old [of x k] one [of k x] rev [of x k] by (auto simp: cached_insert(2))
  have "distinct (map ss_id xs)" using d(1) by (auto simp: xs_def map_tl intro: distinct_tl)
  then have "distinct (map ss_id (cached ?c key))"
    unfolding s'(3) by (auto simp: distinct_map inj_on_def s'(2))
  moreover have "length xs + 1 \<le> max 1 (sc_capacity c)" using d(2) by (auto simp: xs_def)
  then have "length (cached ?c key) \<le> max 1 (sc_capacity c)"
    unfolding s'(3) by (metis add_le_mono1 le_trans length_append_singleton length_filter_le Suc_eq_plus1)
  moreover have "distinct (map ss_id (cached ?c k)) \<and> length (cached ?c k) \<le> max 1 (sc_capacity c)" if "k \<noteq> key" for k
    using inv that by (auto simp: cached_insert(2) sessions_inv_def)
  ultimately have "(\<forall>x\<in>set (cached ?c k). InsertOp k x \<in> insert (InsertOp key s) hist \<and> sc_reverse ?c (ss_id x) = Some k) \<and>
      distinct (map ss_id (cached ?c k)) \<and> length (cached ?c k) \<le> max 1 (sc_capacity c)" for k
    using key [rule_format] other [of _ k] by (cases "k = key") simp_all
  then show ?thesis unfolding sessions_inv_def cached_insert(3) by (rule allI)
qed

lemma sessions_inv_step:
  assumes "sessions_inv hist c" and "\<And>k s k' s'. op = InsertOp k s \<Longrightarrow> InsertOp k' s' \<in> hist \<Longrightarrow> ss_id s' = ss_id s \<Longrightarrow> k' = k"
  shows "sessions_inv (insert op hist) (fst (cache_step L op c))"
proof (cases op)
  case (InsertOp k s)
  with assms show ?thesis by (simp add: cache_step_def sessions_inv_insert)
next
  case (GetOp k)
  have "sessions_inv hist (fst (cache_get L k c))"
    using assms(1) by (auto simp: cache_get_cached sessions_inv_remove split: list.splits)
  then show ?thesis using GetOp by (auto simp: cache_step_def intro: sessions_inv_mono)
next
  case (RemoveOp sid)
  with sessions_inv_remove [OF assms(1)] show ?thesis by (auto simp: cache_step_def intro: sessions_inv_mono)
qed

lemma cache_run_snoc: "fst (cache_run L (ops @ [op]) c) = fst (cache_step L op (fst (cache_run L ops c)))"
  by (induction ops arbitrary: c) (simp_all add: case_prod_unfold)

lemma cache_run_append: "fst (cache_run L (ops @ ops') c) = fst (cache_run L ops' (fst (cache_run L ops c)))"
  by (induction ops arbitrary: c) (simp_all add: case_prod_unfold)

lemma cache_run_nth:
  "i < length ops \<Longrightarrow> snd (cache_run L ops c) ! i = snd (cache_step L (ops ! i) (fst (cache_run L (take i ops) c)))"
proof (induction ops arbitrary: c i)
  case (Cons op ops)
  then show ?case by (cases i) (simp_all add: case_prod_unfold)
qed simp

lemma sessions_inv_run: "one_key ops \<Longrightarrow> sessions_inv (set ops) (fst (cache_run L ops (cache_with_capacity n)))"
proof (induction ops rule: rev_induct)
  case Nil
  show ?case by (simp add: sessions_inv_def cached_def cache_with_capacity_def)
next
  case (snoc op ops)
  have "one_key ops" using snoc.prems unfolding one_key_def by simp
  from sessions_inv_step [OF snoc.IH [OF this], of op]
  have "sessions_inv (insert op (set ops)) (fst (cache_step L op (fst (cache_run L ops (cache_with_capacity n)))))"
    using snoc.prems unfolding one_key_def by (metis UnI1 UnI2 list.set_intros(1) set_append)
  then show ?case by (simp add: cache_run_snoc)
qed

text \<open>A session that is not there stays away until it is inserted.\<close>

definition absent :: "bytes \<Rightarrow> 'l SessionCache \<Rightarrow> bool" where
  "absent sid c \<longleftrightarrow> (\<forall>k. \<forall>s\<in>set (cached c k). ss_id s \<noteq> sid)"

lemma absent_remove: "absent sid c \<Longrightarrow> absent sid (cache_remove L i c)"
  by (auto simp: absent_def cached_remove)

lemma absent_insert:
  assumes "absent sid c" and "ss_id s \<noteq> sid"
  shows "absent sid (cache_insert L key s c)"
proof -
  have tl: "set (tl ys) \<subseteq> set ys" for ys :: "SslSession list" by (cases ys) auto
  have old: "ss_id y \<noteq> sid" if "y \<in> set (cached c key)" for y using assms(1) that unfolding absent_def by blast
  have "ss_id x \<noteq> sid" if "x \<in> set (cached (cache_insert L key s c) key)" for x
    using cached_insert(1) [of s c key] that assms(2) tl [of "cached c key"] old [of x]
    unfolding kept_def by (auto split: if_splits)
  with assms(1) show ?thesis unfolding absent_def by (metis cached_insert(2))
qed

lemma absent_run:
  "absent sid c \<Longrightarrow> (\<And>k s. InsertOp k s \<in> set ops \<Longrightarrow> ss_id s \<noteq> sid) \<Longrightarrow> absent sid (fst (cache_run L ops c))"
proof (induction ops rule: rev_induct)
  case (snoc op ops)
  let ?c = "fst (cache_run L ops c)"
  have a: "absent sid ?c" using snoc.prems by (intro snoc.IH) auto
  show ?case
  proof (cases op)
    case (InsertOp k s)
    with snoc.prems(2) [of k s] a show ?thesis by (simp add: cache_run_snoc cache_step_def absent_insert)
  next
    case (GetOp k)
    with a show ?thesis by (auto simp: cache_run_snoc cache_step_def cache_get_cached absent_remove split: list.splits)
  qed (use a in \<open>simp add: cache_run_snoc cache_step_def absent_remove\<close>)
qed simp

lemma get_gone:
  assumes "sessions_inv hist c" and "cache_get L k c = (c', Some s)" and "ss_version s = TLS1_3"
  shows "absent (ss_id s) c'"
proof -
  have "c' = cache_remove L (ss_id s) c" using assms(2,3) by (auto simp: cache_get_cached split: list.splits)
  moreover have "sc_reverse c (ss_id x) = Some k" if "x \<in> set (cached c k)" for x k
    using assms(1) that by (auto simp: sessions_inv_def)
  ultimately show ?thesis by (fastforce simp: absent_def cached_remove split: if_splits)
qed

lemma step_result: "snd (cache_step L op c) = Some s \<Longrightarrow> \<exists>k. op = GetOp k \<and> s \<in> set (cached c k)"
  by (auto simp: cache_step_def cache_get_cached split: cache_op.splits list.splits)

lemma one_key_take: "one_key ops \<Longrightarrow> one_key (take i ops)"
  unfolding one_key_def by (blast dest: in_set_takeD)

lemma sessions_given:
  assumes "one_key ops" and "i < length ops" and "snd (cache_run L ops (cache_with_capacity n)) ! i = Some s"
  shows "\<exists>k. ops ! i = GetOp k \<and> (\<exists>j<i. ops ! j = InsertOp k s)"
proof -
  obtain k where k: "ops ! i = GetOp k"
    "s \<in> set (cached (fst (cache_run L (take i ops) (cache_with_capacity n))) k)"
    using step_result [OF assms(3) [unfolded cache_run_nth [OF assms(2)]]] by blast
  with sessions_inv_run [OF one_key_take [OF assms(1)], of i n] have "InsertOp k s \<in> set (take i ops)"
    by (auto simp: sessions_inv_def)
  with k(1) show ?thesis by (auto simp: in_set_conv_nth)
qed

lemma tls13_given_once:
  assumes "one_key ops" and "i < j" "j < length ops"
    and "snd (cache_run L ops (cache_with_capacity n)) ! i = Some s" "ss_version s = TLS1_3"
    and "snd (cache_run L ops (cache_with_capacity n)) ! j = Some s'" "ss_id s' = ss_id s"
  shows "\<exists>m k s''. i < m \<and> m < j \<and> ops ! m = InsertOp k s'' \<and> ss_id s'' = ss_id s"
proof (rule ccontr)
  let ?c = "\<lambda>i. fst (cache_run L (take i ops) (cache_with_capacity n))"
  assume none: "\<not> ?thesis"
  have i: "snd (cache_step L (ops ! i) (?c i)) = Some s" using assms by (simp add: cache_run_nth)
  then obtain k where k: "ops ! i = GetOp k" using step_result by blast
  have "absent (ss_id s) (fst (cache_step L (ops ! i) (?c i)))"
    using get_gone [OF sessions_inv_run [OF one_key_take [OF assms(1)], of i n], of k] i assms(5)
    by (simp add: cache_step_def k prod_eq_iff)
  then have ai: "absent (ss_id s) (?c (Suc i))"
    using assms(2,3) by (simp add: take_Suc_conv_app_nth cache_run_snoc)
  have split: "take j ops = take (Suc i) ops @ drop (Suc i) (take j ops)"
    using assms(2) by (metis Suc_leI append_take_drop_id min.absorb1 take_take)
  have "ss_id s'' \<noteq> ss_id s" if "InsertOp k s'' \<in> set (drop (Suc i) (take j ops))" for k s''
  proof -
    from that obtain m where "m < length (drop (Suc i) (take j ops))" "drop (Suc i) (take j ops) ! m = InsertOp k s''"
      by (auto simp: in_set_conv_nth)
    then have "i < Suc i + m \<and> Suc i + m < j \<and> ops ! (Suc i + m) = InsertOp k s''" using assms(2,3) by (auto simp: nth_drop)
    with none show ?thesis by blast
  qed
  from absent_run [OF ai this] have "absent (ss_id s) (?c j)" by (subst split) (simp add: cache_run_append)
  moreover obtain k' where "s' \<in> set (cached (?c j) k')" using step_result [OF assms(6) [unfolded cache_run_nth [OF assms(3)]]] by blast
  ultimately show False using assms(7) by (auto simp: absent_def)
qed

lemma capacity_run: "sc_capacity (fst (cache_run L ops c)) = sc_capacity c"
  by (induction ops rule: rev_induct)
    (auto simp: cache_run_snoc cache_step_def cache_get_cached cached_insert(3) cached_remove(3) split: cache_op.splits list.splits)

lemma sessions_bounded:
  assumes "one_key ops" and "sc_sessions (fst (cache_run L ops (cache_with_capacity n))) k = Some l"
  shows "lh_len L l \<le> max 1 n"
proof -
  let ?c = "fst (cache_run L ops (cache_with_capacity n))"
  have "length (cached ?c k) \<le> max 1 (sc_capacity ?c)" using sessions_inv_run [OF assms(1), of n] by (simp add: sessions_inv_def)
  moreover have "sc_capacity ?c = n" by (simp add: capacity_run) (simp add: cache_with_capacity_def)
  ultimately show ?thesis using assms(2) by (simp add: cached_def elems_len)
qed

end

section \<open>The laws hold of lists\<close>

definition list_set :: "SslSession list linked_set" where
  "list_set =
     \<lparr>lh_new = [], lh_len = length, lh_pop_front = (\<lambda>l. (tl l, case l of [] \<Rightarrow> None | s # _ \<Rightarrow> Some s)),
      lh_front = (\<lambda>l. case l of [] \<Rightarrow> None | s # _ \<Rightarrow> Some s),
      lh_insert = (\<lambda>s l. filter (\<lambda>x. ss_id x \<noteq> ss_id s) l @ [s]),
      lh_remove = (\<lambda>sid. filter (\<lambda>x. ss_id x \<noteq> sid))\<rparr>"

interpretation list_set: linked_set_laws list_set id
  by unfold_locales (auto simp: list_set_def)

section \<open>Properties\<close>

text \<open>C22. Suppose that no session id is ever inserted for two hosts. Then, whatever sequence of insertions, lookups and removals the
  cache goes through: a session that is offered to a host was received from that host before; a TLS 1.3 session is offered once only, unless one
  with its id has been received again in between; and no more sessions are kept for a host than the capacity, or one where the capacity is zero.\<close>
theorem tls_sessions:
  assumes "linked_set_laws L elems" and "one_key ops" and "cache_run L ops (cache_with_capacity n) = (c, rs)"
  shows "(\<forall>i s. i < length ops \<longrightarrow> rs ! i = Some s \<longrightarrow> (\<exists>k. ops ! i = GetOp k \<and> (\<exists>j<i. ops ! j = InsertOp k s))) \<and>
    (\<forall>i j s s'. i < j \<longrightarrow> j < length ops \<longrightarrow> rs ! i = Some s \<longrightarrow> ss_version s = TLS1_3 \<longrightarrow> rs ! j = Some s' \<longrightarrow> ss_id s' = ss_id s \<longrightarrow>
       (\<exists>m k s''. i < m \<and> m < j \<and> ops ! m = InsertOp k s'' \<and> ss_id s'' = ss_id s)) \<and>
    (\<forall>k l. sc_sessions c k = Some l \<longrightarrow> lh_len L l \<le> max 1 n)"
proof -
  have "c = fst (cache_run L ops (cache_with_capacity n))" "rs = snd (cache_run L ops (cache_with_capacity n))" using assms(3) by simp_all
  with linked_set_laws.sessions_given [OF assms(1,2), where n = n] linked_set_laws.tls13_given_once [OF assms(1,2), where n = n]
    linked_set_laws.sessions_bounded [OF assms(1,2), where n = n] show ?thesis by blast
qed

text \<open>Witness of C22: a session is received, offered, and not offered again.\<close>
theorem tls_sessions_witness:
  "let s = \<lparr>ss_id = ''a'', ss_version = TLS1_3, ss_data = []\<rparr>; ops = [InsertOp ''h'' s, GetOp ''h'', GetOp ''h'']
   in snd (cache_run list_set ops (cache_with_capacity 8)) = [None, Some s, None] \<and> (\<exists>j<1. ops ! j = InsertOp ''h'' s)"
proof -
  let ?s = "\<lparr>ss_id = ''a'', ss_version = TLS1_3, ss_data = []\<rparr>"
  let ?ops = "[InsertOp ''h'' ?s, GetOp ''h'', GetOp ''h'']"
  have r: "snd (cache_run list_set ?ops (cache_with_capacity 8)) = [None, Some ?s, None]"
    by (simp add: cache_step_def cache_get_def cache_insert_def cache_remove_def cache_with_capacity_def list_set_def)
  have "one_key ?ops" by (simp add: one_key_def)
  from tls_sessions [OF list_set.linked_set_laws_axioms this, of 8 "fst (cache_run list_set ?ops (cache_with_capacity 8))"
      "snd (cache_run list_set ?ops (cache_with_capacity 8))", THEN conjunct1, rule_format, of 1 ?s]
  have "\<exists>k. ?ops ! 1 = GetOp k \<and> (\<exists>j<1. ?ops ! j = InsertOp k ?s)"
    unfolding r by simp
  then show ?thesis using r by simp
qed

end
