(* ===== verification/Ip_Addr.thy ===== *)
theory Ip_Addr
  imports Prelude
begin

text \<open>
  The part of Rust's \<^verbatim>\<open>std::net\<close> and \<^verbatim>\<open>std::str\<close> that the proxy code uses: addresses, their octets in network order, the
  parser behind \<^verbatim>\<open>host.parse::<IpAddr>()\<close>, and the check of \<^verbatim>\<open>from_utf8\<close>. A text is the list of its bytes.
\<close>

section \<open>Numbers in network order\<close>

primrec be_bytes :: "nat \<Rightarrow> nat \<Rightarrow> bytes" where
  "be_bytes 0 x = []"
| "be_bytes (Suc n) x = be_bytes n (x div 256) @ [char_of (x mod 256)]"

definition from_be :: "bytes \<Rightarrow> nat" where
  "from_be bs = foldl (\<lambda>a b. 256 * a + byte_val b) 0 bs"

lemma length_be_bytes [simp]: "length (be_bytes n x) = n"
  by (induction n arbitrary: x) auto

lemma from_be_snoc [simp]: "from_be (bs @ [b]) = 256 * from_be bs + byte_val b"
  by (simp add: from_be_def)

lemma from_be_Nil [simp]: "from_be [] = 0"
  by (simp add: from_be_def)

lemma from_be_bytes: "x < 256 ^ n \<Longrightarrow> from_be (be_bytes n x) = x"
proof (induction n arbitrary: x)
  case (Suc n)
  have "x div 256 < 256 ^ n" using Suc.prems by (simp add: less_mult_imp_div_less mult.commute)
  with Suc.IH show ?case by simp
qed simp

lemma byte_val_less: "byte_val b < 256"
  using of_char_mod_256 [of b, where ?'a = nat] by (metis mod_less_divisor zero_less_numeral)

lemma be_bytes_from_be: "be_bytes (length bs) (from_be bs) = bs"
proof (induction bs rule: rev_induct)
  case (snoc b bs)
  have "(256 * from_be bs + byte_val b) div 256 = from_be bs" "(256 * from_be bs + byte_val b) mod 256 = byte_val b"
    using byte_val_less [of b] by simp_all
  with snoc show ?case by simp
qed simp

section \<open>Addresses\<close>

datatype IpAddr = V4 "32 word" | V6 "128 word"

type_synonym SocketAddr = "IpAddr \<times> u16"

definition ipv4_octets :: "32 word \<Rightarrow> bytes" where
  "ipv4_octets ip = be_bytes 4 (unat ip)"

definition ipv6_octets :: "128 word \<Rightarrow> bytes" where
  "ipv6_octets ip = be_bytes 16 (unat ip)"

definition u16_bytes :: "u16 \<Rightarrow> bytes" where
  "u16_bytes p = be_bytes 2 (unat p)"

lemma octets_length [simp]: "length (ipv4_octets a) = 4" "length (ipv6_octets b) = 16" "length (u16_bytes p) = 2"
  by (simp_all add: ipv4_octets_def ipv6_octets_def u16_bytes_def)

lemma octets_value [simp]:
  "of_nat (from_be (ipv4_octets a)) = a" "of_nat (from_be (ipv6_octets b)) = b" "of_nat (from_be (u16_bytes p)) = p"
  using unsigned_less [of a, where ?'a = nat] unsigned_less [of b, where ?'a = nat] unsigned_less [of p, where ?'a = nat]
  by (simp_all add: ipv4_octets_def ipv6_octets_def u16_bytes_def from_be_bytes)

section \<open>The parser\<close>

text \<open>\<^verbatim>\<open>Parser\<close> of \<^verbatim>\<open>std::net::parser\<close>: each reader gives the value and the rest of the input, or fails and leaves the input
  as it was. \<open>read_number\<close> reads digits in a radix, at most \<open>max_digits\<close> of them, into a value below a bound;
  a number that starts with a zero digit has only that digit unless zero prefixes are allowed.\<close>

definition to_digit :: "nat \<Rightarrow> byte \<Rightarrow> nat option" where
  "to_digit radix b =
     (let d = (if byte_in CHR ''0'' CHR ''9'' b then Some (byte_val b - 48)
               else if byte_in CHR ''a'' CHR ''z'' b then Some (byte_val b - 87)
               else if byte_in CHR ''A'' CHR ''Z'' b then Some (byte_val b - 55)
               else None)
      in case d of None \<Rightarrow> None | Some v \<Rightarrow> if v < radix then Some v else None)"

fun read_digits :: "nat \<Rightarrow> bytes \<Rightarrow> nat list \<times> bytes" where
  "read_digits radix [] = ([], [])"
| "read_digits radix (b # bs) =
     (case to_digit radix b of
        None \<Rightarrow> ([], b # bs)
      | Some d \<Rightarrow> (case read_digits radix bs of (ds, rest) \<Rightarrow> (d # ds, rest)))"

definition read_number :: "nat \<Rightarrow> nat \<Rightarrow> bool \<Rightarrow> nat \<Rightarrow> bytes \<Rightarrow> (nat \<times> bytes) option" where
  "read_number radix max_digits allow_zero_prefix bound s =
     (case read_digits radix s of
        (ds, rest) \<Rightarrow>
          let v = foldl (\<lambda>a d. a * radix + d) 0 ds
          in if ds = [] \<or> max_digits < length ds \<or> bound \<le> v then None
             else if \<not> allow_zero_prefix \<and> hd ds = 0 \<and> 1 < length ds then None
             else Some (v, rest))"

definition read_given_char :: "byte \<Rightarrow> bytes \<Rightarrow> bytes option" where
  "read_given_char c s = (case s of [] \<Rightarrow> None | b # bs \<Rightarrow> if b = c then Some bs else None)"

text \<open>\<open>read_separator\<close>: no separator before the first item.\<close>

definition read_separator :: "byte \<Rightarrow> nat \<Rightarrow> (bytes \<Rightarrow> ('a \<times> bytes) option) \<Rightarrow> bytes \<Rightarrow> ('a \<times> bytes) option" where
  "read_separator sep i item s =
     (if i = 0 then item s else case read_given_char sep s of None \<Rightarrow> None | Some s' \<Rightarrow> item s')"

text \<open>Loops over the slots of an array take the list of its indices.\<close>

fun read_octets :: "nat list \<Rightarrow> bytes \<Rightarrow> (nat list \<times> bytes) option" where
  "read_octets [] s = Some ([], s)"
| "read_octets (i # is) s =
     (case read_separator CHR ''.'' i (read_number 10 3 False 256) s of
        None \<Rightarrow> None
      | Some (v, s') \<Rightarrow> (case read_octets is s' of None \<Rightarrow> None | Some (vs, rest) \<Rightarrow> Some (v # vs, rest)))"

definition read_ipv4_addr :: "bytes \<Rightarrow> (nat list \<times> bytes) option" where
  "read_ipv4_addr s = read_octets [0, 1, 2, 3] s"

definition ipv4_value :: "nat list \<Rightarrow> 32 word" where
  "ipv4_value vs = of_nat (foldl (\<lambda>a v. 256 * a + v) 0 vs)"

text \<open>\<open>read_groups\<close>: the groups read, whether they ended in an IPv4 address, for which at least two slots have to be
  left, and the rest.\<close>

fun read_groups :: "nat list \<Rightarrow> bytes \<Rightarrow> nat list \<times> bool \<times> bytes" where
  "read_groups [] s = ([], False, s)"
| "read_groups (i # is) s =
     (case (if is \<noteq> [] then read_separator CHR '':'' i read_ipv4_addr s else None) of
        Some (vs, rest) \<Rightarrow> ([256 * vs ! 0 + vs ! 1, 256 * vs ! 2 + vs ! 3], True, rest)
      | None \<Rightarrow>
          (case read_separator CHR '':'' i (read_number 16 4 True 65536) s of
             None \<Rightarrow> ([], False, s)
           | Some (g, s') \<Rightarrow> (case read_groups is s' of (gs, b, rest) \<Rightarrow> (g # gs, b, rest))))"

definition groups_value :: "nat list \<Rightarrow> 128 word" where
  "groups_value gs = of_nat (foldl (\<lambda>a g. 65536 * a + g) 0 gs)"

definition read_ipv6_addr :: "bytes \<Rightarrow> (128 word \<times> bytes) option" where
  "read_ipv6_addr s =
     (case read_groups [0, 1, 2, 3, 4, 5, 6, 7] s of
        (head, head_ipv4, rest) \<Rightarrow>
          if length head = 8 then Some (groups_value head, rest)
          else if head_ipv4 then None
          else case Option.bind (read_given_char CHR '':'' rest) (read_given_char CHR '':'') of
                 None \<Rightarrow> None
               | Some s' \<Rightarrow>
                   (case read_groups (take (8 - (length head + 1)) [0, 1, 2, 3, 4, 5, 6]) s' of
                      (tail, _, rest') \<Rightarrow>
                        Some (groups_value (head @ replicate (8 - length head - length tail) 0 @ tail), rest')))"

definition parse_ip :: "bytes \<Rightarrow> IpAddr option" where
  "parse_ip s =
     (case (case read_ipv4_addr s of
              Some (vs, rest) \<Rightarrow> Some (V4 (ipv4_value vs), rest)
            | None \<Rightarrow> map_option (\<lambda>(a, rest). (V6 a, rest)) (read_ipv6_addr s)) of
        Some (ip, []) \<Rightarrow> Some ip
      | _ \<Rightarrow> None)"

text \<open>Some addresses, read by the kernel.\<close>

lemma foldl_zeros: "foldl (\<lambda>a g. 65536 * a + g) 0 (replicate n 0) = (0 :: nat)"
  by (induction n) auto

lemmas parse_ip_eval = parse_ip_def read_ipv4_addr_def read_ipv6_addr_def ipv4_value_def groups_value_def
  read_separator_def read_given_char_def read_number_def to_digit_def byte_in_def Let_def

lemma parse_ip_loopback: "parse_ip ''127.0.0.1'' = Some (V4 0x7F000001)"
  by (simp add: parse_ip_eval)

lemma parse_ip_zero_prefix: "parse_ip ''127.0.0.01'' = None"
  by (simp add: parse_ip_eval)

lemma parse_ip_v6: "parse_ip ''::1'' = Some (V6 1)"
  by (simp add: parse_ip_eval foldl_zeros)

lemma parse_ip_v6_v4: "parse_ip ''::ffff:1.2.3.4'' = Some (V6 0xFFFF01020304)"
  by (simp add: parse_ip_eval foldl_zeros)

lemma parse_ip_name: "parse_ip ''example.com'' = None"
  by (simp add: parse_ip_eval)

section \<open>Text\<close>

text \<open>\<^verbatim>\<open>std::str::from_utf8\<close>: the ranges of the second byte depend on the first.\<close>

definition cont_byte :: "byte \<Rightarrow> bool" where
  "cont_byte b \<longleftrightarrow> 128 \<le> byte_val b \<and> byte_val b < 192"

fun is_utf8 :: "bytes \<Rightarrow> bool" where
  "is_utf8 [] \<longleftrightarrow> True"
| "is_utf8 (b # bs) \<longleftrightarrow>
     (let v = byte_val b
      in if v < 128 then is_utf8 bs
         else case bs of
                [] \<Rightarrow> False
              | c1 # r1 \<Rightarrow>
                  let w = byte_val c1
                  in if 194 \<le> v \<and> v < 224 then cont_byte c1 \<and> is_utf8 r1
                     else case r1 of
                            [] \<Rightarrow> False
                          | c2 # r2 \<Rightarrow>
                              if 224 \<le> v \<and> v < 240
                              then (if v = 224 then 160 \<le> w \<and> w < 192 else if v = 237 then 128 \<le> w \<and> w < 160 else cont_byte c1)
                                \<and> cont_byte c2 \<and> is_utf8 r2
                              else case r2 of
                                     [] \<Rightarrow> False
                                   | c3 # r3 \<Rightarrow>
                                       240 \<le> v \<and> v < 245 \<and>
                                       (if v = 240 then 144 \<le> w \<and> w < 192 else if v = 244 then 128 \<le> w \<and> w < 144 else cont_byte c1)
                                       \<and> cont_byte c2 \<and> cont_byte c3 \<and> is_utf8 r3)"

lemma is_utf8_ascii: "list_all (\<lambda>b. byte_val b < 128) bs \<Longrightarrow> is_utf8 bs"
  by (induction bs) simp_all

end
