(* ===== verification/Proxy.thy ===== *)
theory Proxy
  imports Headers Ip_Addr
begin

text \<open>
  The choice of a proxy, \<^verbatim>\<open>src/src/proxy.rs\<close>, and the network scheme of a request,
  \<^verbatim>\<open>src/src/core/client/network.rs\<close>: proxy addresses and their credentials, the rules for which
  requests a proxy is used, the list of hosts that are reached without one, the environment variables.

  The crates \<^verbatim>\<open>url\<close>, \<^verbatim>\<open>ipnet\<close>, \<^verbatim>\<open>base64\<close> and \<^verbatim>\<open>percent_encoding\<close> are parameters, the record \<open>proxy_lib\<close>.
  Where the code panics the result is \<^const>\<open>None\<close>; in what does not panic an error is an \<^const>\<open>Inl\<close>.
\<close>

section \<open>Parameters\<close>

datatype url_parse_error = RelativeUrlWithoutBase | OtherParseError

record ('u, 'n) proxy_lib =
  pl_url_parse :: "string \<Rightarrow> url_parse_error + 'u"
  pl_has_host :: "'u \<Rightarrow> bool"
  pl_scheme :: "'u \<Rightarrow> string"
  pl_host_port :: "'u \<Rightarrow> string"
  pl_username :: "'u \<Rightarrow> string"
  pl_password :: "'u \<Rightarrow> string option"
  pl_socket_addrs :: "'u \<Rightarrow> u16 option \<Rightarrow> SocketAddr list option"
  pl_authority :: "string \<Rightarrow> string option"
  pl_percent_decode :: "string \<Rightarrow> string"
  pl_base64 :: "bytes \<Rightarrow> bytes"
  pl_net_parse :: "string \<Rightarrow> 'n option"
  pl_net_contains :: "'n \<Rightarrow> IpAddr \<Rightarrow> bool"

text \<open>What a destination is asked for, the trait \<^verbatim>\<open>Dst\<close>.\<close>

record dst =
  dst_scheme :: string
  dst_host :: string
  dst_port :: "u16 option"

section \<open>Hosts without a proxy\<close>

datatype 'n Ip = Address IpAddr | Network 'n

record 'n NoProxy =
  np_ips :: "'n Ip list"
  np_domains :: "string list"

definition default_no_proxy :: "'n NoProxy" where
  "default_no_proxy = \<lparr>np_ips = [], np_domains = []\<rparr>"

fun no_proxy_parts :: "('u, 'n, 'z) proxy_lib_scheme \<Rightarrow> string list \<Rightarrow> 'n NoProxy \<Rightarrow> 'n NoProxy" where
  "no_proxy_parts L [] np = np"
| "no_proxy_parts L (part # parts) np =
     no_proxy_parts L parts
       (case pl_net_parse L part of
          Some net \<Rightarrow> np\<lparr>np_ips := np_ips np @ [Network net]\<rparr>
        | None \<Rightarrow>
            (case parse_ip part of
               Some addr \<Rightarrow> np\<lparr>np_ips := np_ips np @ [Address addr]\<rparr>
             | None \<Rightarrow> np\<lparr>np_domains := np_domains np @ [part]\<rparr>))"

definition from_string :: "('u, 'n, 'z) proxy_lib_scheme \<Rightarrow> string \<Rightarrow> 'n NoProxy option" where
  "from_string L no_proxy_list =
     (if no_proxy_list = [] then None
      else Some (no_proxy_parts L (map trim (split_on CHR '','' no_proxy_list)) default_no_proxy))"

fun ip_contains :: "('u, 'n, 'z) proxy_lib_scheme \<Rightarrow> 'n Ip list \<Rightarrow> IpAddr \<Rightarrow> bool" where
  "ip_contains L [] addr = False"
| "ip_contains L (ip # ips) addr =
     (case ip of
        Address address \<Rightarrow> if addr = address then True else ip_contains L ips addr
      | Network net \<Rightarrow> if pl_net_contains L net addr then True else ip_contains L ips addr)"

text \<open>\<^verbatim>\<open>domain_len - d.len() - 1\<close> panics where it would be negative.\<close>

definition checked_sub :: "nat \<Rightarrow> nat \<Rightarrow> nat option" where
  "checked_sub a b = (if b \<le> a then Some (a - b) else None)"

definition strip_prefix :: "byte \<Rightarrow> string \<Rightarrow> string option" where
  "strip_prefix c s = (case s of [] \<Rightarrow> None | b # bs \<Rightarrow> if b = c then Some bs else None)"

fun domain_contains :: "string list \<Rightarrow> string \<Rightarrow> bool option" where
  "domain_contains [] domain = Some False"
| "domain_contains (d # ds) domain =
     (if d = domain \<or> strip_prefix CHR ''.'' d = Some domain then Some True
      else if ends_with domain d
      then (if starts_with d ''.'' then Some True
            else case Option.bind (checked_sub (length domain) (length d)) (\<lambda>n. checked_sub n 1) of
                   None \<Rightarrow> None
                 | Some i \<Rightarrow>
                     if i < length domain \<and> domain ! i = CHR ''.'' then Some True else domain_contains ds domain)
      else if d = ''*'' then Some True
      else domain_contains ds domain)"

definition unbracketed :: "string \<Rightarrow> string" where
  "unbracketed host =
     (if starts_with host ''['' then trim_with (\<lambda>c. c \<in> {CHR ''['', CHR '']''}) host else host)"

definition no_proxy_contains :: "('u, 'n, 'z) proxy_lib_scheme \<Rightarrow> 'n NoProxy \<Rightarrow> string \<Rightarrow> bool option" where
  "no_proxy_contains L np host =
     (let host = unbracketed host
      in case parse_ip host of
           Some ip \<Rightarrow> Some (ip_contains L (np_ips np) ip)
         | None \<Rightarrow> domain_contains (np_domains np) host)"

section \<open>Proxy addresses\<close>

datatype 'm ProxyScheme =
    Http "header_value option" string "'m option"
  | Https "header_value option" string "'m option"
  | Socks4 SocketAddr bool
  | Socks5 SocketAddr "(string \<times> string) option" bool

definition maybe_http_auth :: "'m ProxyScheme \<Rightarrow> header_value option" where
  "maybe_http_auth s = (case s of Http auth _ _ \<Rightarrow> auth | Https auth _ _ \<Rightarrow> auth | _ \<Rightarrow> None)"

definition maybe_http_headers :: "'m ProxyScheme \<Rightarrow> 'm option" where
  "maybe_http_headers s = (case s of Http _ _ headers \<Rightarrow> headers | Https _ _ headers \<Rightarrow> headers | _ \<Rightarrow> None)"

definition basic_auth :: "('m, 'y) http_lib_scheme \<Rightarrow> ('u, 'n, 'z) proxy_lib_scheme \<Rightarrow> string \<Rightarrow> string option \<Rightarrow> header_value option" where
  "basic_auth H L username password =
     hv_from_bytes H (''Basic '' @ pl_base64 L (username @ '':'' @ (case password of None \<Rightarrow> [] | Some p \<Rightarrow> p)))"

definition encode_basic_auth :: "('m, 'y) http_lib_scheme \<Rightarrow> ('u, 'n, 'z) proxy_lib_scheme \<Rightarrow> string \<Rightarrow> string \<Rightarrow> header_value option" where
  "encode_basic_auth H L username password = basic_auth H L username (Some password)"

definition scheme_set_basic_auth ::
  "('m, 'y) http_lib_scheme \<Rightarrow> ('u, 'n, 'z) proxy_lib_scheme \<Rightarrow> string \<Rightarrow> string \<Rightarrow> 'm ProxyScheme \<Rightarrow> 'm ProxyScheme option" where
  "scheme_set_basic_auth H L username password s =
     (case s of
        Http _ host headers \<Rightarrow> map_option (\<lambda>h. Http (Some h) host headers) (encode_basic_auth H L username password)
      | Https _ host headers \<Rightarrow> map_option (\<lambda>h. Https (Some h) host headers) (encode_basic_auth H L username password)
      | Socks4 _ _ \<Rightarrow> None
      | Socks5 addr _ remote_dns \<Rightarrow> Some (Socks5 addr (Some (username, password)) remote_dns))"

definition scheme_set_custom_http_auth :: "header_value \<Rightarrow> 'm ProxyScheme \<Rightarrow> 'm ProxyScheme option" where
  "scheme_set_custom_http_auth header_value s =
     (case s of
        Http _ host headers \<Rightarrow> Some (Http (Some header_value) host headers)
      | Https _ host headers \<Rightarrow> Some (Https (Some header_value) host headers)
      | Socks4 _ _ \<Rightarrow> None
      | Socks5 _ _ _ \<Rightarrow> None)"

definition scheme_set_custom_http_headers :: "'m \<Rightarrow> 'm ProxyScheme \<Rightarrow> 'm ProxyScheme option" where
  "scheme_set_custom_http_headers custom_headers s =
     (case s of
        Http auth host _ \<Rightarrow> Some (Http auth host (Some custom_headers))
      | Https auth host _ \<Rightarrow> Some (Https auth host (Some custom_headers))
      | Socks4 _ _ \<Rightarrow> None
      | Socks5 _ _ _ \<Rightarrow> None)"

definition if_no_auth :: "header_value option \<Rightarrow> 'm ProxyScheme \<Rightarrow> 'm ProxyScheme" where
  "if_no_auth update s =
     (case s of
        Http auth host headers \<Rightarrow> Http (if auth = None then update else auth) host headers
      | Https auth host headers \<Rightarrow> Https (if auth = None then update else auth) host headers
      | _ \<Rightarrow> s)"

section \<open>Parsing the address of a proxy\<close>

datatype proxy_error = InvalidUrl | NoHost | InvalidAuthority | Unresolved | UnknownProxyScheme

definition into_url :: "('u, 'n, 'z) proxy_lib_scheme \<Rightarrow> string \<Rightarrow> url_parse_error option + 'u" where
  "into_url L s =
     (case pl_url_parse L s of
        Inl e \<Rightarrow> Inl (Some e)
      | Inr url \<Rightarrow> if pl_has_host L url then Inr url else Inl None)"

definition to_addr :: "('u, 'n, 'z) proxy_lib_scheme \<Rightarrow> 'u \<Rightarrow> proxy_error + SocketAddr" where
  "to_addr L url =
     (case pl_socket_addrs L url
             (if pl_scheme L url \<in> {''socks4'', ''socks4a'', ''socks5'', ''socks5h''} then Some 1080 else None) of
        None \<Rightarrow> Inl Unresolved
      | Some [] \<Rightarrow> Inl UnknownProxyScheme
      | Some (addr # _) \<Rightarrow> Inr addr)"

definition proxy_scheme_of :: "('u, 'n, 'z) proxy_lib_scheme \<Rightarrow> 'u \<Rightarrow> proxy_error + 'm ProxyScheme" where
  "proxy_scheme_of L url =
     (let scheme = pl_scheme L url
      in if scheme = ''http''
         then case pl_authority L (pl_host_port L url) of None \<Rightarrow> Inl InvalidAuthority | Some host \<Rightarrow> Inr (Http None host None)
         else if scheme = ''https''
         then case pl_authority L (pl_host_port L url) of None \<Rightarrow> Inl InvalidAuthority | Some host \<Rightarrow> Inr (Https None host None)
         else if scheme = ''socks4'' then map_sum id (\<lambda>addr. Socks4 addr False) (to_addr L url)
         else if scheme = ''socks4a'' then map_sum id (\<lambda>addr. Socks4 addr True) (to_addr L url)
         else if scheme = ''socks5'' then map_sum id (\<lambda>addr. Socks5 addr None False) (to_addr L url)
         else if scheme = ''socks5h'' then map_sum id (\<lambda>addr. Socks5 addr None True) (to_addr L url)
         else Inl UnknownProxyScheme)"

definition proxy_parse ::
  "('m, 'y) http_lib_scheme \<Rightarrow> ('u, 'n, 'z) proxy_lib_scheme \<Rightarrow> 'u \<Rightarrow> (proxy_error + 'm ProxyScheme) option" where
  "proxy_parse H L url =
     (case proxy_scheme_of L url of
        Inl e \<Rightarrow> Some (Inl e)
      | Inr scheme \<Rightarrow>
          (case pl_password L url of
             None \<Rightarrow> Some (Inr scheme)
           | Some pwd \<Rightarrow>
               map_option Inr (scheme_set_basic_auth H L (pl_percent_decode L (pl_username L url)) (pl_percent_decode L pwd) scheme)))"

text \<open>A text that does not parse for want of a scheme is taken as the address of an \<^verbatim>\<open>http\<close> proxy.\<close>

definition into_proxy_scheme ::
  "('m, 'y) http_lib_scheme \<Rightarrow> ('u, 'n, 'z) proxy_lib_scheme \<Rightarrow> string \<Rightarrow> (proxy_error + 'm ProxyScheme) option" where
  "into_proxy_scheme H L s =
     (case into_url L s of
        Inr url \<Rightarrow> proxy_parse H L url
      | Inl e \<Rightarrow>
          if e = Some OtherParseError then Some (Inl InvalidUrl)
          else case into_url L (''http://'' @ s) of
                 Inr url \<Rightarrow> proxy_parse H L url
               | Inl _ \<Rightarrow> Some (Inl (if e = None then NoHost else InvalidUrl)))"

section \<open>Which requests a proxy is for\<close>

record ('u, 'm) Custom =
  cu_auth :: "header_value option"
  cu_func :: "'u \<Rightarrow> (proxy_error + 'm ProxyScheme) option"

type_synonym 'm SystemProxyMap = "string \<rightharpoonup> 'm ProxyScheme"

datatype ('u, 'm) Intercept =
    InterceptAll "'m ProxyScheme"
  | InterceptHttp "'m ProxyScheme"
  | InterceptHttps "'m ProxyScheme"
  | InterceptSystem "'m SystemProxyMap"
  | InterceptCustom "('u, 'm) Custom"

record ('u, 'n, 'm) Proxy =
  px_intercept :: "('u, 'm) Intercept"
  px_no_proxy :: "'n NoProxy option"

definition proxy_new :: "('u, 'm) Intercept \<Rightarrow> ('u, 'n, 'm) Proxy" where
  "proxy_new i = \<lparr>px_intercept = i, px_no_proxy = None\<rparr>"

definition set_basic_auth ::
  "('m, 'y) http_lib_scheme \<Rightarrow> ('u, 'n, 'z) proxy_lib_scheme \<Rightarrow> string \<Rightarrow> string \<Rightarrow> ('u, 'm) Intercept \<Rightarrow> ('u, 'm) Intercept option" where
  "set_basic_auth H L username password i =
     (case i of
        InterceptAll s \<Rightarrow> map_option InterceptAll (scheme_set_basic_auth H L username password s)
      | InterceptHttp s \<Rightarrow> map_option InterceptHttp (scheme_set_basic_auth H L username password s)
      | InterceptHttps s \<Rightarrow> map_option InterceptHttps (scheme_set_basic_auth H L username password s)
      | InterceptSystem _ \<Rightarrow> None
      | InterceptCustom custom \<Rightarrow>
          map_option (\<lambda>h. InterceptCustom (custom\<lparr>cu_auth := Some h\<rparr>)) (encode_basic_auth H L username password))"

definition set_custom_http_auth :: "header_value \<Rightarrow> ('u, 'm) Intercept \<Rightarrow> ('u, 'm) Intercept option" where
  "set_custom_http_auth header_value i =
     (case i of
        InterceptAll s \<Rightarrow> map_option InterceptAll (scheme_set_custom_http_auth header_value s)
      | InterceptHttp s \<Rightarrow> map_option InterceptHttp (scheme_set_custom_http_auth header_value s)
      | InterceptHttps s \<Rightarrow> map_option InterceptHttps (scheme_set_custom_http_auth header_value s)
      | InterceptSystem _ \<Rightarrow> None
      | InterceptCustom custom \<Rightarrow> Some (InterceptCustom (custom\<lparr>cu_auth := Some header_value\<rparr>)))"

definition set_custom_http_headers :: "'m \<Rightarrow> ('u, 'm) Intercept \<Rightarrow> ('u, 'm) Intercept option" where
  "set_custom_http_headers headers i =
     (case i of
        InterceptAll s \<Rightarrow> map_option InterceptAll (scheme_set_custom_http_headers headers s)
      | InterceptHttp s \<Rightarrow> map_option InterceptHttp (scheme_set_custom_http_headers headers s)
      | InterceptHttps s \<Rightarrow> map_option InterceptHttps (scheme_set_custom_http_headers headers s)
      | InterceptSystem _ \<Rightarrow> None
      | InterceptCustom _ \<Rightarrow> Some i)"

definition custom_call :: "('u, 'n, 'z) proxy_lib_scheme \<Rightarrow> ('u, 'm) Custom \<Rightarrow> dst \<Rightarrow> 'm ProxyScheme option option" where
  "custom_call L custom uri =
     (case pl_url_parse L (dst_scheme uri @ ''://'' @ dst_host uri @
             (case dst_port uri of None \<Rightarrow> [] | Some _ \<Rightarrow> '':'') @
             (case dst_port uri of None \<Rightarrow> [] | Some p \<Rightarrow> decimal (unat p))) of
        Inl _ \<Rightarrow> None
      | Inr url \<Rightarrow>
          Some (case cu_func custom url of
                  Some (Inr scheme) \<Rightarrow> Some (if_no_auth (cu_auth custom) scheme)
                | _ \<Rightarrow> None))"

definition maybe_has_http_auth :: "('u, 'n, 'm) Proxy \<Rightarrow> bool" where
  "maybe_has_http_auth p =
     (case px_intercept p of
        InterceptAll s \<Rightarrow> maybe_http_auth s \<noteq> None
      | InterceptHttp s \<Rightarrow> maybe_http_auth s \<noteq> None
      | InterceptCustom _ \<Rightarrow> True
      | InterceptSystem system \<Rightarrow> Option.bind (system ''http'') maybe_http_auth \<noteq> None
      | InterceptHttps _ \<Rightarrow> False)"

definition http_basic_auth :: "('u, 'n, 'z) proxy_lib_scheme \<Rightarrow> ('u, 'n, 'm) Proxy \<Rightarrow> dst \<Rightarrow> header_value option option" where
  "http_basic_auth L p uri =
     (case px_intercept p of
        InterceptAll s \<Rightarrow> Some (maybe_http_auth s)
      | InterceptHttp s \<Rightarrow> Some (maybe_http_auth s)
      | InterceptSystem system \<Rightarrow> Some (Option.bind (system ''http'') maybe_http_auth)
      | InterceptCustom custom \<Rightarrow> map_option (\<lambda>r. Option.bind r maybe_http_auth) (custom_call L custom uri)
      | InterceptHttps _ \<Rightarrow> Some None)"

definition http_headers :: "('u, 'n, 'm) Proxy \<Rightarrow> 'm option" where
  "http_headers p =
     (case px_intercept p of
        InterceptAll s \<Rightarrow> maybe_http_headers s
      | InterceptHttp s \<Rightarrow> maybe_http_headers s
      | _ \<Rightarrow> None)"

definition intercept :: "('u, 'n, 'z) proxy_lib_scheme \<Rightarrow> ('u, 'n, 'm) Proxy \<Rightarrow> dst \<Rightarrow> 'm ProxyScheme option option" where
  "intercept L p uri =
     (case (case px_no_proxy p of None \<Rightarrow> Some False | Some np \<Rightarrow> no_proxy_contains L np (dst_host uri)) of
        None \<Rightarrow> None
      | Some in_no_proxy \<Rightarrow>
          (case px_intercept p of
             InterceptAll u \<Rightarrow> Some (if \<not> in_no_proxy then Some u else None)
           | InterceptHttp u \<Rightarrow> Some (if \<not> in_no_proxy \<and> dst_scheme uri = ''http'' then Some u else None)
           | InterceptHttps u \<Rightarrow> Some (if \<not> in_no_proxy \<and> dst_scheme uri = ''https'' then Some u else None)
           | InterceptSystem m \<Rightarrow> Some (if in_no_proxy then None else m (dst_scheme uri))
           | InterceptCustom custom \<Rightarrow> if \<not> in_no_proxy then custom_call L custom uri else Some None))"

definition is_match :: "('u, 'n, 'z) proxy_lib_scheme \<Rightarrow> ('u, 'n, 'm) Proxy \<Rightarrow> dst \<Rightarrow> bool option" where
  "is_match L p uri =
     (case px_intercept p of
        InterceptAll _ \<Rightarrow> Some True
      | InterceptHttp _ \<Rightarrow> Some (dst_scheme uri = ''http'')
      | InterceptHttps _ \<Rightarrow> Some (dst_scheme uri = ''https'')
      | InterceptSystem m \<Rightarrow> Some (m (dst_scheme uri) \<noteq> None)
      | InterceptCustom custom \<Rightarrow> map_option (\<lambda>r. r \<noteq> None) (custom_call L custom uri))"

section \<open>The environment\<close>

text \<open>\<^verbatim>\<open>env::var\<close> fails on what is not text, \<^verbatim>\<open>env::var_os\<close> does not.\<close>

type_synonym environment = "string \<rightharpoonup> bytes"

definition env_var :: "environment \<Rightarrow> string \<Rightarrow> string option" where
  "env_var env var = Option.bind (env var) (\<lambda>v. if is_utf8 v then Some v else None)"

definition is_cgi :: "environment \<Rightarrow> bool" where
  "is_cgi env \<longleftrightarrow> env ''REQUEST_METHOD'' \<noteq> None"

definition no_proxy_from_env :: "('u, 'n, 'z) proxy_lib_scheme \<Rightarrow> environment \<Rightarrow> 'n NoProxy option" where
  "no_proxy_from_env L env =
     (case (case env_var env ''NO_PROXY'' of None \<Rightarrow> env_var env ''no_proxy'' | Some v \<Rightarrow> Some v) of
        None \<Rightarrow> None
      | Some raw \<Rightarrow> Some (case from_string L raw of None \<Rightarrow> default_no_proxy | Some np \<Rightarrow> np))"

definition insert_proxy ::
  "('m, 'y) http_lib_scheme \<Rightarrow> ('u, 'n, 'z) proxy_lib_scheme \<Rightarrow> 'm SystemProxyMap \<Rightarrow> string \<Rightarrow> string \<Rightarrow> ('m SystemProxyMap \<times> bool) option" where
  "insert_proxy H L proxies scheme addr =
     (if trim addr = [] then Some (proxies, False)
      else case into_proxy_scheme H L addr of
             None \<Rightarrow> None
           | Some (Inr valid_addr) \<Rightarrow> Some (proxies(scheme \<mapsto> valid_addr), True)
           | Some (Inl _) \<Rightarrow> Some (proxies, False))"

definition insert_from_env ::
  "('m, 'y) http_lib_scheme \<Rightarrow> ('u, 'n, 'z) proxy_lib_scheme \<Rightarrow> environment \<Rightarrow> string \<Rightarrow> string \<Rightarrow> 'm SystemProxyMap \<Rightarrow>
   ('m SystemProxyMap \<times> bool) option" where
  "insert_from_env H L env scheme var proxies =
     (case env_var env var of
        None \<Rightarrow> Some (proxies, False)
      | Some val \<Rightarrow> insert_proxy H L proxies scheme val)"

text \<open>\<^verbatim>\<open>a && b\<close> and \<^verbatim>\<open>if !a { b }\<close> over operations that change the map.\<close>

definition and_then ::
  "('s \<Rightarrow> ('s \<times> bool) option) \<Rightarrow> ('s \<Rightarrow> ('s \<times> bool) option) \<Rightarrow> 's \<Rightarrow> ('s \<times> bool) option" where
  "and_then f g s = Option.bind (f s) (\<lambda>(s', b). if b then g s' else Some (s', False))"

definition unless :: "('s \<Rightarrow> ('s \<times> bool) option) \<Rightarrow> ('s \<Rightarrow> ('s \<times> bool) option) \<Rightarrow> 's \<Rightarrow> ('s \<times> bool) option" where
  "unless f g s = Option.bind (f s) (\<lambda>(s', b). if b then Some (s', True) else g s')"

definition in_sequence :: "('s \<Rightarrow> ('s \<times> bool) option) \<Rightarrow> ('s \<Rightarrow> ('s \<times> bool) option) \<Rightarrow> 's \<Rightarrow> ('s \<times> bool) option" where
  "in_sequence f g s = Option.bind (f s) (\<lambda>(s', _). g s')"

definition get_from_environment ::
  "('m, 'y) http_lib_scheme \<Rightarrow> ('u, 'n, 'z) proxy_lib_scheme \<Rightarrow> environment \<Rightarrow> 'm SystemProxyMap option" where
  "get_from_environment H L env =
     map_option fst
       (in_sequence
          (unless
             (and_then (insert_from_env H L env ''http'' ''ALL_PROXY'') (insert_from_env H L env ''https'' ''ALL_PROXY''))
             (in_sequence (insert_from_env H L env ''http'' ''all_proxy'') (insert_from_env H L env ''https'' ''all_proxy'')))
          (in_sequence
             (if is_cgi env then (\<lambda>s. Some (s, True))
              else unless (insert_from_env H L env ''http'' ''HTTP_PROXY'') (insert_from_env H L env ''http'' ''http_proxy''))
             (unless (insert_from_env H L env ''https'' ''HTTPS_PROXY'') (insert_from_env H L env ''https'' ''https_proxy'')))
          Map.empty)"

text \<open>Platforms without settings of their own.\<close>

definition system_proxy ::
  "('m, 'y) http_lib_scheme \<Rightarrow> ('u, 'n, 'z) proxy_lib_scheme \<Rightarrow> environment \<Rightarrow> ('u, 'n, 'm) Proxy option" where
  "system_proxy H L env =
     map_option (\<lambda>m. (proxy_new (InterceptSystem m))\<lparr>px_no_proxy := no_proxy_from_env L env\<rparr>) (get_from_environment H L env)"

section \<open>The network scheme of a request\<close>

record 'm NetworkSchemeBuilder =
  ns_interface :: "string option"
  ns_addresses :: "32 word option \<times> 128 word option"
  ns_proxy_scheme :: "'m ProxyScheme option"

datatype 'm NetworkScheme = Scheme "string option" "32 word option \<times> 128 word option" "'m ProxyScheme option" | DefaultScheme

definition ns_address :: "IpAddr option \<Rightarrow> 'm NetworkSchemeBuilder \<Rightarrow> 'm NetworkSchemeBuilder" where
  "ns_address addr b =
     b\<lparr>ns_addresses := (case addr of Some (V4 a) \<Rightarrow> (Some a, None) | Some (V6 a) \<Rightarrow> (None, Some a) | None \<Rightarrow> (None, None))\<rparr>"

definition ns_build :: "'m NetworkSchemeBuilder \<Rightarrow> 'm NetworkScheme" where
  "ns_build b =
     (if ns_proxy_scheme b = None \<and> ns_addresses b = (None, None) \<and> ns_interface b = None then DefaultScheme
      else Scheme (ns_interface b) (ns_addresses b) (ns_proxy_scheme b))"

definition take_proxy_scheme :: "'m NetworkScheme \<Rightarrow> 'm ProxyScheme option \<times> 'm NetworkScheme" where
  "take_proxy_scheme n =
     (case n of Scheme i a p \<Rightarrow> (p, Scheme i a None) | DefaultScheme \<Rightarrow> (None, DefaultScheme))"

text \<open>The proxies of a client and the destination of a request: \<^verbatim>\<open>ClientRef::network_scheme\<close> and \<^verbatim>\<open>ClientRef::proxy_auth\<close>.\<close>

fun set_proxies ::
  "('u, 'n, 'z) proxy_lib_scheme \<Rightarrow> dst \<Rightarrow> ('u, 'n, 'm) Proxy list \<Rightarrow> 'm NetworkSchemeBuilder \<Rightarrow> 'm NetworkSchemeBuilder option" where
  "set_proxies L uri [] builder = Some builder"
| "set_proxies L uri (p # ps) builder =
     (case intercept L p uri of
        None \<Rightarrow> None
      | Some None \<Rightarrow> set_proxies L uri ps builder
      | Some (Some s) \<Rightarrow> set_proxies L uri ps (builder\<lparr>ns_proxy_scheme := Some s\<rparr>))"

definition network_scheme ::
  "('u, 'n, 'z) proxy_lib_scheme \<Rightarrow> ('u, 'n, 'm) Proxy list \<Rightarrow> 'm NetworkSchemeBuilder \<Rightarrow> dst \<Rightarrow> 'm NetworkScheme \<Rightarrow> 'm NetworkScheme option" where
  "network_scheme L proxies builder uri dflt =
     (if dflt = DefaultScheme then map_option ns_build (set_proxies L uri proxies builder) else Some dflt)"

fun auth_from_proxies ::
  "('m, 'y) http_lib_scheme \<Rightarrow> ('u, 'n, 'z) proxy_lib_scheme \<Rightarrow> dst \<Rightarrow> ('u, 'n, 'm) Proxy list \<Rightarrow> 'm \<Rightarrow> 'm option" where
  "auth_from_proxies H L uri [] headers = Some headers"
| "auth_from_proxies H L uri (p # ps) headers =
     (case is_match L p uri of
        None \<Rightarrow> None
      | Some False \<Rightarrow> auth_from_proxies H L uri ps headers
      | Some True \<Rightarrow>
          (case http_basic_auth L p uri of
             None \<Rightarrow> None
           | Some auth \<Rightarrow>
               let headers' = (case auth of None \<Rightarrow> headers | Some header \<Rightarrow> hm_insert H ''proxy-authorization'' header headers)
               in Some (case http_headers p of None \<Rightarrow> headers' | Some hs \<Rightarrow> hm_extend H headers' hs)))"

definition proxy_auth ::
  "('m, 'y) http_lib_scheme \<Rightarrow> ('u, 'n, 'z) proxy_lib_scheme \<Rightarrow> ('u, 'n, 'm) Proxy list \<Rightarrow> dst \<Rightarrow> 'm \<Rightarrow> 'm option" where
  "proxy_auth H L proxies uri headers =
     (if \<not> list_ex maybe_has_http_auth proxies then Some headers
      else if dst_scheme uri \<noteq> ''http'' then Some headers
      else if hm_contains_key H headers ''proxy-authorization'' then Some headers
      else auth_from_proxies H L uri proxies headers)"

section \<open>Which hosts an entry of the list covers\<close>

text \<open>The reference, from the documentation of \<^verbatim>\<open>NoProxy::from_string\<close>: an entry covers its domain and the subdomains of it, whether
  or not it is written with a leading dot; the entry \<^verbatim>\<open>*\<close> covers every host name.\<close>

definition base_domain :: "string \<Rightarrow> string" where
  "base_domain d = (case strip_prefix CHR ''.'' d of None \<Rightarrow> d | Some b \<Rightarrow> b)"

definition covers_domain :: "string \<Rightarrow> string \<Rightarrow> bool" where
  "covers_domain d host \<longleftrightarrow> host = base_domain d \<or> ends_with host (CHR ''.'' # base_domain d) \<or> d = ''*''"

definition covers_entry :: "('u, 'n, 'z) proxy_lib_scheme \<Rightarrow> string \<Rightarrow> string \<Rightarrow> bool" where
  "covers_entry L part host =
     (case (parse_ip host, pl_net_parse L part, parse_ip part) of
        (Some ip, Some net, _) \<Rightarrow> pl_net_contains L net ip
      | (Some ip, None, addr) \<Rightarrow> addr = Some ip
      | (None, None, None) \<Rightarrow> covers_domain part host
      | _ \<Rightarrow> False)"

lemma dot_before:
  assumes "ends_with host d" and "host \<noteq> d"
  shows "ends_with host (CHR ''.'' # d) \<longleftrightarrow> host ! (length host - length d - 1) = CHR ''.''"
proof -
  from assms obtain p where p: "host = p @ d" "p \<noteq> []" by (auto simp: ends_with_iff)
  then obtain q c where q: "p = q @ [c]" by (cases p rule: rev_cases) auto
  show ?thesis using p q by (auto simp: ends_with_iff nth_append)
qed

lemma domain_contains_iff:
  assumes "\<not> ends_with host ''*''"
  shows "domain_contains ds host = Some (\<exists>d\<in>set ds. covers_domain d host)"
proof (induction ds)
  case (Cons d ds)
  have strip: "strip_prefix CHR ''.'' d = Some b \<longleftrightarrow> d = CHR ''.'' # b" for b
    by (cases d) (auto simp: strip_prefix_def)
  consider (eq) "d = host \<or> strip_prefix CHR ''.'' d = Some host" | (dot) b where "d = CHR ''.'' # b" "host \<noteq> b" "d \<noteq> host"
    | (plain) "strip_prefix CHR ''.'' d = None" "d \<noteq> host"
    by (cases "strip_prefix CHR ''.'' d") (use strip in auto)
  then show ?case
  proof cases
    case eq
    then have "covers_domain d host"
      by (cases d) (auto simp: covers_domain_def base_domain_def strip_prefix_def ends_with_def split: if_splits)
    with eq show ?thesis by auto
  next
    case dot
    then have "covers_domain d host \<longleftrightarrow> ends_with host d"
      by (auto simp: covers_domain_def base_domain_def strip_prefix_def)
    with dot Cons.IH show ?thesis by (auto simp: strip_prefix_def starts_with_def)
  next
    case plain
    have len: "length d + 1 \<le> length host" if "ends_with host d"
      using that plain(2) by (auto simp: ends_with_iff Suc_le_eq)
    have nd: "\<not> starts_with d ''.''" using plain(1) by (cases d) (auto simp: strip_prefix_def starts_with_def split: if_splits)
    have cov: "covers_domain d host \<longleftrightarrow> (if ends_with host d then host ! (length host - length d - 1) = CHR ''.'' else d = ''*'')"
    proof -
      have "ends_with host d" if "ends_with host (CHR ''.'' # d)" using that by (auto simp: ends_with_iff)
      then show ?thesis using plain dot_before [of host d] assms by (auto simp: covers_domain_def base_domain_def)
    qed
    show ?thesis
    proof (cases "ends_with host d")
      case True
      with len have "length d + 1 \<le> length host" by simp
      with True plain nd cov Cons.IH show ?thesis by (auto simp: checked_sub_def)
    next
      case False
      with plain cov Cons.IH show ?thesis by auto
    qed
  qed
qed simp

lemma ip_contains_append: "ip_contains L (ips @ ips') addr \<longleftrightarrow> ip_contains L ips addr \<or> ip_contains L ips' addr"
  by (induction ips) (auto split: Ip.splits)

lemma no_proxy_parts_domains:
  "np_domains (no_proxy_parts L parts np) = np_domains np @ filter (\<lambda>p. pl_net_parse L p = None \<and> parse_ip p = None) parts"
  by (induction parts arbitrary: np) (auto split: option.splits)

lemma no_proxy_parts_ips:
  "ip_contains L (np_ips (no_proxy_parts L parts np)) ip \<longleftrightarrow> ip_contains L (np_ips np) ip \<or>
     (\<exists>p\<in>set parts. case pl_net_parse L p of Some net \<Rightarrow> pl_net_contains L net ip | None \<Rightarrow> parse_ip p = Some ip)"
proof (induction parts arbitrary: np)
  case (Cons p parts)
  show ?case
    by (cases "pl_net_parse L p"; cases "parse_ip p") (auto simp: Cons.IH ip_contains_append)
qed simp

lemma no_proxy_decision_list:
  assumes "from_string L raw = Some np" and "\<not> ends_with (unbracketed host) ''*''"
  shows "no_proxy_contains L np host = Some (\<exists>part\<in>set (split_on CHR '','' raw). covers_entry L (trim part) (unbracketed host))"
proof -
  from assms(1) have np: "np = no_proxy_parts L (map trim (split_on CHR '','' raw)) default_no_proxy"
    by (simp add: from_string_def split: if_splits)
  show ?thesis
  proof (cases "parse_ip (unbracketed host)")
    case None
    then show ?thesis
      by (auto simp: no_proxy_contains_def Let_def domain_contains_iff [OF assms(2)] np no_proxy_parts_domains covers_entry_def default_no_proxy_def
          split: option.splits)
  next
    case (Some ip)
    have "covers_entry L part (unbracketed host) \<longleftrightarrow>
        (case pl_net_parse L part of Some net \<Rightarrow> pl_net_contains L net ip | None \<Rightarrow> parse_ip part = Some ip)" for part
      using Some by (simp add: covers_entry_def split: option.split)
    then have "ip_contains L (np_ips np) ip \<longleftrightarrow> (\<exists>part\<in>set (split_on CHR '','' raw). covers_entry L (trim part) (unbracketed host))"
      by (simp add: np no_proxy_parts_ips default_no_proxy_def)
    with Some show ?thesis by (simp add: no_proxy_contains_def)
  qed
qed

section \<open>The environment variables\<close>

text \<open>The address a variable gives: none if it is unset, blank or not the address of a proxy; a panic is the outer \<^const>\<open>None\<close>.\<close>

definition env_address ::
  "('m, 'y) http_lib_scheme \<Rightarrow> ('u, 'n, 'z) proxy_lib_scheme \<Rightarrow> environment \<Rightarrow> string \<Rightarrow> 'm ProxyScheme option option" where
  "env_address H L env var =
     (case env_var env var of
        None \<Rightarrow> Some None
      | Some v \<Rightarrow>
          if trim v = [] then Some None
          else map_option (\<lambda>r. case r of Inl _ \<Rightarrow> None | Inr s \<Rightarrow> Some s) (into_proxy_scheme H L v))"

lemma insert_from_env_address:
  "insert_from_env H L env scheme var m =
     map_option (\<lambda>a. case a of None \<Rightarrow> (m, False) | Some s \<Rightarrow> (m(scheme \<mapsto> s), True)) (env_address H L env var)"
  by (auto simp: insert_from_env_def insert_proxy_def env_address_def split: option.split sum.split)

text \<open>The reference: the first of several variables that gives an address.\<close>

fun first_address ::
  "('m, 'y) http_lib_scheme \<Rightarrow> ('u, 'n, 'z) proxy_lib_scheme \<Rightarrow> environment \<Rightarrow> string list \<Rightarrow> 'm ProxyScheme option" where
  "first_address H L env [] = None"
| "first_address H L env (var # vars) =
     (case env_address H L env var of Some (Some s) \<Rightarrow> Some s | _ \<Rightarrow> first_address H L env vars)"

lemma unless_insert:
  assumes "env_address H L env v1 = Some a1" "env_address H L env v2 = Some a2"
  shows "\<exists>b. unless (insert_from_env H L env scheme v1) (insert_from_env H L env scheme v2) m =
    Some (case first_address H L env [v1, v2] of None \<Rightarrow> m | Some s \<Rightarrow> m(scheme \<mapsto> s), b)"
  using assms by (auto simp: unless_def insert_from_env_address split: option.split)

lemma all_proxy_insert:
  assumes "env_address H L env v1 = Some a1" "env_address H L env v2 = Some a2"
  shows "\<exists>b. unless (and_then (insert_from_env H L env ''http'' v1) (insert_from_env H L env ''https'' v1))
        (in_sequence (insert_from_env H L env ''http'' v2) (insert_from_env H L env ''https'' v2)) Map.empty =
    Some (case first_address H L env [v1, v2] of None \<Rightarrow> Map.empty | Some s \<Rightarrow> [''http'' \<mapsto> s, ''https'' \<mapsto> s], b)"
  using assms by (auto simp: unless_def and_then_def in_sequence_def insert_from_env_address split: option.split)

lemma env_address_first:
  "env_address H L env v = Some a \<Longrightarrow> first_address H L env (v # vs) = (case a of None \<Rightarrow> first_address H L env vs | Some s \<Rightarrow> Some s)"
  by (simp split: option.split)

section \<open>Properties\<close>

text \<open>An instance of the parameters: URLs are a scheme, a host, a user and a password, networks are prefixes of four bits.\<close>

definition plain_proxies :: "(string \<times> string \<times> string option, 32 word) proxy_lib" where
  "plain_proxies = \<lparr>
     pl_url_parse = (\<lambda>s. if starts_with s ''http://'' then Inr (''http'', drop 7 s, None)
                         else if starts_with s ''socks4://u:p@'' then Inr (''socks4'', drop 13 s, Some ''p'')
                         else Inl RelativeUrlWithoutBase),
     pl_has_host = (\<lambda>u. fst (snd u) \<noteq> []), pl_scheme = fst, pl_host_port = (\<lambda>u. fst (snd u)), pl_username = (\<lambda>_. ''u''),
     pl_password = (\<lambda>u. snd (snd u)), pl_socket_addrs = (\<lambda>u p. Some [(V4 0x7F000001, case p of None \<Rightarrow> 80 | Some n \<Rightarrow> n)]),
     pl_authority = (\<lambda>s. if s = [] then None else Some s), pl_percent_decode = (\<lambda>s. s), pl_base64 = (\<lambda>s. s),
     pl_net_parse = (\<lambda>s. if s = ''10.0.0.0/8'' then Some 0x0A000000 else None),
     pl_net_contains = (\<lambda>n ip. case ip of V4 a \<Rightarrow> drop_bit 24 a = drop_bit 24 n | V6 _ \<Rightarrow> False)\<rparr>"

text \<open>C36. A list of hosts without a proxy decides as its documentation says, and without a panic, for every host that does not end in the
  character \<^verbatim>\<open>*\<close>: a host that is an IP address, also one in brackets, is on the list if some entry is a network that contains it or is
  this address; any other host is on it if some entry that is neither names its domain or a domain it is a subdomain of, or is \<^verbatim>\<open>*\<close>.\<close>
theorem no_proxy_decision:
  assumes "raw \<noteq> []" and "\<not> ends_with (unbracketed host) ''*''"
  shows "\<exists>np. from_string L raw = Some np \<and> no_proxy_contains L np host =
    Some (\<exists>part\<in>set (split_on CHR '','' raw). covers_entry L (trim part) (unbracketed host))"
  using assms no_proxy_decision_list [of L raw _ host] by (simp add: from_string_def)

text \<open>Witness of C36: a subdomain.\<close>
theorem no_proxy_decision_witness:
  "\<exists>np. from_string plain_proxies ''a.b, .c'' = Some np \<and> no_proxy_contains plain_proxies np ''x.c'' = Some True"
proof -
  have "split_on CHR '','' ''a.b, .c'' = [''a.b'', '' .c'']" by simp
  moreover have "parse_ip ''x.c'' = None" "parse_ip ''.c'' = None" by (simp_all add: parse_ip_eval)
  then have "covers_entry plain_proxies (trim '' .c'') (unbracketed ''x.c'')"
    by (simp add: covers_entry_def unbracketed_def starts_with_def trim_def trim_with_def is_whitespace_def plain_proxies_def
        covers_domain_def base_domain_def strip_prefix_def ends_with_def)
  moreover have "\<not> ends_with (unbracketed ''x.c'') ''*''" by (simp add: unbracketed_def starts_with_def ends_with_def)
  ultimately show ?thesis using no_proxy_decision [of "''a.b, .c''" "''x.c''" plain_proxies] by simp
qed

text \<open>A host that ends in \<^verbatim>\<open>*\<close> is the exception: the entry \<^verbatim>\<open>*\<close> is taken for a domain it ends with, and does not match it, although it
  is documented to match all host names.\<close>

lemma star_misses_host:
  "\<exists>np. from_string plain_proxies ''*'' = Some np \<and> no_proxy_contains plain_proxies np ''a*'' = Some False \<and>
     covers_domain ''*'' ''a*''"
  by (simp add: from_string_def no_proxy_contains_def default_no_proxy_def plain_proxies_def trim_def trim_with_def is_whitespace_def parse_ip_eval
      unbracketed_def starts_with_def ends_with_def strip_prefix_def checked_sub_def covers_domain_def)

text \<open>C37. The system's proxies, if no variable makes the code panic: for \<^verbatim>\<open>https\<close> the first valid of \<^verbatim>\<open>HTTPS_PROXY\<close>,
  \<^verbatim>\<open>https_proxy\<close>, \<^verbatim>\<open>ALL_PROXY\<close>, \<^verbatim>\<open>all_proxy\<close>; for \<^verbatim>\<open>http\<close> likewise with \<^verbatim>\<open>HTTP_PROXY\<close> and \<^verbatim>\<open>http_proxy\<close>, which are
  not looked at in a CGI process, where a client of the server could set them; and no other scheme has a proxy.\<close>
theorem environment_precedence:
  assumes "list_all (\<lambda>var. env_address H L env var \<noteq> None)
    [''ALL_PROXY'', ''all_proxy'', ''HTTP_PROXY'', ''http_proxy'', ''HTTPS_PROXY'', ''https_proxy'']"
  shows "get_from_environment H L env = Some (\<lambda>scheme.
    if scheme = ''https'' then first_address H L env [''HTTPS_PROXY'', ''https_proxy'', ''ALL_PROXY'', ''all_proxy'']
    else if scheme = ''http'' then first_address H L env
      (if is_cgi env then [''ALL_PROXY'', ''all_proxy''] else [''HTTP_PROXY'', ''http_proxy'', ''ALL_PROXY'', ''all_proxy''])
    else None)"
proof -
  from assms obtain a a' h h' s s' where e: "env_address H L env ''ALL_PROXY'' = Some a" "env_address H L env ''all_proxy'' = Some a'"
    "env_address H L env ''HTTP_PROXY'' = Some h" "env_address H L env ''http_proxy'' = Some h'"
    "env_address H L env ''HTTPS_PROXY'' = Some s" "env_address H L env ''https_proxy'' = Some s'" by auto
  let ?all = "case first_address H L env [''ALL_PROXY'', ''all_proxy''] of None \<Rightarrow> Map.empty | Some s \<Rightarrow> [''http'' \<mapsto> s, ''https'' \<mapsto> s]"
  let ?http = "if is_cgi env then ?all else case first_address H L env [''HTTP_PROXY'', ''http_proxy''] of None \<Rightarrow> ?all | Some s \<Rightarrow> ?all(''http'' \<mapsto> s)"
  obtain b where "unless (and_then (insert_from_env H L env ''http'' ''ALL_PROXY'') (insert_from_env H L env ''https'' ''ALL_PROXY''))
      (in_sequence (insert_from_env H L env ''http'' ''all_proxy'') (insert_from_env H L env ''https'' ''all_proxy'')) Map.empty = Some (?all, b)"
    using all_proxy_insert [OF e(1,2)] by blast
  moreover obtain b' where "(if is_cgi env then (\<lambda>s. Some (s, True)) else
      unless (insert_from_env H L env ''http'' ''HTTP_PROXY'') (insert_from_env H L env ''http'' ''http_proxy'')) ?all = Some (?http, b')"
    using unless_insert [OF e(3,4), of "''http''" ?all] by (cases "is_cgi env") auto
  moreover obtain b'' where "unless (insert_from_env H L env ''https'' ''HTTPS_PROXY'') (insert_from_env H L env ''https'' ''https_proxy'') ?http =
      Some (case first_address H L env [''HTTPS_PROXY'', ''https_proxy''] of None \<Rightarrow> ?http | Some s \<Rightarrow> ?http(''https'' \<mapsto> s), b'')"
    using unless_insert [OF e(5,6), of "''https''" ?http] by blast
  ultimately have "get_from_environment H L env =
      Some (case first_address H L env [''HTTPS_PROXY'', ''https_proxy''] of None \<Rightarrow> ?http | Some s \<Rightarrow> ?http(''https'' \<mapsto> s))"
    by (simp only: get_from_environment_def in_sequence_def [where g = "in_sequence _ _"] in_sequence_def [of "if _ then _ else _"]
        bind.bind_lunit prod.case option.map fst_conv)
  also have "\<dots> = Some (\<lambda>scheme.
    if scheme = ''https'' then first_address H L env [''HTTPS_PROXY'', ''https_proxy'', ''ALL_PROXY'', ''all_proxy'']
    else if scheme = ''http'' then first_address H L env
      (if is_cgi env then [''ALL_PROXY'', ''all_proxy''] else [''HTTP_PROXY'', ''http_proxy'', ''ALL_PROXY'', ''all_proxy''])
    else None)"
    using e by (intro arg_cong [where f = Some] ext) (simp add: env_address_first split: option.split)
  finally show ?thesis .
qed

text \<open>Witness of C37: in a CGI process only \<^verbatim>\<open>ALL_PROXY\<close> gives the proxy for \<^verbatim>\<open>http\<close>.\<close>
theorem environment_precedence_witness:
  "map_option (\<lambda>m. m ''http'')
     (get_from_environment assoc_http plain_proxies
        [''REQUEST_METHOD'' \<mapsto> ''GET'', ''HTTP_PROXY'' \<mapsto> ''http://evil'', ''ALL_PROXY'' \<mapsto> ''http://proxy'']) =
   Some (Some (Http None ''proxy'' None))"
proof -
  let ?env = "[''REQUEST_METHOD'' \<mapsto> ''GET'', ''HTTP_PROXY'' \<mapsto> ''http://evil'', ''ALL_PROXY'' \<mapsto> ''http://proxy'']"
  have e: "env_address assoc_http plain_proxies ?env ''ALL_PROXY'' = Some (Some (Http None ''proxy'' None))"
    "env_address assoc_http plain_proxies ?env ''HTTP_PROXY'' = Some (Some (Http None ''evil'' None))"
    "env_address assoc_http plain_proxies ?env ''all_proxy'' = Some None" "env_address assoc_http plain_proxies ?env ''http_proxy'' = Some None"
    "env_address assoc_http plain_proxies ?env ''HTTPS_PROXY'' = Some None" "env_address assoc_http plain_proxies ?env ''https_proxy'' = Some None"
    by code_simp+
  have "is_cgi ?env" by (simp add: is_cgi_def)
  with e show ?thesis using environment_precedence [of assoc_http plain_proxies ?env] by simp
qed

text \<open>An address of a SOCKS 4 proxy with a password makes the code panic, and an environment variable can hold one.\<close>
lemma socks4_credentials_panic:
  fixes H :: "('m, 'y) http_lib_scheme"
  assumes "env_var env ''ALL_PROXY'' = Some addr" and "trim addr \<noteq> []" and "into_url L addr = Inr url"
    and "pl_scheme L url \<in> {''socks4'', ''socks4a''}" and "pl_socket_addrs L url (Some 1080) = Some (a # as)"
    and "pl_password L url = Some pwd"
  shows "get_from_environment H L env = None"
proof -
  have "proxy_scheme_of L url = (Inr (Socks4 a (pl_scheme L url = ''socks4a'')) :: proxy_error + 'm ProxyScheme)"
    using assms(4,5) by (auto simp: proxy_scheme_of_def to_addr_def)
  then have "into_proxy_scheme H L addr = None"
    using assms(3,6) by (simp add: into_proxy_scheme_def proxy_parse_def scheme_set_basic_auth_def)
  then have "insert_from_env H L env ''http'' ''ALL_PROXY'' m = None" for m
    using assms(1,2) by (simp add: insert_from_env_def insert_proxy_def)
  then show ?thesis by (simp add: get_from_environment_def in_sequence_def unless_def and_then_def)
qed

text \<open>At a concrete input.\<close>
lemma socks4_credentials_panic_instance:
  "get_from_environment assoc_http plain_proxies [''ALL_PROXY'' \<mapsto> ''socks4://u:p@h''] = None"
proof (rule socks4_credentials_panic)
  show "env_var [''ALL_PROXY'' \<mapsto> ''socks4://u:p@h''] ''ALL_PROXY'' = Some ''socks4://u:p@h''" by code_simp
  show "trim ''socks4://u:p@h'' \<noteq> []" by code_simp
  show "into_url plain_proxies ''socks4://u:p@h'' = Inr (''socks4'', ''h'', Some ''p'')" by code_simp
qed (simp_all add: plain_proxies_def)

text \<open>C38. Credentials for a proxy reach a server that is not behind it: the header \<^verbatim>\<open>Proxy-Authorization\<close> is added to a plain
  \<^verbatim>\<open>http\<close> request whenever the scheme of the request matches the proxy, also when the list of hosts without a proxy has the
  request go to the server directly.\<close>
theorem proxy_credentials_to_origin:
  assumes "http_laws H" and "px_intercept p = InterceptAll (Http (Some auth) host None)"
    and "px_no_proxy p = Some np" and "no_proxy_contains L np (dst_host uri) = Some True" and "dst_scheme uri = ''http''"
    and "\<not> hm_contains_key H headers ''proxy-authorization''"
  shows "network_scheme L [p] builder uri DefaultScheme = Some (ns_build builder) \<and>
    (\<exists>headers'. proxy_auth H L [p] uri headers = Some headers' \<and> hm_get_all H headers' ''proxy-authorization'' = [auth])"
proof -
  have "intercept L p uri = Some None" using assms(2-4) by (simp add: intercept_def)
  moreover have "proxy_auth H L [p] uri headers = Some (hm_insert H ''proxy-authorization'' auth headers)"
    using assms(2,5,6)
    by (simp add: proxy_auth_def maybe_has_http_auth_def maybe_http_auth_def is_match_def http_basic_auth_def http_headers_def maybe_http_headers_def)
  ultimately show ?thesis using assms(1) by (simp add: network_scheme_def http_laws.get_all_insert)
qed

text \<open>Witness of C38.\<close>
theorem proxy_credentials_to_origin_witness:
  "\<exists>headers'. proxy_auth assoc_http plain_proxies
     [\<lparr>px_intercept = InterceptAll (Http (Some ''secret'') ''proxy'' None), px_no_proxy = Some \<lparr>np_ips = [], np_domains = [''c'']\<rparr>\<rparr>]
     \<lparr>dst_scheme = ''http'', dst_host = ''x.c'', dst_port = None\<rparr> [] = Some headers' \<and>
   hm_get_all assoc_http headers' ''proxy-authorization'' = [''secret'']"
proof -
  have "no_proxy_contains plain_proxies \<lparr>np_ips = [], np_domains = [''c'']\<rparr> ''x.c'' = Some True"
    by (simp add: no_proxy_contains_def unbracketed_def starts_with_def parse_ip_eval ends_with_def strip_prefix_def
        checked_sub_def)
  moreover have "\<not> hm_contains_key assoc_http [] ''proxy-authorization''" by code_simp
  ultimately show ?thesis
    by (intro proxy_credentials_to_origin [OF assoc.http_laws_axioms, where np = "\<lparr>np_ips = [], np_domains = [''c'']\<rparr>", THEN conjunct2]) simp_all
qed

text \<open>Of several proxies that are for a destination the last one is used.\<close>
lemma last_proxy_wins:
  assumes "\<And>p. p \<in> set ps \<Longrightarrow> intercept L p uri = Some (route p)"
  shows "network_scheme L ps builder uri DefaultScheme = Some (ns_build (builder\<lparr>ns_proxy_scheme :=
    (case rev (List.map_filter route ps) of [] \<Rightarrow> ns_proxy_scheme builder | s # _ \<Rightarrow> Some s)\<rparr>))"
proof -
  have "set_proxies L uri ps builder = Some (builder\<lparr>ns_proxy_scheme :=
      (case rev (List.map_filter route ps) of [] \<Rightarrow> ns_proxy_scheme builder | s # _ \<Rightarrow> Some s)\<rparr>)"
    using assms
  proof (induction ps arbitrary: builder)
    case (Cons p ps)
    have "intercept L p uri = Some (route p)" using Cons.prems by simp
    with Cons.IH Cons.prems show ?case
      by (cases "route p"; cases "rev (List.map_filter route ps)") (simp_all add: map_filter_simps)
  qed (simp add: map_filter_simps)
  then show ?thesis by (simp add: network_scheme_def)
qed

text \<open>At a concrete input: two proxies for every destination.\<close>
lemma last_proxy_wins_instance:
  "map_option (\<lambda>n. fst (take_proxy_scheme n))
     (network_scheme plain_proxies
        [proxy_new (InterceptAll (Http None ''first'' None)), proxy_new (InterceptAll (Http None ''second'' (None :: assoc_map option)))]
        \<lparr>ns_interface = None, ns_addresses = (None, None), ns_proxy_scheme = None\<rparr>
        \<lparr>dst_scheme = ''http'', dst_host = ''h'', dst_port = None\<rparr> DefaultScheme) =
   Some (Some (Http None ''second'' None))"
proof -
  let ?ps = "[proxy_new (InterceptAll (Http None ''first'' None)), proxy_new (InterceptAll (Http None ''second'' (None :: assoc_map option)))]"
  have "intercept plain_proxies p \<lparr>dst_scheme = ''http'', dst_host = ''h'', dst_port = None\<rparr> =
      Some (case px_intercept p of InterceptAll s \<Rightarrow> Some s | _ \<Rightarrow> None)" if "p \<in> set ?ps" for p
    using that by (auto simp: intercept_def proxy_new_def)
  from last_proxy_wins [of ?ps, OF this] show ?thesis
    by (simp add: map_filter_simps proxy_new_def ns_build_def take_proxy_scheme_def)
qed

end
