(* ===== verification/Core_Request.thy ===== *)
theory Core_Request
  imports H1_Role Proxy
begin

text \<open>
  What the core client is asked to send, and where (\<^verbatim>\<open>src/src/core/client/request.rs\<close>,
  \<^verbatim>\<open>src/src/core/client/dst.rs\<close> and the functions on URIs of \<^verbatim>\<open>src/src/core/client/mod.rs\<close>): the builder that completes
  the headers of a request and puts them in order, the destination that is the key of the connection pool, and the forms of a
  request target. The type \<^verbatim>\<open>http::Uri\<close> is a parameter, with its documented laws in the locale \<open>uri_laws\<close>.
  \<^const>\<open>None\<close> as a result is a panic.
\<close>

section \<open>The headers of a request\<close>

record ('u, 'm, 'b) core_request =
  cr_method :: http_method
  cr_uri :: 'u
  cr_version :: version
  cr_headers :: 'm
  cr_body :: 'b

record ('u, 'm, 'b) InnerRequest =
  ir_request :: "('u, 'm, 'b) core_request"
  ir_version :: "version option"
  ir_network :: "'m NetworkScheme"

definition request_payload_semantics :: "http_method \<Rightarrow> bool" where
  "request_payload_semantics m \<longleftrightarrow> m \<notin> {GET, HEAD, DELETE, CONNECT}"

text \<open>\<open>len\<close> is \<^verbatim>\<open>size_hint().exact()\<close> of the body.\<close>

definition request_content_length ::
  "('m, 'z) http_lib_scheme \<Rightarrow> http_method \<Rightarrow> 'm \<Rightarrow> u64 option \<Rightarrow> 'm" where
  "request_content_length H m headers len =
     (case len of
        None \<Rightarrow> headers
      | Some n \<Rightarrow>
          if n \<noteq> 0 \<or> request_payload_semantics m
          then if hm_contains_key H headers ''content-length'' then headers
               else hm_insert H ''content-length'' (decimal (unat n)) headers
          else headers)"

text \<open>\<^verbatim>\<open>HeaderMap::drain\<close> gives the name with the first of its values only.\<close>

definition hm_drain :: "('m, 'z) http_lib_scheme \<Rightarrow> 'm \<Rightarrow> (header_name option \<times> header_value) list" where
  "hm_drain H m =
     concat (map (\<lambda>k. case hm_get_all H m k of [] \<Rightarrow> [] | v # vs \<Rightarrow> (Some k, v) # map (Pair None) vs) (hm_keys H m))"

text \<open>The two loops of \<^verbatim>\<open>sort_headers\<close>.\<close>

fun sort_listed :: "('m, 'z) http_lib_scheme \<Rightarrow> header_name list \<Rightarrow> 'm \<Rightarrow> 'm \<Rightarrow> 'm \<times> 'm" where
  "sort_listed H [] headers out = (headers, out)"
| "sort_listed H (name # names) headers out =
     sort_listed H names (hm_remove H name headers) (fold (hm_append H name) (hm_get_all H headers name) out)"

fun sort_rest :: "('m, 'z) http_lib_scheme \<Rightarrow> (header_name option \<times> header_value) list \<Rightarrow> 'm \<Rightarrow> 'm" where
  "sort_rest H [] out = out"
| "sort_rest H ((key, v) # rest) out =
     sort_rest H rest (case key of Some k \<Rightarrow> hm_append H k v out | None \<Rightarrow> out)"

definition sort_headers :: "('m, 'z) http_lib_scheme \<Rightarrow> 'm \<Rightarrow> header_name list \<Rightarrow> 'm" where
  "sort_headers H headers headers_order =
     (if length (hm_iter H headers) \<le> 1 then headers
      else case sort_listed H headers_order headers (hm_new H) of
             (headers, out) \<Rightarrow> sort_rest H (hm_drain H headers) out)"

text \<open>The builder as its callers use it, in one step; \<open>build_ok\<close> says whether \<^verbatim>\<open>http::request::Builder\<close> accepts the
  parts. A version that is not given is HTTP/1.1 in the request and unknown beside it.\<close>

definition inner_request ::
  "('m, 'z) http_lib_scheme \<Rightarrow> (('u, 'm, 'b) core_request \<Rightarrow> bool) \<Rightarrow>
   http_method \<Rightarrow> 'u \<Rightarrow> version option \<Rightarrow> 'm \<Rightarrow> header_name list option \<Rightarrow> 'm NetworkScheme \<Rightarrow> 'b \<Rightarrow> u64 option \<Rightarrow>
   ('u, 'm, 'b) InnerRequest option" where
  "inner_request H build_ok m uri version headers headers_order network body len =
     (let headers = request_content_length H m headers len;
          headers = (case headers_order of Some order \<Rightarrow> sort_headers H headers order | None \<Rightarrow> headers);
          rq = \<lparr>cr_method = m, cr_uri = uri, cr_version = (case version of Some v \<Rightarrow> v | None \<Rightarrow> HTTP_11),
                cr_headers = headers, cr_body = body\<rparr>
      in if build_ok rq then Some \<lparr>ir_request = rq, ir_version = version, ir_network = network\<rparr> else None)"

section \<open>URIs\<close>

text \<open>\<^verbatim>\<open>http::uri::Parts\<close>, and what the code calls of a \<^verbatim>\<open>Uri\<close>; a port is given with its text.\<close>

record uri_parts =
  up_scheme :: "string option"
  up_authority :: "string option"
  up_path :: "string option"

record 'u uri_lib =
  uri_parts_of :: "'u \<Rightarrow> uri_parts"
  uri_from_parts :: "uri_parts \<Rightarrow> 'u option"
  uri_host :: "'u \<Rightarrow> string option"
  uri_port :: "'u \<Rightarrow> (string \<times> nat) option"
  uri_default :: 'u

locale uri_laws =
  fixes U :: "'u uri_lib"
  assumes parts_from: "uri_from_parts U ps = Some u \<Longrightarrow> uri_parts_of U u = ps"
    and parts_inj: "uri_parts_of U u = uri_parts_of U u' \<Longrightarrow> u = u'"
    and from_path: "up_path (uri_parts_of U u) = Some p \<Longrightarrow>
      uri_from_parts U \<lparr>up_scheme = None, up_authority = None, up_path = Some p\<rparr> \<noteq> None"
    and from_authority: "up_authority (uri_parts_of U u) = Some a \<Longrightarrow>
      uri_from_parts U \<lparr>up_scheme = None, up_authority = Some a, up_path = None\<rparr> \<noteq> None"
    and default_parts: "uri_parts_of U (uri_default U) = \<lparr>up_scheme = None, up_authority = None, up_path = Some ''/''\<rparr>"
    and authority_host: "up_authority (uri_parts_of U u) \<noteq> None \<Longrightarrow> uri_host U u \<noteq> None"

definition uri_of_path :: "'u uri_lib \<Rightarrow> string \<Rightarrow> 'u option" where
  "uri_of_path U p = uri_from_parts U \<lparr>up_scheme = None, up_authority = None, up_path = Some p\<rparr>"

definition origin_form :: "'u uri_lib \<Rightarrow> 'u \<Rightarrow> 'u option" where
  "origin_form U uri =
     (case up_path (uri_parts_of U uri) of
        Some path \<Rightarrow> if path \<noteq> ''/'' then uri_of_path U path else Some (uri_default U)
      | None \<Rightarrow> Some (uri_default U))"

definition absolute_form :: "'u uri_lib \<Rightarrow> 'u \<Rightarrow> 'u option" where
  "absolute_form U uri =
     (if up_scheme (uri_parts_of U uri) = None \<or> up_authority (uri_parts_of U uri) = None then None
      else if up_scheme (uri_parts_of U uri) = Some ''https'' then origin_form U uri
      else Some uri)"

definition authority_form :: "'u uri_lib \<Rightarrow> 'u \<Rightarrow> 'u option" where
  "authority_form U uri =
     (case up_authority (uri_parts_of U uri) of
        Some auth \<Rightarrow> uri_from_parts U \<lparr>up_scheme = None, up_authority = Some auth, up_path = None\<rparr>
      | None \<Rightarrow> None)"

definition set_scheme :: "'u uri_lib \<Rightarrow> 'u \<Rightarrow> string \<Rightarrow> 'u option" where
  "set_scheme U uri scheme =
     (if up_scheme (uri_parts_of U uri) \<noteq> None then None
      else uri_from_parts U ((uri_parts_of U uri)\<lparr>up_scheme := Some scheme, up_path := Some ''/''\<rparr>))"

definition is_schema_secure :: "'u uri_lib \<Rightarrow> 'u \<Rightarrow> bool" where
  "is_schema_secure U uri = (case up_scheme (uri_parts_of U uri) of Some s \<Rightarrow> s \<in> {''wss'', ''https''} | None \<Rightarrow> False)"

definition get_non_default_port :: "'u uri_lib \<Rightarrow> 'u \<Rightarrow> string option" where
  "get_non_default_port U uri =
     (let port = uri_port U uri
      in if map_option snd port = Some 443 \<and> is_schema_secure U uri then None
         else if map_option snd port = Some 80 \<and> \<not> is_schema_secure U uri then None
         else map_option fst port)"

section \<open>Destinations\<close>

datatype AlpnProtos = AlpnProtos bytes

definition AlpnHTTP1 :: AlpnProtos where "AlpnHTTP1 = AlpnProtos (CHR 0x08 # ''http/1.1'')"
definition AlpnHTTP2 :: AlpnProtos where "AlpnHTTP2 = AlpnProtos (CHR 0x02 # ''h2'')"
definition AlpnALL :: AlpnProtos where "AlpnALL = AlpnProtos (CHR 0x02 # ''h2'' @ CHR 0x08 # ''http/1.1'')"

text \<open>Keys are compared as values. \<^verbatim>\<open>http::Uri\<close> compares scheme and authority without regard to case, so two URIs that differ in
  the case of their host only are one key in the code and two keys here: the model separates more keys than the code.\<close>

record ('u, 'm) PoolKey =
  pk_uri :: 'u
  pk_alpn :: "AlpnProtos option"
  pk_network :: "'m NetworkScheme"

datatype ErrorKind =
    ErrCanceled
  | ErrChannelClosed
  | ErrConnect
  | UserUnsupportedRequestMethod
  | UserUnsupportedVersion
  | UserAbsoluteUriRequired
  | ErrSendRequest

text \<open>\<^verbatim>\<open>Dst::new\<close> may complete the URI of the request, which is part of its result; \<open>auth_port\<close> is \<^verbatim>\<open>Authority::port_u16\<close>.\<close>

definition dst_alpn :: "version option \<Rightarrow> AlpnProtos option" where
  "dst_alpn version =
     (case version of
        Some v \<Rightarrow> if v \<in> {HTTP_11, HTTP_10, HTTP_09} then Some AlpnHTTP1 else if v = HTTP_2 then Some AlpnHTTP2 else None
      | None \<Rightarrow> None)"

definition dst_build ::
  "'u uri_lib \<Rightarrow> string \<Rightarrow> string \<Rightarrow> version option \<Rightarrow> 'm NetworkScheme \<Rightarrow> ErrorKind + ('u, 'm) PoolKey" where
  "dst_build U scheme auth version network =
     (case uri_from_parts U \<lparr>up_scheme = Some scheme, up_authority = Some auth, up_path = Some ''/''\<rparr> of
        Some uri \<Rightarrow> Inr \<lparr>pk_uri = uri, pk_alpn = dst_alpn version, pk_network = network\<rparr>
      | None \<Rightarrow> Inl UserAbsoluteUriRequired)"

definition dst_new ::
  "'u uri_lib \<Rightarrow> (string \<Rightarrow> nat option) \<Rightarrow> 'u \<Rightarrow> bool \<Rightarrow> 'm NetworkScheme \<Rightarrow> version option \<Rightarrow>
   ('u \<times> (ErrorKind + ('u, 'm) PoolKey)) option" where
  "dst_new U auth_port uri is_http_connect network version =
     (case (up_scheme (uri_parts_of U uri), up_authority (uri_parts_of U uri)) of
        (Some scheme, Some auth) \<Rightarrow> Some (uri, dst_build U scheme auth version network)
      | (None, Some auth) \<Rightarrow>
          if is_http_connect
          then let scheme = (if auth_port auth = Some 443 then ''https'' else ''http'')
               in map_option (\<lambda>uri. (uri, dst_build U scheme auth version network)) (set_scheme U uri scheme)
          else Some (uri, Inl UserAbsoluteUriRequired)
      | _ \<Rightarrow> Some (uri, Inl UserAbsoluteUriRequired))"

definition dst_only_http2 :: "('u, 'm) PoolKey \<Rightarrow> bool" where
  "dst_only_http2 k \<longleftrightarrow> pk_alpn k = Some AlpnHTTP2"

definition dst_set_uri :: "'u \<Rightarrow> ('u, 'm) PoolKey \<Rightarrow> ('u, 'm) PoolKey" where
  "dst_set_uri uri k = k\<lparr>pk_uri := uri\<rparr>"

definition dst_take_proxy_scheme :: "('u, 'm) PoolKey \<Rightarrow> 'm ProxyScheme option \<times> ('u, 'm) PoolKey" where
  "dst_take_proxy_scheme k = (case take_proxy_scheme (pk_network k) of (p, n) \<Rightarrow> (p, k\<lparr>pk_network := n\<rparr>))"

section \<open>The order of headers\<close>

lemma set_hm_keys_distinct [simp]: "distinct (hm_keys H m)"
  by (simp add: hm_keys_def)

context http_laws
begin

lemma set_hm_keys: "k \<in> set (hm_keys H m) \<longleftrightarrow> hm_contains_key H m k"
  by (simp add: hm_keys_def iter_contains)

lemma get_all_append_values:
  "hm_get_all H (fold (hm_append H n) vs out) k = hm_get_all H out k @ (if k = n then vs else [])"
  by (induction vs arbitrary: out) (simp_all add: get_all_append)

lemma sort_listed_values:
  "hm_get_all H (fst (sort_listed H names headers out)) k = (if k \<in> set names then [] else hm_get_all H headers k)"
  "hm_get_all H (snd (sort_listed H names headers out)) k =
     hm_get_all H out k @ (if k \<in> set names then hm_get_all H headers k else [])"
  by (induction names arbitrary: headers out) (auto simp: get_all_remove get_all_append_values)

lemma sort_rest_append: "sort_rest H (xs @ ys) out = sort_rest H ys (sort_rest H xs out)"
  by (induction xs arbitrary: out) auto

lemma sort_rest_unnamed: "sort_rest H (map (Pair None) vs) out = out"
  by (induction vs) simp_all

text \<open>What the second loop does with the items of one name.\<close>

lemma sort_rest_key:
  "sort_rest H (case vs of [] \<Rightarrow> [] | v # vs \<Rightarrow> (Some k, v) # map (Pair None) vs) out = fold (hm_append H k) (take 1 vs) out"
  by (cases vs) (simp_all add: sort_rest_unnamed)

lemma sort_rest_values:
  assumes "distinct ks"
  shows "hm_get_all H (sort_rest H (concat (map (\<lambda>k. case hm_get_all H m k of [] \<Rightarrow> [] | v # vs \<Rightarrow> (Some k, v) # map (Pair None) vs) ks)) out) k =
    hm_get_all H out k @ (if k \<in> set ks then take 1 (hm_get_all H m k) else [])"
  using assms by (induction ks arbitrary: out) (auto simp: sort_rest_append sort_rest_key get_all_append_values)

lemma sort_headers_values:
  assumes "1 < length (hm_iter H m)"
  shows "hm_get_all H (sort_headers H m order) k = (if k \<in> set order then hm_get_all H m k else take 1 (hm_get_all H m k))"
proof -
  obtain h out where s: "sort_listed H order m (hm_new H) = (h, out)" by (rule prod.exhaust)
  note v = sort_listed_values [of order m "hm_new H", unfolded s fst_conv snd_conv]
  have "hm_get_all H h k = []" if "k \<notin> set (hm_keys H h)"
    using that by (simp add: set_hm_keys hm_contains_key_def)
  moreover have "hm_get_all H (sort_headers H m order) k =
      hm_get_all H out k @ (if k \<in> set (hm_keys H h) then take 1 (hm_get_all H h k) else [])"
    using assms by (simp add: sort_headers_def s hm_drain_def sort_rest_values)
  ultimately show ?thesis by (auto simp: v get_all_new)
qed

end

text \<open>Putting the headers of a request in the order the user wants keeps every value of the listed headers, in its order, and
  of the others the first value only: where a header that is not listed has several values, all but the first are lost. (Of a
  map with at most one value nothing is changed.)\<close>
lemma ordered_header_values:
  assumes "http_laws H"
  shows "hm_get_all H (sort_headers H m order) k =
    (if k \<in> set order \<or> length (hm_iter H m) \<le> 1 then hm_get_all H m k else take 1 (hm_get_all H m k))"
  using http_laws.sort_headers_values [OF assms, of m order k]
  by (cases "length (hm_iter H m) \<le> 1") (auto simp: sort_headers_def)

text \<open>At a concrete input: of two values of a header that is not listed, one is left.\<close>
lemma ordered_header_values_instance:
  "let m = [(''x-a'', ''1''), (''x-a'', ''2''), (''host'', ''h'')]
   in hm_get_all assoc_http m ''x-a'' = [''1'', ''2''] \<and> hm_get_all assoc_http (sort_headers assoc_http m [''host'']) ''x-a'' = [''1'']"
proof -
  let ?m = "[(''x-a'', ''1''), (''x-a'', ''2''), (''host'', ''h'')] :: assoc_map"
  have g: "hm_get_all assoc_http ?m ''x-a'' = [''1'', ''2'']" "\<not> length (hm_iter assoc_http ?m) \<le> 1" by code_simp+
  from ordered_header_values [OF assoc.http_laws_axioms, of ?m "[''host'']" "''x-a''"] g show ?thesis by simp
qed

section \<open>The key of a connection\<close>

lemma dst_new_key:
  assumes "uri_laws U" and "dst_new U ap uri connect network version = Some (uri', Inr k)"
  obtains scheme auth where "up_scheme (uri_parts_of U uri') = Some scheme" "up_authority (uri_parts_of U uri') = Some auth"
    "uri_parts_of U (pk_uri k) = \<lparr>up_scheme = Some scheme, up_authority = Some auth, up_path = Some ''/''\<rparr>"
    "pk_alpn k = dst_alpn version" "pk_network k = network"
proof -
  note found = that
  have b: thesis if "dst_build U scheme auth version network = Inr k" "up_scheme (uri_parts_of U uri') = Some scheme"
    "up_authority (uri_parts_of U uri') = Some auth" for scheme auth
    using that(1) uri_laws.parts_from [OF assms(1)]
    by (intro found [of scheme auth]) (auto simp: dst_build_def that(2,3) split: option.splits)
  have s: "up_scheme (uri_parts_of U u) = Some sc \<and> up_authority (uri_parts_of U u) = up_authority (uri_parts_of U uri)"
    if "set_scheme U uri sc = Some u" for sc u
    using that uri_laws.parts_from [OF assms(1)] by (auto simp: set_scheme_def split: if_splits)
  show ?thesis
    using assms(2) b s by (fastforce simp: dst_new_def Let_def split: option.splits if_splits)
qed

text \<open>C19. Connections are only shared between requests that go the same way: two requests whose destinations are the same key of
  the pool have the same scheme, the same authority, the same choice of protocols and the same network settings, the proxy with its credentials
  among them.\<close>
theorem same_key_same_route:
  assumes "uri_laws U"
    and "dst_new U ap uri1 connect1 network1 version1 = Some (uri1', Inr k)"
    and "dst_new U ap uri2 connect2 network2 version2 = Some (uri2', Inr k)"
  shows "up_scheme (uri_parts_of U uri1') = up_scheme (uri_parts_of U uri2') \<and>
    up_authority (uri_parts_of U uri1') = up_authority (uri_parts_of U uri2') \<and>
    dst_alpn version1 = dst_alpn version2 \<and> network1 = network2"
  by (rule dst_new_key [OF assms(1,2)], rule dst_new_key [OF assms(1,3)]) simp

section \<open>An instance of the interface to URIs\<close>

text \<open>URIs as their parts, an authority being a host, optionally with a port of which only the text is looked at.\<close>

definition split_port :: "string \<Rightarrow> string \<times> string option" where
  "split_port a = (case split_on CHR '':'' a of [h, p] \<Rightarrow> (h, Some p) | _ \<Rightarrow> (a, None))"

definition plain_uri :: "uri_parts uri_lib" where
  "plain_uri = \<lparr>
     uri_parts_of = id,
     uri_from_parts = Some,
     uri_host = (\<lambda>u. map_option (fst \<circ> split_port) (up_authority u)),
     uri_port = (\<lambda>u. case up_authority u of
                   Some a \<Rightarrow> map_option (\<lambda>p. (p, if p = ''443'' then 443 else if p = ''80'' then 80 else 0)) (snd (split_port a))
                 | None \<Rightarrow> None),
     uri_default = \<lparr>up_scheme = None, up_authority = None, up_path = Some ''/''\<rparr>\<rparr>"

interpretation plain_uri: uri_laws plain_uri
  by unfold_locales (auto simp: plain_uri_def)

definition site_uri :: "string \<Rightarrow> uri_parts" where
  "site_uri path = \<lparr>up_scheme = Some ''http'', up_authority = Some ''a.org'', up_path = Some path\<rparr>"

text \<open>Witness of C19: two pages of one site.\<close>
theorem same_key_same_route_witness:
  "\<exists>k. dst_new plain_uri (\<lambda>_. None) (site_uri ''/x'') False (DefaultScheme :: assoc_map NetworkScheme) None = Some (site_uri ''/x'', Inr k) \<and>
     dst_new plain_uri (\<lambda>_. None) (site_uri ''/y'') False DefaultScheme None = Some (site_uri ''/y'', Inr k) \<and>
     up_authority (uri_parts_of plain_uri (site_uri ''/x'')) = up_authority (uri_parts_of plain_uri (site_uri ''/y''))"
proof -
  let ?k = "\<lparr>pk_uri = site_uri ''/'', pk_alpn = None, pk_network = DefaultScheme\<rparr> :: (uri_parts, assoc_map) PoolKey"
  have d: "dst_new plain_uri (\<lambda>_. None) (site_uri p) False (DefaultScheme :: assoc_map NetworkScheme) None = Some (site_uri p, Inr ?k)" for p
    by (simp add: dst_new_def dst_build_def dst_alpn_def plain_uri_def site_uri_def)
  from same_key_same_route [OF plain_uri.uri_laws_axioms d [of "''/x''"] d [of "''/y''"]] d [of "''/x''"] d [of "''/y''"]
  show ?thesis by blast
qed

end
