(* ===== verification/Tcp_Connect.thy ===== *)
theory Tcp_Connect
  imports Core_Request
begin

text \<open>
  Making a TCP connection (\<^verbatim>\<open>src/src/core/client/connect/http.rs\<close>, \<^verbatim>\<open>src/src/core/client/connect/dns.rs\<close> and the resolvers of
  \<^verbatim>\<open>src/src/dns/resolve.rs\<close>): host and port of a destination, its addresses, the options of a socket, trying addresses one after the
  other, and the race between the two families of addresses.

  A future is a function from the time it is first polled to the time it is ready, with its result; \<^const>\<open>None\<close> is a future that is
  never ready. Times are in nanoseconds. The operating system is a parameter (\<open>tcp_os\<close>): which socket operations fail, and
  how a connection attempt ends.
\<close>

section \<open>Futures with times\<close>

type_synonym 'a timed = "nat \<Rightarrow> (nat \<times> 'a) option"

text \<open>\<^verbatim>\<open>tokio::time::timeout\<close> polls the future before the clock; \<^verbatim>\<open>Inl ()\<close> is \<^verbatim>\<open>Elapsed\<close>.\<close>

definition time_out :: "nat \<Rightarrow> 'a timed \<Rightarrow> (unit + 'a) timed" where
  "time_out d f t =
     (case f t of
        Some (t', x) \<Rightarrow> if t' \<le> t + d then Some (t', Inr x) else Some (t + d, Inl ())
      | None \<Rightarrow> Some (t + d, Inl ()))"

section \<open>Configuration\<close>

record keepalive_config =
  kc_time :: "nat option"
  kc_interval :: "nat option"
  kc_retries :: "32 word option"

text \<open>\<^verbatim>\<open>socket2::TcpKeepalive\<close>: the values set on it.\<close>

record tcp_keepalive =
  ka_time :: "nat option"
  ka_interval :: "nat option"
  ka_retries :: "32 word option"

definition into_tcpkeepalive :: "keepalive_config \<Rightarrow> tcp_keepalive option" where
  "into_tcpkeepalive c =
     (let dirty = False; ka = \<lparr>ka_time = None, ka_interval = None, ka_retries = None\<rparr>;
          (ka, dirty) = (case kc_time c of Some time \<Rightarrow> (ka\<lparr>ka_time := Some time\<rparr>, True) | None \<Rightarrow> (ka, dirty));
          (ka, dirty) = (case kc_interval c of Some i \<Rightarrow> (ka\<lparr>ka_interval := Some i\<rparr>, True) | None \<Rightarrow> (ka, dirty));
          (ka, dirty) = (case kc_retries c of Some r \<Rightarrow> (ka\<lparr>ka_retries := Some r\<rparr>, True) | None \<Rightarrow> (ka, dirty))
      in if dirty then Some ka else None)"

record tcp_config =
  tc_connect_timeout :: "nat option"
  tc_enforce_http :: bool
  tc_happy_eyeballs_timeout :: "nat option"
  tc_keepalive :: keepalive_config
  tc_local_ipv4 :: "32 word option"
  tc_local_ipv6 :: "128 word option"
  tc_nodelay :: bool
  tc_reuse_address :: bool
  tc_send_buffer_size :: "nat option"
  tc_recv_buffer_size :: "nat option"
  tc_interface :: "string option"
  tc_user_timeout :: "nat option"

definition default_tcp_config :: tcp_config where
  "default_tcp_config =
     \<lparr>tc_connect_timeout = None, tc_enforce_http = True, tc_happy_eyeballs_timeout = Some (300 * 10 ^ 6),
      tc_keepalive = \<lparr>kc_time = None, kc_interval = None, kc_retries = None\<rparr>,
      tc_local_ipv4 = None, tc_local_ipv6 = None, tc_nodelay = False, tc_reuse_address = False,
      tc_send_buffer_size = None, tc_recv_buffer_size = None, tc_interface = None, tc_user_timeout = None\<rparr>"

definition tcp_set_keepalive :: "nat option \<Rightarrow> tcp_config \<Rightarrow> tcp_config" where
  "tcp_set_keepalive time c = c\<lparr>tc_keepalive := (tc_keepalive c)\<lparr>kc_time := time\<rparr>\<rparr>"

definition set_keepalive_interval :: "nat option \<Rightarrow> tcp_config \<Rightarrow> tcp_config" where
  "set_keepalive_interval interval c = c\<lparr>tc_keepalive := (tc_keepalive c)\<lparr>kc_interval := interval\<rparr>\<rparr>"

definition set_keepalive_retries :: "32 word option \<Rightarrow> tcp_config \<Rightarrow> tcp_config" where
  "set_keepalive_retries retries c = c\<lparr>tc_keepalive := (tc_keepalive c)\<lparr>kc_retries := retries\<rparr>\<rparr>"

definition enforce_http :: "bool \<Rightarrow> tcp_config \<Rightarrow> tcp_config" where
  "enforce_http is_enforced c = c\<lparr>tc_enforce_http := is_enforced\<rparr>"

definition tcp_set_nodelay :: "bool \<Rightarrow> tcp_config \<Rightarrow> tcp_config" where
  "tcp_set_nodelay nodelay c = c\<lparr>tc_nodelay := nodelay\<rparr>"

definition set_local_address :: "IpAddr option \<Rightarrow> tcp_config \<Rightarrow> tcp_config" where
  "set_local_address addr c =
     (let (v4, v6) = (case addr of Some (V4 a) \<Rightarrow> (Some a, None) | Some (V6 a) \<Rightarrow> (None, Some a) | None \<Rightarrow> (None, None))
      in c\<lparr>tc_local_ipv4 := v4, tc_local_ipv6 := v6\<rparr>)"

definition set_local_addresses :: "32 word \<Rightarrow> 128 word \<Rightarrow> tcp_config \<Rightarrow> tcp_config" where
  "set_local_addresses a4 a6 c = c\<lparr>tc_local_ipv4 := Some a4, tc_local_ipv6 := Some a6\<rparr>"

definition set_interface :: "string option \<Rightarrow> tcp_config \<Rightarrow> tcp_config" where
  "set_interface interface c = c\<lparr>tc_interface := interface\<rparr>"

definition set_send_buffer_size :: "nat option \<Rightarrow> tcp_config \<Rightarrow> tcp_config" where
  "set_send_buffer_size v c = c\<lparr>tc_send_buffer_size := v\<rparr>"

definition set_recv_buffer_size :: "nat option \<Rightarrow> tcp_config \<Rightarrow> tcp_config" where
  "set_recv_buffer_size v c = c\<lparr>tc_recv_buffer_size := v\<rparr>"

definition set_connect_timeout :: "nat option \<Rightarrow> tcp_config \<Rightarrow> tcp_config" where
  "set_connect_timeout v c = c\<lparr>tc_connect_timeout := v\<rparr>"

definition set_happy_eyeballs_timeout :: "nat option \<Rightarrow> tcp_config \<Rightarrow> tcp_config" where
  "set_happy_eyeballs_timeout v c = c\<lparr>tc_happy_eyeballs_timeout := v\<rparr>"

definition set_reuse_address :: "bool \<Rightarrow> tcp_config \<Rightarrow> tcp_config" where
  "set_reuse_address v c = c\<lparr>tc_reuse_address := v\<rparr>"

definition set_tcp_user_timeout :: "nat option \<Rightarrow> tcp_config \<Rightarrow> tcp_config" where
  "set_tcp_user_timeout v c = c\<lparr>tc_user_timeout := v\<rparr>"

section \<open>Names and addresses\<close>

datatype 'd connect_cause = TcpIo io_error | TcpTimedOut | NetworkUnreachable | DnsCause 'd

record 'd ConnectError =
  tce_msg :: string
  tce_cause :: "'d connect_cause option"

definition connect_error :: "string \<Rightarrow> 'd connect_cause \<Rightarrow> 'd ConnectError" where
  "connect_error msg cause = \<lparr>tce_msg = msg, tce_cause = Some cause\<rparr>"

definition connect_msg :: "string \<Rightarrow> 'd ConnectError" where
  "connect_msg msg = \<lparr>tce_msg = msg, tce_cause = None\<rparr>"

definition is_ipv4 :: "SocketAddr \<Rightarrow> bool" where
  "is_ipv4 a = (case fst a of V4 _ \<Rightarrow> True | V6 _ \<Rightarrow> False)"

definition is_ipv6 :: "SocketAddr \<Rightarrow> bool" where
  "is_ipv6 a = (case fst a of V4 _ \<Rightarrow> False | V6 _ \<Rightarrow> True)"

definition get_host_port :: "'u uri_lib \<Rightarrow> tcp_config \<Rightarrow> 'u \<Rightarrow> 'd ConnectError + string \<times> u16" where
  "get_host_port U config dst =
     (if tc_enforce_http config \<and> up_scheme (uri_parts_of U dst) \<noteq> Some ''http''
      then Inl (connect_msg ''invalid URL, scheme is not http'')
      else if \<not> tc_enforce_http config \<and> up_scheme (uri_parts_of U dst) = None
      then Inl (connect_msg ''invalid URL, scheme is missing'')
      else case uri_host U dst of
             None \<Rightarrow> Inl (connect_msg ''invalid URL, host is missing'')
           | Some host \<Rightarrow>
               Inr (host,
                 case uri_port U dst of
                   Some (_, port) \<Rightarrow> of_nat port
                 | None \<Rightarrow> if up_scheme (uri_parts_of U dst) = Some ''https'' then 443 else 80))"

definition try_parse :: "string \<Rightarrow> u16 \<Rightarrow> SocketAddr list option" where
  "try_parse host port = map_option (\<lambda>ip. [(ip, port)]) (parse_ip host)"

text \<open>\<^verbatim>\<open>trim_start_matches('[')\<close> and \<^verbatim>\<open>trim_end_matches(']')\<close>.\<close>

definition without_brackets :: "string \<Rightarrow> string" where
  "without_brackets host = rev (dropWhile ((=) CHR '']'') (rev (dropWhile ((=) CHR ''['') host)))"

definition set_port :: "u16 \<Rightarrow> bool \<Rightarrow> SocketAddr \<Rightarrow> SocketAddr" where
  "set_port host_port explicit addr = (if explicit \<or> snd addr = 0 then (fst addr, host_port) else addr)"

definition split_by_preference ::
  "32 word option \<Rightarrow> 128 word option \<Rightarrow> SocketAddr list \<Rightarrow> SocketAddr list \<times> SocketAddr list" where
  "split_by_preference local4 local6 addrs =
     (case (local4, local6) of
        (Some _, None) \<Rightarrow> (filter is_ipv4 addrs, [])
      | (None, Some _) \<Rightarrow> (filter is_ipv6 addrs, [])
      | _ \<Rightarrow> List.partition is_ipv6 addrs)"

text \<open>A resolver is a future for every name; one with overrides looks there first.\<close>

type_synonym 'd resolver = "string \<Rightarrow> ('d + SocketAddr list) timed"

definition resolve_with_overrides :: "(string \<rightharpoonup> SocketAddr list) \<Rightarrow> 'd resolver \<Rightarrow> 'd resolver" where
  "resolve_with_overrides overrides dns_resolver name =
     (case overrides name of Some dest \<Rightarrow> (\<lambda>t. Some (t, Inr dest)) | None \<Rightarrow> dns_resolver name)"

section \<open>Sockets\<close>

datatype sock_op =
    SetNonblocking
  | SetTcpKeepalive tcp_keepalive
  | BindDevice string
  | SetTcpUserTimeout nat
  | BindTo SocketAddr
  | SetReuseaddr
  | SetSendBufferSize "32 word"
  | SetRecvBufferSize "32 word"
  | SetNodelay bool

text \<open>A socket is what has been set on it. \<open>os_apply\<close> is asked for every operation, \<open>os_connect\<close> when a
  connection is made.\<close>

record TcpStream =
  ts_addr :: SocketAddr
  ts_options :: "sock_op list"

record tcp_os =
  os_open :: "SocketAddr \<Rightarrow> io_error option"
  os_apply :: "TcpStream \<Rightarrow> sock_op \<Rightarrow> io_error option"
  os_connect :: "TcpStream \<Rightarrow> (io_error + unit) timed"

text \<open>An operation whose failure is an error, and one whose failure is only logged. The error of a socket is the message
  and the cause of the \<^verbatim>\<open>ConnectError\<close> made of it.\<close>

type_synonym sock_error = "string \<times> io_error"

definition sock_must :: "tcp_os \<Rightarrow> string \<Rightarrow> sock_op \<Rightarrow> sock_error + TcpStream \<Rightarrow> sock_error + TcpStream" where
  "sock_must os msg op r =
     (case r of
        Inl e \<Rightarrow> Inl e
      | Inr s \<Rightarrow>
          (case os_apply os s op of
             Some e \<Rightarrow> Inl (msg, e)
           | None \<Rightarrow> Inr (s\<lparr>ts_options := ts_options s @ [op]\<rparr>)))"

definition sock_try :: "tcp_os \<Rightarrow> sock_op \<Rightarrow> sock_error + TcpStream \<Rightarrow> sock_error + TcpStream" where
  "sock_try os op r =
     (case r of
        Inl e \<Rightarrow> Inl e
      | Inr s \<Rightarrow> Inr (if os_apply os s op = None then s\<lparr>ts_options := ts_options s @ [op]\<rparr> else s))"

definition if_some :: "'a option \<Rightarrow> ('a \<Rightarrow> 'b \<Rightarrow> 'b) \<Rightarrow> 'b \<Rightarrow> 'b" where
  "if_some x f r = (case x of Some a \<Rightarrow> f a r | None \<Rightarrow> r)"

definition bind_local_address ::
  "tcp_os \<Rightarrow> SocketAddr \<Rightarrow> 32 word option \<Rightarrow> 128 word option \<Rightarrow> sock_error + TcpStream \<Rightarrow> sock_error + TcpStream" where
  "bind_local_address os dst_addr local4 local6 r =
     (case (fst dst_addr, local4, local6) of
        (V4 _, Some addr, _) \<Rightarrow> sock_must os ''tcp bind local error'' (BindTo (V4 addr, 0)) r
      | (V6 _, _, Some addr) \<Rightarrow> sock_must os ''tcp bind local error'' (BindTo (V6 addr, 0)) r
      | _ \<Rightarrow> r)"

definition size_u32 :: "nat \<Rightarrow> 32 word" where
  "size_u32 n = (if n < 2 ^ 32 then of_nat n else - 1)"

text \<open>\<^verbatim>\<open>connect\<close> as on Linux: the socket it prepares, and the future it returns.\<close>

definition prepare_socket :: "tcp_os \<Rightarrow> tcp_config \<Rightarrow> SocketAddr \<Rightarrow> sock_error + TcpStream" where
  "prepare_socket os config addr =
     (let socket = (case os_open os addr of
                      Some e \<Rightarrow> Inl (''tcp open error'', e)
                    | None \<Rightarrow> Inr \<lparr>ts_addr = addr, ts_options = []\<rparr>);
          socket = sock_must os ''tcp set_nonblocking error'' SetNonblocking socket;
          socket = if_some (into_tcpkeepalive (tc_keepalive config)) (\<lambda>ka. sock_try os (SetTcpKeepalive ka)) socket;
          socket = if_some (tc_interface config) (\<lambda>i. sock_must os ''tcp bind interface error'' (BindDevice i)) socket;
          socket = if_some (tc_user_timeout config) (\<lambda>d. sock_try os (SetTcpUserTimeout d)) socket;
          socket = bind_local_address os addr (tc_local_ipv4 config) (tc_local_ipv6 config) socket;
          socket = (if tc_reuse_address config then sock_try os SetReuseaddr socket else socket);
          socket = if_some (tc_send_buffer_size config) (\<lambda>n. sock_try os (SetSendBufferSize (size_u32 n))) socket
      in if_some (tc_recv_buffer_size config) (\<lambda>n. sock_try os (SetRecvBufferSize (size_u32 n))) socket)"

definition connect_future :: "tcp_os \<Rightarrow> nat option \<Rightarrow> TcpStream \<Rightarrow> ('d ConnectError + TcpStream) timed" where
  "connect_future os connect_timeout s t =
     (case connect_timeout of
        Some dur \<Rightarrow>
          (case time_out dur (os_connect os s) t of
             Some (t', Inr (Inr _)) \<Rightarrow> Some (t', Inr s)
           | Some (t', Inr (Inl e)) \<Rightarrow> Some (t', Inl (connect_error ''tcp connect error'' (TcpIo e)))
           | Some (t', Inl _) \<Rightarrow> Some (t', Inl (connect_error ''tcp connect error'' TcpTimedOut))
           | None \<Rightarrow> None)
      | None \<Rightarrow>
          (case os_connect os s t of
             Some (t', Inr _) \<Rightarrow> Some (t', Inr s)
           | Some (t', Inl e) \<Rightarrow> Some (t', Inl (connect_error ''tcp connect error'' (TcpIo e)))
           | None \<Rightarrow> None))"

definition tcp_connect ::
  "tcp_os \<Rightarrow> tcp_config \<Rightarrow> nat option \<Rightarrow> SocketAddr \<Rightarrow> 'd ConnectError + ('d ConnectError + TcpStream) timed" where
  "tcp_connect os config connect_timeout addr =
     (case prepare_socket os config addr of Inl (msg, e) \<Rightarrow> Inl (connect_error msg (TcpIo e)) | Inr s \<Rightarrow> Inr (connect_future os connect_timeout s))"

section \<open>Several addresses\<close>

text \<open>\<^verbatim>\<open>ConnectingTcpRemote\<close>: the time limit is shared out, the number of addresses being cast to 32 bits.\<close>

record ConnectingTcpRemote =
  cr_addrs :: "SocketAddr list"
  cr_timeout :: "nat option"

definition remote_new :: "SocketAddr list \<Rightarrow> nat option \<Rightarrow> ConnectingTcpRemote" where
  "remote_new addrs connect_timeout =
     \<lparr>cr_addrs = addrs,
      cr_timeout = (case connect_timeout of
                      Some t \<Rightarrow> let n = length addrs mod 2 ^ 32 in if n = 0 then None else Some (t div n)
                    | None \<Rightarrow> None)\<rparr>"

fun remote_loop ::
  "tcp_os \<Rightarrow> tcp_config \<Rightarrow> nat option \<Rightarrow> SocketAddr list \<Rightarrow> 'd ConnectError option \<Rightarrow> ('d ConnectError + TcpStream) timed" where
  "remote_loop os config limit [] err t =
     Some (t, Inl (case err of Some e \<Rightarrow> e | None \<Rightarrow> connect_error ''tcp connect error'' NetworkUnreachable))"
| "remote_loop os config limit (addr # addrs) err t =
     (case tcp_connect os config limit addr of
        Inl e \<Rightarrow> Some (t, Inl e)
      | Inr fut \<Rightarrow>
          (case fut t of
             None \<Rightarrow> None
           | Some (t', Inr tcp) \<Rightarrow> Some (t', Inr tcp)
           | Some (t', Inl e) \<Rightarrow> remote_loop os config limit addrs (Some e) t'))"

definition remote_connect :: "tcp_os \<Rightarrow> tcp_config \<Rightarrow> ConnectingTcpRemote \<Rightarrow> ('d ConnectError + TcpStream) timed" where
  "remote_connect os config r = remote_loop os config (cr_timeout r) (cr_addrs r) None"

record ConnectingTcp =
  ct_preferred :: ConnectingTcpRemote
  ct_fallback :: "(nat \<times> ConnectingTcpRemote) option"

definition connecting_new :: "SocketAddr list \<Rightarrow> tcp_config \<Rightarrow> ConnectingTcp" where
  "connecting_new remote_addrs config =
     (case tc_happy_eyeballs_timeout config of
        Some fallback_timeout \<Rightarrow>
          (case split_by_preference (tc_local_ipv4 config) (tc_local_ipv6 config) remote_addrs of
             (preferred_addrs, fallback_addrs) \<Rightarrow>
               if fallback_addrs = []
               then \<lparr>ct_preferred = remote_new preferred_addrs (tc_connect_timeout config), ct_fallback = None\<rparr>
               else \<lparr>ct_preferred = remote_new preferred_addrs (tc_connect_timeout config),
                     ct_fallback = Some (fallback_timeout, remote_new fallback_addrs (tc_connect_timeout config))\<rparr>)
      | None \<Rightarrow> \<lparr>ct_preferred = remote_new remote_addrs (tc_connect_timeout config), ct_fallback = None\<rparr>)"

text \<open>\<^verbatim>\<open>futures_util::future::select\<close>: the first one ready, the left one if both are; with it, the other one.\<close>

definition select :: "(nat \<times> 'a) option \<Rightarrow> (nat \<times> 'a) option \<Rightarrow> ((nat \<times> 'a) \<times> (nat \<times> 'a) option) option" where
  "select l r =
     (case (l, r) of
        (Some x, Some y) \<Rightarrow> if fst x \<le> fst y then Some (x, r) else Some (y, l)
      | (Some x, None) \<Rightarrow> Some (x, r)
      | (None, Some y) \<Rightarrow> Some (y, l)
      | (None, None) \<Rightarrow> None)"

definition connecting_connect :: "tcp_os \<Rightarrow> tcp_config \<Rightarrow> ConnectingTcp \<Rightarrow> ('d ConnectError + TcpStream) timed" where
  "connecting_connect os config c t =
     (case ct_fallback c of
        None \<Rightarrow> remote_connect os config (ct_preferred c) t
      | Some (delay, fallback) \<Rightarrow>
          (let preferred_fut = remote_connect os config (ct_preferred c) t;
               fallback_fut = remote_connect os config fallback;
               first = (case preferred_fut of
                          Some (t', result) \<Rightarrow>
                            if t' \<le> t + delay then Some ((t', result), fallback_fut t')
                            else select preferred_fut (fallback_fut (t + delay))
                        | None \<Rightarrow> select preferred_fut (fallback_fut (t + delay)))
           in case first of
                None \<Rightarrow> None
              | Some ((t', Inl _), other) \<Rightarrow> other
              | Some ((t', Inr tcp), _) \<Rightarrow> Some (t', Inr tcp)))"

text \<open>\<^verbatim>\<open>HttpConnector::call\<close>.\<close>

definition tcp_nodelay :: "tcp_os \<Rightarrow> bool \<Rightarrow> TcpStream \<Rightarrow> TcpStream" where
  "tcp_nodelay os nodelay s =
     (if os_apply os s (SetNodelay nodelay) = None then s\<lparr>ts_options := ts_options s @ [SetNodelay nodelay]\<rparr> else s)"

definition connect_addrs :: "tcp_os \<Rightarrow> tcp_config \<Rightarrow> SocketAddr list \<Rightarrow> ('d ConnectError + TcpStream) timed" where
  "connect_addrs os config addrs t =
     (case connecting_connect os config (connecting_new addrs config) t of
        Some (t', Inr sock) \<Rightarrow> Some (t', Inr (tcp_nodelay os (tc_nodelay config) sock))
      | r \<Rightarrow> r)"

definition http_call ::
  "'u uri_lib \<Rightarrow> tcp_os \<Rightarrow> 'd resolver \<Rightarrow> tcp_config \<Rightarrow> 'u \<Rightarrow> ('d ConnectError + TcpStream) timed" where
  "http_call U os resolver config dst t =
     (case get_host_port U config dst of
        Inl e \<Rightarrow> Some (t, Inl e)
      | Inr (host, port) \<Rightarrow>
          (let host = without_brackets host
           in case try_parse host port of
                Some addrs \<Rightarrow> connect_addrs os config addrs t
              | None \<Rightarrow>
                  (case resolver host t of
                     None \<Rightarrow> None
                   | Some (t', Inl e) \<Rightarrow> Some (t', Inl (connect_error ''dns error'' (DnsCause e)))
                   | Some (t', Inr addrs) \<Rightarrow> connect_addrs os config (map (set_port port (uri_port U dst \<noteq> None)) addrs) t')))"


section \<open>What a socket is made of\<close>

text \<open>Preparing a socket only adds options, and those that must be set are.\<close>

definition has_options :: "SocketAddr \<Rightarrow> sock_op set \<Rightarrow> sock_error + TcpStream \<Rightarrow> bool" where
  "has_options addr ops r \<longleftrightarrow> (\<forall>s. r = Inr s \<longrightarrow> ts_addr s = addr \<and> ops \<subseteq> set (ts_options s))"

lemma has_options_must: "has_options addr ops r \<Longrightarrow> has_options addr (insert op ops) (sock_must os msg op r)"
  by (fastforce simp: has_options_def sock_must_def split: sum.splits option.splits)

lemma has_options_try: "has_options addr ops r \<Longrightarrow> has_options addr ops (sock_try os op r)"
  by (auto simp: has_options_def sock_try_def split: sum.splits)

lemma has_options_if_some:
  assumes "has_options addr ops r" and "\<And>a r. has_options addr ops r \<Longrightarrow> has_options addr (ops \<union> extra a) (f a r)"
  shows "has_options addr (ops \<union> (case x of Some a \<Rightarrow> extra a | None \<Rightarrow> {})) (if_some x f r)"
  using assms by (cases x) (simp_all add: if_some_def)

lemma has_options_if_try: "has_options addr ops r \<Longrightarrow> has_options addr ops (if_some x (\<lambda>a. sock_try os (op a)) r)"
  by (cases x) (simp_all add: if_some_def has_options_try)

definition local_bind :: "tcp_config \<Rightarrow> SocketAddr \<Rightarrow> sock_op set" where
  "local_bind config addr =
     (case fst addr of
        V4 _ \<Rightarrow> (case tc_local_ipv4 config of Some a \<Rightarrow> {BindTo (V4 a, 0)} | None \<Rightarrow> {})
      | V6 _ \<Rightarrow> (case tc_local_ipv6 config of Some a \<Rightarrow> {BindTo (V6 a, 0)} | None \<Rightarrow> {}))"

lemma has_options_bind:
  "has_options addr ops r \<Longrightarrow>
   has_options addr (ops \<union> local_bind config addr) (bind_local_address os addr (tc_local_ipv4 config) (tc_local_ipv6 config) r)"
  by (auto simp: bind_local_address_def local_bind_def intro: has_options_must split: IpAddr.splits option.splits)

lemma prepare_socket_options:
  assumes "prepare_socket os config addr = Inr s"
  shows "ts_addr s = addr \<and> local_bind config addr \<subseteq> set (ts_options s) \<and>
    (\<forall>i. tc_interface config = Some i \<longrightarrow> BindDevice i \<in> set (ts_options s))"
proof -
  let ?dev = "case tc_interface config of Some i \<Rightarrow> {BindDevice i} | None \<Rightarrow> {}"
  define r0 :: "sock_error + TcpStream" where "r0 = (case os_open os addr of Some e \<Rightarrow> Inl (''tcp open error'', e)
      | None \<Rightarrow> Inr \<lparr>ts_addr = addr, ts_options = []\<rparr>)"
  have "has_options addr {} r0"
    by (simp add: r0_def has_options_def split: option.splits)
  then have r1: "has_options addr {SetNonblocking} (sock_must os ''tcp set_nonblocking error'' SetNonblocking r0)" (is "has_options _ _ ?r1")
    by (rule has_options_must)
  have r2: "has_options addr ({SetNonblocking} \<union> ?dev)
      (if_some (tc_interface config) (\<lambda>i. sock_must os ''tcp bind interface error'' (BindDevice i))
        (if_some (into_tcpkeepalive (tc_keepalive config)) (\<lambda>ka. sock_try os (SetTcpKeepalive ka)) ?r1))"
    by (rule has_options_if_some [OF has_options_if_try [OF r1]]) (simp add: has_options_must)
  have "has_options addr ({SetNonblocking} \<union> ?dev \<union> local_bind config addr) (prepare_socket os config addr)"
    unfolding prepare_socket_def Let_def r0_def [symmetric]
    by (cases "tc_reuse_address config") (simp_all add: has_options_if_try has_options_bind has_options_try r2 del: Un_insert_left Un_empty_left)
  with assms show ?thesis by (auto simp: has_options_def)
qed

section \<open>Which addresses are tried\<close>

lemma connect_future_sound:
  assumes "connect_future os limit s t = Some (t', Inr s')"
  shows "s' = s \<and> os_connect os s t = Some (t', Inr ())"
  using assms by (auto simp: connect_future_def time_out_def split: option.splits sum.splits if_splits)

lemma remote_loop_sound:
  fixes err :: "'d ConnectError option"
  assumes "remote_loop os config limit addrs err t = Some (t', Inr s)"
  shows "\<exists>addr\<in>set addrs. prepare_socket os config addr = Inr s"
  using assms
proof (induction os config limit addrs err t rule: remote_loop.induct)
  case (2 os config limit addr addrs err t)
  show ?case
  proof (cases "prepare_socket os config addr")
    case (Inl e)
    then show ?thesis using 2(2) by (auto simp: tcp_connect_def split: prod.splits)
  next
    case (Inr s1)
    with 2(2) obtain t1 and r1 :: "'d ConnectError + TcpStream" where r1: "connect_future os limit s1 t = Some (t1, r1)"
      by (auto simp: tcp_connect_def split: option.splits)
    show ?thesis
    proof (cases r1)
      case err: (Inl e)
      have "remote_loop os config limit addrs (Some e) t1 = Some (t', Inr s)" using 2(2) by (simp add: tcp_connect_def Inr r1 err)
      with 2(1) [of "connect_future os limit s1" "(t1, r1)" t1 r1 e] r1 err Inr show ?thesis by (fastforce simp: tcp_connect_def)
    next
      case ok: (Inr s2)
      then have "s2 = s" using 2(2) by (simp add: tcp_connect_def Inr r1)
      with connect_future_sound [OF r1 [unfolded ok]] Inr show ?thesis by auto
    qed
  qed
qed simp

lemma select_from: "select l r = Some (x, other) \<Longrightarrow> l = Some x \<and> other = r \<or> r = Some x \<and> other = l"
  by (auto simp: select_def split: option.splits if_splits)

lemma connecting_from:
  fixes r :: "'d ConnectError + TcpStream"
  assumes "connecting_connect os config c t = Some (t', r)"
  shows "(\<exists>t1. remote_connect os config (ct_preferred c) t1 = Some (t', r)) \<or>
    (\<exists>delay fb t1. ct_fallback c = Some (delay, fb) \<and> remote_connect os config fb t1 = Some (t', r))"
proof (cases "ct_fallback c")
  case None
  then show ?thesis using assms by (auto simp: connecting_connect_def)
next
  case (Some d)
  obtain delay fb where d: "d = (delay, fb)" by (rule prod.exhaust)
  show ?thesis
    using assms unfolding connecting_connect_def Some d option.case prod.case Let_def
    by (fastforce dest: select_from split: option.splits prod.splits sum.splits if_splits)
qed

lemma connecting_addrs:
  "set (cr_addrs (ct_preferred (connecting_new addrs config))) \<subseteq> set addrs"
  "ct_fallback (connecting_new addrs config) = Some (delay, fb) \<Longrightarrow> set (cr_addrs fb) \<subseteq> set addrs"
  by (auto simp: connecting_new_def split_by_preference_def remote_new_def partition_filter_conv
        split: option.splits prod.splits if_splits)

text \<open>The address families that may be used when only one has a local address. The code sorts addresses by family only if the
  delay for the second family is set, as it is by default and in every connector the crate makes; without it every address is
  tried, and the condition is void.\<close>

definition family_allowed :: "tcp_config \<Rightarrow> SocketAddr \<Rightarrow> bool" where
  "family_allowed config addr \<longleftrightarrow>
     (tc_happy_eyeballs_timeout config \<noteq> None \<longrightarrow>
        (is_ipv4 addr \<longrightarrow> tc_local_ipv4 config \<noteq> None \<or> tc_local_ipv6 config = None) \<and>
        (is_ipv6 addr \<longrightarrow> tc_local_ipv6 config \<noteq> None \<or> tc_local_ipv4 config = None))"

lemma is_ipv6_not_ipv4: "is_ipv6 a \<longleftrightarrow> \<not> is_ipv4 a"
  by (simp add: is_ipv6_def is_ipv4_def split: IpAddr.splits)

lemma connecting_families:
  "a \<in> set (cr_addrs (ct_preferred (connecting_new addrs config))) \<Longrightarrow> family_allowed config a"
  "ct_fallback (connecting_new addrs config) = Some (delay, fb) \<Longrightarrow> a \<in> set (cr_addrs fb) \<Longrightarrow> family_allowed config a"
  by (auto simp: connecting_new_def split_by_preference_def remote_new_def family_allowed_def is_ipv6_not_ipv4
        split: option.splits prod.splits if_splits)

lemma connect_addrs_sound:
  assumes "connect_addrs os config addrs t = Some (t', Inr s :: 'd ConnectError + TcpStream)"
  shows "ts_addr s \<in> set addrs \<and> family_allowed config (ts_addr s) \<and> local_bind config (ts_addr s) \<subseteq> set (ts_options s) \<and>
    (\<forall>i. tc_interface config = Some i \<longrightarrow> BindDevice i \<in> set (ts_options s))"
proof -
  let ?c = "connecting_new addrs config"
  from assms obtain s0 where c: "connecting_connect os config ?c t = Some (t', Inr s0 :: 'd ConnectError + TcpStream)"
    and s: "s = tcp_nodelay os (tc_nodelay config) s0"
    by (auto simp: connect_addrs_def split: option.splits sum.splits)
  have n: "ts_addr s = ts_addr s0" "set (ts_options s0) \<subseteq> set (ts_options s)" by (auto simp: s tcp_nodelay_def)
  obtain addr where a: "prepare_socket os config addr = Inr s0" "addr \<in> set addrs" "family_allowed config addr"
    using connecting_from [OF c] connecting_addrs [where addrs = addrs and config = config]
      connecting_families [where addrs = addrs and config = config]
    unfolding remote_connect_def by (blast dest: remote_loop_sound)
  from prepare_socket_options [OF a(1)] a n show ?thesis by auto
qed

text \<open>C20. Where a connection goes to and where it leaves from. A connection that is made goes to an address of the host of
  the destination, the one it is a literal of or one its resolver gave, with the port of the destination unless the resolver gave one and the destination
  none; it is bound to the configured interface and to the local address configured for the family of its address, and where only the other
  family has a local address it is not made at all, provided that the delay for the second family is set, as it is by default.\<close>
theorem connection_as_configured:
  fixes resolver :: "'d resolver"
  assumes "http_call U os resolver config dst t = Some (t', Inr s)"
  shows "\<exists>host port. get_host_port U config dst = (Inr (host, port) :: 'd ConnectError + string \<times> u16) \<and>
    (if parse_ip (without_brackets host) \<noteq> None
     then parse_ip (without_brackets host) = Some (fst (ts_addr s)) \<and> snd (ts_addr s) = port
     else \<exists>t1 addrs addr. resolver (without_brackets host) t = Some (t1, Inr addrs) \<and> addr \<in> set addrs \<and>
       ts_addr s = set_port port (uri_port U dst \<noteq> None) addr) \<and>
    family_allowed config (ts_addr s) \<and> local_bind config (ts_addr s) \<subseteq> set (ts_options s) \<and>
    (\<forall>i. tc_interface config = Some i \<longrightarrow> BindDevice i \<in> set (ts_options s))"
proof -
  from assms obtain host port where h: "get_host_port U config dst = (Inr (host, port) :: 'd ConnectError + string \<times> u16)"
    by (auto simp: http_call_def split: sum.splits)
  show ?thesis
  proof (cases "parse_ip (without_brackets host)")
    case (Some ip)
    then have "connect_addrs os config [(ip, port)] t = Some (t', Inr s :: 'd ConnectError + TcpStream)"
      using assms h by (simp add: http_call_def try_parse_def)
    from connect_addrs_sound [OF this] h Some show ?thesis by auto
  next
    case None
    then obtain t1 addrs where r: "resolver (without_brackets host) t = Some (t1, Inr addrs)"
      "connect_addrs os config (map (set_port port (uri_port U dst \<noteq> None)) addrs) t1 = Some (t', Inr s :: 'd ConnectError + TcpStream)"
      using assms h by (auto simp: http_call_def try_parse_def split: option.splits sum.splits)
    from connect_addrs_sound [OF r(2)] r(1) h None show ?thesis
      by (intro exI [of _ host] exI [of _ port]) auto
  qed
qed

text \<open>A system on which everything works: every connection is there after the given time.\<close>

definition easy_os :: "(SocketAddr \<Rightarrow> nat option) \<Rightarrow> tcp_os" where
  "easy_os latency =
     \<lparr>os_open = (\<lambda>_. None), os_apply = (\<lambda>_ _. None),
      os_connect = (\<lambda>s t. map_option (\<lambda>d. (t + d, Inr ())) (latency (ts_addr s)))\<rparr>"

lemmas tcp_eval = prepare_socket_def easy_os_def sock_must_def sock_try_def if_some_def bind_local_address_def into_tcpkeepalive_def
  connect_future_def tcp_connect_def remote_new_def remote_connect_def connecting_new_def connecting_connect_def split_by_preference_def
  connect_addrs_def tcp_nodelay_def default_tcp_config_def set_local_address_def is_ipv4_def is_ipv6_def time_out_def select_def

definition local_uri :: uri_parts where
  "local_uri = \<lparr>up_scheme = Some ''http'', up_authority = Some ''127.0.0.1'', up_path = Some ''/''\<rparr>"

text \<open>Witness of C20: an address as host, and a local address to leave from.\<close>
theorem connection_as_configured_witness:
  "let config = set_local_address (Some (V4 0x7F000002)) default_tcp_config
   in \<exists>s. http_call plain_uri (easy_os (\<lambda>_. Some 1)) (\<lambda>_ _. None :: (nat \<times> (unit + SocketAddr list)) option) config local_uri 0 = Some (1, Inr s) \<and>
     ts_addr s = (V4 0x7F000001, 80) \<and> BindTo (V4 0x7F000002, 0) \<in> set (ts_options s)"
proof -
  let ?config = "set_local_address (Some (V4 0x7F000002)) default_tcp_config"
  let ?s = "\<lparr>ts_addr = (V4 0x7F000001, 80), ts_options = [SetNonblocking, BindTo (V4 0x7F000002, 0), SetNodelay False]\<rparr>"
  have g: "get_host_port plain_uri ?config local_uri = (Inr (''127.0.0.1'', 80) :: unit ConnectError + string \<times> u16)"
    by (simp add: get_host_port_def plain_uri_def local_uri_def split_port_def tcp_eval)
  have w: "without_brackets ''127.0.0.1'' = ''127.0.0.1''" by (simp add: without_brackets_def)
  have "connect_addrs (easy_os (\<lambda>_. Some 1)) ?config [(V4 0x7F000001, 80)] 0 = Some (1, Inr ?s :: unit ConnectError + TcpStream)"
    by (simp add: tcp_eval)
  then have c: "http_call plain_uri (easy_os (\<lambda>_. Some 1)) (\<lambda>_ _. None :: (nat \<times> (unit + SocketAddr list)) option) ?config local_uri 0 = Some (1, Inr ?s)"
    by (simp add: http_call_def g w try_parse_def parse_ip_loopback)
  from connection_as_configured [OF c] c show ?thesis by (simp add: local_bind_def set_local_address_def)
qed

section \<open>Times\<close>

lemma connect_future_bound:
  "\<exists>t' r. connect_future os (Some d) s t = Some (t', r :: 'd ConnectError + TcpStream) \<and> t' \<le> t + d"
  by (auto simp: connect_future_def time_out_def split: option.splits sum.splits)

lemma remote_loop_bound:
  fixes err :: "'d ConnectError option"
  shows "\<exists>t' r. remote_loop os config (Some d) addrs err t = Some (t', r) \<and> t' \<le> t + length addrs * d"
proof (induction addrs arbitrary: err t)
  case (Cons addr addrs)
  show ?case
  proof (cases "tcp_connect os config (Some d) addr :: 'd ConnectError + ('d ConnectError + TcpStream) timed")
    case (Inl e)
    then show ?thesis by simp
  next
    case (Inr fut)
    then obtain s where "fut = connect_future os (Some d) s" by (auto simp: tcp_connect_def split: sum.splits prod.splits)
    with connect_future_bound [of os d s t, where ?'d = 'd] obtain t1 r1 where f: "fut t = Some (t1, r1)" "t1 \<le> t + d" by blast
    show ?thesis
    proof (cases r1)
      case err: (Inl e)
      from Cons.IH [of "Some e" t1] f(2) show ?thesis by (auto simp: Inr f(1) err)
    next
      case ok: (Inr s)
      with f(2) show ?thesis by (simp add: Inr f(1))
    qed
  qed
qed simp

lemma remote_connect_bound:
  assumes "length addrs < 2 ^ 32"
  shows "\<exists>t' r. remote_connect os config (remote_new addrs (Some T)) t = Some (t', r :: 'd ConnectError + TcpStream) \<and> t' \<le> t + T"
proof (cases "addrs = []")
  case True
  then show ?thesis by (simp add: remote_connect_def remote_new_def)
next
  case False
  have "length addrs mod 2 ^ 32 = length addrs" using assms by simp
  then have "remote_connect os config (remote_new addrs (Some T)) =
      (remote_loop os config (Some (T div length addrs)) addrs None :: ('d ConnectError + TcpStream) timed)"
    using False by (simp add: remote_connect_def remote_new_def Let_def)
  moreover obtain t' and r :: "'d ConnectError + TcpStream" where
    "remote_loop os config (Some (T div length addrs)) addrs None t = Some (t', r)" "t' \<le> t + T"
    using remote_loop_bound [of os config "T div length addrs" addrs "None :: 'd ConnectError option" t] times_div_less_eq_dividend [of "length addrs" T]
    by (meson add_left_mono le_trans)
  ultimately show ?thesis by (intro exI [of _ t'] exI [of _ r]) simp
qed

text \<open>With a time limit for connecting, a call ends whatever the network does, with a connection or an error, and this within the
  limit and, where both address families are tried, the delay before the second is started (or once more the limit, if that is
  less).\<close>
lemma connect_time_bounded:
  assumes "tc_connect_timeout config = Some T" and "length addrs < 2 ^ 32"
  shows "\<exists>t' r. connect_addrs os config addrs t = Some (t', r :: 'd ConnectError + TcpStream) \<and>
    t' \<le> t + T + (case tc_happy_eyeballs_timeout config of Some delay \<Rightarrow> min T delay | None \<Rightarrow> 0)"
proof -
  let ?c = "connecting_new addrs config"
  let ?extra = "case tc_happy_eyeballs_timeout config of Some delay \<Rightarrow> min T delay | None \<Rightarrow> 0"
  have len: "length (filter P addrs) < 2 ^ 32" for P using assms(2) length_filter_le [of P addrs] by linarith
  obtain ps where "ct_preferred ?c = remote_new ps (Some T)" "length ps < 2 ^ 32"
    using that [of addrs] that [of "filter _ addrs"] len assms
    by (fastforce simp: connecting_new_def split_by_preference_def split: option.splits)
  then obtain tp and rp :: "'d ConnectError + TcpStream" where p: "remote_connect os config (ct_preferred ?c) t = Some (tp, rp)" "tp \<le> t + T"
    using remote_connect_bound [of ps os config T t] by auto
  have "\<exists>t' r. connecting_connect os config ?c t = Some (t', r :: 'd ConnectError + TcpStream) \<and> t' \<le> t + T + ?extra"
  proof (cases "ct_fallback ?c")
    case None
    then show ?thesis using p by (auto simp: connecting_connect_def)
  next
    case (Some f)
    then obtain delay fbs where f: "tc_happy_eyeballs_timeout config = Some delay" "f = (delay, remote_new fbs (Some T))" "length fbs < 2 ^ 32"
      using len assms(1) by (auto simp: connecting_new_def split_by_preference_def split: option.splits if_splits)
    have fb: "\<exists>t' r. remote_connect os config (remote_new fbs (Some T)) t0 = Some (t', r :: 'd ConnectError + TcpStream) \<and> t' \<le> t0 + T" for t0
      by (rule remote_connect_bound) (rule f(3))
    note eq = connecting_connect_def [of os config ?c t, where ?'d = 'd, unfolded Some f(2) p(1) option.case prod.case Let_def]
    show ?thesis
    proof (cases "tp \<le> t + delay")
      case True
      with fb [of tp] p(2) show ?thesis by (cases rp) (auto simp: eq f(1))
    next
      case False
      obtain tf and rf :: "'d ConnectError + TcpStream" where tf: "remote_connect os config (remote_new fbs (Some T)) (t + delay) = Some (tf, rf)" "tf \<le> t + delay + T"
        using fb by blast
      with False p(2) show ?thesis by (cases rp; cases rf) (auto simp: eq f(1) select_def split: if_splits)
    qed
  qed
  then show ?thesis by (auto simp: connect_addrs_def split: sum.splits)
qed

text \<open>At a concrete input: four addresses that never answer, one second in all.\<close>
lemma connect_time_bounded_instance:
  "\<exists>t' r. connect_addrs (easy_os (\<lambda>_. None)) (default_tcp_config\<lparr>tc_connect_timeout := Some (10 ^ 9)\<rparr>)
     [(V4 1, 80), (V6 2, 80), (V4 3, 80), (V6 4, 80)] 0 = Some (t', r :: unit ConnectError + TcpStream) \<and> t' \<le> 1300000000"
  using connect_time_bounded [of "default_tcp_config\<lparr>tc_connect_timeout := Some (10 ^ 9)\<rparr>" "10 ^ 9"
      "[(V4 1, 80), (V6 2, 80), (V4 3, 80), (V6 4, 80)]" "easy_os (\<lambda>_. None)" 0, where ?'d = unit]
  by (simp add: default_tcp_config_def)

section \<open>Two address families\<close>

text \<open>An address that accepts connections, within a time \<open>k\<close> and the limit of an attempt, whenever it is tried.\<close>

definition answers :: "tcp_os \<Rightarrow> tcp_config \<Rightarrow> nat option \<Rightarrow> nat \<Rightarrow> SocketAddr \<Rightarrow> bool" where
  "answers os config limit k addr \<longleftrightarrow>
     (\<exists>s. prepare_socket os config addr = Inr s \<and>
        (\<forall>t. \<exists>t'. os_connect os s t = Some (t', Inr ()) \<and> t' \<le> t + k)) \<and>
     (\<forall>d. limit = Some d \<longrightarrow> k \<le> d)"

lemma answers_first:
  assumes "answers os config limit k addr"
  shows "\<exists>t' s. remote_loop os config limit (addr # addrs) err t = Some (t', Inr s :: 'd ConnectError + TcpStream) \<and> t' \<le> t + k"
proof -
  from assms obtain s where s: "prepare_socket os config addr = Inr s"
    "\<forall>t. \<exists>t'. os_connect os s t = Some (t', Inr ()) \<and> t' \<le> t + k" "\<forall>d. limit = Some d \<longrightarrow> k \<le> d"
    unfolding answers_def by blast
  from s(2) obtain t' where c: "os_connect os s t = Some (t', Inr ())" "t' \<le> t + k" by blast
  have "connect_future os limit s t = Some (t', Inr s :: 'd ConnectError + TcpStream)"
    using c s(3) by (cases limit) (auto simp: connect_future_def time_out_def)
  then have "remote_loop os config limit (addr # addrs) err t = Some (t', Inr s :: 'd ConnectError + TcpStream)" by (simp add: tcp_connect_def s(1))
  with c(2) show ?thesis by blast
qed

text \<open>C21. The race of the address families: if the first address of the second family answers within a time \<open>k\<close>, the call gives a
  connection within the delay of that family and \<open>k\<close>, whatever becomes of the addresses of the first family, even if none of them
  ever answers or refuses.\<close>
theorem happy_eyeballs:
  assumes "tc_happy_eyeballs_timeout config = Some delay"
    and "split_by_preference (tc_local_ipv4 config) (tc_local_ipv6 config) addrs = (preferred, addr # fallback)"
    and "answers os config (cr_timeout (remote_new (addr # fallback) (tc_connect_timeout config))) k addr"
  shows "\<exists>t' s. connect_addrs os config addrs t = Some (t', Inr s :: 'd ConnectError + TcpStream) \<and> t' \<le> t + delay + k"
proof -
  let ?c = "connecting_new addrs config"
  let ?fb = "remote_new (addr # fallback) (tc_connect_timeout config)"
  let ?p = "remote_connect os config (ct_preferred ?c) t :: (nat \<times> ('d ConnectError + TcpStream)) option"
  have c: "ct_fallback ?c = Some (delay, ?fb)" using assms(1,2) by (simp add: connecting_new_def)
  have fb: "\<exists>t' s. remote_connect os config ?fb t0 = Some (t', Inr s :: 'd ConnectError + TcpStream) \<and> t' \<le> t0 + k" for t0
    using answers_first [OF assms(3), of fallback] by (simp add: remote_connect_def remote_new_def)
  have "\<exists>t' s. connecting_connect os config ?c t = Some (t', Inr s :: 'd ConnectError + TcpStream) \<and> t' \<le> t + delay + k"
  proof (cases "\<exists>tp rp. ?p = Some (tp, rp) \<and> tp \<le> t + delay")
    case True
    then obtain tp rp where p: "?p = Some (tp, rp)" "tp \<le> t + delay" by blast
    from fb [of tp] p show ?thesis
      by (cases rp) (auto simp: connecting_connect_def c Let_def)
  next
    case False
    obtain tf sf where f: "remote_connect os config ?fb (t + delay) = Some (tf, Inr sf :: 'd ConnectError + TcpStream)" "tf \<le> t + delay + k"
      using fb by blast
    have "connecting_connect os config ?c t =
        (case select ?p (remote_connect os config ?fb (t + delay)) of
           None \<Rightarrow> None | Some ((t', Inl _), other) \<Rightarrow> other | Some ((t', Inr tcp), _) \<Rightarrow> Some (t', Inr tcp))"
      using False by (auto simp: connecting_connect_def c Let_def split: option.splits)
    then show ?thesis
      using f by (cases ?p) (auto simp: select_def split: sum.splits)
  qed
  then show ?thesis by (auto simp: connect_addrs_def)
qed

text \<open>Witness of C21: an IPv6 address that never answers, and an IPv4 address that does after 20 milliseconds.\<close>
theorem happy_eyeballs_witness:
  "\<exists>t' s. connect_addrs (easy_os (\<lambda>a. if is_ipv4 a then Some 20000000 else None)) default_tcp_config [(V4 1, 80), (V6 2, 80)] 0 =
     Some (t', Inr s :: unit ConnectError + TcpStream) \<and> t' \<le> 320000000"
proof -
  let ?os = "easy_os (\<lambda>a. if is_ipv4 a then Some 20000000 else None)"
  let ?s = "\<lparr>ts_addr = (V4 1, 80), ts_options = [SetNonblocking]\<rparr>"
  have "prepare_socket ?os default_tcp_config (V4 1, 80) = Inr ?s" by (simp add: tcp_eval)
  moreover have "os_connect ?os ?s t = Some (t + 20000000, Inr ())" for t by (simp add: easy_os_def is_ipv4_def)
  ultimately have a: "answers ?os default_tcp_config (cr_timeout (remote_new [(V4 1, 80)] (tc_connect_timeout default_tcp_config))) 20000000 (V4 1, 80)"
    by (auto simp: answers_def remote_new_def default_tcp_config_def)
  have sp: "split_by_preference (tc_local_ipv4 default_tcp_config) (tc_local_ipv6 default_tcp_config) [(V4 1, 80), (V6 2, 80)] = ([(V6 2, 80)], [(V4 1, 80)])"
    by (simp add: split_by_preference_def default_tcp_config_def is_ipv6_def)
  show ?thesis
    using happy_eyeballs [OF _ sp a, of 300000000 0, where ?'d = unit] by (simp add: default_tcp_config_def)
qed

end
