(* ===== verification/Rt_Io.thy ===== *)
theory Rt_Io
  imports Transport
begin

text \<open>
  The two async helpers of \<^verbatim>\<open>src/src/core/rt/io.rs\<close> with which the proxy handshakes talk to a transport. Awaiting is
  polling until the answer is ready, so a helper that never gets one has the value \<^const>\<open>None\<close>.

  The locale \<open>live_transport\<close> is a transport that makes progress: it is not pending forever, a write that succeeds
  takes at least one byte, and what the peer has still to send does not change when something is written. Under these laws
  both helpers return.
\<close>

partial_function (option) rt_read ::
  "('t, 'z) transport_ops_scheme \<Rightarrow> 't \<Rightarrow> nat \<Rightarrow> ('t \<times> bytes io_result) option" where
  "rt_read T t n =
     (case poll_read T t n of
        (t', Pending) \<Rightarrow> rt_read T t' n
      | (t', Ready r) \<Rightarrow> Some (t', r))"

partial_function (option) write_all ::
  "('t, 'z) transport_ops_scheme \<Rightarrow> 't \<Rightarrow> bytes \<Rightarrow> ('t \<times> unit io_result) option" where
  "write_all T t buf =
     (if buf = [] then Some (t, Inr ())
      else case poll_write T t buf of
             (t', Pending) \<Rightarrow> write_all T t' buf
           | (t', Ready (Inl e)) \<Rightarrow> Some (t', Inl e)
           | (t', Ready (Inr n)) \<Rightarrow> write_all T t' (drop n buf))"

locale live_transport = transport +
  fixes patience :: "'t \<Rightarrow> nat"
  assumes read_patience: "tinv t \<Longrightarrow> poll_read T t n = (t', Pending) \<Longrightarrow> patience t' < patience t"
    and write_patience: "tinv t \<Longrightarrow> poll_write T t bs = (t', Pending) \<Longrightarrow> patience t' < patience t"
    and write_some: "tinv t \<Longrightarrow> bs \<noteq> [] \<Longrightarrow> poll_write T t bs = (t', Ready (Inr n)) \<Longrightarrow> 0 < n"
    and write_unread: "tinv t \<Longrightarrow> unread (fst (poll_write T t bs)) = unread t"
begin

text \<open>The outcome of a read.\<close>

definition read_ok :: "nat \<Rightarrow> 't \<Rightarrow> 't \<Rightarrow> bytes io_result \<Rightarrow> bool" where
  "read_ok n t t' r \<longleftrightarrow> tinv t' \<and> written t' = written t \<and>
     (case r of
        Inl _ \<Rightarrow> unread t' = unread t
      | Inr bs \<Rightarrow> unread t = bs @ unread t' \<and> length bs \<le> n \<and> (bs = [] \<longrightarrow> unread t = []))"

lemma rt_read_total:
  assumes "tinv t" and "0 < n"
  obtains t' r where "rt_read T t n = Some (t', r)" and "read_ok n t t' r"
  using assms(1)
proof (induction "patience t" arbitrary: t thesis rule: less_induct)
  case less
  obtain t' p where p: "poll_read T t n = (t', p)" by (rule prod.exhaust)
  have inv: "tinv t'" and w: "written t' = written t"
    using rd.read_invar [OF less.prems(2), of n] read_written [OF less.prems(2), of n] p by simp_all
  show ?case
  proof (cases p)
    case Pending
    have "patience t' < patience t" using read_patience less.prems(2) p Pending by blast
    then obtain t2 r where r: "rt_read T t' n = Some (t2, r)" "read_ok n t' t2 r" using less.hyps inv by blast
    have "unread t' = unread t" using rd.read_pending less.prems(2) p Pending by blast
    then have "read_ok n t t2 r" using r(2) w by (auto simp: read_ok_def split: sum.splits)
    moreover have "rt_read T t n = Some (t2, r)" using r(1) p Pending by (simp add: rt_read.simps [of T t n])
    ultimately show ?thesis using less.prems(1) by blast
  next
    case (Ready r)
    have "read_ok n t t' r"
    proof (cases r)
      case (Inl e)
      then show ?thesis using rd.read_error [OF less.prems(2)] p Ready inv w by (simp add: read_ok_def)
    next
      case (Inr bs)
      then show ?thesis
        using rd.read_data [OF less.prems(2)] rd.read_eof [OF less.prems(2)] p Ready inv w assms(2)
        by (auto simp: read_ok_def)
    qed
    then show ?thesis using less.prems(1) p Ready by (simp add: rt_read.simps)
  qed
qed

lemma write_all_total:
  assumes "tinv t"
  obtains t' r where "write_all T t buf = Some (t', r)" and "tinv t'" and "unread t' = unread t"
    and "r = Inr () \<Longrightarrow> written t' = written t @ buf"
  using assms
proof (induction "(length buf, patience t)" arbitrary: t buf thesis rule: wf_induct_rule [OF wf_lex_prod [OF wf_less_than wf_less_than]])
  case 1
  show ?case
  proof (cases "buf = []")
    case True
    then show ?thesis using "1.prems" by (simp add: write_all.simps)
  next
    case False
    obtain t' p where p: "poll_write T t buf = (t', p)" by (rule prod.exhaust)
    have inv: "tinv t'" and u: "unread t' = unread t" and acc: "accepts (written t) buf (written t') p"
      using write_inv [OF "1.prems"(2), of buf] write_unread [OF "1.prems"(2), of buf] write_accepts [OF "1.prems"(2)] p
      by simp_all
    show ?thesis
    proof (cases p)
      case Pending
      have "((length buf, patience t'), length buf, patience t) \<in> less_than <*lex*> less_than"
        using write_patience [OF "1.prems"(2)] p Pending by simp
      then obtain t2 r where r: "write_all T t' buf = Some (t2, r)" "tinv t2" "unread t2 = unread t'"
        "r = Inr () \<Longrightarrow> written t2 = written t' @ buf" using "1.hyps"(1) inv by blast
      show ?thesis
        by (rule "1.prems"(1) [of t2 r]) (use r p Pending acc u False in \<open>auto simp: write_all.simps [of T t buf]\<close>)
    next
      case (Ready r0)
      show ?thesis
      proof (cases r0)
        case (Inl e)
        show ?thesis
          by (rule "1.prems"(1) [of t' "Inl e"]) (use p Ready Inl inv u False in \<open>auto simp: write_all.simps [of T t buf]\<close>)
      next
        case (Inr n)
        have n: "0 < n" "n \<le> length buf" "written t' = written t @ take n buf"
          using write_some [OF "1.prems"(2) False] p Ready Inr acc by auto
        then have "((length (drop n buf), patience t'), length buf, patience t) \<in> less_than <*lex*> less_than"
          using False by simp
        then obtain t2 r where r: "write_all T t' (drop n buf) = Some (t2, r)" "tinv t2" "unread t2 = unread t'"
          "r = Inr () \<Longrightarrow> written t2 = written t' @ drop n buf" using "1.hyps"(1) inv by blast
        show ?thesis
          by (rule "1.prems"(1) [of t2 r])
            (use r p Ready Inr n(3) u False in \<open>auto simp: write_all.simps [of T t buf]\<close>)
      qed
    qed
  qed
qed

end

text \<open>A transport on which no call reports an error, and what the helpers do on it.\<close>

definition never_fails :: "('t, 'z) transport_ops_scheme \<Rightarrow> ('t \<Rightarrow> bool) \<Rightarrow> bool" where
  "never_fails T tinv \<longleftrightarrow>
     (\<forall>t n t' e. tinv t \<longrightarrow> poll_read T t n \<noteq> (t', Ready (Inl e))) \<and>
     (\<forall>t bs t' e. tinv t \<longrightarrow> poll_write T t bs \<noteq> (t', Ready (Inl e)))"

context live_transport
begin

lemma rt_read_succeeds:
  assumes "never_fails T tinv" and "tinv t" and "rt_read T t n = Some (t', r)"
  shows "\<exists>bs. r = Inr bs"
  using assms(2,3)
proof (induction "patience t" arbitrary: t rule: less_induct)
  case less
  obtain t1 p where p: "poll_read T t n = (t1, p)" by (rule prod.exhaust)
  have inv: "tinv t1" using rd.read_invar [OF less.prems(1), of n] p by simp
  show ?case
  proof (cases p)
    case Pending
    then have "rt_read T t1 n = Some (t', r)" using less.prems(2) p by (simp add: rt_read.simps [of T t n])
    then show ?thesis using less.hyps [OF _ inv] read_patience [OF less.prems(1)] p Pending by blast
  next
    case (Ready r0)
    then have "r = r0" using less.prems(2) p by (simp add: rt_read.simps [of T t n])
    moreover have "r0 \<noteq> Inl e" for e using assms(1) less.prems(1) p Ready by (auto simp: never_fails_def)
    ultimately show ?thesis by (cases r0) auto
  qed
qed

lemma write_all_succeeds:
  assumes "never_fails T tinv" and "tinv t" and "write_all T t buf = Some (t', r)"
  shows "r = Inr ()"
  using assms(2,3)
proof (induction "(length buf, patience t)" arbitrary: t buf rule: wf_induct_rule [OF wf_lex_prod [OF wf_less_than wf_less_than]])
  case 1
  show ?case
  proof (cases "buf = []")
    case True
    then show ?thesis using "1.prems"(2) by (simp add: write_all.simps)
  next
    case False
    obtain t1 p where p: "poll_write T t buf = (t1, p)" by (rule prod.exhaust)
    have inv: "tinv t1" using write_inv [OF "1.prems"(1), of buf] p by simp
    show ?thesis
    proof (cases p)
      case Pending
      then have "write_all T t1 buf = Some (t', r)" using "1.prems"(2) p False by (simp add: write_all.simps [of T t buf])
      moreover have "((length buf, patience t1), length buf, patience t) \<in> less_than <*lex*> less_than"
        using write_patience [OF "1.prems"(1)] p Pending by simp
      ultimately show ?thesis using "1.hyps" inv by blast
    next
      case (Ready r0)
      have "r0 \<noteq> Inl e" for e using assms(1) "1.prems"(1) p Ready by (auto simp: never_fails_def)
      then obtain n where n: "r0 = Inr n" by (cases r0) auto
      then have "write_all T t1 (drop n buf) = Some (t', r)" using "1.prems"(2) p Ready False by (simp add: write_all.simps [of T t buf])
      moreover have "((length (drop n buf), patience t1), length buf, patience t) \<in> less_than <*lex*> less_than"
        using write_some [OF "1.prems"(1) False] p Ready n False by simp
      ultimately show ?thesis using "1.hyps" inv by blast
    qed
  qed
qed

end

text \<open>The scripted transport, when its writes take something.\<close>

lemma mock_pending:
  assumes "mock_poll_read m n = (m', Pending)"
  shows "length (script m') < length (script m)"
proof -
  have "length (dropWhile (\<lambda>a. a = Chunk []) (script m)) \<le> length (script m)" by (rule length_dropWhile_le)
  with assms show ?thesis by (auto split: list.splits mock_read.splits)
qed

lemma mock_limit: "write_limit (fst (mock_poll_read m n)) = write_limit m"
  by (auto split: list.splits mock_read.splits)

interpretation mock_live: live_transport mock_ops "\<lambda>m. script_bytes (script m)" "\<lambda>m. 0 < write_limit m" sent
  "\<lambda>m. length (script m)"
proof unfold_locales
  fix m n m'
  show "poll_read mock_ops m n = (m', Pending) \<Longrightarrow> length (script m') < length (script m)"
    using mock_pending by (simp add: mock_ops_def del: mock_poll_read.simps)
  show "0 < write_limit m \<Longrightarrow> 0 < write_limit (fst (poll_read mock_ops m n))"
    by (simp add: mock_ops_def mock_limit del: mock_poll_read.simps)
  show "sent (fst (poll_read mock_ops m n)) = sent m" using mock.read_written by simp
next
  fix m n m' bs and e :: io_error
  show "poll_read mock_ops m n = (m', Ready (Inr bs)) \<Longrightarrow>
      script_bytes (script m) = bs @ script_bytes (script m') \<and> length bs \<le> n"
    by (rule mock.rd.read_data) simp
  show "poll_read mock_ops m n = (m', Ready (Inr [])) \<Longrightarrow> 0 < n \<Longrightarrow> script_bytes (script m) = []"
    by (rule mock.rd.read_eof) simp_all
  show "poll_read mock_ops m n = (m', Pending) \<Longrightarrow> script_bytes (script m') = script_bytes (script m)"
    by (rule mock.rd.read_pending) simp_all
  show "poll_read mock_ops m n = (m', Ready (Inl e)) \<Longrightarrow> script_bytes (script m') = script_bytes (script m)"
    by (rule mock.rd.read_error) simp_all
qed (auto simp: mock_ops_def mock_write_def Let_def split: if_splits)

lemma mock_never_fails: "never_fails mock_ops ok"
  by (auto simp: never_fails_def mock_ops_def mock_write_def Let_def split: list.splits mock_read.splits)

section \<open>Writes that take nothing\<close>

lemma write_all_zero:
  assumes "write_all T t buf = Some y"
  shows "(\<forall>t bs. poll_write T t bs = (t, Ready (Inr 0))) \<longrightarrow> buf = []"
  using assms
proof (rule write_all.raw_induct [where P = "\<lambda>T t buf y. (\<forall>t bs. poll_write T t bs = (t, Ready (Inr 0))) \<longrightarrow> buf = []", rotated])
  fix f T t buf y
  assume ih: "\<And>(T :: ('t, 'z) transport_ops_scheme) t buf y. f T t buf = Some y \<Longrightarrow>
      (\<forall>t bs. poll_write T t bs = (t, Ready (Inr 0))) \<longrightarrow> buf = []"
    and body: "(if buf = [] then Some (t, Inr ())
      else case poll_write T t buf of (t', Pending) \<Rightarrow> f T t' buf | (t', Ready (Inl e)) \<Rightarrow> Some (t', Inl e)
         | (t', Ready (Inr n)) \<Rightarrow> f T t' (drop n buf)) = Some y"
  show "(\<forall>t bs. poll_write T t bs = (t, Ready (Inr 0))) \<longrightarrow> buf = []"
  proof (intro impI, rule ccontr)
    assume z: "\<forall>t bs. poll_write T t bs = (t, Ready (Inr 0))" and b: "buf \<noteq> []"
    then have "f T t buf = Some y" using body by simp
    from ih [OF this] z b show False by blast
  qed
qed

text \<open>A transport that takes no bytes and reports success makes \<^verbatim>\<open>write_all\<close> run forever: the loop has no branch for a
  write of zero bytes.\<close>

lemma write_all_zero_spins:
  assumes "\<And>t bs. poll_write T t bs = (t, Ready (Inr 0))" and "buf \<noteq> []"
  shows "write_all T t buf = None"
  using write_all_zero [of T t buf] assms by (cases "write_all T t buf") auto

text \<open>At a concrete input: a transport that never takes anything.\<close>

lemma write_all_zero_spins_instance:
  "write_all (mock_ops\<lparr>poll_write := \<lambda>m bs. (m, Ready (Inr 0))\<rparr>) \<lparr>script = [], sent = [], write_limit = 1\<rparr> ''x'' = None"
  by (rule write_all_zero_spins) simp_all

section \<open>Evaluation\<close>

lemma rt_read_code [code]:
  "rt_read T t n = (let p = poll_read T t n in case snd p of Pending \<Rightarrow> rt_read T (fst p) n | Ready r \<Rightarrow> Some (fst p, r))"
  by (subst rt_read.simps, unfold Let_def case_prod_unfold, rule refl)

lemma write_all_code [code]:
  "write_all T t buf =
     (if buf = [] then Some (t, Inr ())
      else let p = poll_write T t buf
           in case snd p of
                Pending \<Rightarrow> write_all T (fst p) buf
              | Ready (Inl e) \<Rightarrow> Some (fst p, Inl e)
              | Ready (Inr n) \<Rightarrow> write_all T (fst p) (drop n buf))"
  by (subst write_all.simps, unfold Let_def case_prod_unfold, rule refl)

end
