(* ===== verification/Tunnel.thy ===== *)
theory Tunnel
  imports Rt_Io Headers "HOL-Library.Code_Target_Nat"
begin

text \<open>
  The HTTP CONNECT tunnel, \<^verbatim>\<open>src/src/core/client/connect/proxy/tunnel.rs\<close>: the headers configured for the request, the
  request itself, and the loop that reads the proxy's answer. The header map is the parameter of \<^theory_text>\<open>Http_Lib\<close>.
\<close>

datatype 'm tunnel_headers = HeadersEmpty | HeadersAuth header_value | HeadersExtra 'm

datatype tunnel_error = ConnectFailed | TunnelIo io_error | TunnelMissingHost | ProxyAuthRequired | ProxyHeadersTooLong
  | TunnelUnexpectedEof | TunnelUnsuccessful

definition with_auth :: "('m, 'z) http_lib_scheme \<Rightarrow> header_value \<Rightarrow> 'm tunnel_headers \<Rightarrow> 'm tunnel_headers" where
  "with_auth H auth hs =
     (case hs of
        HeadersEmpty \<Rightarrow> HeadersAuth auth
      | HeadersAuth existing \<Rightarrow> HeadersAuth auth
      | HeadersExtra extra \<Rightarrow> HeadersExtra (hm_insert H ''proxy-authorization'' auth extra))"

definition with_headers :: "('m, 'z) http_lib_scheme \<Rightarrow> 'm \<Rightarrow> 'm tunnel_headers \<Rightarrow> 'm tunnel_headers" where
  "with_headers H headers hs =
     (case hs of
        HeadersEmpty \<Rightarrow> HeadersExtra headers
      | HeadersAuth auth \<Rightarrow>
          HeadersExtra (if hm_contains_key H headers ''proxy-authorization'' then headers
                        else hm_insert H ''proxy-authorization'' auth headers)
      | HeadersExtra extra \<Rightarrow> HeadersExtra (hm_extend H extra headers))"

definition tunnel_header_line :: "header_name \<times> header_value \<Rightarrow> bytes" where
  "tunnel_header_line = (\<lambda>(name, value). name @ '': '' @ value @ CRLF)"

definition tunnel_request :: "('m, 'z) http_lib_scheme \<Rightarrow> bytes \<Rightarrow> u16 \<Rightarrow> 'm tunnel_headers \<Rightarrow> bytes" where
  "tunnel_request H host port hs =
     ''CONNECT '' @ host @ '':'' @ decimal (unat port) @ '' HTTP/1.1'' @ CRLF @
     ''Host: '' @ host @ '':'' @ decimal (unat port) @ CRLF @
     (case hs of
        HeadersAuth auth \<Rightarrow> ''Proxy-Authorization: '' @ auth @ CRLF
      | HeadersExtra extra \<Rightarrow> concat (map tunnel_header_line (hm_iter H extra))
      | HeadersEmpty \<Rightarrow> []) @
     CRLF"

text \<open>The loop over the answer, with what has been received so far in the array of 8192 bytes.\<close>

partial_function (option) tunnel_read ::
  "('t, 'z) transport_ops_scheme \<Rightarrow> 't \<Rightarrow> bytes \<Rightarrow> ('t \<times> (tunnel_error + unit)) option" where
  "tunnel_read T t recvd =
     (case rt_read T t (8192 - length recvd) of
        None \<Rightarrow> None
      | Some (t', Inl e) \<Rightarrow> Some (t', Inl (TunnelIo e))
      | Some (t', Inr bs) \<Rightarrow>
          if bs = [] then Some (t', Inl TunnelUnexpectedEof)
          else if starts_with (recvd @ bs) ''HTTP/1.1 200'' \<or> starts_with (recvd @ bs) ''HTTP/1.0 200''
          then if ends_with (recvd @ bs) (CRLF @ CRLF) then Some (t', Inr ())
               else if length (recvd @ bs) = 8192 then Some (t', Inl ProxyHeadersTooLong)
               else tunnel_read T t' (recvd @ bs)
          else if starts_with (recvd @ bs) ''HTTP/1.1 407'' then Some (t', Inl ProxyAuthRequired)
          else Some (t', Inl TunnelUnsuccessful))"

definition tunnel ::
  "('m, 'z) http_lib_scheme \<Rightarrow> ('t, 'y) transport_ops_scheme \<Rightarrow> 't \<Rightarrow> bytes \<Rightarrow> u16 \<Rightarrow> 'm tunnel_headers \<Rightarrow>
   ('t \<times> (tunnel_error + unit)) option" where
  "tunnel H T t host port hs =
     (case write_all T t (tunnel_request H host port hs) of
        None \<Rightarrow> None
      | Some (t', Inl e) \<Rightarrow> Some (t', Inl (TunnelIo e))
      | Some (t', Inr _) \<Rightarrow> tunnel_read T t' [])"

text \<open>\<^verbatim>\<open>Service::call\<close> once the proxy is connected.\<close>

definition tunnel_call ::
  "('m, 'z) http_lib_scheme \<Rightarrow> ('t, 'y) transport_ops_scheme \<Rightarrow> 't \<Rightarrow> bytes option \<Rightarrow> u16 option \<Rightarrow> 'm tunnel_headers \<Rightarrow>
   ('t \<times> (tunnel_error + unit)) option" where
  "tunnel_call H T t dst_host dst_port hs =
     (case dst_host of
        None \<Rightarrow> Some (t, Inl TunnelMissingHost)
      | Some host \<Rightarrow> tunnel H T t host (case dst_port of None \<Rightarrow> 443 | Some p \<Rightarrow> p) hs)"

text \<open>A head is complete when it ends with its first empty line; and the tests the code makes of what it has read, which
  may go beyond that line.\<close>

definition complete_head :: "bytes \<Rightarrow> bool" where
  "complete_head h \<longleftrightarrow> ends_with h (CRLF @ CRLF) \<and> list_all (\<lambda>i. \<not> ends_with (take i h) (CRLF @ CRLF)) [0..<length h]"

definition grants :: "bytes \<Rightarrow> bool" where
  "grants h \<longleftrightarrow> starts_with h ''HTTP/1.1 200'' \<or> starts_with h ''HTTP/1.0 200''"

definition accepted_bytes :: "bytes \<Rightarrow> bool" where
  "accepted_bytes bs \<longleftrightarrow> length bs \<le> 8192 \<and> ends_with bs (CRLF @ CRLF) \<and> grants bs"

lemma complete_head_prefix:
  assumes "complete_head (p @ s)" and "ends_with p (CRLF @ CRLF)"
  shows "s = []"
proof (rule ccontr)
  assume "s \<noteq> []"
  then have "length p \<in> set [0..<length (p @ s)]" by simp
  then have "\<not> ends_with (take (length p) (p @ s)) (CRLF @ CRLF)"
    using assms(1) unfolding complete_head_def list_all_iff by blast
  with assms(2) show False by simp
qed

lemma starts_with_prefix:
  assumes "starts_with (p @ s) x" and "length x \<le> length p"
  shows "starts_with p x"
proof -
  from assms(1) obtain r where "p @ s = x @ r" by (auto simp: starts_with_iff)
  with assms(2) show ?thesis by (auto simp: starts_with_iff append_eq_append_conv2)
qed

lemma grants_prefix: "grants (p @ s) \<Longrightarrow> 12 \<le> length p \<Longrightarrow> grants p"
  unfolding grants_def using starts_with_prefix [of p s "''HTTP/1.1 200''"] starts_with_prefix [of p s "''HTTP/1.0 200''"] by auto

context live_transport begin

lemma tunnel_read_total:
  assumes "tinv t" and "length recvd < 8192"
  shows "\<exists>t' r. tunnel_read T t recvd = Some (t', r) \<and>
    (r = Inr () \<longrightarrow> written t' = written t \<and> (\<exists>bs. unread t = bs @ unread t' \<and> accepted_bytes (recvd @ bs)))"
  using assms
proof (induction "length (unread t)" arbitrary: t recvd rule: less_induct)
  case less
  obtain t1 r1 where rd: "rt_read T t (8192 - length recvd) = Some (t1, r1)" and ok: "read_ok (8192 - length recvd) t t1 r1"
    using rt_read_total [OF less.prems(1), of "8192 - length recvd"] less.prems(2) by auto
  note eq = tunnel_read.simps [of T t recvd] rd
  show ?case
  proof (cases r1)
    case (Inl e)
    then show ?thesis using eq by auto
  next
    case (Inr bs)
    have u: "tinv t1" "written t1 = written t" "unread t = bs @ unread t1" "length bs \<le> 8192 - length recvd"
      using ok Inr by (simp_all add: read_ok_def)
    let ?r = "recvd @ bs"
    let ?ok = "starts_with ?r ''HTTP/1.1 200'' \<or> starts_with ?r ''HTTP/1.0 200''"
    consider "bs = [] \<or> \<not> ?ok" | "bs \<noteq> []" "?ok" "ends_with ?r (CRLF @ CRLF)" | "length ?r = 8192" "bs \<noteq> []" "?ok" "\<not> ends_with ?r (CRLF @ CRLF)"
      | (again) "bs \<noteq> []" "?ok" "\<not> ends_with ?r (CRLF @ CRLF)" "length ?r \<noteq> 8192" by blast
    then show ?thesis
    proof cases
      case 1
      then show ?thesis using eq Inr by auto
    next
      case 2
      then have "accepted_bytes ?r" using u(4) less.prems(2) by (simp add: accepted_bytes_def grants_def)
      moreover have "tunnel_read T t recvd = Some (t1, Inr ())" using eq Inr 2 by simp
      ultimately show ?thesis using u(2,3) by blast
    next
      case 3
      then show ?thesis using eq Inr by simp
    next
      case again
      have "length (unread t1) < length (unread t)" using again(1) u(3) by simp
      moreover have "length ?r < 8192" using again(4) u(4) less.prems(2) by simp
      ultimately obtain t' r where r: "tunnel_read T t1 ?r = Some (t', r)"
        "r = Inr () \<longrightarrow> written t' = written t1 \<and> (\<exists>cs. unread t1 = cs @ unread t' \<and> accepted_bytes (?r @ cs))"
        using less.hyps [OF _ u(1)] by blast
      have "tunnel_read T t recvd = Some (t', r)" using eq Inr again r(1) by simp
      then show ?thesis using r(2) u(2,3) by (intro exI [of _ t'] exI [of _ r]) auto
    qed
  qed
qed

text \<open>A granting head that the proxy sends, and nothing after it, is read to its end once its first twelve bytes are there.\<close>

lemma tunnel_read_opens:
  assumes "never_fails T tinv" and "tinv t" and "complete_head (recvd @ unread t)" and "grants (recvd @ unread t)"
    and "length (recvd @ unread t) \<le> 8192" and "unread t \<noteq> []"
    and "12 \<le> length recvd \<or> (\<forall>t' bs. rt_read T t (8192 - length recvd) = Some (t', Inr bs) \<longrightarrow> 12 \<le> length (recvd @ bs))"
  shows "\<exists>t'. tunnel_read T t recvd = Some (t', Inr ())"
  using assms(2-)
proof (induction "length (unread t)" arbitrary: t recvd rule: less_induct)
  case less
  have room: "0 < 8192 - length recvd" using less.prems(4,5) by (cases "unread t") auto
  obtain t1 r1 where rd: "rt_read T t (8192 - length recvd) = Some (t1, r1)" and ok: "read_ok (8192 - length recvd) t t1 r1"
    using rt_read_total [OF less.prems(1) room] by blast
  obtain bs where bs: "r1 = Inr bs" using rt_read_succeeds [OF assms(1) less.prems(1) rd] by blast
  have u: "tinv t1" "unread t = bs @ unread t1" "bs \<noteq> []" using ok bs less.prems(5) by (auto simp: read_ok_def)
  let ?r = "recvd @ bs"
  have h: "recvd @ unread t = ?r @ unread t1" using u(2) by simp
  have len: "12 \<le> length ?r" using less.prems(6) rd bs by auto
  have g: "grants ?r" using grants_prefix [OF less.prems(3) [unfolded h] len] .
  note eq = tunnel_read.simps [of T t recvd]
  show ?case
  proof (cases "unread t1 = []")
    case True
    then have "ends_with ?r (CRLF @ CRLF)" using less.prems(2) h by (simp add: complete_head_def)
    then show ?thesis using eq rd bs u(3) g by (auto simp: grants_def)
  next
    case False
    then have "\<not> ends_with ?r (CRLF @ CRLF)" using complete_head_prefix less.prems(2) h by metis
    moreover have "length ?r \<noteq> 8192" using less.prems(4) h False by (cases "unread t1") auto
    ultimately have step: "tunnel_read T t recvd = tunnel_read T t1 ?r" using eq rd bs u(3) g by (auto simp: grants_def)
    have "length (unread t1) < length (unread t)" using u(2,3) by simp
    from less.hyps [OF this u(1)] less.prems(2-4) h False len show ?thesis unfolding step by simp
  qed
qed

end

section \<open>Properties\<close>

text \<open>C32. Opening a tunnel returns, over every transport that makes progress and whatever the proxy sends. When it succeeds, exactly
  the CONNECT request was sent, and the bytes taken from the connection, at most 8192, start with a status line of
  200 and end with an empty line; if the proxy sends one head and nothing more until the tunnel is open, they are exactly that
  head. Conversely, when no call on the transport fails, the proxy sends such a head of at most 8192 bytes and the first
  read brings at least twelve bytes of it, the tunnel is opened, in whatever pieces the rest comes.\<close>

theorem tunnel_opens:
  assumes "live_transport T unread tinv written patience" and "tinv t"
  shows "\<exists>t' r. tunnel H T t host port hs = Some (t', r) \<and>
    (r = Inr () \<longrightarrow> written t' = written t @ tunnel_request H host port hs \<and>
       (\<exists>bs. unread t = bs @ unread t' \<and> accepted_bytes bs) \<and> (complete_head (unread t) \<longrightarrow> unread t' = [])) \<and>
    (never_fails T tinv \<and> complete_head (unread t) \<and> grants (unread t) \<and> length (unread t) \<le> 8192 \<and>
      (\<forall>t1 t2 bs. write_all T t (tunnel_request H host port hs) = Some (t1, Inr ()) \<and> rt_read T t1 8192 = Some (t2, Inr bs) \<longrightarrow>
         12 \<le> length bs) \<longrightarrow> r = Inr ())"
proof -
  obtain t1 r1 where wr: "write_all T t (tunnel_request H host port hs) = Some (t1, r1)" "tinv t1" "unread t1 = unread t"
    "r1 = Inr () \<Longrightarrow> written t1 = written t @ tunnel_request H host port hs"
    using live_transport.write_all_total [OF assms] by metis
  show ?thesis
  proof (cases r1)
    case (Inl e)
    then have "\<not> never_fails T tinv" using live_transport.write_all_succeeds [OF assms(1) _ assms(2) wr(1)] by auto
    then show ?thesis using wr Inl by (auto simp: tunnel_def)
  next
    case (Inr x)
    from live_transport.tunnel_read_total [OF assms(1) wr(2), of "[]"] obtain t' r where
      r: "tunnel_read T t1 [] = Some (t', r)"
      "r = Inr () \<Longrightarrow> written t' = written t1 \<and> (\<exists>bs. unread t1 = bs @ unread t' \<and> accepted_bytes bs)" by auto
    have "unread t' = []" if "complete_head (unread t)" "r = Inr ()"
      using r(2) [OF that(2)] that(1) wr(3) complete_head_prefix by (auto simp: accepted_bytes_def)
    moreover have "r = Inr ()" if "never_fails T tinv" "complete_head (unread t)" "grants (unread t)" "length (unread t) \<le> 8192"
      "\<forall>t2 bs. rt_read T t1 8192 = Some (t2, Inr bs) \<longrightarrow> 12 \<le> length bs"
    proof -
      have "unread t1 \<noteq> []" using that(2) wr(3) by (auto simp: complete_head_def ends_with_def)
      from live_transport.tunnel_read_opens [OF assms(1) that(1) wr(2), of "[]"] that wr(3) this r(1) show ?thesis by auto
    qed
    moreover have "tunnel H T t host port hs = Some (t', r)" using wr(1) Inr r(1) by (simp add: tunnel_def)
    ultimately show ?thesis using r(2) wr Inr by auto
  qed
qed

lemma tunnel_read_code [code]:
  "tunnel_read T t recvd =
     (case rt_read T t (8192 - length recvd) of
        None \<Rightarrow> None
      | Some p \<Rightarrow>
          (case snd p of
             Inl e \<Rightarrow> Some (fst p, Inl (TunnelIo e))
           | Inr bs \<Rightarrow>
               if bs = [] then Some (fst p, Inl TunnelUnexpectedEof)
               else if starts_with (recvd @ bs) ''HTTP/1.1 200'' \<or> starts_with (recvd @ bs) ''HTTP/1.0 200''
               then if ends_with (recvd @ bs) (CRLF @ CRLF) then Some (fst p, Inr ())
                    else if length (recvd @ bs) = 8192 then Some (fst p, Inl ProxyHeadersTooLong)
                    else tunnel_read T (fst p) (recvd @ bs)
               else if starts_with (recvd @ bs) ''HTTP/1.1 407'' then Some (fst p, Inl ProxyAuthRequired)
               else Some (fst p, Inl TunnelUnsuccessful)))"
  by (subst tunnel_read.simps, unfold Let_def case_prod_unfold, rule refl)

definition demo_tunnel :: mock where
  "demo_tunnel = \<lparr>script = [Chunk ''HTTP/1.1 200 OK'', Wait, Chunk (CRLF @ CRLF)], sent = [], write_limit = 7\<rparr>"

lemma demo_tunnel_first:
  "case write_all mock_ops demo_tunnel (tunnel_request assoc_http ''example.com'' 443 (HeadersAuth ''Basic eA=='')) of
     Some (t1, Inr _) \<Rightarrow> (case rt_read mock_ops t1 8192 of Some (_, Inr bs) \<Rightarrow> 12 \<le> length bs | _ \<Rightarrow> False) | _ \<Rightarrow> False"
  by code_simp

text \<open>Witness of C32: a proxy whose answer comes in two blocks.\<close>

theorem tunnel_opens_witness:
  "\<exists>t'. tunnel assoc_http mock_ops demo_tunnel ''example.com'' 443 (HeadersAuth ''Basic eA=='') = Some (t', Inr ()) \<and>
     sent t' = tunnel_request assoc_http ''example.com'' 443 (HeadersAuth ''Basic eA=='') \<and> script_bytes (script t') = []"
proof -
  have c: "complete_head (script_bytes (script demo_tunnel)) \<and> grants (script_bytes (script demo_tunnel)) \<and>
      length (script_bytes (script demo_tunnel)) \<le> 8192" by code_simp
  have s: "sent demo_tunnel = []" "0 < write_limit demo_tunnel" by (simp_all add: demo_tunnel_def)
  have f: "12 \<le> length bs" if "write_all mock_ops demo_tunnel (tunnel_request assoc_http ''example.com'' 443 (HeadersAuth ''Basic eA=='')) = Some (t1, Inr ())"
    "rt_read mock_ops t1 8192 = Some (t2, Inr bs)" for t1 t2 bs
    using demo_tunnel_first that by simp
  from tunnel_opens [OF mock_live.live_transport_axioms s(2), of assoc_http "''example.com''" 443 "HeadersAuth ''Basic eA==''"] c f s(1)
  show ?thesis by (auto simp: mock_never_fails)
qed

text \<open>A proxy that sends bytes of the tunnel right after its head, in the same block and ending with an empty line: they are
  taken for a part of the head and are lost.\<close>

lemma tunnel_swallows_data:
  "case tunnel assoc_http mock_ops
       \<lparr>script = [Chunk (''HTTP/1.1 200 OK'' @ CRLF @ CRLF @ ''220 ready'' @ CRLF @ CRLF)], sent = [], write_limit = 7\<rparr>
       ''example.com'' 443 HeadersEmpty of
     Some (t, Inr _) \<Rightarrow> script_bytes (script t) = [] | _ \<Rightarrow> False"
  by code_simp

text \<open>The answer is judged after the first read, however short: a proxy whose first block has fewer than twelve bytes is
  reported as having refused the tunnel, even when the whole answer would grant it.\<close>

lemma tunnel_short_first_read:
  assumes "bs \<noteq> []" and "length bs < 12"
  shows "\<exists>m'. tunnel_read mock_ops \<lparr>script = Chunk bs # rest, sent = w, write_limit = l\<rparr> [] = Some (m', Inl TunnelUnsuccessful)"
proof -
  let ?m = "\<lparr>script = Chunk bs # rest, sent = w, write_limit = l\<rparr>"
  have "poll_read mock_ops ?m 8192 = (?m\<lparr>script := Chunk [] # rest\<rparr>, Ready (Inr bs))"
    using assms by (simp add: mock_ops_def)
  then have "rt_read mock_ops ?m 8192 = Some (?m\<lparr>script := Chunk [] # rest\<rparr>, Inr bs)" by (simp add: rt_read.simps)
  moreover have "\<not> starts_with bs p" if "length p = 12" for p using assms(2) that by (auto simp: starts_with_iff)
  ultimately show ?thesis using assms(1) by (simp add: tunnel_read.simps [of mock_ops ?m])
qed

text \<open>At a concrete input: the status line cut after the version.\<close>

lemma tunnel_short_first_read_instance:
  "\<exists>m'. tunnel_read mock_ops \<lparr>script = Chunk ''HTTP/1.1'' # [Chunk ('' 200 OK'' @ CRLF @ CRLF)], sent = [], write_limit = 1\<rparr> [] =
     Some (m', Inl TunnelUnsuccessful)"
  by (rule tunnel_short_first_read) simp_all

end
