(* ===== verification/Tls_Conn.thy ===== *)
theory Tls_Conn
  imports Tls_Session Tcp_Connect Tunnel
begin

text \<open>
  TLS connections (\<^verbatim>\<open>src/src/tls/conn\<close>): the options given to BoringSSL, the settings of a handshake, and the connector that makes
  a TCP connection and a handshake on it where the destination asks for one. BoringSSL is a parameter (\<open>ssl_lib\<close>): which calls
  fail, and what comes of a handshake.
\<close>

section \<open>Futures that may fail\<close>

definition tbind :: "('e + 'a) timed \<Rightarrow> ('a \<Rightarrow> ('e + 'b) timed) \<Rightarrow> ('e + 'b) timed" where
  "tbind f g t =
     (case f t of
        None \<Rightarrow> None
      | Some (t', Inl e) \<Rightarrow> Some (t', Inl e)
      | Some (t', Inr x) \<Rightarrow> g x t')"

definition map_err :: "('e \<Rightarrow> 'f) \<Rightarrow> ('e + 'a) timed \<Rightarrow> ('f + 'a) timed" where
  "map_err h f t = map_option (\<lambda>(t', r). (t', map_sum h id r)) (f t)"

definition at_once :: "'e + 'a \<Rightarrow> ('e + 'a) timed" where
  "at_once r t = Some (t, r)"

lemma tbind_Inr: "tbind f g t = Some (t', Inr y) \<longleftrightarrow> (\<exists>t1 x. f t = Some (t1, Inr x) \<and> g x t1 = Some (t', Inr y))"
  by (auto simp: tbind_def split: option.splits sum.splits)

lemma map_sum_Inr_iff: "map_sum h id r = Inr y \<longleftrightarrow> r = Inr y"
  by (cases r) auto

lemma map_err_Inr: "map_err h f t = Some (t', Inr y) \<longleftrightarrow> f t = Some (t', Inr y)"
  by (cases "f t") (auto simp: map_err_def map_sum_Inr_iff)

lemma at_once_Inr: "at_once r t = Some (t', Inr y) \<longleftrightarrow> r = Inr y \<and> t' = t"
  by (auto simp: at_once_def)

lemmas timed_Inr = tbind_Inr map_err_Inr at_once_Inr

section \<open>Configuration\<close>

text \<open>Certificate stores, identities and the key log are opaque.\<close>

record TlsConfig =
  tl_alpn_protos :: AlpnProtos
  tl_alps_protos :: "bytes option"
  tl_alps_use_new_codepoint :: bool
  tl_session_ticket :: bool
  tl_min_tls_version :: "SslVersion option"
  tl_max_tls_version :: "SslVersion option"
  tl_pre_shared_key :: bool
  tl_enable_ech_grease :: bool
  tl_permute_extensions :: "bool option"
  tl_grease_enabled :: "bool option"
  tl_enable_ocsp_stapling :: bool
  tl_enable_signed_cert_timestamps :: bool
  tl_record_size_limit :: "u16 option"
  tl_psk_skip_session_ticket :: bool
  tl_key_shares_limit :: "8 word option"
  tl_psk_dhe_ke :: bool
  tl_renegotiation :: bool
  tl_delegated_credentials :: "string option"
  tl_curves_list :: "string option"
  tl_cipher_list :: "string option"
  tl_sigalgs_list :: "string option"
  tl_cert_compression_algorithm :: "nat list option"
  tl_extension_permutation :: "nat list option"
  tl_aes_hw_override :: "bool option"
  tl_random_aes_hw_override :: bool

definition default_tls_config :: TlsConfig where
  "default_tls_config =
     \<lparr>tl_alpn_protos = AlpnALL, tl_alps_protos = None, tl_alps_use_new_codepoint = False, tl_session_ticket = True,
      tl_min_tls_version = None, tl_max_tls_version = None, tl_pre_shared_key = False, tl_enable_ech_grease = False,
      tl_permute_extensions = None, tl_grease_enabled = None, tl_enable_ocsp_stapling = False,
      tl_enable_signed_cert_timestamps = False, tl_record_size_limit = None, tl_psk_skip_session_ticket = False,
      tl_key_shares_limit = None, tl_psk_dhe_ke = True, tl_renegotiation = True, tl_delegated_credentials = None,
      tl_curves_list = None, tl_cipher_list = None, tl_sigalgs_list = None, tl_cert_compression_algorithm = None,
      tl_extension_permutation = None, tl_aes_hw_override = None, tl_random_aes_hw_override = False\<rparr>"

datatype 'o ssl_option =
    DefaultVerifyPaths
  | AddStore 'o
  | VerifyPeer bool
  | AddIdentity 'o
  | ContextAlpn bytes
  | MinProtoVersion "SslVersion option"
  | MaxProtoVersion "SslVersion option"
  | OcspStapling
  | SignedCertTimestamps
  | OptNoTicket
  | OptNoPskDheKe
  | OptNoRenegotiation
  | GreaseEnabled bool
  | PermuteExtensions bool
  | CurvesList string
  | SigalgsList string
  | DelegatedCredentials string
  | CipherList string
  | CertCompression nat
  | RecordSizeLimit u16
  | KeySharesLimit "8 word"
  | ExtensionPermutation "nat list"
  | AesHwOverride bool
  | KeylogCallback 'o
  | ClientSessionCache

text \<open>What is set on one connection before its handshake.\<close>

datatype conf_option =
    UseSni bool
  | VerifyHostname bool
  | EchGrease bool
  | ConfAesHwOverride bool
  | ApplicationSettings bytes
  | AlpsNewCodepoint
  | OfferSession SslSession
  | ConfNoTicket
  | CacheKey SessionKey

record handshake =
  hs_options :: "conf_option list"
  hs_host :: string
  hs_alpn :: "bytes option"

text \<open>What is known after a handshake: the protocol selected, and the certificate of the peer.\<close>

record tls_peer =
  tp_alpn :: "bytes option"
  tp_certificate :: "bytes option"

record ('o, 'b) ssl_lib =
  sl_option :: "'o ssl_option \<Rightarrow> string option"
  sl_conf :: "conf_option \<Rightarrow> string option"
  sl_into_ssl :: "string \<Rightarrow> string option"
  sl_alpn :: "bytes \<Rightarrow> string option"
  sl_handshake :: "'o ssl_option list \<Rightarrow> handshake \<Rightarrow> 'b \<Rightarrow> (string + tls_peer) timed"

definition ssl_set :: "('o, 'b) ssl_lib \<Rightarrow> 'o ssl_option \<Rightarrow> string + 'o ssl_option list \<Rightarrow> string + 'o ssl_option list" where
  "ssl_set S op r =
     (case r of Inl e \<Rightarrow> Inl e | Inr ops \<Rightarrow> (case sl_option S op of Some e \<Rightarrow> Inl e | None \<Rightarrow> Inr (ops @ [op])))"

definition ssl_set_if :: "('o, 'b) ssl_lib \<Rightarrow> bool \<Rightarrow> 'o ssl_option \<Rightarrow> string + 'o ssl_option list \<Rightarrow> string + 'o ssl_option list" where
  "ssl_set_if S b op r = (if b then ssl_set S op r else r)"

definition ssl_set_some ::
  "('o, 'b) ssl_lib \<Rightarrow> 'a option \<Rightarrow> ('a \<Rightarrow> 'o ssl_option) \<Rightarrow> string + 'o ssl_option list \<Rightarrow> string + 'o ssl_option list" where
  "ssl_set_some S x op r = if_some x (\<lambda>a. ssl_set S (op a)) r"

record HandshakeSettings =
  st_session_cache_capacity :: nat
  st_session_cache :: bool
  st_skip_session_ticket :: bool
  st_enable_ech_grease :: bool
  st_verify_hostname :: bool
  st_tls_sni :: bool
  st_alps_protos :: "bytes option"
  st_alps_use_new_codepoint :: bool
  st_random_aes_hw_override :: bool

definition default_settings :: HandshakeSettings where
  "default_settings =
     \<lparr>st_session_cache_capacity = 8, st_session_cache = False, st_skip_session_ticket = False, st_enable_ech_grease = False,
      st_verify_hostname = True, st_tls_sni = True, st_alps_protos = None, st_alps_use_new_codepoint = False,
      st_random_aes_hw_override = False\<rparr>"

text \<open>A \<^verbatim>\<open>TlsConnector\<close>: the options of its context, the settings its callback applies, and the protocols its second callback sets,
  if there is one. The cache itself is shared and found through the world.\<close>

record 'o TlsConnector =
  ti_ssl :: "'o ssl_option list"
  ti_cache :: "nat option"
  ti_settings :: HandshakeSettings
  ti_ssl_callback :: "AlpnProtos option option"
  ti_skip_session_ticket :: bool

definition with_connector_and_settings ::
  "'o ssl_option list \<Rightarrow> HandshakeSettings \<Rightarrow> 'o TlsConnector" where
  "with_connector_and_settings ssl settings =
     \<lparr>ti_ssl = (if st_session_cache settings then ssl @ [ClientSessionCache] else ssl),
      ti_cache = (if st_session_cache settings then Some (st_session_cache_capacity settings) else None),
      ti_settings = settings, ti_ssl_callback = None, ti_skip_session_ticket = st_skip_session_ticket settings\<rparr>"

record 'o TlsConnectorBuilder =
  tb_config :: TlsConfig
  tb_keylog :: "'o option"
  tb_identity :: "'o option"
  tb_cert_store :: "'o option"
  tb_cert_verification :: bool
  tb_tls_sni :: bool
  tb_verify_hostname :: bool

definition tls_builder :: "TlsConfig \<Rightarrow> 'o TlsConnectorBuilder" where
  "tls_builder config =
     \<lparr>tb_config = config, tb_keylog = None, tb_identity = None, tb_cert_store = None, tb_cert_verification = True,
      tb_tls_sni = True, tb_verify_hostname = True\<rparr>"

definition ssl_compression ::
  "('o, 'b) ssl_lib \<Rightarrow> nat list option \<Rightarrow> string + 'o ssl_option list \<Rightarrow> string + 'o ssl_option list" where
  "ssl_compression S algs r = (case algs of Some as \<Rightarrow> fold (\<lambda>a. ssl_set S (CertCompression a)) as r | None \<Rightarrow> r)"

definition tls_options :: "('o, 'b) ssl_lib \<Rightarrow> 'o TlsConnectorBuilder \<Rightarrow> string + 'o ssl_option list" where
  "tls_options S b =
     (let config = tb_config b;
          r = Inr [];
          r = ssl_set S (case tb_cert_store b of Some store \<Rightarrow> AddStore store | None \<Rightarrow> DefaultVerifyPaths) r;
          r = ssl_set S (VerifyPeer (tb_cert_verification b)) r;
          r = ssl_set_some S (tb_identity b) AddIdentity r;
          r = ssl_set S (ContextAlpn (case tl_alpn_protos config of AlpnProtos p \<Rightarrow> p)) r;
          r = ssl_set S (MinProtoVersion (tl_min_tls_version config)) r;
          r = ssl_set S (MaxProtoVersion (tl_max_tls_version config)) r;
          r = ssl_set_if S (tl_enable_ocsp_stapling config) OcspStapling r;
          r = ssl_set_if S (tl_enable_signed_cert_timestamps config) SignedCertTimestamps r;
          r = ssl_set_if S (\<not> tl_session_ticket config) OptNoTicket r;
          r = ssl_set_if S (\<not> tl_psk_dhe_ke config) OptNoPskDheKe r;
          r = ssl_set_if S (\<not> tl_renegotiation config) OptNoRenegotiation r;
          r = ssl_set_some S (tl_grease_enabled config) GreaseEnabled r;
          r = ssl_set_some S (tl_permute_extensions config) PermuteExtensions r;
          r = ssl_set_some S (tl_curves_list config) CurvesList r;
          r = ssl_set_some S (tl_sigalgs_list config) SigalgsList r;
          r = ssl_set_some S (tl_delegated_credentials config) DelegatedCredentials r;
          r = ssl_set_some S (tl_cipher_list config) CipherList r;
          r = ssl_compression S (tl_cert_compression_algorithm config) r;
          r = ssl_set_some S (tl_record_size_limit config) RecordSizeLimit r;
          r = ssl_set_some S (tl_key_shares_limit config) KeySharesLimit r;
          r = ssl_set_some S (tl_extension_permutation config) ExtensionPermutation r;
          r = ssl_set_some S (tl_aes_hw_override config) AesHwOverride r
      in ssl_set_some S (tb_keylog b) KeylogCallback r)"

definition tls_settings :: "'o TlsConnectorBuilder \<Rightarrow> HandshakeSettings" where
  "tls_settings b =
     (let config = tb_config b
      in default_settings\<lparr>st_session_cache_capacity := 8, st_session_cache := tl_pre_shared_key config,
           st_skip_session_ticket := tl_psk_skip_session_ticket config, st_alps_protos := tl_alps_protos config,
           st_alps_use_new_codepoint := tl_alps_use_new_codepoint config, st_enable_ech_grease := tl_enable_ech_grease config,
           st_tls_sni := tb_tls_sni b, st_verify_hostname := tb_verify_hostname b,
           st_random_aes_hw_override := tl_random_aes_hw_override config\<rparr>)"

definition tls_build :: "('o, 'b) ssl_lib \<Rightarrow> 'o TlsConnectorBuilder \<Rightarrow> string + 'o TlsConnector" where
  "tls_build S b =
     (case tls_options S b of
        Inl e \<Rightarrow> Inl e
      | Inr ops \<Rightarrow> Inr (with_connector_and_settings ops (tls_settings b)))"

section \<open>A handshake\<close>

definition conf_set :: "('o, 'b) ssl_lib \<Rightarrow> conf_option \<Rightarrow> string + conf_option list \<Rightarrow> string + conf_option list" where
  "conf_set S op r =
     (case r of Inl e \<Rightarrow> Inl e | Inr ops \<Rightarrow> (case sl_conf S op of Some e \<Rightarrow> Inl e | None \<Rightarrow> Inr (ops @ [op])))"

text \<open>The callback of the settings; \<open>rnd\<close> is the random number of \<^verbatim>\<open>set_random_aes_hw_override\<close>.\<close>

definition settings_callback ::
  "('o, 'b) ssl_lib \<Rightarrow> nat \<Rightarrow> HandshakeSettings \<Rightarrow> string + conf_option list \<Rightarrow> string + conf_option list" where
  "settings_callback S rnd st r =
     (let r = conf_set S (UseSni (st_tls_sni st)) r;
          r = conf_set S (VerifyHostname (st_verify_hostname st)) r;
          r = conf_set S (EchGrease (st_enable_ech_grease st)) r;
          r = (if st_random_aes_hw_override st then conf_set S (ConfAesHwOverride (rnd mod 2 = 0)) r else r)
      in case st_alps_protos st of
           Some alps \<Rightarrow>
             (let r = conf_set S (ApplicationSettings alps) r
              in if st_alps_use_new_codepoint st then conf_set S AlpsNewCodepoint r else r)
         | None \<Rightarrow> r)"

definition take_session ::
  "('l, 'z) linked_set_scheme \<Rightarrow> 'o TlsConnector \<Rightarrow> SessionKey \<Rightarrow> 'l SessionCache \<Rightarrow> 'l SessionCache \<times> SslSession option" where
  "take_session L ti key c = (if ti_cache ti = None then (c, None) else cache_get L key c)"

definition session_conf ::
  "('o, 'b) ssl_lib \<Rightarrow> 'o TlsConnector \<Rightarrow> SessionKey \<Rightarrow> SslSession option \<Rightarrow> conf_option list \<Rightarrow> string + conf_option list" where
  "session_conf S ti key session ops =
     conf_set S (CacheKey key)
       (case session of
          Some s \<Rightarrow>
            (let r = conf_set S (OfferSession s) (Inr ops)
             in if ti_skip_session_ticket ti then conf_set S ConfNoTicket r else r)
        | None \<Rightarrow> Inr ops)"

definition into_ssl :: "('o, 'b) ssl_lib \<Rightarrow> 'o TlsConnector \<Rightarrow> string \<Rightarrow> conf_option list \<Rightarrow> string + handshake" where
  "into_ssl S ti host ops =
     (case sl_into_ssl S host of
        Some e \<Rightarrow> Inl e
      | None \<Rightarrow>
          (case ti_ssl_callback ti of
             Some (Some (AlpnProtos p)) \<Rightarrow>
               (case sl_alpn S p of
                  Some e \<Rightarrow> Inl e
                | None \<Rightarrow> Inr \<lparr>hs_options = ops, hs_host = host, hs_alpn = Some p\<rparr>)
           | _ \<Rightarrow> Inr \<lparr>hs_options = ops, hs_host = host, hs_alpn = None\<rparr>))"

text \<open>\<^verbatim>\<open>Inner::connect\<close> up to the handshake, with the cache it leaves.\<close>

definition tls_setup ::
  "('o, 'b) ssl_lib \<Rightarrow> ('l, 'z) linked_set_scheme \<Rightarrow> nat \<Rightarrow> 'o TlsConnector \<Rightarrow> string option \<Rightarrow> string \<Rightarrow> 'l SessionCache \<Rightarrow>
   'l SessionCache \<times> (string + handshake)" where
  "tls_setup S L rnd ti authority host c =
     (case settings_callback S rnd (ti_settings ti) (Inr []) of
        Inl e \<Rightarrow> (c, Inl e)
      | Inr ops \<Rightarrow>
          (let (c, conf) =
             (case authority of
                None \<Rightarrow> (c, Inr ops)
              | Some key \<Rightarrow> (case take_session L ti key c of (c, session) \<Rightarrow> (c, session_conf S ti key session ops)))
           in (c, case conf of Inl e \<Rightarrow> Inl e | Inr ops \<Rightarrow> into_ssl S ti host ops)))"

section \<open>Connecting\<close>

text \<open>A stream is a socket, with the state of its transport, perhaps under TLS.\<close>

datatype 't MaybeHttpsStream =
    HttpStream TcpStream 't
  | HttpsStream handshake tls_peer TcpStream 't

datatype 'd box_error =
    BoxTcp "'d ConnectError"
  | BoxSsl string
  | UriMissingHost
  | UriBadHost
  | NoHostInUrl
  | BoxDns 'd
  | BoxTunnel tunnel_error
  | BoxSocks string
  | BoxUri
  | BoxIo io_error
  | BoxTimedOut
  | BoxPanic string

text \<open>What the code meets outside: the operating system, the resolver, BoringSSL, the session cache as it is at each time, random
  numbers.\<close>

record ('o, 't, 'd, 'l) tls_net =
  nt_os :: tcp_os
  nt_resolver :: "'d resolver"
  nt_open :: "TcpStream \<Rightarrow> 't"
  nt_ssl :: "('o, 't MaybeHttpsStream) ssl_lib"
  nt_set :: "'l linked_set"
  nt_cache :: "nat \<Rightarrow> 'l SessionCache"
  nt_random :: "nat \<Rightarrow> nat"

definition tls_connect ::
  "('o, 't, 'd, 'l, 'z) tls_net_scheme \<Rightarrow> 'o TlsConnector \<Rightarrow> string option \<Rightarrow> string \<Rightarrow> 't MaybeHttpsStream \<Rightarrow>
   ('d box_error + handshake \<times> tls_peer) timed" where
  "tls_connect N ti authority host conn t =
     map_err BoxSsl
       (tbind (at_once (snd (tls_setup (nt_ssl N) (nt_set N) (nt_random N t) ti authority host (nt_cache N t))))
          (\<lambda>hs. tbind (sl_handshake (nt_ssl N) (ti_ssl ti) hs conn) (\<lambda>peer. at_once (Inr (hs, peer))))) t"

record 'o HttpsConnector =
  hc_http :: tcp_config
  hc_inner :: "'o TlsConnector"

definition take_addresses :: "'m NetworkScheme \<Rightarrow> (32 word option \<times> 128 word option) \<times> 'm NetworkScheme" where
  "take_addresses n =
     (case n of Scheme i a p \<Rightarrow> (a, Scheme i (None, None) p) | DefaultScheme \<Rightarrow> ((None, None), DefaultScheme))"

definition take_interface :: "'m NetworkScheme \<Rightarrow> string option \<times> 'm NetworkScheme" where
  "take_interface n = (case n of Scheme i a p \<Rightarrow> (i, Scheme None a p) | DefaultScheme \<Rightarrow> (None, DefaultScheme))"

definition https_new ::
  "tcp_config \<Rightarrow> 'o TlsConnector \<Rightarrow> ('u, 'm) PoolKey \<Rightarrow> 'o HttpsConnector \<times> ('u, 'm) PoolKey" where
  "https_new http connector dst =
     (let alpn_protos = pk_alpn dst;
          (addresses, network) = take_addresses (pk_network dst);
          http = (case addresses of
                    (Some a, Some b) \<Rightarrow> set_local_addresses a b http
                  | (Some a, None) \<Rightarrow> set_local_address (Some (V4 a)) http
                  | (None, Some b) \<Rightarrow> set_local_address (Some (V6 b)) http
                  | (None, None) \<Rightarrow> http);
          (interface, network) = take_interface network;
          http = set_interface interface http
      in (\<lparr>hc_http = http, hc_inner = connector\<lparr>ti_ssl_callback := Some alpn_protos\<rparr>\<rparr>, dst\<lparr>pk_network := network\<rparr>))"

text \<open>The name for the handshake: an IPv6 address without its brackets.\<close>

definition tls_host :: "string \<Rightarrow> string" where
  "tls_host host =
     (if 1 < length host \<and> hd host = CHR ''['' \<and> last host = CHR '']'' \<and>
         (\<exists>a\<in>set_option (parse_ip (butlast (tl host))). is_ipv6 (a, 0))
      then butlast (tl host) else host)"

definition https_call ::
  "('o, 't, 'd, 'l, 'z) tls_net_scheme \<Rightarrow> 'u uri_lib \<Rightarrow> 'o HttpsConnector \<Rightarrow> 'u \<Rightarrow> ('d box_error + 't MaybeHttpsStream) timed" where
  "https_call N U c uri =
     (let connect = map_err BoxTcp (http_call U (nt_os N) (nt_resolver N) (hc_http c) uri)
      in if up_scheme (uri_parts_of U uri) \<noteq> Some ''https''
         then tbind connect (\<lambda>sock. at_once (Inr (HttpStream sock (nt_open N sock))))
         else tbind connect (\<lambda>sock.
                case uri_host U uri of
                  None \<Rightarrow> at_once (Inl UriMissingHost)
                | Some host \<Rightarrow>
                    tbind (tls_connect N (hc_inner c) (up_authority (uri_parts_of U uri)) (tls_host host) (HttpStream sock (nt_open N sock)))
                      (\<lambda>(hs, peer). at_once (Inr (HttpsStream hs peer sock (nt_open N sock))))))"

section \<open>What is verified\<close>

definition ssl_has :: "'a set \<Rightarrow> 'a set \<Rightarrow> 'e + 'a list \<Rightarrow> bool" where
  "ssl_has yes no r \<longleftrightarrow> (\<forall>ops. r = Inr ops \<longrightarrow> yes \<subseteq> set ops \<and> set ops \<inter> no = {})"

lemma ssl_has_set: "ssl_has yes no r \<Longrightarrow> op \<notin> no \<Longrightarrow> ssl_has (insert op yes) no (ssl_set S op r)"
  by (auto simp: ssl_has_def ssl_set_def split: sum.splits option.splits)

lemma ssl_has_mono: "ssl_has yes no r \<Longrightarrow> yes' \<subseteq> yes \<Longrightarrow> ssl_has yes' no r"
  by (auto simp: ssl_has_def)

lemma ssl_has_keep: "ssl_has yes no r \<Longrightarrow> op \<notin> no \<Longrightarrow> ssl_has yes no (ssl_set S op r)"
  by (rule ssl_has_mono [OF ssl_has_set]) auto

lemma ssl_has_if: "ssl_has yes no r \<Longrightarrow> op \<notin> no \<Longrightarrow> ssl_has yes no (ssl_set_if S b op r)"
  by (simp add: ssl_set_if_def ssl_has_keep)

lemma ssl_has_some: "ssl_has yes no r \<Longrightarrow> (\<And>a. op a \<notin> no) \<Longrightarrow> ssl_has yes no (ssl_set_some S x op r)"
  by (simp add: ssl_set_some_def if_some_def ssl_has_keep split: option.splits)

lemma ssl_has_compression: "ssl_has yes no r \<Longrightarrow> (\<And>a. CertCompression a \<notin> no) \<Longrightarrow> ssl_has yes no (ssl_compression S algs r)"
proof -
  assume a: "ssl_has yes no r" "\<And>a. CertCompression a \<notin> no"
  have "ssl_has yes no (fold (\<lambda>a. ssl_set S (CertCompression a)) as r)" for as
    using a(1) by (induction as arbitrary: r) (simp_all add: ssl_has_keep a(2))
  with a(1) show ?thesis by (simp add: ssl_compression_def split: option.splits)
qed

lemmas ssl_has_intros = ssl_has_keep ssl_has_if ssl_has_some ssl_has_compression

lemma tls_options_verify:
  "ssl_has {VerifyPeer (tb_cert_verification b)} {VerifyPeer (\<not> tb_cert_verification b)} (tls_options S b)"
proof -
  let ?no = "{VerifyPeer (\<not> tb_cert_verification b)}"
  have "ssl_has {} ?no (ssl_set S (case tb_cert_store b of Some store \<Rightarrow> AddStore store | None \<Rightarrow> DefaultVerifyPaths) (Inr []))"
    by (rule ssl_has_keep) (simp_all add: ssl_has_def split: option.splits)
  then have r1: "ssl_has {VerifyPeer (tb_cert_verification b)} ?no
      (ssl_set S (VerifyPeer (tb_cert_verification b)) (ssl_set S (case tb_cert_store b of Some store \<Rightarrow> AddStore store | None \<Rightarrow> DefaultVerifyPaths) (Inr [])))"
    (is "ssl_has _ _ ?r1") by (rule ssl_has_set) simp
  define r1 where "r1 = ?r1"
  note r1 [folded r1_def]
  then show ?thesis unfolding tls_options_def Let_def r1_def [symmetric] by (intro ssl_has_intros) simp_all
qed

lemma conf_has_set: "ssl_has yes no r \<Longrightarrow> op \<notin> no \<Longrightarrow> ssl_has (insert op yes) no (conf_set S op r)"
  by (auto simp: ssl_has_def conf_set_def split: sum.splits option.splits)

lemma conf_has_keep: "ssl_has yes no r \<Longrightarrow> op \<notin> no \<Longrightarrow> ssl_has yes no (conf_set S op r)"
  by (rule ssl_has_mono [OF conf_has_set]) auto

lemma settings_has:
  assumes "ssl_has {} no r" and "no \<subseteq> {VerifyHostname (\<not> st_verify_hostname st)} \<union> range OfferSession \<union> range CacheKey"
  shows "ssl_has {VerifyHostname (st_verify_hostname st)} no (settings_callback S rnd st r)"
proof -
  have n: "UseSni x \<notin> no" "VerifyHostname (st_verify_hostname st) \<notin> no" "EchGrease x \<notin> no" "ConfAesHwOverride x \<notin> no"
    "ApplicationSettings a \<notin> no" "AlpsNewCodepoint \<notin> no" for x a using assms(2) by auto
  have "ssl_has {VerifyHostname (st_verify_hostname st)} no
      (conf_set S (VerifyHostname (st_verify_hostname st)) (conf_set S (UseSni (st_tls_sni st)) r))"
    using assms(1) by (intro conf_has_set conf_has_keep n)
  then show ?thesis
    unfolding settings_callback_def Let_def by (auto intro!: conf_has_keep n split: option.splits)
qed

text \<open>Which session is offered, and what the handshake is about.\<close>

lemma tls_setup_session:
  assumes "tls_setup S L rnd ti authority host c = (c', Inr hs)"
  shows "hs_host hs = host \<and> VerifyHostname (st_verify_hostname (ti_settings ti)) \<in> set (hs_options hs) \<and>
    VerifyHostname (\<not> st_verify_hostname (ti_settings ti)) \<notin> set (hs_options hs) \<and>
    (\<forall>s. OfferSession s \<in> set (hs_options hs) \<longrightarrow> (\<exists>key. authority = Some key \<and> cache_get L key c = (c', Some s))) \<and>
    (\<forall>key. CacheKey key \<in> set (hs_options hs) \<longleftrightarrow> authority = Some key)"
proof -
  let ?v = "VerifyHostname (st_verify_hostname (ti_settings ti))"
  let ?no = "{VerifyHostname (\<not> st_verify_hostname (ti_settings ti))} \<union> range OfferSession \<union> range CacheKey"
  from assms obtain ops where ops: "settings_callback S rnd (ti_settings ti) (Inr []) = Inr ops"
    by (auto simp: tls_setup_def split: sum.splits)
  have "ssl_has {?v} ?no (settings_callback S rnd (ti_settings ti) (Inr []))"
    by (rule settings_has) (auto simp: ssl_has_def)
  then have o: "?v \<in> set ops" "set ops \<inter> ?no = {}" by (simp_all add: ssl_has_def ops)
  have fin: "hs_host hs = host \<and> hs_options hs = ops'" if "into_ssl S ti host ops' = Inr hs" for ops'
    using that by (auto simp: into_ssl_def split: option.splits AlpnProtos.splits)
  show ?thesis
  proof (cases authority)
    case None
    then have "into_ssl S ti host ops = Inr hs" using assms ops by (simp add: tls_setup_def)
    from fin [OF this] o None show ?thesis by auto
  next
    case (Some key)
    obtain c1 session where t: "take_session L ti key c = (c1, session)" by (rule prod.exhaust)
    from assms Some ops t obtain ops' where f: "session_conf S ti key session ops = Inr ops'" "into_ssl S ti host ops' = Inr hs" "c1 = c'"
      by (auto simp: tls_setup_def split: sum.splits)
    have mem: "x \<in> set ops' \<longleftrightarrow> x \<in> set ops \<or> (\<exists>s. session = Some s \<and> x = OfferSession s) \<or> x = CacheKey key \<or>
        x = ConfNoTicket \<and> session \<noteq> None \<and> ti_skip_session_ticket ti" for x
      using f(1) by (auto simp: session_conf_def conf_set_def Let_def split: option.splits sum.splits if_splits)
    have "cache_get L key c = (c', Some s)" if "session = Some s" for s
      using t f(3) that by (auto simp: take_session_def split: if_splits)
    moreover have "OfferSession s \<notin> set ops" "CacheKey k \<notin> set ops" "VerifyHostname (\<not> st_verify_hostname (ti_settings ti)) \<notin> set ops" for s k
      using o(2) by auto
    ultimately show ?thesis using fin [OF f(2)] o(1) Some by (auto simp: mem)
  qed
qed

text \<open>C23. Every TLS connection is verified as configured. With a connector that a builder made, the context of every
  handshake verifies certificates unless the builder was told not to, and the handshake verifies the name of the host it was started for, unless the
  builder was told not to. A session is offered only if it was cached for this authority, and new sessions are cached for it.\<close>
theorem handshake_verified:
  assumes "tls_build S b = Inr ti"
    and "tls_setup S L rnd (ti\<lparr>ti_ssl_callback := alpn\<rparr>) authority host c = (c', Inr hs)"
  shows "(\<forall>v. VerifyPeer v \<in> set (ti_ssl ti) \<longleftrightarrow> v = tb_cert_verification b) \<and>
    hs_host hs = host \<and> (\<forall>v. VerifyHostname v \<in> set (hs_options hs) \<longleftrightarrow> v = tb_verify_hostname b) \<and>
    (\<forall>s. OfferSession s \<in> set (hs_options hs) \<longrightarrow> (\<exists>key. authority = Some key \<and> cache_get L key c = (c', Some s))) \<and>
    (\<forall>key. CacheKey key \<in> set (hs_options hs) \<longleftrightarrow> authority = Some key)"
proof -
  from assms(1) obtain ops where o: "tls_options S b = Inr ops" "ti = with_connector_and_settings ops (tls_settings b)"
    by (auto simp: tls_build_def split: sum.splits)
  have "VerifyPeer (tb_cert_verification b) \<in> set ops" "VerifyPeer (\<not> tb_cert_verification b) \<notin> set ops"
    using tls_options_verify [of b S] by (simp_all add: ssl_has_def o(1))
  then have p: "VerifyPeer v \<in> set (ti_ssl ti) \<longleftrightarrow> v = tb_cert_verification b" for v
    by (cases "v = tb_cert_verification b") (auto simp: o(2) with_connector_and_settings_def)
  have "st_verify_hostname (ti_settings ti) = tb_verify_hostname b"
    by (simp add: o(2) with_connector_and_settings_def tls_settings_def Let_def)
  note s = tls_setup_session [OF assms(2), simplified, unfolded this]
  then have "VerifyHostname v \<in> set (hs_options hs) \<longleftrightarrow> v = tb_verify_hostname b" for v
    by (cases "v = tb_verify_hostname b") auto
  with p s show ?thesis by simp
qed

text \<open>A library in which nothing fails and every handshake succeeds after a time.\<close>

definition easy_ssl :: "nat \<Rightarrow> bytes option \<Rightarrow> ('b \<Rightarrow> bytes) \<Rightarrow> ('o, 'b) ssl_lib" where
  "easy_ssl d alpn certificate =
     \<lparr>sl_option = (\<lambda>_. None), sl_conf = (\<lambda>_. None), sl_into_ssl = (\<lambda>_. None), sl_alpn = (\<lambda>_. None),
      sl_handshake = (\<lambda>_ _ b t. Some (t + d, Inr \<lparr>tp_alpn = alpn, tp_certificate = Some (certificate b)\<rparr>))\<rparr>"

lemmas tls_eval = easy_ssl_def tls_builder_def tls_build_def tls_options_def ssl_set_def ssl_set_if_def ssl_set_some_def if_some_def
  ssl_compression_def default_tls_config_def tls_settings_def default_settings_def with_connector_and_settings_def AlpnALL_def
  tls_setup_def settings_callback_def conf_set_def take_session_def session_conf_def into_ssl_def Let_def

text \<open>Witness of C23: a builder with its defaults.\<close>
theorem handshake_verified_witness:
  "\<exists>ti hs. tls_build (easy_ssl 1 None (\<lambda>_. []) :: (unit, unit) ssl_lib) (tls_builder default_tls_config) = Inr ti \<and>
     snd (tls_setup (easy_ssl 1 None (\<lambda>_. []) :: (unit, unit) ssl_lib) list_set 0 (ti\<lparr>ti_ssl_callback := None\<rparr>) (Some ''a.org'') ''a.org''
       (cache_with_capacity 8)) = Inr hs \<and>
     VerifyPeer True \<in> set (ti_ssl ti) \<and> VerifyHostname True \<in> set (hs_options hs)"
proof -
  let ?S = "easy_ssl 1 None (\<lambda>_ :: unit. []) :: (unit, unit) ssl_lib"
  let ?b = "tls_builder default_tls_config :: unit TlsConnectorBuilder"
  obtain ti where ti: "tls_build ?S ?b = Inr ti" by (simp add: tls_eval)
  obtain c' hs where hs: "tls_setup ?S list_set 0 (ti\<lparr>ti_ssl_callback := None\<rparr>) (Some ''a.org'') ''a.org'' (cache_with_capacity 8) = (c', Inr hs)"
    using ti by (auto simp: tls_eval)
  from handshake_verified [OF ti hs] ti hs show ?thesis
    by (intro exI [of _ ti] exI [of _ hs]) (simp add: tls_builder_def)
qed

end
