(* ===== verification/Oneshot.thy ===== *)
theory Oneshot
  imports Prelude
begin

text \<open>
  The one-shot channels of \<^verbatim>\<open>tokio\<close>, which the connection pool uses to hand a connection to a waiting
  request. They are outside the repository: the record \<open>oneshot_ops\<close> holds the operations the
  code calls, on a store of channels named by numbers, and the locale \<open>oneshot\<close> their documented
  behaviour, as the change each makes to the state of the channel it is called on. The instance
  \<open>fun_oneshot\<close> shows that the laws can hold.
\<close>

text \<open>A channel: not yet created (or finished on both sides), both ends alive and nothing sent, a value sent and not
  yet received, only the sender alive, only the receiver alive with nothing sent.\<close>

datatype 'v chan = Unused | Waiting | Sent 'v | RxGone | TxGone

record ('s, 'v) oneshot_ops =
  os_channel :: "'s \<Rightarrow> nat \<times> 's"
  os_is_closed :: "'s \<Rightarrow> nat \<Rightarrow> bool"
  os_send :: "'s \<Rightarrow> nat \<Rightarrow> 'v \<Rightarrow> 's \<times> 'v option"
  os_poll :: "'s \<Rightarrow> nat \<Rightarrow> 's \<times> (unit + 'v) poll"
  os_drop_tx :: "'s \<Rightarrow> nat \<Rightarrow> 's"
  os_drop_rx :: "'s \<Rightarrow> nat \<Rightarrow> 's"

text \<open>Sending consumes the sender: the value is stored, or given back when the receiver is gone.\<close>

fun chan_send :: "'v \<Rightarrow> 'v chan \<Rightarrow> 'v chan \<times> 'v option" where
  "chan_send v Waiting = (Sent v, None)"
| "chan_send v RxGone = (Unused, Some v)"
| "chan_send v c = (c, Some v)"

fun chan_poll :: "'v chan \<Rightarrow> 'v chan \<times> (unit + 'v) poll" where
  "chan_poll Waiting = (Waiting, Pending)"
| "chan_poll (Sent v) = (Unused, Ready (Inr v))"
| "chan_poll TxGone = (Unused, Ready (Inl ()))"
| "chan_poll c = (c, Ready (Inl ()))"

fun chan_drop_tx :: "'v chan \<Rightarrow> 'v chan" where
  "chan_drop_tx Waiting = TxGone"
| "chan_drop_tx RxGone = Unused"
| "chan_drop_tx c = c"

fun chan_drop_rx :: "'v chan \<Rightarrow> 'v chan" where
  "chan_drop_rx Waiting = RxGone"
| "chan_drop_rx (Sent v) = Unused"
| "chan_drop_rx TxGone = Unused"
| "chan_drop_rx c = c"

locale oneshot =
  fixes OS :: "('s, 'v) oneshot_ops" and chan_of :: "'s \<Rightarrow> nat \<Rightarrow> 'v chan"
  assumes channel_fresh: "os_channel OS s = (c, s') \<Longrightarrow> chan_of s c = Unused"
    and channel_new: "os_channel OS s = (c, s') \<Longrightarrow> chan_of s' = (chan_of s)(c := Waiting)"
    and is_closed_iff: "os_is_closed OS s c \<longleftrightarrow> chan_of s c = RxGone"
    and send_chan: "chan_of (fst (os_send OS s c v)) = (chan_of s)(c := fst (chan_send v (chan_of s c)))"
    and send_result: "snd (os_send OS s c v) = snd (chan_send v (chan_of s c))"
    and poll_chan: "chan_of (fst (os_poll OS s c)) = (chan_of s)(c := fst (chan_poll (chan_of s c)))"
    and poll_result: "snd (os_poll OS s c) = snd (chan_poll (chan_of s c))"
    and drop_tx_chan: "chan_of (os_drop_tx OS s c) = (chan_of s)(c := chan_drop_tx (chan_of s c))"
    and drop_rx_chan: "chan_of (os_drop_rx OS s c) = (chan_of s)(c := chan_drop_rx (chan_of s c))"
begin

lemmas os_laws = is_closed_iff send_chan send_result poll_chan poll_result drop_tx_chan drop_rx_chan

text \<open>Dropping a list of senders, as removing a queue of waiters does.\<close>

lemma chan_of_drop_txs:
  "chan_of (fold (\<lambda>c s. os_drop_tx OS s c) cs s) x =
    (if x \<in> set cs then chan_drop_tx (chan_of s x) else chan_of s x)"
proof (induction cs arbitrary: s)
  case (Cons c cs)
  have idem: "chan_drop_tx (chan_drop_tx z) = chan_drop_tx z" for z :: "'v chan" by (cases z) simp_all
  show ?case by (simp add: Cons.IH drop_tx_chan idem)
qed simp

end

text \<open>The instance: channels numbered in the order of their creation.\<close>

definition fun_oneshot :: "(nat \<times> (nat \<Rightarrow> 'v chan), 'v) oneshot_ops" where
  "fun_oneshot = \<lparr>
     os_channel = (\<lambda>(n, f). (n, (Suc n, \<lambda>c. if c = n then Waiting else if n < c then Unused else f c))),
     os_is_closed = (\<lambda>(n, f) c. c < n \<and> f c = RxGone),
     os_send = (\<lambda>(n, f) c v. if c < n then (case chan_send v (f c) of (x, r) \<Rightarrow> ((n, f(c := x)), r)) else ((n, f), Some v)),
     os_poll = (\<lambda>(n, f) c. if c < n then (case chan_poll (f c) of (x, r) \<Rightarrow> ((n, f(c := x)), r)) else ((n, f), Ready (Inl ()))),
     os_drop_tx = (\<lambda>(n, f) c. if c < n then (n, f(c := chan_drop_tx (f c))) else (n, f)),
     os_drop_rx = (\<lambda>(n, f) c. if c < n then (n, f(c := chan_drop_rx (f c))) else (n, f))\<rparr>"

definition fun_chan_of :: "nat \<times> (nat \<Rightarrow> 'v chan) \<Rightarrow> nat \<Rightarrow> 'v chan" where
  "fun_chan_of = (\<lambda>(n, f) c. if c < n then f c else Unused)"

interpretation fun_oneshot: oneshot fun_oneshot fun_chan_of
  by unfold_locales
    (auto simp: fun_oneshot_def fun_chan_of_def fun_eq_iff less_Suc_eq split: prod.splits)

end
