(* ===== verification/Lru.thy ===== *)
theory Lru
  imports Prelude
begin

text \<open>
  The \<^verbatim>\<open>LruCache\<close> of the \<^verbatim>\<open>lru\<close> crate, in which the pool keeps its idle connections. It is outside the
  repository: the record \<open>lru_ops\<close> holds the operations the pool calls and the locale \<open>lru\<close>
  what they promise, through the lookup \<open>peek\<close> and the bound \<open>cap\<close> the cache was created with.
  Inserting a new key may evict others, so the laws say nothing of which keys survive beyond that no entry
  is changed or invented. A mutable reference into the cache is the value read and \<open>lru_assign\<close>, which
  writes it back. The instance \<open>assoc_lru\<close>, an association list with the last used key first, shows that the laws
  can hold.
\<close>

record ('c, 'k, 'v) lru_ops =
  lru_new :: "nat option \<Rightarrow> 'c"
  lru_contains :: "'c \<Rightarrow> 'k \<Rightarrow> bool"
  lru_get_or_insert :: "'c \<Rightarrow> 'k \<Rightarrow> 'v \<Rightarrow> 'c \<times> 'v"
  lru_get_mut :: "'c \<Rightarrow> 'k \<Rightarrow> 'c \<times> 'v option"
  lru_assign :: "'c \<Rightarrow> 'k \<Rightarrow> 'v \<Rightarrow> 'c"
  lru_pop :: "'c \<Rightarrow> 'k \<Rightarrow> 'c"
  lru_iter_mut :: "'c \<Rightarrow> ('v \<Rightarrow> 'v) \<Rightarrow> 'c \<times> ('k \<times> 'v) list"

definition within :: "nat option \<Rightarrow> nat \<Rightarrow> bool" where
  "within cap n \<longleftrightarrow> (case cap of None \<Rightarrow> True | Some m \<Rightarrow> n \<le> m)"

locale lru =
  fixes LR :: "('c, 'k, 'v) lru_ops" and peek :: "'c \<Rightarrow> 'k \<Rightarrow> 'v option"
    and cap :: "'c \<Rightarrow> nat option" and lok :: "'c \<Rightarrow> bool"
  assumes new_ok: "n \<noteq> Some 0 \<Longrightarrow> lok (lru_new LR n)"
    and new_peek: "n \<noteq> Some 0 \<Longrightarrow> peek (lru_new LR n) = Map.empty"
    and new_cap: "n \<noteq> Some 0 \<Longrightarrow> cap (lru_new LR n) = n"
    and contains_iff: "lok c \<Longrightarrow> lru_contains LR c k \<longleftrightarrow> peek c k \<noteq> None"
    and keys_finite: "lok c \<Longrightarrow> finite (dom (peek c))"
    and keys_bound: "lok c \<Longrightarrow> within (cap c) (card (dom (peek c)))"
    and insert_value: "lok c \<Longrightarrow> lru_get_or_insert LR c k v = (c', w) \<Longrightarrow>
      w = (case peek c k of None \<Rightarrow> v | Some u \<Rightarrow> u) \<and> peek c' k = Some w"
    and insert_other: "lok c \<Longrightarrow> lru_get_or_insert LR c k v = (c', w) \<Longrightarrow> k' \<noteq> k \<Longrightarrow> peek c' k' = Some u \<Longrightarrow>
      peek c k' = Some u"
    and get_mut: "lok c \<Longrightarrow> lru_get_mut LR c k = (c', r) \<Longrightarrow> r = peek c k \<and> peek c' = peek c"
    and assign_peek: "lok c \<Longrightarrow> peek c k \<noteq> None \<Longrightarrow> peek (lru_assign LR c k v) = (peek c)(k \<mapsto> v)"
    and pop_peek: "lok c \<Longrightarrow> peek (lru_pop LR c k) = (peek c)(k := None)"
    and iter_mut: "lok c \<Longrightarrow> lru_iter_mut LR c f = (c', kvs) \<Longrightarrow>
      peek c' = (\<lambda>k. map_option f (peek c k)) \<and> set kvs = {(k, v). peek c' k = Some v}"
    and insert_ok: "lok c \<Longrightarrow> lok (fst (lru_get_or_insert LR c k v))"
    and get_ok: "lok c \<Longrightarrow> lok (fst (lru_get_mut LR c k))"
    and assign_ok: "lok c \<Longrightarrow> peek c k \<noteq> None \<Longrightarrow> lok (lru_assign LR c k v)"
    and pop_ok: "lok c \<Longrightarrow> lok (lru_pop LR c k)"
    and iter_ok: "lok c \<Longrightarrow> lok (fst (lru_iter_mut LR c f))"
    and insert_cap: "lok c \<Longrightarrow> cap (fst (lru_get_or_insert LR c k v)) = cap c"
    and get_cap: "lok c \<Longrightarrow> cap (fst (lru_get_mut LR c k)) = cap c"
    and assign_cap: "lok c \<Longrightarrow> peek c k \<noteq> None \<Longrightarrow> cap (lru_assign LR c k v) = cap c"
    and pop_cap: "lok c \<Longrightarrow> cap (lru_pop LR c k) = cap c"
    and iter_cap: "lok c \<Longrightarrow> cap (fst (lru_iter_mut LR c f)) = cap c"
begin

text \<open>A loop that pops a list of keys.\<close>

lemma pop_all:
  "lok c \<Longrightarrow> lok (fold (\<lambda>k c. lru_pop LR c k) ks c) \<and> cap (fold (\<lambda>k c. lru_pop LR c k) ks c) = cap c \<and>
    peek (fold (\<lambda>k c. lru_pop LR c k) ks c) = (\<lambda>k. if k \<in> set ks then None else peek c k)"
  by (induction ks arbitrary: c) (auto simp: pop_ok pop_cap pop_peek)

end

section \<open>The instance\<close>

type_synonym ('k, 'v) assoc_cache = "nat option \<times> ('k \<times> 'v) list"

definition shrink :: "nat option \<Rightarrow> 'a list \<Rightarrow> 'a list" where
  "shrink cap xs = (case cap of None \<Rightarrow> xs | Some n \<Rightarrow> take n xs)"

definition assoc_lru :: "(('k, 'v) assoc_cache, 'k, 'v) lru_ops" where
  "assoc_lru = \<lparr>
     lru_new = (\<lambda>cap. (cap, [])),
     lru_contains = (\<lambda>(cap, al) k. map_of al k \<noteq> None),
     lru_get_or_insert = (\<lambda>(cap, al) k v.
       let w = (case map_of al k of None \<Rightarrow> v | Some u \<Rightarrow> u)
       in ((cap, shrink cap ((k, w) # filter (\<lambda>e. fst e \<noteq> k) al)), w)),
     lru_get_mut = (\<lambda>(cap, al) k. case map_of al k of
         None \<Rightarrow> ((cap, al), None)
       | Some u \<Rightarrow> ((cap, (k, u) # filter (\<lambda>e. fst e \<noteq> k) al), Some u)),
     lru_assign = (\<lambda>(cap, al) k v. (cap, map (\<lambda>e. if fst e = k then (k, v) else e) al)),
     lru_pop = (\<lambda>(cap, al) k. (cap, filter (\<lambda>e. fst e \<noteq> k) al)),
     lru_iter_mut = (\<lambda>(cap, al) f. let al' = map (\<lambda>(k, v). (k, f v)) al in ((cap, al'), al'))\<rparr>"

definition assoc_peek :: "('k, 'v) assoc_cache \<Rightarrow> 'k \<Rightarrow> 'v option" where
  "assoc_peek c = map_of (snd c)"

definition assoc_ok :: "('k, 'v) assoc_cache \<Rightarrow> bool" where
  "assoc_ok c \<longleftrightarrow> fst c \<noteq> Some 0 \<and> distinct (map fst (snd c)) \<and> within (fst c) (length (snd c))"

lemma map_of_without: "map_of (filter (\<lambda>e. fst e \<noteq> k) al) = (map_of al)(k := None)"
  by (induction al) (auto simp: fun_eq_iff)

lemma map_of_overwrite_at:
  "map_of (map (\<lambda>e. if fst e = k then (k, v) else e) al) x =
    (if x = k then map_option (\<lambda>_. v) (map_of al k) else map_of al x)"
  by (induction al) auto

lemma map_of_overwrite:
  "map_of al k \<noteq> None \<Longrightarrow> map_of (map (\<lambda>e. if fst e = k then (k, v) else e) al) = (map_of al)(k \<mapsto> v)"
  by (auto simp: fun_eq_iff map_of_overwrite_at)

lemma keys_overwrite: "map fst (map (\<lambda>e. if fst e = k then (k, v) else e) al) = map fst al"
  by (induction al) auto

lemma distinct_without: "distinct (map fst al) \<Longrightarrow> distinct (map fst (filter P al))"
  by (induction al) auto

lemma length_without: "map_of al k = Some u \<Longrightarrow> length (filter (\<lambda>e. fst e \<noteq> k) al) < length al"
  by (induction al) (auto split: if_splits simp: less_Suc_eq_le)

lemma map_of_shrink:
  assumes "distinct (map fst xs)" and "map_of (shrink cap xs) k = Some u"
  shows "map_of xs k = Some u"
proof -
  have "set (shrink cap xs) \<subseteq> set xs"
    by (auto simp: shrink_def split: option.splits dest: in_set_takeD)
  with assms show ?thesis by (metis map_of_SomeD map_of_is_SomeI subsetD)
qed

lemma shrink_Cons: "cap \<noteq> Some 0 \<Longrightarrow> map_of (shrink cap ((k, w) # xs)) k = Some w"
  by (auto simp: shrink_def take_Cons split: option.splits nat.splits)

lemma shrink_ok: "cap \<noteq> Some 0 \<Longrightarrow> distinct (map fst xs) \<Longrightarrow> assoc_ok (cap, shrink cap xs)"
  by (auto simp: assoc_ok_def shrink_def within_def take_map [symmetric] split: option.splits)

lemma assoc_get_or_insert:
  assumes "assoc_ok c" and "lru_get_or_insert assoc_lru c k v = (c', w)"
  shows "w = (case assoc_peek c k of None \<Rightarrow> v | Some u \<Rightarrow> u)" and "assoc_peek c' k = Some w"
    and "k' \<noteq> k \<Longrightarrow> assoc_peek c' k' = Some u \<Longrightarrow> assoc_peek c k' = Some u"
    and "assoc_ok c'" and "fst c' = fst c"
proof -
  obtain cap al where c: "c = (cap, al)" by force
  let ?new = "(k, w) # filter (\<lambda>e. fst e \<noteq> k) al"
  have d: "distinct (map fst ?new)" using assms(1) by (auto simp: c assoc_ok_def distinct_without)
  have c': "c' = (cap, shrink cap ?new)" and w: "w = (case assoc_peek c k of None \<Rightarrow> v | Some u \<Rightarrow> u)"
    using assms(2) by (auto simp: c assoc_lru_def assoc_peek_def Let_def)
  have cap: "cap \<noteq> Some 0" using assms(1) by (simp add: c assoc_ok_def)
  show "w = (case assoc_peek c k of None \<Rightarrow> v | Some u \<Rightarrow> u)" by (fact w)
  show "assoc_peek c' k = Some w" using shrink_Cons [OF cap] by (simp add: c' assoc_peek_def)
  show "k' \<noteq> k \<Longrightarrow> assoc_peek c' k' = Some u \<Longrightarrow> assoc_peek c k' = Some u"
    using map_of_shrink [OF d, of cap k' u] by (simp add: c c' assoc_peek_def map_of_without)
  show "assoc_ok c'" "fst c' = fst c" using shrink_ok [OF cap d] by (simp_all add: c c')
qed

lemma assoc_get_mut:
  assumes "assoc_ok c" and "lru_get_mut assoc_lru c k = (c', r)"
  shows "r = assoc_peek c k" and "assoc_peek c' = assoc_peek c" and "assoc_ok c'" and "fst c' = fst c"
proof -
  obtain cap al where c: "c = (cap, al)" by force
  have "r = assoc_peek c k \<and> assoc_peek c' = assoc_peek c \<and> assoc_ok c' \<and> fst c' = fst c"
  proof (cases "map_of al k")
    case None
    then show ?thesis using assms by (auto simp: c assoc_lru_def assoc_peek_def)
  next
    case (Some u)
    then have "length ((k, u) # filter (\<lambda>e. fst e \<noteq> k) al) \<le> length al" using length_without by fastforce
    then show ?thesis using assms Some
      by (auto simp: c assoc_lru_def assoc_peek_def map_of_without assoc_ok_def within_def distinct_without fun_eq_iff
          split: option.splits)
  qed
  then show "r = assoc_peek c k" "assoc_peek c' = assoc_peek c" "assoc_ok c'" "fst c' = fst c" by auto
qed

lemma assoc_assign:
  assumes "assoc_ok c" and "assoc_peek c k \<noteq> None"
  shows "assoc_peek (lru_assign assoc_lru c k v) = (assoc_peek c)(k \<mapsto> v)" and "assoc_ok (lru_assign assoc_lru c k v)"
    and "fst (lru_assign assoc_lru c k v) = fst c"
proof -
  obtain cap al where c: "c = (cap, al)" by force
  show "assoc_peek (lru_assign assoc_lru c k v) = (assoc_peek c)(k \<mapsto> v)"
    using assms(2) map_of_overwrite by (simp add: c assoc_lru_def assoc_peek_def)
  show "assoc_ok (lru_assign assoc_lru c k v)"
    using assms(1) keys_overwrite [of k v al] by (simp add: c assoc_lru_def assoc_ok_def del: map_map)
  show "fst (lru_assign assoc_lru c k v) = fst c" by (simp add: c assoc_lru_def)
qed

lemma assoc_pop:
  shows "assoc_peek (lru_pop assoc_lru c k) = (assoc_peek c)(k := None)"
    and "assoc_ok c \<Longrightarrow> assoc_ok (lru_pop assoc_lru c k)" and "fst (lru_pop assoc_lru c k) = fst c"
proof -
  obtain cap al where c: "c = (cap, al)" by force
  have "within cap n" if "within cap m" "n \<le> m" for n m using that by (auto simp: within_def split: option.splits)
  then have "within cap (length al) \<Longrightarrow> within cap (length (filter (\<lambda>e. fst e \<noteq> k) al))" by auto
  then show "assoc_peek (lru_pop assoc_lru c k) = (assoc_peek c)(k := None)"
    and "assoc_ok c \<Longrightarrow> assoc_ok (lru_pop assoc_lru c k)" and "fst (lru_pop assoc_lru c k) = fst c"
    by (auto simp: c assoc_lru_def assoc_peek_def map_of_without assoc_ok_def distinct_without)
qed

lemma assoc_iter_mut:
  assumes "assoc_ok c" and "lru_iter_mut assoc_lru c f = (c', kvs)"
  shows "assoc_peek c' = (\<lambda>k. map_option f (assoc_peek c k))" and "set kvs = {(k, v). assoc_peek c' k = Some v}"
    and "assoc_ok c'" and "fst c' = fst c"
proof -
  obtain cap al where c: "c = (cap, al)" by force
  have c': "c' = (cap, map (\<lambda>(k, v). (k, f v)) al)" "kvs = snd c'"
    using assms(2) by (auto simp: c assoc_lru_def Let_def)
  have keys: "map fst (map (\<lambda>(k, v). (k, f v)) al) = map fst al" by (induction al) auto
  show "assoc_peek c' = (\<lambda>k. map_option f (assoc_peek c k))" by (simp add: c c' assoc_peek_def map_of_map fun_eq_iff)
  show ok: "assoc_ok c'" using assms(1) keys unfolding c c' assoc_ok_def fst_conv snd_conv by (simp del: map_map)
  show "set kvs = {(k, v). assoc_peek c' k = Some v}"
    using ok unfolding c'(2) assoc_peek_def assoc_ok_def by (auto intro: map_of_is_SomeI dest: map_of_SomeD)
  show "fst c' = fst c" by (simp add: c c')
qed

lemma assoc_bound:
  assumes "assoc_ok c"
  shows "finite (dom (assoc_peek c))" and "within (fst c) (card (dom (assoc_peek c)))"
proof -
  have "dom (assoc_peek c) = set (map fst (snd c))" by (simp add: assoc_peek_def dom_map_of_conv_image_fst)
  moreover have "card (set (map fst (snd c))) = length (snd c)"
    using assms distinct_card [of "map fst (snd c)"] by (simp add: assoc_ok_def)
  ultimately show "finite (dom (assoc_peek c))" "within (fst c) (card (dom (assoc_peek c)))"
    using assms by (simp_all add: assoc_ok_def)
qed

lemmas assoc_laws = assoc_get_or_insert assoc_get_mut assoc_assign assoc_pop assoc_iter_mut assoc_bound

interpretation assoc_lru: lru assoc_lru assoc_peek fst assoc_ok
proof
  fix c :: "('k, 'v) assoc_cache" and k v
  show "assoc_ok c \<Longrightarrow> assoc_ok (fst (lru_get_or_insert assoc_lru c k v))"
    and "assoc_ok c \<Longrightarrow> fst (fst (lru_get_or_insert assoc_lru c k v)) = fst c"
    using assoc_get_or_insert(4,5) [of c k v "fst (lru_get_or_insert assoc_lru c k v)"]
    by (metis prod.collapse)+
  show "assoc_ok c \<Longrightarrow> assoc_ok (fst (lru_get_mut assoc_lru c k))"
    and "assoc_ok c \<Longrightarrow> fst (fst (lru_get_mut assoc_lru c k)) = fst c"
    using assoc_get_mut(3,4) [of c k "fst (lru_get_mut assoc_lru c k)"] by (metis prod.collapse)+
next
  fix c :: "('k, 'v) assoc_cache" and f
  show "assoc_ok c \<Longrightarrow> assoc_ok (fst (lru_iter_mut assoc_lru c f))"
    and "assoc_ok c \<Longrightarrow> fst (fst (lru_iter_mut assoc_lru c f)) = fst c"
    using assoc_iter_mut(3,4) [of c f "fst (lru_iter_mut assoc_lru c f)"] by (metis prod.collapse)+
next
  fix c :: "('k, 'v) assoc_cache" and k
  show "lru_contains assoc_lru c k \<longleftrightarrow> assoc_peek c k \<noteq> None"
    by (simp add: assoc_lru_def assoc_peek_def split: prod.splits)
next
  fix n :: "nat option"
  assume "n \<noteq> Some 0"
  then show "assoc_ok (lru_new assoc_lru n)" by (simp add: assoc_lru_def assoc_ok_def within_def split: option.splits)
  show "assoc_peek (lru_new assoc_lru n) = Map.empty" "fst (lru_new assoc_lru n) = n"
    by (simp_all add: assoc_lru_def assoc_peek_def)
qed ((intro conjI)?, (rule assoc_laws; assumption)+)+

end
