(* ===== verification/Pool.thy ===== *)
theory Pool
  imports Oneshot Lru
begin

text \<open>
  The connection pool, \<^verbatim>\<open>src/src/core/client/pool.rs\<close>: idle connections per host, requests waiting for one, and the
  lock that keeps a second HTTP/2 connection to the same host from being made.

  The pool itself is the record \<open>PoolInner\<close>; one definition per method follows, each run under the pool's mutex
  and therefore one atomic step. The channels to waiting requests are the store of \<^theory_text>\<open>Oneshot\<close>,
  named by numbers, and are passed along with the pool; the cache of idle lists is a parameter of the kind
  described in \<^theory_text>\<open>Lru\<close>. What the pool asks of a connection (the trait \<^verbatim>\<open>Poolable\<close>) is the record
  \<open>poolable\<close>; whether a connection is open may change at any time, so each call has its own.
  An \<^verbatim>\<open>Instant\<close> and a \<^verbatim>\<open>Duration\<close> are natural numbers of nanoseconds, and one call of a method reads the clock
  once. A \<^verbatim>\<open>WeakOpt\<close> to the pool is a truth value: a reference is there or not.

  \<^verbatim>\<open>HashSet\<close> and \<^verbatim>\<open>HashMap\<close> are sets and maps, \<^verbatim>\<open>Vec\<close> and \<^verbatim>\<open>VecDeque\<close> lists with the end of a \<^verbatim>\<open>Vec\<close> at the end
  of the list.
\<close>

section \<open>Data\<close>

datatype Ver = Auto | Http2

datatype 'v Reservation = Shared 'v 'v | Unique 'v

record 'v poolable =
  is_open :: "'v \<Rightarrow> bool"
  reserve :: "'v \<Rightarrow> 'v Reservation"
  can_share :: "'v \<Rightarrow> bool"

record 'v Idle =
  idle_at :: nat
  ivalue :: 'v

record pool_config =
  cfg_idle_timeout :: "nat option"
  cfg_max_idle_per_host :: nat
  cfg_max_pool_size :: "nat option"

record ('c, 'k) PoolInner =
  connecting_keys :: "'k set"
  idle :: 'c
  max_idle_per_host :: nat
  waiters :: "'k \<Rightarrow> nat list option"
  idle_interval_ref :: bool
  has_timer :: bool
  timeout :: "nat option"

record ('v, 'k) Pooled =
  pvalue :: "'v option"
  is_reused :: bool
  pkey :: 'k
  ppool :: bool

record 'k Connecting =
  ckey :: 'k
  cpool :: bool

record 'k Checkout =
  cokey :: 'k
  cowaiter :: "nat option"

datatype pool_error = PoolDisabled | CheckoutNoLongerWanted | CheckedOutClosedValue

fun pool_error_is_canceled :: "pool_error \<Rightarrow> bool" where
  "pool_error_is_canceled CheckedOutClosedValue \<longleftrightarrow> True"
| "pool_error_is_canceled _ \<longleftrightarrow> False"

type_synonym ('c, 'k, 'v) cache_ops = "('c, 'k, 'v Idle list) lru_ops"

section \<open>Creation\<close>

definition config_is_enabled :: "pool_config \<Rightarrow> bool" where
  "config_is_enabled cfg \<longleftrightarrow> cfg_max_idle_per_host cfg > 0"

definition pool_new :: "('c, 'k, 'v) cache_ops \<Rightarrow> pool_config \<Rightarrow> bool \<Rightarrow> ('c, 'k) PoolInner option" where
  "pool_new LR cfg timer =
     (if config_is_enabled cfg
      then Some \<lparr>connecting_keys = {}, idle = lru_new LR (cfg_max_pool_size cfg),
                 max_idle_per_host = cfg_max_idle_per_host cfg, waiters = Map.empty,
                 idle_interval_ref = False, has_timer = timer, timeout = cfg_idle_timeout cfg\<rparr>
      else None)"

section \<open>Expiration\<close>

definition expires :: "nat option \<Rightarrow> nat \<Rightarrow> nat \<Rightarrow> bool" where
  "expires expiration now instant \<longleftrightarrow> (case expiration of Some dur \<Rightarrow> dur < now - instant | None \<Rightarrow> False)"

text \<open>\<^verbatim>\<open>IdlePopper::pop\<close>: what is left of the list, and the entry found.\<close>

fun idle_pop :: "'v poolable \<Rightarrow> nat option \<Rightarrow> nat \<Rightarrow> 'v Idle list \<Rightarrow> 'v Idle list \<times> 'v Idle option" where
  "idle_pop P expiration now list =
     (if list = [] then ([], None)
      else let entry = last list; rest = butlast list
           in if \<not> is_open P (ivalue entry) then idle_pop P expiration now rest
              else if expires expiration now (idle_at entry) then idle_pop P expiration now rest
              else case reserve P (ivalue entry) of
                     Shared to_reinsert to_checkout \<Rightarrow>
                       (rest @ [\<lparr>idle_at = now, ivalue = to_reinsert\<rparr>],
                        Some \<lparr>idle_at = idle_at entry, ivalue = to_checkout\<rparr>)
                   | Unique unique \<Rightarrow> (rest, Some \<lparr>idle_at = idle_at entry, ivalue = unique\<rparr>))"

declare idle_pop.simps [simp del]

section \<open>Putting a connection back\<close>

definition spawn_idle_interval :: "('c, 'k) PoolInner \<Rightarrow> ('c, 'k) PoolInner" where
  "spawn_idle_interval I =
     (if idle_interval_ref I then I
      else case timeout I of
             None \<Rightarrow> I
           | Some dur \<Rightarrow> if has_timer I then I\<lparr>idle_interval_ref := True\<rparr> else I)"

text \<open>The loop over the waiters of a key: the channels after it, the waiters left and the value if nobody took it. A
  sender that is popped and found closed is dropped.\<close>

fun put_waiters ::
  "('s, 'v) oneshot_ops \<Rightarrow> 'v poolable \<Rightarrow> nat list \<Rightarrow> 's \<Rightarrow> 'v \<Rightarrow> 's \<times> nat list \<times> 'v option" where
  "put_waiters OS P [] s value = (s, [], Some value)"
| "put_waiters OS P (tx # ws) s value =
     (if \<not> os_is_closed OS s tx
      then case reserve P value of
             Shared to_keep to_send \<Rightarrow>
               (case os_send OS s tx to_send of
                  (s', None) \<Rightarrow> put_waiters OS P ws s' to_keep
                | (s', Some e) \<Rightarrow> put_waiters OS P ws s' e)
           | Unique uniq \<Rightarrow>
               (case os_send OS s tx uniq of
                  (s', None) \<Rightarrow> (s', ws, None)
                | (s', Some e) \<Rightarrow> put_waiters OS P ws s' e)
      else put_waiters OS P ws (os_drop_tx OS s tx) value)"

definition set_waiters :: "'k \<Rightarrow> nat list \<Rightarrow> ('c, 'k) PoolInner \<Rightarrow> ('c, 'k) PoolInner" where
  "set_waiters k ws I = I\<lparr>waiters := (waiters I)(k := if ws = [] then None else Some ws)\<rparr>"

definition put_idle ::
  "('c, 'k, 'v) cache_ops \<Rightarrow> nat \<Rightarrow> 'k \<Rightarrow> 'v \<Rightarrow> ('c, 'k) PoolInner \<Rightarrow> ('c, 'k) PoolInner" where
  "put_idle LR now k value I =
     (case lru_get_or_insert LR (idle I) k [] of
        (c, idle_list) \<Rightarrow>
          if max_idle_per_host I \<le> length idle_list then I\<lparr>idle := c\<rparr>
          else spawn_idle_interval (I\<lparr>idle := lru_assign LR c k (idle_list @ [\<lparr>idle_at = now, ivalue = value\<rparr>])\<rparr>))"

definition put ::
  "('s, 'v) oneshot_ops \<Rightarrow> ('c, 'k, 'v) cache_ops \<Rightarrow> 'v poolable \<Rightarrow> nat \<Rightarrow> 'k \<Rightarrow> 'v \<Rightarrow>
   ('c, 'k) PoolInner \<times> 's \<Rightarrow> ('c, 'k) PoolInner \<times> 's" where
  "put OS LR P now k value = (\<lambda>(I, s).
     if can_share P value \<and> lru_contains LR (idle I) k then (I, s)
     else
       let (I1, s1, value1) =
         (case waiters I k of
            None \<Rightarrow> (I, s, Some value)
          | Some ws \<Rightarrow>
              (case put_waiters OS P ws s value of (s', ws', value') \<Rightarrow> (set_waiters k ws' I, s', value')))
       in case value1 of
            None \<Rightarrow> (I1, s1)
          | Some v \<Rightarrow> (put_idle LR now k v I1, s1))"

section \<open>The HTTP/2 lock\<close>

text \<open>Removing a queue drops its senders. The \<^verbatim>\<open>debug_assert!\<close> that the key was present is \<open>connected_ok\<close>.\<close>

definition drop_waiters :: "('s, 'v) oneshot_ops \<Rightarrow> nat list option \<Rightarrow> 's \<Rightarrow> 's" where
  "drop_waiters OS q s = (case q of None \<Rightarrow> s | Some ws \<Rightarrow> fold (\<lambda>c s. os_drop_tx OS s c) ws s)"

definition connected_ok :: "'k \<Rightarrow> ('c, 'k) PoolInner \<Rightarrow> bool" where
  "connected_ok k I \<longleftrightarrow> k \<in> connecting_keys I"

definition connected ::
  "('s, 'v) oneshot_ops \<Rightarrow> 'k \<Rightarrow> ('c, 'k) PoolInner \<times> 's \<Rightarrow> ('c, 'k) PoolInner \<times> 's" where
  "connected OS k = (\<lambda>(I, s).
     (I\<lparr>connecting_keys := connecting_keys I - {k}, waiters := (waiters I)(k := None)\<rparr>,
      drop_waiters OS (waiters I k) s))"

definition connecting ::
  "'k \<Rightarrow> Ver \<Rightarrow> ('c, 'k) PoolInner option \<Rightarrow> ('c, 'k) PoolInner option \<times> 'k Connecting option" where
  "connecting k ver pool =
     (case (ver, pool) of
        (Http2, Some I) \<Rightarrow>
          if k \<notin> connecting_keys I
          then (Some (I\<lparr>connecting_keys := insert k (connecting_keys I)\<rparr>), Some \<lparr>ckey = k, cpool = True\<rparr>)
          else (Some I, None)
      | _ \<Rightarrow> (pool, Some \<lparr>ckey = k, cpool = False\<rparr>))"

text \<open>\<^verbatim>\<open>Drop for Connecting\<close>.\<close>

definition drop_connecting ::
  "('s, 'v) oneshot_ops \<Rightarrow> 'k Connecting \<Rightarrow> ('c, 'k) PoolInner \<times> 's \<Rightarrow> ('c, 'k) PoolInner \<times> 's" where
  "drop_connecting OS cg st = (if cpool cg then connected OS (ckey cg) st else st)"

text \<open>\<^verbatim>\<open>Connecting::alpn_h2\<close>: the old guard is dropped at its end. Its \<^verbatim>\<open>debug_assert!\<close> is that it holds no lock.\<close>

definition alpn_h2 ::
  "('s, 'v) oneshot_ops \<Rightarrow> 'k Connecting \<Rightarrow> ('c, 'k) PoolInner option \<times> 's \<Rightarrow>
   (('c, 'k) PoolInner option \<times> 's) \<times> 'k Connecting option" where
  "alpn_h2 OS cg = (\<lambda>(pool, s).
     case connecting (ckey cg) Http2 pool of
       (None, r) \<Rightarrow> ((None, s), r)
     | (Some I, r) \<Rightarrow> (case drop_connecting OS cg (I, s) of (I', s') \<Rightarrow> ((Some I', s'), r)))"

section \<open>Handing connections out\<close>

text \<open>\<^verbatim>\<open>Pool::pooled\<close>, for a pool that is enabled (\<open>Some\<close>) or not. The lock it is given is dropped at the end, after it
  has been cleared in the shared case.\<close>

definition pooled ::
  "('s, 'v) oneshot_ops \<Rightarrow> ('c, 'k, 'v) cache_ops \<Rightarrow> 'v poolable \<Rightarrow> nat \<Rightarrow> 'k Connecting \<Rightarrow> 'v \<Rightarrow>
   ('c, 'k) PoolInner option \<times> 's \<Rightarrow> (('c, 'k) PoolInner option \<times> 's) \<times> ('v, 'k) Pooled" where
  "pooled OS LR P now cg value = (\<lambda>(pool, s).
     case pool of
       None \<Rightarrow> ((None, s), \<lparr>pvalue = Some value, is_reused = False, pkey = ckey cg, ppool = False\<rparr>)
     | Some I \<Rightarrow>
         (case reserve P value of
            Shared to_insert to_return \<Rightarrow>
              (case connected OS (ckey cg) (put OS LR P now (ckey cg) to_insert (I, s)) of
                 (I', s') \<Rightarrow> ((Some I', s'), \<lparr>pvalue = Some to_return, is_reused = False, pkey = ckey cg, ppool = False\<rparr>))
          | Unique v \<Rightarrow>
              (case drop_connecting OS cg (I, s) of
                 (I', s') \<Rightarrow> ((Some I', s'), \<lparr>pvalue = Some v, is_reused = False, pkey = ckey cg, ppool = True\<rparr>))))"

definition reuse :: "'v poolable \<Rightarrow> bool \<Rightarrow> 'k \<Rightarrow> 'v \<Rightarrow> ('v, 'k) Pooled" where
  "reuse P enabled k value =
     \<lparr>pvalue = Some value, is_reused = True, pkey = k, ppool = (\<not> can_share P value \<and> enabled)\<rparr>"

text \<open>\<^verbatim>\<open>Drop for Pooled\<close>.\<close>

definition drop_pooled ::
  "('s, 'v) oneshot_ops \<Rightarrow> ('c, 'k, 'v) cache_ops \<Rightarrow> 'v poolable \<Rightarrow> nat \<Rightarrow> ('v, 'k) Pooled \<Rightarrow>
   ('c, 'k) PoolInner \<times> 's \<Rightarrow> ('c, 'k) PoolInner \<times> 's" where
  "drop_pooled OS LR P now pd st =
     (case pvalue pd of
        None \<Rightarrow> st
      | Some v \<Rightarrow>
          if \<not> is_open P v then st
          else if ppool pd then put OS LR P now (pkey pd) v st
          else st)"

section \<open>Checkouts\<close>

definition pool_checkout :: "'k \<Rightarrow> 'k Checkout" where
  "pool_checkout k = \<lparr>cokey = k, cowaiter = None\<rparr>"

definition poll_waiter ::
  "('s, 'v) oneshot_ops \<Rightarrow> 'v poolable \<Rightarrow> bool \<Rightarrow> 'k Checkout \<Rightarrow> 's \<Rightarrow>
   'k Checkout \<times> 's \<times> (pool_error + ('v, 'k) Pooled) option poll" where
  "poll_waiter OS P enabled co s =
     (case cowaiter co of
        None \<Rightarrow> (co, s, Ready None)
      | Some rx \<Rightarrow>
          (case os_poll OS s rx of
             (s', Ready (Inr value)) \<Rightarrow>
               (co\<lparr>cowaiter := None\<rparr>, s',
                Ready (Some (if is_open P value then Inr (reuse P enabled (cokey co) value)
                             else Inl CheckedOutClosedValue)))
           | (s', Pending) \<Rightarrow> (co, s', Pending)
           | (s', Ready (Inl _)) \<Rightarrow> (co\<lparr>cowaiter := None\<rparr>, s', Ready (Some (Inl CheckoutNoLongerWanted)))))"

definition take_idle ::
  "('c, 'k, 'v) cache_ops \<Rightarrow> 'v poolable \<Rightarrow> nat \<Rightarrow> 'k \<Rightarrow> ('c, 'k) PoolInner \<Rightarrow> ('c, 'k) PoolInner \<times> 'v Idle option" where
  "take_idle LR P now k I =
     (case lru_get_mut LR (idle I) k of
        (c, None) \<Rightarrow> (I\<lparr>idle := lru_pop LR c k\<rparr>, None)
      | (c, Some list) \<Rightarrow>
          (case idle_pop P (timeout I) now list of
             (list', None) \<Rightarrow> (I\<lparr>idle := lru_pop LR (lru_assign LR c k list') k\<rparr>, None)
           | (list', Some e) \<Rightarrow>
               (I\<lparr>idle := (let c' = lru_assign LR c k list' in if list' = [] then lru_pop LR c' k else c')\<rparr>, Some e)))"

definition push_waiter :: "'k \<Rightarrow> nat \<Rightarrow> ('c, 'k) PoolInner \<Rightarrow> ('c, 'k) PoolInner" where
  "push_waiter k tx I =
     I\<lparr>waiters := (waiters I)(k \<mapsto> (case waiters I k of None \<Rightarrow> [] | Some ws \<Rightarrow> ws) @ [tx])\<rparr>"

text \<open>
  \<^verbatim>\<open>Checkout::checkout\<close> on an enabled pool, in its two sections. The first holds the lock: it takes an idle
  connection, or puts the sender of a new channel into the queue. The second comes after the lock has been
  dropped: it polls the receiver, which is still a local variable, to register the task; the \<^verbatim>\<open>assert!\<close> that
  this finds nothing is the \<^const>\<open>None\<close> case.
\<close>

definition checkout ::
  "('s, 'v) oneshot_ops \<Rightarrow> ('c, 'k, 'v) cache_ops \<Rightarrow> 'v poolable \<Rightarrow> nat \<Rightarrow> 'k Checkout \<Rightarrow>
   ('c, 'k) PoolInner \<times> 's \<Rightarrow> (('c, 'k) PoolInner \<times> 's) \<times> ('v, 'k) Pooled option \<times> nat option" where
  "checkout OS LR P now co = (\<lambda>(I, s).
     case take_idle LR P now (cokey co) I of
       (I', Some e) \<Rightarrow> ((I', s), Some (reuse P True (cokey co) (ivalue e)), None)
     | (I', None) \<Rightarrow>
         if cowaiter co = None
         then case os_channel OS s of (tx, s') \<Rightarrow> ((push_waiter (cokey co) tx I', s'), None, Some tx)
         else ((I', s), None, None))"

definition checkout_register :: "('s, 'v) oneshot_ops \<Rightarrow> 'k Checkout \<Rightarrow> nat \<Rightarrow> 's \<Rightarrow> 's \<times> 'k Checkout option" where
  "checkout_register OS co rx s =
     (case os_poll OS s rx of
        (s', Pending) \<Rightarrow> (s', Some (co\<lparr>cowaiter := Some rx\<rparr>))
      | (s', Ready _) \<Rightarrow> (s', None))"

text \<open>\<^verbatim>\<open>Future for Checkout\<close>, up to the result or to the second section of \<^verbatim>\<open>checkout\<close> with its receiver, after which
  the result is \<^const>\<open>Pending\<close>.\<close>

datatype ('v, 'k) checkout_poll = PollDone "(pool_error + ('v, 'k) Pooled) poll" | PollRegister nat

definition poll_checkout ::
  "('s, 'v) oneshot_ops \<Rightarrow> ('c, 'k, 'v) cache_ops \<Rightarrow> 'v poolable \<Rightarrow> nat \<Rightarrow> 'k Checkout \<Rightarrow>
   ('c, 'k) PoolInner option \<times> 's \<Rightarrow>
   'k Checkout \<times> (('c, 'k) PoolInner option \<times> 's) \<times> ('v, 'k) checkout_poll" where
  "poll_checkout OS LR P now co = (\<lambda>(pool, s).
     case poll_waiter OS P (pool \<noteq> None) co s of
       (co', s', Pending) \<Rightarrow> (co', (pool, s'), PollDone Pending)
     | (co', s', Ready (Some r)) \<Rightarrow> (co', (pool, s'), PollDone (Ready r))
     | (co', s', Ready None) \<Rightarrow>
         (case pool of
            None \<Rightarrow> (co', (None, s'), PollDone (Ready (Inl PoolDisabled)))
          | Some I \<Rightarrow>
              (case checkout OS LR P now co' (I, s') of
                 ((I', s''), Some pd, _) \<Rightarrow> (co', (Some I', s''), PollDone (Ready (Inr pd)))
               | ((I', s''), None, Some rx) \<Rightarrow> (co', (Some I', s''), PollRegister rx)
               | ((I', s''), None, None) \<Rightarrow> (co', (Some I', s''), PollDone Pending))))"

definition clean_waiters ::
  "('s, 'v) oneshot_ops \<Rightarrow> 'k \<Rightarrow> ('c, 'k) PoolInner \<times> 's \<Rightarrow> ('c, 'k) PoolInner \<times> 's" where
  "clean_waiters OS k = (\<lambda>(I, s).
     case waiters I k of
       None \<Rightarrow> (I, s)
     | Some ws \<Rightarrow> (set_waiters k (filter (\<lambda>tx. \<not> os_is_closed OS s tx) ws) I,
                   fold (\<lambda>c s. os_drop_tx OS s c) (filter (os_is_closed OS s) ws) s))"

text \<open>\<^verbatim>\<open>Drop for Checkout\<close>: the receiver goes first, without the lock; the key whose queue is to be cleaned, if any, is
  the work left for the section that holds the lock, \<^const>\<open>clean_waiters\<close>.\<close>

definition drop_checkout :: "('s, 'v) oneshot_ops \<Rightarrow> 'k Checkout \<Rightarrow> 's \<Rightarrow> 's \<times> 'k option" where
  "drop_checkout OS co s =
     (case cowaiter co of
        None \<Rightarrow> (s, None)
      | Some rx \<Rightarrow> (os_drop_rx OS s rx, Some (cokey co)))"

section \<open>The idle task\<close>

definition keep_entry :: "'v poolable \<Rightarrow> nat \<Rightarrow> nat \<Rightarrow> 'v Idle \<Rightarrow> bool" where
  "keep_entry P dur now entry \<longleftrightarrow> is_open P (ivalue entry) \<and> \<not> dur < now - idle_at entry"

text \<open>\<open>None\<close> when the \<^verbatim>\<open>expect\<close> on the timeout panics.\<close>

definition clear_expired ::
  "('c, 'k, 'v) cache_ops \<Rightarrow> 'v poolable \<Rightarrow> nat \<Rightarrow> ('c, 'k) PoolInner \<Rightarrow> ('c, 'k) PoolInner option" where
  "clear_expired LR P now I =
     (case timeout I of
        None \<Rightarrow> None
      | Some dur \<Rightarrow>
          (case lru_iter_mut LR (idle I) (filter (keep_entry P dur now)) of
             (c, visited) \<Rightarrow>
               let keys_to_remove = map fst (filter (\<lambda>(k, values). values = []) visited)
               in Some (I\<lparr>idle := fold (\<lambda>k c. lru_pop LR c k) keys_to_remove c\<rparr>)))"

record IdleTask =
  task_duration :: nat
  task_deadline :: nat

definition next_deadline :: "nat \<Rightarrow> IdleTask \<Rightarrow> IdleTask" where
  "next_deadline now t =
     (let d = task_deadline t + task_duration t
      in t\<lparr>task_deadline := if d < now - 5000000 then now + task_duration t else d\<rparr>)"

text \<open>\<^verbatim>\<open>Future for IdleTask\<close> while the pool is alive: the timer fires when the clock has reached the deadline. The loop
  goes on until the timer is pending; \<open>None\<close> if it never is.\<close>

partial_function (option) idle_task_poll ::
  "('c, 'k, 'v) cache_ops \<Rightarrow> 'v poolable \<Rightarrow> nat \<Rightarrow> IdleTask \<Rightarrow> ('c, 'k) PoolInner \<Rightarrow>
   (IdleTask \<times> ('c, 'k) PoolInner) option" where
  "idle_task_poll LR P now t I =
     (if now < task_deadline t then Some (t, I)
      else case clear_expired LR P now I of
             None \<Rightarrow> None
           | Some I' \<Rightarrow> idle_task_poll LR P now (next_deadline now t) I')"

end
