(* ===== verification/Pool_Sys.thy ===== *)
theory Pool_Sys
  imports Pool
begin

text \<open>
  The pool among its users: the tasks that make connections (\<^verbatim>\<open>connect_to\<close> in \<^verbatim>\<open>src/src/core/client/mod.rs\<close>), the
  checkouts of waiting requests, the connections handed out, and the idle task. \<open>pool_step\<close> is the relation of
  their atomic steps on the state \<open>sys\<close>; in each step the clock and which connections are open are arbitrary.
  The invariant \<open>sys_inv\<close> is proved over it once, in the locale \<open>pool_env\<close>, which collects the
  interfaces of the channels, of the cache and of \<^verbatim>\<open>Poolable\<close>.

  The client's own connections, \<^verbatim>\<open>PoolClient\<close>, are an instance of \<^verbatim>\<open>Poolable\<close>.
\<close>

section \<open>What the pool asks of a connection\<close>

locale poolable_laws =
  fixes P :: "'v poolable"
  assumes reserve_shared: "can_share P v \<Longrightarrow> reserve P v = Shared v v"
    and reserve_unique: "\<not> can_share P v \<Longrightarrow> reserve P v = Unique v"

datatype Alpn = H2 | AlpnNone

text \<open>The poison flag is shared between clones: it is named by a number, as the two kinds of senders are.\<close>

record 'x Connected =
  cn_alpn :: Alpn
  cn_is_proxied :: bool
  cn_extra :: "'x option"
  cn_poisoned :: nat

datatype PoolTx = Http1Tx nat | Http2Tx nat

record 'x PoolClient =
  conn_info :: "'x Connected"
  client_tx :: PoolTx

text \<open>What is true of flags and senders at one moment.\<close>

record world =
  w_poisoned :: "nat \<Rightarrow> bool"
  w_h1_ready :: "nat \<Rightarrow> bool"
  w_h2_ready :: "nat \<Rightarrow> bool"

definition client_is_http2 :: "'x PoolClient \<Rightarrow> bool" where
  "client_is_http2 c = (case client_tx c of Http1Tx _ \<Rightarrow> False | Http2Tx _ \<Rightarrow> True)"

definition client_is_http1 :: "'x PoolClient \<Rightarrow> bool" where
  "client_is_http1 c \<longleftrightarrow> \<not> client_is_http2 c"

definition is_poisoned :: "world \<Rightarrow> 'x PoolClient \<Rightarrow> bool" where
  "is_poisoned w c \<longleftrightarrow> w_poisoned w (cn_poisoned (conn_info c))"

definition client_is_ready :: "world \<Rightarrow> 'x PoolClient \<Rightarrow> bool" where
  "client_is_ready w c = (case client_tx c of Http1Tx tx \<Rightarrow> w_h1_ready w tx | Http2Tx tx \<Rightarrow> w_h2_ready w tx)"

definition client_reserve :: "'x PoolClient \<Rightarrow> 'x PoolClient Reservation" where
  "client_reserve c =
     (case client_tx c of
        Http1Tx tx \<Rightarrow> Unique \<lparr>conn_info = conn_info c, client_tx = Http1Tx tx\<rparr>
      | Http2Tx tx \<Rightarrow>
          (let b = \<lparr>conn_info = conn_info c, client_tx = Http2Tx tx\<rparr>;
               a = \<lparr>conn_info = conn_info c, client_tx = Http2Tx tx\<rparr>
           in Shared a b))"

definition client_ops :: "world \<Rightarrow> 'x PoolClient poolable" where
  "client_ops w = \<lparr>is_open = (\<lambda>c. \<not> is_poisoned w c \<and> client_is_ready w c), reserve = client_reserve,
     can_share = client_is_http2\<rparr>"

interpretation client: poolable_laws "client_ops w"
  by unfold_locales
    (auto simp: client_ops_def client_reserve_def client_is_http2_def split: PoolTx.splits)

section \<open>Making a connection\<close>

text \<open>The stages of \<^verbatim>\<open>connect_to\<close> that touch the pool: before connecting, when the transport is there, and when the
  handshake is done. \<open>None\<close> is the error \<^verbatim>\<open>Canceled\<close>.\<close>

definition connect_ver :: "bool \<Rightarrow> Ver \<Rightarrow> Ver" where
  "connect_ver only_http2 config_ver = (if only_http2 then Http2 else config_ver)"

definition connect_alpn ::
  "('s, 'v) oneshot_ops \<Rightarrow> bool \<Rightarrow> Alpn \<Rightarrow> 'k Connecting \<Rightarrow> ('c, 'k) PoolInner option \<times> 's \<Rightarrow>
   (('c, 'k) PoolInner option \<times> 's) \<times> 'k Connecting option" where
  "connect_alpn OS is_ver_h2 alpn cg st =
     (if alpn = H2 \<and> \<not> is_ver_h2 then alpn_h2 OS cg st else (st, Some cg))"

definition connect_is_h2 :: "bool \<Rightarrow> Alpn \<Rightarrow> bool" where
  "connect_is_h2 is_ver_h2 alpn \<longleftrightarrow> is_ver_h2 \<or> alpn = H2"

text \<open>The sender that the handshake gives, and the connection put together from it.\<close>

definition connect_client :: "bool \<Rightarrow> 'x Connected \<Rightarrow> nat \<Rightarrow> 'x PoolClient" where
  "connect_client is_h2 info tx =
     \<lparr>conn_info = info, client_tx = (if is_h2 then Http2Tx tx else Http1Tx tx)\<rparr>"

lemma connect_client_share: "can_share (client_ops w) (connect_client is_h2 info tx) \<longleftrightarrow> is_h2"
  by (simp add: client_ops_def connect_client_def client_is_http2_def)

section \<open>The system\<close>

text \<open>A step is a section that holds the pool's lock, or one that works on a channel only. A task making a connection holds its guard, whether it is to be an HTTP/2 connection as far as it knows, and
  whether its transport is connected.\<close>

record 'k task =
  tk_guard :: "'k Connecting"
  tk_h2 :: bool
  tk_connected :: bool

text \<open>A checkout is kept with the receiver its poll has made and not yet registered, if it stands between the two sections of
  \<^verbatim>\<open>checkout\<close>; \<open>sy_cleaning\<close> has the keys whose queues a dropped checkout has still to clean.\<close>

record ('c, 'k, 'v, 's) sys =
  sy_pool :: "('c, 'k) PoolInner"
  sy_chans :: 's
  sy_tasks :: "'k task list"
  sy_handles :: "('v, 'k) Pooled list"
  sy_checkouts :: "('k Checkout \<times> nat option) list"
  sy_cleaning :: "'k list"

definition at_moment :: "'v poolable \<Rightarrow> ('v \<Rightarrow> bool) \<Rightarrow> 'v poolable" where
  "at_moment P opn = P\<lparr>is_open := opn\<rparr>"

inductive pool_step ::
  "('s, 'v) oneshot_ops \<Rightarrow> ('c, 'k, 'v) cache_ops \<Rightarrow> 'v poolable \<Rightarrow>
   ('c, 'k, 'v, 's) sys \<Rightarrow> ('c, 'k, 'v, 's) sys \<Rightarrow> bool"
  for OS LR P where
  step_connect: "connecting k ver (Some (sy_pool y)) = (Some I, Some cg) \<Longrightarrow>
    pool_step OS LR P y
      (y\<lparr>sy_pool := I, sy_tasks := \<lparr>tk_guard = cg, tk_h2 = (ver = Http2), tk_connected = False\<rparr> # sy_tasks y\<rparr>)"
| step_alpn: "sy_tasks y = ts @ t # us \<Longrightarrow> \<not> tk_connected t \<Longrightarrow>
    connect_alpn OS (tk_h2 t) alpn (tk_guard t) (Some (sy_pool y), sy_chans y) = ((Some I, s), Some cg) \<Longrightarrow>
    pool_step OS LR P y
      (y\<lparr>sy_pool := I, sy_chans := s,
         sy_tasks := ts @ \<lparr>tk_guard = cg, tk_h2 = connect_is_h2 (tk_h2 t) alpn, tk_connected = True\<rparr> # us\<rparr>)"
| step_alpn_canceled: "sy_tasks y = ts @ t # us \<Longrightarrow> \<not> tk_connected t \<Longrightarrow>
    connect_alpn OS (tk_h2 t) alpn (tk_guard t) (Some (sy_pool y), sy_chans y) = ((Some I, s), None) \<Longrightarrow>
    pool_step OS LR P y (y\<lparr>sy_pool := I, sy_chans := s, sy_tasks := ts @ us\<rparr>)"
| step_failed: "sy_tasks y = ts @ t # us \<Longrightarrow> drop_connecting OS (tk_guard t) (sy_pool y, sy_chans y) = (I, s) \<Longrightarrow>
    pool_step OS LR P y (y\<lparr>sy_pool := I, sy_chans := s, sy_tasks := ts @ us\<rparr>)"
| step_pooled: "sy_tasks y = ts @ t # us \<Longrightarrow> tk_connected t \<Longrightarrow> can_share P v \<longleftrightarrow> tk_h2 t \<Longrightarrow>
    pooled OS LR (at_moment P opn) now (tk_guard t) v (Some (sy_pool y), sy_chans y) = ((Some I, s), pd) \<Longrightarrow>
    pool_step OS LR P y (y\<lparr>sy_pool := I, sy_chans := s, sy_tasks := ts @ us, sy_handles := pd # sy_handles y\<rparr>)"
| step_checkout: "pool_step OS LR P y (y\<lparr>sy_checkouts := (pool_checkout k, None) # sy_checkouts y\<rparr>)"
| step_poll_done: "sy_checkouts y = cs @ (co, None) # ds \<Longrightarrow>
    poll_checkout OS LR (at_moment P opn) now co (Some (sy_pool y), sy_chans y) = (co', (Some I, s), PollDone r) \<Longrightarrow>
    pool_step OS LR P y (y\<lparr>sy_pool := I, sy_chans := s, sy_checkouts := cs @ (co', None) # ds,
      sy_handles := (case r of Ready (Inr pd) \<Rightarrow> [pd] | _ \<Rightarrow> []) @ sy_handles y\<rparr>)"
| step_poll_queued: "sy_checkouts y = cs @ (co, None) # ds \<Longrightarrow>
    poll_checkout OS LR (at_moment P opn) now co (Some (sy_pool y), sy_chans y) = (co', (Some I, s), PollRegister rx) \<Longrightarrow>
    pool_step OS LR P y (y\<lparr>sy_pool := I, sy_chans := s, sy_checkouts := cs @ (co', Some rx) # ds\<rparr>)"
| step_register: "sy_checkouts y = cs @ (co, Some rx) # ds \<Longrightarrow> checkout_register OS co rx (sy_chans y) = (s, Some co') \<Longrightarrow>
    pool_step OS LR P y (y\<lparr>sy_chans := s, sy_checkouts := cs @ (co', None) # ds\<rparr>)"
| step_register_panic: "sy_checkouts y = cs @ (co, Some rx) # ds \<Longrightarrow> checkout_register OS co rx (sy_chans y) = (s, None) \<Longrightarrow>
    pool_step OS LR P y (y\<lparr>sy_chans := os_drop_rx OS s rx, sy_checkouts := cs @ ds\<rparr>)"
| step_drop_checkout: "sy_checkouts y = cs @ (co, None) # ds \<Longrightarrow> drop_checkout OS co (sy_chans y) = (s, r) \<Longrightarrow>
    pool_step OS LR P y (y\<lparr>sy_chans := s, sy_checkouts := cs @ ds,
      sy_cleaning := (case r of None \<Rightarrow> [] | Some k \<Rightarrow> [k]) @ sy_cleaning y\<rparr>)"
| step_clean: "sy_cleaning y = ks @ k # js \<Longrightarrow> clean_waiters OS k (sy_pool y, sy_chans y) = (I, s) \<Longrightarrow>
    pool_step OS LR P y (y\<lparr>sy_pool := I, sy_chans := s, sy_cleaning := ks @ js\<rparr>)"
| step_drop_pooled: "sy_handles y = hs @ pd # js \<Longrightarrow>
    drop_pooled OS LR (at_moment P opn) now pd (sy_pool y, sy_chans y) = (I, s) \<Longrightarrow>
    pool_step OS LR P y (y\<lparr>sy_pool := I, sy_chans := s, sy_handles := hs @ js\<rparr>)"
| step_clear: "clear_expired LR (at_moment P opn) now (sy_pool y) = Some I \<Longrightarrow>
    pool_step OS LR P y (y\<lparr>sy_pool := I\<rparr>)"

text \<open>The start: a new pool and nobody using it.\<close>

definition sys_start :: "('c, 'k) PoolInner \<Rightarrow> 's \<Rightarrow> ('c, 'k, 'v, 's) sys" where
  "sys_start I s = \<lparr>sy_pool = I, sy_chans = s, sy_tasks = [], sy_handles = [], sy_checkouts = [], sy_cleaning = []\<rparr>"

end
