(* ===== verification/Core_Client.thy ===== *)
theory Core_Client
  imports Core_Request Pool_Sys
begin

text \<open>
  The core client (\<^verbatim>\<open>src/src/core/client/mod.rs\<close>): checking a request, getting a connection for it, completing its head for
  that connection, and trying again when a connection taken from the pool turns out to be dead. Connecting, the pool and the
  connections themselves are in other theories; here an attempt is what came of them (\<open>attempt\<close>).
\<close>

section \<open>Errors\<close>

record 'x client_err =
  ce_kind :: ErrorKind
  ce_connect_info :: "'x Connected option"

definition new_client_err :: "ErrorKind \<Rightarrow> 'x client_err" where
  "new_client_err k = \<lparr>ce_kind = k, ce_connect_info = None\<rparr>"

definition with_connect_info :: "'x client_err \<Rightarrow> 'x Connected \<Rightarrow> 'x client_err" where
  "with_connect_info e info = e\<lparr>ce_connect_info := Some info\<rparr>"

definition client_err_is_connect :: "'x client_err \<Rightarrow> bool" where
  "client_err_is_connect e \<longleftrightarrow> ce_kind e = ErrConnect"

definition client_err_is_canceled :: "'x client_err \<Rightarrow> bool" where
  "client_err_is_canceled e \<longleftrightarrow> ce_kind e = ErrCanceled"

datatype 'x ClientConnectError = Normal "'x client_err" | CheckoutIsClosed pool_error

record core_config =
  retry_canceled_requests :: bool
  cfg_set_host :: bool
  cfg_ver :: Ver

definition default_core_config :: core_config where
  "default_core_config = \<lparr>retry_canceled_requests = True, cfg_set_host = True, cfg_ver = Auto\<rparr>"

section \<open>Getting a connection\<close>

text \<open>The race of \<^verbatim>\<open>future::select(checkout, connect)\<close>: which of the two finishes first and with what; the other one
  is only waited for in the branches that need it.\<close>

datatype ('x, 'p) race = CheckoutFirst "pool_error + 'p" | ConnectFirst "'x client_err + 'p"

definition one_connection_for ::
  "core_config \<Rightarrow> bool \<Rightarrow> ('x, 'p) race \<Rightarrow> 'x client_err + 'p \<Rightarrow> pool_error + 'p \<Rightarrow> 'x ClientConnectError + 'p" where
  "one_connection_for cfg pool_enabled first later_connect later_checkout =
     (if \<not> pool_enabled then map_sum Normal id later_connect
      else let is_ver_h2 = (cfg_ver cfg = Http2)
           in case first of
                CheckoutFirst (Inr c) \<Rightarrow> Inr c
              | ConnectFirst (Inr c) \<Rightarrow> Inr c
              | CheckoutFirst (Inl err) \<Rightarrow>
                  if pool_error_is_canceled err then map_sum Normal id later_connect else Inl (Normal (new_client_err ErrConnect))
              | ConnectFirst (Inl err) \<Rightarrow>
                  if client_err_is_canceled err
                  then map_sum (\<lambda>err. if is_ver_h2 \<and> pool_error_is_canceled err then CheckoutIsClosed err
                                      else Normal (new_client_err ErrConnect)) id later_checkout
                  else Inl (Normal err))"

partial_function (option) connection_for ::
  "core_config \<Rightarrow> (nat \<Rightarrow> 'x ClientConnectError + 'p) \<Rightarrow> nat \<Rightarrow> ('x client_err + 'p) option" where
  "connection_for cfg rounds i =
     (case rounds i of
        Inr p \<Rightarrow> Some (Inr p)
      | Inl (Normal err) \<Rightarrow> Some (Inl err)
      | Inl (CheckoutIsClosed reason) \<Rightarrow>
          if \<not> retry_canceled_requests cfg then Some (Inl (new_client_err ErrConnect))
          else connection_for cfg rounds (Suc i))"

section \<open>Sending a request\<close>

text \<open>The value of a \<^verbatim>\<open>Host\<close> header.\<close>

definition host_value :: "('m, 'z) http_lib_scheme \<Rightarrow> 'u uri_lib \<Rightarrow> 'u \<Rightarrow> header_value option" where
  "host_value H U uri =
     (case uri_host U uri of
        None \<Rightarrow> None
      | Some hostname \<Rightarrow>
          (case get_non_default_port U uri of
             Some port \<Rightarrow> hv_from_bytes H (hostname @ '':'' @ port)
           | None \<Rightarrow> hv_from_bytes H hostname))"

definition set_host_header ::
  "('m, 'z) http_lib_scheme \<Rightarrow> 'u uri_lib \<Rightarrow> bool \<Rightarrow> ('u, 'm, 'b) core_request \<Rightarrow> ('u, 'm, 'b) core_request option" where
  "set_host_header H U set_host rq =
     (if \<not> set_host \<or> hm_contains_key H (cr_headers rq) ''host'' then Some rq
      else map_option (\<lambda>v. rq\<lparr>cr_headers := hm_insert H ''host'' v (cr_headers rq)\<rparr>) (host_value H U (cr_uri rq)))"

definition request_target :: "'u uri_lib \<Rightarrow> bool \<Rightarrow> http_method \<Rightarrow> 'u \<Rightarrow> 'u option" where
  "request_target U is_proxied m uri =
     (if m = CONNECT then authority_form U uri else if is_proxied then absolute_form U uri else origin_form U uri)"

text \<open>The part of \<^verbatim>\<open>try_send_request\<close> before the request is given to the connection.\<close>

definition prepare_request ::
  "('m, 'z) http_lib_scheme \<Rightarrow> 'u uri_lib \<Rightarrow> core_config \<Rightarrow> 'x PoolClient \<Rightarrow> ('u, 'm, 'b) core_request \<Rightarrow>
   ('x client_err + ('u, 'm, 'b) core_request) option" where
  "prepare_request H U cfg pc rq =
     (if client_is_http1 pc
      then if cr_version rq = HTTP_2
           then Some (Inl (with_connect_info (new_client_err UserUnsupportedVersion) (conn_info pc)))
           else case set_host_header H U (cfg_set_host cfg) rq of
                  None \<Rightarrow> None
                | Some rq \<Rightarrow>
                    map_option (\<lambda>uri. Inr (rq\<lparr>cr_uri := uri\<rparr>))
                      (request_target U (cn_is_proxied (conn_info pc)) (cr_method rq) (cr_uri rq))
      else if cr_method rq = CONNECT \<and> \<not> client_is_http2 pc
      then map_option (\<lambda>uri. Inr (rq\<lparr>cr_uri := uri\<rparr>)) (authority_form U (cr_uri rq))
      else Some (Inr rq))"

text \<open>An attempt: the connection it got, with whether it was used before, and what the connection does with the request: an error,
  perhaps with the request given back, or a response.\<close>

record ('u, 'm, 'b, 'x, 'r) attempt =
  at_connection :: "'x client_err + 'x PoolClient \<times> bool"
  at_send :: "('u, 'm, 'b) core_request \<Rightarrow> core_error \<times> ('u, 'm, 'b) core_request option + 'r"

datatype ('u, 'm, 'b, 'x, 'r) try_result =
    TryOk 'r
  | Retryable "'x client_err" "('u, 'm, 'b) core_request" bool
  | Nope "'x client_err"

text \<open>What becomes of the connection once there is a response: it is dropped, that is given back to the pool, at once, or
  by a task that waits until it is ready.\<close>

datatype release = DropNow | WhenReady

definition release_pooled :: "'x PoolClient \<Rightarrow> bool \<Rightarrow> bool \<Rightarrow> bool \<Rightarrow> release" where
  "release_pooled pc pool_enabled ready body_ended =
     (if client_is_http2 pc \<or> \<not> pool_enabled \<or> ready then DropNow
      else if \<not> body_ended then WhenReady
      else WhenReady)"

text \<open>The second component lists what was put on the connection.\<close>

definition try_send_request ::
  "('m, 'z) http_lib_scheme \<Rightarrow> 'u uri_lib \<Rightarrow> core_config \<Rightarrow> ('u, 'm, 'b, 'x, 'r) attempt \<Rightarrow> ('u, 'm, 'b) core_request \<Rightarrow>
   (('u, 'm, 'b, 'x, 'r) try_result \<times> ('x PoolClient \<times> ('u, 'm, 'b) core_request) list) option" where
  "try_send_request H U cfg att rq =
     (case at_connection att of
        Inl e \<Rightarrow> Some (Nope e, [])
      | Inr (pc, reused) \<Rightarrow>
          (case prepare_request H U cfg pc rq of
             None \<Rightarrow> None
           | Some (Inl e) \<Rightarrow> Some (Nope e, [])
           | Some (Inr rq) \<Rightarrow>
               Some (case at_send att rq of
                       Inr res \<Rightarrow> TryOk res
                     | Inl (err, Some rq) \<Rightarrow> Retryable (with_connect_info (new_client_err ErrCanceled) (conn_info pc)) rq reused
                     | Inl (err, None) \<Rightarrow> Nope (with_connect_info (new_client_err ErrSendRequest) (conn_info pc)),
                     [(pc, rq)])))"

partial_function (option) send_request ::
  "('m, 'z) http_lib_scheme \<Rightarrow> 'u uri_lib \<Rightarrow> core_config \<Rightarrow> 'u \<Rightarrow> (nat \<Rightarrow> ('u, 'm, 'b, 'x, 'r) attempt) \<Rightarrow> nat \<Rightarrow>
   ('u, 'm, 'b) core_request \<Rightarrow> ('x PoolClient \<times> ('u, 'm, 'b) core_request) list \<Rightarrow>
   (('x client_err + 'r) \<times> ('x PoolClient \<times> ('u, 'm, 'b) core_request) list) option" where
  "send_request H U cfg uri atts i rq trail =
     (case try_send_request H U cfg (atts i) rq of
        None \<Rightarrow> None
      | Some (t, now) \<Rightarrow>
          (case t of
             TryOk res \<Rightarrow> Some (Inr res, trail @ now)
           | Nope err \<Rightarrow> Some (Inl err, trail @ now)
           | Retryable err rq' reused \<Rightarrow>
               if \<not> retry_canceled_requests cfg \<or> \<not> reused then Some (Inl err, trail @ now)
               else send_request H U cfg uri atts (Suc i) (rq'\<lparr>cr_uri := uri\<rparr>) (trail @ now)))"

text \<open>\<^verbatim>\<open>Client::request\<close>: the checks, and the destination.\<close>

definition check_request ::
  "'u uri_lib \<Rightarrow> (string \<Rightarrow> nat option) \<Rightarrow> ('u, 'm, 'b) InnerRequest \<Rightarrow>
   ('x client_err + ('u, 'm, 'b) core_request \<times> ('u, 'm) PoolKey) option" where
  "check_request U auth_port ir =
     (let rq = ir_request ir; is_http_connect = (cr_method rq = CONNECT)
      in if cr_version rq = HTTP_10 \<and> is_http_connect then Some (Inl (new_client_err UserUnsupportedRequestMethod))
         else if cr_version rq \<notin> {HTTP_10, HTTP_11, HTTP_2} then Some (Inl (new_client_err UserUnsupportedVersion))
         else map_option (\<lambda>(uri, d). case d of Inl k \<Rightarrow> Inl (new_client_err k) | Inr key \<Rightarrow> Inr (rq\<lparr>cr_uri := uri\<rparr>, key))
                (dst_new U auth_port (cr_uri rq) is_http_connect (ir_network ir) (ir_version ir)))"

definition client_request ::
  "('m, 'z) http_lib_scheme \<Rightarrow> 'u uri_lib \<Rightarrow> (string \<Rightarrow> nat option) \<Rightarrow> core_config \<Rightarrow>
   (('u, 'm) PoolKey \<Rightarrow> nat \<Rightarrow> ('u, 'm, 'b, 'x, 'r) attempt) \<Rightarrow> ('u, 'm, 'b) InnerRequest \<Rightarrow>
   (('x client_err + 'r) \<times> ('x PoolClient \<times> ('u, 'm, 'b) core_request) list) option" where
  "client_request H U auth_port cfg atts ir =
     (case check_request U auth_port ir of
        None \<Rightarrow> None
      | Some (Inl e) \<Rightarrow> Some (Inl e, [])
      | Some (Inr (rq, key)) \<Rightarrow> send_request H U cfg (cr_uri rq) (atts key) 0 rq [])"

section \<open>What reaches a connection\<close>

text \<open>The request on a connection against the request of the call: same method, version and body, same headers but for the host, the
  target in the form the connection needs, and on HTTP/1 a host, the user's or that of the URI.\<close>

definition carries ::
  "('m, 'z) http_lib_scheme \<Rightarrow> 'u uri_lib \<Rightarrow> core_config \<Rightarrow> ('u, 'm, 'b) core_request \<Rightarrow> 'x PoolClient \<Rightarrow> ('u, 'm, 'b) core_request \<Rightarrow> bool" where
  "carries H U cfg rq0 pc rq \<longleftrightarrow>
     cr_method rq = cr_method rq0 \<and> cr_version rq = cr_version rq0 \<and> cr_body rq = cr_body rq0 \<and>
     (\<forall>k. k \<noteq> ''host'' \<longrightarrow> hm_get_all H (cr_headers rq) k = hm_get_all H (cr_headers rq0) k) \<and>
     (if client_is_http1 pc
      then request_target U (cn_is_proxied (conn_info pc)) (cr_method rq0) (cr_uri rq0) = Some (cr_uri rq) \<and>
        cr_version rq0 \<noteq> HTTP_2 \<and>
        (cfg_set_host cfg \<longrightarrow>
           (if hm_contains_key H (cr_headers rq0) ''host'' then hm_get_all H (cr_headers rq) ''host'' = hm_get_all H (cr_headers rq0) ''host''
            else \<exists>v. host_value H U (cr_uri rq0) = Some v \<and> hm_get_all H (cr_headers rq) ''host'' = [v]))
      else cr_uri rq = cr_uri rq0)"

text \<open>A request about to be tried again: it is the request of the call, perhaps with the host added by an attempt before.\<close>

definition still_same ::
  "('m, 'z) http_lib_scheme \<Rightarrow> 'u uri_lib \<Rightarrow> core_config \<Rightarrow> ('u, 'm, 'b) core_request \<Rightarrow> ('u, 'm, 'b) core_request \<Rightarrow> bool" where
  "still_same H U cfg rq0 rq \<longleftrightarrow>
     cr_method rq = cr_method rq0 \<and> cr_version rq = cr_version rq0 \<and> cr_body rq = cr_body rq0 \<and> cr_uri rq = cr_uri rq0 \<and>
     (\<forall>k. k \<noteq> ''host'' \<longrightarrow> hm_get_all H (cr_headers rq) k = hm_get_all H (cr_headers rq0) k) \<and>
     (hm_get_all H (cr_headers rq) ''host'' = hm_get_all H (cr_headers rq0) ''host'' \<or>
      \<not> hm_contains_key H (cr_headers rq0) ''host'' \<and>
        (\<exists>v. host_value H U (cr_uri rq0) = Some v \<and> hm_get_all H (cr_headers rq) ''host'' = [v]))"

context http_laws
begin

lemma set_host_same:
  assumes "still_same H U cfg rq0 rq" and "set_host_header H U sh rq = Some rq'"
  shows "still_same H U cfg rq0 rq' \<and>
    (sh \<longrightarrow> (if hm_contains_key H (cr_headers rq0) ''host'' then hm_get_all H (cr_headers rq') ''host'' = hm_get_all H (cr_headers rq0) ''host''
            else \<exists>v. host_value H U (cr_uri rq0) = Some v \<and> hm_get_all H (cr_headers rq') ''host'' = [v]))"
  using assms
  by (auto simp: still_same_def set_host_header_def hm_contains_key_def get_all_insert split: if_splits)

lemma prepare_carries:
  assumes "still_same H U cfg rq0 rq" and "prepare_request H U cfg pc rq = Some (Inr rq')"
  shows "carries H U cfg rq0 pc rq' \<and> still_same H U cfg rq0 (rq'\<lparr>cr_uri := cr_uri rq0\<rparr>)"
proof (cases "client_is_http1 pc")
  case False
  then have "rq' = rq" using assms(2) by (auto simp: prepare_request_def client_is_http1_def)
  then show ?thesis using assms(1) False by (simp add: carries_def still_same_def)
next
  case True
  with assms(2) obtain rq1 uri where r: "cr_version rq \<noteq> HTTP_2" "set_host_header H U (cfg_set_host cfg) rq = Some rq1"
    "request_target U (cn_is_proxied (conn_info pc)) (cr_method rq1) (cr_uri rq1) = Some uri" "rq' = rq1\<lparr>cr_uri := uri\<rparr>"
    by (auto simp: prepare_request_def split: if_splits option.splits)
  note s = set_host_same [OF assms(1) r(2)]
  have "still_same H U cfg rq0 rq1" using s by simp
  then have "still_same H U cfg rq0 (rq'\<lparr>cr_uri := cr_uri rq0\<rparr>)" by (simp add: r(4) still_same_def)
  moreover have "carries H U cfg rq0 pc rq'"
    using s r True assms(1) unfolding carries_def still_same_def by simp
  ultimately show ?thesis by simp
qed

end

text \<open>What a run of the loop trail_appends to the list of what was put on connections.\<close>

definition retried ::
  "core_config \<Rightarrow> (nat \<Rightarrow> ('u, 'm, 'b, 'x, 'r) attempt) \<Rightarrow> nat \<Rightarrow> 'x PoolClient \<times> ('u, 'm, 'b) core_request \<Rightarrow> bool" where
  "retried cfg atts i p \<longleftrightarrow> retry_canceled_requests cfg \<and> at_connection (atts i) = Inr (fst p, True) \<and>
     (\<exists>e. at_send (atts i) (snd p) = Inl (e, Some (snd p)))"

definition gives_back :: "('u, 'm, 'b, 'x, 'r) attempt \<Rightarrow> bool" where
  "gives_back att \<longleftrightarrow> (\<forall>rq e m. at_send att rq = Inl (e, Some m) \<longrightarrow> m = rq)"

definition trail_appends ::
  "('m, 'z) http_lib_scheme \<Rightarrow> 'u uri_lib \<Rightarrow> core_config \<Rightarrow> (nat \<Rightarrow> ('u, 'm, 'b, 'x, 'r) attempt) \<Rightarrow> ('u, 'm, 'b) core_request \<Rightarrow> nat \<Rightarrow>
   ('x PoolClient \<times> ('u, 'm, 'b) core_request) list \<Rightarrow> ('x PoolClient \<times> ('u, 'm, 'b) core_request) list \<Rightarrow> bool" where
  "trail_appends H U cfg atts rq0 i trail trail' \<longleftrightarrow>
     (\<exists>new. trail' = trail @ new \<and> (\<forall>p\<in>set new. carries H U cfg rq0 (fst p) (snd p)) \<and>
        (\<forall>j. Suc j < length new \<longrightarrow> retried cfg atts (i + j) (new ! j)))"

lemma trail_appends_Cons:
  assumes "trail_appends H U cfg atts rq0 (Suc i) (trail @ [p]) trail'" and "carries H U cfg rq0 (fst p) (snd p)" and "retried cfg atts i p"
  shows "trail_appends H U cfg atts rq0 i trail trail'"
proof -
  from assms(1) obtain new where n: "trail' = (trail @ [p]) @ new" "\<forall>q\<in>set new. carries H U cfg rq0 (fst q) (snd q)"
    "\<And>j. Suc j < length new \<Longrightarrow> retried cfg atts (Suc i + j) (new ! j)"
    by (auto simp: trail_appends_def)
  have "retried cfg atts (i + j) ((p # new) ! j)" if "Suc j < length (p # new)" for j
    using that n(3) [of "j - 1"] assms(3) by (cases j) simp_all
  with n(1,2) assms(2) show ?thesis unfolding trail_appends_def by (intro exI [of _ "p # new"]) auto
qed

lemma try_send_sent:
  assumes "http_laws H" and "try_send_request H U cfg att rq = Some (t, now)" and "still_same H U cfg rq0 rq" and "gives_back att"
  shows "(now = [] \<and> (\<exists>e. t = Nope e)) \<or>
    (\<exists>pc reused rq'. now = [(pc, rq')] \<and> carries H U cfg rq0 pc rq' \<and> at_connection att = Inr (pc, reused) \<and>
       (\<forall>err rq2 b. t = Retryable err rq2 b \<longrightarrow> b = reused \<and> rq2 = rq' \<and> still_same H U cfg rq0 (rq2\<lparr>cr_uri := cr_uri rq0\<rparr>) \<and>
          (\<exists>e. at_send att rq' = Inl (e, Some rq'))))"
proof (cases "at_connection att")
  case (Inl e)
  then show ?thesis using assms(2) by (auto simp: try_send_request_def)
next
  case (Inr c)
  obtain pc reused where c: "c = (pc, reused)" by (rule prod.exhaust)
  from assms(2) Inr c obtain pr where pr: "prepare_request H U cfg pc rq = Some pr"
    by (auto simp: try_send_request_def split: option.splits)
  show ?thesis
  proof (cases pr)
    case (Inl e)
    then show ?thesis using assms(2) Inr c pr by (auto simp: try_send_request_def)
  next
    case r: (Inr rq')
    from http_laws.prepare_carries [OF assms(1,3)] pr r have ca: "carries H U cfg rq0 pc rq'" "still_same H U cfg rq0 (rq'\<lparr>cr_uri := cr_uri rq0\<rparr>)"
      by blast+
    have "now = [(pc, rq')]" using assms(2) Inr c pr r by (auto simp: try_send_request_def)
    moreover have "b = reused \<and> rq2 = rq' \<and> (\<exists>e. at_send att rq' = Inl (e, Some rq'))" if "t = Retryable err rq2 b" for err rq2 b
      using assms(2,4) Inr c pr r that unfolding try_send_request_def gives_back_def
      by (auto split: sum.splits option.splits prod.splits)
    ultimately show ?thesis using ca Inr c by blast
  qed
qed

lemma send_request_appends:
  assumes "send_request H U cfg (cr_uri rq0) atts i rq trail = Some (res, trail')" and "http_laws H"
    and "\<And>i. gives_back (atts i)" and "still_same H U cfg rq0 rq"
  shows "trail_appends H U cfg atts rq0 i trail trail'"
proof -
  let ?P = "\<lambda>H' U' cfg' uri atts' i rq trail y. H' = H \<longrightarrow> U' = U \<longrightarrow> cfg' = cfg \<longrightarrow> uri = cr_uri rq0 \<longrightarrow> atts' = atts \<longrightarrow>
    still_same H U cfg rq0 rq \<longrightarrow> trail_appends H U cfg atts rq0 i trail (snd y)"
  have "?P H U cfg (cr_uri rq0) atts i rq trail (res, trail')"
  proof (rule send_request.raw_induct [where P = ?P, rotated], rule assms(1))
    fix loop H' U' cfg' uri atts' i rq trail y
    assume IH: "\<And>H' U' cfg' uri atts' i rq trail y. loop H' U' cfg' uri atts' i rq trail = Some y \<Longrightarrow> ?P H' U' cfg' uri atts' i rq trail y"
      and body: "(case try_send_request H' U' cfg' (atts' i) rq of None \<Rightarrow> None
         | Some (TryOk res, now) \<Rightarrow> Some (Inr res, trail @ now)
         | Some (Retryable err rq' reused, now) \<Rightarrow>
             if \<not> retry_canceled_requests cfg' \<or> \<not> reused then Some (Inl err, trail @ now)
             else loop H' U' cfg' uri atts' (Suc i) (rq'\<lparr>cr_uri := uri\<rparr>) (trail @ now)
         | Some (Nope err, now) \<Rightarrow> Some (Inl err, trail @ now)) = Some y"
    show "?P H' U' cfg' uri atts' i rq trail y"
    proof (intro impI)
      assume e: "H' = H" "U' = U" "cfg' = cfg" "uri = cr_uri rq0" "atts' = atts" and same: "still_same H U cfg rq0 rq"
      from body e obtain t now where t: "try_send_request H U cfg (atts i) rq = Some (t, now)" by (auto split: option.splits)
      note ts = try_send_sent [OF assms(2) t same assms(3)]
      have fin: "trail_appends H U cfg atts rq0 i trail (trail @ now)" unfolding trail_appends_def using ts by (intro exI [of _ now]) auto
      show "trail_appends H U cfg atts rq0 i trail (snd y)"
      proof (cases "\<exists>err rq'. t = Retryable err rq' True \<and> retry_canceled_requests cfg")
        case False
        then have "snd y = trail @ now" using body e t by (auto split: try_result.splits if_splits)
        with fin show ?thesis by simp
      next
        case True
        then obtain err rq' where r: "t = Retryable err rq' True" "retry_canceled_requests cfg" by blast
        with ts obtain pc where p: "now = [(pc, rq')]" "carries H U cfg rq0 pc rq'" "at_connection (atts i) = Inr (pc, True)"
          "still_same H U cfg rq0 (rq'\<lparr>cr_uri := cr_uri rq0\<rparr>)" "\<exists>e. at_send (atts i) rq' = Inl (e, Some rq')" by auto
        from body e t r have "loop H U cfg (cr_uri rq0) atts (Suc i) (rq'\<lparr>cr_uri := cr_uri rq0\<rparr>) (trail @ [(pc, rq')]) = Some y"
          by (simp add: p(1))
        from IH [OF this] p(4) have "trail_appends H U cfg atts rq0 (Suc i) (trail @ [(pc, rq')]) (snd y)" by simp
        from trail_appends_Cons [OF this] p r(2) show ?thesis by (simp add: retried_def)
      qed
    qed
  qed
  with assms(4) show ?thesis by simp
qed

section \<open>Properties\<close>

text \<open>C16. Whatever happens to the connections, a call puts the same request on each of them: method, version, body and headers are those of the
  call, the target is in authority form for CONNECT, absolute for a plain request through a proxy and in origin form
  otherwise, and on HTTP/1 there is exactly the user's host or else that of the URI. Another attempt is only made when the
  connection came from the pool, it gave the request back, and retrying is enabled.\<close>
theorem attempts_carry_request:
  fixes atts :: "('u, 'm) PoolKey \<Rightarrow> nat \<Rightarrow> ('u, 'm, 'b, 'x, 'r) attempt"
  assumes "http_laws H" and "check_request U auth_port ir = Some (Inr (rq0, key) :: 'x client_err + _)" and "\<And>i. gives_back (atts key i)"
    and "client_request H U auth_port cfg atts ir = Some (res, trail)"
  shows "(\<forall>p\<in>set trail. carries H U cfg rq0 (fst p) (snd p)) \<and>
    (\<forall>j. Suc j < length trail \<longrightarrow> retried cfg (atts key) j (trail ! j))"
proof -
  have "send_request H U cfg (cr_uri rq0) (atts key) 0 rq0 [] = Some (res, trail)"
    using assms(2,4) by (simp add: client_request_def)
  moreover have "still_same H U cfg rq0 rq0" by (simp add: still_same_def)
  ultimately have "trail_appends H U cfg (atts key) rq0 0 [] trail" by (rule send_request_appends [OF _ assms(1,3)])
  then show ?thesis by (auto simp: trail_appends_def)
qed

text \<open>An example: the connection from the pool is dead and gives the request back, the next one is new and goes through a proxy.\<close>

definition proxied_client :: "bool \<Rightarrow> unit PoolClient" where
  "proxied_client p = \<lparr>conn_info = \<lparr>cn_alpn = AlpnNone, cn_is_proxied = p, cn_extra = None, cn_poisoned = 0\<rparr>, client_tx = Http1Tx 0\<rparr>"

definition dead_then_proxied :: "nat \<Rightarrow> (uri_parts, assoc_map, unit, unit, nat) attempt" where
  "dead_then_proxied i =
     (if i = 0 then \<lparr>at_connection = Inr (proxied_client False, True), at_send = (\<lambda>rq. Inl (new_canceled, Some rq))\<rparr>
      else \<lparr>at_connection = Inr (proxied_client True, False), at_send = (\<lambda>rq. Inr 200)\<rparr>)"

definition get_page :: "(uri_parts, assoc_map, unit) InnerRequest" where
  "get_page = \<lparr>ir_request = \<lparr>cr_method = GET, cr_uri = site_uri ''/x'', cr_version = HTTP_11, cr_headers = [], cr_body = ()\<rparr>,
     ir_version = None, ir_network = DefaultScheme\<rparr>"

text \<open>Witness of C16: the request is sent twice, first in origin form and then in absolute form.\<close>
theorem attempts_carry_request_witness:
  "\<exists>res trail. client_request assoc_http plain_uri (\<lambda>_. None) default_core_config (\<lambda>_. dead_then_proxied) get_page = Some (res, trail) \<and>
     map (\<lambda>p. up_path (cr_uri (snd p))) trail = [Some ''/x'', Some ''/x''] \<and> map (\<lambda>p. up_scheme (cr_uri (snd p))) trail = [None, Some ''http''] \<and>
     carries assoc_http plain_uri default_core_config (ir_request get_page) (fst (trail ! 1)) (snd (trail ! 1))"
proof -
  note eval = client_request_def check_request_def get_page_def dst_new_def dst_build_def site_uri_def plain_uri_def default_core_config_def
    send_request.simps try_send_request_def dead_then_proxied_def prepare_request_def proxied_client_def client_is_http1_def client_is_http2_def
    set_host_header_def host_value_def get_non_default_port_def split_port_def request_target_def origin_form_def absolute_form_def
    uri_of_path_def assoc_http_def hm_contains_key_def assoc_get_all_def
  have c: "\<exists>key. check_request plain_uri (\<lambda>_. None) get_page = Some (Inr (ir_request get_page, key) :: unit client_err + _)"
    by (simp add: eval)
  then obtain key where c: "check_request plain_uri (\<lambda>_. None) get_page = Some (Inr (ir_request get_page, key) :: unit client_err + _)" by blast
  have "map_option (\<lambda>(_, trail). (map (\<lambda>p. up_path (cr_uri (snd p))) trail, map (\<lambda>p. up_scheme (cr_uri (snd p))) trail))
      (client_request assoc_http plain_uri (\<lambda>_. None) default_core_config (\<lambda>_. dead_then_proxied) get_page) =
    Some ([Some ''/x'', Some ''/x''], [None, Some ''http''])"
    by (simp add: eval)
  then obtain res trail where t: "client_request assoc_http plain_uri (\<lambda>_. None) default_core_config (\<lambda>_. dead_then_proxied) get_page = Some (res, trail)"
    "map (\<lambda>p. up_path (cr_uri (snd p))) trail = [Some ''/x'', Some ''/x'']" "map (\<lambda>p. up_scheme (cr_uri (snd p))) trail = [None, Some ''http'']"
    by auto
  have g: "gives_back (dead_then_proxied i)" for i by (simp add: gives_back_def dead_then_proxied_def)
  have "length trail = 2" using t(2) by (metis length_map length_Cons list.size(3) numeral_2_eq_2)
  with attempts_carry_request [OF assoc.http_laws_axioms c g t(1)] t show ?thesis by (metis nth_mem one_less_numeral_iff semiring_norm(76))
qed

text \<open>A request that asks for HTTP/2 itself is treated as HTTP/2 when a connection is made, but not when a checkout fails: where
  another task that was making the connection fails, it is reported as an error, while a client that uses HTTP/2 throughout
  tries again.\<close>

lemma http2_request_not_retried:
  assumes "cfg_ver cfg = Auto" and "dst_only_http2 key" and "client_err_is_canceled e" and "pool_error_is_canceled pe"
  shows "connect_ver (dst_only_http2 key) (cfg_ver cfg) = Http2 \<and>
    one_connection_for cfg True (ConnectFirst (Inl e)) later_connect (Inl pe) = Inl (Normal (new_client_err ErrConnect)) \<and>
    one_connection_for (cfg\<lparr>cfg_ver := Http2\<rparr>) True (ConnectFirst (Inl e)) later_connect (Inl pe) = Inl (CheckoutIsClosed pe)"
  using assms by (simp add: connect_ver_def one_connection_for_def)

text \<open>When no round reports a closed checkout, the loop of \<^verbatim>\<open>connection_for\<close> returns at once.\<close>

lemma connection_for_returns:
  assumes "\<And>j. j < n \<Longrightarrow> \<exists>e. rounds (i + j) = Inl (CheckoutIsClosed e)" and "\<And>e. rounds (i + n) \<noteq> Inl (CheckoutIsClosed e)"
    and "retry_canceled_requests cfg"
  shows "connection_for cfg rounds i = Some (case rounds (i + n) of Inr p \<Rightarrow> Inr p | Inl (Normal e) \<Rightarrow> Inl e)"
  using assms
proof (induction n arbitrary: i)
  case 0
  then show ?case
    by (subst connection_for.simps) (auto split: sum.splits ClientConnectError.splits)
next
  case (Suc n)
  obtain e where "rounds i = Inl (CheckoutIsClosed e)" using Suc.prems(1) [of 0] by auto
  moreover have "connection_for cfg rounds (Suc i) = Some (case rounds (Suc i + n) of Inr p \<Rightarrow> Inr p | Inl (Normal e) \<Rightarrow> Inl e)"
    using Suc.prems(1) [of "Suc _"] Suc.prems(2,3) by (intro Suc.IH) auto
  ultimately show ?case using Suc.prems(3) by (subst connection_for.simps) simp
qed

end
