(* ===== verification/Connector.thy ===== *)
theory Connector
  imports Tls_Conn Core_Client
begin

text \<open>
  The connector of the client (\<^verbatim>\<open>src/src/connect.rs\<close>) and what a connection says of itself
  (\<^verbatim>\<open>src/src/core/client/connect/mod.rs\<close>): connecting directly, through an HTTP or HTTPS proxy with or without a tunnel, or through a SOCKS
  proxy, with TLS where the destination or the proxy asks for it, all within the time limit of the client. The crate \<^verbatim>\<open>tokio_socks\<close> is
  a parameter.
\<close>

section \<open>Addresses as text\<close>

text \<open>\<^verbatim>\<open>IpAddr::to_string\<close> of the standard library: the first longest run of zero groups, if longer than one, is left out.\<close>

definition hex_char :: "nat \<Rightarrow> char" where
  "hex_char n = (if n < 10 then char_of (48 + n) else char_of (87 + n))"

fun hex_text :: "nat \<Rightarrow> string" where
  "hex_text n = (if n < 16 then [hex_char n] else hex_text (n div 16) @ [hex_char (n mod 16)])"

declare hex_text.simps [simp del]

fun zero_run :: "nat list \<Rightarrow> nat" where
  "zero_run (0 # gs) = Suc (zero_run gs)"
| "zero_run gs = 0"

definition longest_zeros :: "nat list \<Rightarrow> nat \<times> nat" where
  "longest_zeros gs =
     fold (\<lambda>i (start, len). let n = zero_run (drop i gs) in if len < n then (i, n) else (start, len)) [0..<length gs] (0, 0)"

fun with_colons :: "string list \<Rightarrow> string" where
  "with_colons [] = []"
| "with_colons [g] = g"
| "with_colons (g # gs) = g @ '':'' @ with_colons gs"

definition ipv4_text :: "32 word \<Rightarrow> string" where
  "ipv4_text a =
     (case map byte_val (ipv4_octets a) of
        [p, q, r, s] \<Rightarrow> decimal p @ ''.'' @ decimal q @ ''.'' @ decimal r @ ''.'' @ decimal s
      | _ \<Rightarrow> [])"

definition segments :: "128 word \<Rightarrow> nat list" where
  "segments a = map (\<lambda>i. unat a div 65536 ^ (7 - i) mod 65536) [0..<8]"

definition ipv6_text :: "128 word \<Rightarrow> string" where
  "ipv6_text a =
     (let gs = segments a
      in if take 6 gs = [0, 0, 0, 0, 0, 0xFFFF] then ''::ffff:'' @ ipv4_text (of_nat (unat a mod 2 ^ 32))
         else case longest_zeros gs of
                (start, len) \<Rightarrow>
                  if 1 < len
                  then with_colons (map hex_text (take start gs)) @ ''::'' @ with_colons (map hex_text (drop (start + len) gs))
                  else with_colons (map hex_text gs))"

definition ip_text :: "IpAddr \<Rightarrow> string" where
  "ip_text ip = (case ip of V4 a \<Rightarrow> ipv4_text a | V6 a \<Rightarrow> ipv6_text a)"

section \<open>Connections\<close>

text \<open>The types of transport a connection may have: a plain socket, a plain or TLS stream, TLS on a socket, TLS on a stream that may itself be a TLS
  stream.\<close>

datatype 't conn_io =
    PlainTcp TcpStream 't
  | MaybeTls "'t MaybeHttpsStream"
  | TlsOverTcp handshake tls_peer TcpStream 't
  | TlsOverStream handshake tls_peer "'t MaybeHttpsStream"

record 't Conn_io =
  co_inner :: "'t conn_io"
  co_verbose :: bool
  co_is_proxy :: bool
  co_tls_info :: bool

datatype conn_extra = HttpInfo SocketAddr SocketAddr | TlsInfo bytes

definition connected_new :: "nat \<Rightarrow> 'x Connected" where
  "connected_new pill = \<lparr>cn_alpn = AlpnNone, cn_is_proxied = False, cn_extra = None, cn_poisoned = pill\<rparr>"

definition connected_proxy :: "bool \<Rightarrow> 'x Connected \<Rightarrow> 'x Connected" where
  "connected_proxy is_proxied c = c\<lparr>cn_is_proxied := is_proxied\<rparr>"

definition connected_extra :: "'e \<Rightarrow> 'e list Connected \<Rightarrow> 'e list Connected" where
  "connected_extra e c = c\<lparr>cn_extra := Some (case cn_extra c of Some prev \<Rightarrow> prev @ [e] | None \<Rightarrow> [e])\<rparr>"

definition negotiated_h2 :: "'x Connected \<Rightarrow> 'x Connected" where
  "negotiated_h2 c = c\<lparr>cn_alpn := H2\<rparr>"

definition is_negotiated_h2 :: "'x Connected \<Rightarrow> bool" where
  "is_negotiated_h2 c \<longleftrightarrow> cn_alpn c = H2"

text \<open>\<open>addrs\<close> gives the peer and the local address of a socket, if the system knows both.\<close>

definition tcp_connected :: "nat \<Rightarrow> (TcpStream \<Rightarrow> (SocketAddr \<times> SocketAddr) option) \<Rightarrow> TcpStream \<Rightarrow> conn_extra list Connected" where
  "tcp_connected pill addrs s =
     (case addrs s of
        Some (remote, local) \<Rightarrow> connected_extra (HttpInfo remote local) (connected_new pill)
      | None \<Rightarrow> connected_new pill)"

definition alpn_connected :: "tls_peer \<Rightarrow> 'x Connected \<Rightarrow> 'x Connected" where
  "alpn_connected peer c = (if tp_alpn peer = Some ''h2'' then negotiated_h2 c else c)"

definition maybe_connected ::
  "nat \<Rightarrow> (TcpStream \<Rightarrow> (SocketAddr \<times> SocketAddr) option) \<Rightarrow> 't MaybeHttpsStream \<Rightarrow> conn_extra list Connected" where
  "maybe_connected pill addrs m =
     (case m of
        HttpStream s _ \<Rightarrow> tcp_connected pill addrs s
      | HttpsStream _ peer s _ \<Rightarrow> alpn_connected peer (tcp_connected pill addrs s))"

definition io_connected ::
  "nat \<Rightarrow> (TcpStream \<Rightarrow> (SocketAddr \<times> SocketAddr) option) \<Rightarrow> 't conn_io \<Rightarrow> conn_extra list Connected" where
  "io_connected pill addrs io =
     (case io of
        PlainTcp s _ \<Rightarrow> tcp_connected pill addrs s
      | MaybeTls m \<Rightarrow> maybe_connected pill addrs m
      | TlsOverTcp _ peer s _ \<Rightarrow> alpn_connected peer (tcp_connected pill addrs s)
      | TlsOverStream _ peer m \<Rightarrow> alpn_connected peer (maybe_connected pill addrs m))"

definition peer_info :: "tls_peer \<Rightarrow> bytes option" where
  "peer_info peer = tp_certificate peer"

definition maybe_tls_info :: "'t MaybeHttpsStream \<Rightarrow> bytes option" where
  "maybe_tls_info m = (case m of HttpsStream _ peer _ _ \<Rightarrow> peer_info peer | HttpStream _ _ \<Rightarrow> None)"

definition io_tls_info :: "'t conn_io \<Rightarrow> bytes option" where
  "io_tls_info io =
     (case io of
        PlainTcp _ _ \<Rightarrow> None
      | MaybeTls m \<Rightarrow> maybe_tls_info m
      | TlsOverTcp _ peer _ _ \<Rightarrow> peer_info peer
      | TlsOverStream _ _ m \<Rightarrow> maybe_tls_info m)"

definition conn_connected ::
  "nat \<Rightarrow> (TcpStream \<Rightarrow> (SocketAddr \<times> SocketAddr) option) \<Rightarrow> 't Conn_io \<Rightarrow> conn_extra list Connected" where
  "conn_connected pill addrs c =
     (let info = connected_proxy (co_is_proxy c) (io_connected pill addrs (co_inner c))
      in if co_tls_info c
         then (case io_tls_info (co_inner c) of Some cert \<Rightarrow> connected_extra (TlsInfo cert) info | None \<Rightarrow> info)
         else info)"

section \<open>The service\<close>

record 'o ConnectorService =
  cs_http :: tcp_config
  cs_tls :: "'o TlsConnector"
  cs_verbose :: bool
  cs_timeout :: "nat option"
  cs_nodelay :: bool
  cs_tls_info :: bool

datatype socks_target =
    Socks4Connect SocketAddr string u16
  | Socks5Connect SocketAddr "(string \<times> string) option" string u16

record ('o, 't, 'd, 'l) conn_net = "('o, 't, 'd, 'l) tls_net" +
  nt_socks :: "socks_target \<Rightarrow> (string + TcpStream) timed"
  nt_tcp :: "'t transport_ops"
  nt_tls :: "handshake \<Rightarrow> tls_peer \<Rightarrow> 't transport_ops"
  nt_tunnel_time :: "nat \<Rightarrow> nat"

text \<open>\<^verbatim>\<open>Read\<close> and \<^verbatim>\<open>Write\<close> of \<^verbatim>\<open>MaybeHttpsStream\<close>: those of the socket or of the TLS stream.\<close>

definition on_stream ::
  "'t transport_ops \<Rightarrow> (handshake \<Rightarrow> tls_peer \<Rightarrow> 't transport_ops) \<Rightarrow> ('t transport_ops \<Rightarrow> 't \<Rightarrow> 't \<times> 'r) \<Rightarrow>
   't MaybeHttpsStream \<Rightarrow> 't MaybeHttpsStream \<times> 'r" where
  "on_stream T S f m =
     (case m of
        HttpStream s t \<Rightarrow> (case f T t of (t', r) \<Rightarrow> (HttpStream s t', r))
      | HttpsStream hs peer s t \<Rightarrow> (case f (S hs peer) t of (t', r) \<Rightarrow> (HttpsStream hs peer s t', r)))"

definition maybe_ops ::
  "'t transport_ops \<Rightarrow> (handshake \<Rightarrow> tls_peer \<Rightarrow> 't transport_ops) \<Rightarrow> 't MaybeHttpsStream transport_ops" where
  "maybe_ops T S =
     \<lparr>poll_read = (\<lambda>m n. on_stream T S (\<lambda>ops t. poll_read ops t n) m),
      poll_write = (\<lambda>m bs. on_stream T S (\<lambda>ops t. poll_write ops t bs) m),
      poll_write_vectored = (\<lambda>m bss. on_stream T S (\<lambda>ops t. poll_write_vectored ops t bss) m),
      poll_flush = on_stream T S poll_flush,
      poll_shutdown = on_stream T S poll_shutdown,
      is_write_vectored = (\<lambda>m. case m of HttpStream _ t \<Rightarrow> is_write_vectored T t | HttpsStream hs peer _ t \<Rightarrow> is_write_vectored (S hs peer) t)\<rparr>"

datatype DnsResolve = DnsLocal | DnsProxy

definition http_resolve :: "('o, 't, 'd, 'l) conn_net \<Rightarrow> 'u uri_lib \<Rightarrow> 'u \<Rightarrow> ('d box_error + SocketAddr list) timed" where
  "http_resolve N U target =
     (case uri_host U target of
        None \<Rightarrow> at_once (Inl UriMissingHost)
      | Some host \<Rightarrow>
          (let port = (case uri_port U target of
                         Some (_, p) \<Rightarrow> of_nat p
                       | None \<Rightarrow> (let s = up_scheme (uri_parts_of U target)
                                  in if s = Some ''https'' then 443
                                     else if s \<in> Some ` {''socks4'', ''socks4h'', ''socks5'', ''socks5h''} then 1080 else 80))
           in tbind (map_err BoxDns (nt_resolver N host))
                (\<lambda>addrs. at_once (Inr (map (set_port port (uri_port U target \<noteq> None)) addrs)))))"

definition socks_stream ::
  "('o, 't, 'd, 'l) conn_net \<Rightarrow> 'u uri_lib \<Rightarrow> 'm ProxyScheme \<Rightarrow> 'u \<Rightarrow> DnsResolve \<Rightarrow> ('d box_error + TcpStream) timed" where
  "socks_stream N U proxy dst dns_mode =
     (case uri_host U dst of
        None \<Rightarrow> at_once (Inl NoHostInUrl)
      | Some original_host \<Rightarrow>
          (let port = (case uri_port U dst of
                         Some (_, p) \<Rightarrow> of_nat p
                       | None \<Rightarrow> if up_scheme (uri_parts_of U dst) = Some ''https'' then 443 else 80)
           in tbind (if dns_mode = DnsLocal
                     then tbind (http_resolve N U dst)
                            (\<lambda>addrs. at_once (Inr (case addrs of (ip, _) # _ \<Rightarrow> ip_text ip | [] \<Rightarrow> original_host)))
                     else at_once (Inr original_host))
                (\<lambda>host.
                   case proxy of
                     Socks4 addr _ \<Rightarrow> map_err BoxSocks (nt_socks N (Socks4Connect addr host port))
                   | Socks5 addr auth _ \<Rightarrow> map_err BoxSocks (nt_socks N (Socks5Connect addr auth host port))
                   | _ \<Rightarrow> at_once (Inl (BoxPanic ''unreachable'')))))"

definition connect_socks ::
  "('o, 't, 'd, 'l) conn_net \<Rightarrow> 'u uri_lib \<Rightarrow> 'o ConnectorService \<Rightarrow> ('u, 'm) PoolKey \<Rightarrow> 'm ProxyScheme \<Rightarrow> ('d box_error + 't Conn_io) timed" where
  "connect_socks N U svc dst proxy =
     (case (case proxy of
              Socks4 _ remote_dns \<Rightarrow> Some (if remote_dns then DnsProxy else DnsLocal)
            | Socks5 _ _ remote_dns \<Rightarrow> Some (if remote_dns then DnsProxy else DnsLocal)
            | _ \<Rightarrow> None) of
        None \<Rightarrow> at_once (Inl (BoxPanic ''connect_socks is only called for socks proxies''))
      | Some dns \<Rightarrow>
          if up_scheme (uri_parts_of U (pk_uri dst)) = Some ''https''
          then (case https_new (cs_http svc) (cs_tls svc) dst of
                  (http, dst) \<Rightarrow>
                    (case uri_host U (pk_uri dst) of
                       None \<Rightarrow> at_once (Inl UriBadHost)
                     | Some host \<Rightarrow>
                         tbind (socks_stream N U proxy (pk_uri dst) dns) (\<lambda>conn.
                         tbind (tls_connect N (hc_inner http) (up_authority (uri_parts_of U (pk_uri dst))) host
                                  (HttpStream conn (nt_open N conn))) (\<lambda>(hs, peer).
                         at_once (Inr \<lparr>co_inner = TlsOverTcp hs peer conn (nt_open N conn), co_verbose = cs_verbose svc,
                                       co_is_proxy = False, co_tls_info = cs_tls_info svc\<rparr>)))))
          else tbind (socks_stream N U proxy (pk_uri dst) dns) (\<lambda>tcp.
               at_once (Inr \<lparr>co_inner = PlainTcp tcp (nt_open N tcp), co_verbose = cs_verbose svc, co_is_proxy = False, co_tls_info = False\<rparr>)))"

definition reset_nodelay :: "('o, 't, 'd, 'l) conn_net \<Rightarrow> bool \<Rightarrow> TcpStream \<Rightarrow> 'd box_error + TcpStream" where
  "reset_nodelay N nodelay s =
     (if nodelay then Inr s
      else case os_apply (nt_os N) s (SetNodelay False) of
             Some e \<Rightarrow> Inl (BoxIo e)
           | None \<Rightarrow> Inr (s\<lparr>ts_options := ts_options s @ [SetNodelay False]\<rparr>))"

definition connect_with_maybe_proxy ::
  "('o, 't, 'd, 'l) conn_net \<Rightarrow> 'u uri_lib \<Rightarrow> 'o ConnectorService \<Rightarrow> ('u, 'm) PoolKey \<Rightarrow> bool \<Rightarrow> ('d box_error + 't Conn_io) timed" where
  "connect_with_maybe_proxy N U svc dst is_proxy =
     (let http = (if \<not> cs_nodelay svc \<and> up_scheme (uri_parts_of U (pk_uri dst)) = Some ''https''
                  then tcp_set_nodelay True (cs_http svc) else cs_http svc);
          (http, dst) = https_new http (cs_tls svc) dst
      in tbind (https_call N U http (pk_uri dst)) (\<lambda>io.
           case io of
             HttpsStream hs peer s t \<Rightarrow>
               tbind (at_once (reset_nodelay N (cs_nodelay svc) s)) (\<lambda>s.
               at_once (Inr \<lparr>co_inner = TlsOverTcp hs peer s t, co_verbose = cs_verbose svc, co_is_proxy = is_proxy, co_tls_info = cs_tls_info svc\<rparr>))
           | HttpStream s t \<Rightarrow>
               at_once (Inr \<lparr>co_inner = MaybeTls (HttpStream s t), co_verbose = cs_verbose svc, co_is_proxy = is_proxy, co_tls_info = cs_tls_info svc\<rparr>)))"

definition into_uri :: "'u uri_lib \<Rightarrow> string \<Rightarrow> string \<Rightarrow> 'd box_error + 'u" where
  "into_uri U scheme host =
     (case uri_from_parts U \<lparr>up_scheme = Some scheme, up_authority = Some host, up_path = Some ''/''\<rparr> of
        Some uri \<Rightarrow> Inr uri
      | None \<Rightarrow> Inl BoxUri)"

text \<open>\<^verbatim>\<open>Tunnel\<close> as a service over the connector.\<close>

definition tunnel_service ::
  "('o, 't, 'd, 'l) conn_net \<Rightarrow> ('m, 'z) http_lib_scheme \<Rightarrow> 'u uri_lib \<Rightarrow> 'o HttpsConnector \<Rightarrow> 'u \<Rightarrow> 'm tunnel_headers \<Rightarrow> 'u \<Rightarrow>
   (tunnel_error + 't MaybeHttpsStream) timed" where
  "tunnel_service N H U http proxy_dst headers dst =
     tbind (map_err (\<lambda>_. ConnectFailed) (https_call N U http proxy_dst)) (\<lambda>conn t.
       case tunnel_call H (maybe_ops (nt_tcp N) (nt_tls N)) conn (uri_host U dst) (map_option (of_nat \<circ> snd) (uri_port U dst)) headers of
         None \<Rightarrow> None
       | Some (conn', r) \<Rightarrow> Some (t + nt_tunnel_time N t, map_sum id (\<lambda>_. conn') r))"

definition tunnel_headers_for :: "('m, 'z) http_lib_scheme \<Rightarrow> header_value option \<Rightarrow> 'm option \<Rightarrow> 'm tunnel_headers" where
  "tunnel_headers_for H auth headers = if_some headers (with_headers H) (if_some auth (with_auth H) HeadersEmpty)"

definition via_http_proxy ::
  "('o, 't, 'd, 'l) conn_net \<Rightarrow> ('m, 'z) http_lib_scheme \<Rightarrow> 'u uri_lib \<Rightarrow> 'o ConnectorService \<Rightarrow> ('u, 'm) PoolKey \<Rightarrow>
   'd box_error + 'u \<Rightarrow> header_value option \<Rightarrow> 'm option \<Rightarrow> ('d box_error + 't Conn_io) timed" where
  "via_http_proxy N H U svc dst proxy auth headers =
     tbind (at_once proxy) (\<lambda>proxy_dst.
       if up_scheme (uri_parts_of U (pk_uri dst)) = Some ''https''
       then (case https_new (cs_http svc) (cs_tls svc) dst of
               (http, dst) \<Rightarrow>
                 tbind (map_err BoxTunnel (tunnel_service N H U http proxy_dst (tunnel_headers_for H auth headers) (pk_uri dst))) (\<lambda>tunneled.
                   case uri_host U (pk_uri dst) of
                     None \<Rightarrow> at_once (Inl UriBadHost)
                   | Some host \<Rightarrow>
                       tbind (tls_connect N (hc_inner http) (up_authority (uri_parts_of U (pk_uri dst))) host tunneled) (\<lambda>(hs, peer).
                       at_once (Inr \<lparr>co_inner = TlsOverStream hs peer tunneled, co_verbose = cs_verbose svc, co_is_proxy = False,
                                     co_tls_info = cs_tls_info svc\<rparr>))))
       else connect_with_maybe_proxy N U svc (dst_set_uri proxy_dst dst) True)"

definition connect_via_proxy ::
  "('o, 't, 'd, 'l) conn_net \<Rightarrow> ('m, 'z) http_lib_scheme \<Rightarrow> 'u uri_lib \<Rightarrow> 'o ConnectorService \<Rightarrow> ('u, 'm) PoolKey \<Rightarrow> 'm ProxyScheme \<Rightarrow>
   ('d box_error + 't Conn_io) timed" where
  "connect_via_proxy N H U svc dst proxy_scheme =
     (case proxy_scheme of
        Http auth host headers \<Rightarrow> via_http_proxy N H U svc dst (into_uri U ''http'' host) auth headers
      | Https auth host headers \<Rightarrow> via_http_proxy N H U svc dst (into_uri U ''https'' host) auth headers
      | _ \<Rightarrow> connect_socks N U svc dst proxy_scheme)"

definition with_timeout :: "('d box_error + 'a) timed \<Rightarrow> nat option \<Rightarrow> ('d box_error + 'a) timed" where
  "with_timeout f limit t =
     (case limit of
        Some to \<Rightarrow>
          (case time_out to f t of
             Some (t', Inl _) \<Rightarrow> Some (t', Inl BoxTimedOut)
           | Some (t', Inr r) \<Rightarrow> Some (t', r)
           | None \<Rightarrow> None)
      | None \<Rightarrow> f t)"

definition service_call ::
  "('o, 't, 'd, 'l) conn_net \<Rightarrow> ('m, 'z) http_lib_scheme \<Rightarrow> 'u uri_lib \<Rightarrow> 'o ConnectorService \<Rightarrow> ('u, 'm) PoolKey \<Rightarrow>
   ('d box_error + 't Conn_io) timed" where
  "service_call N H U svc dst =
     (case dst_take_proxy_scheme dst of
        (Some proxy_scheme, dst) \<Rightarrow> with_timeout (connect_via_proxy N H U svc dst proxy_scheme) (cs_timeout svc)
      | (None, dst) \<Rightarrow> with_timeout (connect_with_maybe_proxy N U svc dst False) (cs_timeout svc))"

section \<open>A stream stays what it is\<close>

text \<open>A property of a transport that its operations keep is kept by the helpers and by the exchange with a proxy.\<close>

definition keeps :: "('t, 'z) transport_ops_scheme \<Rightarrow> ('t \<Rightarrow> bool) \<Rightarrow> bool" where
  "keeps T P \<longleftrightarrow> (\<forall>t n. P t \<longrightarrow> P (fst (poll_read T t n))) \<and> (\<forall>t bs. P t \<longrightarrow> P (fst (poll_write T t bs)))"

lemma rt_read_keeps:
  assumes "rt_read T t n = Some r" and "keeps T P" and "P t"
  shows "P (fst r)"
proof -
  have "T = T \<longrightarrow> P t \<longrightarrow> P (fst r)"
  proof (rule rt_read.raw_induct [where P = "\<lambda>T' t n r. T' = T \<longrightarrow> P t \<longrightarrow> P (fst r)", rotated], rule assms(1))
    fix loop T' t n r
    assume IH: "\<And>T' t n r. loop T' t n = Some r \<Longrightarrow> T' = T \<longrightarrow> P t \<longrightarrow> P (fst r)"
      and body: "(case poll_read T' t n of (t', Pending) \<Rightarrow> loop T' t' n | (t', Ready r) \<Rightarrow> Some (t', r)) = Some r"
    show "T' = T \<longrightarrow> P t \<longrightarrow> P (fst r)"
    proof (intro impI)
      assume T: "T' = T" and "P t"
      obtain t' p where p: "poll_read T t n = (t', p)" by (rule prod.exhaust)
      have "P t'" using assms(2) \<open>P t\<close> p unfolding keeps_def by (metis fst_conv)
      with body IH [of T t' n r] show "P (fst r)" by (auto simp: T p split: poll.splits)
    qed
  qed
  with assms(3) show ?thesis by simp
qed

lemma write_all_keeps:
  assumes "write_all T t buf = Some r" and "keeps T P" and "P t"
  shows "P (fst r)"
proof -
  have "T = T \<longrightarrow> P t \<longrightarrow> P (fst r)"
  proof (rule write_all.raw_induct [where P = "\<lambda>T' t buf r. T' = T \<longrightarrow> P t \<longrightarrow> P (fst r)", rotated], rule assms(1))
    fix loop T' t buf r
    assume IH: "\<And>T' t buf r. loop T' t buf = Some r \<Longrightarrow> T' = T \<longrightarrow> P t \<longrightarrow> P (fst r)"
      and body: "(if buf = [] then Some (t, Inr ())
        else case poll_write T' t buf of (t', Pending) \<Rightarrow> loop T' t' buf | (t', Ready (Inl e)) \<Rightarrow> Some (t', Inl e)
          | (t', Ready (Inr n)) \<Rightarrow> loop T' t' (drop n buf)) = Some r"
    show "T' = T \<longrightarrow> P t \<longrightarrow> P (fst r)"
    proof (intro impI)
      assume T: "T' = T" and P: "P t"
      obtain t' p where p: "poll_write T t buf = (t', p)" by (rule prod.exhaust)
      have "P t'" using assms(2) P p unfolding keeps_def by (metis fst_conv)
      with body P IH [of T t' _ r] show "P (fst r)" by (auto simp: T p split: poll.splits sum.splits if_splits)
    qed
  qed
  with assms(3) show ?thesis by simp
qed

lemma tunnel_read_keeps:
  assumes "tunnel_read T t recvd = Some r" and "keeps T P" and "P t"
  shows "P (fst r)"
proof -
  have "T = T \<longrightarrow> P t \<longrightarrow> P (fst r)"
  proof (rule tunnel_read.raw_induct [where P = "\<lambda>T' t recvd r. T' = T \<longrightarrow> P t \<longrightarrow> P (fst r)", rotated], rule assms(1))
    fix loop T' t recvd r
    assume IH: "\<And>T' t recvd r. loop T' t recvd = Some r \<Longrightarrow> T' = T \<longrightarrow> P t \<longrightarrow> P (fst r)"
      and body: "(case rt_read T' t (8192 - length recvd) of
        None \<Rightarrow> None
      | Some (t', Inl e) \<Rightarrow> Some (t', Inl (TunnelIo e))
      | Some (t', Inr bs) \<Rightarrow>
          if bs = [] then Some (t', Inl TunnelUnexpectedEof)
          else if starts_with (recvd @ bs) ''HTTP/1.1 200'' \<or> starts_with (recvd @ bs) ''HTTP/1.0 200''
          then if ends_with (recvd @ bs) (CRLF @ CRLF) then Some (t', Inr ())
               else if length (recvd @ bs) = 8192 then Some (t', Inl ProxyHeadersTooLong)
               else loop T' t' (recvd @ bs)
          else if starts_with (recvd @ bs) ''HTTP/1.1 407'' then Some (t', Inl ProxyAuthRequired)
          else Some (t', Inl TunnelUnsuccessful)) = Some r"
    show "T' = T \<longrightarrow> P t \<longrightarrow> P (fst r)"
    proof (intro impI)
      assume T: "T' = T" and P: "P t"
      from body obtain t' x where p: "rt_read T t (8192 - length recvd) = Some (t', x)" by (auto simp: T split: option.splits)
      have "P t'" using rt_read_keeps [OF p assms(2) P] by simp
      with body IH [of T t' _ r] show "P (fst r)" by (auto simp: T p split: sum.splits if_splits)
    qed
  qed
  with assms(3) show ?thesis by simp
qed

lemma tunnel_call_keeps:
  assumes "tunnel_call H T t host port hs = Some (t', r)" and "keeps T P" and "P t"
  shows "P t'"
  using assms tunnel_read_keeps [OF _ assms(2), where r = "(t', r)"] write_all_keeps [OF _ assms(2,3)]
  by (fastforce simp: tunnel_call_def tunnel_def split: option.splits sum.splits)

definition same_layers :: "'t MaybeHttpsStream \<Rightarrow> 't MaybeHttpsStream \<Rightarrow> bool" where
  "same_layers m m' =
     (case m of
        HttpStream s _ \<Rightarrow> \<exists>t. m' = HttpStream s t
      | HttpsStream hs peer s _ \<Rightarrow> \<exists>t. m' = HttpsStream hs peer s t)"

lemma same_layers_refl: "same_layers m m"
  by (simp add: same_layers_def split: MaybeHttpsStream.splits)

lemma maybe_ops_keeps: "keeps (maybe_ops T S) (same_layers m)"
  by (auto simp: keeps_def maybe_ops_def on_stream_def same_layers_def split: MaybeHttpsStream.splits prod.splits)

section \<open>Routes\<close>

lemma with_timeout_Inr: "with_timeout f limit t = Some (t', Inr x) \<Longrightarrow> f t = Some (t', Inr x)"
  by (auto simp: with_timeout_def time_out_def split: option.splits if_splits sum.splits)

lemma tls_connect_host:
  assumes "tls_connect N ti authority host conn t = Some (t', Inr (hs, peer))"
  shows "hs_host hs = host \<and> (\<forall>key. CacheKey key \<in> set (hs_options hs) \<longleftrightarrow> authority = Some key)"
proof -
  from assms have "snd (tls_setup (nt_ssl N) (nt_set N) (nt_random N t) ti authority host (nt_cache N t)) = Inr hs"
    by (auto simp: tls_connect_def timed_Inr)
  then obtain c' where "tls_setup (nt_ssl N) (nt_set N) (nt_random N t) ti authority host (nt_cache N t) = (c', Inr hs)"
    by (metis prod.collapse)
  from tls_setup_session [OF this] show ?thesis by simp
qed

lemma https_call_stream:
  assumes "https_call N U c uri t = Some (t', Inr io)"
  obtains t1 sock where "http_call U (nt_os N) (nt_resolver N) (hc_http c) uri t = Some (t1, Inr sock)"
    and "up_scheme (uri_parts_of U uri) \<noteq> Some ''https'' \<Longrightarrow> io = HttpStream sock (nt_open N sock)"
    and "up_scheme (uri_parts_of U uri) = Some ''https'' \<Longrightarrow>
      \<exists>host hs peer. uri_host U uri = Some host \<and> hs_host hs = tls_host host \<and> io = HttpsStream hs peer sock (nt_open N sock)"
proof -
  from assms obtain t1 sock where "http_call U (nt_os N) (nt_resolver N) (hc_http c) uri t = Some (t1, Inr sock)"
    by (auto simp: https_call_def Let_def timed_Inr split: if_splits)
  moreover from assms this have "up_scheme (uri_parts_of U uri) = Some ''https'' \<Longrightarrow>
      \<exists>host hs peer. uri_host U uri = Some host \<and> hs_host hs = tls_host host \<and> io = HttpsStream hs peer sock (nt_open N sock)"
    by (auto simp: https_call_def Let_def timed_Inr dest!: tls_connect_host split: option.splits prod.splits)
  moreover from assms calculation(1) have "up_scheme (uri_parts_of U uri) \<noteq> Some ''https'' \<Longrightarrow> io = HttpStream sock (nt_open N sock)"
    by (auto simp: https_call_def Let_def timed_Inr)
  ultimately show ?thesis using that by blast
qed

lemma https_new_dst [simp]: "pk_uri (snd (https_new http ti dst)) = pk_uri dst"
  by (simp add: https_new_def Let_def split: prod.splits)

lemma https_new_uri: "https_new http ti dst = (c, dst') \<Longrightarrow> pk_uri dst' = pk_uri dst"
  using https_new_dst [of http ti dst] by simp

text \<open>The socket at the bottom of a connection, the outermost TLS layer, and the one below it.\<close>

definition stream_socket :: "'t MaybeHttpsStream \<Rightarrow> TcpStream" where
  "stream_socket m = (case m of HttpStream s _ \<Rightarrow> s | HttpsStream _ _ s _ \<Rightarrow> s)"

definition stream_tls :: "'t MaybeHttpsStream \<Rightarrow> (handshake \<times> tls_peer) option" where
  "stream_tls m = (case m of HttpStream _ _ \<Rightarrow> None | HttpsStream hs peer _ _ \<Rightarrow> Some (hs, peer))"

definition conn_socket :: "'t conn_io \<Rightarrow> TcpStream" where
  "conn_socket io =
     (case io of PlainTcp s _ \<Rightarrow> s | MaybeTls m \<Rightarrow> stream_socket m | TlsOverTcp _ _ s _ \<Rightarrow> s | TlsOverStream _ _ m \<Rightarrow> stream_socket m)"

definition outer_tls :: "'t conn_io \<Rightarrow> (handshake \<times> tls_peer) option" where
  "outer_tls io =
     (case io of
        PlainTcp _ _ \<Rightarrow> None
      | MaybeTls m \<Rightarrow> stream_tls m
      | TlsOverTcp hs peer _ _ \<Rightarrow> Some (hs, peer)
      | TlsOverStream hs peer _ \<Rightarrow> Some (hs, peer))"

definition inner_tls :: "'t conn_io \<Rightarrow> (handshake \<times> tls_peer) option" where
  "inner_tls io = (case io of TlsOverStream _ _ m \<Rightarrow> stream_tls m | _ \<Rightarrow> None)"

text \<open>A socket connected to the host of a URI.\<close>

definition reaches :: "('o, 't, 'd, 'l) conn_net \<Rightarrow> 'u uri_lib \<Rightarrow> 'u \<Rightarrow> TcpStream \<Rightarrow> bool" where
  "reaches N U uri s \<longleftrightarrow>
     (\<exists>config t t' s'. http_call U (nt_os N) (nt_resolver N) config uri t = Some (t', Inr s') \<and> ts_addr s = ts_addr s')"

definition tls_named :: "'u uri_lib \<Rightarrow> 'u \<Rightarrow> (handshake \<times> tls_peer) option \<Rightarrow> bool" where
  "tls_named U uri l \<longleftrightarrow> (\<exists>hs peer host. l = Some (hs, peer) \<and> uri_host U uri = Some host \<and> hs_host hs \<in> {host, tls_host host})"

lemma maybe_proxy_route:
  assumes "connect_with_maybe_proxy N U svc dst is_proxy t = Some (t', Inr c)"
  shows "co_is_proxy c = is_proxy \<and> reaches N U (pk_uri dst) (conn_socket (co_inner c)) \<and> inner_tls (co_inner c) = None \<and>
    (if up_scheme (uri_parts_of U (pk_uri dst)) = Some ''https'' then tls_named U (pk_uri dst) (outer_tls (co_inner c)) else outer_tls (co_inner c) = None)"
proof -
  obtain http dst' where h: "https_new (if \<not> cs_nodelay svc \<and> up_scheme (uri_parts_of U (pk_uri dst)) = Some ''https''
      then tcp_set_nodelay True (cs_http svc) else cs_http svc) (cs_tls svc) dst = (http, dst')" by (rule prod.exhaust)
  note u = https_new_uri [OF h]
  from assms obtain t1 io where io: "https_call N U http (pk_uri dst) t = Some (t1, Inr io)"
    and c: "(case io of HttpsStream hs peer s t \<Rightarrow> tbind (at_once (reset_nodelay N (cs_nodelay svc) s)) (\<lambda>s.
        at_once (Inr \<lparr>co_inner = TlsOverTcp hs peer s t, co_verbose = cs_verbose svc, co_is_proxy = is_proxy, co_tls_info = cs_tls_info svc\<rparr>))
      | HttpStream s t \<Rightarrow> at_once (Inr \<lparr>co_inner = MaybeTls (HttpStream s t), co_verbose = cs_verbose svc, co_is_proxy = is_proxy,
          co_tls_info = cs_tls_info svc\<rparr>)) t1 = Some (t', Inr c)"
    by (auto simp: connect_with_maybe_proxy_def Let_def h tbind_Inr u)
  from https_call_stream [OF io] obtain t2 sock where s: "http_call U (nt_os N) (nt_resolver N) (hc_http http) (pk_uri dst) t = Some (t2, Inr sock)"
    "up_scheme (uri_parts_of U (pk_uri dst)) \<noteq> Some ''https'' \<Longrightarrow> io = HttpStream sock (nt_open N sock)"
    "up_scheme (uri_parts_of U (pk_uri dst)) = Some ''https'' \<Longrightarrow>
      \<exists>host hs peer. uri_host U (pk_uri dst) = Some host \<and> hs_host hs = tls_host host \<and> io = HttpsStream hs peer sock (nt_open N sock)"
    by blast
  have r: "reaches N U (pk_uri dst) s'" if "ts_addr s' = ts_addr sock" for s' using s(1) that unfolding reaches_def by blast
  show ?thesis
  proof (cases "up_scheme (uri_parts_of U (pk_uri dst)) = Some ''https''")
    case True
    with s(3) obtain host hs peer where i: "uri_host U (pk_uri dst) = Some host" "hs_host hs = tls_host host" "io = HttpsStream hs peer sock (nt_open N sock)"
      by blast
    with c obtain s' where s': "reset_nodelay N (cs_nodelay svc) sock = Inr s'" "co_inner c = TlsOverTcp hs peer s' (nt_open N sock)" "co_is_proxy c = is_proxy"
      by (auto simp: timed_Inr)
    have "ts_addr s' = ts_addr sock" using s'(1) by (auto simp: reset_nodelay_def split: if_splits option.splits)
    with r s'(2,3) i True show ?thesis by (simp add: conn_socket_def outer_tls_def inner_tls_def tls_named_def)
  next
    case False
    with s(2) c have "co_inner c = MaybeTls (HttpStream sock (nt_open N sock))" "co_is_proxy c = is_proxy"
      by (auto simp: timed_Inr)
    with r False show ?thesis by (simp add: conn_socket_def outer_tls_def stream_tls_def stream_socket_def inner_tls_def)
  qed
qed

lemma tunnel_service_stream:
  assumes "tunnel_service N H U http proxy headers dst t = Some (t', Inr m)"
  shows "reaches N U proxy (stream_socket m) \<and>
    (if up_scheme (uri_parts_of U proxy) = Some ''https'' then tls_named U proxy (stream_tls m) else stream_tls m = None)"
proof -
  let ?T = "maybe_ops (nt_tcp N) (nt_tls N)"
  have ms: "map_sum id g r = Inr y \<longleftrightarrow> (\<exists>x. r = Inr x \<and> y = g x)" for g :: "unit \<Rightarrow> _" and r :: "tunnel_error + unit" and y
    by (cases r) auto
  from assms obtain t1 m0 x where m0: "https_call N U http proxy t = Some (t1, Inr m0)"
    and tc: "tunnel_call H ?T m0 (uri_host U dst) (map_option (of_nat \<circ> snd) (uri_port U dst)) headers = Some (m, Inr x)"
    by (auto simp: tunnel_service_def tbind_Inr map_err_Inr ms split: option.splits)
  have l: "same_layers m0 m" by (rule tunnel_call_keeps [OF tc maybe_ops_keeps same_layers_refl])
  from https_call_stream [OF m0] obtain t2 sock where s: "http_call U (nt_os N) (nt_resolver N) (hc_http http) proxy t = Some (t2, Inr sock)"
    "up_scheme (uri_parts_of U proxy) \<noteq> Some ''https'' \<Longrightarrow> m0 = HttpStream sock (nt_open N sock)"
    "up_scheme (uri_parts_of U proxy) = Some ''https'' \<Longrightarrow>
      \<exists>host hs peer. uri_host U proxy = Some host \<and> hs_host hs = tls_host host \<and> m0 = HttpsStream hs peer sock (nt_open N sock)"
    by blast
  have "reaches N U proxy sock" using s(1) unfolding reaches_def by blast
  then show ?thesis
    using l s(2,3) by (auto simp: same_layers_def stream_socket_def stream_tls_def tls_named_def)
qed

lemma dst_set_uri_uri [simp]: "pk_uri (dst_set_uri uri dst) = uri"
  by (simp add: dst_set_uri_def)

definition proxied_route :: "('o, 't, 'd, 'l) conn_net \<Rightarrow> 'u uri_lib \<Rightarrow> 'u \<Rightarrow> 'u \<Rightarrow> 't Conn_io \<Rightarrow> bool" where
  "proxied_route N U uri p c \<longleftrightarrow> reaches N U p (conn_socket (co_inner c)) \<and>
     (if up_scheme (uri_parts_of U uri) = Some ''https''
      then \<not> co_is_proxy c \<and> tls_named U uri (outer_tls (co_inner c)) \<and>
        (if up_scheme (uri_parts_of U p) = Some ''https'' then tls_named U p (inner_tls (co_inner c)) else inner_tls (co_inner c) = None) \<and>
        (\<exists>hs peer m. co_inner c = TlsOverStream hs peer m)
      else co_is_proxy c \<and> inner_tls (co_inner c) = None \<and>
        (if up_scheme (uri_parts_of U p) = Some ''https'' then tls_named U p (outer_tls (co_inner c)) else outer_tls (co_inner c) = None))"

lemma via_http_proxy_route:
  assumes "via_http_proxy N H U svc dst proxy auth headers t = Some (t', Inr c)"
  shows "\<exists>p. proxy = Inr p \<and> proxied_route N U (pk_uri dst) p c"
proof -
  from assms obtain p where p: "proxy = Inr p" by (auto simp: via_http_proxy_def tbind_Inr at_once_Inr)
  show ?thesis
  proof (cases "up_scheme (uri_parts_of U (pk_uri dst)) = Some ''https''")
    case True
    obtain http dst' where h: "https_new (cs_http svc) (cs_tls svc) dst = (http, dst')" by (rule prod.exhaust)
    note u = https_new_uri [OF h]
    from assms True obtain t1 m host hs peer t2 where
      m: "tunnel_service N H U http p (tunnel_headers_for H auth headers) (pk_uri dst) t = Some (t1, Inr m)"
      and host: "uri_host U (pk_uri dst) = Some host"
      and tls: "tls_connect N (hc_inner http) (up_authority (uri_parts_of U (pk_uri dst))) host m t1 = Some (t2, Inr (hs, peer))"
      and c: "co_inner c = TlsOverStream hs peer m" "\<not> co_is_proxy c"
      by (auto simp: via_http_proxy_def p h u timed_Inr split: option.splits prod.splits)
    have "tls_named U (pk_uri dst) (outer_tls (co_inner c))"
      using tls_connect_host [OF tls] host by (auto simp: tls_named_def c(1) outer_tls_def)
    with tunnel_service_stream [OF m] c True p show ?thesis by (simp add: proxied_route_def conn_socket_def inner_tls_def)
  next
    case False
    from assms False p have "connect_with_maybe_proxy N U svc (dst_set_uri p dst) True t = Some (t', Inr c)"
      by (auto simp: via_http_proxy_def timed_Inr)
    from maybe_proxy_route [OF this, unfolded dst_set_uri_uri] False p show ?thesis by (simp add: proxied_route_def)
  qed
qed

definition socks_reaches :: "('o, 't, 'd, 'l) conn_net \<Rightarrow> 'm ProxyScheme \<Rightarrow> TcpStream \<Rightarrow> bool" where
  "socks_reaches N proxy s \<longleftrightarrow>
     (\<exists>host port t t'. nt_socks N (case proxy of Socks4 a _ \<Rightarrow> Socks4Connect a host port | Socks5 a auth _ \<Rightarrow> Socks5Connect a auth host port) t = Some (t', Inr s))"

lemma socks_stream_reaches:
  assumes "socks_stream N U proxy uri dns t = Some (t', Inr s)"
  shows "socks_reaches N proxy s"
  using assms unfolding socks_stream_def socks_reaches_def
  by (cases proxy) (auto simp: Let_def timed_Inr split: option.splits)

lemma connect_socks_route:
  assumes "connect_socks N U svc dst proxy t = Some (t', Inr c)"
  shows "socks_reaches N proxy (conn_socket (co_inner c)) \<and> \<not> co_is_proxy c \<and> inner_tls (co_inner c) = None \<and>
    (if up_scheme (uri_parts_of U (pk_uri dst)) = Some ''https'' then tls_named U (pk_uri dst) (outer_tls (co_inner c)) else outer_tls (co_inner c) = None)"
proof (cases "up_scheme (uri_parts_of U (pk_uri dst)) = Some ''https''")
  case True
  obtain http dst' where h: "https_new (cs_http svc) (cs_tls svc) dst = (http, dst')" by (rule prod.exhaust)
  note u = https_new_uri [OF h]
  from assms True obtain dns t1 s host hs peer t2 where
    s: "socks_stream N U proxy (pk_uri dst) dns t = Some (t1, Inr s)" and host: "uri_host U (pk_uri dst) = Some host"
    and tls: "tls_connect N (hc_inner http) (up_authority (uri_parts_of U (pk_uri dst))) host (HttpStream s (nt_open N s)) t1 = Some (t2, Inr (hs, peer))"
    and c: "co_inner c = TlsOverTcp hs peer s (nt_open N s)" "\<not> co_is_proxy c"
    by (auto simp: connect_socks_def h u timed_Inr split: option.splits prod.splits)
  with socks_stream_reaches [OF s] tls_connect_host [OF tls] True show ?thesis
    by (auto simp: conn_socket_def inner_tls_def outer_tls_def tls_named_def)
next
  case False
  with assms obtain dns s where s: "socks_stream N U proxy (pk_uri dst) dns t = Some (t', Inr s)"
    and c: "co_inner c = PlainTcp s (nt_open N s)" "\<not> co_is_proxy c"
    by (auto simp: connect_socks_def timed_Inr split: option.splits)
  with socks_stream_reaches [OF s] False show ?thesis by (simp add: conn_socket_def inner_tls_def outer_tls_def)
qed

lemma take_proxy_uri: "dst_take_proxy_scheme dst = (px, dst') \<Longrightarrow> pk_uri dst' = pk_uri dst"
  by (auto simp: dst_take_proxy_scheme_def split: prod.splits)

lemma into_uri_parts:
  assumes "uri_laws U" and "into_uri U scheme host = Inr p"
  shows "uri_parts_of U p = \<lparr>up_scheme = Some scheme, up_authority = Some host, up_path = Some ''/''\<rparr>"
  using assms uri_laws.parts_from [OF assms(1)] by (auto simp: into_uri_def split: option.splits)

lemma via_uri_route:
  assumes "uri_laws U" and "via_http_proxy N H U svc dst (into_uri U scheme host) auth headers t = Some (t', Inr c)"
  shows "\<exists>p. uri_parts_of U p = \<lparr>up_scheme = Some scheme, up_authority = Some host, up_path = Some ''/''\<rparr> \<and> proxied_route N U (pk_uri dst) p c"
  using via_http_proxy_route [OF assms(2)] into_uri_parts [OF assms(1)] by blast

end
