(* ===== verification/Connector_Props.thy ===== *)
theory Connector_Props
  imports Connector "HOL-Library.Code_Target_Nat"
begin

text \<open>
  What the connector means for the rest of the client: the form of request targets, the certificate that is reported, the time limit;
  and connections made inside the logic.
\<close>

section \<open>A small network\<close>

text \<open>Every name resolves, every connection and every handshake succeeds, every proxy grants a tunnel; the certificate of a peer tells whether its
  handshake was made on a socket or on a stream that is a TLS stream already.\<close>

definition demo_net :: "(unit, mock, unit, SslSession list) conn_net" where
  "demo_net =
     \<lparr>nt_os = easy_os (\<lambda>_. Some 1), nt_resolver = (\<lambda>_ t. Some (t, Inr [(V4 1, 0)])),
      nt_open = (\<lambda>_. \<lparr>script = [Chunk (''HTTP/1.1 200 OK'' @ CRLF @ CRLF)], sent = [], write_limit = 1000\<rparr>),
      nt_ssl = easy_ssl 1 (Some ''http/1.1'') (\<lambda>m. case m of HttpStream _ _ \<Rightarrow> ''on socket'' | HttpsStream _ _ _ _ \<Rightarrow> ''on stream''),
      nt_set = list_set, nt_cache = (\<lambda>_. cache_with_capacity 8), nt_random = (\<lambda>_. 0),
      nt_socks = (\<lambda>_ _. None), nt_tcp = mock_ops, nt_tls = (\<lambda>_ _. mock_ops), nt_tunnel_time = (\<lambda>_. 1)\<rparr>"

definition demo_service :: "unit ConnectorService" where
  "demo_service =
     \<lparr>cs_http = enforce_http False default_tcp_config, cs_tls = with_connector_and_settings [] default_settings,
      cs_verbose = False, cs_timeout = Some 100, cs_nodelay = True, cs_tls_info = True\<rparr>"

definition demo_dst :: "string \<Rightarrow> assoc_map ProxyScheme option \<Rightarrow> (uri_parts, assoc_map) PoolKey" where
  "demo_dst scheme px =
     \<lparr>pk_uri = \<lparr>up_scheme = Some scheme, up_authority = Some ''a.org'', up_path = Some ''/''\<rparr>, pk_alpn = None,
      pk_network = Scheme None (None, None) px\<rparr>"

definition demo_call :: "string \<Rightarrow> assoc_map ProxyScheme option \<Rightarrow> (nat \<times> (unit box_error + mock Conn_io)) option" where
  "demo_call scheme px = service_call demo_net assoc_http plain_uri demo_service (demo_dst scheme px) 0"

lemma demo_call_ok:
  "case demo_call ''https'' (Some (Https None ''p.org'' None)) of Some (t, Inr c) \<Rightarrow> t = 4 \<and> outer_tls (co_inner c) \<noteq> None | _ \<Rightarrow> False"
  by code_simp

lemma demo_https_proxy:
  obtains c where "demo_call ''https'' (Some (Https None ''p.org'' None)) = Some (4, Inr c)"
  using demo_call_ok that by (auto split: option.splits sum.splits)

lemma demo_dst_scheme: "up_scheme (uri_parts_of plain_uri (pk_uri (demo_dst scheme px))) = Some scheme"
  by (simp add: demo_dst_def plain_uri_def)

lemma demo_dst_proxy: "fst (dst_take_proxy_scheme (demo_dst scheme px)) = px"
  by (simp add: demo_dst_def dst_take_proxy_scheme_def take_proxy_scheme_def)

section \<open>Where a connection goes\<close>

lemma service_route:
  fixes N :: "('o, 't, 'd, 'l) conn_net"
  assumes "uri_laws U" and "service_call N H U svc dst t = Some (t', Inr c)"
  shows "let https = (up_scheme (uri_parts_of U (pk_uri dst)) = Some ''https''); px = fst (dst_take_proxy_scheme dst); io = co_inner c
   in (if https then tls_named U (pk_uri dst) (outer_tls io) \<and> \<not> co_is_proxy c
       else co_is_proxy c \<longleftrightarrow> (\<exists>auth host headers. px = Some (Http auth host headers) \<or> px = Some (Https auth host headers))) \<and>
      (case px of
         None \<Rightarrow> reaches N U (pk_uri dst) (conn_socket io) \<and> inner_tls io = None \<and> (\<not> https \<longrightarrow> outer_tls io = None)
       | Some (Http auth host headers) \<Rightarrow>
           (\<exists>p. uri_parts_of U p = \<lparr>up_scheme = Some ''http'', up_authority = Some host, up_path = Some ''/''\<rparr> \<and>
              reaches N U p (conn_socket io) \<and> inner_tls io = None \<and> (\<not> https \<longrightarrow> outer_tls io = None))
       | Some (Https auth host headers) \<Rightarrow>
           (\<exists>p. uri_parts_of U p = \<lparr>up_scheme = Some ''https'', up_authority = Some host, up_path = Some ''/''\<rparr> \<and>
              reaches N U p (conn_socket io) \<and> tls_named U p (if https then inner_tls io else outer_tls io))
       | Some socks \<Rightarrow> socks_reaches N socks (conn_socket io) \<and> inner_tls io = None \<and> (\<not> https \<longrightarrow> outer_tls io = None))"
proof -
  obtain px' dst' where d: "dst_take_proxy_scheme dst = (px', dst')" by (rule prod.exhaust)
  note u = take_proxy_uri [OF d]
  show ?thesis
  proof (cases px')
    case None
    from assms(2) d None have "connect_with_maybe_proxy N U svc dst' False t = Some (t', Inr c)"
      by (auto simp: service_call_def dest: with_timeout_Inr)
    from maybe_proxy_route [OF this, unfolded u] None show ?thesis
      using d by (auto simp: Let_def split: if_splits)
  next
    case (Some p)
    from assms(2) d Some have v: "connect_via_proxy N H U svc dst' p t = Some (t', Inr c)"
      by (auto simp: service_call_def dest: with_timeout_Inr)
    show ?thesis
    proof (cases p)
      case (Http auth host headers)
      with v have "via_http_proxy N H U svc dst' (into_uri U ''http'' host) auth headers t = Some (t', Inr c)" by (simp add: connect_via_proxy_def)
      from via_uri_route [OF assms(1) this, unfolded u] obtain q where
        "uri_parts_of U q = \<lparr>up_scheme = Some ''http'', up_authority = Some host, up_path = Some ''/''\<rparr>" "proxied_route N U (pk_uri dst) q c" by blast
      with Some Http d show ?thesis
        by (cases "up_scheme (uri_parts_of U (pk_uri dst)) = Some ''https''") (auto simp: proxied_route_def Let_def)
    next
      case (Https auth host headers)
      with v have "via_http_proxy N H U svc dst' (into_uri U ''https'' host) auth headers t = Some (t', Inr c)" by (simp add: connect_via_proxy_def)
      from via_uri_route [OF assms(1) this, unfolded u] obtain q where
        "uri_parts_of U q = \<lparr>up_scheme = Some ''https'', up_authority = Some host, up_path = Some ''/''\<rparr>" "proxied_route N U (pk_uri dst) q c" by blast
      with Some Https d show ?thesis
        by (cases "up_scheme (uri_parts_of U (pk_uri dst)) = Some ''https''") (auto simp: proxied_route_def Let_def)
    next
      case (Socks4 addr r)
      with v have "connect_socks N U svc dst' p t = Some (t', Inr c)" by (simp add: connect_via_proxy_def)
      from connect_socks_route [OF this, unfolded u] Some Socks4 show ?thesis using d by (auto simp: Let_def split: if_splits)
    next
      case (Socks5 addr a r)
      with v have "connect_socks N U svc dst' p t = Some (t', Inr c)" by (simp add: connect_via_proxy_def)
      from connect_socks_route [OF this, unfolded u] Some Socks5 show ?thesis using d by (auto simp: Let_def split: if_splits)
    qed
  qed
qed

text \<open>C17. Where a connection goes. For an https destination its outermost layer is TLS, with a handshake for the host of the
  destination, whatever proxy is used. Otherwise requests are marked as going to a proxy exactly if there is an HTTP or HTTPS proxy. Without a
  proxy the socket is connected to the host of the destination; with an HTTP or HTTPS proxy to the host of the proxy, in the latter case with a TLS layer for
  the proxy on it, below that of an https destination; with a SOCKS proxy it is the one the proxy gave.\<close>
theorem connection_route:
  fixes N :: "('o, 't, 'd, 'l) conn_net"
  assumes "uri_laws U" and "service_call N H U svc dst t = Some (t', Inr c)"
  shows "let https = (up_scheme (uri_parts_of U (pk_uri dst)) = Some ''https''); px = fst (dst_take_proxy_scheme dst); io = co_inner c
   in (if https then tls_named U (pk_uri dst) (outer_tls io) \<and> \<not> co_is_proxy c
       else co_is_proxy c \<longleftrightarrow> (\<exists>auth host headers. px = Some (Http auth host headers) \<or> px = Some (Https auth host headers))) \<and>
      (case px of
         None \<Rightarrow> reaches N U (pk_uri dst) (conn_socket io) \<and> inner_tls io = None \<and> (\<not> https \<longrightarrow> outer_tls io = None)
       | Some (Http auth host headers) \<Rightarrow>
           (\<exists>p. uri_parts_of U p = \<lparr>up_scheme = Some ''http'', up_authority = Some host, up_path = Some ''/''\<rparr> \<and>
              reaches N U p (conn_socket io) \<and> inner_tls io = None \<and> (\<not> https \<longrightarrow> outer_tls io = None))
       | Some (Https auth host headers) \<Rightarrow>
           (\<exists>p. uri_parts_of U p = \<lparr>up_scheme = Some ''https'', up_authority = Some host, up_path = Some ''/''\<rparr> \<and>
              reaches N U p (conn_socket io) \<and> tls_named U p (if https then inner_tls io else outer_tls io))
       | Some socks \<Rightarrow> socks_reaches N socks (conn_socket io) \<and> inner_tls io = None \<and> (\<not> https \<longrightarrow> outer_tls io = None))"
  by (rule service_route [OF assms])

text \<open>Witness of C17: an https destination through an HTTPS proxy.\<close>
theorem connection_route_witness:
  "\<exists>c. demo_call ''https'' (Some (Https None ''p.org'' None)) = Some (4, Inr c) \<and> \<not> co_is_proxy c \<and>
     tls_named plain_uri (pk_uri (demo_dst ''https'' (Some (Https None ''p.org'' None)))) (outer_tls (co_inner c)) \<and> inner_tls (co_inner c) \<noteq> None"
proof -
  obtain c where c: "demo_call ''https'' (Some (Https None ''p.org'' None)) = Some (4, Inr c)" by (rule demo_https_proxy)
  from connection_route [OF plain_uri.uri_laws_axioms this [unfolded demo_call_def]] c show ?thesis
    by (auto simp: demo_dst_proxy demo_dst_scheme Let_def tls_named_def)
qed

text \<open>The limit on connecting holds whatever happens, also for tunnels and handshakes.\<close>

lemma with_timeout_ends: "\<exists>t' r. with_timeout f (Some d) t = Some (t', r) \<and> t' \<le> t + d"
  by (auto simp: with_timeout_def time_out_def split: option.splits)

lemma service_call_ends:
  assumes "cs_timeout svc = Some d"
  shows "\<exists>t' r. service_call N H U svc dst t = Some (t', r) \<and> t' \<le> t + d"
proof -
  obtain px dst' where d: "dst_take_proxy_scheme dst = (px, dst')" by (rule prod.exhaust)
  show ?thesis by (cases px) (simp_all only: service_call_def d prod.case option.case assms with_timeout_ends)
qed

section \<open>What a connection says of itself\<close>

lemma conn_connected_proxied: "cn_is_proxied (conn_connected pill addrs c) = co_is_proxy c"
  by (simp add: conn_connected_def connected_proxy_def connected_extra_def Let_def split: option.splits)

lemma no_tls_info:
  "cn_extra (tcp_connected pill addrs s) = Some es \<Longrightarrow> TlsInfo cert \<notin> set es"
  "cn_extra (alpn_connected peer k) = cn_extra k"
  by (auto simp: tcp_connected_def connected_extra_def connected_new_def alpn_connected_def negotiated_h2_def split: option.splits prod.splits)

lemma conn_tls_info:
  assumes "cn_extra (conn_connected pill addrs c) = Some es" and "TlsInfo cert \<in> set es"
  shows "io_tls_info (co_inner c) = Some cert"
proof -
  have n: "TlsInfo cert \<notin> set es'" if "cn_extra (io_connected pill addrs (co_inner c)) = Some es'" for es'
    using that by (cases "co_inner c") (auto simp: io_connected_def maybe_connected_def no_tls_info(2) dest: no_tls_info(1) split: MaybeHttpsStream.splits)
  show ?thesis
    using assms n by (auto simp: conn_connected_def connected_proxy_def connected_extra_def Let_def split: if_splits option.splits)
qed

text \<open>C24. The certificate reported with a response. For an https destination reached through an HTTP or HTTPS proxy it is never looked up in
  the connection to the destination: if a certificate is reported at all it is that of the proxy, and none is if the proxy is a plain one.\<close>
theorem reported_certificate:
  assumes "uri_laws U" and "service_call N H U svc dst t = Some (t', Inr c)"
    and "up_scheme (uri_parts_of U (pk_uri dst)) = Some ''https''"
    and "fst (dst_take_proxy_scheme dst) = Some px" and "px = Http auth host headers \<or> px = Https auth host headers"
    and "cn_extra (conn_connected pill addrs c) = Some es" and "TlsInfo cert \<in> set es"
  shows "px = Https auth host headers \<and> (\<exists>hs peer. inner_tls (co_inner c) = Some (hs, peer) \<and> tp_certificate peer = Some cert)"
proof -
  obtain dst' where d: "dst_take_proxy_scheme dst = (Some px, dst')" using assms(4) by (metis prod.collapse)
  note u = take_proxy_uri [OF d]
  from assms(2) d have v: "connect_via_proxy N H U svc dst' px t = Some (t', Inr c)"
    by (auto simp: service_call_def dest: with_timeout_Inr)
  define scheme where "scheme = (if px = Http auth host headers then ''http'' else ''https'')"
  from v assms(5) have "via_http_proxy N H U svc dst' (into_uri U scheme host) auth headers t = Some (t', Inr c)"
    by (auto simp: connect_via_proxy_def scheme_def)
  from via_uri_route [OF assms(1) this, unfolded u] obtain p where
    "uri_parts_of U p = \<lparr>up_scheme = Some scheme, up_authority = Some host, up_path = Some ''/''\<rparr>" and "proxied_route N U (pk_uri dst) p c"
    by blast
  then have p: "up_scheme (uri_parts_of U p) = Some scheme" "proxied_route N U (pk_uri dst) p c" by simp_all
  from p(2) assms(3) obtain hs peer m where m: "co_inner c = TlsOverStream hs peer m" by (auto simp: proxied_route_def)
  have "maybe_tls_info m = Some cert" using conn_tls_info [OF assms(6,7)] by (simp add: m io_tls_info_def)
  then obtain hs' peer' where i: "inner_tls (co_inner c) = Some (hs', peer')" "tp_certificate peer' = Some cert"
    by (auto simp: m inner_tls_def maybe_tls_info_def stream_tls_def peer_info_def split: MaybeHttpsStream.splits)
  moreover have "scheme = ''https''" using p assms(3) i(1) by (auto simp: proxied_route_def scheme_def split: if_splits)
  ultimately show ?thesis using assms(5) by (auto simp: scheme_def split: if_splits)
qed

lemma demo_reports:
  "case demo_call ''https'' (Some (Https None ''p.org'' None)) of
     Some (_, Inr c) \<Rightarrow> cn_extra (conn_connected 0 (\<lambda>_. None) c) = Some [TlsInfo ''on socket''] | _ \<Rightarrow> False"
  by code_simp

text \<open>Witness of C24: the certificate of the destination, whose handshake was made on the stream of the proxy, is not the one reported.\<close>
theorem reported_certificate_witness:
  "\<exists>c hs peer. demo_call ''https'' (Some (Https None ''p.org'' None)) = Some (4, Inr c) \<and>
     cn_extra (conn_connected 0 (\<lambda>_. None) c) = Some [TlsInfo ''on socket''] \<and>
     inner_tls (co_inner c) = Some (hs, peer) \<and> tp_certificate peer = Some ''on socket''"
proof -
  obtain c where c: "demo_call ''https'' (Some (Https None ''p.org'' None)) = Some (4, Inr c)" by (rule demo_https_proxy)
  have e: "cn_extra (conn_connected 0 (\<lambda>_. None) c) = Some [TlsInfo ''on socket'']" using demo_reports by (simp add: c)
  have "\<exists>hs peer. inner_tls (co_inner c) = Some (hs, peer) \<and> tp_certificate peer = Some ''on socket''"
    using reported_certificate [OF plain_uri.uri_laws_axioms c [unfolded demo_call_def] _ demo_dst_proxy _ e, of None "''p.org''" None "''on socket''"]
    by (simp add: demo_dst_def plain_uri_def)
  with c e show ?thesis by blast
qed

text \<open>A stream whose proxy selected HTTP/2 counts as an HTTP/2 connection, whatever the destination selected.\<close>

lemma proxy_protocol_wins:
  assumes "tp_alpn peer' = Some ''h2''"
  shows "is_negotiated_h2 (io_connected pill addrs (TlsOverStream hs peer (HttpsStream hs' peer' s t)))"
  using assms by (simp add: io_connected_def maybe_connected_def alpn_connected_def negotiated_h2_def is_negotiated_h2_def)

text \<open>An IPv6 address keeps its brackets in a handshake through a tunnel, not in one without a proxy.\<close>

definition ipv6_dst :: "assoc_map ProxyScheme option \<Rightarrow> (uri_parts, assoc_map) PoolKey" where
  "ipv6_dst px = (demo_dst ''https'' px)\<lparr>pk_uri := \<lparr>up_scheme = Some ''https'', up_authority = Some ''[::1]'', up_path = Some ''/''\<rparr>\<rparr>"

definition handshake_host :: "(uri_parts, assoc_map) PoolKey \<Rightarrow> string option" where
  "handshake_host dst =
     (case service_call demo_net assoc_http plain_uri demo_service dst 0 of
        Some (_, Inr c) \<Rightarrow> map_option (hs_host \<circ> fst) (outer_tls (co_inner c))
      | _ \<Rightarrow> None)"

lemma tunnel_keeps_brackets:
  "handshake_host (ipv6_dst None) = Some ''::1''" "handshake_host (ipv6_dst (Some (Http None ''p.org'' None))) = Some ''[::1]''"
  by code_simp+

section \<open>The form of a target\<close>

text \<open>C18. The target of a request fits the connection it is sent on, a connection that the connector made for the destination of
  the request. On an HTTP/1 connection a CONNECT request has the authority as its target; any other request has the whole URI if it goes to an
  HTTP or HTTPS proxy without a tunnel, and otherwise the path only. On an HTTP/2 connection the URI is left as it is.\<close>
theorem target_fits_route:
  assumes "uri_laws U" and "check_request U ap ir = Some (Inr (rq, key) :: 'x client_err + ('u, 'm, 'b) core_request \<times> ('u, 'm) PoolKey)"
    and "service_call N H U svc key t = Some (t', Inr c)" and "conn_info pc = conn_connected pill addrs c"
    and "prepare_request H U cfg pc rq = Some (Inr rq')"
  shows "Some (cr_uri rq') =
    (if client_is_http2 pc then Some (cr_uri rq)
     else if cr_method rq = CONNECT then authority_form U (cr_uri rq)
     else if up_scheme (uri_parts_of U (cr_uri rq)) \<noteq> Some ''https'' \<and>
        (\<exists>auth host headers. fst (dst_take_proxy_scheme key) \<in> {Some (Http auth host headers), Some (Https auth host headers)})
     then Some (cr_uri rq) else origin_form U (cr_uri rq))"
proof -
  obtain uri b where d: "dst_new U ap (cr_uri (ir_request ir)) b (ir_network ir) (ir_version ir) = Some (uri, Inr key)"
    and rq: "rq = (ir_request ir)\<lparr>cr_uri := uri\<rparr>"
  proof -
    let ?d = "dst_new U ap (cr_uri (ir_request ir)) (cr_method (ir_request ir) = CONNECT) (ir_network ir) (ir_version ir)"
    obtain uri r where "?d = Some (uri, r)" using assms(2) by (auto simp: check_request_def Let_def split: if_splits)
    with assms(2) that show thesis by (cases r) (auto simp: check_request_def Let_def split: if_splits)
  qed
  from dst_new_key [OF assms(1) d] obtain scheme auth where k: "up_scheme (uri_parts_of U uri) = Some scheme" "up_authority (uri_parts_of U uri) = Some auth"
    "up_scheme (uri_parts_of U (pk_uri key)) = Some scheme" by (metis uri_parts.select_convs(1))
  have "co_is_proxy c \<longleftrightarrow> scheme \<noteq> ''https'' \<and>
      (\<exists>auth host headers. fst (dst_take_proxy_scheme key) = Some (Http auth host headers) \<or> fst (dst_take_proxy_scheme key) = Some (Https auth host headers))"
    using service_route [OF assms(1,3)] k(3) by (auto simp: Let_def split: if_splits)
  with k have t: "request_target U (cn_is_proxied (conn_info pc)) (cr_method rq) (cr_uri rq) =
     (if cr_method rq = CONNECT then authority_form U (cr_uri rq)
      else if up_scheme (uri_parts_of U (cr_uri rq)) \<noteq> Some ''https'' \<and>
        (\<exists>auth host headers. fst (dst_take_proxy_scheme key) \<in> {Some (Http auth host headers), Some (Https auth host headers)})
      then Some (cr_uri rq) else origin_form U (cr_uri rq))"
    by (auto simp: request_target_def assms(4) conn_connected_proxied absolute_form_def rq)
  show ?thesis
  proof (cases "client_is_http2 pc")
    case True
    then show ?thesis using assms(5) by (auto simp: prepare_request_def client_is_http1_def)
  next
    case False
    then have "request_target U (cn_is_proxied (conn_info pc)) (cr_method rq) (cr_uri rq) = Some (cr_uri rq')"
      using assms(5) by (auto simp: prepare_request_def client_is_http1_def set_host_header_def split: if_splits option.splits)
    with t False show ?thesis by simp
  qed
qed

definition demo_request :: "(uri_parts, assoc_map, unit) InnerRequest" where
  "demo_request =
     \<lparr>ir_request = \<lparr>cr_method = GET, cr_uri = \<lparr>up_scheme = Some ''http'', up_authority = Some ''a.org'', up_path = Some ''/x''\<rparr>,
        cr_version = HTTP_11, cr_headers = [], cr_body = ()\<rparr>,
      ir_version = None, ir_network = Scheme None (None, None) (Some (Http None ''p.org'' None))\<rparr>"

lemma demo_plain_ok:
  "case demo_call ''http'' (Some (Http None ''p.org'' None)) of Some (_, Inr c) \<Rightarrow> co_is_proxy c | _ \<Rightarrow> False"
  by code_simp

definition demo_client :: "'t Conn_io \<Rightarrow> conn_extra list PoolClient" where
  "demo_client c = \<lparr>conn_info = conn_connected 0 (\<lambda>_. None) c, client_tx = Http1Tx 0\<rparr>"

text \<open>Witness of C18: a plain request to a plain proxy.\<close>
theorem target_fits_route_witness:
  "\<exists>t c rq. demo_call ''http'' (Some (Http None ''p.org'' None)) = Some (t, Inr c) \<and>
     prepare_request assoc_http plain_uri (default_core_config\<lparr>cfg_set_host := False\<rparr>) (demo_client c) (ir_request demo_request) = Some (Inr rq) \<and>
     cr_uri rq = cr_uri (ir_request demo_request)"
proof -
  obtain t c where c: "demo_call ''http'' (Some (Http None ''p.org'' None)) = Some (t, Inr c)" and p: "co_is_proxy c"
  proof -
    obtain t r where "demo_call ''http'' (Some (Http None ''p.org'' None)) = Some (t, r)" using demo_plain_ok by (auto split: option.splits)
    with demo_plain_ok that show thesis by (cases r) auto
  qed
  let ?key = "demo_dst ''http'' (Some (Http None ''p.org'' None))"
  have k: "check_request plain_uri (\<lambda>_. None) demo_request =
      Some (Inr (ir_request demo_request, ?key) :: unit client_err + (uri_parts, assoc_map, unit) core_request \<times> (uri_parts, assoc_map) PoolKey)"
    by (simp add: check_request_def demo_request_def dst_new_def dst_build_def dst_alpn_def plain_uri_def demo_dst_def)
  have i: "conn_info (demo_client c) = conn_connected 0 (\<lambda>_. None) c" by (simp add: demo_client_def)
  have m: "cr_method (ir_request demo_request) = GET" "\<not> client_is_http2 (demo_client c)"
    by (simp_all add: demo_request_def demo_client_def client_is_http2_def)
  obtain rq where rq: "prepare_request assoc_http plain_uri (default_core_config\<lparr>cfg_set_host := False\<rparr>) (demo_client c) (ir_request demo_request) = Some (Inr rq)"
    using p by (auto simp: prepare_request_def demo_request_def demo_client_def default_core_config_def client_is_http1_def client_is_http2_def
        set_host_header_def request_target_def conn_connected_proxied absolute_form_def plain_uri_def)
  from target_fits_route [OF plain_uri.uri_laws_axioms k c [unfolded demo_call_def] i rq] c rq show ?thesis
    by (auto simp: m demo_dst_proxy) (auto simp: demo_request_def plain_uri_def)
qed

end
