(* ===== verification/Pool_Inv.thy ===== *)
theory Pool_Inv
  imports Pool_Sys
begin

text \<open>
  The invariant of the pool and its users, and the properties that rest on it: bounded idle lists, one HTTP/2 lock per
  host, every waiting request in the queue of its host, and only open connections handed out.
\<close>

section \<open>The invariant\<close>

definition queue :: "('c, 'k) PoolInner \<Rightarrow> 'k \<Rightarrow> nat list" where
  "queue I k = (case waiters I k of None \<Rightarrow> [] | Some ws \<Rightarrow> ws)"

definition cache_inv ::
  "('c \<Rightarrow> 'k \<Rightarrow> 'v Idle list option) \<Rightarrow> ('c \<Rightarrow> nat option) \<Rightarrow> ('c \<Rightarrow> bool) \<Rightarrow> pool_config \<Rightarrow> ('c, 'k) PoolInner \<Rightarrow> bool"
  where
  "cache_inv peek cap lok cfg I \<longleftrightarrow> lok (idle I) \<and> cap (idle I) = cfg_max_pool_size cfg \<and>
     max_idle_per_host I = cfg_max_idle_per_host cfg \<and> timeout I = cfg_idle_timeout cfg \<and>
     (\<forall>k l. peek (idle I) k = Some l \<longrightarrow> l \<noteq> [] \<and> length l \<le> cfg_max_idle_per_host cfg)"

definition locks :: "'k task list \<Rightarrow> 'k list" where
  "locks ts = map (\<lambda>t. ckey (tk_guard t)) (filter (\<lambda>t. cpool (tk_guard t)) ts)"

definition lock_inv :: "('c, 'k) PoolInner \<Rightarrow> 'k task list \<Rightarrow> bool" where
  "lock_inv I ts \<longleftrightarrow> distinct (locks ts) \<and> set (locks ts) = connecting_keys I \<and>
     list_all (\<lambda>t. cpool (tk_guard t) \<longleftrightarrow> tk_h2 t) ts"

definition settled :: "'v chan \<Rightarrow> bool" where
  "settled c \<longleftrightarrow> (case c of Sent _ \<Rightarrow> True | TxGone \<Rightarrow> True | _ \<Rightarrow> False)"

definition receivers :: "'k Checkout list \<Rightarrow> nat list" where
  "receivers cos = List.map_filter cowaiter cos"

text \<open>The receivers and the queues: every receiver's channel is settled, or open with its sender in the queue of its key;
  a sender in a queue is one of these, or its receiver is gone and the queue is still to be cleaned.\<close>

definition wait_inv :: "(nat \<Rightarrow> 'v chan) \<Rightarrow> ('k \<Rightarrow> nat list) \<Rightarrow> 'k Checkout list \<Rightarrow> 'k list \<Rightarrow> bool" where
  "wait_inv ch q cos cl \<longleftrightarrow>
     distinct (receivers cos) \<and> (\<forall>k. distinct (q k)) \<and>
     (\<forall>k k' tx. tx \<in> set (q k) \<longrightarrow> tx \<in> set (q k') \<longrightarrow> k = k') \<and>
     (\<forall>k tx. tx \<in> set (q k) \<longrightarrow> ch tx = RxGone \<and> k \<in> set cl \<or>
        ch tx = Waiting \<and> (\<exists>co\<in>set cos. cokey co = k \<and> cowaiter co = Some tx)) \<and>
     (\<forall>co\<in>set cos. \<forall>tx. cowaiter co = Some tx \<longrightarrow> ch tx = Waiting \<and> tx \<in> set (q (cokey co)) \<or> settled (ch tx))"

text \<open>A checkout between the two sections of its poll has the receiver it is about to register.\<close>

definition holding :: "'k Checkout \<times> nat option \<Rightarrow> 'k Checkout" where
  "holding ct = (case ct of (co, None) \<Rightarrow> co | (co, Some rx) \<Rightarrow> co\<lparr>cowaiter := Some rx\<rparr>)"

lemma holding_simps [simp]: "holding (co, None) = co" "holding (co, Some rx) = co\<lparr>cowaiter := Some rx\<rparr>"
  by (simp_all add: holding_def)

definition sys_inv ::
  "('s \<Rightarrow> nat \<Rightarrow> 'v chan) \<Rightarrow> ('c \<Rightarrow> 'k \<Rightarrow> 'v Idle list option) \<Rightarrow> ('c \<Rightarrow> nat option) \<Rightarrow> ('c \<Rightarrow> bool) \<Rightarrow>
   pool_config \<Rightarrow> ('c, 'k, 'v, 's) sys \<Rightarrow> bool" where
  "sys_inv chan_of peek cap lok cfg y \<longleftrightarrow>
     config_is_enabled cfg \<and> cache_inv peek cap lok cfg (sy_pool y) \<and> lock_inv (sy_pool y) (sy_tasks y) \<and>
     wait_inv (chan_of (sy_chans y)) (queue (sy_pool y)) (map holding (sy_checkouts y)) (sy_cleaning y)"

lemma locks_append [simp]: "locks (ts @ us) = locks ts @ locks us"
  and locks_Cons [simp]: "locks (t # ts) = (if cpool (tk_guard t) then [ckey (tk_guard t)] else []) @ locks ts"
  and locks_Nil [simp]: "locks [] = []"
  by (simp_all add: locks_def)

lemma receivers_append [simp]: "receivers (as @ bs) = receivers as @ receivers bs"
  and receivers_Cons [simp]: "receivers (co # cos) = (case cowaiter co of None \<Rightarrow> [] | Some c \<Rightarrow> [c]) @ receivers cos"
  and receivers_Nil [simp]: "receivers [] = []"
  by (simp_all add: receivers_def List.map_filter_def split: option.splits)

lemma set_receivers: "set (receivers cos) = {tx. \<exists>co\<in>set cos. cowaiter co = Some tx}"
  by (induction cos) (auto split: option.splits)

lemma receivers_unique:
  "distinct (receivers cos) \<Longrightarrow> a \<in> set cos \<Longrightarrow> b \<in> set cos \<Longrightarrow> cowaiter a = Some tx \<Longrightarrow> cowaiter b = Some tx \<Longrightarrow> a = b"
  by (induction cos) (auto simp: set_receivers split: option.splits)

lemma settled_simps [simp]: "settled (Sent v)" "settled TxGone" "\<not> settled Waiting" "\<not> settled Unused" "\<not> settled RxGone"
  by (simp_all add: settled_def)

lemma wait_inv_receiver:
  "wait_inv ch q cos cl \<Longrightarrow> co \<in> set cos \<Longrightarrow> cowaiter co = Some tx \<Longrightarrow>
   ch tx = Waiting \<and> tx \<in> set (q (cokey co)) \<or> settled (ch tx)"
  by (simp add: wait_inv_def)

lemma wait_inv_queue:
  "wait_inv ch q cos cl \<Longrightarrow> tx \<in> set (q k) \<Longrightarrow> ch tx = RxGone \<and> k \<in> set cl \<or>
   ch tx = Waiting \<and> (\<exists>co\<in>set cos. cokey co = k \<and> cowaiter co = Some tx)"
  by (simp add: wait_inv_def)

lemma wait_inv_distinct:
  "wait_inv ch q cos cl \<Longrightarrow> distinct (q k)" "wait_inv ch q cos cl \<Longrightarrow> distinct (receivers cos)"
  "wait_inv ch q cos cl \<Longrightarrow> tx \<in> set (q k) \<Longrightarrow> tx \<in> set (q k') \<Longrightarrow> k = k'"
  unfolding wait_inv_def by blast+

text \<open>A step that takes some waiters of one key out of its queue and settles the channels of those that were open.\<close>

lemma wait_inv_settle:
  assumes inv: "wait_inv ch q cos cl" and q': "q' = q(k := r)" and r: "distinct r" "set r \<subseteq> set (q k)"
    and ch': "\<And>tx. tx \<notin> set (q k) - set r \<Longrightarrow> ch' tx = ch tx"
    and out: "\<And>tx. tx \<in> set (q k) - set r \<Longrightarrow> ch tx = Waiting \<Longrightarrow> settled (ch' tx)"
  shows "wait_inv ch' q' cos cl"
proof -
  have sub: "set (q' k') \<subseteq> set (q k')" for k' using r(2) by (simp add: q')
  have same: "ch' tx = ch tx" if "tx \<in> set (q' k')" for tx k'
    using ch' that wait_inv_distinct(3) [OF inv, of tx k k'] sub by (cases "k' = k") (auto simp: q')
  have "ch' tx = RxGone \<and> k' \<in> set cl \<or> ch' tx = Waiting \<and> (\<exists>co\<in>set cos. cokey co = k' \<and> cowaiter co = Some tx)"
    if "tx \<in> set (q' k')" for k' tx
    using wait_inv_queue [OF inv, of tx k'] same [OF that] that sub by auto
  moreover have "ch' tx = Waiting \<and> tx \<in> set (q' (cokey co)) \<or> settled (ch' tx)"
    if co: "co \<in> set cos" "cowaiter co = Some tx" for co tx
  proof (cases "tx \<in> set (q k) - set r")
    case True
    then have "ch tx = Waiting" using wait_inv_receiver [OF inv co] wait_inv_queue [OF inv, of tx k] by auto
    with out [OF True] show ?thesis by simp
  next
    case False
    then show ?thesis using ch' [OF False] wait_inv_receiver [OF inv co] by (auto simp: q')
  qed
  moreover have "distinct (q' k')" for k' using r(1) wait_inv_distinct(1) [OF inv] by (simp add: q')
  moreover have "k' = k''" if "tx \<in> set (q' k')" "tx \<in> set (q' k'')" for tx k' k''
    using wait_inv_distinct(3) [OF inv, of tx k' k''] that sub by blast
  ultimately show ?thesis using wait_inv_distinct(2) [OF inv] by (simp add: wait_inv_def)
qed

text \<open>A receiver that goes away; its sender, if it is in a queue, is found closed, and the queue is to be cleaned.\<close>

lemma wait_inv_gone:
  assumes inv: "wait_inv ch q (cs @ co # ds) cl" and tx: "cowaiter co = Some tx"
    and ch': "\<And>x. x \<noteq> tx \<Longrightarrow> ch' x = ch x" and gone: "ch tx = Waiting \<Longrightarrow> ch' tx = RxGone \<and> cokey co \<in> set cl'"
    and cl': "set cl \<subseteq> set cl'"
  shows "wait_inv ch' q (cs @ ds) cl'"
proof -
  have others: "cowaiter a \<noteq> Some tx" if "a \<in> set (cs @ ds)" for a
    using inv tx that by (auto simp: wait_inv_def set_receivers)
  have "ch' x = RxGone \<and> k \<in> set cl' \<or> ch' x = Waiting \<and> (\<exists>a\<in>set (cs @ ds). cokey a = k \<and> cowaiter a = Some x)"
    if x: "x \<in> set (q k)" for k x
  proof (cases "x = tx")
    case True
    have "ch tx \<noteq> RxGone" using wait_inv_receiver [OF inv _ tx] by auto
    with wait_inv_queue [OF inv x] wait_inv_receiver [OF inv _ tx] True have w: "ch tx = Waiting" "tx \<in> set (q (cokey co))" by auto
    then have "k = cokey co" using wait_inv_distinct(3) [OF inv] x True by metis
    with gone w(1) True show ?thesis by simp
  next
    case False
    with wait_inv_queue [OF inv x] ch' tx cl' show ?thesis by auto
  qed
  moreover have "ch' x = Waiting \<and> x \<in> set (q (cokey a)) \<or> settled (ch' x)" if "a \<in> set (cs @ ds)" "cowaiter a = Some x" for a x
  proof -
    have "x \<noteq> tx" using others that by metis
    then show ?thesis using wait_inv_receiver [OF inv, of a x] that ch' by auto
  qed
  moreover have "distinct (receivers (cs @ ds))" using wait_inv_distinct(2) [OF inv] tx by auto
  ultimately show ?thesis
    using wait_inv_distinct(1,3) [OF inv] unfolding wait_inv_def by blast
qed

lemma wait_inv_remove_idle:
  "wait_inv ch q (cs @ co # ds) cl \<Longrightarrow> cowaiter co = None \<Longrightarrow> wait_inv ch q (cs @ ds) cl"
  unfolding wait_inv_def by auto

lemma wait_inv_forget:
  "wait_inv ch q (cs @ ds) cl \<Longrightarrow> cowaiter co = None \<Longrightarrow> wait_inv ch q (cs @ co # ds) cl"
  unfolding wait_inv_def by auto

lemma wait_inv_cleaned:
  assumes "wait_inv ch q cos (ks @ k # js)" and "\<forall>tx\<in>set (q k). ch tx \<noteq> RxGone"
  shows "wait_inv ch q cos (ks @ js)"
proof -
  have "ch tx = RxGone \<and> k' \<in> set (ks @ js) \<or> ch tx = Waiting \<and> (\<exists>co\<in>set cos. cokey co = k' \<and> cowaiter co = Some tx)"
    if "tx \<in> set (q k')" for tx k'
    using wait_inv_queue [OF assms(1) that] assms(2) that by (cases "k' = k") auto
  with assms(1) show ?thesis unfolding wait_inv_def by blast
qed

lemma wait_inv_add:
  assumes "wait_inv ch q (cs @ co # ds) cl" and "cowaiter co = None" and "ch tx = Unused"
  shows "wait_inv (ch(tx := Waiting)) (q(cokey co := q (cokey co) @ [tx])) (cs @ co\<lparr>cowaiter := Some tx\<rparr> # ds) cl"
proof -
  have nq: "tx \<notin> set (q k)" for k using wait_inv_queue [OF assms(1), of tx k] assms(3) by auto
  have nr: "cowaiter a \<noteq> Some tx" if "a \<in> set (cs @ co # ds)" for a
    using wait_inv_receiver [OF assms(1) that, of tx] assms(3) by auto
  let ?q = "q(cokey co := q (cokey co) @ [tx])" and ?cos = "cs @ co\<lparr>cowaiter := Some tx\<rparr> # ds"
  have "tx \<notin> set (receivers cs)" "tx \<notin> set (receivers ds)" using nr by (auto simp: set_receivers)
  then have "distinct (receivers ?cos)" using wait_inv_distinct(2) [OF assms(1)] assms(2) by auto
  moreover have "distinct (?q k)" for k using wait_inv_distinct(1) [OF assms(1)] nq by simp
  moreover have "k = k'" if "x \<in> set (?q k)" "x \<in> set (?q k')" for x k k'
    using that wait_inv_distinct(3) [OF assms(1), of x k k'] nq by (auto split: if_splits)
  moreover have "(ch(tx := Waiting)) x = RxGone \<and> k \<in> set cl \<or>
      (ch(tx := Waiting)) x = Waiting \<and> (\<exists>a\<in>set ?cos. cokey a = k \<and> cowaiter a = Some x)" if "x \<in> set (?q k)" for x k
  proof (cases "x = tx")
    case True
    with that nq show ?thesis by (auto split: if_splits)
  next
    case False
    with that have "x \<in> set (q k)" by (auto split: if_splits)
    from wait_inv_queue [OF assms(1) this] False assms(2) show ?thesis by auto
  qed
  moreover have "(ch(tx := Waiting)) x = Waiting \<and> x \<in> set (?q (cokey a)) \<or> settled ((ch(tx := Waiting)) x)"
    if a: "a \<in> set ?cos" "cowaiter a = Some x" for a x
  proof (cases "a \<in> set (cs @ ds)")
    case True
    then have "x \<noteq> tx" using nr [of a] a(2) by auto
    with wait_inv_receiver [OF assms(1), of a x] True a(2) show ?thesis by auto
  next
    case False
    then have "a = co\<lparr>cowaiter := Some tx\<rparr>" using a(1) by auto
    with a(2) show ?thesis by simp
  qed
  ultimately show ?thesis unfolding wait_inv_def by blast
qed

section \<open>Idle lists\<close>

lemma idle_pop_Nil [simp]: "idle_pop P ex now [] = ([], None)"
  by (simp add: idle_pop.simps)

lemma idle_pop_snoc [simp]:
  "idle_pop P ex now (l @ [x]) =
     (if \<not> is_open P (ivalue x) \<or> expires ex now (idle_at x) then idle_pop P ex now l
      else case reserve P (ivalue x) of
             Shared a b \<Rightarrow> (l @ [\<lparr>idle_at = now, ivalue = a\<rparr>], Some \<lparr>idle_at = idle_at x, ivalue = b\<rparr>)
           | Unique u \<Rightarrow> (l, Some \<lparr>idle_at = idle_at x, ivalue = u\<rparr>))"
  by (subst idle_pop.simps) (simp add: Let_def)

lemma idle_pop_length: "idle_pop P ex now l = (l', e) \<Longrightarrow> length l' \<le> length l"
  by (induction l arbitrary: l' e rule: rev_induct)
    (auto split: if_splits Reservation.splits simp: le_Suc_eq)

lemma idle_pop_None: "idle_pop P ex now l = (l', None) \<Longrightarrow> l' = []"
  by (induction l rule: rev_induct) (auto split: if_splits Reservation.splits)

context poolable_laws begin

lemma reserve_eq: "reserve P v = (if can_share P v then Shared v v else Unique v)"
  by (simp add: reserve_shared reserve_unique)

text \<open>What is taken from an idle list is an open entry of it that has not expired.\<close>

lemma idle_pop_good:
  "idle_pop P ex now l = (l', Some e) \<Longrightarrow>
    e \<in> set l \<and> is_open P (ivalue e) \<and> \<not> expires ex now (idle_at e)"
  by (induction l arbitrary: l' rule: rev_induct) (auto simp: reserve_eq split: if_splits)

text \<open>The entries passed over are exactly those after it that are closed or expired.\<close>

lemma idle_pop_unique:
  "idle_pop P ex now l = (l', Some e) \<Longrightarrow> \<not> can_share P (ivalue e) \<Longrightarrow>
    \<exists>passed. l = l' @ e # passed \<and> list_all (\<lambda>x. \<not> is_open P (ivalue x) \<or> expires ex now (idle_at x)) passed"
proof (induction l arbitrary: l' rule: rev_induct)
  case (snoc x l)
  show ?case
  proof (cases "\<not> is_open P (ivalue x) \<or> expires ex now (idle_at x)")
    case True
    with snoc obtain passed where
      "l = l' @ e # passed" "list_all (\<lambda>x. \<not> is_open P (ivalue x) \<or> expires ex now (idle_at x)) passed" by auto
    with True show ?thesis by (intro exI [of _ "passed @ [x]"]) simp
  next
    case False
    with snoc.prems show ?thesis by (auto simp: reserve_eq split: if_splits)
  qed
qed simp

end

lemma at_moment_laws: "poolable_laws P \<Longrightarrow> poolable_laws (at_moment P opn)"
  by (simp add: poolable_laws_def at_moment_def)

lemma at_moment_simps [simp]:
  "can_share (at_moment P opn) = can_share P" "reserve (at_moment P opn) = reserve P" "is_open (at_moment P opn) = opn"
  by (simp_all add: at_moment_def)

section \<open>Queues and channels\<close>

lemma queue_simps [simp]:
  "queue (set_waiters k ws I) = (queue I)(k := ws)"
  "queue (push_waiter k tx I) = (queue I)(k := queue I k @ [tx])"
  "queue (I\<lparr>idle := c\<rparr>) = queue I" "queue (I\<lparr>connecting_keys := ks\<rparr>) = queue I"
  "queue (spawn_idle_interval I) = queue I"
  by (auto simp: queue_def set_waiters_def push_waiter_def spawn_idle_interval_def fun_eq_iff split: option.splits)

lemma set_waiters_simps [simp]:
  "idle (set_waiters k ws I) = idle I" "max_idle_per_host (set_waiters k ws I) = max_idle_per_host I"
  "connecting_keys (set_waiters k ws I) = connecting_keys I" "timeout (set_waiters k ws I) = timeout I"
  by (simp_all add: set_waiters_def)

lemma push_waiter_simps [simp]:
  "idle (push_waiter k tx I) = idle I" "max_idle_per_host (push_waiter k tx I) = max_idle_per_host I"
  "connecting_keys (push_waiter k tx I) = connecting_keys I"
  by (simp_all add: push_waiter_def)

lemma spawn_simps [simp]:
  "idle (spawn_idle_interval I) = idle I" "max_idle_per_host (spawn_idle_interval I) = max_idle_per_host I"
  "connecting_keys (spawn_idle_interval I) = connecting_keys I" "waiters (spawn_idle_interval I) = waiters I"
  "timeout (spawn_idle_interval I) = timeout I"
  by (auto simp: spawn_idle_interval_def split: option.splits)

locale pool_env = os: oneshot OS chan_of + lr: lru LR peek cap lok + pl: poolable_laws P
  for OS :: "('s, 'v) oneshot_ops" and chan_of and LR :: "('c, 'k, 'v) cache_ops" and peek cap lok
    and P :: "'v poolable"
begin

text \<open>The senders in a queue are open or closed; what a connection given to them does.\<close>

abbreviation closed :: "'s \<Rightarrow> nat \<Rightarrow> bool" where
  "closed s tx \<equiv> chan_of s tx = RxGone"

definition live :: "'s \<Rightarrow> nat list \<Rightarrow> nat list" where
  "live s ws = dropWhile (closed s) ws"

lemma live_cong: "(\<And>x. x \<in> set ws \<Longrightarrow> closed s' x = closed s x) \<Longrightarrow> live s' ws = live s ws"
  unfolding live_def by (rule dropWhile_cong) auto

text \<open>A unique connection goes to the first that is open; the closed ones before it are dropped.\<close>

lemma put_waiters_unique:
  assumes "\<not> can_share P v" and "\<forall>tx\<in>set ws. chan_of s tx = Waiting \<or> closed s tx" and "distinct ws"
  obtains s' where "put_waiters OS P ws s v = (s', tl (live s ws), if live s ws = [] then Some v else None)"
    and "chan_of s' = (\<lambda>x. if x \<in> set (takeWhile (closed s) ws) then Unused
      else if live s ws \<noteq> [] \<and> x = hd (live s ws) then Sent v else chan_of s x)"
  using assms(2,3)
proof (induction ws arbitrary: s thesis)
  case Nil
  then show ?case by (simp add: live_def)
next
  case (Cons tx ws)
  show ?case
  proof (cases "closed s tx")
    case False
    with Cons.prems have w: "chan_of s tx = Waiting" by simp
    obtain s1 r where sd: "os_send OS s tx v = (s1, r)" by force
    then have "r = None" "chan_of s1 = (chan_of s)(tx := Sent v)"
      using os.send_result [of s tx v] os.send_chan [of s tx v] w by simp_all
    then show ?thesis
      using Cons.prems(1) [of s1] sd w assms(1) by (auto simp: pl.reserve_eq os.is_closed_iff live_def fun_eq_iff)
  next
    case True
    let ?s = "os_drop_tx OS s tx"
    have ch: "chan_of ?s = (chan_of s)(tx := Unused)" using True by (simp add: os.drop_tx_chan)
    have tx: "tx \<notin> set ws" using Cons.prems by simp
    have "\<forall>x\<in>set ws. chan_of ?s x = Waiting \<or> closed ?s x" using Cons.prems tx by (auto simp: ch)
    then obtain s1 where s1: "put_waiters OS P ws ?s v = (s1, tl (live ?s ws), if live ?s ws = [] then Some v else None)"
      "chan_of s1 = (\<lambda>x. if x \<in> set (takeWhile (closed ?s) ws) then Unused
        else if live ?s ws \<noteq> [] \<and> x = hd (live ?s ws) then Sent v else chan_of ?s x)"
      using Cons.IH Cons.prems by auto
    have "live ?s ws = live s ws" by (rule live_cong) (use tx in \<open>auto simp: ch\<close>)
    then have l: "live ?s ws = live s (tx # ws)" using True by (simp add: live_def)
    have t: "takeWhile (closed ?s) ws = takeWhile (closed s) ws"
      by (rule takeWhile_cong) (use tx in \<open>auto simp: ch\<close>)
    have n: "hd (live s (tx # ws)) \<noteq> tx" if "live s (tx # ws) \<noteq> []"
    proof -
      have "hd (live s (tx # ws)) \<in> set (dropWhile (closed s) ws)"
        using that True hd_in_set [of "dropWhile (closed s) ws"] by (simp add: live_def)
      then have "hd (live s (tx # ws)) \<in> set ws" by (rule set_dropWhileD)
      with tx show ?thesis by metis
    qed
    have "put_waiters OS P (tx # ws) s v = (s1, tl (live s (tx # ws)), if live s (tx # ws) = [] then Some v else None)"
      using s1(1) True by (simp add: os.is_closed_iff l)
    then show ?thesis
      using Cons.prems(1) [of s1] s1(2) True n unfolding l t by (auto simp: ch fun_eq_iff)
  qed
qed

lemma put_waiters_shared:
  assumes "can_share P v" and "\<forall>tx\<in>set ws. chan_of s tx = Waiting \<or> closed s tx" and "distinct ws"
  obtains s' where "put_waiters OS P ws s v = (s', [], Some v)"
    and "chan_of s' = (\<lambda>x. if x \<in> set ws then if closed s x then Unused else Sent v else chan_of s x)"
  using assms(2,3)
proof (induction ws arbitrary: s thesis)
  case Nil
  then show ?case by simp
next
  case (Cons tx ws)
  show ?case
  proof (cases "closed s tx")
    case False
    then have w: "chan_of s tx = Waiting" using Cons.prems by simp
    obtain s1 r where sd: "os_send OS s tx v = (s1, r)" by force
    then have r: "r = None" "chan_of s1 = (chan_of s)(tx := Sent v)"
      using os.send_result [of s tx v] os.send_chan [of s tx v] w by simp_all
    have "\<forall>x\<in>set ws. chan_of s1 x = Waiting \<or> closed s1 x" using Cons.prems r by auto
    then obtain s' where s': "put_waiters OS P ws s1 v = (s', [], Some v)"
      "chan_of s' = (\<lambda>x. if x \<in> set ws then if closed s1 x then Unused else Sent v else chan_of s1 x)"
      using Cons.IH Cons.prems by auto
    have "put_waiters OS P (tx # ws) s v = (s', [], Some v)"
      using sd r(1) s'(1) w assms(1) by (simp add: pl.reserve_eq os.is_closed_iff)
    then show ?thesis using Cons.prems s'(2) r(2) False by (auto simp: fun_eq_iff)
  next
    case True
    let ?s = "os_drop_tx OS s tx"
    have ch: "chan_of ?s = (chan_of s)(tx := Unused)" using True by (simp add: os.drop_tx_chan)
    have "\<forall>x\<in>set ws. chan_of ?s x = Waiting \<or> closed ?s x" using Cons.prems by (auto simp: ch)
    then obtain s' where s': "put_waiters OS P ws ?s v = (s', [], Some v)"
      "chan_of s' = (\<lambda>x. if x \<in> set ws then if closed ?s x then Unused else Sent v else chan_of ?s x)"
      using Cons.IH Cons.prems by auto
    have "put_waiters OS P (tx # ws) s v = (s', [], Some v)" using s'(1) True by (simp add: os.is_closed_iff)
    then show ?thesis using Cons.prems s'(2) True by (auto simp: ch fun_eq_iff)
  qed
qed

text \<open>The idle lists stay non-empty and within their bound.\<close>

lemma put_idle_inv:
  assumes "cache_inv peek cap lok cfg I" and "config_is_enabled cfg"
  shows "cache_inv peek cap lok cfg (put_idle LR now k v I)"
proof -
  obtain c l where ins: "lru_get_or_insert LR (idle I) k [] = (c, l)" by force
  have ok: "lok (idle I)" using assms(1) by (simp add: cache_inv_def)
  note old = lr.insert_value [OF ok ins] lr.insert_other [OF ok ins]
  have c: "lok c" "cap c = cap (idle I)" "peek c k = Some l"
    using lr.insert_ok [OF ok] lr.insert_cap [OF ok] old(1) ins by (metis fst_conv)+
  have others: "\<forall>k' x. k' \<noteq> k \<longrightarrow> peek c k' = Some x \<longrightarrow> x \<noteq> [] \<and> length x \<le> cfg_max_idle_per_host cfg"
    using assms(1) old(2) by (auto simp: cache_inv_def)
  have l: "length l \<le> cfg_max_idle_per_host cfg" "max_idle_per_host I \<le> length l \<Longrightarrow> l \<noteq> []"
    using assms old(1) by (auto simp: cache_inv_def config_is_enabled_def split: option.splits)
  show ?thesis
  proof (cases "max_idle_per_host I \<le> length l")
    case True
    have "x \<noteq> [] \<and> length x \<le> cfg_max_idle_per_host cfg" if "peek c k' = Some x" for k' x
      using that others l True c(3) by (cases "k' = k") auto
    with True show ?thesis using assms(1) c by (simp add: cache_inv_def put_idle_def ins)
  next
    case False
    let ?c = "lru_assign LR c k (l @ [\<lparr>idle_at = now, ivalue = v\<rparr>])"
    have "lok ?c" "cap ?c = cap c" "peek ?c = (peek c)(k \<mapsto> l @ [\<lparr>idle_at = now, ivalue = v\<rparr>])"
      using lr.assign_peek [OF c(1)] lr.assign_ok [OF c(1)] lr.assign_cap [OF c(1)] c(3) by simp_all
    then show ?thesis using False assms(1) c(2) others by (auto simp: cache_inv_def put_idle_def ins)
  qed
qed

lemma put_idle_other [simp]:
  "queue (put_idle LR now k v I) = queue I" "connecting_keys (put_idle LR now k v I) = connecting_keys I"
  by (simp_all add: put_idle_def split: prod.splits)

lemma cache_inv_other [simp]:
  "cache_inv peek cap lok cfg (set_waiters k ws I) = cache_inv peek cap lok cfg I"
  "cache_inv peek cap lok cfg (push_waiter k tx I) = cache_inv peek cap lok cfg I"
  "cache_inv peek cap lok cfg (I\<lparr>connecting_keys := ks\<rparr>) = cache_inv peek cap lok cfg I"
  "cache_inv peek cap lok cfg (I\<lparr>connecting_keys := ks, waiters := qs\<rparr>) = cache_inv peek cap lok cfg I"
  by (simp_all add: cache_inv_def set_waiters_def push_waiter_def)

text \<open>What putting a connection does to the queue of its key.\<close>

lemma put_queue:
  assumes inv: "wait_inv (chan_of s) (queue I) cos cl"
    and put: "put OS LR P now k v (I, s) = (I', s')" and not_kept: "\<not> (can_share P v \<and> lru_contains LR (idle I) k)"
  defines "ws \<equiv> queue I k"
  shows "queue I' = (queue I)(k := if can_share P v then [] else tl (live s ws))"
    and "can_share P v \<Longrightarrow> chan_of s' = (\<lambda>tx. if tx \<in> set ws then if closed s tx then Unused else Sent v else chan_of s tx)"
    and "\<not> can_share P v \<Longrightarrow> chan_of s' = (\<lambda>tx. if tx \<in> set (takeWhile (closed s) ws) then Unused
      else if live s ws \<noteq> [] \<and> tx = hd (live s ws) then Sent v else chan_of s tx)"
    and "I' = (if can_share P v \<or> live s ws = []
               then put_idle LR now k v (set_waiters k [] I) else set_waiters k (tl (live s ws)) I)"
    and "connecting_keys I' = connecting_keys I"
proof -
  have w: "\<forall>tx\<in>set ws. chan_of s tx = Waiting \<or> closed s tx" and d: "distinct ws"
    using inv wait_inv_queue [OF inv] wait_inv_distinct(1) [OF inv] by (auto simp: ws_def)
  have no: "waiters I k = None \<Longrightarrow> set_waiters k [] I = I" by (simp add: set_waiters_def fun_upd_idem)
  have q: "waiters I k = None \<Longrightarrow> ws = []" "\<And>x. waiters I k = Some x \<Longrightarrow> ws = x" by (simp_all add: ws_def queue_def)
  have "(can_share P v \<longrightarrow> chan_of s' = (\<lambda>tx. if tx \<in> set ws then if closed s tx then Unused else Sent v else chan_of s tx)) \<and>
    (\<not> can_share P v \<longrightarrow> chan_of s' = (\<lambda>tx. if tx \<in> set (takeWhile (closed s) ws) then Unused
      else if live s ws \<noteq> [] \<and> tx = hd (live s ws) then Sent v else chan_of s tx)) \<and>
    I' = (if can_share P v \<or> live s ws = [] then put_idle LR now k v (set_waiters k [] I) else set_waiters k (tl (live s ws)) I)"
  proof (cases "can_share P v")
    case True
    obtain s1 where s1: "put_waiters OS P ws s v = (s1, [], Some v)"
      "chan_of s1 = (\<lambda>x. if x \<in> set ws then if closed s x then Unused else Sent v else chan_of s x)"
      using put_waiters_shared [OF True w d] by blast
    show ?thesis using put not_kept True s1 no q
      by (cases "waiters I k") (auto simp: put_def fun_eq_iff)
  next
    case False
    obtain s1 where s1: "put_waiters OS P ws s v = (s1, tl (live s ws), if live s ws = [] then Some v else None)"
      "chan_of s1 = (\<lambda>x. if x \<in> set (takeWhile (closed s) ws) then Unused
        else if live s ws \<noteq> [] \<and> x = hd (live s ws) then Sent v else chan_of s x)"
      using put_waiters_unique [OF False w d] by blast
    have e: "live s ws = [] \<Longrightarrow> tl (live s ws) = []" by simp
    have n: "live s [] = []" by (simp add: live_def)
    show ?thesis
    proof (cases "waiters I k")
      case None
      then show ?thesis using put not_kept False no q n by (auto simp: put_def fun_eq_iff)
    next
      case (Some x)
      then show ?thesis using put not_kept False s1 q e by (cases "live s ws = []") (simp_all add: put_def)
    qed
  qed
  then show "can_share P v \<Longrightarrow> chan_of s' = (\<lambda>tx. if tx \<in> set ws then if closed s tx then Unused else Sent v else chan_of s tx)"
    and "\<not> can_share P v \<Longrightarrow> chan_of s' = (\<lambda>tx. if tx \<in> set (takeWhile (closed s) ws) then Unused
      else if live s ws \<noteq> [] \<and> tx = hd (live s ws) then Sent v else chan_of s tx)"
    and I': "I' = (if can_share P v \<or> live s ws = [] then put_idle LR now k v (set_waiters k [] I) else set_waiters k (tl (live s ws)) I)"
    by auto
  show "queue I' = (queue I)(k := if can_share P v then [] else tl (live s ws))" unfolding I' by auto
  show "connecting_keys I' = connecting_keys I" unfolding I' by simp
qed

lemma live_split:
  assumes "distinct ws"
  shows "distinct (tl (live s ws))" "set (tl (live s ws)) \<subseteq> set ws"
    "set ws - set (tl (live s ws)) = set (takeWhile (closed s) ws) \<union> (if live s ws = [] then {} else {hd (live s ws)})"
proof -
  have ws: "ws = takeWhile (closed s) ws @ live s ws" by (simp add: live_def)
  from assms have d: "distinct (takeWhile (closed s) ws @ live s ws)" by (simp only: ws [symmetric])
  then show "distinct (tl (live s ws))" by (simp add: distinct_tl)
  have s: "set ws = set (takeWhile (closed s) ws) \<union> set (live s ws)" by (subst ws) simp
  then show "set (tl (live s ws)) \<subseteq> set ws" by (cases "live s ws") auto
  show "set ws - set (tl (live s ws)) = set (takeWhile (closed s) ws) \<union> (if live s ws = [] then {} else {hd (live s ws)})"
    using s d by (cases "live s ws") auto
qed

lemma put_inv:
  assumes "cache_inv peek cap lok cfg I" and "wait_inv (chan_of s) (queue I) cos cl" and "config_is_enabled cfg"
    and "put OS LR P now k v (I, s) = (I', s')"
  shows "cache_inv peek cap lok cfg I' \<and> wait_inv (chan_of s') (queue I') cos cl \<and> connecting_keys I' = connecting_keys I"
proof (cases "can_share P v \<and> lru_contains LR (idle I) k")
  case True
  then show ?thesis using assms by (simp add: put_def)
next
  case False
  note eff = put_queue [OF assms(2,4) False]
  have c: "cache_inv peek cap lok cfg I'" unfolding eff(4) using assms(1,3) by (simp add: put_idle_inv)
  have d: "distinct (queue I k)" using wait_inv_distinct(1) [OF assms(2)] .
  have "wait_inv (chan_of s') (queue I') cos cl"
  proof (cases "can_share P v")
    case True
    show ?thesis
      by (rule wait_inv_settle [OF assms(2), of _ k "[]"]) (use eff(1,2) True in auto)
  next
    case u: False
    note l = live_split [OF d, of s]
    have closed: "closed s tx" if "tx \<in> set (takeWhile (closed s) (queue I k))" for tx
      using set_takeWhileD [OF that] by simp
    show ?thesis
      by (rule wait_inv_settle [OF assms(2), of _ k "tl (live s (queue I k))"])
        (use eff(1,3) u l closed in \<open>auto split: if_splits\<close>)
  qed
  with c eff(5) show ?thesis by blast
qed

lemma connected_inv:
  assumes "cache_inv peek cap lok cfg I" and "wait_inv (chan_of s) (queue I) cos cl"
    and "connected OS k (I, s) = (I', s')"
  shows "cache_inv peek cap lok cfg I' \<and> wait_inv (chan_of s') (queue I') cos cl \<and>
    connecting_keys I' = connecting_keys I - {k}"
proof -
  have I': "I' = I\<lparr>connecting_keys := connecting_keys I - {k}, waiters := (waiters I)(k := None)\<rparr>"
    and s': "s' = drop_waiters OS (waiters I k) s" using assms(3) by (auto simp: connected_def)
  have q: "queue I' = (queue I)(k := [])" by (auto simp: I' queue_def fun_eq_iff)
  have ch: "chan_of s' = (\<lambda>x. if x \<in> set (queue I k) then chan_drop_tx (chan_of s x) else chan_of s x)"
    by (auto simp: s' drop_waiters_def queue_def os.chan_of_drop_txs fun_eq_iff split: option.splits)
  have "wait_inv (chan_of s') (queue I') cos cl"
    by (rule wait_inv_settle [OF assms(2) q]) (auto simp: ch)
  then show ?thesis using assms(1) by (simp add: I')
qed

lemma take_idle_inv:
  assumes "cache_inv peek cap lok cfg I" and "take_idle LR P now k I = (I', r)"
  shows "cache_inv peek cap lok cfg I' \<and> queue I' = queue I \<and> connecting_keys I' = connecting_keys I"
proof -
  obtain c l where g: "lru_get_mut LR (idle I) k = (c, l)" by force
  have ok: "lok (idle I)" using assms(1) by (simp add: cache_inv_def)
  have c: "lok c" "cap c = cap (idle I)" "peek c = peek (idle I)" "l = peek (idle I) k"
    using lr.get_ok [OF ok, of k] lr.get_cap [OF ok, of k] lr.get_mut [OF ok g] g by auto
  show ?thesis
  proof (cases l)
    case None
    have p: "lok (lru_pop LR c k)" "cap (lru_pop LR c k) = cap (idle I)" "peek (lru_pop LR c k) = (peek (idle I))(k := None)"
      using lr.pop_ok [OF c(1)] lr.pop_cap [OF c(1)] lr.pop_peek [OF c(1)] c(2,3) by simp_all
    have "I' = I\<lparr>idle := lru_pop LR c k\<rparr>" using assms(2) g None by (simp add: take_idle_def)
    then show ?thesis using assms(1) p by (simp add: cache_inv_def)
  next
    case (Some xs)
    obtain xs' e where p: "idle_pop P (timeout I) now xs = (xs', e)" by force
    have len: "length xs' \<le> cfg_max_idle_per_host cfg"
      using idle_pop_length [OF p] assms(1) Some c(4) unfolding cache_inv_def by (metis le_trans)
    let ?c = "lru_assign LR c k xs'"
    have a: "lok ?c" "cap ?c = cap c" "peek ?c = (peek c)(k \<mapsto> xs')"
      using lr.assign_ok [OF c(1), of k] lr.assign_cap [OF c(1), of k] lr.assign_peek [OF c(1), of k] c(3,4) Some
      by (metis option.distinct(1))+
    note popped = lr.pop_ok [OF a(1)] lr.pop_cap [OF a(1)] lr.pop_peek [OF a(1)]
    have I': "I' = I\<lparr>idle := if xs' = [] then lru_pop LR ?c k else ?c\<rparr>"
      using assms(2) g Some p by (cases e) (auto simp: take_idle_def Let_def dest: idle_pop_None)
    show ?thesis unfolding I' using assms(1) c(2,3) a popped [of k] len
      by (cases "xs' = []") (simp_all add: cache_inv_def)
  qed
qed

lemma clear_expired_inv:
  assumes "cache_inv peek cap lok cfg I" and "clear_expired LR P now I = Some I'"
  shows "cache_inv peek cap lok cfg I' \<and> queue I' = queue I \<and> connecting_keys I' = connecting_keys I"
proof -
  obtain dur where dur: "timeout I = Some dur" using assms(2) by (auto simp: clear_expired_def split: option.splits)
  let ?f = "filter (keep_entry P dur now)"
  obtain c kvs where it: "lru_iter_mut LR (idle I) ?f = (c, kvs)" by force
  have ok: "lok (idle I)" using assms(1) by (simp add: cache_inv_def)
  have c: "lok c" "cap c = cap (idle I)" using lr.iter_ok [OF ok, of ?f] lr.iter_cap [OF ok, of ?f] it by auto
  have it': "peek c k = map_option ?f (peek (idle I) k)" and kvs: "set kvs = {(k, v). peek c k = Some v}" for k
    using lr.iter_mut [OF ok it] by (metis, blast)
  define ks where "ks = map fst (filter (\<lambda>(k, vs). vs = []) kvs)"
  have ks: "k \<in> set ks \<longleftrightarrow> peek c k = Some []" for k by (force simp: ks_def kvs)
  have I': "I' = I\<lparr>idle := fold (\<lambda>k c. lru_pop LR c k) ks c\<rparr>"
    using assms(2) dur it by (simp add: clear_expired_def ks_def Let_def)
  have "l \<noteq> [] \<and> length l \<le> cfg_max_idle_per_host cfg" if l: "peek (idle I') k = Some l" for k l
  proof -
    have "peek c k = Some l" "k \<notin> set ks" using l lr.pop_all [OF c(1), of ks] by (auto simp: I' split: if_splits)
    then obtain l0 where "peek (idle I) k = Some l0" "l = ?f l0" "l \<noteq> []" using it' ks by auto
    moreover have "length (?f l0) \<le> length l0" by simp
    ultimately show ?thesis using assms(1) unfolding cache_inv_def by (metis le_trans)
  qed
  then show ?thesis using assms(1) c lr.pop_all [OF c(1), of ks] by (simp add: cache_inv_def I')
qed

lemma drop_checkout_inv:
  assumes inv: "wait_inv (chan_of s) q (cs @ co # ds) cl" and dr: "drop_checkout OS co s = (s', r)"
  shows "wait_inv (chan_of s') q (cs @ ds) ((case r of None \<Rightarrow> [] | Some k \<Rightarrow> [k]) @ cl)"
proof (cases "cowaiter co")
  case None
  then show ?thesis using assms wait_inv_remove_idle by (auto simp: drop_checkout_def)
next
  case (Some tx)
  then have "s' = os_drop_rx OS s tx" "r = Some (cokey co)" using dr by (auto simp: drop_checkout_def)
  then show ?thesis
    by (intro wait_inv_gone [OF inv Some]) (auto simp: os.drop_rx_chan)
qed

lemma clean_waiters_inv:
  assumes inv: "wait_inv (chan_of s) (queue I) cos (ks @ k # js)" and c: "clean_waiters OS k (I, s) = (I', s')"
  shows "wait_inv (chan_of s') (queue I') cos (ks @ js) \<and> idle I' = idle I \<and> connecting_keys I' = connecting_keys I \<and>
    max_idle_per_host I' = max_idle_per_host I \<and> timeout I' = timeout I"
proof -
  let ?r = "filter (\<lambda>tx. \<not> closed s tx) (queue I k)"
  have cl: "os_is_closed OS s = closed s" by (simp add: os.is_closed_iff fun_eq_iff)
  have "queue I' = (queue I)(k := ?r) \<and>
      chan_of s' = (\<lambda>x. if x \<in> set (queue I k) \<and> closed s x then Unused else chan_of s x) \<and>
      idle I' = idle I \<and> connecting_keys I' = connecting_keys I \<and>
      max_idle_per_host I' = max_idle_per_host I \<and> timeout I' = timeout I"
  proof (cases "waiters I k")
    case None
    then have "queue I k = []" by (simp add: queue_def)
    with None c show ?thesis by (auto simp: clean_waiters_def)
  next
    case (Some ws)
    then have "queue I k = ws" by (simp add: queue_def)
    with Some c show ?thesis by (auto simp: clean_waiters_def cl os.chan_of_drop_txs fun_eq_iff)
  qed
  then have q: "queue I' = (queue I)(k := ?r)"
    and ch: "chan_of s' = (\<lambda>x. if x \<in> set (queue I k) \<and> closed s x then Unused else chan_of s x)"
    and I': "idle I' = idle I \<and> connecting_keys I' = connecting_keys I \<and>
      max_idle_per_host I' = max_idle_per_host I \<and> timeout I' = timeout I"
    by auto
  have "wait_inv (chan_of s') (queue I') cos (ks @ k # js)"
    by (rule wait_inv_settle [OF inv q]) (use wait_inv_distinct(1) [OF inv, of k] in \<open>auto simp: ch\<close>)
  moreover have "\<forall>tx\<in>set (queue I' k). chan_of s' tx \<noteq> RxGone" by (simp add: q ch)
  ultimately have "wait_inv (chan_of s') (queue I') cos (ks @ js)" by (rule wait_inv_cleaned)
  with I' show ?thesis by simp
qed

text \<open>A receiver that has been polled to an end is gone, and its sender is in no queue.\<close>

lemma wait_inv_finished:
  assumes inv: "wait_inv ch q (cs @ co # ds) cl" and "cowaiter co = Some tx" and "ch tx \<noteq> Waiting" and "\<And>x. x \<noteq> tx \<Longrightarrow> ch' x = ch x"
  shows "wait_inv ch' q (cs @ ds) cl"
  by (rule wait_inv_gone [OF assms(1,2)]) (use assms(3,4) in auto)

lemma checkout_register_inv:
  assumes inv: "wait_inv (chan_of s) q (cs @ co\<lparr>cowaiter := Some rx\<rparr> # ds) cl" and r: "checkout_register OS co rx s = (s', r)"
  shows "case r of
      Some co' \<Rightarrow> co' = co\<lparr>cowaiter := Some rx\<rparr> \<and> chan_of s' = chan_of s \<and> chan_of s rx = Waiting
    | None \<Rightarrow> chan_of s rx \<noteq> Waiting \<and> wait_inv (chan_of (os_drop_rx OS s' rx)) q (cs @ ds) cl"
proof -
  obtain s1 r1 where p: "os_poll OS s rx = (s1, r1)" by force
  then have ch: "chan_of s1 = (chan_of s)(rx := fst (chan_poll (chan_of s rx)))" "r1 = snd (chan_poll (chan_of s rx))"
    using os.poll_chan [of s rx] os.poll_result [of s rx] by simp_all
  show ?thesis
  proof (cases "chan_of s rx = Waiting")
    case True
    then show ?thesis using r p ch by (auto simp: checkout_register_def fun_upd_idem)
  next
    case False
    then have "r1 \<noteq> Pending" using ch(2) by (cases "chan_of s rx") auto
    then have "s' = s1" "r = None" using r p by (auto simp: checkout_register_def split: poll.splits)
    moreover have "wait_inv (chan_of (os_drop_rx OS s1 rx)) q (cs @ ds) cl"
      by (rule wait_inv_finished [OF inv _ False]) (simp_all add: os.drop_rx_chan ch)
    ultimately show ?thesis using False by simp
  qed
qed

lemma poll_waiter_inv:
  assumes inv: "wait_inv (chan_of s) q (cs @ co # ds) cl" and pw: "poll_waiter OS P en co s = (co', s', r)"
  shows "case r of
      Pending \<Rightarrow> co' = co \<and> chan_of s' = chan_of s
    | Ready None \<Rightarrow> co' = co \<and> s' = s \<and> cowaiter co = None
    | Ready (Some x) \<Rightarrow> cowaiter co' = None \<and> wait_inv (chan_of s') q (cs @ co' # ds) cl \<and>
        (case x of Inr pd \<Rightarrow> \<exists>v. pd = reuse P en (cokey co) v \<and> is_open P v | Inl _ \<Rightarrow> True)"
proof (cases "cowaiter co")
  case None
  with pw show ?thesis by (auto simp: poll_waiter_def)
next
  case (Some tx)
  obtain s1 r1 where p: "os_poll OS s tx = (s1, r1)" by force
  then have ch: "chan_of s1 = (chan_of s)(tx := fst (chan_poll (chan_of s tx)))" "r1 = snd (chan_poll (chan_of s tx))"
    using os.poll_chan [of s tx] os.poll_result [of s tx] by simp_all
  show ?thesis
  proof (cases "chan_of s tx = Waiting")
    case True
    then show ?thesis using pw Some p ch by (auto simp: poll_waiter_def)
  next
    case False
    then have st: "settled (chan_of s tx)" using wait_inv_receiver [OF inv _ Some] by auto
    have "wait_inv (chan_of s1) q (cs @ ds) cl"
      by (rule wait_inv_finished [OF inv Some False]) (simp add: ch)
    then have w: "wait_inv (chan_of s1) q (cs @ co\<lparr>cowaiter := None\<rparr> # ds) cl" by (rule wait_inv_forget) simp
    show ?thesis using st pw Some p ch(2) w
      by (cases "chan_of s tx") (auto simp: poll_waiter_def)
  qed
qed

text \<open>What polling a checkout does, whatever its outcome; a connection it gives is open.\<close>

lemma poll_checkout_inv:
  assumes c: "cache_inv peek cap lok cfg I" and w: "wait_inv (chan_of s) (queue I) (cs @ co # ds) cl"
    and pc: "poll_checkout OS LR P now co (Some I, s) = (co', (Some I', s'), r)"
  shows "cache_inv peek cap lok cfg I' \<and> connecting_keys I' = connecting_keys I \<and>
    wait_inv (chan_of s') (queue I') (cs @ holding (co', case r of PollDone _ \<Rightarrow> None | PollRegister rx \<Rightarrow> Some rx) # ds) cl \<and>
    (\<forall>pd. r = PollDone (Ready (Inr pd)) \<longrightarrow> (\<exists>v. pd = reuse P True (cokey co) v \<and> is_open P v))"
proof -
  obtain co1 s1 r1 where p: "poll_waiter OS P True co s = (co1, s1, r1)" by (metis prod_cases3)
  note pw = poll_waiter_inv [OF w p]
  show ?thesis
  proof (cases "r1 = Ready None")
    case False
    show ?thesis
    proof (cases r1)
      case Pending
      then show ?thesis using pc p pw c w by (auto simp: poll_checkout_def)
    next
      case (Ready x)
      with False obtain y where "r1 = Ready (Some y)" by (cases x) auto
      then show ?thesis using pc p pw c by (cases y) (auto simp: poll_checkout_def)
    qed
  next
    case True
    with pw have e: "co1 = co" "s1 = s" "cowaiter co = None" by auto
    obtain I1 ent where t: "take_idle LR P now (cokey co) I = (I1, ent)" by force
    note ti = take_idle_inv [OF c t]
    show ?thesis
    proof (cases ent)
      case (Some x)
      have "is_open P (ivalue x)"
        using t Some pl.idle_pop_good by (auto simp: take_idle_def split: prod.splits option.splits)
      moreover have "co' = co" "I' = I1" "s' = s" "r = PollDone (Ready (Inr (reuse P True (cokey co) (ivalue x))))"
        using pc p True e t Some by (auto simp: poll_checkout_def checkout_def)
      ultimately show ?thesis using ti w by auto
    next
      case None
      obtain tx s2 where n: "os_channel OS s = (tx, s2)" by force
      note fresh = os.channel_fresh [OF n] os.channel_new [OF n]
      have "co' = co" "I' = push_waiter (cokey co) tx I1" "s' = s2" "r = PollRegister tx"
        using pc p True e t None n by (auto simp: poll_checkout_def checkout_def)
      then show ?thesis using ti fresh(2) wait_inv_add [OF w e(3) fresh(1)] by simp
    qed
  qed
qed

lemma drop_connecting_inv:
  assumes "cache_inv peek cap lok cfg I" and "wait_inv (chan_of s) (queue I) cos cl"
    and "drop_connecting OS cg (I, s) = (I', s')"
  shows "cache_inv peek cap lok cfg I' \<and> wait_inv (chan_of s') (queue I') cos cl \<and>
    connecting_keys I' = (if cpool cg then connecting_keys I - {ckey cg} else connecting_keys I)"
  using assms connected_inv [OF assms(1,2)] by (auto simp: drop_connecting_def split: if_splits)

text \<open>Giving a finished connection to the pool: the lock that its task holds is released.\<close>

lemma pooled_inv:
  assumes "cache_inv peek cap lok cfg I" and "wait_inv (chan_of s) (queue I) cos cl" and "config_is_enabled cfg"
    and "can_share P v \<longleftrightarrow> cpool cg" and "pooled OS LR P now cg v (Some I, s) = ((Some I', s'), pd)"
  shows "cache_inv peek cap lok cfg I' \<and> wait_inv (chan_of s') (queue I') cos cl \<and>
    connecting_keys I' = (if cpool cg then connecting_keys I - {ckey cg} else connecting_keys I)"
proof (cases "can_share P v")
  case True
  obtain I1 s1 where p: "put OS LR P now (ckey cg) v (I, s) = (I1, s1)" by force
  have "connected OS (ckey cg) (I1, s1) = (I', s')"
    using assms(5) True p by (auto simp: pooled_def pl.reserve_eq split: prod.splits)
  with put_inv [OF assms(1,2,3) p] connected_inv [of cfg I1 s1 cos cl "ckey cg" I' s'] True assms(4) show ?thesis by simp
next
  case False
  then have "drop_connecting OS cg (I, s) = (I', s')"
    using assms(5) by (auto simp: pooled_def pl.reserve_eq split: prod.splits)
  from drop_connecting_inv [OF assms(1,2) this] show ?thesis .
qed

lemma drop_pooled_inv:
  assumes "cache_inv peek cap lok cfg I" and "wait_inv (chan_of s) (queue I) cos cl" and "config_is_enabled cfg"
    and "drop_pooled OS LR P now pd (I, s) = (I', s')"
  shows "cache_inv peek cap lok cfg I' \<and> wait_inv (chan_of s') (queue I') cos cl \<and> connecting_keys I' = connecting_keys I"
  using assms put_inv [OF assms(1,2,3)] by (auto simp: drop_pooled_def split: option.splits if_splits)

text \<open>Locks: one task less, or one more.\<close>

lemma lock_inv_release:
  assumes "lock_inv I (ts @ t # us)"
    and "connecting_keys I' = (if cpool (tk_guard t) then connecting_keys I - {ckey (tk_guard t)} else connecting_keys I)"
  shows "lock_inv I' (ts @ us)"
  using assms by (auto simp: lock_inv_def)

lemma connecting_lock:
  assumes "lock_inv I ts" and "connecting k ver (Some I) = (Some I', Some cg)"
  shows "lock_inv I' (\<lparr>tk_guard = cg, tk_h2 = (ver = Http2), tk_connected = b\<rparr> # ts)"
    and "\<exists>ks. I' = I\<lparr>connecting_keys := ks\<rparr>"
proof -
  have "I' = I \<and> cg = \<lparr>ckey = k, cpool = False\<rparr> \<and> ver = Auto \<or> k \<notin> connecting_keys I \<and>
      I' = I\<lparr>connecting_keys := insert k (connecting_keys I)\<rparr> \<and> cg = \<lparr>ckey = k, cpool = True\<rparr> \<and> ver = Http2"
    using assms(2) by (cases ver) (auto simp: connecting_def split: if_splits)
  then show "lock_inv I' (\<lparr>tk_guard = cg, tk_h2 = (ver = Http2), tk_connected = b\<rparr> # ts)"
    using assms(1) by (elim disjE) (simp_all add: lock_inv_def)
  show "\<exists>ks. I' = I\<lparr>connecting_keys := ks\<rparr>"
    using assms(2) by (cases ver) (auto simp: connecting_def split: if_splits intro: exI [of _ "connecting_keys I"])
qed

lemma connect_alpn_inv:
  assumes lk: "lock_inv I (ts @ t # us)" and c: "cache_inv peek cap lok cfg I" and w: "wait_inv (chan_of s) (queue I) cos cl"
    and a: "connect_alpn OS (tk_h2 t) alpn (tk_guard t) (Some I, s) = ((Some I', s'), r)"
  shows "cache_inv peek cap lok cfg I' \<and> wait_inv (chan_of s') (queue I') cos cl \<and>
    (case r of None \<Rightarrow> lock_inv I' (ts @ us)
     | Some cg \<Rightarrow> lock_inv I' (ts @ \<lparr>tk_guard = cg, tk_h2 = connect_is_h2 (tk_h2 t) alpn, tk_connected = True\<rparr> # us))"
proof (cases "alpn = H2 \<and> \<not> tk_h2 t")
  case True
  then have "\<not> cpool (tk_guard t)" using lk by (simp add: lock_inv_def)
  then show ?thesis using True a lk c w
    by (auto simp: connect_alpn_def alpn_h2_def connecting_def drop_connecting_def lock_inv_def connect_is_h2_def
        split: if_splits)
next
  case False
  then show ?thesis using a lk c w by (auto simp: connect_alpn_def connect_is_h2_def lock_inv_def)
qed

end

lemma pool_env_at_moment:
  "pool_env OS chan_of LR peek cap lok P \<Longrightarrow> pool_env OS chan_of LR peek cap lok (at_moment P opn)"
  unfolding pool_env_def using at_moment_laws by blast

context pool_env begin

lemma moment: "pool_env OS chan_of LR peek cap lok (at_moment P opn)"
  by (rule pool_env_at_moment) (rule pool_env_axioms)

lemmas moment_put_inv = pool_env.put_inv [OF moment]
  and moment_pooled_inv = pool_env.pooled_inv [OF moment]
  and moment_drop_pooled_inv = pool_env.drop_pooled_inv [OF moment]
  and moment_poll_inv = pool_env.poll_checkout_inv [OF moment]
  and moment_clear_inv = pool_env.clear_expired_inv [OF moment]

lemma pool_step_inv: "pool_step OS LR P y y' \<Longrightarrow> sys_inv chan_of peek cap lok cfg y \<Longrightarrow> sys_inv chan_of peek cap lok cfg y'"
proof (induction rule: pool_step.induct)
  case (step_connect k ver y I cg)
  then have "lock_inv (sy_pool y) (sy_tasks y)" by (simp add: sys_inv_def)
  note cl = connecting_lock [OF this step_connect.hyps]
  from cl(2) obtain ks where "I = (sy_pool y)\<lparr>connecting_keys := ks\<rparr>" ..
  with cl(1) step_connect.prems show ?case by (simp add: sys_inv_def)
next
  case (step_alpn y ts t us alpn I s cg)
  then show ?case using connect_alpn_inv [of "sy_pool y" ts t us cfg "sy_chans y" "map holding (sy_checkouts y)" "sy_cleaning y" alpn I s "Some cg"]
    by (simp add: sys_inv_def)
next
  case (step_alpn_canceled y ts t us alpn I s)
  then show ?case using connect_alpn_inv [of "sy_pool y" ts t us cfg "sy_chans y" "map holding (sy_checkouts y)" "sy_cleaning y" alpn I s None]
    by (simp add: sys_inv_def)
next
  case (step_failed y ts t us I s)
  then show ?case using drop_connecting_inv [of cfg "sy_pool y" "sy_chans y" "map holding (sy_checkouts y)" "sy_cleaning y" "tk_guard t" I s]
      lock_inv_release [of "sy_pool y" ts t us I] by (simp add: sys_inv_def)
next
  case (step_pooled y ts t us v opn now I s pd)
  then have "tk_h2 t \<longleftrightarrow> cpool (tk_guard t)" by (auto simp: sys_inv_def lock_inv_def)
  with step_pooled show ?case
    using moment_pooled_inv [of cfg "sy_pool y" "sy_chans y" "map holding (sy_checkouts y)" "sy_cleaning y" opn v "tk_guard t" now I s pd]
      lock_inv_release [of "sy_pool y" ts t us I] by (simp add: sys_inv_def)
next
  case (step_checkout y k)
  then show ?case by (auto simp: sys_inv_def wait_inv_def pool_checkout_def)
next
  case (step_poll_done y cs co ds opn now co' I s r)
  then show ?case
    using moment_poll_inv [of cfg "sy_pool y" "sy_chans y" "map holding cs" co "map holding ds" "sy_cleaning y" opn now co' I s "PollDone r"]
    by (simp add: sys_inv_def lock_inv_def)
next
  case (step_poll_queued y cs co ds opn now co' I s rx)
  then show ?case
    using moment_poll_inv [of cfg "sy_pool y" "sy_chans y" "map holding cs" co "map holding ds" "sy_cleaning y" opn now co' I s "PollRegister rx"]
    by (simp add: sys_inv_def lock_inv_def)
next
  case (step_register y cs co rx ds s co')
  then show ?case
    using checkout_register_inv [of "sy_chans y" "queue (sy_pool y)" "map holding cs" rx co "map holding ds" "sy_cleaning y" s "Some co'"]
    by (simp add: sys_inv_def)
next
  case (step_register_panic y cs co rx ds s)
  then show ?case
    using checkout_register_inv [of "sy_chans y" "queue (sy_pool y)" "map holding cs" rx co "map holding ds" "sy_cleaning y" s None]
    by (simp add: sys_inv_def)
next
  case (step_drop_checkout y cs co ds s r)
  then show ?case
    using drop_checkout_inv [of "sy_chans y" "queue (sy_pool y)" "map holding cs" co "map holding ds" "sy_cleaning y" s r]
    by (simp add: sys_inv_def)
next
  case (step_clean y ks k js I s)
  then show ?case using clean_waiters_inv [of "sy_chans y" "sy_pool y" "map holding (sy_checkouts y)" ks k js I s]
    by (simp add: sys_inv_def cache_inv_def lock_inv_def)
next
  case (step_drop_pooled y hs pd js opn now I s)
  then show ?case using moment_drop_pooled_inv [of cfg "sy_pool y" "sy_chans y" "map holding (sy_checkouts y)" "sy_cleaning y" opn now pd I s]
    by (simp add: sys_inv_def lock_inv_def)
next
  case (step_clear opn now y I)
  then show ?case using moment_clear_inv [of cfg "sy_pool y" opn now I] by (simp add: sys_inv_def lock_inv_def)
qed

lemma pool_steps_inv:
  "(pool_step OS LR P)\<^sup>*\<^sup>* y y' \<Longrightarrow> sys_inv chan_of peek cap lok cfg y \<Longrightarrow> sys_inv chan_of peek cap lok cfg y'"
  by (induction rule: rtranclp_induct) (auto intro: pool_step_inv)

lemma sys_start_inv:
  assumes "pool_new LR cfg timer = Some I" and "cfg_max_pool_size cfg \<noteq> Some 0"
  shows "sys_inv chan_of peek cap lok cfg (sys_start I s)"
  using assms lr.new_ok lr.new_cap lr.new_peek
  by (auto simp: sys_inv_def sys_start_def cache_inv_def lock_inv_def wait_inv_def queue_def pool_new_def split: if_splits)

lemmas reachable_inv = pool_steps_inv [OF _ sys_start_inv]

text \<open>A unique connection that comes back while requests wait goes to the one that has waited longest among those that
  still wait.\<close>

lemma drop_pooled_serves:
  assumes "sys_inv chan_of peek cap lok cfg y" and "queue (sy_pool y) (pkey pd) = gone @ tx # ws"
    and "\<forall>x\<in>set gone. closed (sy_chans y) x" and "\<not> closed (sy_chans y) tx"
    and "pvalue pd = Some v" and "ppool pd" and "is_open P v" and "\<not> can_share P v"
    and "drop_pooled OS LR P now pd (sy_pool y, sy_chans y) = (I, s)"
  shows "chan_of s tx = Sent v \<and> (\<forall>x. x \<noteq> tx \<longrightarrow> chan_of s x = (if x \<in> set gone then Unused else chan_of (sy_chans y) x)) \<and>
    queue I (pkey pd) = ws \<and> idle I = idle (sy_pool y)"
proof -
  have w: "wait_inv (chan_of (sy_chans y)) (queue (sy_pool y)) (map holding (sy_checkouts y)) (sy_cleaning y)"
    using assms(1) by (simp add: sys_inv_def)
  have p: "put OS LR P now (pkey pd) v (sy_pool y, sy_chans y) = (I, s)" using assms(5-9) by (simp add: drop_pooled_def)
  have "\<not> (can_share P v \<and> lru_contains LR (idle (sy_pool y)) (pkey pd))" using assms(8) by simp
  note eff = put_queue [OF w p this, unfolded assms(2)]
  have l: "live (sy_chans y) (gone @ tx # ws) = tx # ws" "takeWhile (closed (sy_chans y)) (gone @ tx # ws) = gone"
    using assms(3,4) by (simp_all add: live_def)
  have "tx \<notin> set gone" using assms(3,4) by auto
  then show ?thesis using eff(1,3,4) assms(8) by (simp add: l)
qed

lemma take_idle_good:
  assumes "lok (idle I)" and "take_idle LR P now k I = (I', Some e)"
  shows "is_open P (ivalue e) \<and> \<not> expires (timeout I) now (idle_at e) \<and> (\<exists>l. peek (idle I) k = Some l \<and> e \<in> set l)"
proof -
  obtain c l where g: "lru_get_mut LR (idle I) k = (c, l)" by force
  have l: "l = peek (idle I) k" using lr.get_mut [OF assms(1) g] by simp
  with assms(2) g obtain xs xs' where "peek (idle I) k = Some xs" "idle_pop P (timeout I) now xs = (xs', Some e)"
    by (auto simp: take_idle_def split: option.splits prod.splits)
  with pl.idle_pop_good show ?thesis by metis
qed

text \<open>After a run of the idle task nothing closed or expired is left.\<close>

lemma clear_expired_clean:
  assumes "lok (idle I)" and "timeout I = Some dur"
  obtains I' where "clear_expired LR P now I = Some I'" and "lok (idle I')" and "timeout I' = Some dur"
    and "\<And>k l e. peek (idle I') k = Some l \<Longrightarrow> e \<in> set l \<Longrightarrow> keep_entry P dur now e"
proof -
  let ?f = "filter (keep_entry P dur now)"
  obtain c kvs where it: "lru_iter_mut LR (idle I) ?f = (c, kvs)" by force
  have c: "lok c" using lr.iter_ok [OF assms(1), of ?f] it by simp
  define ks where "ks = map fst (filter (\<lambda>(k, vs). vs = []) kvs)"
  define I' where "I' = I\<lparr>idle := fold (\<lambda>k c. lru_pop LR c k) ks c\<rparr>"
  have "keep_entry P dur now e" if "peek (idle I') k = Some l" "e \<in> set l" for k l e
  proof -
    have "peek c k = Some l" using that(1) lr.pop_all [OF c, of ks] by (auto simp: I'_def split: if_splits)
    then have "map_option ?f (peek (idle I) k) = Some l" using lr.iter_mut [OF assms(1) it] by metis
    with that(2) show ?thesis by auto
  qed
  with that [of I'] lr.pop_all [OF c, of ks] show thesis
    by (simp add: clear_expired_def assms(2) it ks_def I'_def)
qed

lemma idle_task_returns:
  assumes "0 < task_duration t" and "lok (idle I)" and "timeout I = Some dur"
  shows "\<exists>t' I'. idle_task_poll LR P now t I = Some (t', I') \<and> now < task_deadline t' \<and>
    (now < task_deadline t \<or> (\<forall>k l. peek (idle I') k = Some l \<longrightarrow> list_all (keep_entry P dur now) l))"
  using assms
proof (induction "Suc now - task_deadline t" arbitrary: t I rule: less_induct)
  case less
  show ?case
  proof (cases "now < task_deadline t")
    case True
    then show ?thesis by (simp add: idle_task_poll.simps)
  next
    case False
    obtain I1 where I1: "clear_expired LR P now I = Some I1" "lok (idle I1)" "timeout I1 = Some dur"
      and clean: "\<And>k l e. peek (idle I1) k = Some l \<Longrightarrow> e \<in> set l \<Longrightarrow> keep_entry P dur now e"
      using clear_expired_clean [OF less.prems(2,3)] by blast
    let ?t = "next_deadline now t"
    have t: "task_deadline t < task_deadline ?t" "task_duration ?t = task_duration t"
      using less.prems(1) False by (auto simp: next_deadline_def Let_def)
    have step: "idle_task_poll LR P now t I = idle_task_poll LR P now ?t I1"
      using False I1(1) by (subst idle_task_poll.simps) simp
    have "Suc now - task_deadline ?t < Suc now - task_deadline t" using t(1) False by linarith
    from less.hyps [OF this _ I1(2,3)] t(2) less.prems(1) obtain t' I' where r:
      "idle_task_poll LR P now ?t I1 = Some (t', I')" "now < task_deadline t'"
      "now < task_deadline ?t \<or> (\<forall>k l. peek (idle I') k = Some l \<longrightarrow> list_all (keep_entry P dur now) l)" by auto
    have "\<forall>k l. peek (idle I') k = Some l \<longrightarrow> list_all (keep_entry P dur now) l"
    proof (cases "now < task_deadline ?t")
      case True
      then have "I' = I1" using r(1) by (simp add: idle_task_poll.simps)
      then show ?thesis using clean by (auto simp: list_all_iff)
    qed (use r(3) in blast)
    with r step show ?thesis by auto
  qed
qed

end

interpretation client_pool: pool_env fun_oneshot fun_chan_of assoc_lru assoc_peek fst assoc_ok "client_ops w"
  by unfold_locales

section \<open>Properties\<close>

definition cfg0 :: pool_config where
  "cfg0 = \<lparr>cfg_idle_timeout = Some 90000000000, cfg_max_idle_per_host = 2, cfg_max_pool_size = Some 5\<rparr>"

definition pool0 :: "((nat, 'x PoolClient Idle list) assoc_cache, nat) PoolInner" where
  "pool0 = \<lparr>connecting_keys = {}, idle = (Some 5, []), max_idle_per_host = 2, waiters = Map.empty,
     idle_interval_ref = False, has_timer = True, timeout = Some 90000000000\<rparr>"

definition no_chans :: "nat \<times> (nat \<Rightarrow> 'v chan)" where
  "no_chans = (0, \<lambda>_. Unused)"

lemma pool0_new: "pool_new assoc_lru cfg0 True = Some pool0"
  by (simp add: pool_new_def cfg0_def config_is_enabled_def pool0_def assoc_lru_def)

lemma cfg0_size: "cfg_max_pool_size cfg0 \<noteq> Some 0"
  by (simp add: cfg0_def)

text \<open>C25. In every state a pool can reach, through any interleaving of its users, no host has more idle connections than
  configured, none has an empty list, and no more hosts are kept than the configured size of the pool.\<close>

theorem pool_idle_bounded:
  assumes "pool_env OS chan_of LR peek cap lok P" and "pool_new LR cfg timer = Some I" and "cfg_max_pool_size cfg \<noteq> Some 0"
    and "(pool_step OS LR P)\<^sup>*\<^sup>* (sys_start I s) y" and "peek (idle (sy_pool y)) k = Some l"
  shows "0 < length l \<and> length l \<le> cfg_max_idle_per_host cfg \<and>
    within (cfg_max_pool_size cfg) (card (dom (peek (idle (sy_pool y)))))"
proof -
  have "sys_inv chan_of peek cap lok cfg y" by (rule pool_env.reachable_inv [OF assms(1,4,2,3)])
  then have c: "cache_inv peek cap lok cfg (sy_pool y)" by (simp add: sys_inv_def)
  have "lru LR peek cap lok" using assms(1) by (simp add: pool_env_def)
  from lru.keys_bound [OF this, of "idle (sy_pool y)"] c assms(5) show ?thesis by (auto simp: cache_inv_def)
qed

definition w0 :: world where
  "w0 = \<lparr>w_poisoned = (\<lambda>_. False), w_h1_ready = (\<lambda>_. True), w_h2_ready = (\<lambda>_. True)\<rparr>"

definition conn0 :: "bool \<Rightarrow> unit PoolClient" where
  "conn0 is_h2 = connect_client is_h2 \<lparr>cn_alpn = AlpnNone, cn_is_proxied = False, cn_extra = None, cn_poisoned = 0\<rparr> 0"

abbreviation step0 where
  "step0 \<equiv> pool_step fun_oneshot assoc_lru (client_ops w0 :: unit PoolClient poolable)"

abbreviation start0 :: "((nat, unit PoolClient Idle list) assoc_cache, nat, unit PoolClient,
    nat \<times> (nat \<Rightarrow> unit PoolClient chan)) sys" where
  "start0 \<equiv> sys_start (pool0 :: ((nat, unit PoolClient Idle list) assoc_cache, nat) PoolInner) no_chans"

text \<open>One request on a fresh HTTP/1 connection, and the connection back in the pool.\<close>

definition connected0 :: "((nat, unit PoolClient Idle list) assoc_cache, nat, unit PoolClient, _) sys" where
  "connected0 = start0\<lparr>sy_handles := [\<lparr>pvalue = Some (conn0 False), is_reused = False, pkey = 0, ppool = True\<rparr>]\<rparr>"

definition idle0 :: "((nat, unit PoolClient Idle list) assoc_cache, nat, unit PoolClient, _) sys" where
  "idle0 = start0\<lparr>sy_pool := pool0\<lparr>idle := (Some 5, [(0, [\<lparr>idle_at = 7, ivalue = conn0 False\<rparr>])]),
     idle_interval_ref := True\<rparr>\<rparr>"

lemma reach_connected0: "step0\<^sup>*\<^sup>* start0 connected0"
proof -
  let ?g = "\<lparr>ckey = 0, cpool = False\<rparr>"
  let ?t = "\<lambda>b. \<lparr>tk_guard = ?g, tk_h2 = False, tk_connected = b\<rparr>"
  have 1: "step0 start0 (start0\<lparr>sy_tasks := [?t False]\<rparr>)"
    using step_connect [of 0 Auto start0 "sy_pool start0" ?g fun_oneshot assoc_lru "client_ops w0"]
    by (simp add: connecting_def sys_start_def)
  have 2: "step0 (start0\<lparr>sy_tasks := [?t False]\<rparr>) (start0\<lparr>sy_tasks := [?t True]\<rparr>)"
    using step_alpn [of "start0\<lparr>sy_tasks := [?t False]\<rparr>" "[]" "?t False" "[]" fun_oneshot AlpnNone "sy_pool start0"
        no_chans ?g assoc_lru "client_ops w0"]
    by (simp add: connect_alpn_def connect_is_h2_def sys_start_def)
  have 3: "step0 (start0\<lparr>sy_tasks := [?t True]\<rparr>) connected0"
    using step_pooled [of "start0\<lparr>sy_tasks := [?t True]\<rparr>" "[]" "?t True" "[]" "client_ops w0" "conn0 False"
        fun_oneshot assoc_lru "\<lambda>_. True" 0 "sy_pool start0" no_chans]
    by (simp add: pooled_def conn0_def connect_client_share client.reserve_eq drop_connecting_def sys_start_def connected0_def)
  from 1 2 3 show ?thesis by (meson converse_rtranclp_into_rtranclp r_into_rtranclp)
qed

lemma reach_idle0: "step0\<^sup>*\<^sup>* start0 idle0"
proof -
  have "step0 connected0 idle0"
    using step_drop_pooled [of connected0 "[]" "\<lparr>pvalue = Some (conn0 False), is_reused = False, pkey = 0, ppool = True\<rparr>" "[]"
        fun_oneshot assoc_lru "client_ops w0" "\<lambda>_. True" 7 "sy_pool idle0" no_chans]
    by (simp add: drop_pooled_def connected0_def idle0_def sys_start_def put_def conn0_def connect_client_share pool0_def
        put_idle_def assoc_lru_def spawn_idle_interval_def shrink_def)
  with reach_connected0 show ?thesis by simp
qed

text \<open>Witness of C25: one connection has come back.\<close>

theorem pool_idle_bounded_witness:
  "length [\<lparr>idle_at = 7, ivalue = conn0 False\<rparr>] \<le> cfg_max_idle_per_host cfg0"
  using pool_idle_bounded [OF client_pool.pool_env_axioms pool0_new cfg0_size reach_idle0, of 0
      "[\<lparr>idle_at = 7, ivalue = conn0 False\<rparr>]"]
  by (simp add: idle0_def sys_start_def assoc_peek_def)

lemma count_list_distinct: "distinct xs \<Longrightarrow> count_list xs k \<le> 1"
  by (induction xs) (auto simp: count_list_0_iff)

text \<open>C26. At any time at most one task per host is making an HTTP/2 connection, whether asked for or negotiated by ALPN, and
  the pool's assertions hold: a task that holds a lock finds its key in the set when it releases it.\<close>

theorem one_http2_connect:
  assumes "pool_env OS chan_of LR peek cap lok P" and "pool_new LR cfg timer = Some I" and "cfg_max_pool_size cfg \<noteq> Some 0"
    and "(pool_step OS LR P)\<^sup>*\<^sup>* (sys_start I s) y"
  shows "(\<forall>k. length (filter (\<lambda>t. tk_h2 t \<and> ckey (tk_guard t) = k) (sy_tasks y)) \<le> 1) \<and>
    list_all (\<lambda>t. if tk_h2 t then connected_ok (ckey (tk_guard t)) (sy_pool y) else \<not> cpool (tk_guard t)) (sy_tasks y)"
proof -
  have "sys_inv chan_of peek cap lok cfg y" by (rule pool_env.reachable_inv [OF assms(1,4,2,3)])
  then have l: "lock_inv (sy_pool y) (sy_tasks y)" by (simp add: sys_inv_def)
  have "length (filter (\<lambda>t. tk_h2 t \<and> ckey (tk_guard t) = k) ts) \<le> 1"
    if "distinct (locks ts)" "list_all (\<lambda>t. cpool (tk_guard t) \<longleftrightarrow> tk_h2 t) ts" for ts :: "'d task list" and k
  proof -
    have eq: "length (filter (\<lambda>t. tk_h2 t \<and> ckey (tk_guard t) = k) ts) = count_list (locks ts) k"
      using that(2) by (induction ts) auto
    from that(1) show ?thesis unfolding eq by (rule count_list_distinct)
  qed
  moreover have "list_all (\<lambda>t. if tk_h2 t then connected_ok (ckey (tk_guard t)) (sy_pool y) else \<not> cpool (tk_guard t)) (sy_tasks y)"
    using l by (auto simp: lock_inv_def connected_ok_def list_all_iff locks_def)
  ultimately show ?thesis using l by (simp add: lock_inv_def)
qed

text \<open>Witness of C26: one task that asks for HTTP/2.\<close>

theorem one_http2_connect_witness:
  "\<exists>y. step0\<^sup>*\<^sup>* start0 y \<and> length (filter (\<lambda>t. tk_h2 t \<and> ckey (tk_guard t) = 0) (sy_tasks y)) \<le> 1 \<and> sy_tasks y \<noteq> []"
proof -
  let ?y = "start0\<lparr>sy_pool := pool0\<lparr>connecting_keys := {0}\<rparr>,
    sy_tasks := [\<lparr>tk_guard = \<lparr>ckey = 0, cpool = True\<rparr>, tk_h2 = True, tk_connected = False\<rparr>]\<rparr>"
  have "step0 start0 ?y"
    using step_connect [of 0 Http2 start0 "pool0\<lparr>connecting_keys := {0}\<rparr>" "\<lparr>ckey = 0, cpool = True\<rparr>" fun_oneshot assoc_lru "client_ops w0"]
    by (simp add: connecting_def sys_start_def pool0_def)
  then have r: "step0\<^sup>*\<^sup>* start0 ?y" by simp
  have "length (filter (\<lambda>t. tk_h2 t \<and> ckey (tk_guard t) = 0) (sy_tasks ?y)) \<le> 1"
    using one_http2_connect [OF client_pool.pool_env_axioms pool0_new cfg0_size r, THEN conjunct1, THEN spec, of 0] .
  with r show ?thesis by (intro exI [of _ ?y]) simp
qed

text \<open>C27. No waiting request is forgotten, through any interleaving of the sections of all users: a request whose channel is open and
  empty, also one whose poll has not yet registered its receiver, has the sender of its channel in the queue of
  its host. Every sender in a queue is that of such a request, or its receiver is gone and the dropped request has
  still to clean the queue. The channel of every other request holds a connection or has lost its sender, so the
  request is woken.\<close>

theorem no_forgotten_waiter:
  assumes "pool_env OS chan_of LR peek cap lok P" and "pool_new LR cfg timer = Some I" and "cfg_max_pool_size cfg \<noteq> Some 0"
    and "(pool_step OS LR P)\<^sup>*\<^sup>* (sys_start I s) y"
  shows "(\<forall>ct tx. ct \<in> set (sy_checkouts y) \<and> cowaiter (holding ct) = Some tx \<longrightarrow>
      (case chan_of (sy_chans y) tx of Waiting \<Rightarrow> tx \<in> set (queue (sy_pool y) (cokey (fst ct))) | Sent v \<Rightarrow> True | TxGone \<Rightarrow> True | _ \<Rightarrow> False)) \<and>
    (\<forall>k tx. tx \<in> set (queue (sy_pool y) k) \<longrightarrow>
      (case chan_of (sy_chans y) tx of
         Waiting \<Rightarrow> (\<exists>ct\<in>set (sy_checkouts y). cokey (fst ct) = k \<and> cowaiter (holding ct) = Some tx)
       | RxGone \<Rightarrow> k \<in> set (sy_cleaning y)
       | _ \<Rightarrow> False))"
proof -
  have "sys_inv chan_of peek cap lok cfg y" by (rule pool_env.reachable_inv [OF assms(1,4,2,3)])
  then have w: "wait_inv (chan_of (sy_chans y)) (queue (sy_pool y)) (map holding (sy_checkouts y)) (sy_cleaning y)"
    by (simp add: sys_inv_def)
  have key: "cokey (holding ct) = cokey (fst ct)" for ct :: "'d Checkout \<times> nat option"
    by (simp add: holding_def split: prod.splits option.splits)
  have "case chan_of (sy_chans y) tx of Waiting \<Rightarrow> tx \<in> set (queue (sy_pool y) (cokey (fst ct))) | Sent v \<Rightarrow> True | TxGone \<Rightarrow> True | _ \<Rightarrow> False"
    if "ct \<in> set (sy_checkouts y)" "cowaiter (holding ct) = Some tx" for ct tx
    using wait_inv_receiver [OF w _ that(2)] that(1) by (auto simp: key split: chan.splits)
  moreover have "case chan_of (sy_chans y) tx of
         Waiting \<Rightarrow> (\<exists>ct\<in>set (sy_checkouts y). cokey (fst ct) = k \<and> cowaiter (holding ct) = Some tx)
       | RxGone \<Rightarrow> k \<in> set (sy_cleaning y) | _ \<Rightarrow> False"
    if "tx \<in> set (queue (sy_pool y) k)" for tx k
    using wait_inv_queue [OF w that] by (auto simp: key split: chan.splits)
  ultimately show ?thesis by blast
qed

text \<open>A second request for the host of the connection handed out: its sender is in the queue, first with its receiver not
  yet registered, then with it registered.\<close>

abbreviation chans0 :: "nat \<times> (nat \<Rightarrow> unit PoolClient chan)" where
  "chans0 \<equiv> (1, \<lambda>c. if c = 0 then Waiting else Unused)"

definition queued0 :: "((nat, unit PoolClient Idle list) assoc_cache, nat, unit PoolClient, _) sys" where
  "queued0 = connected0\<lparr>sy_pool := push_waiter 0 0 pool0, sy_chans := chans0,
     sy_checkouts := [(\<lparr>cokey = 0, cowaiter = None\<rparr>, Some 0)]\<rparr>"

definition waiting0 :: "((nat, unit PoolClient Idle list) assoc_cache, nat, unit PoolClient, _) sys" where
  "waiting0 = queued0\<lparr>sy_checkouts := [(\<lparr>cokey = 0, cowaiter = Some 0\<rparr>, None)]\<rparr>"

lemma reach_queued0: "step0\<^sup>*\<^sup>* start0 queued0"
proof -
  let ?co = "\<lparr>cokey = 0, cowaiter = None\<rparr>"
  let ?y = "connected0\<lparr>sy_checkouts := [(?co, None)]\<rparr>"
  have 1: "step0 connected0 ?y"
    using step_checkout [of fun_oneshot assoc_lru "client_ops w0" connected0 0]
    by (simp add: pool_checkout_def connected0_def sys_start_def)
  have "poll_checkout fun_oneshot assoc_lru (at_moment (client_ops w0) (\<lambda>_. True)) 0 ?co (Some pool0, no_chans) =
    (?co, (Some (push_waiter 0 0 pool0), chans0), PollRegister 0)"
    by (auto simp: poll_checkout_def poll_waiter_def checkout_def take_idle_def assoc_lru_def pool0_def fun_oneshot_def
        no_chans_def fun_eq_iff)
  with step_poll_queued [of ?y "[]" ?co "[]" fun_oneshot assoc_lru "client_ops w0" "\<lambda>_. True" 0 ?co
      "push_waiter 0 0 pool0" chans0 0]
  have "step0 ?y queued0" by (simp add: queued0_def connected0_def sys_start_def)
  with 1 reach_connected0 show ?thesis by (meson rtranclp.rtrancl_into_rtrancl)
qed

lemma reach_waiting0: "step0\<^sup>*\<^sup>* start0 waiting0"
proof -
  let ?co = "\<lparr>cokey = 0, cowaiter = None\<rparr> :: nat Checkout"
  have "checkout_register fun_oneshot ?co 0 chans0 = (chans0, Some (?co\<lparr>cowaiter := Some 0\<rparr>))"
    by (auto simp: checkout_register_def fun_oneshot_def fun_eq_iff)
  with step_register [of queued0 "[]" ?co 0 "[]" fun_oneshot chans0 "?co\<lparr>cowaiter := Some 0\<rparr>" assoc_lru "client_ops w0"]
  have "step0 queued0 waiting0" by (simp add: queued0_def waiting0_def)
  with reach_queued0 show ?thesis by (rule rtranclp.rtrancl_into_rtrancl)
qed

text \<open>Witness of C27: one waiting request.\<close>

theorem no_forgotten_waiter_witness: "0 \<in> set (queue (sy_pool waiting0) 0) \<and> 0 \<in> set (queue (sy_pool queued0) 0)"
  using no_forgotten_waiter [OF client_pool.pool_env_axioms pool0_new cfg0_size reach_waiting0,
      THEN conjunct1, THEN spec [of _ "(\<lparr>cokey = 0, cowaiter = Some 0\<rparr>, None)"], THEN spec [of _ 0]]
    no_forgotten_waiter [OF client_pool.pool_env_axioms pool0_new cfg0_size reach_queued0,
      THEN conjunct1, THEN spec [of _ "(\<lparr>cokey = 0, cowaiter = None\<rparr>, Some 0)"], THEN spec [of _ 0]]
  by (simp add: waiting0_def queued0_def fun_chan_of_def)

text \<open>C28. A connection that can serve one request at a time and is given back open while requests wait for its host goes
  to the request that has waited longest among those that have not been dropped, and only to it: it is not put among
  the idle ones, and of the other channels only those of the dropped requests before it are changed, whose senders
  are dropped too.\<close>

theorem returned_connection_served:
  assumes "pool_env OS chan_of LR peek cap lok P" and "pool_new LR cfg timer = Some I" and "cfg_max_pool_size cfg \<noteq> Some 0"
    and "(pool_step OS LR P)\<^sup>*\<^sup>* (sys_start I s) y" and "queue (sy_pool y) (pkey pd) = gone @ tx # ws"
    and "\<forall>x\<in>set gone. chan_of (sy_chans y) x = RxGone" and "chan_of (sy_chans y) tx \<noteq> RxGone"
    and "pvalue pd = Some v" and "ppool pd" and "is_open (at_moment P opn) v" and "\<not> can_share P v"
    and "drop_pooled OS LR (at_moment P opn) now pd (sy_pool y, sy_chans y) = (I', s')"
  shows "chan_of s' tx = Sent v \<and>
    (\<forall>x. x \<noteq> tx \<longrightarrow> chan_of s' x = (if x \<in> set gone then Unused else chan_of (sy_chans y) x)) \<and>
    queue I' (pkey pd) = ws \<and> idle I' = idle (sy_pool y)"
proof -
  have "sys_inv chan_of peek cap lok cfg y" by (rule pool_env.reachable_inv [OF assms(1,4,2,3)])
  from pool_env.drop_pooled_serves [OF pool_env_at_moment [OF assms(1)] this assms(5-10) _ assms(12)] assms(11)
  show ?thesis by simp
qed

lemma waiting0_handle:
  "queue (sy_pool waiting0) (pkey (hd (sy_handles waiting0))) = [] @ [0]"
  "\<forall>x\<in>set []. fun_chan_of (sy_chans waiting0) x = RxGone" "fun_chan_of (sy_chans waiting0) 0 \<noteq> RxGone"
  "pvalue (hd (sy_handles waiting0)) = Some (conn0 False)" "ppool (hd (sy_handles waiting0))"
  "is_open (at_moment (client_ops w0) (\<lambda>_. True)) (conn0 False)" "\<not> can_share (client_ops w0) (conn0 False)"
  by (simp_all add: waiting0_def queued0_def connected0_def sys_start_def push_waiter_def queue_def pool0_def fun_chan_of_def
      conn0_def connect_client_share)

text \<open>Witness of C28: the first request finishes while a second one waits.\<close>

theorem returned_connection_served_witness:
  "fun_chan_of (snd (drop_pooled fun_oneshot assoc_lru (at_moment (client_ops w0) (\<lambda>_. True)) 9
     (hd (sy_handles waiting0)) (sy_pool waiting0, sy_chans waiting0))) 0 = Sent (conn0 False)"
proof -
  obtain I s where d: "drop_pooled fun_oneshot assoc_lru (at_moment (client_ops w0) (\<lambda>_. True)) 9
     (hd (sy_handles waiting0)) (sy_pool waiting0, sy_chans waiting0) = (I, s)" by (rule prod.exhaust)
  from returned_connection_served [OF client_pool.pool_env_axioms pool0_new cfg0_size reach_waiting0 waiting0_handle d]
  show ?thesis unfolding d by simp
qed

text \<open>The \<^verbatim>\<open>assert!\<close> in the second section of a checkout can fail: between the release of the lock and the poll of the receiver
  another task may give back its connection, which is sent to the waiting request at once.\<close>

lemma checkout_assertion_fails:
  "\<exists>y co rx s. step0\<^sup>*\<^sup>* start0 y \<and> (co, Some rx) \<in> set (sy_checkouts y) \<and>
     checkout_register fun_oneshot co rx (sy_chans y) = (s, None)"
proof -
  let ?pd = "\<lparr>pvalue = Some (conn0 False), is_reused = False, pkey = 0, ppool = True\<rparr>"
  let ?s = "(1, \<lambda>c. if c = 0 then Sent (conn0 False) else Unused)"
  let ?y = "queued0\<lparr>sy_pool := set_waiters 0 [] (push_waiter 0 0 pool0), sy_chans := ?s, sy_handles := []\<rparr>"
  have "drop_pooled fun_oneshot assoc_lru (at_moment (client_ops w0) (\<lambda>_. True)) 9 ?pd (push_waiter 0 0 pool0, chans0) =
      (set_waiters 0 [] (push_waiter 0 0 pool0), ?s)"
    by (auto simp: drop_pooled_def put_def push_waiter_def pool0_def fun_oneshot_def client.reserve_eq conn0_def
        connect_client_share at_moment_def client_ops_def client_reserve_def connect_client_def client_is_http2_def fun_eq_iff)
  with step_drop_pooled [of queued0 "[]" ?pd "[]" fun_oneshot assoc_lru "client_ops w0" "\<lambda>_. True" 9
      "set_waiters 0 [] (push_waiter 0 0 pool0)" ?s]
  have "step0 queued0 ?y" by (simp add: queued0_def connected0_def)
  with reach_queued0 have "step0\<^sup>*\<^sup>* start0 ?y" by (rule rtranclp.rtrancl_into_rtrancl)
  moreover have "(\<lparr>cokey = 0, cowaiter = None\<rparr>, Some 0) \<in> set (sy_checkouts ?y)" by (simp add: queued0_def)
  moreover have "snd (checkout_register fun_oneshot \<lparr>cokey = 0, cowaiter = None\<rparr> 0 (sy_chans ?y)) = None"
    by (simp add: checkout_register_def fun_oneshot_def)
  ultimately show ?thesis by (metis prod.collapse)
qed

text \<open>A checkout only ever gives out a connection that is open at that moment, for its own host; and one it takes from the
  idle list has not been idle for longer than the timeout.\<close>

lemma checkout_gives_open:
  assumes "pool_env OS chan_of LR peek cap lok P" and "sys_inv chan_of peek cap lok cfg y" and "(co, None) \<in> set (sy_checkouts y)"
    and "poll_checkout OS LR P now co (Some (sy_pool y), sy_chans y) = (co', (Some I, s), PollDone (Ready (Inr pd)))"
  shows "\<exists>v. pvalue pd = Some v \<and> is_open P v \<and> pkey pd = cokey co \<and> is_reused pd \<and>
    (cowaiter co = None \<longrightarrow> (\<exists>l e. peek (idle (sy_pool y)) (cokey co) = Some l \<and> e \<in> set l \<and> ivalue e = v \<and>
       \<not> expires (timeout (sy_pool y)) now (idle_at e)))"
proof -
  obtain cs ds where "sy_checkouts y = cs @ (co, None) # ds" using assms(3) by (metis split_list)
  with assms(2) have c: "cache_inv peek cap lok cfg (sy_pool y)"
    and w: "wait_inv (chan_of (sy_chans y)) (queue (sy_pool y)) (map holding cs @ co # map holding ds) (sy_cleaning y)"
    by (simp_all add: sys_inv_def)
  from pool_env.poll_checkout_inv [OF assms(1) c w assms(4)]
  obtain v where v: "pd = reuse P True (cokey co) v" "is_open P v" by auto
  have "\<exists>l e. peek (idle (sy_pool y)) (cokey co) = Some l \<and> e \<in> set l \<and> ivalue e = v \<and>
      \<not> expires (timeout (sy_pool y)) now (idle_at e)" if nw: "cowaiter co = None"
  proof -
    have pw: "poll_waiter OS P True co (sy_chans y) = (co, sy_chans y, Ready None)"
      using nw by (simp add: poll_waiter_def)
    obtain I1 r where t: "take_idle LR P now (cokey co) (sy_pool y) = (I1, r)" by (rule prod.exhaust)
    obtain tx s1 where n: "os_channel OS (sy_chans y) = (tx, s1)" by (rule prod.exhaust)
    obtain e where e: "take_idle LR P now (cokey co) (sy_pool y) = (I, Some e)" "ivalue e = v"
      using assms(4) v(1) t n nw by (cases r) (auto simp: poll_checkout_def pw checkout_def reuse_def)
    have "lok (idle (sy_pool y))" using c by (simp add: cache_inv_def)
    from pool_env.take_idle_good [OF assms(1) this e(1)] e(2) show ?thesis by blast
  qed
  with v show ?thesis by (auto simp: reuse_def)
qed

text \<open>At a concrete input: the idle connection is checked out.\<close>

lemma checkout_gives_open_instance:
  "\<exists>co' I s pd. poll_checkout fun_oneshot assoc_lru (client_ops w0) 8 (pool_checkout 0)
     (Some (sy_pool idle0), sy_chans idle0) = (co', (Some I, s), PollDone (Ready (Inr pd))) \<and> (\<exists>v. pvalue pd = Some v \<and> is_open (client_ops w0) v)"
proof -
  let ?y = "idle0\<lparr>sy_checkouts := [(pool_checkout 0, None)]\<rparr>"
  have "step0 idle0 ?y" using step_checkout [of fun_oneshot assoc_lru "client_ops w0" idle0 0] by (simp add: idle0_def sys_start_def)
  with reach_idle0 have "step0\<^sup>*\<^sup>* start0 ?y" by simp
  then have inv: "sys_inv fun_chan_of assoc_peek fst assoc_ok cfg0 ?y"
    using client_pool.reachable_inv [OF _ pool0_new cfg0_size] by blast
  have "\<exists>co' I s pd. poll_checkout fun_oneshot assoc_lru (client_ops w0) 8 (pool_checkout 0)
     (Some (sy_pool ?y), sy_chans ?y) = (co', (Some I, s), PollDone (Ready (Inr pd)))"
    by (simp add: idle0_def sys_start_def poll_checkout_def poll_waiter_def checkout_def take_idle_def pool_checkout_def
        assoc_lru_def pool0_def idle_pop.simps Let_def expires_def client.reserve_eq conn0_def connect_client_share)
      (simp add: client_ops_def connect_client_def is_poisoned_def client_is_ready_def w0_def)
  then obtain co' I s pd where p: "poll_checkout fun_oneshot assoc_lru (client_ops w0) 8 (pool_checkout 0)
     (Some (sy_pool ?y), sy_chans ?y) = (co', (Some I, s), PollDone (Ready (Inr pd)))" by blast
  from checkout_gives_open [OF client_pool.pool_env_axioms inv _ p] p show ?thesis by auto
qed

text \<open>C29. A run of the idle task ends, with its next deadline in the future, whenever the timeout is positive; and if its
  deadline had passed, every connection left in the pool is open and within the timeout.\<close>

theorem idle_task_evicts:
  assumes "pool_env OS chan_of LR peek cap lok P" and "0 < task_duration t" and "lok (idle I)" and "timeout I = Some dur"
  shows "\<exists>t' I'. idle_task_poll LR P now t I = Some (t', I') \<and> now < task_deadline t' \<and>
    (now < task_deadline t \<or> (\<forall>k l. peek (idle I') k = Some l \<longrightarrow> list_all (keep_entry P dur now) l))"
  using pool_env.idle_task_returns [OF assms] .

text \<open>Witness of C29: a pool with one idle connection, long after its connection went idle.\<close>

theorem idle_task_evicts_witness:
  "\<exists>t' I'. idle_task_poll assoc_lru (client_ops w0) 200000000000 \<lparr>task_duration = 90000000000, task_deadline = 7\<rparr>
     (sy_pool idle0) = Some (t', I') \<and> 200000000000 < task_deadline t'"
proof -
  have "assoc_ok (idle (sy_pool idle0))" "timeout (sy_pool idle0) = Some 90000000000"
    by (simp_all add: idle0_def pool0_def assoc_ok_def within_def)
  from idle_task_evicts [OF client_pool.pool_env_axioms _ this,
      of "\<lparr>task_duration = 90000000000, task_deadline = 7\<rparr>" w0 200000000000]
  show ?thesis by (auto simp del: One_nat_def)
qed

end
