(* ===== verification/Socks.thy ===== *)
theory Socks
  imports Rt_Io Ip_Addr
begin

text \<open>
  The SOCKS handshakes, \<^verbatim>\<open>src/src/core/client/connect/proxy/socks\<close>: the messages of versions 4 and 5, reading a message
  from the proxy, and the two state machines.

  A message parser (\<^verbatim>\<open>TryFrom<&mut BytesMut>\<close>) maps the receive buffer to what is left of it and the message or a
  \<open>parsing_error\<close>; what it has taken from the buffer stays taken when it fails. It is \<^const>\<open>None\<close> where a
  getter of \<^verbatim>\<open>bytes::Buf\<close> panics because the buffer is too short. A serializer appends to the send buffer, whose capacity is a
  parameter (\<^verbatim>\<open>with_capacity\<close> promises at least what is asked for). Whether the receive buffer has spare capacity left is
  the parameter \<open>full\<close>, and the resolver behind \<^verbatim>\<open>to_socket_addrs\<close> is \<open>resolve\<close>.
\<close>

section \<open>Errors and messages\<close>

datatype parsing_error = Incomplete | WouldOverflow | OtherParse

datatype serialize_error = SerWouldOverflow

datatype v4_status = V4Success | Failed | IdentFailure | IdentMismatch

datatype v4_error = IpV6Unsupported | V4Command v4_status

datatype AuthMethod = NoAuth | UserPass | NoneAcceptable

datatype v5_status = Success | GeneralServerFailure | ConnectionNotAllowed | NetworkUnreachable | HostUnreachable
  | ConnectionRefused | TtlExpired | CommandNotSupported | AddressTypeNotSupported

datatype auth_error = Unsupported | MethodMismatch | AuthFailed

datatype v5_error = HostTooLong | V5Auth auth_error | V5Command v5_status

datatype socks_error = SocksIo io_error | DnsFailure | MissingHost | SocksV4 v4_error | SocksV5 v5_error
  | SocksParsing parsing_error | SocksSerialize serialize_error

datatype v4_address = V4Socket "32 word" u16 | V4Domain bytes u16

datatype v5_address = V5Socket IpAddr u16 | V5Domain bytes u16

type_synonym 'm parser = "bytes \<Rightarrow> (bytes \<times> (parsing_error + 'm)) option"

text \<open>The getters of \<^verbatim>\<open>bytes::Buf\<close>.\<close>

definition with_u8 :: "bytes \<Rightarrow> (byte \<Rightarrow> bytes \<Rightarrow> 'a option) \<Rightarrow> 'a option" where
  "with_u8 s f = (case s of [] \<Rightarrow> None | b # bs \<Rightarrow> f b bs)"

definition with_slice :: "nat \<Rightarrow> bytes \<Rightarrow> (bytes \<Rightarrow> bytes \<Rightarrow> 'a option) \<Rightarrow> 'a option" where
  "with_slice n s f = (if length s < n then None else f (take n s) (drop n s))"

definition with_u16 :: "bytes \<Rightarrow> (u16 \<Rightarrow> bytes \<Rightarrow> 'a option) \<Rightarrow> 'a option" where
  "with_u16 s f = with_slice 2 s (\<lambda>bs. f (of_nat (from_be bs)))"

text \<open>\<^verbatim>\<open>read_message\<close>: a read first, then an attempt to parse.\<close>

partial_function (option) read_message ::
  "('t, 'z) transport_ops_scheme \<Rightarrow> (bytes \<Rightarrow> bool) \<Rightarrow> 'm parser \<Rightarrow> 't \<Rightarrow> bytes \<Rightarrow> ('t \<times> bytes \<times> (socks_error + 'm)) option" where
  "read_message T full try_from t buf =
     (case rt_read T t 513 of
        None \<Rightarrow> None
      | Some (t', Inl e) \<Rightarrow> Some (t', buf, Inl (SocksIo e))
      | Some (t', Inr bs) \<Rightarrow>
          (case try_from (buf @ bs) of
             None \<Rightarrow> None
           | Some (buf', Inr res) \<Rightarrow> Some (t', buf', Inr res)
           | Some (buf', Inl err) \<Rightarrow>
               if err = Incomplete
               then if bs = []
                    then Some (t', buf', Inl (if full buf' then SocksParsing WouldOverflow
                                              else SocksIo (IoError UnexpectedEof ''unexpected eof'')))
                    else read_message T full try_from t' buf'
               else Some (t', buf', Inl (SocksParsing err))))"

section \<open>Version 4\<close>

fun v4_status_of :: "nat \<Rightarrow> v4_status option" where
  "v4_status_of b = (if b = 90 then Some V4Success else if b = 91 then Some Failed else if b = 92 then Some IdentFailure
     else if b = 93 then Some IdentMismatch else None)"

text \<open>The \<^verbatim>\<open>remaining_mut\<close> of a \<^verbatim>\<open>BytesMut\<close> is the room up to the largest \<^verbatim>\<open>usize\<close>.\<close>

definition v4_request :: "v4_address \<Rightarrow> bytes" where
  "v4_request a =
     (case a of
        V4Socket ip port \<Rightarrow> [CHR 0x04, CHR 0x01] @ u16_bytes port @ ipv4_octets ip @ [CHR 0x00, CHR 0x00]
      | V4Domain domain port \<Rightarrow>
          [CHR 0x04, CHR 0x01] @ u16_bytes port @ [CHR 0x00, CHR 0x00, CHR 0x00, CHR 0xFF] @ [CHR 0x00, CHR 0x00] @
          domain @ [CHR 0x00])"

definition v4_write_to_buf :: "v4_address \<Rightarrow> bytes \<Rightarrow> serialize_error + bytes \<times> nat" where
  "v4_write_to_buf a buf =
     (let n = (case a of V4Socket _ _ \<Rightarrow> 10 | V4Domain domain _ \<Rightarrow> 10 + length domain + 1)
      in if 2 ^ 64 - 1 - length buf < n then Inl SerWouldOverflow else Inr (buf @ v4_request a, n))"

definition v4_response :: "v4_status parser" where
  "v4_response s =
     (if length s < 8 then Some (s, Inl Incomplete)
      else with_u8 s (\<lambda>b s1.
        if b \<noteq> CHR 0x00 then Some (s1, Inl OtherParse)
        else with_u8 s1 (\<lambda>st s2.
          case v4_status_of (byte_val st) of
            None \<Rightarrow> Some (s2, Inl OtherParse)
          | Some status \<Rightarrow> with_u16 s2 (\<lambda>port s3. with_slice 4 s3 (\<lambda>ip s4. Some (s4, Inr status))))))"

definition first_v4 :: "SocketAddr list \<Rightarrow> v4_address option" where
  "first_v4 as = List.find (\<lambda>_. True) (List.map_filter (\<lambda>(ip, p). case ip of V4 a \<Rightarrow> Some (V4Socket a p) | V6 _ \<Rightarrow> None) as)"

definition v4_address_of ::
  "(bytes \<Rightarrow> u16 \<Rightarrow> io_error + SocketAddr list) \<Rightarrow> bool \<Rightarrow> bytes \<Rightarrow> u16 \<Rightarrow> socks_error + v4_address" where
  "v4_address_of resolve local_dns host port =
     (case parse_ip host of
        Some (V6 _) \<Rightarrow> Inl (SocksV4 IpV6Unsupported)
      | Some (V4 ip) \<Rightarrow> Inr (V4Socket ip port)
      | None \<Rightarrow>
          if local_dns
          then case resolve host port of
                 Inl e \<Rightarrow> Inl (SocksIo e)
               | Inr as \<Rightarrow> (case first_v4 as of None \<Rightarrow> Inl DnsFailure | Some a \<Rightarrow> Inr a)
          else Inr (V4Domain host port))"

definition v4_execute ::
  "('t, 'z) transport_ops_scheme \<Rightarrow> (bytes \<Rightarrow> bool) \<Rightarrow> (bytes \<Rightarrow> u16 \<Rightarrow> io_error + SocketAddr list) \<Rightarrow> bool \<Rightarrow>
   't \<Rightarrow> bytes \<Rightarrow> u16 \<Rightarrow> ('t \<times> (socks_error + unit)) option" where
  "v4_execute T full resolve local_dns t host port =
     (case v4_address_of resolve local_dns host port of
        Inl e \<Rightarrow> Some (t, Inl e)
      | Inr address \<Rightarrow>
          (case v4_write_to_buf address [] of
             Inl e \<Rightarrow> Some (t, Inl (SocksSerialize e))
           | Inr (send_buf, n) \<Rightarrow>
               (case write_all T t (take n send_buf) of
                  None \<Rightarrow> None
                | Some (t1, Inl e) \<Rightarrow> Some (t1, Inl (SocksIo e))
                | Some (t1, Inr _) \<Rightarrow>
                    (case read_message T full v4_response t1 [] of
                       None \<Rightarrow> None
                     | Some (t2, _, Inl e) \<Rightarrow> Some (t2, Inl e)
                     | Some (t2, _, Inr status) \<Rightarrow>
                         Some (t2, if status = V4Success then Inr () else Inl (SocksV4 (V4Command status)))))))"

section \<open>Version 5: messages\<close>

fun method_byte :: "AuthMethod \<Rightarrow> byte" where
  "method_byte NoAuth = CHR 0x00"
| "method_byte UserPass = CHR 0x02"
| "method_byte NoneAcceptable = CHR 0xFF"

fun method_of :: "nat \<Rightarrow> AuthMethod option" where
  "method_of b = (if b = 0 then Some NoAuth else if b = 2 then Some UserPass else if b = 255 then Some NoneAcceptable else None)"

fun v5_status_of :: "nat \<Rightarrow> v5_status option" where
  "v5_status_of b =
     (if b = 0 then Some Success else if b = 1 then Some GeneralServerFailure else if b = 2 then Some ConnectionNotAllowed
      else if b = 3 then Some NetworkUnreachable else if b = 4 then Some HostUnreachable else if b = 5 then Some ConnectionRefused
      else if b = 6 then Some TtlExpired else if b = 7 then Some CommandNotSupported
      else if b = 8 then Some AddressTypeNotSupported else None)"

text \<open>A serializer's guard \<^verbatim>\<open>buf.capacity() - buf.len() < n\<close>.\<close>

definition append_checked :: "nat \<Rightarrow> bytes \<Rightarrow> nat \<Rightarrow> bytes \<Rightarrow> serialize_error + bytes" where
  "append_checked cap buf n bs = (if cap - length buf < n then Inl SerWouldOverflow else Inr (buf @ bs))"

definition negotiation_req :: "nat \<Rightarrow> AuthMethod \<Rightarrow> bytes \<Rightarrow> serialize_error + bytes" where
  "negotiation_req cap m buf = append_checked cap buf 3 [CHR 0x05, CHR 0x01, method_byte m]"

definition negotiation_res :: "AuthMethod parser" where
  "negotiation_res s =
     (if length s < 2 then Some (s, Inl Incomplete)
      else with_u8 s (\<lambda>v s1.
        if v \<noteq> CHR 0x05 then Some (s1, Inl OtherParse)
        else with_u8 s1 (\<lambda>m s2. Some (s2, case method_of (byte_val m) of None \<Rightarrow> Inl OtherParse | Some m \<Rightarrow> Inr m))))"

text \<open>Lengths are cut to a byte (\<^verbatim>\<open>as u8\<close>).\<close>

definition authentication_req :: "nat \<Rightarrow> bytes \<Rightarrow> bytes \<Rightarrow> bytes \<Rightarrow> serialize_error + bytes" where
  "authentication_req cap user pass buf =
     append_checked cap buf (3 + length user + length pass)
       ([CHR 0x01, char_of (length user)] @ user @ [char_of (length pass)] @ pass)"

definition authentication_res :: "bool parser" where
  "authentication_res s =
     (if length s < 2 then Some (s, Inl Incomplete)
      else with_u8 s (\<lambda>v s1.
        if v \<noteq> CHR 0x01 then Some (s1, Inl OtherParse)
        else with_u8 s1 (\<lambda>st s2. Some (s2, Inr (st = CHR 0x00)))))"

definition address_write :: "nat \<Rightarrow> v5_address \<Rightarrow> bytes \<Rightarrow> serialize_error + bytes" where
  "address_write cap a buf =
     (case a of
        V5Socket (V4 ip) port \<Rightarrow> append_checked cap buf (1 + 4 + 2) ([CHR 0x01] @ ipv4_octets ip @ u16_bytes port)
      | V5Socket (V6 ip) port \<Rightarrow> append_checked cap buf (1 + 16 + 2) ([CHR 0x04] @ ipv6_octets ip @ u16_bytes port)
      | V5Domain domain port \<Rightarrow>
          append_checked cap buf (1 + 1 + length domain + 2)
            ([CHR 0x03, char_of (length domain)] @ domain @ u16_bytes port))"

definition addr_len :: "v5_address \<Rightarrow> nat" where
  "addr_len a = (case a of V5Socket (V4 _) _ \<Rightarrow> 1 + 4 + 2 | V5Socket (V6 _) _ \<Rightarrow> 1 + 16 + 2
     | V5Domain domain _ \<Rightarrow> 1 + 1 + length domain + 2)"

definition proxy_req :: "nat \<Rightarrow> v5_address \<Rightarrow> bytes \<Rightarrow> serialize_error + bytes" where
  "proxy_req cap a buf =
     (if cap - length buf < 3 + addr_len a then Inl SerWouldOverflow
      else let buf1 = buf @ [CHR 0x05, CHR 0x01, CHR 0x00]
           in Inr (case address_write cap a buf1 of Inl _ \<Rightarrow> buf1 | Inr buf2 \<Rightarrow> buf2))"

text \<open>The domain is read without being taken from the buffer, so the port is read from its first two bytes.\<close>

definition address_try_from :: "v5_address parser" where
  "address_try_from s =
     (if length s < 2 then Some (s, Inl Incomplete)
      else with_u8 s (\<lambda>atyp s1.
        if atyp = CHR 0x01
        then if length s1 < 6 then Some (s1, Inl Incomplete)
             else with_slice 4 s1 (\<lambda>ip s2. with_u16 s2 (\<lambda>port s3. Some (s3, Inr (V5Socket (V4 (of_nat (from_be ip))) port))))
        else if atyp = CHR 0x03
        then with_u8 s1 (\<lambda>len s2.
               if len = CHR 0x00 then Some (s2, Inl OtherParse)
               else if length s2 < byte_val len + 2 then Some (s2, Inl Incomplete)
               else if \<not> is_utf8 (take (byte_val len) s2) then Some (s2, Inl OtherParse)
               else with_u16 s2 (\<lambda>port s3. Some (s3, Inr (V5Domain (take (byte_val len) s2) port))))
        else if atyp = CHR 0x04
        then if length s1 < 6 then Some (s1, Inl Incomplete)
             else with_slice 16 s1 (\<lambda>ip s2. with_u16 s2 (\<lambda>port s3. Some (s3, Inr (V5Socket (V6 (of_nat (from_be ip))) port))))
        else Some (s1, Inl OtherParse)))"

definition proxy_res :: "v5_status parser" where
  "proxy_res s =
     (if length s < 2 then Some (s, Inl Incomplete)
      else with_u8 s (\<lambda>v s1.
        if v \<noteq> CHR 0x05 then Some (s1, Inl OtherParse)
        else with_u8 s1 (\<lambda>st s2.
          case v5_status_of (byte_val st) of
            None \<Rightarrow> Some (s2, Inl OtherParse)
          | Some status \<Rightarrow> with_u8 s2 (\<lambda>rsv s3.
              if rsv \<noteq> CHR 0x00 then Some (s3, Inl OtherParse)
              else case address_try_from s3 of
                     None \<Rightarrow> None
                   | Some (s4, Inl e) \<Rightarrow> Some (s4, Inl e)
                   | Some (s4, Inr _) \<Rightarrow> Some (s4, Inr status)))))"

section \<open>Version 5: the handshake\<close>

record v5_config =
  proxy_auth :: "(bytes \<times> bytes) option"
  local_dns :: bool
  optimistic :: bool

datatype v5_state = SendingNegReq | ReadingNegRes | SendingAuthReq | ReadingAuthRes | SendingProxyReq | ReadingProxyRes

record 't v5_conf =
  vstate :: v5_state
  vconn :: 't
  vsend :: bytes
  vrecv :: bytes

definition v5_address_of ::
  "(bytes \<Rightarrow> u16 \<Rightarrow> io_error + SocketAddr list) \<Rightarrow> v5_config \<Rightarrow> bytes \<Rightarrow> u16 \<Rightarrow> socks_error + v5_address" where
  "v5_address_of resolve cfg host port =
     (case parse_ip host of
        Some ip \<Rightarrow> Inr (V5Socket ip port)
      | None \<Rightarrow>
          if length host \<le> 255
          then if local_dns cfg
               then case resolve host port of
                      Inl e \<Rightarrow> Inl (SocksIo e)
                    | Inr [] \<Rightarrow> Inl DnsFailure
                    | Inr ((ip, p) # _) \<Rightarrow> Inr (V5Socket ip p)
               else Inr (V5Domain host port)
          else Inl (SocksV5 HostTooLong))"

definition v5_method :: "v5_config \<Rightarrow> AuthMethod" where
  "v5_method cfg = (if proxy_auth cfg \<noteq> None then UserPass else NoAuth)"

text \<open>Sending: serialize at the end of the send buffer, write what was added, go on in the next state.\<close>

definition v5_send ::
  "('t, 'z) transport_ops_scheme \<Rightarrow> (bytes \<Rightarrow> serialize_error + bytes) \<Rightarrow> v5_state \<Rightarrow> 't v5_conf \<Rightarrow>
   ('t v5_conf + 't \<times> (socks_error + unit)) option" where
  "v5_send T serialize next_state c =
     (case serialize (vsend c) of
        Inl e \<Rightarrow> Some (Inr (vconn c, Inl (SocksSerialize e)))
      | Inr buf \<Rightarrow>
          (case write_all T (vconn c) (drop (length (vsend c)) buf) of
             None \<Rightarrow> None
           | Some (t, Inl e) \<Rightarrow> Some (Inr (t, Inl (SocksIo e)))
           | Some (t, Inr _) \<Rightarrow> Some (Inl (c\<lparr>vstate := next_state, vconn := t, vsend := buf\<rparr>))))"

text \<open>Reading: the next state, or the result, from the message.\<close>

definition v5_recv ::
  "('t, 'z) transport_ops_scheme \<Rightarrow> (bytes \<Rightarrow> bool) \<Rightarrow> 'm parser \<Rightarrow> ('m \<Rightarrow> v5_state + socks_error + unit) \<Rightarrow> 't v5_conf \<Rightarrow>
   ('t v5_conf + 't \<times> (socks_error + unit)) option" where
  "v5_recv T full try_from k c =
     (case read_message T full try_from (vconn c) (vrecv c) of
        None \<Rightarrow> None
      | Some (t, buf, Inl e) \<Rightarrow> Some (Inr (t, Inl e))
      | Some (t, buf, Inr m) \<Rightarrow>
          (case k m of
             Inl st \<Rightarrow> Some (Inl (c\<lparr>vstate := st, vconn := t, vrecv := buf\<rparr>))
           | Inr r \<Rightarrow> Some (Inr (t, r))))"

definition v5_step ::
  "('t, 'z) transport_ops_scheme \<Rightarrow> (bytes \<Rightarrow> bool) \<Rightarrow> nat \<Rightarrow> v5_config \<Rightarrow> v5_address \<Rightarrow> 't v5_conf \<Rightarrow>
   ('t v5_conf + 't \<times> (socks_error + unit)) option" where
  "v5_step T full cap cfg address c =
     (let method = v5_method cfg; opt = optimistic cfg
      in case vstate c of
           SendingNegReq \<Rightarrow>
             v5_send T (negotiation_req cap method)
               (if opt then if method = UserPass then SendingAuthReq else SendingProxyReq else ReadingNegRes) c
         | ReadingNegRes \<Rightarrow>
             v5_recv T full negotiation_res
               (\<lambda>res. if res = NoneAcceptable then Inr (Inl (SocksV5 (V5Auth Unsupported)))
                      else if res \<noteq> method then Inr (Inl (SocksV5 (V5Auth MethodMismatch)))
                      else Inl (if opt then if res = UserPass then ReadingAuthRes else ReadingProxyRes
                                else if res = UserPass then SendingAuthReq else SendingProxyReq)) c
         | SendingAuthReq \<Rightarrow>
             (case proxy_auth cfg of
                None \<Rightarrow> None
              | Some (user, pass) \<Rightarrow>
                  v5_send T (authentication_req cap user pass) (if opt then SendingProxyReq else ReadingAuthRes) c)
         | ReadingAuthRes \<Rightarrow>
             v5_recv T full authentication_res
               (\<lambda>res. if \<not> res then Inr (Inl (SocksV5 (V5Auth AuthFailed)))
                      else Inl (if opt then ReadingProxyRes else SendingProxyReq)) c
         | SendingProxyReq \<Rightarrow> v5_send T (proxy_req cap address) (if opt then ReadingNegRes else ReadingProxyRes) c
         | ReadingProxyRes \<Rightarrow>
             v5_recv T full proxy_res
               (\<lambda>res. if res = Success then Inr (Inr ()) else Inr (Inl (SocksV5 (V5Command res)))) c)"

partial_function (option) v5_run ::
  "('t, 'z) transport_ops_scheme \<Rightarrow> (bytes \<Rightarrow> bool) \<Rightarrow> nat \<Rightarrow> v5_config \<Rightarrow> v5_address \<Rightarrow> 't v5_conf \<Rightarrow>
   ('t \<times> (socks_error + unit)) option" where
  "v5_run T full cap cfg address c =
     (case v5_step T full cap cfg address c of
        None \<Rightarrow> None
      | Some (Inl c') \<Rightarrow> v5_run T full cap cfg address c'
      | Some (Inr r) \<Rightarrow> Some r)"

definition v5_execute ::
  "('t, 'z) transport_ops_scheme \<Rightarrow> (bytes \<Rightarrow> bool) \<Rightarrow> nat \<Rightarrow> (bytes \<Rightarrow> u16 \<Rightarrow> io_error + SocketAddr list) \<Rightarrow> v5_config \<Rightarrow>
   't \<Rightarrow> bytes \<Rightarrow> u16 \<Rightarrow> ('t \<times> (socks_error + unit)) option" where
  "v5_execute T full cap resolve cfg t host port =
     (case v5_address_of resolve cfg host port of
        Inl e \<Rightarrow> Some (t, Inl e)
      | Inr address \<Rightarrow>
          v5_run T full cap cfg address \<lparr>vstate = SendingNegReq, vconn = t, vsend = [], vrecv = []\<rparr>)"

end
