(* ===== verification/Socks_Props.thy ===== *)
theory Socks_Props
  imports Socks
begin

text \<open>
  What the SOCKS handshakes do over every transport that makes progress, and where they fail: reading a message whatever
  way it is cut (for the parsers that wait for the whole message), the version 4 handshake, the bytes a version 5
  handshake sends, and the defects of the version 5 reply.
\<close>

section \<open>Reading a message\<close>

text \<open>A parser that takes nothing until it has \<open>need\<close> bytes and then decides from those alone.\<close>

locale careful_parser =
  fixes try_from :: "'m parser" and need :: nat and verdict :: "bytes \<Rightarrow> parsing_error + 'm"
  assumes parse_short: "length s < need \<Longrightarrow> try_from s = Some (s, Inl Incomplete)"
    and parse_long: "need \<le> length s \<Longrightarrow> \<exists>s'. try_from s = Some (s', verdict (take need s))"
    and decided: "length s = need \<Longrightarrow> verdict s \<noteq> Inl Incomplete"

definition v4_verdict :: "bytes \<Rightarrow> parsing_error + v4_status" where
  "v4_verdict s =
     (if s ! 0 \<noteq> CHR 0x00 then Inl OtherParse
      else case v4_status_of (byte_val (s ! 1)) of None \<Rightarrow> Inl OtherParse | Some st \<Rightarrow> Inr st)"

definition negotiation_verdict :: "bytes \<Rightarrow> parsing_error + AuthMethod" where
  "negotiation_verdict s =
     (if s ! 0 \<noteq> CHR 0x05 then Inl OtherParse
      else case method_of (byte_val (s ! 1)) of None \<Rightarrow> Inl OtherParse | Some m \<Rightarrow> Inr m)"

definition authentication_verdict :: "bytes \<Rightarrow> parsing_error + bool" where
  "authentication_verdict s = (if s ! 0 \<noteq> CHR 0x01 then Inl OtherParse else Inr (s ! 1 = CHR 0x00))"

lemma two_bytes: "Suc (Suc n) \<le> length s \<Longrightarrow> \<exists>a b r. s = a # b # r \<and> n \<le> length r"
  by (cases s; cases "tl s") auto

interpretation v4_res: careful_parser v4_response 8 v4_verdict
proof
  fix s :: bytes
  assume "8 \<le> length s"
  then obtain a b r where s: "s = a # b # r" "6 \<le> length r" using two_bytes [of 6 s] by auto
  then show "\<exists>s'. v4_response s = Some (s', v4_verdict (take 8 s))"
    by (cases "v4_status_of (byte_val b)")
      (auto simp: v4_response_def v4_verdict_def with_u8_def with_u16_def with_slice_def simp del: v4_status_of.simps)
qed (auto simp: v4_response_def v4_verdict_def split: option.splits)

interpretation neg_res: careful_parser negotiation_res 2 negotiation_verdict
proof
  fix s :: bytes
  assume "2 \<le> length s"
  then obtain a b r where "s = a # b # r" using two_bytes [of 0 s] by auto
  then show "\<exists>s'. negotiation_res s = Some (s', negotiation_verdict (take 2 s))"
    by (auto simp: negotiation_res_def negotiation_verdict_def with_u8_def)
qed (auto simp: negotiation_res_def negotiation_verdict_def split: option.splits)

interpretation auth_res: careful_parser authentication_res 2 authentication_verdict
proof
  fix s :: bytes
  assume "2 \<le> length s"
  then obtain a b r where "s = a # b # r" using two_bytes [of 0 s] by auto
  then show "\<exists>s'. authentication_res s = Some (s', authentication_verdict (take 2 s))"
    by (auto simp: authentication_res_def authentication_verdict_def with_u8_def)
qed (auto simp: authentication_res_def authentication_verdict_def)

definition as_socks :: "parsing_error + 'm \<Rightarrow> socks_error + 'm" where
  "as_socks v = (case v of Inl e \<Rightarrow> Inl (SocksParsing e) | Inr m \<Rightarrow> Inr m)"

text \<open>The error for a reply that ends too early, and the possible outcomes of reading a message of \<open>need\<close> bytes: what
  the bytes say, however they are cut into reads; that error, if the peer has sent fewer; or an error of the
  transport, if it is one that may fail.\<close>

definition cut_short :: "(bytes \<Rightarrow> bool) \<Rightarrow> bytes \<Rightarrow> socks_error" where
  "cut_short full bs = (if full bs then SocksParsing WouldOverflow else SocksIo (IoError UnexpectedEof ''unexpected eof''))"

definition message_outcome ::
  "bool \<Rightarrow> (bytes \<Rightarrow> bool) \<Rightarrow> nat \<Rightarrow> (bytes \<Rightarrow> socks_error + 'm) \<Rightarrow> bytes \<Rightarrow> socks_error + 'm \<Rightarrow> bool" where
  "message_outcome reliable full need answer bs r \<longleftrightarrow>
     need \<le> length bs \<and> r = answer (take need bs) \<or>
     length bs < need \<and> r = Inl (cut_short full bs) \<or>
     \<not> reliable \<and> (\<exists>e. r = Inl (SocksIo e))"

context live_transport begin

lemma read_message_total:
  assumes "careful_parser p need verdict" and "tinv t"
  shows "\<exists>t' buf' r. read_message T full p t buf = Some (t', buf', r) \<and> tinv t' \<and> written t' = written t \<and>
    message_outcome (never_fails T tinv) full need (\<lambda>bs. as_socks (verdict bs)) (buf @ unread t) r"
  using assms(2)
proof (induction "length (unread t)" arbitrary: t buf rule: less_induct)
  case less
  obtain t1 r1 where rd: "rt_read T t 513 = Some (t1, r1)" and ok: "read_ok 513 t t1 r1"
    using rt_read_total [OF less.prems, of 513] by auto
  show ?case
  proof (cases r1)
    case (Inl e)
    then have "\<not> never_fails T tinv" using rt_read_succeeds [OF _ less.prems rd] by auto
    then show ?thesis using rd ok Inl
      by (auto simp: read_message.simps [of T full p t buf] read_ok_def message_outcome_def)
  next
    case (Inr bs)
    have u: "unread t = bs @ unread t1" "bs = [] \<longrightarrow> unread t = []" "tinv t1" "written t1 = written t"
      using ok Inr by (auto simp: read_ok_def)
    show ?thesis
    proof (cases "need \<le> length (buf @ bs)")
      case True
      obtain s' where s': "p (buf @ bs) = Some (s', verdict (take need (buf @ bs)))"
        using careful_parser.parse_long [OF assms(1) True] by blast
      have d: "verdict (take need (buf @ bs)) \<noteq> Inl Incomplete"
        using careful_parser.decided [OF assms(1), of "take need (buf @ bs)"] True by simp
      have tk: "take need (buf @ unread t) = take need (buf @ bs)" using True by (simp add: u(1))
      have "need \<le> length (buf @ unread t)" using True by (simp add: u(1))
      then show ?thesis using rd Inr s' d u(3,4)
        by (cases "verdict (take need (buf @ bs))")
          (auto simp: read_message.simps [of T full p t buf] message_outcome_def tk as_socks_def simp del: take_append)
    next
      case False
      then have s: "p (buf @ bs) = Some (buf @ bs, Inl Incomplete)"
        using careful_parser.parse_short [OF assms(1)] by simp
      show ?thesis
      proof (cases "bs = []")
        case True
        then have "buf @ unread t = buf" "length buf < need" using u(2) False by auto
        then show ?thesis using rd Inr s True u
          by (auto simp: read_message.simps [of T full p t buf] message_outcome_def cut_short_def)
      next
        case b: False
        have "length (unread t1) < length (unread t)" using b u(1) by simp
        from less.hyps [OF this u(3), of "buf @ bs"] rd Inr s b u show ?thesis
          by (auto simp: read_message.simps [of T full p t buf])
      qed
    qed
  qed
qed

end

section \<open>Version 4\<close>

lemma be_bytes_2: "be_bytes 2 x = [char_of (x div 256 mod 256), char_of (x mod 256)]"
  by (simp add: numeral_2_eq_2)

lemma be_bytes_4:
  "be_bytes 4 x = [char_of (x div 16777216 mod 256), char_of (x div 65536 mod 256), char_of (x div 256 mod 256), char_of (x mod 256)]"
proof -
  have "(4 :: nat) = Suc (Suc (Suc (Suc 0)))" by simp
  then show ?thesis by (simp only: be_bytes.simps) (simp flip: div_mult2_eq)
qed

lemma v4_request_length:
  "length (v4_request a) = (case a of V4Socket _ _ \<Rightarrow> 10 | V4Domain domain _ \<Rightarrow> 10 + length domain + 1)"
  by (simp add: v4_request_def split: v4_address.splits)

definition v4_result :: "bytes \<Rightarrow> socks_error + unit" where
  "v4_result reply =
     (case as_socks (v4_verdict reply) of
        Inl e \<Rightarrow> Inl e | Inr st \<Rightarrow> if st = V4Success then Inr () else Inl (SocksV4 (V4Command st)))"

lemma v4_granted:
  assumes "v4_result (a # b # r) = Inr ()"
  shows "a = CHR 0x00 \<and> b = CHR 0x5A"
proof -
  from assms have "a = CHR 0x00" "byte_val b = 90"
    by (auto simp: v4_result_def v4_verdict_def as_socks_def split: if_splits option.splits)
  moreover have "byte_val (CHR 0x5A) = 90" by simp
  ultimately show ?thesis by (metis of_char_eq_iff)
qed

context live_transport begin

lemma v4_execute_total:
  assumes inv: "tinv t" and a: "v4_address_of resolve local host port = Inr address"
    and len: "length (v4_request address) < 2 ^ 64"
  shows "\<exists>t' r. v4_execute T full resolve local t host port = Some (t', r) \<and>
    (never_fails T tinv \<or> r = Inr () \<longrightarrow> written t' = written t @ v4_request address) \<and>
    message_outcome (never_fails T tinv) full 8 v4_result (unread t) r"
proof -
  let ?req = "v4_request address"
  have w: "v4_write_to_buf address [] = Inr (?req, length ?req)"
    using len by (auto simp: v4_write_to_buf_def v4_request_length Let_def)
  obtain t1 r1 where wr: "write_all T t ?req = Some (t1, r1)" "tinv t1" "unread t1 = unread t"
    "r1 = Inr () \<Longrightarrow> written t1 = written t @ ?req" using write_all_total [OF inv] by blast
  show ?thesis
  proof (cases r1)
    case (Inl e)
    then have "\<not> never_fails T tinv" using write_all_succeeds [OF _ inv wr(1)] by auto
    then show ?thesis using wr a w Inl by (auto simp: v4_execute_def message_outcome_def)
  next
    case (Inr u)
    obtain t2 buf r where rm: "read_message T full v4_response t1 [] = Some (t2, buf, r)" "written t2 = written t1"
      "message_outcome (never_fails T tinv) full 8 (\<lambda>bs. as_socks (v4_verdict bs)) (unread t1) r"
      using read_message_total [OF v4_res.careful_parser_axioms wr(2), of full "[]"] by auto
    have "v4_execute T full resolve local t host port =
      Some (t2, case r of Inl e \<Rightarrow> Inl e | Inr st \<Rightarrow> if st = V4Success then Inr () else Inl (SocksV4 (V4Command st)))"
      using a w wr(1) Inr rm(1) by (simp add: v4_execute_def split: sum.splits)
    moreover have "written t2 = written t @ ?req" using rm(2) wr(4) Inr by simp
    ultimately show ?thesis using rm(3) wr(3)
      by (auto simp: v4_result_def message_outcome_def split: sum.splits)
  qed
qed

end

text \<open>C30. A version 4 handshake returns, over every transport that makes progress. On a transport on which no call fails it has sent exactly the
  request for the destination, and its result is what the first eight bytes of the reply say, however they are cut into reads
  and with whatever waits between them: success exactly for a reply that starts with 0 and 90. If the proxy sends fewer than
  eight bytes and then ends the stream, the result is the error for that. On a transport that may fail the result is one
  of these or an I/O error, and success still means that the whole request was sent and granted.\<close>

theorem socks4_handshake:
  assumes "live_transport T unread tinv written patience" and "tinv t"
    and "v4_address_of resolve local host port = Inr address" and "length (v4_request address) < 2 ^ 64"
  shows "\<exists>t' r. v4_execute T full resolve local t host port = Some (t', r) \<and>
    (never_fails T tinv \<or> r = Inr () \<longrightarrow> written t' = written t @ v4_request address) \<and>
    (never_fails T tinv \<longrightarrow> r = (if 8 \<le> length (unread t) then v4_result (take 8 (unread t)) else Inl (cut_short full (unread t)))) \<and>
    (r = Inr () \<longrightarrow> (\<exists>rest. unread t = CHR 0x00 # CHR 0x5A # rest \<and> 6 \<le> length rest)) \<and>
    message_outcome (never_fails T tinv) full 8 v4_result (unread t) r"
proof -
  from live_transport.v4_execute_total [OF assms] obtain t' r where
    r: "v4_execute T full resolve local t host port = Some (t', r)"
    "never_fails T tinv \<or> r = Inr () \<longrightarrow> written t' = written t @ v4_request address"
    "message_outcome (never_fails T tinv) full 8 v4_result (unread t) r" by blast
  have "\<exists>rest. unread t = CHR 0x00 # CHR 0x5A # rest \<and> 6 \<le> length rest" if "r = Inr ()"
  proof -
    from r(3) that have l: "8 \<le> length (unread t)" "v4_result (take 8 (unread t)) = Inr ()"
      by (auto simp: message_outcome_def)
    then obtain a b rest where u: "unread t = a # b # rest" "6 \<le> length rest" using two_bytes [of 6 "unread t"] by auto
    then have "v4_result (a # b # take 6 rest) = Inr ()" using l(2) by simp
    then have "a = CHR 0x00" "b = CHR 0x5A" by (auto dest: v4_granted)
    with u show ?thesis by simp
  qed
  with r show ?thesis by (auto simp: message_outcome_def)
qed

text \<open>Witness of C30: a granted request, the reply in two pieces with a wait between them.\<close>

theorem socks4_handshake_witness:
  "\<exists>t'. v4_execute mock_ops (\<lambda>_. False) (\<lambda>_ _. Inr []) False
     \<lparr>script = [Chunk [CHR 0x00, CHR 0x5A, CHR 0x00], Wait, Chunk [CHR 0x00, CHR 0x00, CHR 0x00, CHR 0x00, CHR 0x00]],
       sent = [], write_limit = 4\<rparr> ''127.0.0.1'' 80 = Some (t', Inr ()) \<and>
     sent t' = [CHR 0x04, CHR 0x01, CHR 0x00, CHR 0x50, CHR 0x7F, CHR 0x00, CHR 0x00, CHR 0x01, CHR 0x00, CHR 0x00]"
proof -
  have a: "v4_address_of (\<lambda>_ _. Inr []) False ''127.0.0.1'' 80 = Inr (V4Socket 0x7F000001 80)"
    by (simp add: v4_address_of_def parse_ip_loopback)
  have r: "v4_request (V4Socket 0x7F000001 80) =
    [CHR 0x04, CHR 0x01, CHR 0x00, CHR 0x50, CHR 0x7F, CHR 0x00, CHR 0x00, CHR 0x01, CHR 0x00, CHR 0x00]"
    by (simp add: v4_request_def u16_bytes_def ipv4_octets_def be_bytes_2 be_bytes_4) code_simp
  show ?thesis
    using socks4_handshake [OF mock_live.live_transport_axioms _ a, of
        "\<lparr>script = [Chunk [CHR 0x00, CHR 0x5A, CHR 0x00], Wait, Chunk [CHR 0x00, CHR 0x00, CHR 0x00, CHR 0x00, CHR 0x00]],
          sent = [], write_limit = 4\<rparr>" "\<lambda>_. False"]
    by (simp add: mock_never_fails r v4_result_def v4_verdict_def as_socks_def) blast
qed

section \<open>Version 5: what is sent\<close>

definition v5_opening :: "v5_config \<Rightarrow> bytes" where
  "v5_opening cfg = [CHR 0x05, CHR 0x01, method_byte (v5_method cfg)]"

definition v5_credentials :: "v5_config \<Rightarrow> bytes" where
  "v5_credentials cfg =
     (case proxy_auth cfg of
        None \<Rightarrow> []
      | Some (user, pass) \<Rightarrow> [CHR 0x01, char_of (length user)] @ user @ [char_of (length pass)] @ pass)"

definition address_bytes :: "v5_address \<Rightarrow> bytes" where
  "address_bytes a =
     (case a of
        V5Socket (V4 ip) port \<Rightarrow> [CHR 0x01] @ ipv4_octets ip @ u16_bytes port
      | V5Socket (V6 ip) port \<Rightarrow> [CHR 0x04] @ ipv6_octets ip @ u16_bytes port
      | V5Domain domain port \<Rightarrow> [CHR 0x03, char_of (length domain)] @ domain @ u16_bytes port)"

definition v5_destination :: "v5_address \<Rightarrow> bytes" where
  "v5_destination a = [CHR 0x05, CHR 0x01, CHR 0x00] @ address_bytes a"

lemma append_checked_Inr: "append_checked cap buf n bs = Inr buf' \<longleftrightarrow> n \<le> cap - length buf \<and> buf' = buf @ bs"
  by (auto simp: append_checked_def)

lemma address_write_Inr: "address_write cap a buf = Inr buf' \<longleftrightarrow> addr_len a \<le> cap - length buf \<and> buf' = buf @ address_bytes a"
  by (auto simp: address_write_def address_bytes_def addr_len_def append_checked_Inr split: v5_address.splits IpAddr.splits)

lemma proxy_req_Inr: "proxy_req cap a buf = Inr buf' \<longleftrightarrow> 3 + addr_len a \<le> cap - length buf \<and> buf' = buf @ v5_destination a"
proof -
  have "address_write cap a (buf @ x) = Inr (buf @ x @ address_bytes a)" if "3 + addr_len a \<le> cap - length buf" "length x = 3" for x
    using that by (simp add: address_write_Inr)
  then show ?thesis by (auto simp: proxy_req_def v5_destination_def Let_def)
qed

text \<open>What has been sent when a state is entered, and which states there are without credentials.\<close>

definition v5_sent :: "v5_config \<Rightarrow> v5_address \<Rightarrow> v5_state \<Rightarrow> bytes" where
  "v5_sent cfg a st =
     (case st of
        SendingNegReq \<Rightarrow> []
      | SendingAuthReq \<Rightarrow> v5_opening cfg
      | SendingProxyReq \<Rightarrow> v5_opening cfg @ v5_credentials cfg
      | ReadingNegRes \<Rightarrow> v5_opening cfg @ (if optimistic cfg then v5_credentials cfg @ v5_destination a else [])
      | ReadingAuthRes \<Rightarrow> v5_opening cfg @ v5_credentials cfg @ (if optimistic cfg then v5_destination a else [])
      | ReadingProxyRes \<Rightarrow> v5_opening cfg @ v5_credentials cfg @ v5_destination a)"

context live_transport begin

lemma read_message_inv:
  "tinv t \<Longrightarrow> read_message T full p t buf = Some (t', res) \<Longrightarrow> tinv t' \<and> written t' = written t"
proof (induction "length (unread t)" arbitrary: t buf rule: less_induct)
  case less
  obtain t1 r1 where rd: "rt_read T t 513 = Some (t1, r1)" and ok: "read_ok 513 t t1 r1"
    using rt_read_total [OF less.prems(1), of 513] by auto
  have inv: "tinv t1" "written t1 = written t" using ok by (auto simp: read_ok_def)
  note rm = less.prems(2) [unfolded read_message.simps [of T full p t buf] rd]
  show ?case
  proof (cases r1)
    case (Inl e)
    then show ?thesis using rm inv by auto
  next
    case (Inr bs)
    show ?thesis
    proof (cases "\<exists>buf'. p (buf @ bs) = Some (buf', Inl Incomplete) \<and> bs \<noteq> []")
      case True
      then obtain buf' where b: "p (buf @ bs) = Some (buf', Inl Incomplete)" "bs \<noteq> []" by blast
      have "length (unread t1) < length (unread t)" using b(2) ok Inr by (auto simp: read_ok_def)
      from less.hyps [OF this inv(1)] rm Inr b inv(2) show ?thesis by auto
    next
      case False
      then show ?thesis using rm Inr inv by (auto split: option.splits sum.splits if_splits)
    qed
  qed
qed

lemma v5_send_inv:
  assumes "v5_send T ser st c = Some r" and "tinv (vconn c)" and "written (vconn c) = w0 @ vsend c"
    and "\<And>buf'. ser (vsend c) = Inr buf' \<Longrightarrow> buf' = vsend c @ added"
  shows "(case r of
      Inl c' \<Rightarrow> vstate c' = st \<and> vsend c' = vsend c @ added \<and> tinv (vconn c') \<and> written (vconn c') = w0 @ vsend c'
    | Inr (t, r) \<Rightarrow> r \<noteq> Inr ())"
proof -
  obtain t1 r1 where wr: "write_all T (vconn c) added = Some (t1, r1)" "tinv t1"
    "r1 = Inr () \<Longrightarrow> written t1 = written (vconn c) @ added" using write_all_total [OF assms(2)] by blast
  show ?thesis
  proof (cases "ser (vsend c)")
    case (Inl e)
    then show ?thesis using assms(1) by (auto simp: v5_send_def)
  next
    case (Inr buf')
    with assms(4) have "buf' = vsend c @ added" by blast
    with Inr show ?thesis using assms(1,3) wr by (cases r1) (auto simp: v5_send_def)
  qed
qed

lemma v5_recv_inv:
  assumes "v5_recv T full p k c = Some r" and "tinv (vconn c)" and "written (vconn c) = w0 @ vsend c"
  shows "(case r of
      Inl c' \<Rightarrow> (\<exists>m. k m = Inl (vstate c')) \<and> vsend c' = vsend c \<and> tinv (vconn c') \<and> written (vconn c') = w0 @ vsend c
    | Inr (t, r) \<Rightarrow> r = Inr () \<longrightarrow> (\<exists>m. k m = Inr (Inr ())) \<and> written t = w0 @ vsend c)"
proof -
  obtain t1 buf r1 where rm: "read_message T full p (vconn c) (vrecv c) = Some (t1, buf, r1)"
    using assms(1) by (auto simp: v5_recv_def split: option.splits)
  note inv = read_message_inv [OF assms(2) rm]
  show ?thesis
  proof (cases r1)
    case (Inl e)
    then show ?thesis using assms(1) rm by (auto simp: v5_recv_def)
  next
    case (Inr m)
    then show ?thesis using assms(1,3) rm inv
      by (cases "k m") (auto simp: v5_recv_def)
  qed
qed

end

definition v5_rank :: "v5_config \<Rightarrow> v5_state \<Rightarrow> nat" where
  "v5_rank cfg st =
     (case st of
        SendingNegReq \<Rightarrow> 5
      | SendingAuthReq \<Rightarrow> if optimistic cfg then 4 else 3
      | SendingProxyReq \<Rightarrow> if optimistic cfg then 3 else 1
      | ReadingNegRes \<Rightarrow> if optimistic cfg then 2 else 4
      | ReadingAuthRes \<Rightarrow> if optimistic cfg then 1 else 2
      | ReadingProxyRes \<Rightarrow> 0)"

lemma v5_method_cases:
  "v5_method cfg = NoAuth \<and> v5_credentials cfg = [] \<or> v5_method cfg = UserPass"
  by (cases "proxy_auth cfg") (auto simp: v5_method_def v5_credentials_def)

context live_transport begin

definition v5_inv :: "v5_config \<Rightarrow> v5_address \<Rightarrow> bytes \<Rightarrow> 't v5_conf \<Rightarrow> bool" where
  "v5_inv cfg a w0 c \<longleftrightarrow> tinv (vconn c) \<and> vsend c = v5_sent cfg a (vstate c) \<and> written (vconn c) = w0 @ vsend c"

lemma v5_step_inv:
  assumes inv: "v5_inv cfg a w0 c" and step: "v5_step T full cap cfg a c = Some r"
  shows "(case r of
      Inl c' \<Rightarrow> v5_inv cfg a w0 c' \<and> v5_rank cfg (vstate c') < v5_rank cfg (vstate c)
    | Inr (t, r) \<Rightarrow> r = Inr () \<longrightarrow> written t = w0 @ v5_opening cfg @ v5_credentials cfg @ v5_destination a)"
proof -
  have c: "tinv (vconn c)" "written (vconn c) = w0 @ vsend c" "vsend c = v5_sent cfg a (vstate c)"
    using inv by (simp_all add: v5_inv_def)
  note send = v5_send_inv [OF _ c(1,2)] and recv = v5_recv_inv [OF _ c(1,2)]
  note defs = v5_step_def Let_def v5_inv_def v5_sent_def v5_rank_def
  show ?thesis
  proof (cases "vstate c")
    case SendingNegReq
    with step have "v5_send T (negotiation_req cap (v5_method cfg))
        (if optimistic cfg then if v5_method cfg = UserPass then SendingAuthReq else SendingProxyReq else ReadingNegRes) c = Some r"
      by (simp add: v5_step_def Let_def)
    from send [OF this, of "v5_opening cfg"] SendingNegReq c(3) v5_method_cases [of cfg] show ?thesis
      by (auto simp: negotiation_req_def append_checked_Inr v5_opening_def defs split: sum.splits if_splits)
  next
    case ReadingNegRes
    with step recv show ?thesis using c(3) v5_method_cases [of cfg]
      by (fastforce simp: defs split: sum.splits if_splits)
  next
    case SendingAuthReq
    with step obtain user pass where up: "proxy_auth cfg = Some (user, pass)"
      and s: "v5_send T (authentication_req cap user pass) (if optimistic cfg then SendingProxyReq else ReadingAuthRes) c = Some r"
      by (auto simp: v5_step_def Let_def split: option.splits)
    from send [OF s, of "v5_credentials cfg"] SendingAuthReq c(3) up show ?thesis
      by (auto simp: authentication_req_def append_checked_Inr v5_credentials_def defs split: sum.splits if_splits)
  next
    case ReadingAuthRes
    with step recv show ?thesis using c(3)
      by (fastforce simp: defs split: sum.splits if_splits)
  next
    case SendingProxyReq
    with step have "v5_send T (proxy_req cap a) (if optimistic cfg then ReadingNegRes else ReadingProxyRes) c = Some r"
      by (simp add: v5_step_def Let_def)
    from send [OF this, of "v5_destination a"] SendingProxyReq c(3) show ?thesis
      by (auto simp: proxy_req_Inr defs split: sum.splits if_splits)
  next
    case ReadingProxyRes
    with step recv show ?thesis using c(3)
      by (fastforce simp: defs split: sum.splits if_splits)
  qed
qed

lemma v5_run_sends:
  "v5_inv cfg a w0 c \<Longrightarrow> v5_run T full cap cfg a c = Some (t', Inr ()) \<Longrightarrow>
    written t' = w0 @ v5_opening cfg @ v5_credentials cfg @ v5_destination a"
proof (induction "v5_rank cfg (vstate c)" arbitrary: c rule: less_induct)
  case less
  obtain r where r: "v5_step T full cap cfg a c = Some r"
    using less.prems(2) by (auto simp: v5_run.simps [of T full cap cfg a c] split: option.splits)
  note st = v5_step_inv [OF less.prems(1) r]
  show ?case
  proof (cases r)
    case (Inl c')
    with st less.hyps [of c'] less.prems(2) r show ?thesis by (auto simp: v5_run.simps [of T full cap cfg a c])
  next
    case (Inr y)
    with st less.prems(2) r show ?thesis by (auto simp: v5_run.simps [of T full cap cfg a c])
  qed
qed

end

text \<open>When a version 5 handshake succeeds, in either mode, what has been sent over the connection is exactly the greeting, the
  credentials if there are any, and the request for the destination, in this order.\<close>

lemma socks5_sends_exactly:
  assumes "live_transport T unread tinv written patience" and "tinv t" and "v5_address_of resolve cfg host port = Inr a"
    and "v5_execute T full cap resolve cfg t host port = Some (t', Inr ())"
  shows "written t' = written t @ v5_opening cfg @ v5_credentials cfg @ v5_destination a"
proof (rule live_transport.v5_run_sends [OF assms(1)])
  let ?c = "\<lparr>vstate = SendingNegReq, vconn = t, vsend = [], vrecv = []\<rparr>"
  show "live_transport.v5_inv tinv written cfg a (written t) ?c"
    using assms(2) by (simp add: live_transport.v5_inv_def [OF assms(1)] v5_sent_def)
  show "v5_run T full cap cfg a ?c = Some (t', Inr ())" using assms(3,4) by (simp add: v5_execute_def)
qed

section \<open>Version 5 over a scripted proxy\<close>

lemma mock_read_block:
  "dropWhile (\<lambda>a. a = Chunk []) (script m) = Chunk bs # rest \<Longrightarrow> length bs \<le> n \<Longrightarrow>
    rt_read mock_ops m n = Some (m\<lparr>script := Chunk [] # rest\<rparr>, Inr bs)"
  by (simp add: rt_read.simps mock_ops_def)

lemma mock_write_all:
  "0 < write_limit m \<Longrightarrow> write_all mock_ops m buf = Some (m\<lparr>sent := sent m @ buf\<rparr>, Inr ())"
proof (induction "length buf" arbitrary: m buf rule: less_induct)
  case less
  show ?case
  proof (cases "buf = []")
    case False
    let ?n = "min (write_limit m) (length buf)"
    have "length (drop ?n buf) < length buf" using False less.prems by simp
    moreover have "poll_write mock_ops m buf = (m\<lparr>sent := sent m @ take ?n buf\<rparr>, Ready (Inr ?n))"
      by (simp add: mock_ops_def mock_write_def Let_def)
    ultimately show ?thesis using less.hyps [of "drop ?n buf" "m\<lparr>sent := sent m @ take ?n buf\<rparr>"] less.prems False
      by (simp add: write_all.simps [of mock_ops m buf])
  qed (simp add: write_all.simps)
qed

lemma mock_send:
  "0 < write_limit (vconn c) \<Longrightarrow> ser (vsend c) = Inr (vsend c @ bs) \<Longrightarrow>
    v5_send mock_ops ser st c = Some (Inl (c\<lparr>vstate := st, vconn := (vconn c)\<lparr>sent := sent (vconn c) @ bs\<rparr>, vsend := vsend c @ bs\<rparr>))"
  by (simp add: v5_send_def mock_write_all)

lemma mock_recv:
  assumes "dropWhile (\<lambda>a. a = Chunk []) (script (vconn c)) = Chunk bs # rest" and "length bs \<le> 513"
    and "p (vrecv c @ bs) = Some (buf, Inr m)"
  shows "v5_recv mock_ops full p k c =
    (case k m of
       Inl st \<Rightarrow> Some (Inl (c\<lparr>vstate := st, vconn := (vconn c)\<lparr>script := Chunk [] # rest\<rparr>, vrecv := buf\<rparr>))
     | Inr r \<Rightarrow> Some (Inr ((vconn c)\<lparr>script := Chunk [] # rest\<rparr>, r)))"
  using assms by (simp add: v5_recv_def read_message.simps mock_read_block split: sum.splits)

lemma address_bytes_socket_length: "length (address_bytes (V5Socket ip p)) \<le> 19"
  by (cases ip) (simp_all add: address_bytes_def)

lemma take_octets: "length a = n \<Longrightarrow> take n (a @ b) = a" "length a = n \<Longrightarrow> drop n (a @ b) = b"
  by simp_all

lemma address_roundtrip: "address_try_from (address_bytes (V5Socket ip port) @ rest) = Some (rest, Inr (V5Socket ip port))"
  by (cases ip) (simp_all add: address_try_from_def address_bytes_def with_u8_def with_u16_def with_slice_def)

text \<open>A socket address written by one side of a version 5 handshake is read back by the other, with the rest of the
  buffer untouched, for both address families and every port.\<close>

lemma socks5_address_roundtrip:
  assumes "address_write cap (V5Socket ip port) [] = Inr bs"
  shows "address_try_from (bs @ rest) = Some (rest, Inr (V5Socket ip port))"
  using assms address_roundtrip by (auto simp: address_write_Inr)

text \<open>At a concrete input: an IPv6 address.\<close>

lemma socks5_address_roundtrip_instance:
  "address_try_from (address_bytes (V5Socket (V6 1) 443)) = Some ([], Inr (V5Socket (V6 1) 443))"
  using socks5_address_roundtrip [of 262 "V6 1" 443 "address_bytes (V5Socket (V6 1) 443)" "[]"]
  by (simp add: address_write_Inr addr_len_def)

lemma proxy_res_success: "proxy_res ([CHR 0x05, CHR 0x00, CHR 0x00] @ address_bytes (V5Socket ip port)) = Some ([], Inr Success)"
  using address_roundtrip [of ip port "[]"] by (simp add: proxy_res_def with_u8_def)

lemma negotiation_ok: "v5_method cfg = m \<Longrightarrow> negotiation_res [CHR 0x05, method_byte (v5_method cfg)] = Some ([], Inr (v5_method cfg))"
  using v5_method_cases [of cfg] by (auto simp: negotiation_res_def with_u8_def)

lemma authentication_ok: "authentication_res [CHR 0x01, CHR 0x00] = Some ([], Inr True)"
  by (simp add: authentication_res_def with_u8_def)

lemma v5_serialize_ok:
  assumes "length (v5_opening cfg) + length (v5_credentials cfg) + 3 + addr_len a \<le> cap"
  shows "negotiation_req cap (v5_method cfg) [] = Inr (v5_opening cfg)"
    and "proxy_auth cfg = Some (user, pass) \<Longrightarrow>
      authentication_req cap user pass (v5_opening cfg) = Inr (v5_opening cfg @ v5_credentials cfg)"
    and "proxy_req cap a (v5_opening cfg @ v5_credentials cfg) = Inr (v5_opening cfg @ v5_credentials cfg @ v5_destination a)"
  using assms by (auto simp: negotiation_req_def append_checked_Inr v5_opening_def authentication_req_def v5_credentials_def
      proxy_req_Inr)

text \<open>The answers of a proxy that accepts everything, one block each.\<close>

definition v5_answers :: "v5_config \<Rightarrow> IpAddr \<Rightarrow> u16 \<Rightarrow> mock_read list" where
  "v5_answers cfg ip port =
     [Chunk [CHR 0x05, method_byte (v5_method cfg)]] @
     (if proxy_auth cfg = None then [] else [Chunk [CHR 0x01, CHR 0x00]]) @
     [Chunk ([CHR 0x05, CHR 0x00, CHR 0x00] @ address_bytes (V5Socket ip port))]"

lemma v5_scripted_success:
  assumes "v5_address_of resolve cfg host port = Inr a" and "\<not> optimistic cfg"
    and "length (v5_opening cfg) + length (v5_credentials cfg) + 3 + addr_len a \<le> cap" and "0 < limit"
  shows "\<exists>m'. v5_execute mock_ops full cap resolve cfg \<lparr>script = v5_answers cfg ip p, sent = [], write_limit = limit\<rparr> host port =
      Some (m', Inr ()) \<and> sent m' = v5_opening cfg @ v5_credentials cfg @ v5_destination a"
proof -
  let ?N = "v5_opening cfg" and ?A = "v5_credentials cfg" and ?R = "v5_destination a"
  let ?run = "v5_run mock_ops full cap cfg a"
  let ?conf = "\<lambda>st sc se. \<lparr>vstate = st, vconn = \<lparr>script = sc, sent = se, write_limit = limit\<rparr>, vsend = se, vrecv = []\<rparr>"
  let ?reply = "[Chunk ([CHR 0x05, CHR 0x00, CHR 0x00] @ address_bytes (V5Socket ip p))]"
  note ser = v5_serialize_ok [OF assms(3)] and run = v5_run.simps [of mock_ops full cap cfg a]
  note steps = v5_step_def Let_def assms(2) mock_send assms(4) mock_recv
  have fin: "\<exists>m'. ?run (?conf ReadingProxyRes (Chunk [] # ?reply) (?N @ ?A @ ?R)) = Some (m', Inr ()) \<and> sent m' = ?N @ ?A @ ?R"
    using address_bytes_socket_length [of ip p] proxy_res_success [of ip p] by (subst run) (simp add: steps)
  have req: "?run (?conf SendingProxyReq sc (?N @ ?A)) = ?run (?conf ReadingProxyRes sc (?N @ ?A @ ?R))" for sc
    using ser(3) by (subst run) (simp add: steps)
  have neg: "?run (?conf SendingNegReq sc []) = ?run (?conf ReadingNegRes sc ?N)" for sc
    using ser(1) by (subst run) (simp add: steps)
  have "?run (?conf ReadingNegRes (v5_answers cfg ip p) ?N) = ?run (?conf ReadingProxyRes (Chunk [] # ?reply) (?N @ ?A @ ?R))"
  proof (cases "proxy_auth cfg")
    case None
    then have m: "v5_method cfg = NoAuth" "?A = []" by (simp_all add: v5_method_def v5_credentials_def)
    then show ?thesis using req [of "Chunk [] # ?reply"] None negotiation_ok [of cfg NoAuth]
      by (subst run) (simp add: steps v5_answers_def)
  next
    case (Some up)
    obtain user pass where up: "up = (user, pass)" by (rule prod.exhaust)
    have m: "v5_method cfg = UserPass" using Some by (simp add: v5_method_def)
    have 1: "?run (?conf ReadingNegRes (v5_answers cfg ip p) ?N) =
        ?run (?conf SendingAuthReq ([Chunk [], Chunk [CHR 0x01, CHR 0x00]] @ ?reply) ?N)"
      using m Some negotiation_ok [of cfg UserPass] by (subst run) (simp add: steps v5_answers_def)
    have 2: "?run (?conf SendingAuthReq sc ?N) = ?run (?conf ReadingAuthRes sc (?N @ ?A))" for sc
      using ser(2) Some up by (subst run) (simp add: steps)
    have 3: "?run (?conf ReadingAuthRes ([Chunk [], Chunk [CHR 0x01, CHR 0x00]] @ ?reply) (?N @ ?A)) =
        ?run (?conf SendingProxyReq (Chunk [] # ?reply) (?N @ ?A))"
      using authentication_ok by (subst run) (simp add: steps)
    show ?thesis unfolding 1 2 3 req ..
  qed
  with fin neg show ?thesis using assms(1) by (simp add: v5_execute_def)
qed



definition auth_cfg :: v5_config where
  "auth_cfg = \<lparr>proxy_auth = Some (''u'', ''pw''), local_dns = False, optimistic = False\<rparr>"

lemma auth_cfg_address: "v5_address_of (\<lambda>_ _. Inr []) auth_cfg ''example.com'' 443 = Inr (V5Domain ''example.com'' 443)"
  by (simp add: v5_address_of_def parse_ip_name auth_cfg_def)

text \<open>At a concrete input: a handshake with credentials.\<close>

lemma socks5_sends_exactly_instance:
  "\<exists>m'. v5_execute mock_ops (\<lambda>_. False) 262 (\<lambda>_ _. Inr []) auth_cfg
     \<lparr>script = v5_answers auth_cfg (V4 0) 0, sent = [], write_limit = 2\<rparr> ''example.com'' 443 = Some (m', Inr ()) \<and>
   sent m' = v5_opening auth_cfg @ v5_credentials auth_cfg @ v5_destination (V5Domain ''example.com'' 443)"
proof -
  obtain m' where "v5_execute mock_ops (\<lambda>_. False) 262 (\<lambda>_ _. Inr []) auth_cfg
     \<lparr>script = v5_answers auth_cfg (V4 0) 0, sent = [], write_limit = 2\<rparr> ''example.com'' 443 = Some (m', Inr ())"
    using v5_scripted_success [OF auth_cfg_address, of 262 2 "\<lambda>_. False" "V4 0" 0]
    by (auto simp: v5_opening_def v5_credentials_def addr_len_def auth_cfg_def)
  with socks5_sends_exactly [OF mock_live.live_transport_axioms _ auth_cfg_address this] show ?thesis by simp
qed

section \<open>Version 5: where it fails\<close>

text \<open>The reader of a version 5 reply is not prepared for a reply that arrives in pieces. It takes bytes out of the
  buffer before it knows whether the reply is complete: cut after four bytes, a reply that would mean success
  is reported as malformed; cut after two bytes, or inside an IPv6 address, it makes the code panic.\<close>

lemma socks5_reply_fragile:
  "proxy_res [CHR 0x05, CHR 0x00, CHR 0x00, CHR 0x01, CHR 0x7F, CHR 0x00, CHR 0x00, CHR 0x01, CHR 0x00, CHR 0x50] = Some ([], Inr Success) \<and>
   (\<exists>m'. read_message mock_ops full proxy_res
      \<lparr>script = [Chunk [CHR 0x05, CHR 0x00, CHR 0x00, CHR 0x01], Chunk [CHR 0x7F, CHR 0x00, CHR 0x00, CHR 0x01, CHR 0x00, CHR 0x50]],
        sent = [], write_limit = 1\<rparr> [] = Some (m', [CHR 0x7F, CHR 0x00, CHR 0x00, CHR 0x01, CHR 0x00, CHR 0x50], Inl (SocksParsing OtherParse))) \<and>
   proxy_res [CHR 0x05, CHR 0x00] = None \<and>
   proxy_res ([CHR 0x05, CHR 0x00, CHR 0x00, CHR 0x04] @ replicate 10 CHR 0x00) = None"
  by (simp add: proxy_res_def address_try_from_def with_u8_def with_u16_def with_slice_def read_message.simps mock_read_block)

text \<open>The send buffer is never emptied, so the messages of a handshake share its 262 bytes: credentials of more than 256
  bytes together are refused as too long, although each part may have 255.\<close>

lemma socks5_credentials_overflow:
  assumes "256 < length user + length pass" and "negotiation_req 262 UserPass [] = Inr buf"
  shows "authentication_req 262 user pass buf = Inl SerWouldOverflow"
  using assms by (auto simp: negotiation_req_def authentication_req_def append_checked_def split: if_splits)

text \<open>At a concrete input: a user name of 200 bytes and a password of 57.\<close>

lemma socks5_credentials_overflow_instance:
  "authentication_req 262 (replicate 200 CHR ''a'') (replicate 57 CHR ''b'') [CHR 0x05, CHR 0x01, CHR 0x02] = Inl SerWouldOverflow"
  by (rule socks5_credentials_overflow) (simp_all add: negotiation_req_def append_checked_def)

text \<open>A proxy that keeps the connection open: no more bytes, and no end either.\<close>

definition open_ops :: "mock transport_ops" where
  "open_ops = mock_ops\<lparr>poll_read := \<lambda>m n. if script_bytes (script m) = [] then (m, Pending) else mock_poll_read m n\<rparr>"

lemma open_read_blocks:
  assumes "script_bytes (script m) = []"
  shows "rt_read open_ops m n = None"
proof -
  have "\<not> (T = open_ops \<and> script_bytes (script m) = [])" if "rt_read T m n = Some y" for T m n y
    using that
  proof (rule rt_read.raw_induct [where P = "\<lambda>T m n y. \<not> (T = open_ops \<and> script_bytes (script m) = [])", rotated])
    fix f and T :: "mock transport_ops" and m n y
    assume ih: "\<And>(T :: mock transport_ops) m n y. f T m n = Some y \<Longrightarrow> \<not> (T = open_ops \<and> script_bytes (script m) = [])"
      and body: "(case poll_read T m n of (t', Pending) \<Rightarrow> f T t' n | (t', Ready r) \<Rightarrow> Some (t', r)) = Some y"
    show "\<not> (T = open_ops \<and> script_bytes (script m) = [])"
    proof
      assume "T = open_ops \<and> script_bytes (script m) = []"
      then have "T = open_ops" "script_bytes (script m) = []" "f T m n = Some y" using body by (auto simp: open_ops_def)
      with ih show False by blast
    qed
  qed
  with assms show ?thesis by (cases "rt_read open_ops m n") auto
qed

lemma open_read_block:
  "dropWhile (\<lambda>a. a = Chunk []) (script m) = Chunk bs # rest \<Longrightarrow> length bs \<le> n \<Longrightarrow>
    rt_read open_ops m n = Some (m\<lparr>script := Chunk [] # rest\<rparr>, Inr bs)"
proof -
  assume d: "dropWhile (\<lambda>a. a = Chunk []) (script m) = Chunk bs # rest" and n: "length bs \<le> n"
  have "bs \<noteq> []" using hd_dropWhile_Chunk [OF d] .
  then have "script_bytes (script m) \<noteq> []" using d by (metis append_is_Nil_conv script_bytes.simps(3) script_bytes_drop)
  then have "poll_read open_ops m n = (m\<lparr>script := Chunk [] # rest\<rparr>, Ready (Inr bs))" using d n by (simp add: open_ops_def)
  then show ?thesis by (simp add: rt_read.simps [of open_ops m n])
qed

text \<open>A message is only looked for after a read. In optimistic mode a proxy may answer the greeting and the request in one
  block; the handshake then waits for a read that never completes, with the whole answer in its buffer. The
  same answers in two blocks are accepted.\<close>

lemma socks5_optimistic_hang:
  "v5_run open_ops full cap \<lparr>proxy_auth = None, local_dns = False, optimistic = True\<rparr> a
     \<lparr>vstate = ReadingNegRes, vconn = \<lparr>script = [Chunk ([CHR 0x05, CHR 0x00] @ [CHR 0x05, CHR 0x00, CHR 0x00, CHR 0x01,
        CHR 0x7F, CHR 0x00, CHR 0x00, CHR 0x01, CHR 0x00, CHR 0x50])], sent = w, write_limit = l\<rparr>, vsend = b, vrecv = []\<rparr> = None \<and>
   (\<exists>m'. v5_run open_ops full cap \<lparr>proxy_auth = None, local_dns = False, optimistic = True\<rparr> a
     \<lparr>vstate = ReadingNegRes, vconn = \<lparr>script = [Chunk [CHR 0x05, CHR 0x00], Chunk [CHR 0x05, CHR 0x00, CHR 0x00, CHR 0x01,
        CHR 0x7F, CHR 0x00, CHR 0x00, CHR 0x01, CHR 0x00, CHR 0x50]], sent = w, write_limit = l\<rparr>, vsend = b, vrecv = []\<rparr> = Some (m', Inr ()))"
proof -
  let ?cfg = "\<lparr>proxy_auth = None, local_dns = False, optimistic = True\<rparr>"
  have k: "v5_method ?cfg = NoAuth" by (simp add: v5_method_def)
  note ev = v5_run.simps [of open_ops full cap ?cfg a] v5_step_def v5_recv_def read_message.simps k Let_def
    negotiation_res_def proxy_res_def address_try_from_def with_u8_def with_u16_def with_slice_def open_read_block open_read_blocks
  show ?thesis by (simp add: ev)
qed

end
