(* ===== verification/Redirect.thy ===== *)
theory Redirect
  imports Proxy
begin

text \<open>
  Executing a request: the policies of \<^verbatim>\<open>src/src/redirect.rs\<close>, and in \<^verbatim>\<open>src/src/client/client.rs\<close> what makes a
  request of the user's into the first one that is sent, \<^verbatim>\<open>execute_request\<close>, and the loop that retries it and follows
  redirects, \<^verbatim>\<open>PendingRequest\<close>.

  URLs are those of the \<^verbatim>\<open>url\<close> crate, a parameter given by the record \<open>url_ops\<close>. What the layers below answer
  to the request in flight is an \<open>outcome\<close>; one iteration of the loop is \<open>pending_step\<close>, and \<open>pending_loop\<close> runs it over a
  sequence of outcomes, which the server and the network choose. The cookie store is a parameter of the outcome: what it
  holds for a URL once the response's cookies are in it.
\<close>

section \<open>Policies\<close>

record 'u url_ops =
  url_join :: "'u \<Rightarrow> bytes \<Rightarrow> 'u option"
  url_is_uri :: "'u \<Rightarrow> bool"
  url_scheme :: "'u \<Rightarrow> string"
  url_host_str :: "'u \<Rightarrow> string option"
  url_port_or_known_default :: "'u \<Rightarrow> u16 option"
  url_clear_username :: "'u \<Rightarrow> 'u"
  url_clear_password :: "'u \<Rightarrow> 'u"
  url_clear_fragment :: "'u \<Rightarrow> 'u"
  url_as_value :: "'u \<Rightarrow> header_value option"
  url_dst :: "'u \<Rightarrow> dst"

record 'u Attempt =
  at_status :: nat
  at_next_method :: http_method
  at_next :: 'u
  at_previous_method :: http_method
  at_previous :: "'u list"

datatype ActionKind = Follow | Stop | ErrorAction string

datatype 'u PolicyKind = CustomPolicy "'u Attempt \<Rightarrow> ActionKind" | Limit nat | NonePolicy

definition redirect :: "'u PolicyKind \<Rightarrow> 'u Attempt \<Rightarrow> ActionKind" where
  "redirect policy attempt =
     (case policy of
        CustomPolicy custom \<Rightarrow> custom attempt
      | Limit mx \<Rightarrow> if mx < length (at_previous attempt) then ErrorAction ''too many redirects'' else Follow
      | NonePolicy \<Rightarrow> Stop)"

definition default_policy :: "'u PolicyKind" where
  "default_policy = Limit 10"

definition check :: "'u PolicyKind \<Rightarrow> nat \<Rightarrow> http_method \<Rightarrow> 'u \<Rightarrow> http_method \<Rightarrow> 'u list \<Rightarrow> ActionKind" where
  "check policy status next_method nxt previous_method previous =
     redirect policy \<lparr>at_status = status, at_next_method = next_method, at_next = nxt,
       at_previous_method = previous_method, at_previous = previous\<rparr>"

definition cross_host :: "'u url_ops \<Rightarrow> 'u \<Rightarrow> 'u \<Rightarrow> bool" where
  "cross_host U nxt previous \<longleftrightarrow> url_host_str U nxt \<noteq> url_host_str U previous \<or>
     url_port_or_known_default U nxt \<noteq> url_port_or_known_default U previous"

definition remove_sensitive_headers :: "('m, 'z) http_lib_scheme \<Rightarrow> 'u url_ops \<Rightarrow> 'm \<Rightarrow> 'u \<Rightarrow> 'u list \<Rightarrow> 'm" where
  "remove_sensitive_headers H U headers nxt previous =
     (if previous = [] then headers
      else if cross_host U nxt (last previous)
      then hm_remove H ''www-authenticate'' (hm_remove H ''proxy-authorization'' (hm_remove H ''cookie2''
             (hm_remove H ''cookie'' (hm_remove H ''authorization'' headers))))
      else headers)"

section \<open>The request in flight\<close>

datatype body = Reusable bytes | Streaming

definition try_reuse :: "body \<Rightarrow> bytes option" where
  "try_reuse b = (case b of Reusable chunk \<Rightarrow> Some chunk | Streaming \<Rightarrow> None)"

record ('u, 'm) request =
  rq_url :: 'u
  rq_method :: http_method
  rq_headers :: 'm
  rq_body :: body
  rq_network :: "'m NetworkScheme"

text \<open>The client's settings: \<open>cl_build_ok\<close> stands for the request builder, which may refuse; \<open>cl_accept_encoding\<close> is what the
  codings the client decodes are called.\<close>

record ('u, 'n, 'm) client_cfg =
  cl_headers :: 'm
  cl_accept_encoding :: "header_value option"
  cl_proxies :: "('u, 'n, 'm) Proxy list"
  cl_network :: "'m NetworkSchemeBuilder"
  cl_max_retry_count :: nat
  cl_referer :: bool
  cl_https_only :: bool
  cl_redirect :: "'u PolicyKind"
  cl_cookie_store :: bool
  cl_build_ok :: "('u, 'm) request \<Rightarrow> bool"

text \<open>The request as the user made it.\<close>

record ('u, 'm) user_request =
  ur_method :: http_method
  ur_url :: 'u
  ur_headers :: 'm
  ur_body :: "body option"
  ur_redirect :: "'u PolicyKind option"
  ur_allow_compression :: bool
  ur_network :: "'m NetworkScheme"

text \<open>A body is absent, or there, and then a reusable one is known: \<^verbatim>\<open>Option<Option<Bytes>>\<close>.\<close>

record ('u, 'm) PendingRequest =
  pr_method :: http_method
  pr_url :: 'u
  pr_headers :: 'm
  pr_body :: "bytes option option"
  pr_urls :: "'u list"
  pr_retry_count :: nat
  pr_max_retry_count :: nat
  pr_redirect :: "'u PolicyKind option"
  pr_network :: "'m NetworkScheme"

text \<open>An error is the chain of its sources.\<close>

datatype err_node = H2Node h2_error | OtherNode string

definition is_retryable_error :: "err_node list \<Rightarrow> bool" where
  "is_retryable_error sources =
     (case sources of
        _ # H2Node e # _ \<Rightarrow>
          (h2_is_go_away e \<and> h2_is_remote e \<and> h2e_reason e = Some NO_ERROR) \<or>
          (h2_is_reset e \<and> h2_is_remote e \<and> h2e_reason e = Some REFUSED_STREAM)
      | _ \<Rightarrow> False)"

datatype ('u, 'm) outcome =
    InFlight
  | TransportError "err_node list"
  | Answer nat 'm "'u \<Rightarrow> header_value list option"

datatype 'u client_error = RequestError 'u | BadScheme 'u | RedirectBadScheme 'u | BadUri 'u | BuildError | RedirectError string 'u

datatype 'u pending_result = NotReady | Failed "'u client_error" | Done nat 'u

definition reusable_body :: "bytes option option \<Rightarrow> bytes" where
  "reusable_body b = (case b of Some (Some bs) \<Rightarrow> bs | _ \<Rightarrow> [])"

definition current_request :: "('u, 'm) PendingRequest \<Rightarrow> ('u, 'm) request" where
  "current_request p = \<lparr>rq_url = pr_url p, rq_method = pr_method p, rq_headers = pr_headers p, 
     rq_body = Reusable (reusable_body (pr_body p)), rq_network = pr_network p\<rparr>"

text \<open>\<^verbatim>\<open>retry_error\<close>: the request to send again, or no retry.\<close>

definition retry_error ::
  "'u url_ops \<Rightarrow> ('u, 'n, 'm) client_cfg \<Rightarrow> err_node list \<Rightarrow> ('u, 'm) PendingRequest \<Rightarrow> (('u, 'm) PendingRequest \<times> ('u, 'm) request) option" where
  "retry_error U cfg err p =
     (if \<not> is_retryable_error err then None
      else if pr_body p = Some None then None
      else if pr_max_retry_count p \<le> pr_retry_count p then None
      else let p' = p\<lparr>pr_retry_count := pr_retry_count p + 1\<rparr>; rq = current_request p'
           in if \<not> url_is_uri U (pr_url p) then None
              else if cl_build_ok cfg rq then Some (p', rq) else None)"

definition make_referer :: "'u url_ops \<Rightarrow> 'u \<Rightarrow> 'u \<Rightarrow> header_value option" where
  "make_referer U nxt previous =
     (if url_scheme U nxt = ''http'' \<and> url_scheme U previous = ''https'' then None
      else url_as_value U (url_clear_fragment U (url_clear_password U (url_clear_username U previous))))"

definition add_cookie_header ::
  "('m, 'z) http_lib_scheme \<Rightarrow> ('u \<Rightarrow> header_value list option) \<Rightarrow> 'm \<Rightarrow> 'u \<Rightarrow> 'm" where
  "add_cookie_header H cookies headers url =
     (case cookies url of None \<Rightarrow> headers | Some vs \<Rightarrow> fold (hm_append H ''cookie'') vs headers)"

text \<open>Whether a status is a redirect to follow, and what becomes of method, body and headers.\<close>

definition content_headers :: "header_name list" where
  "content_headers = [''transfer-encoding'', ''content-encoding'', ''content-type'', ''content-length'']"

definition rewrite_request ::
  "('m, 'z) http_lib_scheme \<Rightarrow> nat \<Rightarrow> ('u, 'm) PendingRequest \<Rightarrow> ('u, 'm) PendingRequest \<times> bool" where
  "rewrite_request H status p =
     (if status \<in> {301, 302, 303}
      then (p\<lparr>pr_body := None, pr_headers := fold (hm_remove H) content_headers (pr_headers p),
              pr_method := if pr_method p \<in> {GET, HEAD} then pr_method p else GET\<rparr>, True)
      else if status \<in> {307, 308} then (p, pr_body p \<noteq> Some None)
      else (p, False))"

definition location ::
  "('m, 'z) http_lib_scheme \<Rightarrow> 'u url_ops \<Rightarrow> 'u \<Rightarrow> 'm \<Rightarrow> 'u option" where
  "location H U url headers =
     (case hm_get H headers ''location'' of
        None \<Rightarrow> None
      | Some val \<Rightarrow>
          if \<not> is_utf8 val then None
          else case url_join U url val of None \<Rightarrow> None | Some loc \<Rightarrow> if url_is_uri U loc then Some loc else None)"

text \<open>Following: the new request, or the error that ends the loop.\<close>

definition follow_redirect ::
  "('m, 'z) http_lib_scheme \<Rightarrow> 'u url_ops \<Rightarrow> ('u, 'n, 'm) client_cfg \<Rightarrow> ('u \<Rightarrow> header_value list option) \<Rightarrow> 'u \<Rightarrow>
   ('u, 'm) PendingRequest \<Rightarrow> ('u, 'm) PendingRequest \<times> ('u, 'm) request + 'u pending_result" where
  "follow_redirect H U cfg cookies loc p =
     (if url_scheme U loc \<noteq> ''http'' \<and> url_scheme U loc \<noteq> ''https'' then Inr (Failed (BadScheme loc))
      else if cl_https_only cfg \<and> url_scheme U loc \<noteq> ''https'' then Inr (Failed (RedirectBadScheme loc))
      else
        let headers = remove_sensitive_headers H U (pr_headers p) loc (pr_urls p)
        in if \<not> url_is_uri U loc then Inr (Failed (BadUri loc))
           else
             let headers' = (if cl_cookie_store cfg then add_cookie_header H cookies headers loc else headers);
                 p' = p\<lparr>pr_url := loc, pr_headers := headers'\<rparr>;
                 rq = current_request p'
             in if cl_build_ok cfg rq then Inl (p', rq) else Inr (Failed BuildError))"

text \<open>One iteration of \<^verbatim>\<open>PendingRequest::poll\<close>: another request sent, or the result of the call.\<close>

definition pending_step ::
  "('m, 'z) http_lib_scheme \<Rightarrow> 'u url_ops \<Rightarrow> ('u, 'n, 'm) client_cfg \<Rightarrow> ('u, 'm) outcome \<Rightarrow> ('u, 'm) PendingRequest \<Rightarrow>
   ('u, 'm) PendingRequest \<times> ('u, 'm) request + 'u pending_result" where
  "pending_step H U cfg out p =
     (case out of
        InFlight \<Rightarrow> Inr NotReady
      | TransportError err \<Rightarrow>
          (case retry_error U cfg err p of
             Some x \<Rightarrow> Inl x
           | None \<Rightarrow> Inr (Failed (RequestError (pr_url p))))
      | Answer status headers cookies \<Rightarrow>
          (case rewrite_request H status p of
             (p1, should_redirect) \<Rightarrow>
               (case (if should_redirect then location H U (pr_url p1) headers else None) of
                  None \<Rightarrow> Inr (Done status (pr_url p1))
                | Some loc \<Rightarrow>
                    let p2 = (if cl_referer cfg
                              then case make_referer U loc (pr_url p1) of
                                     None \<Rightarrow> p1
                                   | Some r \<Rightarrow> p1\<lparr>pr_headers := hm_insert H ''referer'' r (pr_headers p1)\<rparr>
                              else p1);
                        p3 = p2\<lparr>pr_urls := pr_urls p2 @ [pr_url p2]\<rparr>
                    in case check (case pr_redirect p3 of None \<Rightarrow> cl_redirect cfg | Some pol \<Rightarrow> pol)
                              status (pr_method p3) loc (pr_method p) (pr_urls p3) of
                         Follow \<Rightarrow> follow_redirect H U cfg cookies loc p3
                       | Stop \<Rightarrow> Inr (Done status (pr_url p3))
                       | ErrorAction e \<Rightarrow> Inr (Failed (RedirectError e (pr_url p3))))))"

text \<open>
  The loop over the outcomes from the \<open>i\<close>-th on: the state it leaves, which the next poll starts from when the result is not
  ready, and the requests it sent. The timeouts are looked at before it.
\<close>

partial_function (option) pending_loop ::
  "('m, 'z) http_lib_scheme \<Rightarrow> 'u url_ops \<Rightarrow> ('u, 'n, 'm) client_cfg \<Rightarrow> (nat \<Rightarrow> ('u, 'm) outcome) \<Rightarrow> nat \<Rightarrow> ('u, 'm) PendingRequest \<Rightarrow>
   ('u, 'm) request list \<Rightarrow> (('u, 'm) PendingRequest \<times> ('u, 'm) request list \<times> 'u pending_result) option" where
  "pending_loop H U cfg outs i p sent =
     (case pending_step H U cfg (outs i) p of
        Inl (p', rq) \<Rightarrow> pending_loop H U cfg outs (Suc i) p' (sent @ [rq])
      | Inr r \<Rightarrow> Some (p, sent, r))"

declare pending_loop.simps [code]

definition pending_poll ::
  "('m, 'z) http_lib_scheme \<Rightarrow> 'u url_ops \<Rightarrow> ('u, 'n, 'm) client_cfg \<Rightarrow> bool \<Rightarrow> bool \<Rightarrow> (nat \<Rightarrow> ('u, 'm) outcome) \<Rightarrow>
   ('u, 'm) PendingRequest \<Rightarrow> (('u, 'm) PendingRequest \<times> ('u, 'm) request list \<times> 'u pending_result) option" where
  "pending_poll H U cfg total_elapsed read_elapsed outs p =
     (if total_elapsed then Some (p, [], Failed (RequestError (pr_url p)))
      else if read_elapsed then Some (p, [], Failed (RequestError (pr_url p)))
      else pending_loop H U cfg outs 0 p [])"

section \<open>The first request\<close>

definition add_default_headers :: "('m, 'z) http_lib_scheme \<Rightarrow> 'm \<Rightarrow> 'm \<Rightarrow> 'm" where
  "add_default_headers H defaults headers =
     fold (\<lambda>name hs. if hm_contains_key H hs name then hs else fold (hm_append H name) (hm_get_all H defaults name) hs)
       (remdups (map fst (hm_iter H defaults))) headers"

definition add_accept_encoding_header :: "('m, 'z) http_lib_scheme \<Rightarrow> header_value option \<Rightarrow> 'm \<Rightarrow> 'm" where
  "add_accept_encoding_header H accepts headers =
     (case accepts of
        None \<Rightarrow> headers
      | Some accept_encoding \<Rightarrow>
          if \<not> hm_contains_key H headers ''accept-encoding'' \<and> \<not> hm_contains_key H headers ''range''
          then hm_insert H ''accept-encoding'' accept_encoding headers else headers)"

text \<open>\<^verbatim>\<open>execute_request\<close>: an error, or the call and the request it sends first; \<^const>\<open>None\<close> where a custom proxy rule panics.\<close>

definition execute_request ::
  "('m, 'z) http_lib_scheme \<Rightarrow> 'u url_ops \<Rightarrow> ('u, 'n, 'y) proxy_lib_scheme \<Rightarrow> ('u, 'n, 'm) client_cfg \<Rightarrow>
   ('u \<Rightarrow> header_value list option) \<Rightarrow> ('u, 'm) user_request \<Rightarrow>
   ('u client_error + ('u, 'm) PendingRequest \<times> ('u, 'm) request) option" where
  "execute_request H U L cfg cookies ur =
     (let url = ur_url ur; scheme = url_scheme U url
      in if scheme \<noteq> ''http'' \<and> scheme \<noteq> ''https'' then Some (Inl (BadScheme url))
         else if cl_https_only cfg \<and> scheme \<noteq> ''https'' then Some (Inl (BadScheme url))
         else
           let headers = add_default_headers H (cl_headers cfg) (ur_headers ur);
               headers = (if cl_cookie_store cfg \<and> \<not> hm_contains_key H headers ''cookie''
                          then add_cookie_header H cookies headers url else headers);
               headers = (if ur_allow_compression ur then add_accept_encoding_header H (cl_accept_encoding cfg) headers else headers)
           in if \<not> url_is_uri U url then Some (Inl (BadUri url))
              else
                case proxy_auth H L (cl_proxies cfg) (url_dst U url) headers of
                  None \<Rightarrow> None
                | Some headers \<Rightarrow>
                    (case network_scheme L (cl_proxies cfg) (cl_network cfg) (url_dst U url) (ur_network ur) of
                       None \<Rightarrow> None
                     | Some network \<Rightarrow>
                         let rq = \<lparr>rq_url = url, rq_method = ur_method ur, rq_headers = headers,
                                   rq_body = (case ur_body ur of None \<Rightarrow> Reusable [] | Some b \<Rightarrow> b), rq_network = network\<rparr>
                         in Some (if cl_build_ok cfg rq
                                  then Inr (\<lparr>pr_method = ur_method ur, pr_url = url, pr_headers = headers,
                                        pr_body = map_option try_reuse (ur_body ur), pr_urls = [], pr_retry_count = 0,
                                        pr_max_retry_count = cl_max_retry_count cfg, pr_redirect = ur_redirect ur,
                                        pr_network = network\<rparr>, rq)
                                  else Inl BuildError)))"

section \<open>One iteration\<close>

text \<open>What an iteration that sends another request does: a retry, or a redirect the policy allows.\<close>

lemma pending_step_sends:
  assumes "pending_step H U cfg out p = Inl (p', rq)"
  obtains (retry) err where "out = TransportError err" "rq = current_request p'" "p' = p\<lparr>pr_retry_count := pr_retry_count p + 1\<rparr>"
      "pr_retry_count p < pr_max_retry_count p"
  | (follow) status headers cookies loc p1 where "out = Answer status headers cookies" "rewrite_request H status p = (p1, True)"
      "location H U (pr_url p) headers = Some loc" "rq = current_request p'" "pr_url p' = loc"
      "pr_urls p' = pr_urls p @ [pr_url p]" "pr_method p' = pr_method p1" "pr_body p' = pr_body p1"
      "pr_retry_count p' = pr_retry_count p" "pr_max_retry_count p' = pr_max_retry_count p" "pr_redirect p' = pr_redirect p"
      "pr_network p' = pr_network p"
      "check (case pr_redirect p of None \<Rightarrow> cl_redirect cfg | Some pol \<Rightarrow> pol) status (pr_method p1) loc (pr_method p) (pr_urls p') = Follow"
      "url_scheme U loc \<in> {''http'', ''https''}" "cl_https_only cfg \<Longrightarrow> url_scheme U loc = ''https''"
      "\<exists>hs. (hs = pr_headers p1 \<or> (\<exists>r. hs = hm_insert H ''referer'' r (pr_headers p1))) \<and>
         pr_headers p' = (let h = remove_sensitive_headers H U hs loc (pr_urls p')
                          in if cl_cookie_store cfg then add_cookie_header H cookies h loc else h)"
proof (cases out)
  case InFlight
  with assms show ?thesis by (simp add: pending_step_def)
next
  case (TransportError b)
  with assms have "retry_error U cfg b p = Some (p', rq)" by (auto simp: pending_step_def split: option.splits)
  with TransportError show ?thesis by (intro retry [of b]) (auto simp: retry_error_def Let_def split: if_splits)
next
  case (Answer status headers cookies)
  obtain p1 b where rw: "rewrite_request H status p = (p1, b)" by (rule prod.exhaust)
  have keep: "pr_url p1 = pr_url p" "pr_urls p1 = pr_urls p" "pr_retry_count p1 = pr_retry_count p"
    "pr_max_retry_count p1 = pr_max_retry_count p" "pr_redirect p1 = pr_redirect p" "pr_network p1 = pr_network p"
    using rw by (auto simp: rewrite_request_def split: if_splits)
  obtain loc where b: "b" "location H U (pr_url p1) headers = Some loc"
    using assms Answer rw by (auto simp: pending_step_def split: option.splits if_splits)
  define p2 where "p2 = (if cl_referer cfg then case make_referer U loc (pr_url p1) of
       None \<Rightarrow> p1 | Some r \<Rightarrow> p1\<lparr>pr_headers := hm_insert H ''referer'' r (pr_headers p1)\<rparr> else p1)"
  define p3 where "p3 = p2\<lparr>pr_urls := pr_urls p2 @ [pr_url p2]\<rparr>"
  have keep2: "pr_url p3 = pr_url p1" "pr_urls p3 = pr_urls p1 @ [pr_url p1]" "pr_retry_count p3 = pr_retry_count p1"
    "pr_max_retry_count p3 = pr_max_retry_count p1" "pr_redirect p3 = pr_redirect p1" "pr_network p3 = pr_network p1" "pr_method p3 = pr_method p1" "pr_body p3 = pr_body p1"
    and hs: "pr_headers p3 = pr_headers p1 \<or> (\<exists>r. pr_headers p3 = hm_insert H ''referer'' r (pr_headers p1))"
    by (auto simp: p2_def p3_def split: option.splits)
  have "pending_step H U cfg out p =
    (case check (case pr_redirect p3 of None \<Rightarrow> cl_redirect cfg | Some pol \<Rightarrow> pol) status (pr_method p3) loc (pr_method p) (pr_urls p3) of
       Follow \<Rightarrow> follow_redirect H U cfg cookies loc p3 | Stop \<Rightarrow> Inr (Done status (pr_url p3))
     | ErrorAction e \<Rightarrow> Inr (Failed (RedirectError e (pr_url p3))))"
    unfolding p3_def using Answer rw b by (simp add: pending_step_def Let_def flip: p2_def)
  with assms have ok: "check (case pr_redirect p3 of None \<Rightarrow> cl_redirect cfg | Some pol \<Rightarrow> pol) status (pr_method p3) loc (pr_method p) (pr_urls p3) = Follow"
    and fl: "follow_redirect H U cfg cookies loc p3 = Inl (p', rq)" by (auto split: ActionKind.splits)
  have p': "rq = current_request p'" "p' = p3\<lparr>pr_url := loc, pr_headers :=
      (let h = remove_sensitive_headers H U (pr_headers p3) loc (pr_urls p3) in if cl_cookie_store cfg then add_cookie_header H cookies h loc else h)\<rparr>"
    and "url_scheme U loc \<in> {''http'', ''https''}" "cl_https_only cfg \<Longrightarrow> url_scheme U loc = ''https''"
    using fl by (auto simp: follow_redirect_def Let_def split: if_splits)
  then show ?thesis
    by (intro follow [of status headers cookies p1 loc]) (use Answer rw b keep keep2 ok hs in \<open>auto\<close>)
qed

lemmas loop_unfold = pending_loop.simps

section \<open>The number of requests\<close>

lemma limit_follow: "check (Limit mx) status nm loc pm urls = Follow \<Longrightarrow> length urls \<le> mx"
  by (simp add: check_def redirect_def split: if_splits)

definition hops_left :: "nat \<Rightarrow> ('u, 'm) PendingRequest \<Rightarrow> nat" where
  "hops_left mx p = (mx - length (pr_urls p)) + (pr_max_retry_count p - pr_retry_count p)"

lemma step_uses_hop:
  assumes "pending_step H U cfg out p = Inl (p', rq)"
    and "(case pr_redirect p of None \<Rightarrow> cl_redirect cfg | Some pol \<Rightarrow> pol) = Limit mx"
  shows "hops_left mx p' < hops_left mx p \<and> pr_redirect p' = pr_redirect p"
  using assms(1)
proof (cases rule: pending_step_sends)
  case retry
  then show ?thesis by (simp add: hops_left_def)
next
  case (follow status headers cookies loc p1)
  from follow(13) assms(2) have "length (pr_urls p') \<le> mx" by (simp add: limit_follow)
  with follow show ?thesis by (simp add: hops_left_def)
qed

lemma pending_loop_returns:
  assumes "(case pr_redirect p of None \<Rightarrow> cl_redirect cfg | Some pol \<Rightarrow> pol) = Limit mx"
  shows "\<exists>q sent' r. pending_loop H U cfg outs i p sent = Some (q, sent', r) \<and> length sent' \<le> length sent + hops_left mx p"
  using assms
proof (induction "hops_left mx p" arbitrary: p i sent rule: less_induct)
  case less
  show ?case
  proof (cases "pending_step H U cfg (outs i) p")
    case (Inr r)
    then show ?thesis by (subst loop_unfold) simp
  next
    case (Inl x)
    obtain p' rq where x: "x = (p', rq)" by (rule prod.exhaust)
    note step = Inl [unfolded x]
    from step_uses_hop [OF step less.prems] have hop: "hops_left mx p' < hops_left mx p" and pol: "pr_redirect p' = pr_redirect p" by simp_all
    from less.hyps [OF hop, of "Suc i" "sent @ [rq]"] less.prems pol obtain q sent' r where
      "pending_loop H U cfg outs (Suc i) p' (sent @ [rq]) = Some (q, sent', r)"
      "length sent' \<le> length (sent @ [rq]) + hops_left mx p'" by auto
    with step hop show ?thesis by (subst loop_unfold) auto
  qed
qed

section \<open>What a followed redirect sends\<close>

definition sensitive_headers :: "header_name list" where
  "sensitive_headers = [''authorization'', ''cookie2'', ''proxy-authorization'', ''www-authenticate'']"

text \<open>The invariant of the loop: a credential of the first request is there only as long as its host was not left.\<close>

definition kept_credentials :: "('m, 'z) http_lib_scheme \<Rightarrow> 'u url_ops \<Rightarrow> ('u, 'm) PendingRequest \<Rightarrow> 'u \<Rightarrow> 'm \<Rightarrow> bool" where
  "kept_credentials H U p0 url m \<longleftrightarrow> (\<forall>k\<in>set sensitive_headers. hm_get_all H m k \<noteq> [] \<longrightarrow>
     hm_get_all H m k = hm_get_all H (pr_headers p0) k \<and> \<not> cross_host U url (pr_url p0))"

text \<open>A cookie is one of the first request, whose host was not left, or the cookie store gave it out, at one of the answers, for a URL of
  the same host.\<close>

definition store_gives :: "'u url_ops \<Rightarrow> (nat \<Rightarrow> ('u, 'm) outcome) \<Rightarrow> 'u \<Rightarrow> header_value \<Rightarrow> bool" where
  "store_gives U outs url v \<longleftrightarrow>
     (\<exists>i status headers cookies u vs. outs i = Answer status headers cookies \<and> cookies u = Some vs \<and> v \<in> set vs \<and> \<not> cross_host U url u)"

definition kept_cookies ::
  "('m, 'z) http_lib_scheme \<Rightarrow> 'u url_ops \<Rightarrow> bool \<Rightarrow> (nat \<Rightarrow> ('u, 'm) outcome) \<Rightarrow> ('u, 'm) PendingRequest \<Rightarrow> 'u \<Rightarrow> 'm \<Rightarrow> bool" where
  "kept_cookies H U store outs p0 url m \<longleftrightarrow> (\<forall>v\<in>set (hm_get_all H m ''cookie'').
     v \<in> set (hm_get_all H (pr_headers p0) ''cookie'') \<and> \<not> cross_host U url (pr_url p0) \<or> store \<and> store_gives U outs url v)"

text \<open>An invariant of the loop, and what every request it sends has.\<close>

lemma pending_loop_invariant:
  assumes "pending_loop H U cfg outs i p sent = Some (q, sent', r)" and "J p" and "\<forall>rq\<in>set sent. S rq"
    and step: "\<And>p i p' rq. J p \<Longrightarrow> pending_step H U cfg (outs i) p = Inl (p', rq) \<Longrightarrow> J p' \<and> S rq"
  shows "J q \<and> (\<forall>rq\<in>set sent'. S rq)"
proof -
  let ?P = "\<lambda>H' U' cfg' outs' i p sent y. H' = H \<longrightarrow> U' = U \<longrightarrow> cfg' = cfg \<longrightarrow> outs' = outs \<longrightarrow> J p \<longrightarrow> (\<forall>rq\<in>set sent. S rq) \<longrightarrow>
     (case y of (q, sent', r) \<Rightarrow> J q \<and> (\<forall>rq\<in>set sent'. S rq))"
  have "?P H U cfg outs i p sent (q, sent', r)"
  proof (rule pending_loop.raw_induct [where P = ?P, rotated], rule assms(1))
    fix loop H' U' cfg' outs' i p sent y
    assume IH: "\<And>H' U' cfg' outs' i p sent y. loop H' U' cfg' outs' i p sent = Some y \<Longrightarrow> ?P H' U' cfg' outs' i p sent y"
      and body: "(case pending_step H' U' cfg' (outs' i) p of Inl (p', rq) \<Rightarrow> loop H' U' cfg' outs' (Suc i) p' (sent @ [rq])
                  | Inr r \<Rightarrow> Some (p, sent, r)) = Some y"
    show "?P H' U' cfg' outs' i p sent y"
    proof (intro impI)
      assume e: "H' = H" "U' = U" "cfg' = cfg" "outs' = outs" and J: "J p" and S: "\<forall>rq\<in>set sent. S rq"
      show "case y of (q, sent', r) \<Rightarrow> J q \<and> (\<forall>rq\<in>set sent'. S rq)"
      proof (cases "pending_step H U cfg (outs i) p")
        case (Inr r)
        with body e J S show ?thesis by auto
      next
        case (Inl x)
        obtain p' rq where x: "x = (p', rq)" by (rule prod.exhaust)
        with Inl have "J p' \<and> S rq" using step [OF J] by simp
        moreover from body Inl x e have "loop H U cfg outs (Suc i) p' (sent @ [rq]) = Some y" by simp
        ultimately show ?thesis using IH [of H U cfg outs "Suc i" p' "sent @ [rq]" y] S by auto
      qed
    qed
  qed
  with assms(2,3) show ?thesis by simp
qed

context http_laws
begin

lemma get_all_fold_remove: "hm_get_all H (fold (hm_remove H) ks m) k = (if k \<in> set ks then [] else hm_get_all H m k)"
  by (induction ks arbitrary: m) (auto simp: get_all_remove)

lemma get_all_fold_append:
  "hm_get_all H (fold (hm_append H k) vs m) k' = (if k' = k then hm_get_all H m k @ vs else hm_get_all H m k')"
  by (induction vs arbitrary: m) (auto simp: get_all_append)

lemma get_all_add_cookie:
  "k \<noteq> ''cookie'' \<Longrightarrow> hm_get_all H (add_cookie_header H cookies m url) k = hm_get_all H m k"
  by (simp add: add_cookie_header_def get_all_fold_append split: option.split)

lemma get_all_remove_sensitive:
  "hm_get_all H (remove_sensitive_headers H U m loc urls) k =
     (if urls \<noteq> [] \<and> cross_host U loc (last urls) \<and> k \<in> set (''cookie'' # sensitive_headers) then [] else hm_get_all H m k)"
  by (auto simp: remove_sensitive_headers_def sensitive_headers_def get_all_remove)

text \<open>The values a followed redirect sends for a header other than \<^verbatim>\<open>Cookie\<close> and \<^verbatim>\<open>Referer\<close>.\<close>

lemma get_all_followed:
  assumes hs: "\<exists>hs. (hs = m \<or> (\<exists>r. hs = hm_insert H ''referer'' r m)) \<and>
      m' = (let h = remove_sensitive_headers H U hs loc urls in if store then add_cookie_header H cookies h loc else h)"
    and k: "k \<noteq> ''cookie''" "k \<noteq> ''referer''"
  shows "hm_get_all H m' k =
    (if urls \<noteq> [] \<and> cross_host U loc (last urls) \<and> k \<in> set sensitive_headers then [] else hm_get_all H m k)"
proof -
  from hs obtain hs where c: "hs = m \<or> (\<exists>r. hs = hm_insert H ''referer'' r m)"
    and m': "m' = (let h = remove_sensitive_headers H U hs loc urls in if store then add_cookie_header H cookies h loc else h)"
    by blast
  from c k have "hm_get_all H hs k = hm_get_all H m k" by (auto simp: get_all_insert)
  with m' k show ?thesis by (simp add: get_all_add_cookie get_all_remove_sensitive Let_def)
qed

lemma rewrite_get_all:
  "rewrite_request H status p = (p1, b) \<Longrightarrow> hm_get_all H (pr_headers p1) k =
     (if status \<in> {301, 302, 303} \<and> k \<in> set content_headers then [] else hm_get_all H (pr_headers p) k)"
  by (auto simp: rewrite_request_def get_all_fold_remove split: if_splits)

lemma kept_credentials_step:
  assumes "pending_step H U cfg out p = Inl (p', rq)" and "kept_credentials H U p0 (pr_url p) (pr_headers p)"
  shows "kept_credentials H U p0 (pr_url p') (pr_headers p') \<and> rq = current_request p'"
  using assms(1)
proof (cases rule: pending_step_sends)
  case retry
  with assms(2) show ?thesis by simp
next
  case (follow status headers cookies loc p1)
  have dist: "k \<noteq> ''cookie'' \<and> k \<noteq> ''referer'' \<and> k \<notin> set content_headers" if "k \<in> set sensitive_headers" for k
    using that by (auto simp: sensitive_headers_def content_headers_def)
  have "hm_get_all H (pr_headers p') k = (if cross_host U loc (pr_url p) then [] else hm_get_all H (pr_headers p) k)"
    if k: "k \<in> set sensitive_headers" for k
    using get_all_followed [OF follow(16), of k] rewrite_get_all [OF follow(2), of k] dist [OF k] k follow(6) by simp
  moreover have "\<not> cross_host U loc (pr_url p0)" if "\<not> cross_host U loc (pr_url p)" "\<not> cross_host U (pr_url p) (pr_url p0)"
    using that by (simp add: cross_host_def)
  ultimately show ?thesis using assms(2) follow(4,5) by (simp add: kept_credentials_def)
qed

lemma cookies_followed:
  assumes "\<exists>hs. (hs = m \<or> (\<exists>r. hs = hm_insert H ''referer'' r m)) \<and>
      m' = (let h = remove_sensitive_headers H U hs loc urls in if store then add_cookie_header H cookies h loc else h)"
    and "urls \<noteq> []"
  shows "hm_get_all H m' ''cookie'' =
    (if cross_host U loc (last urls) then [] else hm_get_all H m ''cookie'') @
    (if store then case cookies loc of None \<Rightarrow> [] | Some vs \<Rightarrow> vs else [])"
proof -
  from assms(1) obtain hs where c: "hs = m \<or> (\<exists>r. hs = hm_insert H ''referer'' r m)"
    and m': "m' = (let h = remove_sensitive_headers H U hs loc urls in if store then add_cookie_header H cookies h loc else h)"
    by blast
  from c have "hm_get_all H hs ''cookie'' = hm_get_all H m ''cookie''" by (auto simp: get_all_insert)
  with m' assms(2) show ?thesis
    by (simp add: get_all_remove_sensitive add_cookie_header_def get_all_fold_append Let_def split: option.split)
qed

lemma kept_cookies_step:
  assumes "pending_step H U cfg (outs i) p = Inl (p', rq)"
    and "kept_cookies H U (cl_cookie_store cfg) outs p0 (pr_url p) (pr_headers p)"
  shows "kept_cookies H U (cl_cookie_store cfg) outs p0 (pr_url p') (pr_headers p')"
  using assms(1)
proof (cases rule: pending_step_sends)
  case retry
  with assms(2) show ?thesis by simp
next
  case (follow status headers cookies loc p1)
  have "hm_get_all H (pr_headers p1) ''cookie'' = hm_get_all H (pr_headers p) ''cookie''"
    using rewrite_get_all [OF follow(2), of "''cookie''"] by (simp add: content_headers_def)
  then have c: "hm_get_all H (pr_headers p') ''cookie'' =
      (if cross_host U loc (pr_url p) then [] else hm_get_all H (pr_headers p) ''cookie'') @
      (if cl_cookie_store cfg then case cookies loc of None \<Rightarrow> [] | Some vs \<Rightarrow> vs else [])"
    using cookies_followed [OF follow(16)] follow(6) by simp
  have new: "store_gives U outs loc v" if "cookies loc = Some vs" "v \<in> set vs" for v vs
  proof -
    have "\<not> cross_host U loc loc" by (simp add: cross_host_def)
    with follow(1) that show ?thesis unfolding store_gives_def by blast
  qed
  have same: "cross_host U loc u = cross_host U (pr_url p) u" if "\<not> cross_host U loc (pr_url p)" for u
    using that by (simp add: cross_host_def)
  show ?thesis
  proof (unfold kept_cookies_def, rule ballI)
    fix v
    assume v: "v \<in> set (hm_get_all H (pr_headers p') ''cookie'')"
    show "v \<in> set (hm_get_all H (pr_headers p0) ''cookie'') \<and> \<not> cross_host U (pr_url p') (pr_url p0) \<or>
        cl_cookie_store cfg \<and> store_gives U outs (pr_url p') v"
    proof (cases "\<not> cross_host U loc (pr_url p) \<and> v \<in> set (hm_get_all H (pr_headers p) ''cookie'')")
      case True
      then have "cross_host U loc u = cross_host U (pr_url p) u" for u using same by blast
      then have "store_gives U outs loc v = store_gives U outs (pr_url p) v"
        "cross_host U loc (pr_url p0) = cross_host U (pr_url p) (pr_url p0)" unfolding store_gives_def by simp_all
      with assms(2) True follow(5) show ?thesis unfolding kept_cookies_def by auto
    next
      case False
      then have "cl_cookie_store cfg \<and> (\<exists>vs. cookies loc = Some vs \<and> v \<in> set vs)"
        using v c by (cases "cross_host U loc (pr_url p)"; cases "cl_cookie_store cfg"; cases "cookies loc") auto
      with new follow(5) show ?thesis by blast
    qed
  qed
qed

lemma kept_credentials_loop:
  assumes "pending_loop H U cfg outs i p [] = Some (q, sent, r)" and "rq \<in> set sent"
  shows "kept_credentials H U p (rq_url rq) (rq_headers rq) \<and> kept_cookies H U (cl_cookie_store cfg) outs p (rq_url rq) (rq_headers rq)"
proof -
  define S where "S url m \<longleftrightarrow> kept_credentials H U p url m \<and> kept_cookies H U (cl_cookie_store cfg) outs p url m" for url m
  have start: "S (pr_url p) (pr_headers p)" by (simp add: S_def kept_credentials_def kept_cookies_def cross_host_def)
  have step: "S (pr_url p'') (pr_headers p'') \<and> S (rq_url rq) (rq_headers rq)"
    if "S (pr_url p') (pr_headers p')" "pending_step H U cfg (outs j) p' = Inl (p'', rq)" for p' j p'' rq
  proof -
    from that(1) have k: "kept_credentials H U p (pr_url p') (pr_headers p')"
      "kept_cookies H U (cl_cookie_store cfg) outs p (pr_url p') (pr_headers p')" by (simp_all add: S_def)
    from kept_credentials_step [OF that(2) k(1)] kept_cookies_step [where i = j and outs = outs, OF that(2) k(2)]
    show ?thesis by (simp add: S_def current_request_def)
  qed
  have "S (pr_url q) (pr_headers q) \<and> (\<forall>rq\<in>set sent. S (rq_url rq) (rq_headers rq))"
    by (rule pending_loop_invariant [OF assms(1), where J = "\<lambda>p'. S (pr_url p') (pr_headers p')" and S = "\<lambda>rq. S (rq_url rq) (rq_headers rq)"])
      (use start step in auto)
  with assms(2) show ?thesis by (simp add: S_def)
qed

lemma get_all_default_names:
  "hm_get_all H (fold (\<lambda>name hs. if hm_contains_key H hs name then hs else fold (hm_append H name) (hm_get_all H d name) hs) ns m) k =
     (if hm_get_all H m k \<noteq> [] then hm_get_all H m k else if k \<in> set ns then hm_get_all H d k else [])"
  by (induction ns arbitrary: m) (auto simp: hm_contains_key_def get_all_fold_append)

lemma get_all_default_headers:
  "hm_get_all H (add_default_headers H d m) k = (if hm_contains_key H m k then hm_get_all H m k else hm_get_all H d k)"
  using iter_contains [of d k] unfolding add_default_headers_def get_all_default_names by (auto simp: hm_contains_key_def)

lemma auth_from_proxies_other:
  assumes "auth_from_proxies H L uri ps m = Some m'" and "list_all (\<lambda>p. http_headers p = None) ps" and "k \<noteq> ''proxy-authorization''"
  shows "hm_get_all H m' k = hm_get_all H m k"
  using assms by (induction ps) (auto simp: Let_def get_all_insert split: option.splits bool.splits)

end

section \<open>An instance of the URL operations\<close>

text \<open>A URL is a scheme and a host; a location is the name of a host, taken with the scheme \<^verbatim>\<open>https\<close>.\<close>

definition site_url :: "(string \<times> string) url_ops" where
  "site_url = \<lparr>url_join = (\<lambda>u loc. if loc = [] then None else Some (''https'', loc)),
     url_is_uri = (\<lambda>_. True), url_scheme = fst, url_host_str = (\<lambda>u. Some (snd u)),
     url_port_or_known_default = (\<lambda>u. Some (if fst u = ''http'' then 80 else 443)),
     url_clear_username = (\<lambda>u. u), url_clear_password = (\<lambda>u. u), url_clear_fragment = (\<lambda>u. u),
     url_as_value = (\<lambda>u. Some (fst u @ ''://'' @ snd u)),
     url_dst = (\<lambda>u. \<lparr>dst_scheme = fst u, dst_host = snd u, dst_port = None\<rparr>)\<rparr>"

definition site_client :: "(string \<times> string, 32 word, assoc_map) client_cfg" where
  "site_client = \<lparr>cl_headers = [], cl_accept_encoding = None, cl_proxies = [],
     cl_network = \<lparr>ns_interface = None, ns_addresses = (None, None), ns_proxy_scheme = None\<rparr>, cl_max_retry_count = 2, cl_referer = True, cl_https_only = True, cl_redirect = default_policy, cl_cookie_store = False,
     cl_build_ok = (\<lambda>_. True)\<rparr>"

definition post_site :: "(string \<times> string, assoc_map) PendingRequest" where
  "post_site = \<lparr>pr_method = POST, pr_url = (''https'', ''a''),
     pr_headers = [(''authorization'', ''x''), (''content-type'', ''y'')], pr_body = Some (Some ''data''), pr_urls = [],
     pr_retry_count = 0, pr_max_retry_count = 2, pr_redirect = None, pr_network = DefaultScheme\<rparr>"

definition moved_to :: "string \<Rightarrow> nat \<Rightarrow> (string \<times> string, assoc_map) outcome" where
  "moved_to host status = Answer status [(''location'', host)] (\<lambda>_. None)"

section \<open>Properties\<close>

text \<open>C34. With a limiting policy, such as the default, a call ends whatever the server and the network answer, redirect loops
  included, and the requests sent in one poll are at most the redirects and the retries that are left.\<close>
theorem redirects_bounded:
  assumes "(case pr_redirect p of None \<Rightarrow> cl_redirect cfg | Some pol \<Rightarrow> pol) = Limit mx"
  shows "\<exists>q sent r. pending_poll H U cfg total_elapsed read_elapsed outs p = Some (q, sent, r) \<and>
    length sent \<le> (mx - length (pr_urls p)) + (pr_max_retry_count p - pr_retry_count p)"
  using pending_loop_returns [OF assms, of H U outs 0 "[]"] by (simp add: pending_poll_def hops_left_def)

text \<open>Witness of C34: a server that redirects to itself for ever.\<close>
theorem redirects_bounded_witness:
  "\<exists>q sent r. pending_poll assoc_http site_url site_client False False (\<lambda>_. moved_to ''a'' 302) post_site = Some (q, sent, r) \<and>
    length sent \<le> 12"
  using redirects_bounded [where p = post_site and cfg = site_client and mx = 10 and H = assoc_http and U = site_url and
      total_elapsed = False and read_elapsed = False and outs = "\<lambda>_. moved_to ''a'' 302"]
  by (simp add: post_site_def site_client_def default_policy_def)

text \<open>C33. Credentials stay with the host they were given for, in every request that is sent while following redirects and retrying. If it carries
  \<^verbatim>\<open>Authorization\<close>, \<^verbatim>\<open>Proxy-Authorization\<close>, \<^verbatim>\<open>WWW-Authenticate\<close> or \<^verbatim>\<open>Cookie2\<close>, the values are those of the original request
  and it goes to the same host and port as the original one. Every \<^verbatim>\<open>Cookie\<close> it carries is one of the original request, and it goes
  to the same host and port as that, or was given out by the cookie store, if the client has one, for a URL with the host and
  port that it goes to.\<close>
theorem credentials_stay:
  assumes "http_laws H" and "pending_poll H U cfg total_elapsed read_elapsed outs p = Some (q, sent, r)" and "rq \<in> set sent"
  shows "(\<forall>k. k \<in> {''authorization'', ''cookie2'', ''proxy-authorization'', ''www-authenticate''} \<and> hm_get_all H (rq_headers rq) k \<noteq> [] \<longrightarrow>
      hm_get_all H (rq_headers rq) k = hm_get_all H (pr_headers p) k \<and>
      url_host_str U (rq_url rq) = url_host_str U (pr_url p) \<and>
      url_port_or_known_default U (rq_url rq) = url_port_or_known_default U (pr_url p)) \<and>
    (\<forall>v. v \<in> set (hm_get_all H (rq_headers rq) ''cookie'') \<longrightarrow>
      v \<in> set (hm_get_all H (pr_headers p) ''cookie'') \<and> url_host_str U (rq_url rq) = url_host_str U (pr_url p) \<and>
        url_port_or_known_default U (rq_url rq) = url_port_or_known_default U (pr_url p) \<or>
      cl_cookie_store cfg \<and> (\<exists>i status headers cookies u vs. outs i = Answer status headers cookies \<and> cookies u = Some vs \<and> v \<in> set vs \<and>
        url_host_str U u = url_host_str U (rq_url rq) \<and> url_port_or_known_default U u = url_port_or_known_default U (rq_url rq)))"
proof -
  from assms(2,3) have "pending_loop H U cfg outs 0 p [] = Some (q, sent, r)"
    by (auto simp: pending_poll_def split: if_splits)
  from http_laws.kept_credentials_loop [OF assms(1) this assms(3)]
  have k: "kept_credentials H U p (rq_url rq) (rq_headers rq)" and c: "kept_cookies H U (cl_cookie_store cfg) outs p (rq_url rq) (rq_headers rq)"
    by simp_all
  from k have "hm_get_all H (rq_headers rq) k = hm_get_all H (pr_headers p) k \<and> \<not> cross_host U (rq_url rq) (pr_url p)"
    if "k \<in> {''authorization'', ''cookie2'', ''proxy-authorization'', ''www-authenticate''}" "hm_get_all H (rq_headers rq) k \<noteq> []" for k
    using that by (auto simp: kept_credentials_def sensitive_headers_def)
  moreover have "v \<in> set (hm_get_all H (pr_headers p) ''cookie'') \<and> \<not> cross_host U (rq_url rq) (pr_url p) \<or>
      cl_cookie_store cfg \<and> store_gives U outs (rq_url rq) v" if "v \<in> set (hm_get_all H (rq_headers rq) ''cookie'')" for v
    using c that unfolding kept_cookies_def by blast
  ultimately show ?thesis unfolding cross_host_def store_gives_def by metis
qed

definition cookie_site :: "(string \<times> string, assoc_map) PendingRequest" where
  "cookie_site = post_site\<lparr>pr_headers := [(''authorization'', ''x''), (''cookie'', ''c'')]\<rparr>"

text \<open>Witness of C33: a redirect to the same host, then one to another host, which gets neither the credentials nor the cookie.\<close>
theorem credentials_stay_witness:
  "let outs = (\<lambda>i. moved_to (if i = 0 then ''a'' else ''b'') (if i < 2 then 307 else 200));
       sent = fst (snd (the (pending_poll assoc_http site_url site_client False False outs cookie_site)))
   in map rq_url sent = [(''https'', ''a''), (''https'', ''b'')] \<and>
      hm_get_all assoc_http (rq_headers (sent ! 0)) ''cookie'' = [''c''] \<and>
      hm_get_all assoc_http (rq_headers (sent ! 1)) ''authorization'' = [] \<and> hm_get_all assoc_http (rq_headers (sent ! 1)) ''cookie'' = []"
proof -
  let ?outs = "\<lambda>i. moved_to (if i = 0 then ''a'' else ''b'') (if i < 2 then 307 else 200)"
  obtain q sent r where e: "pending_poll assoc_http site_url site_client False False ?outs cookie_site = Some (q, sent, r)"
    using pending_loop_returns [where p = cookie_site and cfg = site_client and mx = 10 and H = assoc_http and U = site_url and outs = ?outs and i = 0 and sent = "[]"]
    by (auto simp: pending_poll_def cookie_site_def post_site_def site_client_def default_policy_def)
  have "map_option (\<lambda>x. (map rq_url (fst (snd x)), hm_get_all assoc_http (rq_headers (fst (snd x) ! 0)) ''cookie''))
      (pending_poll assoc_http site_url site_client False False ?outs cookie_site) = Some ([(''https'', ''a''), (''https'', ''b'')], [''c''])"
    by code_simp
  then have u: "map rq_url sent = [(''https'', ''a''), (''https'', ''b'')]" "hm_get_all assoc_http (rq_headers (sent ! 0)) ''cookie'' = [''c'']"
    by (simp_all add: e)
  then obtain r1 r2 where rs: "sent = [r1, r2]" "rq_url r2 = (''https'', ''b'')" by (auto simp: map_eq_Cons_conv)
  have host: "url_host_str site_url (rq_url r2) \<noteq> url_host_str site_url (pr_url cookie_site)"
    by (simp add: rs(2) site_url_def cookie_site_def post_site_def)
  have store: "\<not> cl_cookie_store site_client" by (simp add: site_client_def)
  note c = credentials_stay [OF assoc.http_laws_axioms e, of r2]
  have "hm_get_all assoc_http (rq_headers r2) ''authorization'' = []" using c rs(1) host by auto
  moreover have "set (hm_get_all assoc_http (rq_headers r2) ''cookie'') = {}" using c rs(1) host store by auto
  ultimately show ?thesis using u rs by (simp add: e)
qed

text \<open>The headers are kept for the next redirect after the cookies of the store have been appended to them: every redirect within a host
  appends them once more.\<close>

lemma cookies_repeated:
  "map_option (\<lambda>x. map (\<lambda>rq. hm_get_all assoc_http (rq_headers rq) ''cookie'') (fst (snd x)))
     (pending_poll assoc_http site_url (site_client\<lparr>cl_cookie_store := True\<rparr>) False False
        (\<lambda>i. Answer (if i < 2 then 307 else 200) [(''location'', ''a'')] (\<lambda>_. Some [''s''])) post_site) = Some [[''s''], [''s'', ''s'']]"
  by code_simp

text \<open>C35. What a followed redirect sends: only the five redirect statuses are followed, only to \<^verbatim>\<open>http\<close> and \<^verbatim>\<open>https\<close>
  URLs, to \<^verbatim>\<open>https\<close> alone if the client is restricted to it, and only if the policy says so. After 301, 302 and 303 the
  request has no body and none of the headers that describe one, and its method is \<^verbatim>\<open>GET\<close> unless it was \<^verbatim>\<open>GET\<close> or
  \<^verbatim>\<open>HEAD\<close>; after 307 and 308 method and body are those of the request before, which then was one that can be sent again.\<close>
theorem redirect_request:
  assumes "http_laws H" and "pending_step H U cfg (Answer status headers cookies) p = Inl (p', rq)"
  shows "status \<in> {301, 302, 303, 307, 308} \<and> location H U (pr_url p) headers = Some (rq_url rq) \<and>
    url_scheme U (rq_url rq) \<in> {''http'', ''https''} \<and> (cl_https_only cfg \<longrightarrow> url_scheme U (rq_url rq) = ''https'') \<and>
    check (case pr_redirect p of None \<Rightarrow> cl_redirect cfg | Some pol \<Rightarrow> pol) status (rq_method rq) (rq_url rq) (pr_method p)
      (pr_urls p @ [pr_url p]) = Follow \<and>
    (if status \<in> {301, 302, 303}
     then rq_method rq = (if pr_method p \<in> {GET, HEAD} then pr_method p else GET) \<and> rq_body rq = Reusable [] \<and>
       list_all (\<lambda>k. \<not> hm_contains_key H (rq_headers rq) k) content_headers
     else rq_method rq = pr_method p \<and> rq_body rq = Reusable (reusable_body (pr_body p)) \<and> pr_body p \<noteq> Some None)"
  using assms(2)
proof (cases rule: pending_step_sends)
  case retry
  then show ?thesis by simp
next
  case (follow status' headers' cookies' loc p1)
  from follow(1) have eq: "status' = status" "headers' = headers" by simp_all
  have st: "status \<in> {301, 302, 303, 307, 308}" using follow(2) by (auto simp: rewrite_request_def eq split: if_splits)
  have gone: "\<not> hm_contains_key H (rq_headers rq) k" if "status \<in> {301, 302, 303}" "k \<in> set content_headers" for k
  proof -
    have "hm_get_all H (pr_headers p1) k = []"
      using http_laws.rewrite_get_all [OF assms(1) follow(2), of k] that eq by simp
    moreover have "k \<noteq> ''cookie''" "k \<noteq> ''referer''" using that(2) by (auto simp: content_headers_def)
    ultimately show ?thesis using http_laws.get_all_followed [OF assms(1) follow(16), of k] follow(4)
      by (simp add: hm_contains_key_def current_request_def)
  qed
  have "pr_method p1 = (if status \<in> {301, 302, 303} \<and> pr_method p \<notin> {GET, HEAD} then GET else pr_method p)"
    "pr_body p1 = (if status \<in> {301, 302, 303} then None else pr_body p)"
    "status \<notin> {301, 302, 303} \<Longrightarrow> pr_body p \<noteq> Some None"
    using follow(2) by (auto simp: rewrite_request_def eq split: if_splits)
  then show ?thesis using st follow gone by (simp add: eq current_request_def reusable_body_def list_all_iff)
qed

text \<open>Witness of C35: a POST is redirected to another host with 302.\<close>
theorem redirect_request_witness:
  "\<exists>p' rq. pending_step assoc_http site_url site_client (moved_to ''b'' 302) post_site = Inl (p', rq) \<and>
    rq_method rq = GET \<and> rq_body rq = Reusable []"
proof -
  have "isl (pending_step assoc_http site_url site_client (moved_to ''b'' 302) post_site)" by code_simp
  then obtain p' rq where e: "pending_step assoc_http site_url site_client (moved_to ''b'' 302) post_site = Inl (p', rq)"
    by (auto simp: isl_def)
  from redirect_request [OF assoc.http_laws_axioms e [unfolded moved_to_def]]
  have "rq_method rq = GET" "rq_body rq = Reusable []" by (simp_all add: post_site_def)
  with e show ?thesis by blast
qed

definition first_headers ::
  "('m, 'z) http_lib_scheme \<Rightarrow> ('u, 'n, 'm) client_cfg \<Rightarrow> ('u \<Rightarrow> header_value list option) \<Rightarrow> ('u, 'm) user_request \<Rightarrow> 'm" where
  "first_headers H cfg cookies ur =
     (let headers = add_default_headers H (cl_headers cfg) (ur_headers ur);
          headers = (if cl_cookie_store cfg \<and> \<not> hm_contains_key H headers ''cookie''
                     then add_cookie_header H cookies headers (ur_url ur) else headers)
      in if ur_allow_compression ur then add_accept_encoding_header H (cl_accept_encoding cfg) headers else headers)"

lemma execute_headers:
  assumes "http_laws H" and "execute_request H U L cfg cookies ur = Some (Inr (p, rq))"
    and "list_all (\<lambda>p. http_headers p = None) (cl_proxies cfg)" and "k \<noteq> ''proxy-authorization''"
  shows "hm_get_all H (rq_headers rq) k = hm_get_all H (first_headers H cfg cookies ur) k"
proof -
  from assms(2) have "proxy_auth H L (cl_proxies cfg) (url_dst U (ur_url ur)) (first_headers H cfg cookies ur) = Some (rq_headers rq)"
    by (auto simp: execute_request_def Let_def first_headers_def split: if_splits option.splits)
  then show ?thesis
    using http_laws.auth_from_proxies_other [OF assms(1) _ assms(3), of L _ "first_headers H cfg cookies ur" "rq_headers rq" k] assms(4)
    by (auto simp: proxy_auth_def split: if_splits)
qed

context http_laws
begin

lemma first_headers_other:
  "k \<noteq> ''cookie'' \<Longrightarrow> k \<noteq> ''accept-encoding'' \<Longrightarrow> hm_get_all H (first_headers H cfg cookies ur) k =
     (if hm_contains_key H (ur_headers ur) k then hm_get_all H (ur_headers ur) k else hm_get_all H (cl_headers cfg) k)"
  by (simp add: first_headers_def Let_def add_accept_encoding_header_def get_all_insert get_all_add_cookie get_all_default_headers
      split: option.split)

lemma first_headers_accept:
  assumes "ur_allow_compression ur" and "cl_accept_encoding cfg = Some c"
    and "list_all (\<lambda>k. \<not> hm_contains_key H (ur_headers ur) k \<and> \<not> hm_contains_key H (cl_headers cfg) k) [''accept-encoding'', ''range'']"
  shows "hm_get_all H (first_headers H cfg cookies ur) ''accept-encoding'' = [c]"
  using assms by (simp add: first_headers_def Let_def add_accept_encoding_header_def hm_contains_key_def get_all_insert get_all_add_cookie get_all_default_headers)

end

text \<open>The headers of the first request: for every name but those the client takes care of itself, the user's values, and the
  client's default values where the user gave none. The defaults never mix with values of the user's.\<close>
lemma request_headers:
  assumes "http_laws H" and "execute_request H U L cfg cookies ur = Some (Inr (p, rq))"
    and "list_all (\<lambda>p. http_headers p = None) (cl_proxies cfg)"
    and "k \<notin> {''cookie'', ''accept-encoding'', ''proxy-authorization''}"
  shows "hm_get_all H (rq_headers rq) k =
    (if hm_contains_key H (ur_headers ur) k then hm_get_all H (ur_headers ur) k else hm_get_all H (cl_headers cfg) k)"
  using execute_headers [OF assms(1-3), of k] http_laws.first_headers_other [OF assms(1), where k = k and cfg = cfg and cookies = cookies and ur = ur] assms(4) by simp

definition get_site :: "(string \<times> string, assoc_map) user_request" where
  "get_site = \<lparr>ur_method = GET, ur_url = (''https'', ''a''), ur_headers = [(''x'', ''1'')], ur_body = None, ur_redirect = None,
     ur_allow_compression = True, ur_network = DefaultScheme\<rparr>"

text \<open>Proxy operations over the URLs of the instance.\<close>

definition site_proxies :: "(string \<times> string, 32 word) proxy_lib" where
  "site_proxies = \<lparr>pl_url_parse = (\<lambda>s. Inr (''https'', s)), pl_has_host = (\<lambda>_. True), pl_scheme = fst, pl_host_port = snd,
     pl_username = (\<lambda>_. []), pl_password = (\<lambda>_. None), pl_socket_addrs = (\<lambda>_ _. None), pl_authority = Some,
     pl_percent_decode = (\<lambda>s. s), pl_base64 = (\<lambda>s. s), pl_net_parse = (\<lambda>_. None), pl_net_contains = (\<lambda>_ _. False)\<rparr>"

text \<open>At a concrete input.\<close>
lemma request_headers_instance:
  "\<exists>p rq. execute_request assoc_http site_url site_proxies (site_client\<lparr>cl_headers := [(''x'', ''2''), (''y'', ''3'')]\<rparr>) (\<lambda>_. None) get_site = Some (Inr (p, rq)) \<and>
     hm_get_all assoc_http (rq_headers rq) ''x'' = [''1''] \<and> hm_get_all assoc_http (rq_headers rq) ''y'' = [''3'']"
proof -
  let ?cfg = "site_client\<lparr>cl_headers := [(''x'', ''2''), (''y'', ''3'')]\<rparr>"
  have "(case execute_request assoc_http site_url site_proxies ?cfg (\<lambda>_. None) get_site of Some (Inr _) \<Rightarrow> True | _ \<Rightarrow> False)" by code_simp
  then obtain p rq where e: "execute_request assoc_http site_url site_proxies ?cfg (\<lambda>_. None) get_site = Some (Inr (p, rq))"
    by (auto split: option.splits sum.splits)
  have np: "list_all (\<lambda>p. http_headers p = None) (cl_proxies ?cfg)" by (simp add: site_client_def)
  have "hm_contains_key assoc_http (ur_headers get_site) ''x''" "\<not> hm_contains_key assoc_http (ur_headers get_site) ''y''"
    "hm_get_all assoc_http (ur_headers get_site) ''x'' = [''1'']" "hm_get_all assoc_http (cl_headers ?cfg) ''y'' = [''3'']" by code_simp+
  then show ?thesis using e request_headers [OF assoc.http_laws_axioms e np, of "''x''"] request_headers [OF assoc.http_laws_axioms e np, of "''y''"]
    by auto
qed

text \<open>The way into the network is chosen once, for the URL of the first request: every request a call sends afterwards, to
  whatever host a redirect leads, goes through the same proxy or through none, whatever the rules say of its own URL.\<close>
lemma redirects_keep_route:
  assumes "execute_request H U L cfg cookies ur = Some (Inr (p, rq0))"
    and "pending_poll H U cfg total_elapsed read_elapsed outs p = Some (q, sent, r)" and "rq \<in> set sent"
  shows "rq_network rq = rq_network rq0 \<and>
    network_scheme L (cl_proxies cfg) (cl_network cfg) (url_dst U (ur_url ur)) (ur_network ur) = Some (rq_network rq)"
proof -
  have start: "rq_network rq0 = pr_network p"
    "network_scheme L (cl_proxies cfg) (cl_network cfg) (url_dst U (ur_url ur)) (ur_network ur) = Some (pr_network p)"
    using assms(1) by (auto simp: execute_request_def Let_def split: if_splits option.splits)
  let ?J = "\<lambda>p'. pr_network p' = pr_network p"
  have step: "?J p'' \<and> rq_network rq = pr_network p" if "?J p'" "pending_step H U cfg out p' = Inl (p'', rq)" for p' out p'' rq
    using that(2)
  proof (cases rule: pending_step_sends)
    case retry
    with that(1) show ?thesis by (simp add: current_request_def)
  next
    case follow
    with that(1) show ?thesis by (simp add: current_request_def)
  qed
  from assms(2,3) have loop: "pending_loop H U cfg outs 0 p [] = Some (q, sent, r)"
    by (auto simp: pending_poll_def split: if_splits)
  have "?J q \<and> (\<forall>rq\<in>set sent. rq_network rq = pr_network p)"
  proof (rule pending_loop_invariant [OF loop, where J = ?J and S = "\<lambda>rq. rq_network rq = pr_network p"])
    show "?J p'' \<and> rq_network rq = pr_network p" if "?J p'" "pending_step H U cfg out p' = Inl (p'', rq)" for p' out p'' rq
      using that by (rule step)
  qed simp_all
  with assms(3) start show ?thesis by simp
qed

definition routed_client :: "(string \<times> string, 32 word, assoc_map) client_cfg" where
  "routed_client = site_client\<lparr>cl_proxies := [\<lparr>px_intercept = InterceptAll (Http None ''proxy'' None),
     px_no_proxy = Some \<lparr>np_ips = [], np_domains = [''b'']\<rparr>\<rparr>]\<rparr>"

lemma routed_client_network:
  "network_scheme site_proxies (cl_proxies routed_client) (cl_network routed_client) (url_dst site_url (''https'', ''b'')) DefaultScheme =
     Some DefaultScheme"
  "network_scheme site_proxies (cl_proxies routed_client) (cl_network routed_client) (url_dst site_url (''https'', ''a'')) DefaultScheme =
     Some (Scheme None (None, None) (Some (Http None ''proxy'' None)))"
proof -
  have ip: "parse_ip ''a'' = None" "parse_ip ''b'' = None" by (simp_all add: parse_ip_eval)
  have "no_proxy_contains site_proxies \<lparr>np_ips = [], np_domains = [''b'']\<rparr> ''b'' = Some True"
    "no_proxy_contains site_proxies \<lparr>np_ips = [], np_domains = [''b'']\<rparr> ''a'' = Some False"
    using ip by (simp_all add: no_proxy_contains_def unbracketed_def starts_with_def ends_with_def strip_prefix_def)
  then show "network_scheme site_proxies (cl_proxies routed_client) (cl_network routed_client) (url_dst site_url (''https'', ''b'')) DefaultScheme =
     Some DefaultScheme"
    "network_scheme site_proxies (cl_proxies routed_client) (cl_network routed_client) (url_dst site_url (''https'', ''a'')) DefaultScheme =
     Some (Scheme None (None, None) (Some (Http None ''proxy'' None)))"
    by (simp_all add: network_scheme_def routed_client_def site_client_def site_url_def intercept_def ns_build_def)
qed

text \<open>At a concrete input: the host \<^verbatim>\<open>b\<close> is to be reached without a proxy, but a redirect from \<^verbatim>\<open>a\<close> to it goes through the proxy.\<close>
lemma redirects_keep_route_instance:
  "\<exists>p rq0 q rq r. execute_request assoc_http site_url site_proxies routed_client (\<lambda>_. None) get_site = Some (Inr (p, rq0)) \<and>
     pending_poll assoc_http site_url routed_client False False (\<lambda>i. moved_to ''b'' (if i = 0 then 302 else 200)) p = Some (q, [rq], r) \<and>
     rq_url rq = (''https'', ''b'') \<and> rq_network rq = Scheme None (None, None) (Some (Http None ''proxy'' None)) \<and>
     network_scheme site_proxies (cl_proxies routed_client) (cl_network routed_client) (url_dst site_url (''https'', ''b'')) DefaultScheme =
       Some DefaultScheme"
proof -
  let ?p = "\<lparr>pr_method = GET, pr_url = (''https'', ''a''), pr_headers = [(''x'', ''1'')], pr_body = None, pr_urls = [], pr_retry_count = 0,
    pr_max_retry_count = 2, pr_redirect = None, pr_network = Scheme None (None, None) (Some (Http None ''proxy'' None))\<rparr>"
  let ?rq0 = "\<lparr>rq_url = (''https'', ''a''), rq_method = GET, rq_headers = [(''x'', ''1'')], rq_body = Reusable [],
    rq_network = Scheme None (None, None) (Some (Http None ''proxy'' None))\<rparr>"
  let ?outs = "\<lambda>i. moved_to ''b'' (if i = 0 then 302 else 200)"
  have e: "execute_request assoc_http site_url site_proxies routed_client (\<lambda>_. None) get_site = Some (Inr (?p, ?rq0))"
    using routed_client_network(2)
    by (simp add: execute_request_def get_site_def site_url_def routed_client_def site_client_def add_default_headers_def assoc_http_def
        add_accept_encoding_header_def proxy_auth_def maybe_has_http_auth_def maybe_http_auth_def Let_def)
  have "map_option (\<lambda>x. map rq_url (fst (snd x))) (pending_poll assoc_http site_url routed_client False False ?outs ?p) = Some [(''https'', ''b'')]"
    by code_simp
  then obtain q rq r where l: "pending_poll assoc_http site_url routed_client False False ?outs ?p = Some (q, [rq], r)"
    and u: "rq_url rq = (''https'', ''b'')" by (auto simp: map_eq_Cons_conv)
  from redirects_keep_route [OF e l, of rq] have "rq_network rq = rq_network ?rq0" by simp
  with e l u routed_client_network(1) show ?thesis by auto
qed

end
