(* ===== verification/Client_Decoder.thy ===== *)
theory Client_Decoder
  imports Http_Lib
begin

text \<open>
  Decompression of response bodies, \<^verbatim>\<open>src/src/client/decoder.rs\<close>: which codings a client announces, which decoder a response
  gets, and how the decoder is polled.

  The features the crate is built with are a record of flags. The decompressors of \<^verbatim>\<open>async_compression\<close> with the framing of
  \<^verbatim>\<open>tokio_util\<close> around them are a parameter, the record \<open>codec_ops\<close>. A response body is the list of what its polls give.
\<close>

section \<open>Codings\<close>

record features =
  feat_gzip :: bool
  feat_brotli :: bool
  feat_zstd :: bool
  feat_deflate :: bool

record Accepts =
  acc_gzip :: bool
  acc_brotli :: bool
  acc_zstd :: bool
  acc_deflate :: bool

definition accepts_as_str :: "features \<Rightarrow> Accepts \<Rightarrow> string option" where
  "accepts_as_str F a =
     (case (feat_gzip F, feat_brotli F, feat_zstd F, feat_deflate F) of
        (True, True, True, True) \<Rightarrow> Some ''gzip, br, zstd, deflate''
      | (True, True, False, True) \<Rightarrow> Some ''gzip, br, deflate''
      | (True, True, True, False) \<Rightarrow> Some ''gzip, br, zstd''
      | (True, True, False, False) \<Rightarrow> Some ''gzip, br''
      | (True, False, True, True) \<Rightarrow> Some ''gzip, zstd, deflate''
      | (True, False, False, True) \<Rightarrow> Some ''gzip, deflate''
      | (False, True, True, True) \<Rightarrow> Some ''br, zstd, deflate''
      | (False, True, False, True) \<Rightarrow> Some ''br, deflate''
      | (True, False, True, False) \<Rightarrow> Some ''gzip, zstd''
      | (True, False, False, False) \<Rightarrow> Some ''gzip''
      | (False, True, True, False) \<Rightarrow> Some ''br, zstd''
      | (False, True, False, False) \<Rightarrow> Some ''br''
      | (False, False, True, True) \<Rightarrow> Some ''zstd, deflate''
      | (False, False, True, False) \<Rightarrow> Some ''zstd''
      | (False, False, False, True) \<Rightarrow> Some ''deflate''
      | (False, False, False, False) \<Rightarrow> None)"

datatype DecoderType = Gzip | Brotli | Zstd | Deflate

definition detect_encoding :: "('m, 'z) http_lib_scheme \<Rightarrow> string \<Rightarrow> 'm \<Rightarrow> 'm \<times> bool" where
  "detect_encoding H encoding_str headers =
     (let is_content_encoded = (encoding_str \<in> set (hm_get_all H headers ''content-encoding'') \<or>
                                encoding_str \<in> set (hm_get_all H headers ''transfer-encoding''));
          is_content_encoded = (if is_content_encoded \<and> hm_get H headers ''content-length'' = Some ''0'' then False
                                else is_content_encoded)
      in if is_content_encoded
         then (hm_remove H ''content-length'' (hm_remove H ''content-encoding'' headers), True)
         else (headers, False))"

text \<open>\<^verbatim>\<open>detect\<close>: the coding to undo, \<^const>\<open>None\<close> for plain text.\<close>

fun detect_first ::
  "('m, 'z) http_lib_scheme \<Rightarrow> (bool \<times> string \<times> DecoderType) list \<Rightarrow> 'm \<Rightarrow> 'm \<times> DecoderType option" where
  "detect_first H [] headers = (headers, None)"
| "detect_first H ((accepted, encoding_str, typ) # cs) headers =
     (if accepted
      then (case detect_encoding H encoding_str headers of
              (headers', True) \<Rightarrow> (headers', Some typ)
            | (headers', False) \<Rightarrow> detect_first H cs headers')
      else detect_first H cs headers)"

definition detect :: "('m, 'z) http_lib_scheme \<Rightarrow> features \<Rightarrow> Accepts \<Rightarrow> 'm \<Rightarrow> 'm \<times> DecoderType option" where
  "detect H F a headers =
     detect_first H
       [(feat_gzip F \<and> acc_gzip a, ''gzip'', Gzip), (feat_brotli F \<and> acc_brotli a, ''br'', Brotli),
        (feat_zstd F \<and> acc_zstd a, ''zstd'', Zstd), (feat_deflate F \<and> acc_deflate a, ''deflate'', Deflate)] headers"

section \<open>The body as a stream\<close>

datatype body_event = Wait | Data bytes | Trailers | Failure string

type_synonym item = "string + bytes"

definition body_poll_frame :: "body_event list \<Rightarrow> body_event list \<times> (string + bytes option) option poll" where
  "body_poll_frame es =
     (case es of
        [] \<Rightarrow> ([], Ready None)
      | Wait # es' \<Rightarrow> (es', Pending)
      | Data bs # es' \<Rightarrow> (es', Ready (Some (Inr (Some bs))))
      | Trailers # es' \<Rightarrow> (es', Ready (Some (Inr None)))
      | Failure e # es' \<Rightarrow> (es', Ready (Some (Inl e))))"

text \<open>\<^verbatim>\<open>IoStream::poll_next\<close> skips the frames that are not data.\<close>

fun io_poll_next :: "body_event list \<Rightarrow> body_event list \<times> item option poll" where
  "io_poll_next (Trailers # es) = io_poll_next es"
| "io_poll_next (Data bs # es) = (es, Ready (Some (Inr bs)))"
| "io_poll_next (Failure e # es) = (es, Ready (Some (Inl e)))"
| "io_poll_next (Wait # es) = (es, Pending)"
| "io_poll_next [] = ([], Ready None)"

text \<open>\<^verbatim>\<open>Peekable\<close>: what was peeked and not taken yet, and the stream behind it.\<close>

type_synonym peekable = "item option option \<times> body_event list"

definition poll_peek :: "peekable \<Rightarrow> peekable \<times> item option poll" where
  "poll_peek p =
     (case p of
        (Some x, es) \<Rightarrow> (p, Ready x)
      | (None, es) \<Rightarrow>
          (case io_poll_next es of
             (es', Ready x) \<Rightarrow> ((Some x, es'), Ready x)
           | (es', Pending) \<Rightarrow> ((None, es'), Pending)))"

definition peekable_poll_next :: "peekable \<Rightarrow> peekable \<times> item option poll" where
  "peekable_poll_next p =
     (case p of
        (Some x, es) \<Rightarrow> ((None, es), Ready x)
      | (None, es) \<Rightarrow> (case io_poll_next es of (es', r) \<Rightarrow> ((None, es'), r)))"

text \<open>\<^verbatim>\<open>poll_inner_should_be_empty\<close>, after the end of the compressed stream. An event is taken in every round.\<close>

function inner_should_be_empty :: "peekable \<Rightarrow> peekable \<times> item option poll" where
  "inner_should_be_empty p =
     (case peekable_poll_next p of
        (p', Pending) \<Rightarrow> (p', Pending)
      | (p', Ready (Some (Inr bs))) \<Rightarrow>
          if bs = [] then inner_should_be_empty p'
          else (p', Ready (Some (Inl ''there are extra bytes after body has been decompressed'')))
      | (p', Ready (Some (Inl e))) \<Rightarrow> (p', Ready (Some (Inl e)))
      | (p', Ready None) \<Rightarrow> (p', Ready None))"
  by pat_completeness auto

lemma io_poll_next_shorter: "io_poll_next es = (es', Ready (Some x)) \<Longrightarrow> length es' < length es"
  by (induction es rule: io_poll_next.induct) (auto dest: less_SucI)

definition peek_size :: "peekable \<Rightarrow> nat" where
  "peek_size p = 2 * length (snd p) + (if fst p = None then 0 else 1)"

lemma peek_size_next: "peekable_poll_next p = (p', Ready (Some x)) \<Longrightarrow> peek_size p' < peek_size p"
  by (auto simp: peekable_poll_next_def peek_size_def dest: io_poll_next_shorter split: option.splits prod.splits)

termination inner_should_be_empty
  by (relation "measure peek_size") (auto dest: peek_size_next [OF sym])

declare inner_should_be_empty.simps [simp del]

section \<open>The decoder\<close>

record 'd codec_ops =
  cd_new :: "DecoderType \<Rightarrow> peekable \<Rightarrow> 'd"
  cd_poll_next :: "'d \<Rightarrow> 'd \<times> item option poll"
  cd_inner :: "'d \<Rightarrow> peekable"
  cd_set_inner :: "peekable \<Rightarrow> 'd \<Rightarrow> 'd"

datatype 'd Inner =
    PlainText "body_event list"
  | Decoding 'd
  | PendingDecoder peekable DecoderType

text \<open>A body that is empty is not decompressed: the decoder waits for the first item.\<close>

definition pending_decoder_poll :: "'d codec_ops \<Rightarrow> peekable \<Rightarrow> DecoderType \<Rightarrow> peekable \<times> (string + 'd Inner) poll" where
  "pending_decoder_poll C p typ =
     (case poll_peek p of
        (p', Pending) \<Rightarrow> (p', Pending)
      | (p', Ready (Some (Inr _))) \<Rightarrow> ((None, []), Ready (Inr (Decoding (cd_new C typ p'))))
      | (p', Ready (Some (Inl e))) \<Rightarrow> (fst (peekable_poll_next p'), Ready (Inl e))
      | (p', Ready None) \<Rightarrow> (p', Ready (Inr (PlainText []))))"

text \<open>The frames of the decoder: data, or \<^const>\<open>None\<close> for a frame that is not data, which only a plain body passes on.\<close>

definition poll_decoding :: "'d codec_ops \<Rightarrow> 'd \<Rightarrow> 'd Inner \<times> (string + bytes option) option poll" where
  "poll_decoding C d =
     (case cd_poll_next C d of
        (d', Pending) \<Rightarrow> (Decoding d', Pending)
      | (d', Ready (Some (Inr bs))) \<Rightarrow> (Decoding d', Ready (Some (Inr (Some bs))))
      | (d', Ready (Some (Inl e))) \<Rightarrow> (Decoding d', Ready (Some (Inl e)))
      | (d', Ready None) \<Rightarrow>
          (case inner_should_be_empty (cd_inner C d') of
             (p, Pending) \<Rightarrow> (Decoding (cd_set_inner C p d'), Pending)
           | (p, Ready None) \<Rightarrow> (Decoding (cd_set_inner C p d'), Ready None)
           | (p, Ready (Some (Inl e))) \<Rightarrow> (Decoding (cd_set_inner C p d'), Ready (Some (Inl e)))
           | (p, Ready (Some (Inr bs))) \<Rightarrow> (Decoding (cd_set_inner C p d'), Ready (Some (Inr (Some bs))))))"

definition poll_plain :: "body_event list \<Rightarrow> 'd Inner \<times> (string + bytes option) option poll" where
  "poll_plain es = (case body_poll_frame es of (es', r) \<Rightarrow> (PlainText es', r))"

definition decoder_poll_frame :: "'d codec_ops \<Rightarrow> 'd Inner \<Rightarrow> 'd Inner \<times> (string + bytes option) option poll" where
  "decoder_poll_frame C i =
     (case i of
        PendingDecoder p typ \<Rightarrow>
          (case pending_decoder_poll C p typ of
             (p', Ready (Inr (Decoding d))) \<Rightarrow> poll_decoding C d
           | (p', Ready (Inr (PlainText es))) \<Rightarrow> poll_plain es
           | (p', Ready (Inr inner)) \<Rightarrow> (inner, Pending)
           | (p', Ready (Inl e)) \<Rightarrow> (PendingDecoder p' typ, Ready (Some (Inl e)))
           | (p', Pending) \<Rightarrow> (PendingDecoder p' typ, Pending))
      | PlainText es \<Rightarrow> poll_plain es
      | Decoding d \<Rightarrow> poll_decoding C d)"

definition response_decoder :: "DecoderType option \<Rightarrow> body_event list \<Rightarrow> 'd Inner" where
  "response_decoder typ es = (case typ of None \<Rightarrow> PlainText es | Some t \<Rightarrow> PendingDecoder (None, es) t)"

section \<open>Which decoder a response gets\<close>

text \<open>The reference: the first accepted coding that a line names, unless the body is said to be empty.\<close>

definition says_coded :: "('m, 'z) http_lib_scheme \<Rightarrow> 'm \<Rightarrow> string \<Rightarrow> bool" where
  "says_coded H headers c \<longleftrightarrow>
     (c \<in> set (hm_get_all H headers ''content-encoding'') \<or> c \<in> set (hm_get_all H headers ''transfer-encoding'')) \<and>
     hm_get H headers ''content-length'' \<noteq> Some ''0''"

definition accepted_codings :: "features \<Rightarrow> Accepts \<Rightarrow> (string \<times> DecoderType) list" where
  "accepted_codings F a = map snd (filter fst
     [(feat_gzip F \<and> acc_gzip a, ''gzip'', Gzip), (feat_brotli F \<and> acc_brotli a, ''br'', Brotli),
      (feat_zstd F \<and> acc_zstd a, ''zstd'', Zstd), (feat_deflate F \<and> acc_deflate a, ''deflate'', Deflate)])"

lemma detect_encoding_coded:
  "detect_encoding H c headers =
     (if says_coded H headers c
      then (hm_remove H ''content-length'' (hm_remove H ''content-encoding'' headers), True) else (headers, False))"
  by (auto simp: detect_encoding_def says_coded_def Let_def)

lemma detect_first_find:
  "detect_first H cs headers =
     (case List.find (\<lambda>c. says_coded H headers (fst c)) (map snd (filter fst cs)) of
        None \<Rightarrow> (headers, None)
      | Some c \<Rightarrow> (hm_remove H ''content-length'' (hm_remove H ''content-encoding'' headers), Some (snd c)))"
  by (induction cs) (auto simp: detect_encoding_coded)

text \<open>The data left in a stream that is read to its end.\<close>

fun events_data :: "body_event list \<Rightarrow> bytes" where
  "events_data (Data bs # es) = bs @ events_data es"
| "events_data (_ # es) = events_data es"
| "events_data [] = []"

fun no_failure :: "body_event list \<Rightarrow> bool" where
  "no_failure (Failure e # es) = False"
| "no_failure (_ # es) = no_failure es"
| "no_failure [] = True"

definition peek_data :: "peekable \<Rightarrow> bytes" where
  "peek_data p = (case fst p of Some (Some (Inr bs)) \<Rightarrow> bs @ events_data (snd p) | Some None \<Rightarrow> [] | _ \<Rightarrow> events_data (snd p))"

definition peek_no_failure :: "peekable \<Rightarrow> bool" where
  "peek_no_failure p = (case fst p of Some (Some (Inl e)) \<Rightarrow> False | Some None \<Rightarrow> True | _ \<Rightarrow> no_failure (snd p))"

lemma io_poll_next_end: "io_poll_next es = (es', Ready None) \<Longrightarrow> events_data es = [] \<and> no_failure es"
  by (induction es rule: io_poll_next.induct) auto

lemma io_poll_next_data:
  "io_poll_next es = (es', Ready (Some (Inr bs))) \<Longrightarrow> events_data es = bs @ events_data es' \<and> (no_failure es \<longleftrightarrow> no_failure es')"
  by (induction es rule: io_poll_next.induct) auto

lemma peekable_next_end: "peekable_poll_next p = (p', Ready None) \<Longrightarrow> peek_data p = [] \<and> peek_no_failure p"
  by (auto simp: peekable_poll_next_def peek_data_def peek_no_failure_def dest: io_poll_next_end split: option.splits prod.splits)

lemma peekable_next_data:
  "peekable_poll_next p = (p', Ready (Some (Inr bs))) \<Longrightarrow> peek_data p = bs @ peek_data p' \<and> (peek_no_failure p \<longleftrightarrow> peek_no_failure p')"
  by (auto simp: peekable_poll_next_def peek_data_def peek_no_failure_def dest: io_poll_next_data split: option.splits prod.splits)

lemma inner_empty_end: "inner_should_be_empty p = (p', Ready None) \<Longrightarrow> peek_data p = [] \<and> peek_no_failure p"
proof (induction p rule: inner_should_be_empty.induct)
  case (1 p)
  obtain q r where n: "peekable_poll_next p = (q, r)" by (rule prod.exhaust)
  show ?case
  proof (cases r)
    case Pending
    with "1.prems" n show ?thesis by (simp add: inner_should_be_empty.simps [of p])
  next
    case (Ready x)
    show ?thesis
    proof (cases x)
      case None
      with n Ready show ?thesis by (simp add: peekable_next_end)
    next
      case (Some y)
      show ?thesis
      proof (cases y)
        case (Inl e)
        with "1.prems" n Ready Some show ?thesis by (simp add: inner_should_be_empty.simps [of p])
      next
        case (Inr bs)
        with "1.prems" n Ready Some have "bs = []" "inner_should_be_empty q = (p', Ready None)"
          by (auto simp: inner_should_be_empty.simps [of p] split: if_splits)
        with "1.IH" [OF n [symmetric] Ready Some Inr] peekable_next_data [of p q bs] n Ready Some Inr show ?thesis by simp
      qed
    qed
  qed
qed

lemma inner_empty_data: "inner_should_be_empty p \<noteq> (p', Ready (Some (Inr bs)))"
proof (induction p rule: inner_should_be_empty.induct)
  case (1 p)
  obtain q r where n: "peekable_poll_next p = (q, r)" by (rule prod.exhaust)
  with 1 show ?case by (subst inner_should_be_empty.simps) (auto split: poll.split option.split sum.split)
qed

section \<open>Properties\<close>

text \<open>The decoder of a response is chosen by the first coding, of those the client accepts, that a \<^verbatim>\<open>Content-Encoding\<close> or
  \<^verbatim>\<open>Transfer-Encoding\<close> line names, unless the body is announced to be empty; then the lines that describe the coded body are
  removed, and otherwise no header changes.\<close>
lemma decoder_choice:
  assumes "http_laws H"
  shows "\<exists>headers'. detect H F a headers = (headers', map_option snd (List.find (\<lambda>c. says_coded H headers (fst c)) (accepted_codings F a))) \<and>
    (\<forall>k. hm_get_all H headers' k =
       (if k \<in> {''content-encoding'', ''content-length''} \<and> (\<exists>c \<in> fst ` set (accepted_codings F a). says_coded H headers c) then []
        else hm_get_all H headers k))"
proof -
  note laws = http_laws.get_all_remove [OF assms]
  have d: "detect H F a headers =
     (case List.find (\<lambda>c. says_coded H headers (fst c)) (accepted_codings F a) of
        None \<Rightarrow> (headers, None)
      | Some c \<Rightarrow> (hm_remove H ''content-length'' (hm_remove H ''content-encoding'' headers), Some (snd c)))"
    by (simp add: detect_def detect_first_find accepted_codings_def)
  show ?thesis
  proof (cases "List.find (\<lambda>c. says_coded H headers (fst c)) (accepted_codings F a)")
    case None
    then have "\<not> (\<exists>c \<in> fst ` set (accepted_codings F a). says_coded H headers c)" by (auto simp: find_None_iff)
    with None d show ?thesis by simp
  next
    case (Some c)
    then have "\<exists>c \<in> fst ` set (accepted_codings F a). says_coded H headers c"
      by (metis find_Some_iff image_eqI nth_mem)
    with Some d show ?thesis by (auto simp: laws)
  qed
qed

text \<open>At a concrete input: a gzip body.\<close>
lemma decoder_choice_instance:
  "\<exists>headers'. detect assoc_http \<lparr>feat_gzip = True, feat_brotli = True, feat_zstd = False, feat_deflate = False\<rparr>
      \<lparr>acc_gzip = True, acc_brotli = True, acc_zstd = False, acc_deflate = False\<rparr> [(''content-encoding'', ''gzip''), (''content-length'', ''9'')] =
      (headers', Some Gzip) \<and> hm_get_all assoc_http headers' ''content-length'' = []"
proof -
  let ?F = "\<lparr>feat_gzip = True, feat_brotli = True, feat_zstd = False, feat_deflate = False\<rparr>"
  let ?a = "\<lparr>acc_gzip = True, acc_brotli = True, acc_zstd = False, acc_deflate = False\<rparr>"
  let ?h = "[(''content-encoding'', ''gzip''), (''content-length'', ''9'')]"
  have "List.find (\<lambda>c. says_coded assoc_http ?h (fst c)) (accepted_codings ?F ?a) = Some (''gzip'', Gzip)" by code_simp
  moreover have "\<exists>c \<in> fst ` set (accepted_codings ?F ?a). says_coded assoc_http ?h c" by code_simp
  ultimately show ?thesis using decoder_choice [OF assoc.http_laws_axioms, of ?F ?a ?h] by auto
qed

text \<open>A decompressed body ends without an error only where the compressed one does: when the decoder reports the end, the
  decompressor has reported its own and nothing is left of the body below it but empty frames and trailers.\<close>
lemma decompressed_body_complete:
  assumes "decoder_poll_frame C (Decoding d) = (i, Ready None)"
  shows "\<exists>d'. cd_poll_next C d = (d', Ready None) \<and> peek_data (cd_inner C d') = [] \<and> peek_no_failure (cd_inner C d')"
proof -
  obtain d' r where n: "cd_poll_next C d = (d', r)" by (rule prod.exhaust)
  obtain p r' where i: "inner_should_be_empty (cd_inner C d') = (p, r')" by (rule prod.exhaust)
  from assms n i have "r = Ready None" "r' = Ready None"
    by (auto simp: decoder_poll_frame_def poll_decoding_def split: poll.splits option.splits sum.splits)
  with n i inner_empty_end [of "cd_inner C d'" p] show ?thesis by simp
qed

text \<open>A decompressor that has had its end: the body after it, however it was cut.\<close>

definition ended_codec :: "peekable codec_ops" where
  "ended_codec = \<lparr>cd_new = (\<lambda>_ p. p), cd_poll_next = (\<lambda>d. (d, Ready None)), cd_inner = (\<lambda>d. d), cd_set_inner = (\<lambda>p _. p)\<rparr>"

text \<open>At a concrete input: an empty frame and trailers are left.\<close>
lemma decompressed_body_complete_instance: "peek_data (None, [Data [], Trailers]) = []"
proof -
  have "inner_should_be_empty (None, [Data [], Trailers]) = ((None, []), Ready None)"
    by (subst inner_should_be_empty.simps, simp add: peekable_poll_next_def, subst inner_should_be_empty.simps, simp add: peekable_poll_next_def)
  then have "decoder_poll_frame ended_codec (Decoding (None, [Data [], Trailers])) = (Decoding (None, []), Ready None)"
    by (simp add: decoder_poll_frame_def poll_decoding_def ended_codec_def)
  from decompressed_body_complete [OF this] show ?thesis by (simp add: ended_codec_def)
qed

end
