(* ===== verification/Multipart.thy ===== *)
theory Multipart
  imports Http_Lib
begin

text \<open>
  Multipart forms, \<^verbatim>\<open>src/src/client/multipart.rs\<close>, and the generator of random numbers their boundaries come from,
  \<^verbatim>\<open>fast_random\<close> of \<^verbatim>\<open>src/src/util.rs\<close>.

  The crate \<^verbatim>\<open>percent_encoding\<close> is a parameter, the function \<open>P\<close>, with its documented behaviour as the locale
  \<open>percent_laws\<close>; like the crate it says whether its result is borrowed or owned (\<open>cow\<close>), which the code
  looks at. A stream is the list of its items; an item that is an error is an \<^const>\<open>Inl\<close>.
\<close>

unbundle bit_operations_syntax

section \<open>Random numbers\<close>

text \<open>\<^verbatim>\<open>fast_random\<close> after the seed of the thread: a xorshift generator; the state never is zero, which the code asserts.\<close>

definition xorshift :: "u64 \<Rightarrow> u64" where
  "xorshift n0 =
     (let n = n0 XOR drop_bit 12 n0;
          n = n XOR push_bit 25 n
      in n XOR drop_bit 27 n)"

definition fast_random :: "u64 \<Rightarrow> (u64 \<times> u64) option" where
  "fast_random rng =
     (if rng = 0 then None
      else let n = xorshift rng in Some (n, n * 0x2545f4914f6cdd1d))"

definition lower_hex_digit :: "nat \<Rightarrow> char" where
  "lower_hex_digit d = (if d < 10 then char_of (48 + d) else char_of (87 + d))"

fun hex_pad :: "nat \<Rightarrow> nat \<Rightarrow> string" where
  "hex_pad 0 x = []"
| "hex_pad (Suc k) x = hex_pad k (x div 16) @ [lower_hex_digit (x mod 16)]"

definition hex16 :: "u64 \<Rightarrow> string" where
  "hex16 w = hex_pad 16 (unat w)"

definition gen_boundary :: "u64 \<Rightarrow> (u64 \<times> string) option" where
  "gen_boundary rng =
     Option.bind (fast_random rng) (\<lambda>(r1, a).
     Option.bind (fast_random r1) (\<lambda>(r2, b).
     Option.bind (fast_random r2) (\<lambda>(r3, c).
     Option.bind (fast_random r3) (\<lambda>(r4, d).
       Some (r4, hex16 a @ ''-'' @ hex16 b @ ''-'' @ hex16 c @ ''-'' @ hex16 d)))))"

section \<open>Percent encoding\<close>

type_synonym ascii_set = "byte \<Rightarrow> bool"

text \<open>\<^verbatim>\<open>std::borrow::Cow\<close>.\<close>

datatype 'a cow = Borrowed 'a | Owned 'a

primrec cow_val :: "'a cow \<Rightarrow> 'a" where
  "cow_val (Borrowed v) = v"
| "cow_val (Owned v) = v"

definition CONTROLS :: ascii_set where
  "CONTROLS b \<longleftrightarrow> byte_val b < 32 \<or> byte_val b = 127"

definition FRAGMENT_ENCODE_SET :: ascii_set where
  "FRAGMENT_ENCODE_SET b \<longleftrightarrow> CONTROLS b \<or> b \<in> {SP, CHR 0x22, CHR ''<'', CHR ''>'', CHR 0x60}"

definition PATH_ENCODE_SET :: ascii_set where
  "PATH_ENCODE_SET b \<longleftrightarrow> FRAGMENT_ENCODE_SET b \<or> b \<in> {CHR ''#'', CHR ''?'', CHR ''{'', CHR ''}''}"

definition PATH_SEGMENT_ENCODE_SET :: ascii_set where
  "PATH_SEGMENT_ENCODE_SET b \<longleftrightarrow> PATH_ENCODE_SET b \<or> b \<in> {CHR ''/'', CHR ''%''}"

definition NON_ALPHANUMERIC :: ascii_set where
  "NON_ALPHANUMERIC b \<longleftrightarrow> byte_val b < 128 \<and>
     \<not> (byte_in CHR ''0'' CHR ''9'' b \<or> byte_in CHR ''A'' CHR ''Z'' b \<or> byte_in CHR ''a'' CHR ''z'' b)"

definition ATTR_CHAR_ENCODE_SET :: ascii_set where
  "ATTR_CHAR_ENCODE_SET b \<longleftrightarrow> NON_ALPHANUMERIC b \<and>
     b \<notin> {CHR ''!'', CHR ''#'', CHR ''$'', CHR ''&'', CHR ''+'', CHR ''-'', CHR ''.'', CHR ''^'', CHR ''_'', CHR 0x60, CHR ''|'', CHR ''~''}"

datatype PercentEncoding = PathSegment | AttrChar | NoOp

definition percent_encode :: "(ascii_set \<Rightarrow> string \<Rightarrow> string cow) \<Rightarrow> PercentEncoding \<Rightarrow> string \<Rightarrow> string cow" where
  "percent_encode P pe value =
     (case pe of
        PathSegment \<Rightarrow> P PATH_SEGMENT_ENCODE_SET value
      | AttrChar \<Rightarrow> P ATTR_CHAR_ENCODE_SET value
      | NoOp \<Rightarrow> Borrowed value)"

section \<open>Parts and forms\<close>

record 'm PartMetadata =
  pm_mime :: "string option"
  pm_file_name :: "string option"
  pm_headers :: 'm

text \<open>A streaming body is what it will yield and the exact length it announces, if it does.\<close>

datatype part_body = ReusableBody bytes | StreamingBody "(string + bytes) list" "u64 option"

record 'm Part =
  pt_meta :: "'m PartMetadata"
  pt_value :: part_body
  pt_body_length :: "u64 option"

record 'm Form =
  fm_boundary :: string
  fm_computed_headers :: "bytes list"
  fm_fields :: "(string \<times> 'm Part) list"
  fm_percent_encoding :: PercentEncoding

definition content_length :: "part_body \<Rightarrow> u64 option" where
  "content_length b = (case b of ReusableBody bs \<Rightarrow> Some (of_nat (length bs)) | StreamingBody _ hint \<Rightarrow> hint)"

definition value_len :: "('m, 'z) Part_scheme \<Rightarrow> u64 option" where
  "value_len p = (if pt_body_length p \<noteq> None then pt_body_length p else content_length (pt_value p))"

definition data_stream :: "part_body \<Rightarrow> (string + bytes) list" where
  "data_stream b = (case b of ReusableBody bs \<Rightarrow> if bs = [] then [] else [Inr bs] | StreamingBody items _ \<Rightarrow> items)"

definition form_new :: "string \<Rightarrow> 'm Form" where
  "form_new boundary = \<lparr>fm_boundary = boundary, fm_computed_headers = [], fm_fields = [], fm_percent_encoding = PathSegment\<rparr>"

definition form_part :: "string \<Rightarrow> 'm Part \<Rightarrow> 'm Form \<Rightarrow> 'm Form" where
  "form_part name part f = f\<lparr>fm_fields := fm_fields f @ [(name, part)]\<rparr>"

text \<open>The escapes of a file name, in the order of the code: the replacements do not touch what earlier ones put in.\<close>

definition replace_char :: "byte \<Rightarrow> string \<Rightarrow> string \<Rightarrow> string" where
  "replace_char c r s = concat (map (\<lambda>b. if b = c then r else [b]) s)"

definition legal_filename :: "string \<Rightarrow> string" where
  "legal_filename filename =
     replace_char LF [CHR 0x5C, LF] (replace_char CR [CHR 0x5C, CR]
       (replace_char CHR 0x22 [CHR 0x5C, CHR 0x22] (replace_char CHR 0x5C [CHR 0x5C, CHR 0x5C] filename)))"

text \<open>The first parameter of the header line, the \<^verbatim>\<open>match\<close> of \<^verbatim>\<open>encode_headers\<close>.\<close>

definition encode_name :: "(ascii_set \<Rightarrow> string \<Rightarrow> string cow) \<Rightarrow> PercentEncoding \<Rightarrow> string \<Rightarrow> bytes" where
  "encode_name P pe name =
     (case percent_encode P pe name of
        Borrowed value \<Rightarrow> ''name='' @ [CHR 0x22] @ value @ [CHR 0x22]
      | Owned value \<Rightarrow> ''name*=utf-8'' @ [CHR 0x27, CHR 0x27] @ value)"

definition encode_headers ::
  "('m, 'z) http_lib_scheme \<Rightarrow> (ascii_set \<Rightarrow> string \<Rightarrow> string cow) \<Rightarrow> PercentEncoding \<Rightarrow> string \<Rightarrow> 'm PartMetadata \<Rightarrow> bytes" where
  "encode_headers H P pe name field =
     ''Content-Disposition: form-data; '' @ encode_name P pe name @
     (case pm_file_name field of
        None \<Rightarrow> []
      | Some filename \<Rightarrow> ''; filename='' @ [CHR 0x22] @ legal_filename filename @ [CHR 0x22]) @
     (case pm_mime field of None \<Rightarrow> [] | Some mime \<Rightarrow> CRLF @ ''Content-Type: '' @ mime) @
     concat (map (\<lambda>(k, v). CRLF @ k @ '': '' @ v) (hm_iter H (pm_headers field)))"

definition part_stream ::
  "('m, 'z) http_lib_scheme \<Rightarrow> (ascii_set \<Rightarrow> string \<Rightarrow> string cow) \<Rightarrow> 'm Form \<Rightarrow> string \<times> 'm Part \<Rightarrow> (string + bytes) list" where
  "part_stream H P f np =
     [Inr (''--'' @ fm_boundary f @ CRLF),
      Inr (encode_headers H P (fm_percent_encoding f) (fst np) (pt_meta (snd np)) @ CRLF @ CRLF)] @
     data_stream (pt_value (snd np)) @ [Inr CRLF]"

definition into_stream ::
  "('m, 'z) http_lib_scheme \<Rightarrow> (ascii_set \<Rightarrow> string \<Rightarrow> string cow) \<Rightarrow> 'm Form \<Rightarrow> (string + bytes) list" where
  "into_stream H P f =
     (case fm_fields f of
        [] \<Rightarrow> []
      | np # nps \<Rightarrow>
          foldl (\<lambda>memo np. memo @ part_stream H P f np) (part_stream H P f np) nps @
          [Inr (''--'' @ fm_boundary f @ ''--'' @ CRLF)])"

text \<open>The length, with the wrap-around of its sums; the second result is the form with the headers it has computed.\<close>

fun compute_fields ::
  "('m, 'z) http_lib_scheme \<Rightarrow> (ascii_set \<Rightarrow> string \<Rightarrow> string cow) \<Rightarrow> 'm Form \<Rightarrow> (string \<times> 'm Part) list \<Rightarrow> u64 \<Rightarrow> 'm Form \<times> u64 option" where
  "compute_fields H P f [] len = (f, Some len)"
| "compute_fields H P f ((name, field) # nps) len =
     (case value_len field of
        None \<Rightarrow> (f, None)
      | Some value_length \<Rightarrow>
          let header = encode_headers H P (fm_percent_encoding f) name (pt_meta field)
          in compute_fields H P (f\<lparr>fm_computed_headers := fm_computed_headers f @ [header]\<rparr>) nps
               (len + (2 + of_nat (length (fm_boundary f)) + 2 + of_nat (length header) + 4 + value_length + 2)))"

definition compute_length ::
  "('m, 'z) http_lib_scheme \<Rightarrow> (ascii_set \<Rightarrow> string \<Rightarrow> string cow) \<Rightarrow> 'm Form \<Rightarrow> 'm Form \<times> u64 option" where
  "compute_length H P f =
     (case compute_fields H P f (fm_fields f) 0 of
        (f', None) \<Rightarrow> (f', None)
      | (f', Some len) \<Rightarrow>
          (f', Some (if fm_fields f \<noteq> [] then len + (2 + of_nat (length (fm_boundary f)) + 4) else len)))"

section \<open>The generator\<close>

lemma drop_bit_fixpoint:
  fixes x :: "'a::len word"
  assumes "drop_bit (Suc n) x = x"
  shows "x = 0"
proof -
  have "unat x = unat x div 2 ^ Suc n" using unat_drop_bit_eq [of "Suc n" x] assms by (simp add: drop_bit_eq_div)
  moreover have "unat x div 2 ^ Suc n < unat x" if "0 < unat x"
    using that one_less_power [of "2 :: nat" "Suc n"] by (intro div_less_dividend) simp_all
  ultimately show ?thesis by (metis less_irrefl neq0_conv unsigned_eq_0_iff)
qed

lemma push_bit_fixpoint:
  fixes x :: "'a::len word"
  assumes "push_bit (Suc n) x = x"
  shows "x = 0"
proof -
  have "\<not> bit x i" for i
  proof (induction i rule: less_induct)
    case (less i)
    have "bit x i \<longleftrightarrow> bit (push_bit (Suc n) x) i" by (simp only: assms)
    also have "\<dots> \<longrightarrow> Suc n \<le> i \<and> bit x (i - Suc n)" by (simp add: bit_push_bit_iff del: push_bit_Suc)
    finally show ?case using less [of "i - Suc n"] by auto
  qed
  then show ?thesis by (simp add: bit_eq_iff)
qed

lemma xor_zero_eq: "a XOR b = 0 \<longleftrightarrow> b = a" for a b :: "'a::len word"
  by (auto simp: bit_eq_iff bit_xor_iff)

lemma xorshift_nonzero: "n \<noteq> 0 \<Longrightarrow> xorshift n \<noteq> 0"
proof -
  have 1: "m XOR drop_bit 12 m \<noteq> 0" "m XOR drop_bit 27 m \<noteq> 0" "m XOR push_bit 25 m \<noteq> 0" if "m \<noteq> 0" for m :: u64
    using that drop_bit_fixpoint [of 11 m] drop_bit_fixpoint [of 26 m] push_bit_fixpoint [of 24 m] by (auto simp: xor_zero_eq)
  assume "n \<noteq> 0"
  from 1(2) [OF 1(3) [OF 1(1) [OF this]]] show ?thesis unfolding xorshift_def Let_def .
qed

lemma length_hex_pad: "length (hex_pad k x) = k"
  by (induction k arbitrary: x) auto

lemma fast_random_step: "rng \<noteq> 0 \<Longrightarrow> \<exists>r a. fast_random rng = Some (r, a) \<and> r \<noteq> 0"
  by (simp add: fast_random_def Let_def xorshift_nonzero)

lemma gen_boundary_length:
  assumes "rng \<noteq> 0"
  shows "\<exists>r b. gen_boundary rng = Some (r, b) \<and> r \<noteq> 0 \<and> length b = 67"
proof -
  obtain r1 a where 1: "fast_random rng = Some (r1, a)" "r1 \<noteq> 0" using fast_random_step [OF assms] by blast
  obtain r2 b where 2: "fast_random r1 = Some (r2, b)" "r2 \<noteq> 0" using fast_random_step [OF 1(2)] by blast
  obtain r3 c where 3: "fast_random r2 = Some (r3, c)" "r3 \<noteq> 0" using fast_random_step [OF 2(2)] by blast
  obtain r4 d where 4: "fast_random r3 = Some (r4, d)" "r4 \<noteq> 0" using fast_random_step [OF 3(2)] by blast
  show ?thesis using 1 2 3 4 by (simp add: gen_boundary_def hex16_def length_hex_pad)
qed

section \<open>The length of a form\<close>

text \<open>The bytes of a stream that does not fail.\<close>

fun stream_bytes :: "(string + bytes) list \<Rightarrow> bytes option" where
  "stream_bytes [] = Some []"
| "stream_bytes (Inl e # is) = None"
| "stream_bytes (Inr bs # is) = map_option ((@) bs) (stream_bytes is)"

lemma stream_bytes_append: "stream_bytes (is @ js) = Option.bind (stream_bytes is) (\<lambda>bs. map_option ((@) bs) (stream_bytes js))"
  by (induction "is" rule: stream_bytes.induct; cases "stream_bytes js") (auto split: bind_splits)

text \<open>A part keeps its word if its body yields as many bytes as it is said to have.\<close>

definition honest :: "'m Part \<Rightarrow> bool" where
  "honest p \<longleftrightarrow> (\<exists>bs. stream_bytes (data_stream (pt_value p)) = Some bs \<and> value_len p = Some (of_nat (length bs)))"

definition part_size :: "('m, 'z) http_lib_scheme \<Rightarrow> (ascii_set \<Rightarrow> string \<Rightarrow> string cow) \<Rightarrow> 'm Form \<Rightarrow> string \<times> 'm Part \<Rightarrow> nat" where
  "part_size H P f np = length (the (stream_bytes (part_stream H P f np)))"

lemma part_stream_bytes:
  assumes "stream_bytes (data_stream (pt_value (snd np))) = Some bs"
  shows "\<exists>out. stream_bytes (part_stream H P f np) = Some out \<and> length out =
    2 + length (fm_boundary f) + 2 + length (encode_headers H P (fm_percent_encoding f) (fst np) (pt_meta (snd np))) + 4 + length bs + 2"
  using assms by (simp add: part_stream_def stream_bytes_append)

lemma compute_fields_size:
  assumes "list_all (honest \<circ> snd) nps"
  shows "\<exists>f'. compute_fields H P f nps len = (f', Some (len + of_nat (sum_list (map (part_size H P f) nps)))) \<and>
    fm_fields f' = fm_fields f \<and> fm_boundary f' = fm_boundary f \<and> fm_percent_encoding f' = fm_percent_encoding f"
  using assms
proof (induction nps arbitrary: f len)
  case (Cons np nps)
  obtain name p where np: "np = (name, p)" by (rule prod.exhaust)
  from Cons.prems np obtain bs where bs: "stream_bytes (data_stream (pt_value p)) = Some bs" "value_len p = Some (of_nat (length bs))"
    by (auto simp: honest_def)
  from part_stream_bytes [of np bs H P f] bs(1) np have size: "part_size H P f np =
      2 + length (fm_boundary f) + 2 + length (encode_headers H P (fm_percent_encoding f) name (pt_meta p)) + 4 + length bs + 2"
    by (auto simp: part_size_def)
  let ?f = "f\<lparr>fm_computed_headers := fm_computed_headers f @ [encode_headers H P (fm_percent_encoding f) name (pt_meta p)]\<rparr>"
  have same: "part_size H P ?f = part_size H P f" by (rule ext) (simp add: part_size_def part_stream_def)
  show ?case
    using Cons.IH [of ?f "len + of_nat (part_size H P f np)"] Cons.prems bs(2) np size
    by (auto simp: Let_def same algebra_simps)
qed simp

lemma into_stream_bytes:
  assumes "list_all (honest \<circ> snd) (fm_fields f)"
  shows "\<exists>out. stream_bytes (into_stream H P f) = Some out \<and>
    length out = sum_list (map (part_size H P f) (fm_fields f)) + (if fm_fields f = [] then 0 else length (fm_boundary f) + 6)"
proof -
  have one: "\<exists>out. stream_bytes (part_stream H P f np) = Some out \<and> length out = part_size H P f np" if "honest (snd np)" for np
    using that part_stream_bytes [of np _ H P f] by (auto simp: honest_def part_size_def)
  have many: "\<exists>out. stream_bytes (foldl (\<lambda>memo np. memo @ part_stream H P f np) start nps) = Some out \<and>
      length out = length pre + sum_list (map (part_size H P f) nps)"
    if "stream_bytes start = Some pre" "list_all (honest \<circ> snd) nps" for start pre nps
    using that
  proof (induction nps arbitrary: start pre)
    case (Cons np nps)
    from one [of np] Cons.prems obtain out where "stream_bytes (part_stream H P f np) = Some out" "length out = part_size H P f np" by auto
    with Cons.IH [of "start @ part_stream H P f np" "pre @ out"] Cons.prems show ?case by (auto simp: stream_bytes_append)
  qed simp
  show ?thesis
  proof (cases "fm_fields f")
    case (Cons np nps)
    from one [of np] assms Cons obtain pre where "stream_bytes (part_stream H P f np) = Some pre" "length pre = part_size H P f np" by auto
    with many [of "part_stream H P f np" pre nps] assms Cons show ?thesis by (auto simp: into_stream_def stream_bytes_append)
  qed (simp add: into_stream_def)
qed

section \<open>The name of a part\<close>

text \<open>What the crate does: bytes of the set and bytes that are not ASCII become a percent sign and two digits, the others stay. The
  encoding is made of pieces, one for each byte that is encoded and one for each run of bytes that stay; the result is borrowed
  if there is at most one piece, so if nothing is encoded or if the text is a single byte.\<close>

definition pct_hex :: "nat \<Rightarrow> char" where
  "pct_hex d = (if d < 10 then char_of (48 + d) else char_of (55 + d))"

definition percent_byte :: "byte \<Rightarrow> bytes" where
  "percent_byte b = [CHR ''%'', pct_hex (byte_val b div 16), pct_hex (byte_val b mod 16)]"

abbreviation encoded_in :: "ascii_set \<Rightarrow> byte \<Rightarrow> bool" where
  "encoded_in S b \<equiv> S b \<or> 128 \<le> byte_val b"

definition utf8_percent_encode :: "ascii_set \<Rightarrow> string \<Rightarrow> string cow" where
  "utf8_percent_encode S v =
     (if list_all (\<lambda>b. \<not> encoded_in S b) v \<or> length v \<le> 1 then Borrowed else Owned)
       (concat (map (\<lambda>b. if encoded_in S b then percent_byte b else [b]) v))"

locale percent_laws =
  fixes P :: "ascii_set \<Rightarrow> string \<Rightarrow> string cow"
  assumes encodes: "cow_val (P S v) = concat (map (\<lambda>b. if encoded_in S b then percent_byte b else [b]) v)"
    and borrows: "(\<exists>t. P S v = Borrowed t) \<longleftrightarrow> list_all (\<lambda>b. \<not> encoded_in S b) v \<or> length v \<le> 1"

interpretation pct: percent_laws utf8_percent_encode
  by unfold_locales (simp_all add: utf8_percent_encode_def)

text \<open>The reference: how a receiver reads the name, quoted or, after RFC 8187, percent-encoded up to the end of the parameter.\<close>

definition hex_val :: "byte \<Rightarrow> nat" where
  "hex_val b = (if byte_in CHR ''0'' CHR ''9'' b then byte_val b - 48 else byte_val b - 55)"

fun pct_decode :: "bytes \<Rightarrow> bytes" where
  "pct_decode (b # h # l # r) = (if b = CHR ''%'' then char_of (16 * hex_val h + hex_val l) # pct_decode r else b # pct_decode (h # l # r))"
| "pct_decode r = r"

definition read_name :: "bytes \<Rightarrow> string option" where
  "read_name s =
     (if starts_with s (''name='' @ [CHR 0x22]) then Some (takeWhile (\<lambda>b. b \<noteq> CHR 0x22) (drop 6 s))
      else if starts_with s (''name*=utf-8'' @ [CHR 0x27, CHR 0x27])
      then Some (pct_decode (takeWhile (\<lambda>b. b \<noteq> CHR '';'' \<and> b \<noteq> CR) (drop 13 s)))
      else None)"

text \<open>The set of an encoding, and the name a receiver reads: the name, but for a single byte that has to be encoded, which comes
  in quotes and encoded.\<close>

definition encode_set :: "PercentEncoding \<Rightarrow> ascii_set option" where
  "encode_set pe =
     (case pe of PathSegment \<Rightarrow> Some PATH_SEGMENT_ENCODE_SET | AttrChar \<Rightarrow> Some ATTR_CHAR_ENCODE_SET | NoOp \<Rightarrow> None)"

definition name_read :: "PercentEncoding \<Rightarrow> string \<Rightarrow> string" where
  "name_read pe name =
     (case (encode_set pe, name) of
        (Some S, [b]) \<Rightarrow> if encoded_in S b then percent_byte b else name
      | _ \<Rightarrow> name)"

lemma byte_val_char_of: "n < 256 \<Longrightarrow> byte_val (char_of n) = n"
  by (simp add: of_char_of)

lemma hex_val_pct_hex: "d < 16 \<Longrightarrow> hex_val (pct_hex d) = d"
  by (auto simp: hex_val_def pct_hex_def byte_in_def byte_val_char_of)

lemma pct_hex_not: "d < 16 \<Longrightarrow> pct_hex d \<notin> {CHR '';'', CR, LF, CHR 0x22}"
proof
  assume d: "d < 16" and e: "pct_hex d \<in> {CHR '';'', CR, LF, CHR 0x22}"
  have "byte_val (pct_hex d) = (if d < 10 then 48 + d else 55 + d)" using d by (simp add: pct_hex_def byte_val_char_of)
  moreover from e have "byte_val (pct_hex d) \<in> {59, 13, 10, 34}" by auto
  ultimately show False using d by (auto split: if_splits)
qed

lemma nibbles: "byte_val b div 16 < 16" "byte_val b mod 16 < 16"
proof -
  have "byte_val b < 256" using of_char_mod_256 [of b, where ?'a = nat] by (metis mod_less_divisor zero_less_numeral)
  then show "byte_val b div 16 < 16" by (intro less_mult_imp_div_less) simp
qed simp

lemma pct_decode_byte: "pct_decode (percent_byte b @ r) = b # pct_decode r"
proof -
  have "16 * hex_val (pct_hex (byte_val b div 16)) + hex_val (pct_hex (byte_val b mod 16)) = byte_val b"
    using nibbles [of b] by (simp add: hex_val_pct_hex)
  then show ?thesis by (simp add: percent_byte_def)
qed

lemma pct_decode_plain: "b \<noteq> CHR ''%'' \<Longrightarrow> pct_decode (b # r) = b # pct_decode r"
  by (cases r; cases "tl r") auto

context percent_laws
begin

lemma decode_encode:
  assumes "S CHR ''%''"
  shows "pct_decode (cow_val (P S v)) = v"
proof -
  have plain: "pct_decode (b # r) = b # pct_decode r" if "\<not> S b" for b r
    using that assms by (intro pct_decode_plain) auto
  show ?thesis by (induction v) (auto simp: encodes pct_decode_byte plain)
qed

lemma encoded_bytes:
  assumes "b \<in> set (cow_val (P S v))"
  shows "(b \<in> set v \<and> \<not> S b) \<or> b \<notin> {CHR '';'', CR, LF, CHR 0x22}"
proof -
  from assms obtain c where c: "c \<in> set v" "b \<in> set (if encoded_in S c then percent_byte c else [c])"
    by (auto simp: encodes)
  have "b \<notin> {CHR '';'', CR, LF, CHR 0x22}" if "b \<in> set (percent_byte c)"
    using that pct_hex_not [of "byte_val c div 16"] pct_hex_not [of "byte_val c mod 16"] nibbles [of c] by (auto simp: percent_byte_def)
  with c show ?thesis by (auto split: if_splits)
qed

lemma borrowed_text:
  assumes "P S v = Borrowed t"
  shows "t = v \<or> (\<exists>b. v = [b] \<and> encoded_in S b \<and> t = percent_byte b)"
proof -
  have t: "t = concat (map (\<lambda>b. if encoded_in S b then percent_byte b else [b]) v)" using encodes [of S v] assms by simp
  from borrows [of S v] assms consider "list_all (\<lambda>b. \<not> encoded_in S b) v" | "length v \<le> 1" by auto
  then show ?thesis
  proof cases
    case 1
    then have "map (\<lambda>b. if encoded_in S b then percent_byte b else [b]) v = map (\<lambda>b. [b]) v" by (auto simp: list_all_iff)
    with t show ?thesis by simp
  next
    case 2
    with t show ?thesis by (cases v) (auto split: if_splits)
  qed
qed

lemma owned_text:
  assumes "P S v = Owned t"
  shows "1 < length v \<and> (\<exists>b\<in>set v. encoded_in S b)"
proof -
  from borrows [of S v] assms have "\<not> (list_all (\<lambda>b. \<not> encoded_in S b) v \<or> length v \<le> 1)" by simp
  then show ?thesis by (auto simp: list_all_iff)
qed

text \<open>The sets of the code have what the reference stops at, except that only one of them has the semicolon.\<close>

lemma name_value_bytes:
  assumes "pe = AttrChar \<or> (pe = PathSegment \<and> CHR '';'' \<notin> set name)"
  shows "set (cow_val (percent_encode P pe name)) \<inter> {CR, LF, CHR 0x22, CHR '';''} = {} \<and>
    pct_decode (cow_val (percent_encode P pe name)) = name"
proof -
  have sets: "S CR" "S LF" "S CHR 0x22" "S CHR ''%''" "pe = AttrChar \<longrightarrow> S CHR '';''" if "encode_set pe = Some S" for S
    using that assms by (auto simp: encode_set_def PATH_SEGMENT_ENCODE_SET_def PATH_ENCODE_SET_def FRAGMENT_ENCODE_SET_def
        CONTROLS_def ATTR_CHAR_ENCODE_SET_def NON_ALPHANUMERIC_def byte_in_def)
  obtain S where S: "encode_set pe = Some S" "percent_encode P pe name = P S name"
    using assms by (auto simp: percent_encode_def encode_set_def)
  have "b \<notin> set (cow_val (P S name))" if "b \<in> {CR, LF, CHR 0x22, CHR '';''}" "S b \<or> b \<notin> set name" for b
    using encoded_bytes [of b S name] that by auto
  with sets [OF S(1)] decode_encode [of S name] assms show ?thesis unfolding S(2) by auto
qed

lemma read_encoded_name:
  assumes pe: "pe = AttrChar \<or> (pe = PathSegment \<and> CHR '';'' \<notin> set name)" and rest: "rest = [] \<or> hd rest \<in> {CHR '';'', CR}"
  shows "read_name (encode_name P pe name @ rest) = Some (name_read pe name)"
proof -
  obtain S where S: "encode_set pe = Some S" "percent_encode P pe name = P S name"
    using pe by (auto simp: percent_encode_def encode_set_def)
  note v = name_value_bytes [OF pe, unfolded S(2)]
  show ?thesis
  proof (cases "P S name")
    case (Borrowed t)
    have "\<forall>b\<in>set t. b \<noteq> CHR 0x22" using v Borrowed by auto
    then have quote: "takeWhile (\<lambda>b. b \<noteq> CHR 0x22) (t @ CHR 0x22 # rest) = t" by (simp add: takeWhile_append2)
    have "t = name_read pe name"
      using borrowed_text [OF Borrowed] borrows [of S name] Borrowed encodes [of S name] S(1)
      by (auto simp: name_read_def list_all_iff split: if_splits list.splits)
    with quote S(2) Borrowed show ?thesis by (simp add: encode_name_def read_name_def starts_with_def)
  next
    case (Owned t)
    have "\<forall>b\<in>set t. b \<noteq> CHR '';'' \<and> b \<noteq> CR" using v Owned by auto
    then have stop: "takeWhile (\<lambda>b. b \<noteq> CHR '';'' \<and> b \<noteq> CR) (t @ rest) = t" using rest by (cases rest) (auto simp: takeWhile_append2)
    have "name_read pe name = name" using owned_text [OF Owned] by (auto simp: name_read_def split: list.splits option.splits)
    with stop v Owned S(2) show ?thesis by (simp add: encode_name_def read_name_def starts_with_def)
  qed
qed

end

section \<open>Properties\<close>

text \<open>C39. The length a form announces is the number of bytes it sends: if every part yields as many bytes as it says and the sum
  fits 64 bits, the stream of the form does not fail and has exactly the computed length.\<close>
theorem multipart_length:
  assumes "list_all (honest \<circ> snd) (fm_fields f)"
    and "length (concat (map (case_sum (\<lambda>_. []) id) (into_stream H P f))) < 2 ^ 64"
  shows "\<exists>f' n out. compute_length H P f = (f', Some n) \<and> stream_bytes (into_stream H P f') = Some out \<and> length out = unat n"
proof -
  obtain f' where f': "compute_fields H P f (fm_fields f) 0 = (f', Some (of_nat (sum_list (map (part_size H P f) (fm_fields f)))))"
    "fm_fields f' = fm_fields f" "fm_boundary f' = fm_boundary f" "fm_percent_encoding f' = fm_percent_encoding f"
    using compute_fields_size [OF assms(1), of H P f 0] by auto
  have same: "into_stream H P f' = into_stream H P f"
    using f'(2-) by (simp add: into_stream_def part_stream_def cong: list.case_cong)
  obtain out where out: "stream_bytes (into_stream H P f) = Some out"
    "length out = sum_list (map (part_size H P f) (fm_fields f)) + (if fm_fields f = [] then 0 else length (fm_boundary f) + 6)"
    using into_stream_bytes [OF assms(1)] by blast
  have "concat (map (case_sum (\<lambda>_. []) id) is) = out" if "stream_bytes is = Some out" for "is" out
    using that by (induction "is" arbitrary: out rule: stream_bytes.induct) auto
  with assms(2) out(1) have "length out < 2 ^ 64" by metis
  then have "unat (of_nat (length out) :: u64) = length out" by (rule unat_of_nat_u64)
  moreover have "compute_length H P f = (f', Some (of_nat (length out)))"
    using f'(1) out(2) by (auto simp: compute_length_def)
  ultimately show ?thesis using out(1) same by (intro exI [of _ f'] exI) auto
qed

definition text_part :: "string \<Rightarrow> assoc_map Part" where
  "text_part value = \<lparr>pt_meta = \<lparr>pm_mime = None, pm_file_name = None, pm_headers = []\<rparr>, pt_value = ReusableBody value, pt_body_length = None\<rparr>"

text \<open>Witness of C39: one text part.\<close>
theorem multipart_length_witness:
  "\<exists>f' n out. compute_length assoc_http utf8_percent_encode (form_part ''k'' (text_part ''v'') (form_new ''b'')) = (f', Some n) \<and>
     stream_bytes (into_stream assoc_http utf8_percent_encode f') = Some out \<and> length out = unat n"
proof (rule multipart_length)
  show "list_all (honest \<circ> snd) (fm_fields (form_part ''k'' (text_part ''v'') (form_new ''b'')))"
    by (simp add: form_part_def form_new_def text_part_def honest_def value_len_def content_length_def data_stream_def)
  show "length (concat (map (case_sum (\<lambda>_. []) id)
      (into_stream assoc_http utf8_percent_encode (form_part ''k'' (text_part ''v'') (form_new ''b''))))) < 2 ^ 64"
    by (simp add: form_part_def form_new_def text_part_def into_stream_def part_stream_def data_stream_def encode_headers_def
        encode_name_def percent_encode_def utf8_percent_encode_def percent_byte_def assoc_http_def Let_def
        PATH_SEGMENT_ENCODE_SET_def PATH_ENCODE_SET_def FRAGMENT_ENCODE_SET_def CONTROLS_def)
qed

text \<open>What a receiver reads as the name of a part, with \<^verbatim>\<open>AttrChar\<close> for every name and with \<^verbatim>\<open>PathSegment\<close>, the default,
  for every name without a semicolon, and when the end of the header, a parameter or a line follows: exactly the name that was
  given, unless the name is one single byte that has to be encoded. Such a name is read as its percent encoding, since the crate
  gives it back as borrowed and the code then sends it in quotes. The encoding \<^verbatim>\<open>NoOp\<close> is not covered.\<close>
lemma part_name_roundtrip:
  assumes "percent_laws P" and "pe = AttrChar \<or> (pe = PathSegment \<and> CHR '';'' \<notin> set name)" and "rest = [] \<or> hd rest \<in> {CHR '';'', CR}"
  shows "read_name (encode_name P pe name @ rest) =
    Some (if length name = 1 \<and> (case pe of PathSegment \<Rightarrow> PATH_SEGMENT_ENCODE_SET (hd name) \<or> 128 \<le> byte_val (hd name)
                                 | AttrChar \<Rightarrow> ATTR_CHAR_ENCODE_SET (hd name) \<or> 128 \<le> byte_val (hd name) | NoOp \<Rightarrow> False)
          then percent_byte (hd name) else name)"
proof -
  have "name_read pe name =
    (if length name = 1 \<and> (case pe of PathSegment \<Rightarrow> PATH_SEGMENT_ENCODE_SET (hd name) \<or> 128 \<le> byte_val (hd name)
                            | AttrChar \<Rightarrow> ATTR_CHAR_ENCODE_SET (hd name) \<or> 128 \<le> byte_val (hd name) | NoOp \<Rightarrow> False)
     then percent_byte (hd name) else name)"
    by (cases pe) (auto simp: name_read_def encode_set_def split: list.splits)
  then show ?thesis using percent_laws.read_encoded_name [OF assms(1-3)] by simp
qed

text \<open>At a concrete input: a name with a quote and a line feed, followed by a file name.\<close>
lemma part_name_roundtrip_instance:
  "read_name (encode_name utf8_percent_encode AttrChar [CHR ''a'', CHR 0x22, LF] @ ''; filename'') = Some [CHR ''a'', CHR 0x22, LF]"
  using part_name_roundtrip [OF pct.percent_laws_axioms, of AttrChar "[CHR ''a'', CHR 0x22, LF]" "''; filename''"] by simp

text \<open>The name that is one quotation mark is sent as if nothing had been encoded, and read as three characters.\<close>
lemma one_byte_part_name:
  "encode_name utf8_percent_encode PathSegment [CHR 0x22] = ''name='' @ [CHR 0x22] @ ''%22'' @ [CHR 0x22]"
  "read_name (encode_name utf8_percent_encode PathSegment [CHR 0x22]) = Some ''%22''"
  by code_simp+

text \<open>With the default encoding a semicolon in a name that has to be encoded ends it.\<close>
lemma part_name_semicolon: "read_name (encode_name utf8_percent_encode PathSegment ''a; b'') = Some ''a''"
  by code_simp

text \<open>A boundary can always be drawn: from a state of the generator that is not zero, which the code asserts, four numbers are
  drawn without the assertion failing, the boundary has 67 characters, within the 70 a boundary may have, and the state again is
  not zero.\<close>
lemma boundary_generated:
  assumes "rng \<noteq> 0"
  shows "\<exists>r b. gen_boundary rng = Some (r, b) \<and> r \<noteq> 0 \<and> length b = 67"
  using assms by (rule gen_boundary_length)

text \<open>At a concrete input.\<close>
lemma boundary_generated_instance: "\<exists>r b. gen_boundary 1 = Some (r, b) \<and> r \<noteq> 0 \<and> length b = 67"
  by (rule boundary_generated) simp

end
