(* ===== verification/H2_Pipe.thy ===== *)
theory H2_Pipe
  imports H1_Dispatch
begin

text \<open>
  What the code does around a stream of an HTTP/2 connection (\<^verbatim>\<open>src/src/core/proto/h2/mod.rs\<close>): it removes headers that HTTP/2 forbids,
  sends the body of a request, and makes a stream that answered a \<^verbatim>\<open>CONNECT\<close> into a transport.
  The streams themselves are those of the crate \<^verbatim>\<open>http2\<close>: \<open>h2_env\<close> extends the world of theory H1_Dispatch
  by the operations the code calls on them, a stream being named by a number.

  The type \<open>stream_world\<close> pairs the world with the list of what the code has done to streams so far: frames it took from a body, and what it sent.
  \<^const>\<open>None\<close> as a result is a panic or a loop that does not end.
\<close>

section \<open>Connection headers\<close>

definition CONNECTION_HEADERS :: "header_name list" where
  "CONNECTION_HEADERS = [''keep-alive'', ''proxy-connection'', ''transfer-encoding'', ''upgrade'']"

text \<open>\<^verbatim>\<open>headers.remove\<close> with a text: a text that is not a header name removes nothing.\<close>

definition remove_named :: "('m, 'z) http_lib_scheme \<Rightarrow> string \<Rightarrow> 'm \<Rightarrow> 'm" where
  "remove_named H n headers = (case hn_from_bytes H n of Some k \<Rightarrow> hm_remove H k headers | None \<Rightarrow> headers)"

definition strip_te :: "('m, 'z) http_lib_scheme \<Rightarrow> bool \<Rightarrow> 'm \<Rightarrow> 'm" where
  "strip_te H is_request headers =
     (if is_request
      then (case hm_get H headers ''te'' of
              Some te \<Rightarrow> if te \<noteq> ''trailers'' then hm_remove H ''te'' headers else headers
            | None \<Rightarrow> headers)
      else hm_remove H ''te'' headers)"

definition strip_connection_headers :: "('m, 'z) http_lib_scheme \<Rightarrow> 'm \<Rightarrow> bool \<Rightarrow> 'm option" where
  "strip_connection_headers H headers is_request =
     (let headers = strip_te H is_request (fold (hm_remove H) CONNECTION_HEADERS headers)
      in case hm_get H headers ''connection'' of
           None \<Rightarrow> Some headers
         | Some v \<Rightarrow>
             let headers = hm_remove H ''connection'' headers
             in case hv_to_str H v of
                  None \<Rightarrow> None
                | Some s \<Rightarrow> Some (fold (\<lambda>n. remove_named H (trim n)) (split_on CHR '','' s) headers))"

text \<open>The names a value of \<^verbatim>\<open>Connection\<close> lists.\<close>

definition connection_names :: "('m, 'z) http_lib_scheme \<Rightarrow> header_value \<Rightarrow> header_name set" where
  "connection_names H v = {k. \<exists>s. hv_to_str H v = Some s \<and> (\<exists>n\<in>set (split_on CHR '','' s). hn_from_bytes H (trim n) = Some k)}"

context http_laws
begin

lemma get_all_fold_remove: "hm_get_all H (fold (hm_remove H) ks m) k = (if k \<in> set ks then [] else hm_get_all H m k)"
  by (induction ks arbitrary: m) (auto simp: get_all_remove)

lemma get_all_fold_named:
  "hm_get_all H (fold (\<lambda>n. remove_named H (f n)) ns m) k =
     (if \<exists>n\<in>set ns. hn_from_bytes H (f n) = Some k then [] else hm_get_all H m k)"
  by (induction ns arbitrary: m) (auto simp: remove_named_def get_all_remove split: option.splits)

lemma get_all_strip_te:
  "hm_get_all H (strip_te H is_request m) k =
     (if k = ''te'' \<and> \<not> (is_request \<and> hm_get H m ''te'' \<in> {None, Some ''trailers''}) then [] else hm_get_all H m k)"
  by (auto simp: strip_te_def get_all_remove hm_get_def split: option.splits list.splits)

lemma hm_get_cong: "hm_get_all H m k = hm_get_all H m' k \<Longrightarrow> hm_get H m k = hm_get H m' k"
  by (simp add: hm_get_def)

lemma hm_get_Nil: "hm_get_all H m k = [] \<Longrightarrow> hm_get H m k = None"
  by (simp add: hm_get_def)

text \<open>Exactly what is left of each header.\<close>

lemma strip_connection_headers_get:
  fixes headers :: 'm
  defines "conn \<equiv> hm_get H headers ''connection''"
  shows "strip_connection_headers H headers is_request = None \<longleftrightarrow> (\<exists>v. conn = Some v \<and> hv_to_str H v = None)"
    and "strip_connection_headers H headers is_request = Some m \<Longrightarrow>
      hm_get_all H m k =
        (if k \<in> set CONNECTION_HEADERS \<or> k = ''connection'' \<or> (\<exists>v. conn = Some v \<and> k \<in> connection_names H v) \<or>
            k = ''te'' \<and> \<not> (is_request \<and> hm_get H headers ''te'' \<in> {None, Some ''trailers''})
         then [] else hm_get_all H headers k)"
proof -
  define m1 where "m1 = fold (hm_remove H) CONNECTION_HEADERS headers"
  define m2 where "m2 = strip_te H is_request m1"
  have m1: "hm_get_all H m1 k = (if k \<in> set CONNECTION_HEADERS then [] else hm_get_all H headers k)" for k
    by (simp add: m1_def get_all_fold_remove)
  have te: "hm_get H m1 ''te'' = hm_get H headers ''te''"
    by (rule hm_get_cong) (simp add: m1 CONNECTION_HEADERS_def)
  have m2: "hm_get_all H m2 k =
      (if k \<in> set CONNECTION_HEADERS \<or> k = ''te'' \<and> \<not> (is_request \<and> hm_get H headers ''te'' \<in> {None, Some ''trailers''})
       then [] else hm_get_all H headers k)" for k
    by (auto simp: m2_def get_all_strip_te m1 te)
  have c: "hm_get H m2 ''connection'' = conn"
    unfolding conn_def by (rule hm_get_cong) (simp add: m2 CONNECTION_HEADERS_def)
  have eq: "strip_connection_headers H headers is_request =
      (case conn of None \<Rightarrow> Some m2
       | Some v \<Rightarrow> (case hv_to_str H v of None \<Rightarrow> None
           | Some s \<Rightarrow> Some (fold (\<lambda>n. remove_named H (trim n)) (split_on CHR '','' s) (hm_remove H ''connection'' m2))))"
    unfolding strip_connection_headers_def Let_def m1_def [symmetric] m2_def [symmetric] c by (rule refl)
  show "strip_connection_headers H headers is_request = None \<longleftrightarrow> (\<exists>v. conn = Some v \<and> hv_to_str H v = None)"
    by (simp add: eq split: option.splits)
  assume m: "strip_connection_headers H headers is_request = Some m"
  have noconn: "hm_get_all H headers ''connection'' = []" if "conn = None"
    using that by (simp add: conn_def hm_get_def split: list.splits)
  show "hm_get_all H m k =
        (if k \<in> set CONNECTION_HEADERS \<or> k = ''connection'' \<or> (\<exists>v. conn = Some v \<and> k \<in> connection_names H v) \<or>
            k = ''te'' \<and> \<not> (is_request \<and> hm_get H headers ''te'' \<in> {None, Some ''trailers''})
         then [] else hm_get_all H headers k)"
  proof (cases conn)
    case None
    with m have "m = m2" by (simp add: eq)
    then show ?thesis using noconn [OF None] None by (auto simp: m2)
  next
    case (Some v)
    with m obtain s where s: "hv_to_str H v = Some s"
      and "m = fold (\<lambda>n. remove_named H (trim n)) (split_on CHR '','' s) (hm_remove H ''connection'' m2)"
      by (auto simp: eq split: option.splits)
    then show ?thesis using Some by (auto simp: get_all_fold_named get_all_remove m2 connection_names_def)
  qed
qed

end

section \<open>Buffers\<close>

datatype SendBuf = SbBuf bytes | SbCursor bytes nat | SbNone

fun sb_remaining :: "SendBuf \<Rightarrow> nat" where
  "sb_remaining (SbBuf b) = length b"
| "sb_remaining (SbCursor c pos) = length c - pos"
| "sb_remaining SbNone = 0"

fun sb_chunk :: "SendBuf \<Rightarrow> bytes" where
  "sb_chunk (SbBuf b) = b"
| "sb_chunk (SbCursor c pos) = drop pos c"
| "sb_chunk SbNone = []"

text \<open>\<^verbatim>\<open>advance\<close> of \<^verbatim>\<open>Bytes\<close> and of a cursor panics beyond the end.\<close>

fun sb_advance :: "nat \<Rightarrow> SendBuf \<Rightarrow> SendBuf option" where
  "sb_advance cnt (SbBuf b) = (if cnt \<le> length b then Some (SbBuf (drop cnt b)) else None)"
| "sb_advance cnt (SbCursor c pos) = (if pos + cnt \<le> length c then Some (SbCursor c (pos + cnt)) else None)"
| "sb_advance cnt SbNone = Some SbNone"

fun sb_chunks_vectored :: "SendBuf \<Rightarrow> nat \<Rightarrow> bytes list" where
  "sb_chunks_vectored SbNone n = []"
| "sb_chunks_vectored b n = (if n = 0 \<or> sb_chunk b = [] then [] else [sb_chunk b])"

lemma sb_advance_chunk: "sb_advance cnt b = Some b' \<Longrightarrow> sb_chunk b' = drop cnt (sb_chunk b)"
  by (cases "(cnt, b)" rule: sb_advance.cases) (auto simp: add.commute split: if_splits)

lemma sb_remaining_chunk: "sb_remaining b = length (sb_chunk b)"
  by (cases b) auto

lemma sb_advance_total: "cnt \<le> sb_remaining b \<Longrightarrow> (\<exists>b'. sb_advance cnt b = Some b') \<or> (\<exists>c pos. b = SbCursor c pos \<and> length c < pos)"
  by (cases b) auto

section \<open>Streams\<close>

record ('w, 'm, 'b) h2_env = "('w, 'm, 'b) h1_env" +
  st_reserve_capacity :: "'w \<Rightarrow> nat \<Rightarrow> nat \<Rightarrow> 'w"
  st_capacity :: "'w \<Rightarrow> nat \<Rightarrow> nat"
  st_poll_capacity :: "'w \<Rightarrow> nat \<Rightarrow> 'w \<times> (h2_error + nat) option poll"
  st_poll_reset :: "'w \<Rightarrow> nat \<Rightarrow> 'w \<times> (h2_error + nat) poll"
  st_send_data :: "'w \<Rightarrow> nat \<Rightarrow> SendBuf \<Rightarrow> bool \<Rightarrow> 'w \<times> (h2_error + unit)"
  st_send_trailers :: "'w \<Rightarrow> nat \<Rightarrow> 'm \<Rightarrow> 'w \<times> (h2_error + unit)"
  st_send_reset :: "'w \<Rightarrow> nat \<Rightarrow> nat \<Rightarrow> 'w"
  h2_error_of_reason :: "nat \<Rightarrow> h2_error"
  h2_error_text :: "h2_error \<Rightarrow> string"
  sr_poll_ready :: "'w \<Rightarrow> 'w \<times> (h2_error + unit) poll"
  sr_send_request :: "'w \<Rightarrow> 'm RequestHead \<Rightarrow> bool \<Rightarrow> 'w \<times> (h2_error + nat)"
  rf_poll :: "'w \<Rightarrow> nat \<Rightarrow> 'w \<times> (h2_error + 'm ResponseHead) poll"
  conn_eof_poll :: "'w \<Rightarrow> 'w \<times> bool"
  drop_ref_clone :: "'w \<Rightarrow> 'w"
  drop_ref_drop :: "'w \<Rightarrow> 'w"
  drop_rx_is_terminated :: "'w \<Rightarrow> bool"
  drop_rx_poll :: "'w \<Rightarrow> 'w \<times> bool"
  cancel_tx_drop :: "'w \<Rightarrow> 'w"
  h2c_poll :: "'w \<Rightarrow> 'w \<times> (h2_error + unit) poll"
  h2c_set_target_window_size :: "'w \<Rightarrow> nat \<Rightarrow> 'w"
  h2c_set_initial_window_size :: "'w \<Rightarrow> nat \<Rightarrow> 'w \<times> (h2_error + unit)"
  ping_is_idle :: "'w \<Rightarrow> bool"
  timer_fired :: "'w \<Rightarrow> nat \<Rightarrow> bool"
  ping_poll_pong :: "'w \<Rightarrow> pong"

datatype 'm stream_event =
    BodyGave (ev_stream: nat) "'m frame"
  | SentData (ev_stream: nat) bytes bool
  | SentTrailers (ev_stream: nat) 'm
  | SentReset (ev_stream: nat) nat

record ('w, 'm) stream_world =
  sw_outside :: 'w
  sw_log :: "'m stream_event list"

definition note_stream :: "'m stream_event \<Rightarrow> ('w, 'm) stream_world \<Rightarrow> ('w, 'm) stream_world" where
  "note_stream e w = w\<lparr>sw_log := sw_log w @ [e]\<rparr>"

text \<open>The calls of \<^verbatim>\<open>SendStream\<close> that send; a call that fails sends nothing.\<close>

definition send_data ::
  "('w, 'm, 'b, 'z) h2_env_scheme \<Rightarrow> nat \<Rightarrow> SendBuf \<Rightarrow> bool \<Rightarrow> ('w, 'm) stream_world \<Rightarrow> ('w, 'm) stream_world \<times> (h2_error + unit)" where
  "send_data E s buf end_of_stream w =
     (case st_send_data E (sw_outside w) s buf end_of_stream of
        (o', Inr _) \<Rightarrow> (note_stream (SentData s (sb_chunk buf) end_of_stream) (w\<lparr>sw_outside := o'\<rparr>), Inr ())
      | (o', Inl e) \<Rightarrow> (w\<lparr>sw_outside := o'\<rparr>, Inl e))"

definition send_trailers ::
  "('w, 'm, 'b, 'z) h2_env_scheme \<Rightarrow> nat \<Rightarrow> 'm \<Rightarrow> ('w, 'm) stream_world \<Rightarrow> ('w, 'm) stream_world \<times> (h2_error + unit)" where
  "send_trailers E s t w =
     (case st_send_trailers E (sw_outside w) s t of
        (o', Inr _) \<Rightarrow> (note_stream (SentTrailers s t) (w\<lparr>sw_outside := o'\<rparr>), Inr ())
      | (o', Inl e) \<Rightarrow> (w\<lparr>sw_outside := o'\<rparr>, Inl e))"

definition send_reset :: "('w, 'm, 'b, 'z) h2_env_scheme \<Rightarrow> nat \<Rightarrow> nat \<Rightarrow> ('w, 'm) stream_world \<Rightarrow> ('w, 'm) stream_world" where
  "send_reset E s reason w = note_stream (SentReset s reason) (w\<lparr>sw_outside := st_send_reset E (sw_outside w) s reason\<rparr>)"

definition body_write_error :: "h2_error + unit \<Rightarrow> core_error + unit" where
  "body_write_error r = map_sum (\<lambda>e. new_body_write (CauseH2 e)) id r"

definition on_user_err ::
  "('w, 'm, 'b, 'z) h2_env_scheme \<Rightarrow> nat \<Rightarrow> cause \<Rightarrow> ('w, 'm) stream_world \<Rightarrow> ('w, 'm) stream_world \<times> core_error" where
  "on_user_err E s err w = (let err = new_user_body err in (send_reset E s (h2_reason err) w, err))"

definition send_eos_frame ::
  "('w, 'm, 'b, 'z) h2_env_scheme \<Rightarrow> nat \<Rightarrow> ('w, 'm) stream_world \<Rightarrow> ('w, 'm) stream_world \<times> (core_error + unit)" where
  "send_eos_frame E s w = (case send_data E s SbNone True w of (w, r) \<Rightarrow> (w, body_write_error r))"

section \<open>Sending a body\<close>

record 'b PipeToSendStream =
  pipe_body_tx :: nat
  pipe_data_done :: bool
  pipe_stream :: 'b

definition pipe_new :: "'b \<Rightarrow> nat \<Rightarrow> 'b PipeToSendStream" where
  "pipe_new stream tx = \<lparr>pipe_body_tx = tx, pipe_data_done = False, pipe_stream = stream\<rparr>"

text \<open>The inner loop, waiting for room in the window of the stream.\<close>

definition capacity_round ::
  "('w, 'm, 'b, 'z) h2_env_scheme \<Rightarrow> nat \<Rightarrow> ('w, 'm) stream_world \<Rightarrow>
   (('w, 'm) stream_world \<times> (core_error + unit) poll option) option" where
  "capacity_round E s w =
     (case st_poll_capacity E (sw_outside w) s of
        (o', r) \<Rightarrow> Some (w\<lparr>sw_outside := o'\<rparr>,
          (case r of
             Pending \<Rightarrow> Some Pending
           | Ready (Some (Inr n)) \<Rightarrow> if n = 0 then None else Some (Ready (Inr ()))
           | Ready (Some (Inl e)) \<Rightarrow> Some (Ready (Inl (new_body_write (CauseH2 e))))
           | Ready None \<Rightarrow> Some (Ready (Inl (new_body_write (CauseText ''send stream capacity unexpectedly closed'')))))))"

text \<open>The first half of the loop: a reservation, and either room in the window or no reset.\<close>

definition pipe_ready ::
  "('w, 'm, 'b, 'z) h2_env_scheme \<Rightarrow> nat \<Rightarrow> ('w, 'm) stream_world \<Rightarrow>
   (('w, 'm) stream_world \<times> (core_error + unit) poll) option" where
  "pipe_ready E s w =
     (let w = w\<lparr>sw_outside := st_reserve_capacity E (sw_outside w) s 1\<rparr>
      in if st_capacity E (sw_outside w) s = 0 then run_loop (capacity_round E s) w
         else case st_poll_reset E (sw_outside w) s of
                (o', r) \<Rightarrow> Some (w\<lparr>sw_outside := o'\<rparr>,
                  (case r of
                     Pending \<Rightarrow> Ready (Inr ())
                   | Ready (Inr reason) \<Rightarrow> Ready (Inl (new_body_write (CauseH2 (h2_error_of_reason E reason))))
                   | Ready (Inl e) \<Rightarrow> Ready (Inl (new_body_write (CauseH2 e))))))"

text \<open>The second half: one frame of the body. An \<^verbatim>\<open>http_body::Frame\<close> holds data or trailers, so that there is no unknown
  frame to discard.\<close>

definition pipe_frame ::
  "('w, 'm, 'b, 'z) h2_env_scheme \<Rightarrow> ('w, 'm) stream_world \<Rightarrow> 'b PipeToSendStream \<Rightarrow>
   (('w, 'm) stream_world \<times> 'b PipeToSendStream) \<times> (core_error + unit) poll option" where
  "pipe_frame E w p =
     (case user_poll_frame E (sw_outside w) (pipe_stream p) of
        (o', b, r) \<Rightarrow>
          let w = w\<lparr>sw_outside := o'\<rparr>; p = p\<lparr>pipe_stream := b\<rparr>; s = pipe_body_tx p
          in case r of
               Pending \<Rightarrow> ((w, p), Some Pending)
             | Ready (Some (Inr (Data chunk))) \<Rightarrow>
                 (let w = note_stream (BodyGave s (Data chunk)) w;
                      is_eos = user_is_end_stream E (sw_outside w) b
                  in case send_data E s (SbBuf chunk) is_eos w of
                       (w, Inl e) \<Rightarrow> ((w, p), Some (Ready (Inl (new_body_write (CauseH2 e)))))
                     | (w, Inr _) \<Rightarrow> ((w, p), if is_eos then Some (Ready (Inr ())) else None))
             | Ready (Some (Inr (Trailers t))) \<Rightarrow>
                 (let w = note_stream (BodyGave s (Trailers t)) w;
                      w = w\<lparr>sw_outside := st_reserve_capacity E (sw_outside w) s 0\<rparr>
                  in case send_trailers E s t w of (w, r) \<Rightarrow> ((w, p), Some (Ready (body_write_error r))))
             | Ready (Some (Inl e)) \<Rightarrow> (case on_user_err E s e w of (w, err) \<Rightarrow> ((w, p), Some (Ready (Inl err))))
             | Ready None \<Rightarrow> (case send_eos_frame E s w of (w, r) \<Rightarrow> ((w, p), Some (Ready r))))"

definition pipe_round ::
  "('w, 'm, 'b, 'z) h2_env_scheme \<Rightarrow> ('w, 'm) stream_world \<times> 'b PipeToSendStream \<Rightarrow>
   ((('w, 'm) stream_world \<times> 'b PipeToSendStream) \<times> (core_error + unit) poll option) option" where
  "pipe_round E = (\<lambda>(w, p).
     case pipe_ready E (pipe_body_tx p) w of
       None \<Rightarrow> None
     | Some (w, Pending) \<Rightarrow> Some ((w, p), Some Pending)
     | Some (w, Ready (Inl e)) \<Rightarrow> Some ((w, p), Some (Ready (Inl e)))
     | Some (w, Ready (Inr _)) \<Rightarrow> Some (pipe_frame E w p))"

definition pipe_poll ::
  "('w, 'm, 'b, 'z) h2_env_scheme \<Rightarrow> ('w, 'm) stream_world \<Rightarrow> 'b PipeToSendStream \<Rightarrow>
   (('w, 'm) stream_world \<times> 'b PipeToSendStream \<times> (core_error + unit) poll) option" where
  "pipe_poll E w p = map_option (\<lambda>((w, p), r). (w, p, r)) (run_loop (pipe_round E) (w, p))"

section \<open>What a stream carries\<close>

text \<open>The right course of a stream: a frame of the body is sent before the next one is taken, the end is announced once, and
  nothing is sent after it; a body that fails resets the stream.\<close>

datatype 'm stream_phase = StOpen | StHolding "'m frame" | StEnded | StReset nat

fun stream_next :: "'m stream_phase \<Rightarrow> 'm stream_event \<Rightarrow> 'm stream_phase option" where
  "stream_next StOpen (BodyGave s f) = Some (StHolding f)"
| "stream_next StOpen (SentData s bs eos) = (if bs = [] \<and> eos then Some StEnded else None)"
| "stream_next StOpen (SentReset s r) = Some (StReset r)"
| "stream_next (StHolding f) (SentData s bs eos) = (if f = Data bs then Some (if eos then StEnded else StOpen) else None)"
| "stream_next (StHolding f) (SentTrailers s t) = (if f = Trailers t then Some StEnded else None)"
| "stream_next _ _ = None"

fun stream_run :: "'m stream_phase \<Rightarrow> 'm stream_event list \<Rightarrow> 'm stream_phase option" where
  "stream_run p [] = Some p"
| "stream_run p (e # es) = (case stream_next p e of None \<Rightarrow> None | Some p \<Rightarrow> stream_run p es)"

lemma stream_run_append:
  "stream_run p (xs @ ys) = (case stream_run p xs of None \<Rightarrow> None | Some q \<Rightarrow> stream_run q ys)"
  by (induction xs arbitrary: p) (auto split: option.splits)

definition on_stream :: "nat \<Rightarrow> 'm stream_event list \<Rightarrow> 'm stream_event list" where
  "on_stream s log = filter (\<lambda>e. ev_stream e = s) log"

lemma on_stream_simps [simp]:
  "on_stream s [] = []"
  "on_stream s (xs @ ys) = on_stream s xs @ on_stream s ys"
  "on_stream s (e # es) = (if ev_stream e = s then e # on_stream s es else on_stream s es)"
  by (simp_all add: on_stream_def)

definition stream_at :: "nat \<Rightarrow> ('w, 'm) stream_world \<Rightarrow> 'm stream_phase \<Rightarrow> bool" where
  "stream_at s w ph \<longleftrightarrow> stream_run StOpen (on_stream s (sw_log w)) = Some ph"

lemma stream_at_outside [simp]: "stream_at s (w\<lparr>sw_outside := x\<rparr>) ph = stream_at s w ph"
  by (simp add: stream_at_def)

lemma stream_at_note:
  "stream_at s w ph \<Longrightarrow> ev_stream e = s \<Longrightarrow> stream_next ph e = Some ph' \<Longrightarrow> stream_at s (note_stream e w) ph'"
  by (simp add: stream_at_def note_stream_def stream_run_append)

text \<open>Only the events of one stream are added.\<close>

definition only_on :: "nat \<Rightarrow> ('w, 'm) stream_world \<Rightarrow> ('w, 'm) stream_world \<Rightarrow> bool" where
  "only_on s w w' \<longleftrightarrow> (\<exists>es. sw_log w' = sw_log w @ es \<and> (\<forall>e\<in>set es. ev_stream e = s))"

lemma only_on_refl [simp]: "only_on s w (w\<lparr>sw_outside := x\<rparr>)" "only_on s w w"
  by (simp_all add: only_on_def)

lemma only_on_trans: "only_on s w w' \<Longrightarrow> only_on s w' w'' \<Longrightarrow> only_on s w w''"
  by (force simp: only_on_def)

lemma only_on_note: "only_on s w w' \<Longrightarrow> ev_stream e = s \<Longrightarrow> only_on s w (note_stream e w')"
  by (force simp: only_on_def note_stream_def)

lemma only_on_outside: "only_on s w w' \<Longrightarrow> only_on s w (w'\<lparr>sw_outside := x\<rparr>)"
  by (simp add: only_on_def)

lemma only_on_other: "only_on s w w' \<Longrightarrow> s' \<noteq> s \<Longrightarrow> on_stream s' (sw_log w') = on_stream s' (sw_log w)"
  by (auto simp: only_on_def on_stream_def intro: filter_False)

lemma send_data_course:
  assumes "send_data E s buf eos w = (w', r)"
  shows "only_on s w w' \<and> (case r of
           Inr _ \<Rightarrow> w' = note_stream (SentData s (sb_chunk buf) eos) (w\<lparr>sw_outside := sw_outside w'\<rparr>)
         | Inl _ \<Rightarrow> w' = w\<lparr>sw_outside := sw_outside w'\<rparr>)"
  using assms by (auto simp: send_data_def note_stream_def only_on_def split: prod.splits sum.splits)

text \<open>After a result of the pipe, the phase of its stream.\<close>

definition pipe_course :: "(core_error + unit) poll option \<Rightarrow> 'm stream_phase \<Rightarrow> bool" where
  "pipe_course r ph \<longleftrightarrow>
     (case r of
        None \<Rightarrow> ph = StOpen
      | Some Pending \<Rightarrow> ph = StOpen
      | Some (Ready (Inr _)) \<Rightarrow> ph = StEnded
      | Some (Ready (Inl e)) \<Rightarrow> if is_user e then ph = StReset (h2_reason e) else ph = StOpen \<or> (\<exists>f. ph = StHolding f))"

lemma not_user_body_write [simp]: "\<not> is_user (new_body_write c)"
  by (simp add: is_user_def new_body_write_def error_new_def)

lemma user_user_body [simp]: "is_user (new_user_body c)"
  by (simp add: is_user_def new_user_body_def new_user_def error_new_def)

lemma capacity_round_log: "capacity_round E s w = Some (w', r) \<Longrightarrow> sw_log w' = sw_log w"
  by (auto simp: capacity_round_def split: prod.splits)

text \<open>The last round of a loop starts in a state that satisfies the invariant.\<close>

lemma run_loop_result:
  fixes body :: "'s \<Rightarrow> ('s \<times> 'r option) option"
  assumes "run_loop body s = Some (s', r)" and "I s" and "\<And>s s'. I s \<Longrightarrow> body s = Some (s', None) \<Longrightarrow> I s'"
  shows "\<exists>s0. I s0 \<and> body s0 = Some (s', Some r)"
proof -
  let ?P = "\<lambda>b s y. b = body \<longrightarrow> I s \<longrightarrow> (\<exists>s0. I s0 \<and> body s0 = Some (fst y, Some (snd y)))"
  have "?P body s (s', r)"
  proof (rule run_loop.raw_induct [where P = ?P, rotated, OF assms(1)])
    fix f :: "('s \<Rightarrow> ('s \<times> 'r option) option) \<Rightarrow> 's \<Rightarrow> ('s \<times> 'r) option" and b s y
    assume ih: "\<And>b s y. f b s = Some y \<Longrightarrow> ?P b s y"
      and step: "(case b s of None \<Rightarrow> None | Some (s, None) \<Rightarrow> f b s | Some (s, Some r) \<Rightarrow> Some (s, r)) = Some y"
    show "?P b s y"
    proof (intro impI)
      assume b: "b = body" and "I s"
      from step obtain s1 o1 where s1: "body s = Some (s1, o1)" by (cases "b s") (auto simp: b)
      with assms(3) [of s s1] \<open>I s\<close> step b ih [of body s1 y] show "\<exists>s0. I s0 \<and> body s0 = Some (fst y, Some (snd y))"
        by (cases o1) auto
    qed
  qed
  with assms(2) show ?thesis by simp
qed

text \<open>A loop returns if a measure falls with every round that does not leave it.\<close>

lemma run_loop_returns:
  fixes m :: "'s \<Rightarrow> nat"
  assumes "I s" and "\<And>s. I s \<Longrightarrow> \<exists>s' r. body s = Some (s', r) \<and> (r = None \<longrightarrow> I s' \<and> m s' < m s)"
  shows "\<exists>y. run_loop body s = Some y"
  using assms(1)
proof (induction "m s" arbitrary: s rule: less_induct)
  case less
  from assms(2) [OF less.prems] obtain s' r where b: "body s = Some (s', r)" "r = None \<longrightarrow> I s' \<and> m s' < m s" by blast
  then show ?case using less.hyps [of s'] by (subst run_loop.simps) (cases r; auto)
qed

lemma pipe_ready_course:
  assumes "pipe_ready E s w = Some (w', r)"
  shows "sw_log w' = sw_log w \<and> (case r of Ready (Inl e) \<Rightarrow> \<not> is_user e | _ \<Rightarrow> True)"
proof (cases "st_capacity E (st_reserve_capacity E (sw_outside w) s 1) s = 0")
  case True
  let ?w = "w\<lparr>sw_outside := st_reserve_capacity E (sw_outside w) s 1\<rparr>"
  from True assms have "run_loop (capacity_round E s) ?w = Some (w', r)" by (simp add: pipe_ready_def)
  then have "\<exists>w0. sw_log w0 = sw_log w \<and> capacity_round E s w0 = Some (w', Some r)"
    by (rule run_loop_result) (simp, metis capacity_round_log)
  then obtain w0 where "sw_log w0 = sw_log w" "capacity_round E s w0 = Some (w', Some r)" by blast
  then show ?thesis
    by (auto simp: capacity_round_def split: prod.splits poll.splits option.splits sum.splits if_splits)
next
  case False
  with assms show ?thesis
    by (auto simp: pipe_ready_def Let_def split: prod.splits poll.splits sum.splits)
qed

lemma stream_at_log: "sw_log w' = sw_log w \<Longrightarrow> stream_at s w' ph = stream_at s w ph"
  by (simp add: stream_at_def)

text \<open>Sending what the stream is waiting for.\<close>

lemma send_data_at:
  assumes "send_data E s buf eos w = (w', r)" and "stream_at s w ph" and "stream_next ph (SentData s (sb_chunk buf) eos) = Some ph'"
  shows "only_on s w w' \<and> stream_at s w' (if r = Inr () then ph' else ph)"
proof (cases r)
  case (Inl e)
  then have "w' = w\<lparr>sw_outside := sw_outside w'\<rparr>" using send_data_course [OF assms(1)] by simp
  with assms(2) Inl send_data_course [OF assms(1)] show ?thesis by (metis Inr_Inl_False stream_at_outside)
next
  case (Inr u)
  then have w': "w' = note_stream (SentData s (sb_chunk buf) eos) (w\<lparr>sw_outside := sw_outside w'\<rparr>)"
    using send_data_course [OF assms(1)] by simp
  have "stream_at s (note_stream (SentData s (sb_chunk buf) eos) (w\<lparr>sw_outside := sw_outside w'\<rparr>)) ph'"
    by (rule stream_at_note [of _ _ ph]) (simp_all add: assms)
  with w' Inr send_data_course [OF assms(1)] show ?thesis by simp
qed

lemma send_trailers_at:
  assumes "send_trailers E s t w = (w', r)" and "stream_at s w (StHolding (Trailers t))"
  shows "only_on s w w' \<and> stream_at s w' (if r = Inr () then StEnded else StHolding (Trailers t))"
proof -
  have "stream_at s (note_stream (SentTrailers s t) (w\<lparr>sw_outside := x\<rparr>)) StEnded" for x
    by (rule stream_at_note [of _ _ "StHolding (Trailers t)"]) (simp_all add: assms(2))
  with assms show ?thesis by (auto simp: send_trailers_def only_on_note split: prod.splits sum.splits)
qed

lemma body_write_error_cases: "body_write_error r = (case r of Inl e \<Rightarrow> Inl (new_body_write (CauseH2 e)) | Inr _ \<Rightarrow> Inr ())"
  by (cases r) (simp_all add: body_write_error_def)

lemma pipe_frame_course:
  assumes "pipe_frame E w p = ((w', p'), r)" and at: "stream_at (pipe_body_tx p) w StOpen"
  shows "pipe_body_tx p' = pipe_body_tx p \<and> only_on (pipe_body_tx p) w w' \<and> (\<exists>ph. stream_at (pipe_body_tx p) w' ph \<and> pipe_course r ph)"
proof -
  let ?s = "pipe_body_tx p"
  obtain o' b a where u: "user_poll_frame E (sw_outside w) (pipe_stream p) = (o', b, a)" by (rule prod_cases3)
  let ?w = "w\<lparr>sw_outside := o'\<rparr>"
  consider (pending) "a = Pending" | (data) chunk where "a = Ready (Some (Inr (Data chunk)))"
    | (trailers) t where "a = Ready (Some (Inr (Trailers t)))" | (err) e where "a = Ready (Some (Inl e))" | (finished) "a = Ready None"
    by (metis frame.exhaust option.exhaust poll.exhaust sum.exhaust)
  then show ?thesis
  proof cases
    case pending
    with assms u show ?thesis by (auto simp: pipe_frame_def pipe_course_def)
  next
    case data
    let ?w1 = "note_stream (BodyGave ?s (Data chunk)) ?w"
    let ?eos = "user_is_end_stream E (sw_outside ?w1) b"
    obtain w2 r2 where s2: "send_data E ?s (SbBuf chunk) ?eos ?w1 = (w2, r2)" by (rule prod.exhaust)
    have w1: "stream_at ?s ?w1 (StHolding (Data chunk))" by (rule stream_at_note [of _ _ StOpen]) (simp_all add: at)
    have o1: "only_on ?s w ?w1" by (rule only_on_note) simp_all
    from send_data_at [OF s2 w1] have w2: "only_on ?s w w2" "stream_at ?s w2 (if r2 = Inr () then (if ?eos then StEnded else StOpen) else StHolding (Data chunk))"
      using only_on_trans [OF o1] by simp_all
    from assms(1) data u s2 have "w' = w2" "pipe_body_tx p' = ?s"
      "r = (case r2 of Inl e \<Rightarrow> Some (Ready (Inl (new_body_write (CauseH2 e)))) | Inr _ \<Rightarrow> if ?eos then Some (Ready (Inr ())) else None)"
      by (auto simp: pipe_frame_def Let_def split: sum.splits)
    then show ?thesis using w2 by (auto simp: pipe_course_def split: sum.splits)
  next
    case trailers
    let ?w1 = "note_stream (BodyGave ?s (Trailers t)) ?w"
    let ?w1' = "?w1\<lparr>sw_outside := st_reserve_capacity E (sw_outside ?w1) ?s 0\<rparr>"
    obtain w2 r2 where s2: "send_trailers E ?s t ?w1' = (w2, r2)" by (rule prod.exhaust)
    have "stream_at ?s ?w1 (StHolding (Trailers t))" by (rule stream_at_note [of _ _ StOpen]) (simp_all add: at)
    then have w1: "stream_at ?s ?w1' (StHolding (Trailers t))" by simp
    have o1: "only_on ?s w ?w1'" by (rule only_on_outside, rule only_on_note) simp_all
    from send_trailers_at [OF s2 w1] have w2: "only_on ?s w w2" "stream_at ?s w2 (if r2 = Inr () then StEnded else StHolding (Trailers t))"
      using only_on_trans [OF o1] by simp_all
    from assms(1) trailers u s2 have "w' = w2" "pipe_body_tx p' = ?s" "r = Some (Ready (body_write_error r2))"
      by (auto simp: pipe_frame_def Let_def)
    then show ?thesis using w2 by (auto simp: pipe_course_def body_write_error_cases split: sum.splits)
  next
    case err
    let ?w1 = "send_reset E ?s (h2_reason (new_user_body e)) ?w"
    have w1: "stream_at ?s ?w1 (StReset (h2_reason (new_user_body e)))" unfolding send_reset_def by (rule stream_at_note [of _ _ StOpen]) (simp_all add: at)
    have "only_on ?s w ?w1" unfolding send_reset_def by (rule only_on_note) simp_all
    moreover from assms(1) err u have "w' = ?w1" "pipe_body_tx p' = ?s" "r = Some (Ready (Inl (new_user_body e)))"
      by (auto simp: pipe_frame_def on_user_err_def Let_def)
    ultimately show ?thesis using w1 by (auto simp: pipe_course_def)
  next
    case finished
    obtain w2 r2 where s2: "send_data E ?s SbNone True ?w = (w2, r2)" by (rule prod.exhaust)
    from send_data_at [OF s2, of StOpen StEnded] have w2: "only_on ?s ?w w2" "stream_at ?s w2 (if r2 = Inr () then StEnded else StOpen)"
      using at by simp_all
    from w2(1) have "only_on ?s w w2" by (rule only_on_trans [rotated]) simp
    moreover from assms(1) finished u s2 have "w' = w2" "pipe_body_tx p' = ?s" "r = Some (Ready (body_write_error r2))"
      by (auto simp: pipe_frame_def send_eos_frame_def Let_def)
    ultimately show ?thesis using w2 by (auto simp: pipe_course_def body_write_error_cases split: sum.splits)
  qed
qed

lemma pipe_round_course:
  assumes "pipe_round E (w, p) = Some ((w', p'), r)" and "stream_at (pipe_body_tx p) w StOpen"
  shows "pipe_body_tx p' = pipe_body_tx p \<and> only_on (pipe_body_tx p) w w' \<and> (\<exists>ph. stream_at (pipe_body_tx p) w' ph \<and> pipe_course r ph)"
proof -
  from assms(1) obtain w1 r1 where pr: "pipe_ready E (pipe_body_tx p) w = Some (w1, r1)"
    by (cases "pipe_ready E (pipe_body_tx p) w") (auto simp: pipe_round_def)
  from pipe_ready_course [OF pr] have log: "sw_log w1 = sw_log w" and user: "\<And>e. r1 = Ready (Inl e) \<Longrightarrow> \<not> is_user e" by auto
  from log assms(2) have at: "stream_at (pipe_body_tx p) w1 StOpen" by (simp add: stream_at_def)
  from log have o1: "only_on (pipe_body_tx p) w w1" by (simp add: only_on_def)
  show ?thesis
  proof (cases "\<exists>u. r1 = Ready (Inr u)")
    case True
    with assms(1) pr have "pipe_frame E w1 p = ((w', p'), r)" by (auto simp: pipe_round_def)
    from pipe_frame_course [OF this at] only_on_trans [OF o1] show ?thesis by blast
  next
    case False
    with assms(1) pr have "w' = w1" "p' = p" "r = Some r1" "r1 = Pending \<or> (\<exists>e. r1 = Ready (Inl e))"
      by (auto simp: pipe_round_def split: poll.splits sum.splits)
    with o1 at user show ?thesis by (auto simp: pipe_course_def)
  qed
qed

text \<open>A poll of the pipe leaves its stream where its result says, and touches no other.\<close>

lemma pipe_poll_course:
  assumes "pipe_poll E w p = Some (w', p', r)" and "stream_at (pipe_body_tx p) w StOpen"
  shows "pipe_body_tx p' = pipe_body_tx p \<and> only_on (pipe_body_tx p) w w' \<and> (\<exists>ph. stream_at (pipe_body_tx p) w' ph \<and> pipe_course (Some r) ph)"
proof -
  let ?I = "\<lambda>s. pipe_body_tx (snd s) = pipe_body_tx p \<and> only_on (pipe_body_tx p) w (fst s) \<and> stream_at (pipe_body_tx p) (fst s) StOpen"
  have round: "pipe_body_tx (snd s') = pipe_body_tx p \<and> only_on (pipe_body_tx p) w (fst s') \<and>
      (\<exists>ph. stream_at (pipe_body_tx p) (fst s') ph \<and> pipe_course q ph)"
    if "?I s" and "pipe_round E s = Some (s', q)" for s s' q
  proof -
    from that(2) have "pipe_round E (fst s, snd s) = Some ((fst s', snd s'), q)" by simp
    from pipe_round_course [OF this] that(1) only_on_trans [of "pipe_body_tx p" w "fst s" "fst s'"] show ?thesis by metis
  qed
  from assms(1) have "run_loop (pipe_round E) (w, p) = Some ((w', p'), r)" by (auto simp: pipe_poll_def)
  then have "\<exists>s0. ?I s0 \<and> pipe_round E s0 = Some ((w', p'), Some r)"
  proof (rule run_loop_result)
    show "?I s'" if "?I s" and "pipe_round E s = Some (s', None)" for s s'
      using round [OF that] unfolding pipe_course_def by auto
  qed (use assms(2) in simp)
  then obtain s0 where "?I s0" "pipe_round E s0 = Some ((w', p'), Some r)" by blast
  from round [OF this] show ?thesis by simp
qed

section \<open>The whole life of a pipe\<close>

text \<open>A pipe is polled until it is ready; between two polls anything may happen but to its own stream.\<close>

inductive pipe_run ::
  "('w, 'm, 'b, 'z) h2_env_scheme \<Rightarrow> 'b \<Rightarrow> nat \<Rightarrow> ('w, 'm) stream_world \<Rightarrow> 'b PipeToSendStream \<Rightarrow> (core_error + unit) poll \<Rightarrow> bool"
  for E :: "('w, 'm, 'b, 'z) h2_env_scheme" and b :: 'b and s :: nat where
  pipe_start: "on_stream s (sw_log w) = [] \<Longrightarrow> pipe_run E b s w (pipe_new b s) Pending"
| pipe_step: "pipe_run E b s w p Pending \<Longrightarrow> on_stream s (sw_log w1) = on_stream s (sw_log w) \<Longrightarrow>
    pipe_poll E w1 p = Some (w2, p2, r) \<Longrightarrow> pipe_run E b s w2 p2 r"

lemma pipe_run_course:
  assumes "pipe_run E b s w p r"
  shows "pipe_body_tx p = s \<and> (\<exists>ph. stream_at s w ph \<and> pipe_course (Some r) ph)"
  using assms
proof induction
  case (pipe_start w)
  then show ?case by (auto simp: pipe_new_def stream_at_def pipe_course_def)
next
  case (pipe_step w p w1 w2 p2 r)
  then have "stream_at (pipe_body_tx p) w1 StOpen" by (auto simp: pipe_course_def stream_at_def)
  from pipe_poll_course [OF pipe_step.hyps(3) this] pipe_step.IH show ?case by simp
qed

text \<open>What a list of events says about the body and about the stream.\<close>

definition given_bytes :: "'m stream_event list \<Rightarrow> bytes" where
  "given_bytes log = concat (map (\<lambda>e. case e of BodyGave _ (Data bs) \<Rightarrow> bs | _ \<Rightarrow> []) log)"

definition given_trailers :: "'m stream_event list \<Rightarrow> 'm list" where
  "given_trailers log = concat (map (\<lambda>e. case e of BodyGave _ (Trailers t) \<Rightarrow> [t] | _ \<Rightarrow> []) log)"

definition sent_bytes :: "'m stream_event list \<Rightarrow> bytes" where
  "sent_bytes log = concat (map (\<lambda>e. case e of SentData _ bs _ \<Rightarrow> bs | _ \<Rightarrow> []) log)"

definition sent_trailers :: "'m stream_event list \<Rightarrow> 'm list" where
  "sent_trailers log = concat (map (\<lambda>e. case e of SentTrailers _ t \<Rightarrow> [t] | _ \<Rightarrow> []) log)"

definition sent_resets :: "'m stream_event list \<Rightarrow> nat list" where
  "sent_resets log = concat (map (\<lambda>e. case e of SentReset _ r \<Rightarrow> [r] | _ \<Rightarrow> []) log)"

definition is_stream_end :: "'m stream_event \<Rightarrow> bool" where
  "is_stream_end e \<longleftrightarrow> (case e of SentData _ _ eos \<Rightarrow> eos | SentTrailers _ _ \<Rightarrow> True | _ \<Rightarrow> False)"

definition no_stream_end :: "'m stream_event list \<Rightarrow> bool" where
  "no_stream_end log = list_all (\<lambda>e. \<not> is_stream_end e) log"

lemmas stream_content = given_bytes_def given_trailers_def sent_bytes_def sent_trailers_def sent_resets_def
  is_stream_end_def no_stream_end_def

lemma stream_content_snoc:
  "given_bytes (log @ [e]) = given_bytes log @ (case e of BodyGave _ (Data bs) \<Rightarrow> bs | _ \<Rightarrow> [])"
  "given_trailers (log @ [e]) = given_trailers log @ (case e of BodyGave _ (Trailers t) \<Rightarrow> [t] | _ \<Rightarrow> [])"
  "sent_bytes (log @ [e]) = sent_bytes log @ (case e of SentData _ bs _ \<Rightarrow> bs | _ \<Rightarrow> [])"
  "sent_trailers (log @ [e]) = sent_trailers log @ (case e of SentTrailers _ t \<Rightarrow> [t] | _ \<Rightarrow> [])"
  "sent_resets (log @ [e]) = sent_resets log @ (case e of SentReset _ r \<Rightarrow> [r] | _ \<Rightarrow> [])"
  "no_stream_end (log @ [e]) \<longleftrightarrow> no_stream_end log \<and> \<not> is_stream_end e"
  by (simp_all add: stream_content)

lemma stream_run_content:
  assumes "stream_run StOpen log = Some ph"
  shows "case ph of
           StOpen \<Rightarrow> sent_bytes log = given_bytes log \<and> given_trailers log = [] \<and> sent_trailers log = [] \<and> no_stream_end log \<and> sent_resets log = []
         | StHolding f \<Rightarrow> (case f of Data bs \<Rightarrow> given_bytes log = sent_bytes log @ bs \<and> given_trailers log = []
                              | Trailers t \<Rightarrow> given_bytes log = sent_bytes log \<and> given_trailers log = [t]) \<and>
             sent_trailers log = [] \<and> no_stream_end log \<and> sent_resets log = []
         | StEnded \<Rightarrow> sent_bytes log = given_bytes log \<and> sent_trailers log = given_trailers log \<and>
             no_stream_end (butlast log) \<and> log \<noteq> [] \<and> is_stream_end (last log) \<and> sent_resets log = []
         | StReset r \<Rightarrow> sent_bytes log = given_bytes log \<and> no_stream_end log \<and> sent_resets log = [r]"
  using assms
proof (induction log arbitrary: ph rule: rev_induct)
  case Nil
  then show ?case by (auto simp: stream_content)
next
  case (snoc e log)
  from snoc.prems obtain q where q: "stream_run StOpen log = Some q" and e: "stream_next q e = Some ph"
    by (auto simp: stream_run_append split: option.splits)
  from snoc.IH [OF q] e show ?case
    by (cases "(q, e)" rule: stream_next.cases) (auto simp: stream_content_snoc is_stream_end_def split: if_splits frame.splits)
qed

section \<open>Streams as transports\<close>

text \<open>\<^verbatim>\<open>H2Upgraded\<close>, with the operations of \<^verbatim>\<open>UpgradedSendStream\<close>, which only forward to the stream. The capacity left in the buffer of the reader is
  an argument and the bytes put into it a result.\<close>

record H2Upgraded =
  up_ping :: Recorder
  up_send_stream :: nat
  up_recv_stream :: nat
  up_buf :: bytes

definition h2_to_io_error :: "('w, 'm, 'b, 'z) h2_env_scheme \<Rightarrow> h2_error \<Rightarrow> io_error" where
  "h2_to_io_error E e = (case h2e_io e of Some io \<Rightarrow> io | None \<Rightarrow> IoError OtherKind (h2_error_text E e))"

definition upgraded_write ::
  "('w, 'm, 'b, 'z) h2_env_scheme \<Rightarrow> ('w, 'm) stream_world \<Rightarrow> nat \<Rightarrow> bytes \<Rightarrow> bool \<Rightarrow> ('w, 'm) stream_world \<times> (io_error + unit)" where
  "upgraded_write E w s buf end_of_stream =
     (case send_data E s (SbCursor buf 0) end_of_stream w of (w, r) \<Rightarrow> (w, map_sum (h2_to_io_error E) id r))"

text \<open>The loop that fetches data; an empty frame is skipped unless it is the last.\<close>

definition upgraded_data_round ::
  "('w, 'm, 'b, 'z) h2_env_scheme \<Rightarrow> H2Upgraded \<Rightarrow> 'w \<Rightarrow> ('w \<times> (io_error option + bytes) poll option) option" where
  "upgraded_data_round E u w =
     (case h2_poll_data E w (up_recv_stream u) of
        (w, Pending) \<Rightarrow> Some (w, Some Pending)
      | (w, Ready None) \<Rightarrow> Some (w, Some (Ready (Inl None)))
      | (w, Ready (Some (Inr buf))) \<Rightarrow>
          if buf = [] \<and> \<not> h2_is_end_stream E w (up_recv_stream u) then Some (w, None)
          else Some (recorder_data E (up_ping u) (length buf) w, Some (Ready (Inr buf)))
      | (w, Ready (Some (Inl e))) \<Rightarrow>
          Some (w, Some (Ready (Inl
            (if h2e_reason e = Some NO_ERROR \<or> h2e_reason e = Some CANCEL then None
             else if h2e_reason e = Some STREAM_CLOSED then Some (IoError BrokenPipe (h2_error_text E e))
             else Some (h2_to_io_error E e))))))"

definition upgraded_take ::
  "('w, 'm, 'b, 'z) h2_env_scheme \<Rightarrow> 'w \<Rightarrow> H2Upgraded \<Rightarrow> nat \<Rightarrow> 'w \<times> H2Upgraded \<times> bytes" where
  "upgraded_take E w u remaining =
     (let cnt = min (length (up_buf u)) remaining
      in (h2_release_capacity E w (up_recv_stream u) cnt, u\<lparr>up_buf := drop cnt (up_buf u)\<rparr>, take cnt (up_buf u)))"

definition upgraded_poll_read ::
  "('w, 'm, 'b, 'z) h2_env_scheme \<Rightarrow> 'w \<Rightarrow> H2Upgraded \<Rightarrow> nat \<Rightarrow> ('w \<times> H2Upgraded \<times> bytes \<times> (io_error + unit) poll) option" where
  "upgraded_poll_read E w u remaining =
     (if up_buf u = []
      then (case run_loop (upgraded_data_round E u) w of
              None \<Rightarrow> None
            | Some (w, Pending) \<Rightarrow> Some (w, u, [], Pending)
            | Some (w, Ready (Inl None)) \<Rightarrow> Some (w, u, [], Ready (Inr ()))
            | Some (w, Ready (Inl (Some e))) \<Rightarrow> Some (w, u, [], Ready (Inl e))
            | Some (w, Ready (Inr buf)) \<Rightarrow>
                (case upgraded_take E w (u\<lparr>up_buf := buf\<rparr>) remaining of (w, u, out) \<Rightarrow> Some (w, u, out, Ready (Inr ()))))
      else case upgraded_take E w u remaining of (w, u, out) \<Rightarrow> Some (w, u, out, Ready (Inr ())))"

text \<open>\<^verbatim>\<open>poll_write\<close>: the slice \<^verbatim>\<open>&buf[..cnt]\<close> panics if there is more capacity than bytes; an error of the kind
  \<^verbatim>\<open>BrokenPipe\<close> alone has no message.\<close>

definition upgraded_poll_write ::
  "('w, 'm, 'b, 'z) h2_env_scheme \<Rightarrow> ('w, 'm) stream_world \<Rightarrow> H2Upgraded \<Rightarrow> bytes \<Rightarrow>
   (('w, 'm) stream_world \<times> (io_error + nat) poll) option" where
  "upgraded_poll_write E w u buf =
     (if buf = [] then Some (w, Ready (Inr 0))
      else
        let s = up_send_stream u;
            w = w\<lparr>sw_outside := st_reserve_capacity E (sw_outside w) s (length buf)\<rparr>;
            reset = (\<lambda>w. case st_poll_reset E (sw_outside w) s of
              (o', r) \<Rightarrow> Some (w\<lparr>sw_outside := o'\<rparr>,
                (case r of
                   Pending \<Rightarrow> Pending
                 | Ready (Inr reason) \<Rightarrow>
                     Ready (Inl (if reason \<in> {NO_ERROR, CANCEL, STREAM_CLOSED} then IoError BrokenPipe []
                                 else h2_to_io_error E (h2_error_of_reason E reason)))
                 | Ready (Inl e) \<Rightarrow> Ready (Inl (h2_to_io_error E e)))))
        in case st_poll_capacity E (sw_outside w) s of
             (o', Pending) \<Rightarrow> Some (w\<lparr>sw_outside := o'\<rparr>, Pending)
           | (o', Ready None) \<Rightarrow> Some (w\<lparr>sw_outside := o'\<rparr>, Ready (Inr 0))
           | (o', Ready (Some (Inl e))) \<Rightarrow> reset (w\<lparr>sw_outside := o'\<rparr>)
           | (o', Ready (Some (Inr cnt))) \<Rightarrow>
               if length buf < cnt then None
               else (case upgraded_write E (w\<lparr>sw_outside := o'\<rparr>) s (take cnt buf) False of
                       (w, Inr _) \<Rightarrow> Some (w, Ready (Inr cnt))
                     | (w, Inl _) \<Rightarrow> reset w))"

definition upgraded_poll_flush :: "(io_error + unit) poll" where
  "upgraded_poll_flush = Ready (Inr ())"

definition upgraded_poll_shutdown ::
  "('w, 'm, 'b, 'z) h2_env_scheme \<Rightarrow> ('w, 'm) stream_world \<Rightarrow> H2Upgraded \<Rightarrow> ('w, 'm) stream_world \<times> (io_error + unit) poll" where
  "upgraded_poll_shutdown E w u =
     (case upgraded_write E w (up_send_stream u) [] True of
        (w, Inr _) \<Rightarrow> (w, Ready (Inr ()))
      | (w, Inl _) \<Rightarrow>
          (case st_poll_reset E (sw_outside w) (up_send_stream u) of
             (o', r) \<Rightarrow> (w\<lparr>sw_outside := o'\<rparr>,
               (case r of
                  Pending \<Rightarrow> Pending
                | Ready (Inr reason) \<Rightarrow>
                    if reason = NO_ERROR then Ready (Inr ())
                    else Ready (Inl (if reason \<in> {CANCEL, STREAM_CLOSED} then IoError BrokenPipe []
                                     else h2_to_io_error E (h2_error_of_reason E reason)))
                | Ready (Inl e) \<Rightarrow> Ready (Inl (h2_to_io_error E e))))))"

text \<open>The bytes read from an upgraded stream are those it received, in their order: what a read puts out and what it keeps make up what was
  kept before or has come in, nothing more than there is room for is put out, and the window of the stream is opened for what was put out.\<close>

lemma upgraded_take_order:
  "upgraded_take E w u n = (w', u', out) \<Longrightarrow>
   out @ up_buf u' = up_buf u \<and> length out = min (length (up_buf u)) n \<and> w' = h2_release_capacity E w (up_recv_stream u) (length out)"
  by (auto simp: upgraded_take_def Let_def)

lemma upgraded_poll_read_order:
  assumes "upgraded_poll_read E w u n = Some (w', u', out, r)"
  shows "length out \<le> n \<and> (if up_buf u \<noteq> [] then out @ up_buf u' = up_buf u \<and> r = Ready (Inr ())
         else out @ up_buf u' = [] \<or> (\<exists>w0 w1. run_loop (upgraded_data_round E u) w0 = Some (w1, Ready (Inr (out @ up_buf u'))) \<and> r = Ready (Inr ())))"
proof (cases "up_buf u = []")
  case False
  obtain w1 u1 out1 where t: "upgraded_take E w u n = (w1, u1, out1)" by (rule prod_cases3)
  with False assms upgraded_take_order [OF t] show ?thesis by (auto simp: upgraded_poll_read_def)
next
  case True
  with assms obtain w1 r1 where l: "run_loop (upgraded_data_round E u) w = Some (w1, r1)"
    by (cases "run_loop (upgraded_data_round E u) w") (auto simp: upgraded_poll_read_def)
  show ?thesis
  proof (cases "\<exists>buf. r1 = Ready (Inr buf)")
    case True
    then obtain buf where b: "r1 = Ready (Inr buf)" by blast
    obtain w2 u2 out2 where t: "upgraded_take E w1 (u\<lparr>up_buf := buf\<rparr>) n = (w2, u2, out2)" by (rule prod_cases3)
    with \<open>up_buf u = []\<close> assms l b upgraded_take_order [OF t] show ?thesis by (auto simp: upgraded_poll_read_def)
  next
    case False
    with \<open>up_buf u = []\<close> assms l show ?thesis
      by (auto simp: upgraded_poll_read_def split: poll.splits sum.splits option.splits)
  qed
qed

text \<open>A write reports as written exactly what it has handed to the stream, a prefix of what it was given.\<close>

lemma upgraded_poll_write_sent:
  assumes "upgraded_poll_write E w u buf = Some (w', Ready (Inr n))"
  shows "sw_log w' = sw_log w \<and> n = 0 \<or> n \<le> length buf \<and> sw_log w' = sw_log w @ [SentData (up_send_stream u) (take n buf) False]"
  using assms
  by (auto simp: upgraded_poll_write_def upgraded_write_def send_data_def note_stream_def Let_def
      split: if_splits prod.splits poll.splits option.splits sum.splits)

section \<open>A world to run in\<close>

text \<open>For examples: requests wait in a queue, bodies are lists of frames, streams take everything, and every response is a \<^verbatim>\<open>200\<close>.\<close>

type_synonym h2_queue = "(assoc_map, assoc_map frame list) h1_request Envelope list"

definition ok_head :: "assoc_map ResponseHead" where
  "ok_head = \<lparr>mh_version = HTTP_2, mh_subject = 200, mh_headers = [(''content-length'', ''2'')], mh_case_map = None, mh_reason = None\<rparr>"

definition h2_queue_env :: "(h2_queue, assoc_map, assoc_map frame list) h2_env" where
  "h2_queue_env = \<lparr>
     data_channel = (\<lambda>q. (0, q)), data_poll_ready = (\<lambda>q _. (q, Ready (Inr ()))), data_try_send = (\<lambda>q _ _. (q, None)),
     data_clone_tx = (\<lambda>q k. (k, q)), data_drop_tx = (\<lambda>q _. q), data_is_terminated = (\<lambda>_ _. False),
     data_poll_next = (\<lambda>q _. (q, Ready None)),
     trailers_channel = (\<lambda>q. (0, q)), trailers_send = (\<lambda>q _ _. (q, None)), trailers_drop_tx = (\<lambda>q _. q),
     trailers_poll = (\<lambda>q _. (q, Pending)),
     cell_new = (\<lambda>q _. (0, q)), cell_load = (\<lambda>q _. (q, 2)), cell_swap = (\<lambda>q _ _. (q, 2)), cell_wake = (\<lambda>q _. q),
     h2_poll_data = (\<lambda>q _. (q, Ready (Some (Inr ''hi'')))), h2_release_capacity = (\<lambda>q _ _. q), h2_poll_trailers = (\<lambda>q _. (q, Pending)),
     h2_is_end_stream = (\<lambda>_ _. False), clock_now = (\<lambda>_. 0), ping_pong_ok = (\<lambda>_. True),
     ping_shared = (\<lambda>_. \<lparr>ping_sent_at = None, sh_bytes = None, next_bdp_at = None, sh_last_read_at = None, is_keep_alive_timed_out = False\<rparr>),
     ping_set_shared = (\<lambda>q _. q),
     requests = \<lparr>
       mpsc_send = (\<lambda>q e. (q @ [e], None)),
       mpsc_poll_recv = (\<lambda>q. case q of [] \<Rightarrow> ([], Pending) | e # q \<Rightarrow> (q, Ready (Some e))),
       mpsc_close = id, mpsc_drop_rx = (\<lambda>q. ([], q)),
       giver_poll_want = (\<lambda>q. (q, Pending)), giver_is_wanting = (\<lambda>_. False), giver_give = (\<lambda>q. (q, False)),
       giver_is_canceled = (\<lambda>_. False), taker_want = id, taker_cancel = id,
       promise_channel = (\<lambda>q. (length q, q)), promise_is_closed = (\<lambda>_ _. False), promise_poll_closed = (\<lambda>q _. (q, False)),
       promise_send = (\<lambda>q _ _. q), thread_panicking = (\<lambda>_. False)\<rparr>,
     user_poll_frame = (\<lambda>q b. case b of [] \<Rightarrow> (q, [], Ready None) | f # fs \<Rightarrow> (q, fs, Ready (Some (Inr f)))),
     user_is_end_stream = (\<lambda>_ b. b = []), user_size_exact = (\<lambda>_ b. case b of [] \<Rightarrow> Some 0 | _ \<Rightarrow> None),
     st_reserve_capacity = (\<lambda>q _ _. q), st_capacity = (\<lambda>_ _. 10), st_poll_capacity = (\<lambda>q _. (q, Ready (Some (Inr 10)))),
     st_poll_reset = (\<lambda>q _. (q, Pending)), st_send_data = (\<lambda>q _ _ _. (q, Inr ())), st_send_trailers = (\<lambda>q _ _. (q, Inr ())),
     st_send_reset = (\<lambda>q _ _. q),
     h2_error_of_reason = (\<lambda>r. \<lparr>h2_is_go_away = False, h2_is_remote = False, h2_is_reset = True, h2e_reason = Some r, h2e_io = None\<rparr>),
     h2_error_text = (\<lambda>_. ''http2 error''),
     sr_poll_ready = (\<lambda>q. (q, Ready (Inr ()))), sr_send_request = (\<lambda>q _ _. (q, Inr (length q))),
     rf_poll = (\<lambda>q _. (q, Ready (Inr ok_head))), conn_eof_poll = (\<lambda>q. (q, False)),
     drop_ref_clone = id, drop_ref_drop = id, drop_rx_is_terminated = (\<lambda>_. False), drop_rx_poll = (\<lambda>q. (q, False)), cancel_tx_drop = id,
     h2c_poll = (\<lambda>q. (q, Pending)), h2c_set_target_window_size = (\<lambda>q _. q), h2c_set_initial_window_size = (\<lambda>q _. (q, Inr ())),
     ping_is_idle = (\<lambda>_. False), timer_fired = (\<lambda>_ _. False), ping_poll_pong = (\<lambda>_. PongPending)\<rparr>"

definition small_body :: "assoc_map frame list" where
  "small_body = [Data ''ab'', Data ''c'', Trailers [(''etag'', ''x'')]]"

section \<open>A poll returns\<close>

text \<open>The loops of a poll depend on the body and on the stream. What they need is a bound on what is left to do: every frame the body gives
  takes from it, so does every report that the window has no room, and nothing adds to it.\<close>

locale ending_body =
  fixes E :: "('w, 'm, 'b, 'z) h2_env_scheme" and todo :: "'w \<Rightarrow> 'b \<Rightarrow> nat"
  assumes reserve_todo: "todo (st_reserve_capacity E w s n) b \<le> todo w b"
    and capacity_todo: "st_poll_capacity E w s = (w', r) \<Longrightarrow>
      todo w' b \<le> todo w b \<and> (r = Ready (Some (Inr 0)) \<longrightarrow> todo w' b < todo w b)"
    and reset_todo: "st_poll_reset E w s = (w', r') \<Longrightarrow> todo w' b \<le> todo w b"
    and frame_todo: "user_poll_frame E w b = (w', b', Ready (Some (Inr f))) \<Longrightarrow> todo w' b' < todo w b"
    and data_todo: "st_send_data E w s buf eos = (w', r'') \<Longrightarrow> todo w' b \<le> todo w b"
begin

lemma capacity_round_todo:
  assumes "capacity_round E s w = Some (w', r)"
  shows "todo (sw_outside w') b \<le> todo (sw_outside w) b \<and> (r = None \<longrightarrow> todo (sw_outside w') b < todo (sw_outside w) b)"
proof -
  obtain o' a where c: "st_poll_capacity E (sw_outside w) s = (o', a)" by (rule prod.exhaust)
  with assms have "sw_outside w' = o'" "r = None \<longrightarrow> a = Ready (Some (Inr 0))"
    by (auto simp: capacity_round_def split: poll.splits option.splits sum.splits if_splits)
  with capacity_todo [OF c] show ?thesis by simp
qed

lemma pipe_ready_returns: "\<exists>w' r. pipe_ready E s w = Some (w', r) \<and> todo (sw_outside w') b \<le> todo (sw_outside w) b"
proof -
  let ?w = "w\<lparr>sw_outside := st_reserve_capacity E (sw_outside w) s 1\<rparr>"
  have le: "todo (sw_outside ?w) b \<le> todo (sw_outside w) b" using reserve_todo by simp
  show ?thesis
  proof (cases "st_capacity E (sw_outside ?w) s = 0")
    case True
    have "\<exists>y. run_loop (capacity_round E s) ?w = Some y"
    proof (rule run_loop_returns [where I = "\<lambda>_. True" and m = "\<lambda>w. todo (sw_outside w) b"])
      fix w1 :: "('w, 'm) stream_world"
      have "\<exists>w2 r. capacity_round E s w1 = Some (w2, r)" by (simp add: capacity_round_def split: prod.splits)
      then obtain w2 r where c: "capacity_round E s w1 = Some (w2, r)" by blast
      with capacity_round_todo [OF c]
      show "\<exists>s' r. capacity_round E s w1 = Some (s', r) \<and> (r = None \<longrightarrow> True \<and> todo (sw_outside s') b < todo (sw_outside w1) b)" by blast
    qed simp
    then obtain w' r where l: "run_loop (capacity_round E s) ?w = Some (w', r)" by (metis prod.exhaust)
    have "todo (sw_outside w') b \<le> todo (sw_outside w) b"
      by (rule run_loop_invariant [OF l, where I = "\<lambda>w1. todo (sw_outside w1) b \<le> todo (sw_outside w) b"])
        (use le capacity_round_todo order_trans in \<open>blast+\<close>)
    with True l show ?thesis by (simp add: pipe_ready_def)
  next
    case False
    obtain o' a where c: "st_poll_reset E (sw_outside ?w) s = (o', a)" by (rule prod.exhaust)
    with False reset_todo [OF c] le show ?thesis by (fastforce simp: pipe_ready_def Let_def intro: order_trans)
  qed
qed

lemma pipe_frame_todo:
  assumes "pipe_frame E w p = ((w', p'), None)"
  shows "todo (sw_outside w') (pipe_stream p') < todo (sw_outside w) (pipe_stream p)"
proof -
  obtain o' b a where u: "user_poll_frame E (sw_outside w) (pipe_stream p) = (o', b, a)" by (rule prod_cases3)
  with assms obtain chunk where a: "a = Ready (Some (Inr (Data chunk)))"
    by (auto simp: pipe_frame_def Let_def split: poll.splits option.splits sum.splits frame.splits prod.splits)
  from assms u a obtain o'' buf eos r where "st_send_data E o' (pipe_body_tx p) buf eos = (o'', r)" and "sw_outside w' = o''" "pipe_stream p' = b"
    by (auto simp: pipe_frame_def Let_def send_data_def note_stream_def split: prod.splits sum.splits if_splits)
  with frame_todo [of "sw_outside w" "pipe_stream p" o' b] u a data_todo [of o'] show ?thesis by (metis order_le_less_trans)
qed

lemma pipe_poll_returns: "\<exists>w' p' r. pipe_poll E w p = Some (w', p', r)"
proof -
  have "\<exists>y. run_loop (pipe_round E) (w, p) = Some y"
  proof (rule run_loop_returns [where I = "\<lambda>_. True" and m = "\<lambda>(w, p). todo (sw_outside w) (pipe_stream p)"])
    fix s :: "('w, 'm) stream_world \<times> 'b PipeToSendStream"
    obtain w p where s: "s = (w, p)" by (rule prod.exhaust)
    from pipe_ready_returns obtain w1 r1 where r: "pipe_ready E (pipe_body_tx p) w = Some (w1, r1)"
      and le: "todo (sw_outside w1) (pipe_stream p) \<le> todo (sw_outside w) (pipe_stream p)" by blast
    obtain w2 p2 r2 where f: "pipe_frame E w1 p = ((w2, p2), r2)" by (metis prod.exhaust)
    have "r2 = None \<longrightarrow> todo (sw_outside w2) (pipe_stream p2) < todo (sw_outside w) (pipe_stream p)"
      using pipe_frame_todo [of w1 p w2 p2] f le by auto
    with r f show "\<exists>s' r. pipe_round E s = Some (s', r) \<and>
        (r = None \<longrightarrow> True \<and> (case s' of (w, p) \<Rightarrow> todo (sw_outside w) (pipe_stream p)) < (case s of (w, p) \<Rightarrow> todo (sw_outside w) (pipe_stream p)))"
      by (cases r1; cases "case r1 of Ready x \<Rightarrow> x") (auto simp: s pipe_round_def split: sum.splits)
  qed simp
  then show ?thesis by (force simp: pipe_poll_def)
qed

end

interpretation h2_queue: ending_body h2_queue_env "\<lambda>_. length"
  by unfold_locales (auto simp: h2_queue_env_def split: list.splits)

section \<open>Properties\<close>

text \<open>Before a request is sent on an HTTP/2 connection the headers that belong to one connection are removed: those of the fixed list, \<^verbatim>\<open>connection\<close>
  itself, every header that the first value of \<^verbatim>\<open>connection\<close> names, and \<^verbatim>\<open>te\<close> unless its first value is
  \<^verbatim>\<open>trailers\<close>; every other header keeps all its values. The code panics exactly when the first value of \<^verbatim>\<open>connection\<close> is not visible ASCII.\<close>
lemma h2_headers_stripped:
  assumes "http_laws H"
  shows "case strip_connection_headers H headers True of
           None \<Rightarrow> \<exists>v. hm_get H headers ''connection'' = Some v \<and> \<not> list_all visible_ascii v
         | Some m \<Rightarrow> \<forall>k. hm_get_all H m k =
             (if k \<in> set [''keep-alive'', ''proxy-connection'', ''transfer-encoding'', ''upgrade'', ''connection''] \<or>
                 (\<exists>v. hm_get H headers ''connection'' = Some v \<and> k \<in> connection_names H v) \<or>
                 k = ''te'' \<and> hm_get H headers ''te'' \<notin> {None, Some ''trailers''}
              then [] else hm_get_all H headers k)"
proof (cases "strip_connection_headers H headers True")
  case None
  with http_laws.strip_connection_headers_get(1) [OF assms, of headers True] http_laws.to_str_ascii [OF assms] show ?thesis
    by (auto split: if_splits)
next
  case (Some m)
  from http_laws.strip_connection_headers_get(2) [OF assms Some] Some show ?thesis by (simp add: CONNECTION_HEADERS_def)
qed

text \<open>At a concrete input: the second value of \<^verbatim>\<open>connection\<close> is dropped with the first, but what it names stays.\<close>
lemma h2_headers_stripped_instance:
  "http_laws assoc_http \<and>
   strip_connection_headers assoc_http
     [(''upgrade'', ''x''), (''connection'', ''close, A''), (''connection'', ''b''), (''a'', ''1''), (''b'', ''2''), (''te'', ''trailers''), (''te'', ''gzip'')] True =
     Some [(''b'', ''2''), (''te'', ''trailers''), (''te'', ''gzip'')] \<and>
   (let m = [(''upgrade'', ''x''), (''connection'', ''close, A''), (''connection'', ''b''), (''a'', ''1''), (''b'', ''2''), (''te'', ''trailers''), (''te'', ''gzip'')]
    in hm_get_all assoc_http (the (strip_connection_headers assoc_http m True)) ''te'' = hm_get_all assoc_http m ''te'')"
proof -
  let ?m = "[(''upgrade'', ''x''), (''connection'', ''close, A''), (''connection'', ''b''), (''a'', ''1''), (''b'', ''2''), (''te'', ''trailers''), (''te'', ''gzip'')]"
  have e: "strip_connection_headers assoc_http ?m True = Some [(''b'', ''2''), (''te'', ''trailers''), (''te'', ''gzip'')]" by code_simp
  have c: "hm_get assoc_http ?m ''te'' = Some ''trailers''" "hm_get assoc_http ?m ''connection'' = Some ''close, A''" by code_simp+
  have n: "''te'' \<notin> connection_names assoc_http ''close, A''"
  proof -
    have "hv_to_str assoc_http ''close, A'' = Some ''close, A''" "split_on CHR '','' ''close, A'' = [''close'', '' A'']"
      "hn_from_bytes assoc_http (trim ''close'') = Some ''close''" "hn_from_bytes assoc_http (trim '' A'') = Some ''a''" by code_simp+
    then show ?thesis by (auto simp: connection_names_def)
  qed
  from h2_headers_stripped [OF assoc.http_laws_axioms, of ?m] e c n assoc.http_laws_axioms show ?thesis by (simp add: Let_def)
qed

text \<open>The body of a request reaches its HTTP/2 stream as it is, whatever the stream and other threads do. Along the whole life of the
  future that sends it, all the data taken from the body has been sent, in order and nothing else; while the future is pending the stream has not been
  ended; when it has succeeded the trailers were sent as well and the end was announced once, with the last thing sent; when
  it has failed the stream was not ended, so that the server does not take a part of a body for the whole, and it was reset, with the
  reason found in the error, exactly if it was the body that failed.\<close>
lemma h2_body_sent:
  assumes "pipe_run E b s w p r"
  defines "log \<equiv> on_stream s (sw_log w)"
  shows "case r of
           Pending \<Rightarrow> sent_bytes log = given_bytes log \<and> no_stream_end log
         | Ready (Inr _) \<Rightarrow> sent_bytes log = given_bytes log \<and> sent_trailers log = given_trailers log \<and> sent_resets log = [] \<and>
             (\<exists>before e. log = before @ [e] \<and> no_stream_end before \<and> is_stream_end e)
         | Ready (Inl err) \<Rightarrow> prefix (sent_bytes log) (given_bytes log) \<and> no_stream_end log \<and>
             sent_resets log = (if is_user err then [h2_reason err] else [])"
proof -
  from pipe_run_course [OF assms(1)] obtain ph where at: "stream_run StOpen log = Some ph" and c: "pipe_course (Some r) ph"
    by (auto simp: stream_at_def log_def)
  note content = stream_run_content [OF at]
  show ?thesis
  proof (cases r)
    case Pending
    with c content show ?thesis by (simp add: pipe_course_def)
  next
    case (Ready a)
    show ?thesis
    proof (cases a)
      case (Inr u)
      with Ready c content have "sent_bytes log = given_bytes log" "sent_trailers log = given_trailers log" "sent_resets log = []"
        "no_stream_end (butlast log)" "log \<noteq> []" "is_stream_end (last log)" by (simp_all add: pipe_course_def)
      moreover from \<open>log \<noteq> []\<close> have "log = butlast log @ [last log]" by simp
      ultimately show ?thesis using Ready Inr by (simp; metis)
    next
      case (Inl err)
      with Ready c have "ph = StOpen \<and> \<not> is_user err \<or> ph = StReset (h2_reason err) \<and> is_user err \<or> (\<exists>f. ph = StHolding f) \<and> \<not> is_user err"
        by (auto simp: pipe_course_def split: if_splits)
      moreover from content have "prefix (sent_bytes log) (given_bytes log) \<and> no_stream_end log \<and> sent_resets log = []" if "ph = StHolding f" for f
        using that by (cases f) auto
      ultimately show ?thesis using content Ready Inl by auto
    qed
  qed
qed

text \<open>At a concrete input: a body of two chunks and trailers.\<close>
lemma h2_body_sent_instance:
  "\<exists>w p. pipe_run h2_queue_env small_body 7 w p (Ready (Inr ())) \<and> on_stream 7 (sw_log w) =
     [BodyGave 7 (Data ''ab''), SentData 7 ''ab'' False, BodyGave 7 (Data ''c''), SentData 7 ''c'' False,
      BodyGave 7 (Trailers [(''etag'', ''x'')]), SentTrailers 7 [(''etag'', ''x'')]] \<and>
     sent_bytes (on_stream 7 (sw_log w)) = given_bytes (on_stream 7 (sw_log w))"
proof -
  let ?log = "[BodyGave 7 (Data ''ab''), SentData 7 ''ab'' False, BodyGave 7 (Data ''c''), SentData 7 ''c'' False,
      BodyGave 7 (Trailers [(''etag'', ''x'')]), SentTrailers 7 [(''etag'', ''x'')]]"
  let ?w = "\<lparr>sw_outside = [], sw_log = []\<rparr> :: (h2_queue, assoc_map) stream_world"
  have "map_option (\<lambda>(w, p, r). (sw_log w, r)) (pipe_poll h2_queue_env ?w (pipe_new small_body 7)) = Some (?log, Ready (Inr ()))" by code_simp
  then obtain w p where e: "pipe_poll h2_queue_env ?w (pipe_new small_body 7) = Some (w, p, Ready (Inr ()))" and l: "sw_log w = ?log" by auto
  have "pipe_run h2_queue_env small_body 7 w p (Ready (Inr ()))"
    by (rule pipe_step [OF pipe_start [where w = ?w] _ e]) simp_all
  from this h2_body_sent [OF this] l show ?thesis by (intro exI [of _ w] exI [of _ p]) simp
qed

end
