(* ===== verification/H2_Client.thy ===== *)
theory H2_Client
  imports H2_Pipe "HOL-Library.Multiset"
begin

text \<open>
  The tasks of an HTTP/2 connection (\<^verbatim>\<open>src/src/core/proto/h2/client.rs\<close>): one polls the connection of the crate \<^verbatim>\<open>http2\<close> together
  with the pings; one takes requests from the channel of theory Client_Dispatch and opens streams for them; and for every request one sends the
  body and one waits for the response. The futures that the second task spawns are kept in a list, from which the runtime polls them in any
  order. The state \<open>h2_world\<close> is the world of theory Client_Dispatch with its history, the events on streams of theory H2_Pipe, the heads that were
  handed to the crate, and that list.

  The number of references to the shared state of the pings, which tells whether the connection is idle, is part of the
  world. \<^const>\<open>None\<close> as a result is a panic or a loop that does not end.
\<close>

section \<open>Configuration\<close>


text \<open>The values of \<^verbatim>\<open>http2\<close> that are only passed on (orders of settings and pseudo-headers, dependencies, priorities) are texts.\<close>

record h2_config =
  hc_adaptive_window :: bool
  hc_initial_stream_id :: "nat option"
  hc_initial_conn_window_size :: nat
  hc_initial_stream_window_size :: nat
  hc_initial_max_send_streams :: nat
  hc_max_frame_size :: "nat option"
  hc_keep_alive_interval :: "nat option"
  hc_keep_alive_timeout :: nat
  hc_keep_alive_while_idle :: bool
  hc_max_concurrent_reset_streams :: "nat option"
  hc_max_send_buffer_size :: nat
  hc_max_concurrent_streams :: "nat option"
  hc_max_header_list_size :: "nat option"
  hc_max_pending_accept_reset_streams :: "nat option"
  hc_enable_push :: "bool option"
  hc_header_table_size :: "nat option"
  hc_enable_connect_protocol :: "bool option"
  hc_no_rfc7540_priorities :: "bool option"
  hc_headers_pseudo_order :: "string option"
  hc_headers_stream_dependency :: "string option"
  hc_experimental_settings :: "string option"
  hc_settings_order :: "string option"
  hc_priorities :: "string option"


text \<open>The calls on the builder of the crate, in their order.\<close>

datatype h2_builder_call =
    InitialMaxSendStreams nat | InitialWindowSize nat | InitialConnectionWindowSize nat | MaxSendBufferSize nat
  | InitialStreamId nat | MaxPendingAcceptResetStreams nat | MaxConcurrentResetStreams nat | MaxConcurrentStreams nat
  | MaxHeaderListSize nat | EnablePush bool | MaxFrameSize nat | HeaderTableSize nat | EnableConnectProtocol bool
  | NoRfc7540Priorities bool | SettingsOrder string | ExperimentalSettings string | HeadersStreamDependency string
  | HeadersPseudoOrder string | H2Priorities string

definition call_some :: "('a \<Rightarrow> 'c) \<Rightarrow> 'a option \<Rightarrow> 'c list" where
  "call_some call v = (case v of Some x \<Rightarrow> [call x] | None \<Rightarrow> [])"

definition new_builder :: "h2_config \<Rightarrow> h2_builder_call list" where
  "new_builder c =
     [InitialMaxSendStreams (hc_initial_max_send_streams c), InitialWindowSize (hc_initial_stream_window_size c),
      InitialConnectionWindowSize (hc_initial_conn_window_size c), MaxSendBufferSize (hc_max_send_buffer_size c)] @
     call_some InitialStreamId (hc_initial_stream_id c) @
     call_some MaxPendingAcceptResetStreams (hc_max_pending_accept_reset_streams c) @
     call_some MaxConcurrentResetStreams (hc_max_concurrent_reset_streams c) @
     call_some MaxConcurrentStreams (hc_max_concurrent_streams c) @
     call_some MaxHeaderListSize (hc_max_header_list_size c) @
     call_some EnablePush (hc_enable_push c) @
     call_some MaxFrameSize (hc_max_frame_size c) @
     call_some HeaderTableSize (hc_header_table_size c) @
     call_some EnableConnectProtocol (hc_enable_connect_protocol c) @
     call_some NoRfc7540Priorities (hc_no_rfc7540_priorities c) @
     call_some SettingsOrder (hc_settings_order c) @
     call_some ExperimentalSettings (hc_experimental_settings c) @
     call_some HeadersStreamDependency (hc_headers_stream_dependency c) @
     call_some HeadersPseudoOrder (hc_headers_pseudo_order c) @
     call_some H2Priorities (hc_priorities c)"

definition new_ping_config :: "h2_config \<Rightarrow> ping_config" where
  "new_ping_config c = \<lparr>
     bdp_initial_window = (if hc_adaptive_window c then Some (hc_initial_stream_window_size c) else None),
     keep_alive_interval = hc_keep_alive_interval c, keep_alive_timeout = hc_keep_alive_timeout c,
     keep_alive_while_idle = hc_keep_alive_while_idle c\<rparr>"

section \<open>State\<close>

text \<open>\<^verbatim>\<open>ConnMapErr\<close> around either a \<^verbatim>\<open>Conn\<close> with pings or a bare connection; the connection itself is in the world.\<close>

record 'f ConnMapErr =
  cm_ponger :: "'f Ponger option"
  cm_is_terminated :: bool

record 'f ConnTask =
  ck_cancel_tx :: bool
  ck_conn :: "'f ConnMapErr"

record 'b PipeMap =
  pm_pipe :: "'b PipeToSendStream"
  pm_conn_drop_ref :: bool
  pm_ping :: "Recorder option"

text \<open>The future and the two halves of a stream have the number of the stream. The transport into which a stream is made
  goes to the user through the channel of upgrades; \<open>rm_fulfilled\<close> keeps it.\<close>

record ResponseFutMap =
  rm_fut :: nat
  rm_ping :: "Recorder option"
  rm_send_stream :: "nat option option"
  rm_fulfilled :: "H2Upgraded option"

datatype ('b, 'f) H2ClientFuture =
    FutPipe "'b PipeMap"
  | FutSend ResponseFutMap "Callback option"
  | FutTask "'f ConnTask"

record 'b FutCtx =
  fc_is_connect :: bool
  fc_eos :: bool
  fc_stream :: nat
  fc_body :: 'b
  fc_cb :: Callback

record 'b ClientTask =
  ct_ping :: Recorder
  ct_fut_ctx :: "'b FutCtx option"

record ('w, 'm, 'b, 'f) h2_world =
  hw_main :: "('w, 'm, 'b) h1_world"
  hw_log :: "'m stream_event list"
  hw_opened :: "(nat \<times> 'm RequestHead \<times> bool) list"
  hw_spawned :: "('b, 'f) H2ClientFuture list"

abbreviation h2_outside :: "('w, 'm, 'b, 'f) h2_world \<Rightarrow> 'w" where
  "h2_outside w \<equiv> outside (hw_main w)"

definition set_outside :: "'w \<Rightarrow> ('w, 'm, 'b, 'f) h2_world \<Rightarrow> ('w, 'm, 'b, 'f) h2_world" where
  "set_outside x w = w\<lparr>hw_main := (hw_main w)\<lparr>outside := x\<rparr>\<rparr>"

text \<open>The streams of a world.\<close>

definition as_streams :: "('w, 'm, 'b, 'f) h2_world \<Rightarrow> ('w, 'm) stream_world" where
  "as_streams w = \<lparr>sw_outside = h2_outside w, sw_log = hw_log w\<rparr>"

definition set_streams :: "('w, 'm) stream_world \<Rightarrow> ('w, 'm, 'b, 'f) h2_world \<Rightarrow> ('w, 'm, 'b, 'f) h2_world" where
  "set_streams s w = (set_outside (sw_outside s) w)\<lparr>hw_log := sw_log s\<rparr>"

definition execute :: "('b, 'f) H2ClientFuture \<Rightarrow> ('w, 'm, 'b, 'f) h2_world \<Rightarrow> ('w, 'm, 'b, 'f) h2_world" where
  "execute fut w = w\<lparr>hw_spawned := hw_spawned w @ [fut]\<rparr>"

section \<open>The connection\<close>

text \<open>\<^verbatim>\<open>handshake\<close>, after the crate has done its part: the tasks it starts with.\<close>

definition h2_handshake ::
  "'f float_ops \<Rightarrow> ('w, 'm, 'b, 'z) h2_env_scheme \<Rightarrow> h2_config \<Rightarrow> (h2_builder_call list \<Rightarrow> 'w \<Rightarrow> 'w \<times> (h2_error + unit)) \<Rightarrow>
   ('w, 'm, 'b, 'f) h2_world \<Rightarrow> ('w, 'm, 'b, 'f) h2_world \<times> (core_error + 'b ClientTask)" where
  "h2_handshake FL E config shake w =
     (case shake (new_builder config) (h2_outside w) of
        (o', Inl e) \<Rightarrow> (set_outside o' w, Inl (new_h2 e))
      | (o', Inr _) \<Rightarrow>
          let w = set_outside o' w;
              ping = new_ping_config config;
              ponger = (if is_enabled ping then Some (ping_channel FL ping (clock_now E (h2_outside w))) else None);
              w = (case ponger of Some g \<Rightarrow> set_outside (ping_set_shared E (h2_outside w) (pg_shared g)) w | None \<Rightarrow> w);
              task = \<lparr>ck_cancel_tx = True, ck_conn = \<lparr>cm_ponger = ponger, cm_is_terminated = False\<rparr>\<rparr>
          in (execute (FutTask task) w, Inr \<lparr>ct_ping = (ponger \<noteq> None), ct_fut_ctx = None\<rparr>))"

text \<open>\<^verbatim>\<open>Conn::poll\<close>: the state shared with the recorders is locked while the pings are polled.\<close>

definition h2_conn_poll ::
  "'f float_ops \<Rightarrow> ('w, 'm, 'b, 'z) h2_env_scheme \<Rightarrow> 'w \<Rightarrow> 'f Ponger \<Rightarrow> ('w \<times> 'f Ponger \<times> (h2_error + unit) poll) option" where
  "h2_conn_poll FL E w ponger =
     (case ponger_poll FL (clock_now E w) (timer_fired E w) (ping_is_idle E w) (ping_pong_ok E w) (ping_pong_ok E w)
             (ping_poll_pong E w) (ponger\<lparr>pg_shared := ping_shared E w\<rparr>) of
        None \<Rightarrow> None
      | Some (g, r) \<Rightarrow>
          let w = ping_set_shared E w (pg_shared g)
          in case r of
               Ready (SizeUpdate wnd) \<Rightarrow>
                 (case h2c_set_initial_window_size E (h2c_set_target_window_size E w wnd) wnd of
                    (w, Inl e) \<Rightarrow> Some (w, g, Ready (Inl e))
                  | (w, Inr _) \<Rightarrow> (case h2c_poll E w of (w, r) \<Rightarrow> Some (w, g, r)))
             | Ready KeepAliveTimedOut \<Rightarrow> Some (w, g, Ready (Inr ()))
             | Pending \<Rightarrow> (case h2c_poll E w of (w, r) \<Rightarrow> Some (w, g, r)))"

definition conn_map_err_poll ::
  "'f float_ops \<Rightarrow> ('w, 'm, 'b, 'z) h2_env_scheme \<Rightarrow> 'w \<Rightarrow> 'f ConnMapErr \<Rightarrow> ('w \<times> 'f ConnMapErr \<times> (unit + unit) poll) option" where
  "conn_map_err_poll FL E w c =
     (if cm_is_terminated c then Some (w, c, Pending)
      else map_option (\<lambda>(w, g, r).
             (w, c\<lparr>cm_ponger := g, cm_is_terminated := (r \<noteq> Pending)\<rparr>,
              case r of Pending \<Rightarrow> Pending | Ready x \<Rightarrow> Ready (map_sum (\<lambda>_. ()) id x)))
             (case cm_ponger c of
                Some g \<Rightarrow> map_option (\<lambda>(w, g, r). (w, Some g, r)) (h2_conn_poll FL E w g)
              | None \<Rightarrow> (case h2c_poll E w of (w, r) \<Rightarrow> Some (w, None, r))))"

definition conn_task_poll ::
  "'f float_ops \<Rightarrow> ('w, 'm, 'b, 'z) h2_env_scheme \<Rightarrow> 'w \<Rightarrow> 'f ConnTask \<Rightarrow> ('w \<times> 'f ConnTask \<times> unit poll) option" where
  "conn_task_poll FL E w k =
     (case (if cm_is_terminated (ck_conn k) then Some (w, ck_conn k, Pending) else conn_map_err_poll FL E w (ck_conn k)) of
        None \<Rightarrow> None
      | Some (w, c, Ready _) \<Rightarrow> Some (w, k\<lparr>ck_conn := c\<rparr>, Ready ())
      | Some (w, c, Pending) \<Rightarrow>
          let k = k\<lparr>ck_conn := c\<rparr>
          in if drop_rx_is_terminated E w then Some (w, k, Pending)
             else case drop_rx_poll E w of
                    (w, False) \<Rightarrow> Some (w, k, Pending)
                  | (w, True) \<Rightarrow>
                      if ck_cancel_tx k then Some (cancel_tx_drop E w, k\<lparr>ck_cancel_tx := False\<rparr>, Pending) else None)"

section \<open>Bodies and responses\<close>

definition pipe_map_poll ::
  "('w, 'm, 'b, 'z) h2_env_scheme \<Rightarrow> ('w, 'm) stream_world \<Rightarrow> 'b PipeMap \<Rightarrow> (('w, 'm) stream_world \<times> 'b PipeMap \<times> unit poll) option" where
  "pipe_map_poll E w p =
     (case pipe_poll E w (pm_pipe p) of
        None \<Rightarrow> None
      | Some (w, pipe, Ready _) \<Rightarrow>
          if pm_conn_drop_ref p \<and> pm_ping p \<noteq> None
          then Some (w\<lparr>sw_outside := drop_ref_drop E (sw_outside w)\<rparr>,
                     p\<lparr>pm_pipe := pipe, pm_conn_drop_ref := False, pm_ping := None\<rparr>, Ready ())
          else None
      | Some (w, pipe, Pending) \<Rightarrow> Some (w, p\<lparr>pm_pipe := pipe\<rparr>, Pending))"

text \<open>The response of a stream: a \<^verbatim>\<open>CONNECT\<close> that is accepted becomes a transport, anything else has a body.\<close>

definition connect_response ::
  "('m, 'y) http_lib_scheme \<Rightarrow> ('w, 'm, 'b, 'z) h2_env_scheme \<Rightarrow> ('w, 'm) stream_world \<Rightarrow> ResponseFutMap \<Rightarrow> Recorder \<Rightarrow> nat \<Rightarrow> 'm ResponseHead \<Rightarrow>
   ('w, 'm) stream_world \<times> ResponseFutMap \<times> (core_error \<times> ('m, 'b) h1_request option + 'm h1_response)" where
  "connect_response H E w rm ping s head =
     (if (case content_length_parse_all H (mh_headers head) of Some len \<Rightarrow> len \<noteq> 0 | None \<Rightarrow> False)
      then (send_reset E s INTERNAL_ERROR w, rm, Inl (new_h2 (h2_error_of_reason E INTERNAL_ERROR), None))
      else (w, rm\<lparr>rm_fulfilled := Some \<lparr>up_ping = ping, up_send_stream = s, up_recv_stream = rm_fut rm, up_buf = []\<rparr>\<rparr>,
            Inr \<lparr>res_head = head, res_body = body_empty, res_upgrade = True\<rparr>))"

definition stream_response ::
  "('m, 'y) http_lib_scheme \<Rightarrow> ('w, 'm, 'b, 'z) h2_env_scheme \<Rightarrow> 'w \<Rightarrow> Recorder \<Rightarrow> nat \<Rightarrow> 'm ResponseHead \<Rightarrow> 'm h1_response" where
  "stream_response H E w ping stream head =
     \<lparr>res_head = head,
      res_body = body_h2 E w stream (from_option (content_length_parse_all H (mh_headers head))) (recorder_for_stream E w stream ping),
      res_upgrade = False\<rparr>"

text \<open>\<^verbatim>\<open>ResponseFutMap::poll\<close>; the list of events travels with the future.\<close>

definition response_fut_poll ::
  "('m, 'y) http_lib_scheme \<Rightarrow> ('w, 'm, 'b, 'z) h2_env_scheme \<Rightarrow> 'w \<Rightarrow> ResponseFutMap \<times> 'm stream_event list \<Rightarrow>
   ('w \<times> (ResponseFutMap \<times> 'm stream_event list) \<times> (core_error \<times> ('m, 'b) h1_request option + 'm h1_response) poll) option" where
  "response_fut_poll H E w f =
     (case rf_poll E w (rm_fut (fst f)) of
        (w, Pending) \<Rightarrow> Some (w, f, Pending)
      | (w, Ready result) \<Rightarrow>
          (case (rm_ping (fst f), rm_send_stream (fst f)) of
             (Some ping, Some send_stream) \<Rightarrow>
               (let rm = (fst f)\<lparr>rm_ping := None, rm_send_stream := None\<rparr>
                in case result of
                     Inr head \<Rightarrow>
                       (let w = recorder_non_data E ping w
                        in case (if mh_subject head = 200 then send_stream else None) of
                             Some s \<Rightarrow>
                               (case connect_response H E \<lparr>sw_outside = w, sw_log = snd f\<rparr> rm ping s head of
                                  (sw, rm, r) \<Rightarrow> Some (sw_outside sw, (rm, sw_log sw), Ready r))
                           | None \<Rightarrow> Some (w, (rm, snd f), Ready (Inr (stream_response H E w ping (rm_fut rm) head))))
                   | Inl err \<Rightarrow>
                       Some (w, (rm, snd f), Ready (Inl
                         (case recorder_ensure_not_timed_out E w ping of Inl e \<Rightarrow> (e, None) | Inr _ \<Rightarrow> (new_h2 err, None)))))
           | _ \<Rightarrow> None))"

definition send_future_poll ::
  "('m, 'y) http_lib_scheme \<Rightarrow> ('w, 'm, 'b, 'z) h2_env_scheme \<Rightarrow> ('w, 'm, 'b, 'f) h2_world \<Rightarrow> ResponseFutMap \<Rightarrow> Callback option \<Rightarrow>
   (('w, 'm, 'b, 'f) h2_world \<times> ResponseFutMap \<times> Callback option \<times> unit poll) option" where
  "send_future_poll H E w rm cb =
     (case send_when_poll (requests E) (response_fut_poll H E) (hw_main w) (rm, hw_log w) cb of
        None \<Rightarrow> None
      | Some (m, (rm, log), cb, r) \<Rightarrow> Some (w\<lparr>hw_main := m, hw_log := log\<rparr>, rm, cb, r))"

text \<open>\<^verbatim>\<open>H2ClientFuture::poll\<close>, and what dropping such a future does.\<close>

definition h2_future_poll ::
  "'f float_ops \<Rightarrow> ('m, 'y) http_lib_scheme \<Rightarrow> ('w, 'm, 'b, 'z) h2_env_scheme \<Rightarrow> ('w, 'm, 'b, 'f) h2_world \<Rightarrow> ('b, 'f) H2ClientFuture \<Rightarrow>
   (('w, 'm, 'b, 'f) h2_world \<times> ('b, 'f) H2ClientFuture \<times> unit poll) option" where
  "h2_future_poll FL H E w f =
     (case f of
        FutPipe p \<Rightarrow>
          map_option (\<lambda>(sw, p, r). (set_streams sw w, FutPipe p, r)) (pipe_map_poll E (as_streams w) p)
      | FutSend rm cb \<Rightarrow> map_option (\<lambda>(w, rm, cb, r). (w, FutSend rm cb, r)) (send_future_poll H E w rm cb)
      | FutTask k \<Rightarrow> map_option (\<lambda>(x, k, r). (set_outside x w, FutTask k, r)) (conn_task_poll FL E (h2_outside w) k))"

definition h2_future_drop ::
  "('w, 'm, 'b, 'z) h2_env_scheme \<Rightarrow> ('w, 'm, 'b, 'f) h2_world \<Rightarrow> ('b, 'f) H2ClientFuture \<Rightarrow> ('w, 'm, 'b, 'f) h2_world" where
  "h2_future_drop E w f =
     (case f of
        FutPipe p \<Rightarrow> if pm_conn_drop_ref p then set_outside (drop_ref_drop E (h2_outside w)) w else w
      | FutSend rm (Some cb) \<Rightarrow> w\<lparr>hw_main := callback_drop (requests E) cb (hw_main w)\<rparr>
      | FutSend rm None \<Rightarrow> w
      | FutTask k \<Rightarrow> if ck_cancel_tx k then set_outside (cancel_tx_drop E (h2_outside w)) w else w)"

section \<open>Requests\<close>

definition poll_pipe ::
  "('w, 'm, 'b, 'z) h2_env_scheme \<Rightarrow> ('w, 'm, 'b, 'f) h2_world \<Rightarrow> 'b ClientTask \<Rightarrow> 'b FutCtx \<Rightarrow> ('w, 'm, 'b, 'f) h2_world option" where
  "poll_pipe E w t f =
     (let send = \<lambda>w send_stream. execute (FutSend \<lparr>rm_fut = fc_stream f, rm_ping = Some (ct_ping t), rm_send_stream = Some send_stream,
                   rm_fulfilled = None\<rparr> (Some (fc_cb f))) w
      in if fc_is_connect f then Some (send w (Some (fc_stream f)))
         else if fc_eos f then Some (send w None)
         else case pipe_poll E (as_streams w) (pipe_new (fc_body f) (fc_stream f)) of
                None \<Rightarrow> None
              | Some (sw, pipe, Ready _) \<Rightarrow> Some (send (set_streams sw w) None)
              | Some (sw, pipe, Pending) \<Rightarrow>
                  let w = set_streams sw w;
                      w = set_outside (drop_ref_clone E (h2_outside w)) w
                  in Some (send (execute (FutPipe \<lparr>pm_pipe = pipe, pm_conn_drop_ref = True, pm_ping = Some (ct_ping t)\<rparr>) w) None))"

text \<open>The head as it is sent. A \<^verbatim>\<open>Protocol\<close> among the extensions of a request is unwrapped here for the crate; the
  extensions of a head do not include it.\<close>

definition h2_prepare ::
  "('m, 'y) http_lib_scheme \<Rightarrow> 'm RequestHead \<Rightarrow> u64 option \<Rightarrow> 'm RequestHead option" where
  "h2_prepare H head size_exact =
     map_option (\<lambda>headers.
       head\<lparr>mh_headers :=
         (case size_exact of
            Some len \<Rightarrow>
              if len \<noteq> 0 \<or> method_has_defined_payload_semantics (fst (mh_subject head))
              then set_content_length_if_missing H headers len else headers
          | None \<Rightarrow> headers)\<rparr>)
       (strip_connection_headers H (mh_headers head) True)"

definition answer_error ::
  "('w, 'm, 'b, 'z) h2_env_scheme \<Rightarrow> ('w, 'm, 'b, 'f) h2_world \<Rightarrow> Callback \<Rightarrow> core_error \<Rightarrow> ('w, 'm, 'b, 'f) h2_world option" where
  "answer_error E w cb e =
     map_option (\<lambda>m. w\<lparr>hw_main := m\<rparr>)
       (callback_send (requests E) (hw_main w) cb (Inl \<lparr>tse_error = e, tse_message = None\<rparr>))"

text \<open>What is done with a request: the branch of \<^verbatim>\<open>ClientTask::poll\<close> for one that was received. The result says whether the
  task waits for the stream to be opened.\<close>

definition h2_start_request ::
  "('m, 'y) http_lib_scheme \<Rightarrow> ('w, 'm, 'b, 'z) h2_env_scheme \<Rightarrow> ('w, 'm, 'b, 'f) h2_world \<Rightarrow> 'b ClientTask \<Rightarrow> ('m, 'b) h1_request \<Rightarrow> Callback \<Rightarrow>
   (('w, 'm, 'b, 'f) h2_world \<times> 'b ClientTask \<times> bool) option" where
  "h2_start_request H E w t req cb =
     (case h2_prepare H (req_head req) (user_size_exact E (h2_outside w) (req_body req)) of
        None \<Rightarrow> None
      | Some head \<Rightarrow>
          let is_connect = (fst (mh_subject head) = CONNECT);
              eos = user_is_end_stream E (h2_outside w) (req_body req)
          in if is_connect \<and> (case content_length_parse_all H (mh_headers head) of Some len \<Rightarrow> len \<noteq> 0 | None \<Rightarrow> False)
             then map_option (\<lambda>w. (w, t, False)) (answer_error E w cb new_user_invalid_connect)
             else case sr_send_request E (h2_outside w) head (\<not> is_connect \<and> eos) of
                    (o', Inl err) \<Rightarrow> map_option (\<lambda>w. (w, t, False)) (answer_error E (set_outside o' w) cb (new_h2 err))
                  | (o', Inr s) \<Rightarrow>
                      let w = (set_outside o' w)\<lparr>hw_opened := hw_opened w @ [(s, head, \<not> is_connect \<and> eos)]\<rparr>;
                          f = \<lparr>fc_is_connect = is_connect, fc_eos = eos, fc_stream = s, fc_body = req_body req, fc_cb = cb\<rparr>
                      in case sr_poll_ready E (h2_outside w) of
                           (o', Pending) \<Rightarrow> Some (set_outside o' w, t\<lparr>ct_fut_ctx := Some f\<rparr>, True)
                         | (o', Ready (Inr _)) \<Rightarrow> map_option (\<lambda>w. (w, t, False)) (poll_pipe E (set_outside o' w) t f)
                         | (o', Ready (Inl err)) \<Rightarrow> map_option (\<lambda>w. (w, t, False)) (answer_error E (set_outside o' w) cb (new_h2 err)))"

text \<open>One round of the loop.\<close>

definition h2_client_round ::
  "('m, 'y) http_lib_scheme \<Rightarrow> ('w, 'm, 'b, 'z) h2_env_scheme \<Rightarrow> ('w, 'm, 'b, 'f) h2_world \<times> 'b ClientTask \<Rightarrow>
   ((('w, 'm, 'b, 'f) h2_world \<times> 'b ClientTask) \<times> (core_error + Dispatched) poll option) option" where
  "h2_client_round H E = (\<lambda>(w, t).
     case sr_poll_ready E (h2_outside w) of
       (o', Pending) \<Rightarrow> Some ((set_outside o' w, t), Some Pending)
     | (o', Ready (Inl err)) \<Rightarrow>
         Some ((set_outside o' w, t), Some (Ready
           (case recorder_ensure_not_timed_out E o' (ct_ping t) of
              Inl e \<Rightarrow> Inl e
            | Inr _ \<Rightarrow> if h2e_reason err = Some NO_ERROR then Inr DShutdown else Inl (new_h2 err))))
     | (o', Ready (Inr _)) \<Rightarrow>
         (let w = set_outside o' w
          in case ct_fut_ctx t of
               Some f \<Rightarrow> map_option (\<lambda>w. ((w, t\<lparr>ct_fut_ctx := None\<rparr>), None)) (poll_pipe E w t f)
             | None \<Rightarrow>
                 (case poll_recv (requests E) (hw_main w) of
                    None \<Rightarrow> None
                  | Some (m, Ready (Some (req, cb))) \<Rightarrow>
                      (let w = w\<lparr>hw_main := m\<rparr>
                       in case callback_is_canceled (requests E) m cb of
                            None \<Rightarrow> None
                          | Some True \<Rightarrow> Some ((w\<lparr>hw_main := callback_drop (requests E) cb m\<rparr>, t), None)
                          | Some False \<Rightarrow>
                              map_option (\<lambda>(w, t, waits). ((w, t), if waits then Some Pending else None)) (h2_start_request H E w t req cb))
                  | Some (m, Ready None) \<Rightarrow> Some ((w\<lparr>hw_main := m\<rparr>, t), Some (Ready (Inr DShutdown)))
                  | Some (m, Pending) \<Rightarrow>
                      (case conn_eof_poll E (outside m) of
                         (o', eof) \<Rightarrow> Some ((set_outside o' (w\<lparr>hw_main := m\<rparr>), t),
                           Some (if eof then Ready (Inr DShutdown) else Pending))))))"

definition h2_client_poll ::
  "('m, 'y) http_lib_scheme \<Rightarrow> ('w, 'm, 'b, 'z) h2_env_scheme \<Rightarrow> ('w, 'm, 'b, 'f) h2_world \<Rightarrow> 'b ClientTask \<Rightarrow>
   (('w, 'm, 'b, 'f) h2_world \<times> 'b ClientTask \<times> (core_error + Dispatched) poll) option" where
  "h2_client_poll H E w t = map_option (\<lambda>((w, t), r). (w, t, r)) (run_loop (h2_client_round H E) (w, t))"

text \<open>Dropping the task drops the request that waits for its stream, the reference that keeps the connection, and the receiver.\<close>

definition h2_client_drop ::
  "('w, 'm, 'b, 'z) h2_env_scheme \<Rightarrow> ('w, 'm, 'b, 'f) h2_world \<Rightarrow> 'b ClientTask \<Rightarrow> ('w, 'm, 'b, 'f) h2_world option" where
  "h2_client_drop E w t =
     (let w = set_outside (drop_ref_drop E (h2_outside w)) w
      in case receiver_drop (requests E) (hw_main w) of
           None \<Rightarrow> None
         | Some m \<Rightarrow>
             Some (w\<lparr>hw_main := (case ct_fut_ctx t of Some f \<Rightarrow> callback_drop (requests E) (fc_cb f) m | None \<Rightarrow> m)\<rparr>))"

section \<open>The whole connection\<close>

text \<open>The connection as the runtime runs it: the task of the requests is polled until it is ready or dropped, the spawned futures are polled
  or dropped in any order, and between two of these steps the world outside changes as it likes.\<close>

inductive h2_run ::
  "'f float_ops \<Rightarrow> ('m, 'y) http_lib_scheme \<Rightarrow> ('w, 'm, 'b, 'z) h2_env_scheme \<Rightarrow> ('w, 'm, 'b, 'f) h2_world \<Rightarrow> 'b ClientTask option \<Rightarrow> bool"
  for FL :: "'f float_ops" and H :: "('m, 'y) http_lib_scheme" and E :: "('w, 'm, 'b, 'z) h2_env_scheme" where
  h2_start: "history (hw_main w) = [] \<Longrightarrow> hw_log w = [] \<Longrightarrow> hw_opened w = [] \<Longrightarrow> hw_spawned w = [] \<Longrightarrow>
    h2_handshake FL E config shake w = (w', Inr t) \<Longrightarrow> h2_run FL H E w' (Some t)"
| h2_outside: "h2_run FL H E w t \<Longrightarrow> h2_run FL H E (set_outside x w) t"
| h2_polled: "h2_run FL H E w (Some t) \<Longrightarrow> h2_client_poll H E w t = Some (w', t', Pending) \<Longrightarrow> h2_run FL H E w' (Some t')"
| h2_done: "h2_run FL H E w (Some t) \<Longrightarrow> h2_client_poll H E w t = Some (w', t', Ready r) \<Longrightarrow>
    h2_client_drop E w' t' = Some w'' \<Longrightarrow> h2_run FL H E w'' None"
| h2_dropped: "h2_run FL H E w (Some t) \<Longrightarrow> h2_client_drop E w t = Some w' \<Longrightarrow> h2_run FL H E w' None"
| h2_future: "h2_run FL H E w t \<Longrightarrow> hw_spawned w = fs @ f # gs \<Longrightarrow> h2_future_poll FL H E w f = Some (w', f', Pending) \<Longrightarrow>
    h2_run FL H E (w'\<lparr>hw_spawned := fs @ f' # gs\<rparr>) t"
| h2_future_done: "h2_run FL H E w t \<Longrightarrow> hw_spawned w = fs @ f # gs \<Longrightarrow> h2_future_poll FL H E w f = Some (w', f', Ready ()) \<Longrightarrow>
    h2_run FL H E ((h2_future_drop E w' f')\<lparr>hw_spawned := fs @ gs\<rparr>) t"
| h2_future_dropped: "h2_run FL H E w t \<Longrightarrow> hw_spawned w = fs @ f # gs \<Longrightarrow>
    h2_run FL H E ((h2_future_drop E w f)\<lparr>hw_spawned := fs @ gs\<rparr>) t"

section \<open>Every request is answered\<close>





fun future_cbs :: "('b, 'f) H2ClientFuture \<Rightarrow> Callback list" where
  "future_cbs (FutSend rm (Some cb)) = [cb]"
| "future_cbs _ = []"













definition spawned_cbs :: "('w, 'm, 'b, 'f) h2_world \<Rightarrow> Callback multiset" where
  "spawned_cbs w = mset (concat (map future_cbs (hw_spawned w)))"


lemma set_outside_simps [simp]:
  "history (hw_main (set_outside x w)) = history (hw_main w)" "hw_spawned (set_outside x w) = hw_spawned w"
  "hw_opened (set_outside x w) = hw_opened w" "hw_log (set_outside x w) = hw_log w" "h2_outside (set_outside x w) = x"
  by (simp_all add: set_outside_def)

lemma set_streams_simps [simp]:
  "history (hw_main (set_streams s w)) = history (hw_main w)" "hw_spawned (set_streams s w) = hw_spawned w"
  "hw_opened (set_streams s w) = hw_opened w" "hw_log (set_streams s w) = sw_log s"
  by (simp_all add: set_streams_def)

lemma spawned_cbs_simps [simp]:
  "spawned_cbs (set_outside x w) = spawned_cbs w" "spawned_cbs (set_streams s w) = spawned_cbs w"
  "spawned_cbs (w\<lparr>hw_main := m\<rparr>) = spawned_cbs w" "spawned_cbs (w\<lparr>hw_opened := os\<rparr>) = spawned_cbs w" "spawned_cbs (w\<lparr>hw_log := l\<rparr>) = spawned_cbs w"
  "spawned_cbs (execute f w) = spawned_cbs w + mset (future_cbs f)"
  by (simp_all add: spawned_cbs_def execute_def)

lemma execute_simps [simp]:
  "hw_main (execute f w) = hw_main w" "hw_log (execute f w) = hw_log w" "hw_opened (execute f w) = hw_opened w"
  "hw_spawned (execute f w) = hw_spawned w @ [f]"
  by (simp_all add: execute_def)












section \<open>No stream is written by two\<close>

text \<open>The streams opened with the end of the request in their head.\<close>

definition eos_streams :: "(nat \<times> 'm RequestHead \<times> bool) list \<Rightarrow> nat set" where
  "eos_streams os = {s. \<exists>h. (s, h, True) \<in> set os}"

text \<open>Every stream has had a right course, nothing was sent after the end in a head, and the streams on which something may still be sent
  are open and have one owner each.\<close>

definition streams_ok :: "'m stream_event list \<Rightarrow> (nat \<times> 'm RequestHead \<times> bool) list \<Rightarrow> nat list \<Rightarrow> bool" where
  "streams_ok log os own \<longleftrightarrow> distinct own \<and> set own \<subseteq> fst ` set os \<and> (\<forall>e\<in>set log. ev_stream e \<in> fst ` set os) \<and>
     (\<forall>s. stream_run StOpen (on_stream s log) \<noteq> None) \<and> (\<forall>s\<in>eos_streams os. on_stream s log = []) \<and>
     (\<forall>s\<in>set own. stream_run StOpen (on_stream s log) = Some StOpen)"

fun future_streams :: "('b, 'f) H2ClientFuture \<Rightarrow> nat list" where
  "future_streams (FutPipe p) = [pipe_body_tx (pm_pipe p)]"
| "future_streams (FutSend rm cb) = (case rm_send_stream rm of Some (Some s) \<Rightarrow> [s] | _ \<Rightarrow> [])"
| "future_streams (FutTask k) = []"

definition spawned_streams :: "('w, 'm, 'b, 'f) h2_world \<Rightarrow> nat list" where
  "spawned_streams w = concat (map future_streams (hw_spawned w))"

definition ctx_ok :: "(nat \<times> 'm RequestHead \<times> bool) list \<Rightarrow> 'b FutCtx \<Rightarrow> bool" where
  "ctx_ok os f \<longleftrightarrow> (fc_stream f \<in> eos_streams os \<longleftrightarrow> \<not> fc_is_connect f \<and> fc_eos f)"

text \<open>The state of the connection, \<open>fs\<close> being the requests that wait for their streams.\<close>

definition conn_streams :: "('w, 'm, 'b, 'f) h2_world \<Rightarrow> 'b FutCtx list \<Rightarrow> bool" where
  "conn_streams w fs \<longleftrightarrow> streams_ok (hw_log w) (hw_opened w) (spawned_streams w @ map fc_stream fs) \<and>
     set (spawned_streams w) \<inter> eos_streams (hw_opened w) = {} \<and> list_all (ctx_ok (hw_opened w)) fs"






lemma only_on_grows: "only_on s w w' \<Longrightarrow> \<exists>es. sw_log w' = sw_log w @ es \<and> (\<forall>e\<in>set es. ev_stream e = s)"
  by (simp add: only_on_def)


lemma as_streams_log [simp]: "sw_log (as_streams w) = hw_log w"
  by (simp add: as_streams_def)

lemma spawned_streams_simps [simp]:
  "spawned_streams (set_outside x w) = spawned_streams w" "spawned_streams (set_streams s w) = spawned_streams w"
  "spawned_streams (w\<lparr>hw_main := m\<rparr>) = spawned_streams w" "spawned_streams (w\<lparr>hw_opened := os\<rparr>) = spawned_streams w"
  "spawned_streams (w\<lparr>hw_log := l\<rparr>) = spawned_streams w" "spawned_streams (execute f w) = spawned_streams w @ future_streams f"
  by (simp_all add: spawned_streams_def)

lemma conn_streams_outside [simp]:
  "conn_streams (set_outside x w) fs = conn_streams w fs" "conn_streams (w\<lparr>hw_main := m\<rparr>) fs = conn_streams w fs"
  by (simp_all add: conn_streams_def)




text \<open>A head that was handed over comes from a request of the user, and the end is not announced in that of a \<^verbatim>\<open>CONNECT\<close>.\<close>

definition heads_ok :: "('m, 'y) http_lib_scheme \<Rightarrow> (nat \<times> 'm RequestHead \<times> bool) list \<Rightarrow> bool" where
  "heads_ok H os \<longleftrightarrow> (\<forall>(s, head, eos)\<in>set os. (\<exists>head0 len. h2_prepare H head0 len = Some head) \<and> (eos \<longrightarrow> fst (mh_subject head) \<noteq> CONNECT))"




text \<open>The state of the streams after a step, if the crate has never used the number of a stream twice.\<close>

definition task_streams :: "('m, 'y) http_lib_scheme \<Rightarrow> ('w, 'm, 'b, 'f) h2_world \<Rightarrow> 'b FutCtx list \<Rightarrow> bool" where
  "task_streams H w fs \<longleftrightarrow> heads_ok H (hw_opened w) \<and> (distinct (map fst (hw_opened w)) \<longrightarrow> conn_streams w fs)"


lemma task_streams_outside [simp]:
  "task_streams H (set_outside x w) fs = task_streams H w fs" "task_streams H (w\<lparr>hw_main := m\<rparr>) fs = task_streams H w fs"
  by (simp_all add: task_streams_def)










lemma h2_future_drop_simps [simp]: "hw_log (h2_future_drop E w f) = hw_log w" "hw_opened (h2_future_drop E w f) = hw_opened w"
  by (cases f rule: future_cbs.cases; simp add: h2_future_drop_def)+



section \<open>An example\<close>









section \<open>Properties\<close>





end
