(* ===== verification/Spec2Isabelle.thy ===== *)
theory Spec2Isabelle
  imports H1_Roundtrip H1_Dispatch Connector_Props Pool_Inv Socks_Props Tunnel Redirect Client_Decoder Multipart H2_Client
begin

text \<open>
  A verification development for \<^verbatim>\<open>rquest\<close>, an HTTP client library in Rust. Paths are relative to the repository;
  \<^verbatim>\<open>core/\<close> stands for \<^verbatim>\<open>src/src/core/\<close>.

  \<^bold>\<open>The program.\<close> A call of the client (\<^verbatim>\<open>src/src/client/client.rs\<close>) makes a request of the user's into one
  that can be sent, chooses a proxy for it (\<^verbatim>\<open>src/src/proxy.rs\<close>), and follows redirects and retries
  (\<^verbatim>\<open>src/src/redirect.rs\<close>). The core client (\<^verbatim>\<open>core/client\<close>) completes the request, takes a connection from the pool or makes a
  new one, and tries again if a pooled connection turns out to be dead. New connections come from the connector
  (\<^verbatim>\<open>src/src/connect.rs\<close>): TCP with a race of address families (\<^verbatim>\<open>core/client/connect\<close>), TLS (\<^verbatim>\<open>src/src/tls/conn\<close>), if need be
  through a proxy or a tunnel. An HTTP/1 connection (\<^verbatim>\<open>core/proto/h1\<close>) writes the head and the body of the request through a
  buffer, reads the head of the response, decodes its body, and decides whether it can be used again; a task
  (\<^verbatim>\<open>core/proto/h1/dispatch.rs\<close>) moves messages between it and the channels of the client. The protocol of HTTP/2 is left to a crate; the code
  around it opens a stream for each request, passes bodies and responses, and keeps the connection alive (\<^verbatim>\<open>core/proto/h2\<close>). The body of a response is decompressed on its
  way to the user (\<^verbatim>\<open>src/src/client/decoder.rs\<close>).

  \<^bold>\<open>Theories and sources.\<close>
  \<^item> \<open>Prelude\<close>: bytes, machine integers with Rust's checked arithmetic, string functions of the standard library.
  \<^item> \<open>Core_Error\<close>: \<^verbatim>\<open>core/error.rs\<close>. \<open>Body_Length\<close>: \<^verbatim>\<open>core/body/length.rs\<close>, \<^verbatim>\<open>core/proto/mod.rs\<close>.
  \<^item> \<open>Http_Lib\<close>: the crates \<^verbatim>\<open>http\<close> and \<^verbatim>\<open>httparse\<close> as a parameter with laws (locale \<open>http_laws\<close>).
    \<open>Headers\<close>: \<^verbatim>\<open>core/headers.rs\<close>.
  \<^item> \<open>Mem_Read\<close>, \<open>H1_Decode\<close>: the reader interface and \<^verbatim>\<open>core/proto/h1/decode.rs\<close>; \<open>Buf\<close>: \<^verbatim>\<open>core/common/buf.rs\<close>;
    \<open>H1_Encode\<close>: \<^verbatim>\<open>core/proto/h1/encode.rs\<close>; \<open>H1_Roundtrip\<close>: encoder and decoder together.
  \<^item> \<open>Transport\<close>: what the code asks of a connected socket, with \<^verbatim>\<open>core/common/io/rewind.rs\<close> as an instance;
    \<open>H1_Io\<close>: \<^verbatim>\<open>core/proto/h1/io.rs\<close>; \<open>H1_Role\<close>: \<^verbatim>\<open>core/proto/h1/role.rs\<close>; \<open>H1_Conn\<close>: \<^verbatim>\<open>core/proto/h1/conn.rs\<close>
    with its step relation; \<open>H1_Wire\<close>: what reaches the wire.
  \<^item> \<open>Incoming\<close>: \<^verbatim>\<open>core/body/incoming.rs\<close> and \<^verbatim>\<open>core/common/watch.rs\<close>; \<open>Client_Dispatch\<close>: \<^verbatim>\<open>core/client/dispatch.rs\<close>;
    \<open>H1_Dispatch\<close>: \<^verbatim>\<open>core/proto/h1/dispatch.rs\<close>; \<open>H1_Eval\<close>: code equations with which whole connections run inside the logic.
  \<^item> \<open>H2_Ping\<close>: \<^verbatim>\<open>core/proto/h2/ping.rs\<close>; \<open>H2_Pipe\<close>: \<^verbatim>\<open>core/proto/h2/mod.rs\<close>; \<open>H2_Client\<close>: \<^verbatim>\<open>core/proto/h2/client.rs\<close>, the tasks of a
    connection in any order (\<open>h2_run\<close>).
  \<^item> \<open>Oneshot\<close>, \<open>Lru\<close>: the channels and the cache the pool uses, as parameters with laws; \<open>Pool\<close>: \<^verbatim>\<open>core/client/pool.rs\<close>;
    \<open>Pool_Sys\<close>: the pool with the tasks that use it, from \<^verbatim>\<open>core/client/mod.rs\<close>; \<open>Pool_Inv\<close>: its invariants.
  \<^item> \<open>Core_Request\<close>: \<^verbatim>\<open>core/client/request.rs\<close>, \<^verbatim>\<open>core/client/dst.rs\<close> and the functions on URIs, with \<^verbatim>\<open>http::Uri\<close> as a parameter
    (locale \<open>uri_laws\<close>); \<open>Core_Client\<close>: sending and retrying, from \<^verbatim>\<open>core/client/mod.rs\<close>.
  \<^item> \<open>Rt_Io\<close>: \<^verbatim>\<open>core/rt/io.rs\<close>; \<open>Ip_Addr\<close>: addresses of the standard library and their parser;
    \<open>Socks\<close>, \<open>Socks_Props\<close>: \<^verbatim>\<open>core/client/connect/proxy/socks\<close>; \<open>Tunnel\<close>: \<^verbatim>\<open>core/client/connect/proxy/tunnel.rs\<close>.
  \<^item> \<open>Tcp_Connect\<close>: \<^verbatim>\<open>core/client/connect/http.rs\<close>, \<^verbatim>\<open>core/client/connect/dns.rs\<close>, \<^verbatim>\<open>src/src/dns/resolve.rs\<close>;
    \<open>Tls_Session\<close>: \<^verbatim>\<open>src/src/tls/conn/cache.rs\<close>; \<open>Tls_Conn\<close>: the rest of \<^verbatim>\<open>src/src/tls/conn\<close>;
    \<open>Connector\<close>, \<open>Connector_Props\<close>: \<^verbatim>\<open>src/src/connect.rs\<close> and \<^verbatim>\<open>core/client/connect/mod.rs\<close>.
  \<^item> \<open>Proxy\<close>: \<^verbatim>\<open>src/src/proxy.rs\<close> and \<^verbatim>\<open>core/client/network.rs\<close>; \<open>Redirect\<close>: \<^verbatim>\<open>src/src/redirect.rs\<close> and the execution of
    requests in \<^verbatim>\<open>src/src/client/client.rs\<close>; \<open>Client_Decoder\<close>: \<^verbatim>\<open>src/src/client/decoder.rs\<close>;
    \<open>Multipart\<close>: \<^verbatim>\<open>src/src/client/multipart.rs\<close> with \<^verbatim>\<open>src/src/util.rs\<close>.

  \<^bold>\<open>How code is modelled.\<close> A struct is a record and an enum a datatype with the constructors of the source; an
  operation is a function from the state to the state and its result. \<^verbatim>\<open>Poll\<close> is the type \<open>poll\<close>, a fallible result a
  sum. A panic is a value of its own: the error \<open>Panicked\<close> in I/O code, a case of the error type in the connector and
  \<^const>\<open>None\<close> elsewhere, so that its absence is something
  to prove; assertions of debug builds count as panics. Two of them have no value of their own, since their only caller has just tested the
  condition (\<^verbatim>\<open>DecodedLength::danger_len\<close>, \<^verbatim>\<open>ping::channel\<close>); the theories say so. Loops whose end depends on a socket or a server are \<^theory_text>\<open>partial_function (option)\<close>; that they return is proved
  by a measure, from the laws of the transport or from the limits of the configuration. Asynchronous code that waits is modelled
  by its polls where its state lives between them (the HTTP/1 connection and its task, the pool, the loop of redirects); as one
  function over a transport that is not pending where nothing else happens meanwhile (the handshakes); and, where time matters
  (connecting), as a function from the time a future is started to the time it is ready, \<^const>\<open>None\<close> being a future that never is.
  What other threads do to channels, and what they see, is a world that is part of the state of the task and keeps the history of its
  events. No fuel is used anywhere.

  \<^bold>\<open>Interfaces.\<close> Locales state what a component relies on, and each is interpreted on the model: the laws of a header
  map; of URIs; of a reader of bytes (interpreted by slices and by the buffered transport); of a transport (by an in-memory one and by the
  rewound one); of channels, of the cache and of linked sets. The step relation of the pool interleaves what the code does while it holds the lock of
  the pool and what it does to a channel without it: a checkout queues its sender in one step and polls its receiver in another, a dropped checkout drops its
  receiver in one step and cleans the queue in another. In one step the clock is read once, no receiver is dropped by others, and between the check that a
  connection is open and its use the connection does not close; one run of the idle task is one step. Crates (tokio, http2, BoringSSL, tokio\_socks, decompressors) are records of functions.

  \<^bold>\<open>What is shown.\<close>
  \<^item> Bodies: what the chunked encoder writes the decoder reads back, however the stream is cut; a sized body never
    exceeds its announced length; the framing headers agree with the encoder; the length of a response is unambiguous; what is sent as the
    body of an HTTP/2 stream is the body, in order, ended once, and streams of different requests do not mix.
  \<^item> Connections: parsing, reading and flushing return; output only grows and is handed over in order; a connection is
    reused only after a finished exchange and never once keep-alive was disabled; its task answers every request exactly once and
    keeps to what the connection allows, and so do the tasks of an HTTP/2 connection; a connection is declared dead only after its timeout.
  \<^item> Pool: bounds, at most one HTTP/2 connect per host, every waiting request has its sender in the queue of its host, a returned connection goes to the
    one that has waited longest, the idle task evicts; and an assertion that can fail when a sender is faster.
  \<^item> Core client: every attempt carries the request, only requests with the same route share connections, which values of headers survive their ordering.
  \<^item> Connecting: TLS for the host of every https destination whatever the proxy, and where sockets go; addresses and interfaces as configured; the
    race of the address families and its time limits; sessions stay with their host and TLS 1.3 sessions are used once; verification as configured;
    and where the certificate, the protocol or the name of the wrong party is used.
  \<^item> Handshakes: exactly the messages of the protocol are sent, and success follows exactly from the answer; and the ways in which
    the code deviates.
  \<^item> Calls: redirects end, credentials stay with their host, method and body are rewritten as the status demands, defaults
    do not mix with the user's headers, cookies come from the request or from the store for the host they go to; the choice of a proxy equals a reference; and where proxy rules are not applied; forms have
    their announced length; codings are announced and decoded as configured but for the flags that are ignored.

  \<^bold>\<open>Assumptions that are stated in the theorems.\<close> The laws of the crates; for the framing of requests, that \<^verbatim>\<open>Transfer-Encoding\<close> values are visible ASCII; for
  TLS sessions, that no id is used by two hosts; for HTTP/2 streams, that numbers are not given twice; for hosts without a proxy, that the host
  does not end in an asterisk; for exact results of handshakes, that no call on the transport fails.

  \<^bold>\<open>Not modelled.\<close> The builders of the public interface (\<^verbatim>\<open>src/src/client\<close>, \<^verbatim>\<open>core/client/conn\<close>, \<^verbatim>\<open>core/config\<close>), which store
  options; upgrades of HTTP/1 connections after they are handed over, web sockets and cookies, which wrap crates; certificates and key logs; user-supplied layers of
  the connector; platform settings for proxies; adapters between traits of this crate and of tokio; resolvers.
\<close>

section \<open>Announcing codings and decoding them\<close>

lemma announced_gzip: "feat_gzip F \<Longrightarrow> \<exists>t. accepts_as_str F a = Some (''gzip'' @ t)"
  by (auto simp: accepts_as_str_def split: bool.split)

text \<open>A coding that was switched off is announced nevertheless: in a crate built with gzip, a client whose gzip flag is off
  still sends an \<^verbatim>\<open>Accept-Encoding\<close> that begins with \<^verbatim>\<open>gzip\<close>, and the answer in that coding is handed over undecoded.\<close>
lemma disabled_coding_announced:
  assumes "http_laws H" and "execute_request H U L cfg cookies ur = Some (Inr (p, rq))"
    and "list_all (\<lambda>p. http_headers p = None) (cl_proxies cfg)"
    and "feat_gzip F" and "\<not> acc_gzip a" and "cl_accept_encoding cfg = accepts_as_str F a" and "ur_allow_compression ur"
    and "list_all (\<lambda>k. \<not> hm_contains_key H (ur_headers ur) k \<and> \<not> hm_contains_key H (cl_headers cfg) k) [''accept-encoding'', ''range'']"
    and "hm_get_all H response ''content-encoding'' = [''gzip'']" and "hm_get_all H response ''transfer-encoding'' = []"
  shows "(\<exists>t. hm_get_all H (rq_headers rq) ''accept-encoding'' = [''gzip'' @ t]) \<and> detect H F a response = (response, None)"
proof
  from announced_gzip [OF assms(4)] assms(6) obtain t where t: "cl_accept_encoding cfg = Some (''gzip'' @ t)" by metis
  from execute_headers [OF assms(1-3), of "''accept-encoding''"] http_laws.first_headers_accept [OF assms(1,7) t assms(8), of cookies]
  show "\<exists>t. hm_get_all H (rq_headers rq) ''accept-encoding'' = [''gzip'' @ t]" by simp
  show "detect H F a response = (response, None)"
    using assms(5,9,10) by (simp add: detect_def detect_encoding_coded says_coded_def)
qed

text \<open>At a concrete input.\<close>
lemma disabled_coding_announced_instance:
  "\<exists>p rq t. execute_request assoc_http site_url site_proxies (site_client\<lparr>cl_accept_encoding := Some ''gzip''\<rparr>) (\<lambda>_. None) get_site = Some (Inr (p, rq)) \<and>
     hm_get_all assoc_http (rq_headers rq) ''accept-encoding'' = [''gzip'' @ t]"
proof -
  let ?cfg = "site_client\<lparr>cl_accept_encoding := Some ''gzip''\<rparr>"
  let ?F = "\<lparr>feat_gzip = True, feat_brotli = False, feat_zstd = False, feat_deflate = False\<rparr>"
  let ?a = "\<lparr>acc_gzip = False, acc_brotli = False, acc_zstd = False, acc_deflate = False\<rparr>"
  have "(case execute_request assoc_http site_url site_proxies ?cfg (\<lambda>_. None) get_site of Some (Inr _) \<Rightarrow> True | _ \<Rightarrow> False)" by code_simp
  then obtain p rq where e: "execute_request assoc_http site_url site_proxies ?cfg (\<lambda>_. None) get_site = Some (Inr (p, rq))"
    by (auto split: option.splits sum.splits)
  have np: "list_all (\<lambda>p. http_headers p = None) (cl_proxies ?cfg)" by (simp add: site_client_def)
  have ae: "cl_accept_encoding ?cfg = accepts_as_str ?F ?a" by (simp add: accepts_as_str_def)
  have "list_all (\<lambda>k. \<not> hm_contains_key assoc_http (ur_headers get_site) k \<and> \<not> hm_contains_key assoc_http (cl_headers ?cfg) k)
      [''accept-encoding'', ''range'']" by code_simp
  moreover have "hm_get_all assoc_http [(''content-encoding'', ''gzip'')] ''content-encoding'' = [''gzip'']"
    "hm_get_all assoc_http [(''content-encoding'', ''gzip'')] ''transfer-encoding'' = []" by code_simp+
  ultimately have "\<exists>t. hm_get_all assoc_http (rq_headers rq) ''accept-encoding'' = [''gzip'' @ t]"
    using disabled_coding_announced [OF assoc.http_laws_axioms e np _ _ ae, of "[(''content-encoding'', ''gzip'')]"] by (simp add: get_site_def)
  with e show ?thesis by blast
qed

end
